(* ===== verification/Prelude.thy ===== *)
theory Prelude
  imports Complex_Main "HOL-Library.Word" "HOL-Library.Log_Nat"
begin

text \<open>
  The shared base of the development: names for the C integer types the program uses, the
  collections of rewrite rules the component theories extend, and the generic facts on
  lists and indices that several components need. C's \<^verbatim>\<open>uint8_t\<close>, \<^verbatim>\<open>uint16_t\<close>,
  \<^verbatim>\<open>uint32_t\<close>/\<^verbatim>\<open>unsigned\<close> and \<^verbatim>\<open>uint64_t\<close> are words of that width; \<^verbatim>\<open>size_t\<close>
  values that only count or index bounded arrays are natural numbers. A C string is the
  \<open>string\<close> of its characters before the terminating NUL; a pointer argument that the code
  tests for \<^verbatim>\<open>NULL\<close> is an option.
\<close>

unbundle bit_operations_syntax

type_synonym u8 = "8 word"
type_synonym u16 = "16 word"
type_synonym u32 = "32 word"
type_synonym u64 = "64 word"

named_theorems dbl_simps "evaluation and comparison of IEEE doubles"
named_theorems ring_simps "operations of bounded histories over their logical window"
named_theorems step_simps "operations of the state machines, unfolded"

abbreviation UINT64_MAX :: u64 where "UINT64_MAX \<equiv> -1"
abbreviation UINT_MAX :: u32 where "UINT_MAX \<equiv> -1"

subsection \<open>Lists\<close>

lemma map_upt_shift:
  "map f [a..<a + n] = map (\<lambda>i. f (a + i)) [0..<n]"
  by (induction n) simp_all

lemma takeWhile_append_stop:
  "(\<forall>x\<in>set xs. P x) \<Longrightarrow> \<not> P y \<Longrightarrow> takeWhile P (xs @ y # ys) = xs"
  by (simp add: takeWhile_append2)

lemma dropWhile_append_stop:
  "(\<forall>x\<in>set xs. P x) \<Longrightarrow> \<not> P y \<Longrightarrow> dropWhile P (xs @ y # ys) = y # ys"
  by (simp add: dropWhile_append2)

lemma length_dropWhile_less:
  "xs \<noteq> [] \<Longrightarrow> P (hd xs) \<Longrightarrow> length (dropWhile P xs) < length xs"
  by (cases xs) (simp_all add: length_dropWhile_le less_Suc_eq_le)

subsection \<open>Modular indices of a circular buffer\<close>

lemma pos_mod_less: "0 < n \<Longrightarrow> i mod n < (n::nat)"
  by simp

lemma mod_add_if:
  fixes h i n :: nat
  assumes "h < n" "i < n"
  shows "(h + i) mod n = (if h + i < n then h + i else h + i - n)"
  using assms by (simp add: mod_if)

lemma mod_add_inj:
  fixes h i j n :: nat
  assumes "h < n" "i < n" "j < n" "(h + i) mod n = (h + j) mod n"
  shows "i = j"
  using assms by (simp add: mod_add_if split: if_splits)

subsection \<open>Loops that may give up\<close>

text \<open>A loop whose body may return failure: \<open>None\<close> is the early \<^verbatim>\<open>return false\<close>.\<close>

fun foldM :: "('s \<Rightarrow> 'a \<Rightarrow> 's option) \<Rightarrow> 's \<Rightarrow> 'a list \<Rightarrow> 's option" where
  "foldM f s [] = Some s"
| "foldM f s (x # xs) = (case f s x of None \<Rightarrow> None | Some s' \<Rightarrow> foldM f s' xs)"

lemma foldM_append:
  "foldM f s (xs @ ys) = (case foldM f s xs of None \<Rightarrow> None | Some s' \<Rightarrow> foldM f s' ys)"
  by (induction xs arbitrary: s) (auto split: option.split)

lemma foldM_inv:
  assumes "foldM f s xs = Some t" "P s"
    and "\<And>s x s'. P s \<Longrightarrow> x \<in> set xs \<Longrightarrow> f s x = Some s' \<Longrightarrow> P s'"
  shows "P t"
  using assms
proof (induction xs arbitrary: s)
  case (Cons x xs)
  from Cons.prems(1) obtain s' where s': "f s x = Some s'" "foldM f s' xs = Some t"
    by (auto split: option.splits)
  have "P s'" by (rule Cons.prems(3) [OF Cons.prems(2) _ s'(1)]) simp
  then show ?case by (rule Cons.IH [OF s'(2)]) (rule Cons.prems(3), simp_all)
qed simp

lemma foldM_fails: "x \<in> set xs \<Longrightarrow> (\<And>s. f s x = None) \<Longrightarrow> foldM f s xs = None"
  by (induction xs arbitrary: s) (auto split: option.split)

text \<open>A computation in the option monad that cannot fail.\<close>

lemma bind_total:
  assumes "\<exists>v. x = Some v" and "\<And>v. x = Some v \<Longrightarrow> \<exists>w. f v = Some w"
  shows "\<exists>w. Option.bind x f = Some w"
  using assms by auto

lemma if_total:
  assumes "P \<Longrightarrow> \<exists>v. x = Some v" and "\<not> P \<Longrightarrow> \<exists>v. y = Some v"
  shows "\<exists>v. (if P then x else y) = Some v"
  using assms by auto

lemma Some_total: "\<exists>v. Some x = Some v"
  by simp

lemmas total_intros = bind_total if_total Some_total

text \<open>What holds of every value a computation in the option monad returns.\<close>

definition option_post :: "('a \<Rightarrow> bool) \<Rightarrow> 'a option \<Rightarrow> bool" where
  "option_post P x \<longleftrightarrow> (\<forall>v. x = Some v \<longrightarrow> P v)"

lemma option_postD: "option_post P x \<Longrightarrow> x = Some v \<Longrightarrow> P v"
  by (simp add: option_post_def)

lemma option_post_bind:
  "(\<And>v. x = Some v \<Longrightarrow> option_post P (f v)) \<Longrightarrow> option_post P (Option.bind x f)"
  by (auto simp: option_post_def bind_eq_Some_conv)

lemma option_post_if:
  "(b \<Longrightarrow> option_post P x) \<Longrightarrow> (\<not> b \<Longrightarrow> option_post P y) \<Longrightarrow>
     option_post P (if b then x else y)"
  by simp

lemma option_post_Some: "P v \<Longrightarrow> option_post P (Some v)"
  by (simp add: option_post_def)

lemmas post_intros = option_post_bind option_post_if option_post_Some

end
