(* ===== verification/Ring_Window.thy ===== *)
theory Ring_Window
  imports Prelude
begin

text \<open>
  The interface of the program's bounded histories, and the arithmetic of the circular
  arrays that implement them. \<open>bounded_window\<close> is the contract a history promises its
  clients (graphs, the overview page): a logical window of at most \<open>cap\<close> entries, in which
  a new entry replaces the oldest one once the window is full. \<open>ring_window buf h k\<close> is the
  window a circular buffer presents: \<open>k\<close> entries from physical index \<open>h\<close>, wrapping.
\<close>

locale bounded_window =
  fixes cap :: nat
    and inv :: "'s \<Rightarrow> bool"
    and window :: "'s \<Rightarrow> 'a list"
    and entry :: "'v \<Rightarrow> 'a"
    and push :: "'v \<Rightarrow> 's \<Rightarrow> 's"
  assumes cap_pos: "0 < cap"
    and window_bound: "inv s \<Longrightarrow> length (window s) \<le> cap"
    and inv_push: "inv s \<Longrightarrow> inv (push x s)"
    and window_push: "inv s \<Longrightarrow>
      window (push x s) =
        (if length (window s) < cap then window s else tl (window s)) @ [entry x]"
begin

lemma inv_fold_push: "inv s \<Longrightarrow> inv (fold push xs s)"
  by (induction xs arbitrary: s) (auto intro: inv_push)

lemma length_window_push:
  "inv s \<Longrightarrow> length (window (push x s)) = min cap (length (window s) + 1)"
  using window_bound [of s] cap_pos by (auto simp: window_push)

text \<open>Any run of pushes leaves the last \<open>cap\<close> entries, in order.\<close>

lemma window_fold_push:
  "inv s \<Longrightarrow>
   window (fold push xs s) =
     drop (length (window s) + length xs - cap) (window s @ map entry xs)"
proof (induction xs arbitrary: s)
  case Nil
  then show ?case using window_bound [OF Nil] by simp
next
  case (Cons x xs)
  let ?w = "window s"
  have IH: "window (fold push (x # xs) s) =
      drop (length (window (push x s)) + length xs - cap) (window (push x s) @ map entry xs)"
    using Cons.IH [OF inv_push [OF Cons.prems]] by simp
  show ?case
  proof (cases "length ?w < cap")
    case True
    then show ?thesis using IH by (simp add: window_push [OF Cons.prems])
  next
    case False
    with window_bound [OF Cons.prems] have l: "length ?w = cap" by simp
    with cap_pos obtain a w' where w: "?w = a # w'" by (cases ?w) auto
    with l have "cap = Suc (length w')" by simp
    then show ?thesis using IH w by (simp add: window_push [OF Cons.prems])
  qed
qed

text \<open>After a window's worth of entries nothing older is left.\<close>

lemma window_after_refill:
  "inv s \<Longrightarrow> cap \<le> length xs \<Longrightarrow>
   window (fold push xs s) = map entry (drop (length xs - cap) xs)"
  by (simp add: window_fold_push drop_map)

lemma last_window_push: "inv s \<Longrightarrow> last (window (push x s)) = entry x"
  by (simp add: window_push)

end

definition ring_window :: "'a list \<Rightarrow> nat \<Rightarrow> nat \<Rightarrow> 'a list" where
  "ring_window buf h k = map (\<lambda>i. buf ! ((h + i) mod length buf)) [0..<k]"

lemma length_ring_window [simp]: "length (ring_window buf h k) = k"
  by (simp add: ring_window_def)

lemma nth_ring_window [simp]:
  "i < k \<Longrightarrow> ring_window buf h k ! i = buf ! ((h + i) mod length buf)"
  by (simp add: ring_window_def)

text \<open>Appending on the right, while there is room and when the ring is full.\<close>

lemma ring_window_grow:
  assumes "h < length buf" "k < length buf"
  shows "ring_window (buf[(h + k) mod length buf := x]) h (Suc k) = ring_window buf h k @ [x]"
proof (rule nth_equalityI)
  fix i assume "i < length (ring_window (buf[(h + k) mod length buf := x]) h (Suc k))"
  then have i: "i < Suc k" by simp
  have "(h + k) mod length buf = (h + i) mod length buf \<longleftrightarrow> i = k"
    using assms i mod_add_inj [of h "length buf" k i] by auto
  moreover have "(h + k) mod length buf < length buf" by (rule pos_mod_less) (use assms in linarith)
  ultimately show "ring_window (buf[(h + k) mod length buf := x]) h (Suc k) ! i =
      (ring_window buf h k @ [x]) ! i"
    using i by (auto simp: nth_append nth_list_update less_Suc_eq)
qed simp

lemma ring_window_rotate:
  assumes "h < length buf"
  shows "ring_window (buf[h := x]) ((h + 1) mod length buf) (length buf) =
    tl (ring_window buf h (length buf)) @ [x]"
proof (rule nth_equalityI)
  let ?n = "length buf"
  fix i assume "i < length (ring_window (buf[h := x]) ((h + 1) mod ?n) ?n)"
  then have i: "i < ?n" by simp
  have s: "((h + 1) mod ?n + i) mod ?n = (h + Suc i) mod ?n"
    by (simp add: mod_add_left_eq)
  show "ring_window (buf[h := x]) ((h + 1) mod ?n) ?n ! i =
      (tl (ring_window buf h ?n) @ [x]) ! i"
  proof (cases "Suc i = ?n")
    case True
    then have "((h + 1) mod ?n + i) mod ?n = h" "length (tl (ring_window buf h ?n)) = i"
      using s assms by auto
    then show ?thesis using assms i by (simp add: nth_append)
  next
    case False
    with i have "Suc i < ?n" "0 < ?n" by auto
    then have "(h + Suc i) mod ?n \<noteq> (h + 0) mod ?n"
      using assms mod_add_inj [of h ?n "Suc i" 0] by blast
    moreover from False i have "i < ?n - Suc 0" by linarith
    ultimately show ?thesis
      using i assms s by (simp add: nth_append nth_tl)
  qed
qed (use assms in simp)

text \<open>Prepending on the left: the head moves back one slot.\<close>

lemma ring_prev:
  assumes "h < n" "0 < n"
  shows "((h + n - 1) mod n + Suc i) mod n = (h + i) mod (n::nat)"
proof -
  have "((h + n - 1) mod n + Suc i) mod n = (h + n - 1 + Suc i) mod n"
    by (rule mod_add_left_eq)
  also have "h + n - 1 + Suc i = h + i + n" using assms by simp
  finally show ?thesis by simp
qed

lemma ring_window_prepend:
  assumes "h < length buf" "k < length buf"
  shows "ring_window (buf[(h + length buf - 1) mod length buf := x])
      ((h + length buf - 1) mod length buf) (Suc k) = x # ring_window buf h k"
proof (rule nth_equalityI)
  let ?n = "length buf" and ?h = "(h + length buf - 1) mod length buf"
  fix i assume "i < length (ring_window (buf[?h := x]) ?h (Suc k))"
  then have i: "i < Suc k" by simp
  have h: "?h < ?n" by (rule pos_mod_less) (use assms in linarith)
  show "ring_window (buf[?h := x]) ?h (Suc k) ! i = (x # ring_window buf h k) ! i"
  proof (cases i)
    case 0
    then show ?thesis using h by simp
  next
    case (Suc j)
    with i assms have "Suc j < ?n" "0 < ?n" by auto
    then have "(?h + Suc j) mod ?n \<noteq> (?h + 0) mod ?n"
      using mod_add_inj [OF h, of "Suc j" 0] by blast
    then have "(?h + Suc j) mod ?n \<noteq> ?h" using h by simp
    moreover have "(?h + Suc j) mod ?n = (h + j) mod ?n"
      using ring_prev [OF assms(1), of j] \<open>0 < ?n\<close> by blast
    ultimately show ?thesis using Suc i by simp
  qed
qed simp

lemma ring_window_prepend_full:
  assumes "h < length buf"
  shows "ring_window (buf[(h + length buf - 1) mod length buf := x])
      ((h + length buf - 1) mod length buf) (length buf) =
    x # butlast (ring_window buf h (length buf))"
proof -
  obtain k where k: "length buf = Suc k" using assms by (cases "length buf") auto
  have "butlast (ring_window buf h (Suc k)) = ring_window buf h k"
    by (simp add: ring_window_def)
  then show ?thesis
    using ring_window_prepend [OF assms, of k x] k by simp
qed

lemmas ring_window_steps =
  ring_window_grow ring_window_rotate ring_window_prepend ring_window_prepend_full

end
