(* ===== verification/Ieee_Double.thy ===== *)
theory Ieee_Double
  imports Prelude
begin

text \<open>
  C's \<^verbatim>\<open>double\<close> as IEEE 754 binary64. A value is a NaN, an infinity (with its sign) or a
  finite number, held as the rational it denotes; \<open>rnd\<close> is round-to-nearest, ties-to-even
  at 53 significant bits with gradual underflow, and \<open>fl\<close> adds overflow to infinity. The
  arithmetic of the components is this arithmetic, so no theorem of the development assumes
  exact real numbers. The two zeros are one value here: C's comparisons do not distinguish
  them and no modelled operation divides by a zero it computed. A finite \<open>double\<close> of the
  machine satisfies \<open>is_double\<close>.
\<close>

datatype double = NaN | Inf bool | Fin rat

subsection \<open>Rounding\<close>

definition ilog2 :: "rat \<Rightarrow> int" where
  "ilog2 x =
     (let (p, q) = quotient_of x; e = bitlen p - bitlen q
      in if 2 powi e \<le> x then e else e - 1)"

definition ulp_exp :: "rat \<Rightarrow> int" where
  "ulp_exp x = max (ilog2 x) (- 1022) - 52"

definition rne :: "rat \<Rightarrow> int" where
  "rne y =
     (let f = \<lfloor>y\<rfloor>; d = y - of_int f
      in if d < 1 / 2 then f else if 1 / 2 < d then f + 1 else if even f then f else f + 1)"

definition rnd_pos :: "rat \<Rightarrow> rat" where
  "rnd_pos x = of_int (rne (x / 2 powi ulp_exp x)) * 2 powi ulp_exp x"

definition rnd :: "rat \<Rightarrow> rat" where
  "rnd x = (if x = 0 then 0 else if 0 < x then rnd_pos x else - rnd_pos (- x))"

definition fl :: "rat \<Rightarrow> double" where
  "fl x = (let r = rnd x in if 2 ^ 1024 \<le> \<bar>r\<bar> then Inf (r < 0) else Fin r)"

subsection \<open>Predicates and comparisons\<close>

fun isfinite :: "double \<Rightarrow> bool" where
  "isfinite (Fin _) = True"
| "isfinite _ = False"

fun isnan :: "double \<Rightarrow> bool" where
  "isnan NaN = True"
| "isnan _ = False"

fun dless :: "double \<Rightarrow> double \<Rightarrow> bool" where
  "dless (Fin a) (Fin b) = (a < b)"
| "dless (Fin a) (Inf n) = (\<not> n)"
| "dless (Inf n) (Fin b) = n"
| "dless (Inf m) (Inf n) = (m \<and> \<not> n)"
| "dless _ _ = False"

fun dle :: "double \<Rightarrow> double \<Rightarrow> bool" where
  "dle (Fin a) (Fin b) = (a \<le> b)"
| "dle (Fin a) (Inf n) = (\<not> n)"
| "dle (Inf n) (Fin b) = n"
| "dle (Inf m) (Inf n) = (m \<or> \<not> n)"
| "dle _ _ = False"

definition is_double :: "double \<Rightarrow> bool" where
  "is_double d = (case d of Fin r \<Rightarrow> rnd r = r \<and> \<bar>r\<bar> < 2 ^ 1024 | _ \<Rightarrow> True)"

definition dbl_max :: rat where
  "dbl_max = 2 ^ 1024 - 2 ^ 971"

subsection \<open>Arithmetic\<close>

fun dneg :: "double \<Rightarrow> double" where
  "dneg (Fin a) = Fin (- a)"
| "dneg (Inf n) = Inf (\<not> n)"
| "dneg NaN = NaN"

fun dadd :: "double \<Rightarrow> double \<Rightarrow> double" where
  "dadd (Fin a) (Fin b) = fl (a + b)"
| "dadd (Fin a) (Inf n) = Inf n"
| "dadd (Inf n) (Fin b) = Inf n"
| "dadd (Inf m) (Inf n) = (if m = n then Inf m else NaN)"
| "dadd _ _ = NaN"

definition dsub :: "double \<Rightarrow> double \<Rightarrow> double" where
  "dsub x y = dadd x (dneg y)"

fun dmul :: "double \<Rightarrow> double \<Rightarrow> double" where
  "dmul (Fin a) (Fin b) = fl (a * b)"
| "dmul (Fin a) (Inf n) = (if a = 0 then NaN else Inf ((a < 0) \<noteq> n))"
| "dmul (Inf n) (Fin b) = (if b = 0 then NaN else Inf ((b < 0) \<noteq> n))"
| "dmul (Inf m) (Inf n) = Inf (m \<noteq> n)"
| "dmul _ _ = NaN"

fun ddiv :: "double \<Rightarrow> double \<Rightarrow> double" where
  "ddiv (Fin a) (Fin b) =
     (if b = 0 then (if a = 0 then NaN else Inf (a < 0)) else fl (a / b))"
| "ddiv (Fin a) (Inf n) = Fin 0"
| "ddiv (Inf n) (Fin b) = Inf ((b < 0) \<noteq> n)"
| "ddiv _ _ = NaN"

definition fmax :: "double \<Rightarrow> double \<Rightarrow> double" where
  "fmax x y = (if isnan x then y else if isnan y then x else if dless x y then y else x)"

text \<open>C's conversions from the unsigned integer types.\<close>

definition double_of_nat :: "nat \<Rightarrow> double" where
  "double_of_nat n = fl (of_nat n)"

abbreviation double_of_word :: "'a::len word \<Rightarrow> double" where
  "double_of_word w \<equiv> double_of_nat (unat w)"

subsection \<open>The binary exponent\<close>

lemma two_powi_pos [simp]: "0 < (2::rat) powi e"
  by simp

lemma two_powi_not_neg [simp]: "\<not> (2::rat) powi e < 0"
  by (simp add: not_less order_less_imp_le)

lemma two_powi_mono: "d \<le> e \<Longrightarrow> (2::rat) powi d \<le> 2 powi e"
  by (rule power_int_increasing) auto

lemma two_powi_less_iff: "(2::rat) powi d < 2 powi e \<longleftrightarrow> d < e"
  by (meson leD linorder_le_less_linear power_int_strict_increasing two_powi_mono one_less_numeral_iff semiring_norm(76))

lemma bitlen_powi:
  assumes "0 < p"
  shows "2 powi (bitlen p - 1) \<le> (of_int p :: rat)" "(of_int p :: rat) < 2 powi bitlen p"
proof -
  have b: "1 \<le> bitlen p"
    using assms bitlen_eq_zero_iff [of p] bitlen_nonneg [of p] by linarith
  from bitlen_bounds [OF assms] have "2 ^ nat (bitlen p - 1) \<le> p" "p < 2 ^ nat (bitlen p)"
    by auto
  then have "(of_int (2 ^ nat (bitlen p - 1)) :: rat) \<le> of_int p"
    and "(of_int p :: rat) < of_int (2 ^ nat (bitlen p))"
    by (simp_all only: of_int_le_iff of_int_less_iff)
  with b show "2 powi (bitlen p - 1) \<le> (of_int p :: rat)" "(of_int p :: rat) < 2 powi bitlen p"
    by (simp_all add: power_int_def)
qed

lemma ilog2_bounds:
  assumes "0 < x"
  shows "2 powi ilog2 x \<le> x" "x < 2 powi (ilog2 x + 1)"
proof -
  obtain p q where pq: "quotient_of x = (p, q)" by fastforce
  have q: "0 < q" and x: "x = of_int p / of_int q"
    using pq quotient_of_denom_pos quotient_of_div by auto
  with assms have p: "0 < p"
    by (simp add: zero_less_divide_iff)
  let ?e = "bitlen p - bitlen q"
  have qpos: "(0::rat) < of_int q" using q by simp
  have "(2::rat) powi (?e - 1) * of_int q \<le> 2 powi (?e - 1) * 2 powi bitlen q"
    using bitlen_powi(2) [OF q] by (intro mult_left_mono) auto
  also have "\<dots> = 2 powi (bitlen p - 1)"
    by (simp flip: power_int_add)
  also have "\<dots> \<le> of_int p" by (rule bitlen_powi(1) [OF p])
  finally have lo: "2 powi (?e - 1) \<le> x"
    using qpos by (simp add: x le_divide_eq)
  have "(of_int p :: rat) < 2 powi bitlen p" by (rule bitlen_powi(2) [OF p])
  also have "\<dots> = 2 powi (?e + 1) * 2 powi (bitlen q - 1)"
    by (simp flip: power_int_add)
  also have "\<dots> \<le> 2 powi (?e + 1) * of_int q"
    using bitlen_powi(1) [OF q] by (intro mult_left_mono) auto
  finally have hi: "x < 2 powi (?e + 1)"
    using qpos by (simp add: x divide_less_eq)
  from lo hi pq show "2 powi ilog2 x \<le> x" "x < 2 powi (ilog2 x + 1)"
    by (auto simp: ilog2_def Let_def)
qed

lemma ilog2_unique:
  assumes "2 powi e \<le> x" "x < 2 powi (e + 1)"
  shows "ilog2 x = e"
proof -
  have "0 < x" using assms(1) by (meson less_le_trans two_powi_pos)
  from ilog2_bounds [OF this] assms
  have "(2::rat) powi ilog2 x < 2 powi (e + 1)" "(2::rat) powi e < 2 powi (ilog2 x + 1)"
    by (auto intro: le_less_trans)
  then show ?thesis by (simp add: two_powi_less_iff)
qed

lemma ilog2_mono:
  assumes "0 < x" "x \<le> y"
  shows "ilog2 x \<le> ilog2 y"
proof -
  have "0 < y" using assms by simp
  from ilog2_bounds(1) [OF assms(1)] ilog2_bounds(2) [OF this] assms(2)
  have "(2::rat) powi ilog2 x < 2 powi (ilog2 y + 1)" by auto
  then show ?thesis by (simp add: two_powi_less_iff)
qed

subsection \<open>Rounding is monotone and exact on small integers\<close>

lemma rne_of_int [simp]: "rne (of_int n) = n"
  by (simp add: rne_def)

lemma rne_mono:
  assumes "x \<le> y"
  shows "rne x \<le> rne y"
proof (cases "\<lfloor>x\<rfloor> = \<lfloor>y\<rfloor>")
  case True
  with assms show ?thesis by (auto simp: rne_def Let_def)
next
  case False
  then have "\<lfloor>x\<rfloor> + 1 \<le> \<lfloor>y\<rfloor>" using floor_mono [OF assms] by simp
  then show ?thesis by (auto simp: rne_def Let_def)
qed

lemma rnd_pos_upper:
  assumes "0 < x" "ilog2 x < e" "- 1074 \<le> e"
  shows "rnd_pos x \<le> 2 powi e"
proof -
  let ?u = "ulp_exp x"
  have u: "?u \<le> e" using assms(2,3) by (auto simp: ulp_exp_def)
  define n where "n = nat (e - ?u)"
  have e: "(2::rat) powi e = of_int (2 ^ n) * 2 powi ?u"
    using u by (simp add: n_def power_int_def [of _ "int n", symmetric] flip: power_int_add
        power_int_of_nat)
  have "x \<le> 2 powi e"
    using ilog2_bounds(2) [OF assms(1)] two_powi_mono [of "ilog2 x + 1" e] assms(2)
    by linarith
  then have "x / 2 powi ?u \<le> of_int (2 ^ n)"
    by (simp add: e pos_divide_le_eq)
  then have "rne (x / 2 powi ?u) \<le> 2 ^ n"
    using rne_mono rne_of_int by metis
  then have "(of_int (rne (x / 2 powi ?u)) :: rat) \<le> of_int (2 ^ n)"
    by (simp only: of_int_le_iff)
  then show ?thesis
    unfolding rnd_pos_def e by (intro mult_right_mono) auto
qed

lemma rnd_pos_lower:
  assumes "0 < x" "ulp_exp x \<le> e" "2 powi e \<le> x"
  shows "2 powi e \<le> rnd_pos x"
proof -
  let ?u = "ulp_exp x"
  define n where "n = nat (e - ?u)"
  have e: "(2::rat) powi e = of_int (2 ^ n) * 2 powi ?u"
    using assms(2) by (simp add: n_def flip: power_int_add power_int_of_nat)
  have "of_int (2 ^ n) \<le> x / 2 powi ?u"
    using assms(3) by (simp add: e pos_le_divide_eq)
  then have "2 ^ n \<le> rne (x / 2 powi ?u)"
    using rne_mono rne_of_int by metis
  then have "of_int (2 ^ n) \<le> (of_int (rne (x / 2 powi ?u)) :: rat)"
    by (simp only: of_int_le_iff)
  then show ?thesis
    unfolding rnd_pos_def e by (intro mult_right_mono) auto
qed

lemma rne_0 [simp]: "rne 0 = 0"
  using rne_of_int [of 0] by simp

lemma rnd_pos_nonneg: "0 < x \<Longrightarrow> 0 \<le> rnd_pos x"
  using rne_mono [of 0 "x / 2 powi ulp_exp x"]
  by (simp add: rnd_pos_def)

lemma rnd_pos_mono:
  assumes "0 < x" "x \<le> y"
  shows "rnd_pos x \<le> rnd_pos y"
proof (cases "ulp_exp x = ulp_exp y")
  case True
  have "rne (x / 2 powi ulp_exp y) \<le> rne (y / 2 powi ulp_exp y)"
    using assms(2) by (intro rne_mono divide_right_mono) auto
  then show ?thesis
    using True by (auto simp: rnd_pos_def intro!: mult_right_mono)
next
  case False
  with ilog2_mono [OF assms] have l: "ilog2 x < ilog2 y" "- 1022 < ilog2 y"
    by (auto simp: ulp_exp_def)
  have y: "0 < y" using assms by simp
  have "rnd_pos x \<le> 2 powi ilog2 y"
    using assms(1) l by (intro rnd_pos_upper) auto
  also have "\<dots> \<le> rnd_pos y"
    using y l ilog2_bounds(1) [OF y] by (intro rnd_pos_lower) (auto simp: ulp_exp_def)
  finally show ?thesis .
qed

lemma rnd_0 [simp]: "rnd 0 = 0"
  by (simp add: rnd_def)

lemma rnd_neg: "rnd (- x) = - rnd x"
  by (simp add: rnd_def)

lemma rnd_nonneg: "0 \<le> x \<Longrightarrow> 0 \<le> rnd x"
  by (simp add: rnd_def rnd_pos_nonneg)

lemma rnd_mono:
  assumes "x \<le> y"
  shows "rnd x \<le> rnd y"
proof -
  consider "0 < x" | "y < 0" | "x \<le> 0" "0 \<le> y" by linarith
  then show ?thesis
  proof cases
    case 1
    with assms show ?thesis by (simp add: rnd_def rnd_pos_mono)
  next
    case 2
    with assms show ?thesis by (simp add: rnd_def rnd_pos_mono)
  next
    case 3
    then have "rnd x \<le> 0" using rnd_nonneg [of "- x"] by (simp add: rnd_neg)
    also have "0 \<le> rnd y" using 3 by (simp add: rnd_nonneg)
    finally show ?thesis .
  qed
qed

lemma rnd_pos_multiple:
  assumes "x = of_int k * 2 powi e" "ulp_exp x \<le> e"
  shows "rnd_pos x = x"
proof -
  have "x / 2 powi ulp_exp x = of_int k * (2 powi e / 2 powi ulp_exp x)"
    by (simp add: assms(1))
  also have "\<dots> = of_int (k * 2 ^ nat (e - ulp_exp x))"
    using assms(2) by (simp flip: power_int_diff power_int_of_nat)
  finally have q: "x / 2 powi ulp_exp x = of_int (k * 2 ^ nat (e - ulp_exp x))" .
  show ?thesis
    unfolding rnd_pos_def q rne_of_int
    by (metis q nonzero_eq_divide_eq two_powi_pos less_irrefl)
qed

lemma ulp_exp_dyadic:
  assumes "0 < k" "k < 2 ^ 53" "- 1074 \<le> e"
  shows "ulp_exp (of_int k * 2 powi e) \<le> e"
proof -
  define x where "x = of_int k * (2::rat) powi e"
  have x0: "0 < x" using assms(1) by (simp add: x_def)
  have "(of_int k :: rat) < of_int (2 ^ 53)"
    using assms(2) by (simp only: of_int_less_iff)
  then have "x < 2 powi (53 + e)" by (simp add: x_def power_int_add)
  with ilog2_bounds(1) [OF x0] have "(2::rat) powi ilog2 x < 2 powi (53 + e)" by linarith
  then have "ilog2 x < 53 + e" by (simp only: two_powi_less_iff)
  then show ?thesis using assms(3) by (simp add: ulp_exp_def x_def)
qed

lemma rnd_pos_dyadic:
  assumes "0 < k" "k \<le> 2 ^ 53" "- 1074 \<le> e"
  shows "rnd_pos (of_int k * 2 powi e) = of_int k * 2 powi e"
proof (cases "k = 2 ^ 53")
  case True
  then have x: "of_int k * (2::rat) powi e = of_int 1 * 2 powi (e + 53)"
    by (simp add: power_int_add)
  have "ulp_exp (of_int 1 * 2 powi (e + 53)) \<le> e + 53"
    using assms(3) by (intro ulp_exp_dyadic) auto
  then show ?thesis unfolding x by (rule rnd_pos_multiple [OF refl])
next
  case False
  with assms have "ulp_exp (of_int k * 2 powi e) \<le> e" by (intro ulp_exp_dyadic) auto
  then show ?thesis by (rule rnd_pos_multiple [OF refl])
qed

lemma rnd_dyadic:
  assumes "\<bar>m\<bar> \<le> 2 ^ 53" "- 1074 \<le> e"
  shows "rnd (of_int m * 2 powi e) = of_int m * 2 powi e"
  using rnd_pos_dyadic [of m e] rnd_pos_dyadic [of "- m" e] assms
  by (auto simp: rnd_def zero_less_mult_iff)

lemma rnd_of_int: "\<bar>n\<bar> \<le> 2 ^ 53 \<Longrightarrow> rnd (of_int n) = of_int n"
  using rnd_dyadic [of n 0] by simp

lemma rnd_numeral [dbl_simps]:
  "(numeral k :: int) \<le> 2 ^ 53 \<Longrightarrow> rnd (numeral k) = numeral k"
  using rnd_of_int [of "numeral k"] by simp

lemma rnd_1 [simp]: "rnd 1 = 1"
  using rnd_of_int [of 1] by simp

subsection \<open>The order on doubles and rounding results\<close>

lemma dless_asym: "dless x y \<Longrightarrow> \<not> dless y x"
  by (cases x; cases y) auto

lemma dle_antisym: "dle x y \<Longrightarrow> dle y x \<Longrightarrow> x = y"
  by (cases x; cases y) auto

lemma dle_trans: "dle x y \<Longrightarrow> dle y z \<Longrightarrow> dle x z"
  by (cases x; cases y; cases z) auto

lemma dless_trans: "dless x y \<Longrightarrow> dless y z \<Longrightarrow> dless x z"
  by (cases x; cases y; cases z) auto

lemma dle_dless_trans: "dle x y \<Longrightarrow> dless y z \<Longrightarrow> dless x z"
  by (cases x; cases y; cases z) auto

lemma dless_dle_trans: "dless x y \<Longrightarrow> dle y z \<Longrightarrow> dless x z"
  by (cases x; cases y; cases z) auto

lemma not_dless_dle: "\<not> isnan x \<Longrightarrow> \<not> isnan y \<Longrightarrow> \<not> dless x y \<longleftrightarrow> dle y x"
  by (cases x; cases y) auto

lemma isfiniteE: "isfinite d \<Longrightarrow> (\<And>r. d = Fin r \<Longrightarrow> P) \<Longrightarrow> P"
  by (cases d) auto

lemma fl_exact [dbl_simps]: "rnd x = x \<Longrightarrow> \<bar>x\<bar> < 2 ^ 1024 \<Longrightarrow> fl x = Fin x"
  by (simp add: fl_def)

lemma fl_0 [simp]: "fl 0 = Fin 0"
  by (simp add: fl_def)

lemma fl_not_nan [simp]: "\<not> isnan (fl x)"
  by (simp add: fl_def Let_def)

lemma fl_mono: "x \<le> y \<Longrightarrow> dle (fl x) (fl y)"
  using rnd_mono [of x y] by (auto simp: fl_def Let_def abs_if split: if_splits)

text \<open>A result is pinned between two representable bounds: the workhorse for clamps.\<close>

lemma fl_between:
  assumes "rnd lo = lo" "rnd hi = hi" "\<bar>lo\<bar> < 2 ^ 1024" "\<bar>hi\<bar> < 2 ^ 1024" "lo \<le> x" "x \<le> hi"
  shows "\<exists>r. fl x = Fin r \<and> lo \<le> r \<and> r \<le> hi"
proof -
  have "lo \<le> rnd x" "rnd x \<le> hi"
    using rnd_mono [OF assms(5)] rnd_mono [OF assms(6)] assms(1,2) by simp_all
  then show ?thesis using assms(3,4) by (simp add: fl_def Let_def)
qed

lemma rnd_pos_idem:
  assumes "0 < x"
  shows "rnd (rnd_pos x) = rnd_pos x"
proof -
  let ?u = "ulp_exp x"
  have "x \<le> 2 powi (?u + 53)"
    using ilog2_bounds(2) [OF assms] two_powi_mono [of "ilog2 x + 1" "?u + 53"]
    by (simp add: ulp_exp_def)
  then have "x / 2 powi ?u \<le> of_int (2 ^ 53)"
    by (simp add: power_int_add pos_divide_le_eq mult.commute)
  then have "rne (x / 2 powi ?u) \<le> 2 ^ 53" using rne_mono rne_of_int by metis
  moreover have "0 \<le> rne (x / 2 powi ?u)" using rne_mono [of 0] assms by simp
  ultimately show ?thesis
    unfolding rnd_pos_def by (intro rnd_dyadic) (auto simp: ulp_exp_def)
qed

lemma rnd_idem [simp]: "rnd (rnd x) = rnd x"
  using rnd_pos_idem [of x] rnd_pos_idem [of "- x"]
  by (auto simp: rnd_def [of x] rnd_neg)

lemma is_double_fl [simp]: "is_double (fl x)"
  by (simp add: is_double_def fl_def Let_def)

lemma is_double_bound: "is_double (Fin r) \<Longrightarrow> rnd r = r \<and> \<bar>r\<bar> < 2 ^ 1024"
  by (simp add: is_double_def)

text \<open>Dividing a non-negative double by a representable number of at least one cannot
  overflow.\<close>

lemma ddiv_finite:
  assumes "is_double (Fin a)" "0 \<le> a" "1 \<le> b"
  shows "\<exists>r. ddiv (Fin a) (Fin b) = Fin r \<and> 0 \<le> r \<and> r \<le> a"
proof -
  have "a / b \<le> a" using assms(2,3) mult_left_mono [of 1 b a] by (simp add: pos_divide_le_eq)
  then have "\<exists>r. fl (a / b) = Fin r \<and> 0 \<le> r \<and> r \<le> a"
    using assms is_double_bound [OF assms(1)] by (intro fl_between) auto
  with assms(3) show ?thesis by auto
qed

lemma rnd_u64: "rnd (2 ^ 64) = 2 ^ 64"
  using rnd_dyadic [of 1 64] by simp

lemma double_of_nat_bounds:
  assumes "n \<le> 2 ^ 64"
  shows "\<exists>r. double_of_nat n = Fin r \<and> is_double (Fin r) \<and> 0 \<le> r \<and> (0 < n \<longrightarrow> 1 \<le> r)"
proof -
  have "(of_nat n :: rat) \<le> of_nat (2 ^ 64)" using assms by (simp only: of_nat_le_iff)
  then have hi: "(of_nat n :: rat) \<le> 2 ^ 64" by simp
  define lo :: rat where "lo = (if 0 < n then 1 else 0)"
  have lo: "rnd lo = lo" "0 \<le> lo" "\<bar>lo\<bar> < 2 ^ 1024" "lo \<le> of_nat n"
    by (auto simp: lo_def)
  obtain r where "fl (of_nat n) = Fin r" "lo \<le> r"
    using fl_between [OF lo(1) rnd_u64 lo(3) _ lo(4) hi] by auto
  moreover from this have "is_double (Fin r)" using is_double_fl [of "of_nat n"] by simp
  ultimately show ?thesis using lo(2) by (auto simp: double_of_nat_def lo_def)
qed

lemma double_of_word_bounds:
  fixes w :: u64
  shows "\<exists>r. double_of_word w = Fin r \<and> is_double (Fin r) \<and> 0 \<le> r \<and> (0 < w \<longrightarrow> 1 \<le> r)"
  using double_of_nat_bounds [of "unat w"] unsigned_less [of w, where ?'a = nat]
  by (auto simp: word_less_nat_alt)

subsection \<open>The rounded midpoint of two doubles lies between them\<close>

text \<open>The exponent of the smallest positive double; kept folded, as its power is huge.\<close>

definition emin :: int where
  "emin = - 1074"

lemma emin_le_ulp_exp: "emin \<le> ulp_exp x"
  by (simp add: emin_def ulp_exp_def)

lemma rnd_pos_grid: "\<exists>k. rnd_pos x = of_int k * 2 powi emin"
proof -
  have "(2::rat) powi ulp_exp x = of_int (2 ^ nat (ulp_exp x - emin)) * 2 powi emin"
    using emin_le_ulp_exp [of x] by (simp flip: power_int_add power_int_of_nat)
  then have "rnd_pos x =
      of_int (rne (x / 2 powi ulp_exp x) * 2 ^ nat (ulp_exp x - emin)) * 2 powi emin"
    by (simp add: rnd_pos_def)
  then show ?thesis by blast
qed

lemma rnd_grid: "\<exists>k. rnd x = of_int k * 2 powi emin"
proof -
  obtain k l where "rnd_pos x = of_int k * 2 powi emin"
    and "rnd_pos (- x) = of_int l * 2 powi emin"
    using rnd_pos_grid by blast
  then have "rnd x = of_int (if x = 0 then 0 else if 0 < x then k else - l) * 2 powi emin"
    by (simp add: rnd_def)
  then show ?thesis by blast
qed

lemma double_difference_ilog2:
  assumes "rnd a = a" "rnd b = b" "a < b"
  shows "emin \<le> ilog2 (b - a)"
proof -
  obtain k l where a: "a = of_int k * 2 powi emin" and b: "b = of_int l * 2 powi emin"
    using rnd_grid [of a] rnd_grid [of b] assms(1,2) by auto
  have x: "b - a = of_int (l - k) * 2 powi emin" by (simp add: a b left_diff_distrib)
  with assms(3) have "(0::rat) < of_int (l - k)"
    by (metis diff_gt_0_iff_gt two_powi_pos zero_less_mult_iff less_asym)
  then have "1 \<le> l - k" by simp
  then have "(1::rat) \<le> of_int (l - k)" by (metis of_int_1 of_int_le_iff)
  then have "2 powi emin \<le> b - a" unfolding x by simp
  moreover have "b - a < 2 powi (ilog2 (b - a) + 1)"
    using assms(3) by (intro ilog2_bounds(2)) simp
  ultimately have "(2::rat) powi emin < 2 powi (ilog2 (b - a) + 1)" by linarith
  then show ?thesis by (simp only: two_powi_less_iff)
qed

lemma rnd_half:
  assumes "0 < x" "emin \<le> ilog2 x"
  shows "rnd (rnd x / 2) \<le> x"
proof -
  let ?p = "(2::rat) powi ilog2 x"
  have "rnd x \<le> 2 powi (ilog2 x + 1)"
    using assms rnd_pos_upper [of x "ilog2 x + 1"] by (simp add: rnd_def emin_def)
  then have "rnd x / 2 \<le> ?p" by (simp add: power_int_add)
  then have "rnd (rnd x / 2) \<le> rnd ?p" by (rule rnd_mono)
  also have "rnd ?p = ?p" using rnd_dyadic [of 1 "ilog2 x"] assms(2) by (simp add: emin_def)
  also have "?p \<le> x" by (rule ilog2_bounds(1) [OF assms(1)])
  finally show ?thesis .
qed

lemma midpoint_between:
  assumes "is_double (Fin a)" "is_double (Fin b)" "0 \<le> a" "a < b"
  shows "\<exists>g. dadd (Fin a) (ddiv (dsub (Fin b) (Fin a)) (Fin 2)) = Fin g \<and> a \<le> g \<and> g \<le> b"
proof -
  have a: "rnd a = a" and b: "rnd b = b" "b < 2 ^ 1024"
    using assms by (auto simp: is_double_def)
  have d: "0 \<le> rnd (b - a)" "rnd (b - a) \<le> b"
    using assms rnd_nonneg [of "b - a"] rnd_mono [of "b - a" b] b by auto
  then have sub: "dsub (Fin b) (Fin a) = Fin (rnd (b - a))"
    using b by (simp add: dsub_def fl_def)
  have h0: "0 \<le> rnd (rnd (b - a) / 2)" using d by (intro rnd_nonneg) simp
  have h1: "rnd (rnd (b - a) / 2) \<le> b - a"
    using assms(4) double_difference_ilog2 [OF a b(1) assms(4)] by (intro rnd_half) auto
  have h: "ddiv (dsub (Fin b) (Fin a)) (Fin 2) = Fin (rnd (rnd (b - a) / 2))"
    using h0 h1 assms(3) b by (simp add: sub fl_def)
  have "\<exists>g. fl (a + rnd (rnd (b - a) / 2)) = Fin g \<and> a \<le> g \<and> g \<le> b"
    using a b h0 h1 assms by (intro fl_between) auto
  then show ?thesis by (simp add: h)
qed

text \<open>A finite percentage.\<close>

definition is_percent :: "double \<Rightarrow> bool" where
  "is_percent d \<longleftrightarrow> dle (Fin 0) d \<and> dle d (Fin 100)"

lemma is_percent_0 [simp]: "is_percent (Fin 0)"
  by (simp add: is_percent_def)

lemma is_percent_Fin [simp]: "is_percent (Fin r) \<longleftrightarrow> 0 \<le> r \<and> r \<le> 100"
  by (simp add: is_percent_def)

lemma is_percent_finite: "is_percent d \<Longrightarrow> isfinite d"
  by (cases d) (auto simp: is_percent_def)

end
