(* ===== verification/Sample_History.thy ===== *)
theory Sample_History
  imports Ring_Window Ieee_Double
begin

text \<open>
  \<^verbatim>\<open>src/sample_history.c\<close>: the fixed 600-slot circular history behind every live graph.
  A slot carries a number and a flag saying whether it was ever a real sample. The record
  is the C struct; \<open>shistory_window\<close> reads it as the logical sequence of (value, valid)
  pairs from left to right, and the operations are proved to act on that sequence.
\<close>

definition LSM_HISTORY_LENGTH :: nat where
  "LSM_HISTORY_LENGTH = 600"

record sample_history =
  sh_values :: "double list"
  sh_valid :: "bool list"
  sh_count :: nat
  sh_head :: nat

definition lsm_sample_history_init :: sample_history where
  "lsm_sample_history_init =
     \<lparr>sh_values = replicate LSM_HISTORY_LENGTH (Fin 0),
      sh_valid = replicate LSM_HISTORY_LENGTH False,
      sh_count = LSM_HISTORY_LENGTH, sh_head = 0\<rparr>"

text \<open>The slot a push writes, and the head and count it leaves: the code's three branches.\<close>

definition lsm_sample_history_push ::
  "sample_history \<Rightarrow> double \<Rightarrow> bool \<Rightarrow> sample_history" where
  "lsm_sample_history_push h value newer_on_right =
     (let (index, head', count') =
        (if sh_count h < LSM_HISTORY_LENGTH then
           (if newer_on_right then
              ((sh_head h + sh_count h) mod LSM_HISTORY_LENGTH, sh_head h, sh_count h + 1)
            else
              let head = (sh_head h + LSM_HISTORY_LENGTH - 1) mod LSM_HISTORY_LENGTH
              in (head, head, sh_count h + 1))
         else if newer_on_right then
           (sh_head h, (sh_head h + 1) mod LSM_HISTORY_LENGTH, sh_count h)
         else
           let head = (sh_head h + LSM_HISTORY_LENGTH - 1) mod LSM_HISTORY_LENGTH
           in (head, head, sh_count h))
      in h\<lparr>sh_values := (sh_values h)[index := (if isfinite value then value else Fin 0)],
           sh_valid := (sh_valid h)[index := isfinite value],
           sh_head := head', sh_count := count'\<rparr>)"

definition lsm_sample_history_get :: "sample_history option \<Rightarrow> nat \<Rightarrow> double" where
  "lsm_sample_history_get history logical_index =
     (case history of
        None \<Rightarrow> Fin 0
      | Some h \<Rightarrow>
          if sh_count h \<le> logical_index then Fin 0
          else sh_values h ! ((sh_head h + logical_index) mod LSM_HISTORY_LENGTH))"

definition lsm_sample_history_is_valid :: "sample_history option \<Rightarrow> nat \<Rightarrow> bool" where
  "lsm_sample_history_is_valid history logical_index =
     (case history of
        None \<Rightarrow> False
      | Some h \<Rightarrow>
          if sh_count h \<le> logical_index then False
          else sh_valid h ! ((sh_head h + logical_index) mod LSM_HISTORY_LENGTH))"

subsection \<open>The logical window\<close>

definition shistory_inv :: "sample_history \<Rightarrow> bool" where
  "shistory_inv h \<longleftrightarrow>
     length (sh_values h) = LSM_HISTORY_LENGTH \<and> length (sh_valid h) = LSM_HISTORY_LENGTH \<and>
     sh_count h \<le> LSM_HISTORY_LENGTH \<and> sh_head h < LSM_HISTORY_LENGTH"

definition shistory_window :: "sample_history \<Rightarrow> (double \<times> bool) list" where
  "shistory_window h = zip (ring_window (sh_values h) (sh_head h) (sh_count h))
     (ring_window (sh_valid h) (sh_head h) (sh_count h))"

definition shistory_entry :: "double \<Rightarrow> double \<times> bool" where
  "shistory_entry v = (if isfinite v then (v, True) else (Fin 0, False))"

lemma history_length_pos [simp]: "0 < LSM_HISTORY_LENGTH"
  by (simp add: LSM_HISTORY_LENGTH_def)

lemma length_shistory_window [ring_simps]: "length (shistory_window h) = sh_count h"
  by (simp add: shistory_window_def)

lemma shistory_inv_init: "shistory_inv lsm_sample_history_init"
  by (simp add: shistory_inv_def lsm_sample_history_init_def)

lemma shistory_window_init:
  "shistory_window lsm_sample_history_init = replicate LSM_HISTORY_LENGTH (Fin 0, False)"
  by (auto simp: shistory_window_def lsm_sample_history_init_def intro!: nth_equalityI)

lemma shistory_inv_push: "shistory_inv h \<Longrightarrow> shistory_inv (lsm_sample_history_push h v r)"
  by (auto simp: shistory_inv_def lsm_sample_history_push_def Let_def)

lemma butlast_zip:
  "length xs = length ys \<Longrightarrow> butlast (zip xs ys) = zip (butlast xs) (butlast ys)"
  by (simp add: butlast_conv_take take_zip)

lemma tl_rev_butlast: "tl (rev xs) = rev (butlast xs)"
  by (metis butlast_rev rev_rev_ident)

lemma tl_zip:
  "tl (zip xs ys) = zip (tl xs) (tl ys)"
  by (cases xs; cases ys) simp_all

lemma shistory_window_push_right:
  assumes "shistory_inv h"
  shows "shistory_window (lsm_sample_history_push h v True) =
    (if sh_count h < LSM_HISTORY_LENGTH then shistory_window h else tl (shistory_window h))
      @ [shistory_entry v]"
proof (cases "sh_count h < LSM_HISTORY_LENGTH")
  case True
  with assms show ?thesis
    using ring_window_grow [of "sh_head h" "sh_values h" "sh_count h"]
      ring_window_grow [of "sh_head h" "sh_valid h" "sh_count h"]
    by (simp add: shistory_inv_def shistory_window_def lsm_sample_history_push_def
        shistory_entry_def Let_def)
next
  case False
  with assms have "sh_count h = LSM_HISTORY_LENGTH" by (simp add: shistory_inv_def)
  with assms show ?thesis
    using ring_window_rotate [of "sh_head h" "sh_values h"]
      ring_window_rotate [of "sh_head h" "sh_valid h"]
    by (simp add: shistory_inv_def shistory_window_def lsm_sample_history_push_def
        shistory_entry_def Let_def tl_zip)
qed

lemma shistory_window_push_left:
  assumes "shistory_inv h"
  shows "shistory_window (lsm_sample_history_push h v False) =
    shistory_entry v #
      (if sh_count h < LSM_HISTORY_LENGTH then shistory_window h
       else butlast (shistory_window h))"
proof (cases "sh_count h < LSM_HISTORY_LENGTH")
  case True
  with assms show ?thesis
    using ring_window_prepend [of "sh_head h" "sh_values h" "sh_count h"]
      ring_window_prepend [of "sh_head h" "sh_valid h" "sh_count h"]
    by (simp add: shistory_inv_def shistory_window_def lsm_sample_history_push_def
        shistory_entry_def Let_def)
next
  case False
  with assms have "sh_count h = LSM_HISTORY_LENGTH" by (simp add: shistory_inv_def)
  with assms show ?thesis
    using ring_window_prepend_full [of "sh_head h" "sh_values h"]
      ring_window_prepend_full [of "sh_head h" "sh_valid h"]
    by (simp add: shistory_inv_def shistory_window_def lsm_sample_history_push_def
        shistory_entry_def Let_def butlast_zip)
qed

text \<open>
  Both directions implement \<open>bounded_window\<close>: pushing on the right over the window read
  left to right, pushing on the left over the window read right to left.
\<close>

interpretation rightward: bounded_window LSM_HISTORY_LENGTH shistory_inv shistory_window
  shistory_entry "\<lambda>v h. lsm_sample_history_push h v True"
proof (unfold_locales, goal_cases)
  case 1 show ?case by simp
next
  case (2 s) then show ?case by (simp add: shistory_inv_def ring_simps)
next
  case (3 s x) then show ?case by (rule shistory_inv_push)
next
  case (4 s x) then show ?case by (simp add: shistory_window_push_right ring_simps)
qed

interpretation leftward: bounded_window LSM_HISTORY_LENGTH shistory_inv
  "\<lambda>h. rev (shistory_window h)" shistory_entry "\<lambda>v h. lsm_sample_history_push h v False"
proof (unfold_locales, goal_cases)
  case 1 show ?case by simp
next
  case (2 s) then show ?case by (simp add: shistory_inv_def ring_simps)
next
  case (3 s x) then show ?case by (rule shistory_inv_push)
next
  case (4 s x) then show ?case
    by (simp add: shistory_window_push_left ring_simps tl_rev_butlast)
qed

text \<open>What the accessors show is the window.\<close>

definition shistory_read :: "sample_history \<Rightarrow> nat \<Rightarrow> double \<times> bool" where
  "shistory_read h i = (lsm_sample_history_get (Some h) i, lsm_sample_history_is_valid (Some h) i)"

lemma shistory_read_window:
  assumes "shistory_inv h"
  shows "map (shistory_read h) [0..<LSM_HISTORY_LENGTH] =
    shistory_window h @ replicate (LSM_HISTORY_LENGTH - sh_count h) (Fin 0, False)"
proof (rule nth_equalityI)
  fix i assume "i < length (map (shistory_read h) [0..<LSM_HISTORY_LENGTH])"
  with assms show "map (shistory_read h) [0..<LSM_HISTORY_LENGTH] ! i =
      (shistory_window h @ replicate (LSM_HISTORY_LENGTH - sh_count h) (Fin 0, False)) ! i"
    by (simp add: shistory_inv_def shistory_read_def lsm_sample_history_get_def
        lsm_sample_history_is_valid_def nth_append ring_simps)
      (simp add: shistory_window_def)
qed (use assms in \<open>simp add: shistory_inv_def ring_simps\<close>)

lemma length_window_fold_init:
  "length (shistory_window (fold (\<lambda>v h. lsm_sample_history_push h v r) vs
     lsm_sample_history_init)) = LSM_HISTORY_LENGTH"
proof -
  have "length (shistory_window h) = LSM_HISTORY_LENGTH \<Longrightarrow> length (shistory_window
      (fold (\<lambda>v h. lsm_sample_history_push h v r) vs h)) = LSM_HISTORY_LENGTH" for h
    by (induction vs arbitrary: h) (auto simp: ring_simps lsm_sample_history_push_def Let_def)
  then show ?thesis by (simp add: shistory_window_init)
qed

text \<open>
  C1. The history of a graph: after initialisation and any sequence of pushes in one
  direction, reading all 600 logical slots shows exactly the most recent 600 entries in
  order (newest last when newer samples go right, newest first when they go left), every
  never-written slot and every non-finite sample reads as the invalid pair (0, false).
\<close>

theorem sample_history_shows_last_samples:
  "map (shistory_read (fold (\<lambda>v h. lsm_sample_history_push h v True) vs
       lsm_sample_history_init)) [0..<LSM_HISTORY_LENGTH]
     = drop (length vs)
         (replicate LSM_HISTORY_LENGTH (Fin 0, False) @ map shistory_entry vs) \<and>
   map (shistory_read (fold (\<lambda>v h. lsm_sample_history_push h v False) vs
       lsm_sample_history_init)) [0..<LSM_HISTORY_LENGTH]
     = rev (drop (length vs)
         (replicate LSM_HISTORY_LENGTH (Fin 0, False) @ map shistory_entry vs))"
proof
  let ?r = "fold (\<lambda>v h. lsm_sample_history_push h v True) vs lsm_sample_history_init"
  let ?l = "fold (\<lambda>v h. lsm_sample_history_push h v False) vs lsm_sample_history_init"
  have c: "sh_count ?r = LSM_HISTORY_LENGTH" "sh_count ?l = LSM_HISTORY_LENGTH"
    using length_window_fold_init [of True vs] length_window_fold_init [of False vs]
    by (simp_all add: ring_simps)
  show "map (shistory_read ?r) [0..<LSM_HISTORY_LENGTH] = drop (length vs)
      (replicate LSM_HISTORY_LENGTH (Fin 0, False) @ map shistory_entry vs)"
    using rightward.window_fold_push [OF shistory_inv_init, of vs] c(1)
      shistory_read_window [OF rightward.inv_fold_push [OF shistory_inv_init], of vs]
    by (simp add: shistory_window_init)
  have "rev (shistory_window ?l) = drop (length vs)
      (replicate LSM_HISTORY_LENGTH (Fin 0, False) @ map shistory_entry vs)"
    using leftward.window_fold_push [OF shistory_inv_init, of vs]
    by (simp add: shistory_window_init)
  then have "shistory_window ?l = rev (drop (length vs)
      (replicate LSM_HISTORY_LENGTH (Fin 0, False) @ map shistory_entry vs))"
    by (metis rev_rev_ident)
  then show "map (shistory_read ?l) [0..<LSM_HISTORY_LENGTH] = rev (drop (length vs)
      (replicate LSM_HISTORY_LENGTH (Fin 0, False) @ map shistory_entry vs))"
    using shistory_read_window [OF leftward.inv_fold_push [OF shistory_inv_init], of vs] c(2)
    by simp
qed

end
