(* ===== verification/Monitor_Types.thy ===== *)
theory Monitor_Types
  imports Ieee_Double
begin

text \<open>
  The platform-neutral data model of \<^verbatim>\<open>src/monitor_types.h\<close> and \<^verbatim>\<open>src/process_model.h\<close>.
  Each C struct is a record with the source's field names behind a short prefix; a
  fixed array together with its count field is the list of its live entries, and a
  character buffer is the string it holds. Fields that no modelled operation reads or
  writes (icons, labels, D-Bus details) are left out of the records.
\<close>

definition LSM_NAME_LEN :: nat where "LSM_NAME_LEN = 128"
definition LSM_PATH_LEN :: nat where "LSM_PATH_LEN = 512"
definition LSM_IDENTITY_LEN :: nat where "LSM_IDENTITY_LEN = 512"
definition LSM_MAX_CPUS :: nat where "LSM_MAX_CPUS = 512"
definition SIZE_MAX :: nat where "SIZE_MAX = 2 ^ 64 - 1"

lemmas lsm_lengths = LSM_NAME_LEN_def LSM_PATH_LEN_def LSM_IDENTITY_LEN_def LSM_MAX_CPUS_def

record cpu_info =
  cpu_model :: string
  cpu_logical_cores :: nat
  cpu_usage_percent :: double
  cpu_user_percent :: double
  cpu_kernel_percent :: double
  cpu_usage_available :: bool
  cpu_temperature_c :: double
  cpu_temperature_available :: bool
  cpu_temperature_warning_c :: double
  cpu_temperature_warning_available :: bool
  cpu_temperature_critical_c :: double
  cpu_temperature_critical_available :: bool
  cpu_interrupts_per_sec :: double
  cpu_interrupts_per_sec_available :: bool
  cpu_context_switches_per_sec :: double
  cpu_context_switches_per_sec_available :: bool
  cpu_interrupt_count :: u64
  cpu_context_switch_count :: u64
  cpu_core_usage :: "double list"

record memory_info =
  mem_total_bytes :: u64
  mem_available_bytes :: u64
  mem_cached_bytes :: u64
  mem_committed_bytes :: u64
  mem_commit_limit_bytes :: u64
  mem_kernel_reclaimable_bytes :: u64
  mem_kernel_nonreclaimable_bytes :: u64
  mem_page_tables_bytes :: u64
  mem_hardware_corrupted_bytes :: u64
  mem_usage_percent :: double

record disk_info =
  disk_name :: string
  disk_instance_identity :: string
  disk_model :: string
  disk_read_bytes_per_sec :: double
  disk_write_bytes_per_sec :: double
  disk_active_percent :: double
  disk_average_response_ms :: double
  disk_read_response_ms :: double
  disk_write_response_ms :: double
  disk_queue_length :: double
  disk_read_bytes_total :: u64
  disk_write_bytes_total :: u64
  disk_in_progress_operations :: u32

record net_info =
  net_name :: string
  net_mac :: string
  net_product :: string
  net_rx_bytes_per_sec :: double
  net_tx_bytes_per_sec :: double

record gpu_info =
  gpu_name :: string
  gpu_display_identifier :: string
  gpu_platform_identity :: string
  gpu_utilization_percent :: double
  gpu_temperature_c :: double
  gpu_memory_busy_percent :: double
  gpu_encoder_percent :: double
  gpu_decoder_percent :: double
  gpu_render_percent :: double
  gpu_compute_percent :: double
  gpu_video_percent :: double
  gpu_video_enhance_percent :: double
  gpu_copy_percent :: double
  gpu_utilization_available :: bool
  gpu_memory_busy_available :: bool
  gpu_encoder_available :: bool
  gpu_decoder_available :: bool
  gpu_render_available :: bool
  gpu_compute_available :: bool
  gpu_video_available :: bool
  gpu_video_enhance_available :: bool
  gpu_copy_available :: bool
  gpu_temperature_available :: bool

record pressure_info =
  psi_available :: bool
  psi_some_avg10 :: double
  psi_some_avg60 :: double
  psi_some_avg300 :: double
  psi_some_total_us :: u64
  psi_full_available :: bool
  psi_full_avg10 :: double
  psi_full_avg60 :: double
  psi_full_avg300 :: double
  psi_full_total_us :: u64

record monitor =
  mon_cpu :: cpu_info
  mon_memory :: memory_info
  mon_cpu_pressure :: pressure_info
  mon_memory_pressure :: pressure_info
  mon_io_pressure :: pressure_info
  mon_disks :: "disk_info list"
  mon_nets :: "net_info list"
  mon_gpus :: "gpu_info list"
  mon_sample_generation :: u64
  mon_sample_monotonic_seconds :: double

type_synonym process_id = u64
type_synonym process_instance_id = u64

record process_info =
  proc_pid :: process_id
  proc_instance_id :: process_instance_id
  proc_state :: string
  proc_efficiency_mode :: bool
  proc_cpu_percent :: double
  proc_memory_percent :: double
  proc_read_bytes_per_sec :: double
  proc_write_bytes_per_sec :: double
  proc_io_rate_available :: bool
  proc_rss_bytes :: u64
  proc_read_bytes :: u64
  proc_write_bytes :: u64
  proc_threads :: u32
  proc_gpu_percent :: double
  proc_gpu_engine :: string
  proc_gpu_available :: bool

text \<open>The zeroed pressure record the code writes with \<^verbatim>\<open>(LsmPressureInfo){0}\<close>.\<close>

definition zero_pressure :: pressure_info where
  "zero_pressure =
     \<lparr>psi_available = False, psi_some_avg10 = Fin 0, psi_some_avg60 = Fin 0,
      psi_some_avg300 = Fin 0, psi_some_total_us = 0, psi_full_available = False,
      psi_full_avg10 = Fin 0, psi_full_avg60 = Fin 0, psi_full_avg300 = Fin 0,
      psi_full_total_us = 0\<rparr>"

text \<open>A small published snapshot, used where a theorem is shown to apply.\<close>

definition example_cpu :: cpu_info where
  "example_cpu =
     \<lparr>cpu_model = ''AMD Ryzen 7 7700X'', cpu_logical_cores = 2, cpu_usage_percent = Fin 25,
      cpu_user_percent = Fin 20, cpu_kernel_percent = Fin 5, cpu_usage_available = True,
      cpu_temperature_c = Fin 50, cpu_temperature_available = True,
      cpu_temperature_warning_c = NaN, cpu_temperature_warning_available = False,
      cpu_temperature_critical_c = NaN, cpu_temperature_critical_available = False,
      cpu_interrupts_per_sec = Fin 0, cpu_interrupts_per_sec_available = False,
      cpu_context_switches_per_sec = Fin 0, cpu_context_switches_per_sec_available = False,
      cpu_interrupt_count = 0, cpu_context_switch_count = 0,
      cpu_core_usage = replicate LSM_MAX_CPUS NaN\<rparr>"

definition example_monitor :: monitor where
  "example_monitor =
     \<lparr>mon_cpu = example_cpu,
      mon_memory = \<lparr>mem_total_bytes = 1000, mem_available_bytes = 250, mem_cached_bytes = 0,
        mem_committed_bytes = 0, mem_commit_limit_bytes = 0, mem_kernel_reclaimable_bytes = 0,
        mem_kernel_nonreclaimable_bytes = 0, mem_page_tables_bytes = 0,
        mem_hardware_corrupted_bytes = 0, mem_usage_percent = Fin 75\<rparr>,
      mon_cpu_pressure = zero_pressure, mon_memory_pressure = zero_pressure,
      mon_io_pressure = zero_pressure, mon_disks = [],
      mon_nets =
        [\<lparr>net_name = ''lo'', net_mac = [], net_product = [], net_rx_bytes_per_sec = NaN,
          net_tx_bytes_per_sec = NaN\<rparr>,
         \<lparr>net_name = ''eth0'', net_mac = ''00:11'', net_product = [],
          net_rx_bytes_per_sec = Fin 7, net_tx_bytes_per_sec = Fin 3\<rparr>],
      mon_gpus = [], mon_sample_generation = 1, mon_sample_monotonic_seconds = Fin 5\<rparr>"

end
