(* ===== verification/C_String.thy ===== *)
theory C_String
  imports Prelude
begin

text \<open>
  The part of C's string library the parsers use, over strings without their terminating
  NUL: \<open>strtok\<close> is the sequence of tokens a \<^verbatim>\<open>strtok_r\<close> loop visits, \<open>strchr_split\<close> the two
  sides of the first occurrence \<^verbatim>\<open>strchr\<close> finds, \<open>char_at\<close> an array read that yields the
  terminating NUL at the end of the string.
\<close>

abbreviation NUL :: char where "NUL \<equiv> CHR 0x00"
abbreviation TAB :: char where "TAB \<equiv> CHR 0x09"
abbreviation LF :: char where "LF \<equiv> CHR 0x0A"
abbreviation CR :: char where "CR \<equiv> CHR 0x0D"

function strtok :: "(char \<Rightarrow> bool) \<Rightarrow> string \<Rightarrow> string list" where
  "strtok delim s =
     (let t = dropWhile delim s
      in if t = [] then []
         else takeWhile (\<lambda>c. \<not> delim c) t # strtok delim (dropWhile (\<lambda>c. \<not> delim c) t))"
  by pat_completeness auto
termination
proof (relation "measure (\<lambda>(d, s). length s)")
  fix delim :: "char \<Rightarrow> bool" and s t
  assume t: "t = dropWhile delim s" and ne: "t \<noteq> []"
  then have "\<not> delim (hd t)" by (simp add: hd_dropWhile)
  with ne have "length (dropWhile (\<lambda>c. \<not> delim c) t) < length t"
    by (intro length_dropWhile_less) auto
  also have "\<dots> \<le> length s" by (simp add: t length_dropWhile_le)
  finally show "((delim, dropWhile (\<lambda>c. \<not> delim c) t), delim, s) \<in> measure (\<lambda>(d, s). length s)"
    by simp
qed simp

declare strtok.simps [simp del]

definition strchr_split :: "char \<Rightarrow> string \<Rightarrow> (string \<times> string) option" where
  "strchr_split c s =
     (case dropWhile (\<lambda>x. x \<noteq> c) s of
        [] \<Rightarrow> None
      | _ # rest \<Rightarrow> Some (takeWhile (\<lambda>x. x \<noteq> c) s, rest))"

definition char_at :: "string \<Rightarrow> nat \<Rightarrow> char" where
  "char_at s i = (if i < length s then s ! i else NUL)"

definition starts_with :: "string \<Rightarrow> string \<Rightarrow> bool" where
  "starts_with s p = (take (length p) s = p)"

abbreviation is_newline :: "char \<Rightarrow> bool" where
  "is_newline c \<equiv> c = LF"

subsection \<open>Tokens\<close>

lemma strtok_Nil [simp]: "strtok d [] = []"
  by (simp add: strtok.simps)

lemma strtok_delim [simp]: "d c \<Longrightarrow> strtok d (c # s) = strtok d s"
  by (simp add: strtok.simps [of d "c # s"] strtok.simps [of d s])

lemma strtok_skip [simp]:
  "strtok d (tl (dropWhile (\<lambda>x. \<not> d x) t)) = strtok d (dropWhile (\<lambda>x. \<not> d x) t)"
  by (induction t) auto

lemma strtok_token:
  assumes "t \<noteq> []" "\<forall>c\<in>set t. \<not> d c" "d c"
  shows "strtok d (t @ c # s) = t # strtok d s"
proof -
  from assms(1,2) obtain a t' where t: "t = a # t'" "\<not> d a" by (cases t) auto
  then have dw: "dropWhile d (t @ c # s) = t @ c # s" by simp
  have tw: "takeWhile (\<lambda>c. \<not> d c) (t @ c # s) = t"
    and dr: "dropWhile (\<lambda>c. \<not> d c) (t @ c # s) = c # s"
    using assms(2,3) by (auto simp: takeWhile_append_stop dropWhile_append_stop)
  show ?thesis
    using assms(1,3) by (simp add: strtok.simps [of d "t @ c # s"] Let_def dw tw dr)
qed

lemma strtok_last:
  assumes "t \<noteq> []" "\<forall>c\<in>set t. \<not> d c"
  shows "strtok d t = [t]"
proof -
  from assms obtain a t' where t: "t = a # t'" "\<not> d a" by (cases t) auto
  then have "dropWhile d t = t" "dropWhile (\<lambda>c. \<not> d c) t = []" "takeWhile (\<lambda>c. \<not> d c) t = t"
    using assms(2) by (auto simp: takeWhile_eq_all_conv)
  then show ?thesis
    using assms(1) by (simp only: strtok.simps [of d t] Let_def strtok_Nil if_False)
qed

text \<open>No token is empty and none holds a delimiter.\<close>

lemma strtok_tokens: "t \<in> set (strtok d s) \<Longrightarrow> t \<noteq> [] \<and> (\<forall>c\<in>set t. \<not> d c)"
proof (induction d s rule: strtok.induct)
  case (1 d s)
  define u where "u = dropWhile d s"
  show ?case
  proof (cases "u = []")
    case True
    with "1.prems" show ?thesis by (simp add: strtok.simps [of d s] Let_def flip: u_def)
  next
    case False
    then have h: "\<not> d (hd u)" by (simp add: u_def hd_dropWhile)
    from "1.prems" False have "t = takeWhile (\<lambda>c. \<not> d c) u
        \<or> t \<in> set (strtok d (dropWhile (\<lambda>c. \<not> d c) u))"
      by (simp add: strtok.simps [of d s] Let_def flip: u_def)
    then show ?thesis
    proof
      assume t: "t = takeWhile (\<lambda>c. \<not> d c) u"
      from False h have "t \<noteq> []" by (cases u) (auto simp: t)
      then show ?thesis by (auto simp: t dest: set_takeWhileD)
    next
      assume "t \<in> set (strtok d (dropWhile (\<lambda>c. \<not> d c) u))"
      then show ?thesis using "1.IH" [OF u_def False] by blast
    qed
  qed
qed

lemma strtok_lines_append:
  "strtok d (concat (map (\<lambda>l. l @ [c]) ls)) = ls"
  if "d c" "\<forall>l\<in>set ls. l \<noteq> [] \<and> (\<forall>x\<in>set l. \<not> d x)"
  using that(2) by (induction ls) (auto simp: strtok_token that(1))

lemma strchr_split_append:
  "c \<notin> set k \<Longrightarrow> strchr_split c (k @ c # v) = Some (k, v)"
proof -
  assume "c \<notin> set k"
  then have "\<forall>x\<in>set k. x \<noteq> c" by auto
  then show ?thesis
    by (simp add: strchr_split_def takeWhile_append_stop dropWhile_append_stop)
qed

lemma strchr_split_Some:
  assumes "strchr_split c s = Some (k, v)"
  shows "s = k @ c # v \<and> c \<notin> set k"
proof -
  from assms obtain y where y: "dropWhile (\<lambda>x. x \<noteq> c) s = y # v"
    and k: "k = takeWhile (\<lambda>x. x \<noteq> c) s"
    by (auto simp: strchr_split_def split: list.splits)
  then have "y = c" using hd_dropWhile [of "\<lambda>x. x \<noteq> c" s] by simp
  moreover have "c \<notin> set k" by (auto simp: k dest: set_takeWhileD)
  moreover have "s = k @ y # v"
    using y k takeWhile_dropWhile_id [of "\<lambda>x. x \<noteq> c" s] by simp
  ultimately show ?thesis by simp
qed

lemma strchr_split_None: "strchr_split c s = None \<longleftrightarrow> c \<notin> set s"
proof (cases "c \<in> set s")
  case True
  then obtain k v where "s = k @ c # v" "c \<notin> set k" by (meson split_list_first)
  with True show ?thesis by (simp add: strchr_split_append)
next
  case False
  then have e: "dropWhile (\<lambda>x. x \<noteq> c) s = []" by (auto simp: dropWhile_eq_Nil_conv)
  show ?thesis unfolding strchr_split_def e using False by simp
qed

text \<open>Printing tokens with one separator between them, and reading them back.\<close>

fun join :: "char \<Rightarrow> string list \<Rightarrow> string" where
  "join c [] = []"
| "join c [t] = t"
| "join c (t # ts) = t @ c # join c ts"

lemma strtok_join:
  "d c \<Longrightarrow> \<forall>t\<in>set ts. t \<noteq> [] \<and> (\<forall>x\<in>set t. \<not> d x) \<Longrightarrow> strtok d (join c ts) = ts"
proof (induction c ts rule: join.induct)
  case (2 c t)
  then show ?case by (simp add: strtok_last)
next
  case (3 c t u ts)
  then show ?case by (simp add: strtok_token)
qed simp

lemma strtok_join_end:
  "d c \<Longrightarrow> d x \<Longrightarrow> \<forall>t\<in>set ts. t \<noteq> [] \<and> (\<forall>y\<in>set t. \<not> d y) \<Longrightarrow> strtok d (join c ts @ [x]) = ts"
proof (induction c ts rule: join.induct)
  case (2 c t)
  then show ?case using strtok_token [of t d x "[]"] by simp
next
  case (3 c t u ts)
  then show ?case by (simp add: strtok_token)
qed simp

lemma set_join: "set (join c ts) \<subseteq> insert c (\<Union> (set ` set ts))"
  by (induction c ts rule: join.induct) auto

lemma notin_join: "x \<noteq> c \<Longrightarrow> \<forall>t\<in>set ts. x \<notin> set t \<Longrightarrow> x \<notin> set (join c ts)"
  using set_join [of c ts] by blast

lemma join_Cons: "ts \<noteq> [] \<Longrightarrow> join c (t # ts) = t @ c # join c ts"
  by (cases ts) simp_all

lemma last_join: "ts \<noteq> [] \<Longrightarrow> last ts \<noteq> [] \<Longrightarrow> join c ts \<noteq> [] \<and> last (join c ts) = last (last ts)"
  by (induction c ts rule: join.induct) (auto split: if_splits)

subsection \<open>Reading a stream by lines\<close>

text \<open>One \<^verbatim>\<open>fgets\<close> call into a buffer of \<open>cap\<close> bytes takes up to \<open>cap - 1\<close> bytes, no further
  than a newline; \<open>fgets_chunks\<close> lists what the calls of a loop return. The C string a chunk
  holds ends at its first NUL byte.\<close>

definition fgets_line :: "nat \<Rightarrow> string \<Rightarrow> string" where
  "fgets_line cap s =
     (case strchr_split LF (take (cap - 1) s) of
        None \<Rightarrow> take (cap - 1) s
      | Some (before, _) \<Rightarrow> before @ [LF])"

definition c_str :: "string \<Rightarrow> string" where
  "c_str s = takeWhile (\<lambda>c. c \<noteq> NUL) s"

lemma fgets_line_prefix:
  assumes "s \<noteq> []" "2 \<le> cap"
  shows "fgets_line cap s \<noteq> [] \<and> length (fgets_line cap s) < cap \<and>
    fgets_line cap s @ drop (length (fgets_line cap s)) s = s"
proof (cases "strchr_split LF (take (cap - 1) s)")
  case None
  with assms show ?thesis by (auto simp: fgets_line_def min_def)
next
  case (Some p)
  obtain before rest where p: "p = (before, rest)" by force
  then have "take (cap - 1) s = before @ LF # rest"
    using Some strchr_split_Some by blast
  then have s: "s = (before @ [LF]) @ rest @ drop (cap - 1) s"
    and "length (before @ LF # rest) \<le> cap - 1"
    using append_take_drop_id [of "cap - 1" s] length_take [of "cap - 1" s] by auto
  then have "length (before @ [LF]) < cap" using assms(2) by simp
  moreover have "drop (length (before @ [LF])) s = rest @ drop (cap - 1) s"
    using s by (metis append_eq_conv_conj)
  ultimately show ?thesis using s Some p by (simp add: fgets_line_def)
qed

function fgets_chunks :: "nat \<Rightarrow> string \<Rightarrow> string list" where
  "fgets_chunks cap s =
     (if s = [] \<or> cap < 2 then []
      else fgets_line cap s # fgets_chunks cap (drop (length (fgets_line cap s)) s))"
  by pat_completeness auto
termination
  using fgets_line_prefix by (relation "measure (\<lambda>(n, s). length s)") auto

declare fgets_chunks.simps [simp del]

lemma fgets_chunks_Nil [simp]: "fgets_chunks cap [] = []"
  by (simp add: fgets_chunks.simps)

lemma fgets_chunks_concat: "2 \<le> cap \<Longrightarrow> concat (fgets_chunks cap s) = s"
proof (induction cap s rule: fgets_chunks.induct)
  case (1 cap s)
  then show ?case
    using fgets_line_prefix [of s cap] by (cases "s = []") (auto simp: fgets_chunks.simps [of cap s])
qed

lemma fgets_chunks_length: "line \<in> set (fgets_chunks cap s) \<Longrightarrow> length line < cap"
proof (induction cap s rule: fgets_chunks.induct)
  case (1 cap s)
  then show ?case
    using fgets_line_prefix [of s cap]
    by (cases "s = [] \<or> cap < 2") (auto simp: fgets_chunks.simps [of cap s])
qed

lemma fgets_chunks_single:
  assumes "s \<noteq> []" "LF \<notin> set s" "length s < cap"
  shows "fgets_chunks cap s = [s]"
proof -
  have "fgets_line cap s = s"
    using assms strchr_split_None [of LF s] by (simp add: fgets_line_def)
  moreover have "2 \<le> cap" using assms by (cases s) auto
  ultimately show ?thesis using assms(1) by (simp add: fgets_chunks.simps [of cap s])
qed

text \<open>What the C library gives for a path: the bytes read, whether \<^verbatim>\<open>ferror\<close> reported an error
  after the loop, and whether \<^verbatim>\<open>fclose\<close> succeeded.\<close>

record text_stream =
  ts_content :: string
  ts_error :: bool
  ts_close_ok :: bool

text \<open>\<^verbatim>\<open>getline\<close> grows its buffer: every call returns the whole next line with its newline.\<close>

definition getline_chunks :: "string \<Rightarrow> string list" where
  "getline_chunks s = fgets_chunks (length s + 2) s"

end
