(* ===== verification/Common_Library.thy ===== *)
theory Common_Library
  imports C_String Ieee_Double
begin

text \<open>
  The Common library (\<^verbatim>\<open>src/infiltratr-common\<close>) is a git submodule whose source is not part
  of this repository, so its functions are parameters here: the record \<open>common\<close> holds one
  field per Common function the modelled code calls, and every definition that calls Common
  takes such a record. Nothing is assumed of it except through the predicates below, which
  state behaviour the repository documents: the assertions of \<^verbatim>\<open>support/tests/core_smoke.c\<close>
  and the comments of the headers that alias the functions. \<open>ref_common\<close> is one concrete
  library that meets all of them, used to show that the hypotheses can hold.

  Results written through an out-pointer are options when the code reads them on success
  only. \<^verbatim>\<open>infiltratr_u64_counter_rate\<close> also writes its output on failure (zero, by the
  tests), so it returns the pair of its return value and the output.
\<close>

record common =
  infiltratr_ascii_is_space :: "char \<Rightarrow> bool"
  infiltratr_ascii_is_digit :: "char \<Rightarrow> bool"
  infiltratr_ascii_is_xdigit :: "char \<Rightarrow> bool"
  infiltratr_ascii_to_upper :: "char \<Rightarrow> char"
  infiltratr_ascii_equal_ci :: "string \<Rightarrow> string \<Rightarrow> bool"
  infiltratr_trim_line_end :: "string \<Rightarrow> string"
  infiltratr_string_starts_with :: "string \<Rightarrow> string \<Rightarrow> bool"
  infiltratr_ascii_contains_ci :: "string \<Rightarrow> string \<Rightarrow> bool"
  infiltratr_trim :: "string \<Rightarrow> string"
  infiltratr_copy_string :: "nat \<Rightarrow> string \<Rightarrow> string"
  infiltratr_parse_u64 :: "string \<Rightarrow> nat \<Rightarrow> u64 option"
  infiltratr_parse_u64_range :: "string \<Rightarrow> nat \<Rightarrow> u64 \<Rightarrow> u64 \<Rightarrow> u64 option"
  infiltratr_parse_i64 :: "string \<Rightarrow> nat \<Rightarrow> int option"
  infiltratr_parse_i64_range :: "string \<Rightarrow> nat \<Rightarrow> int \<Rightarrow> int \<Rightarrow> int option"
  infiltratr_parse_u64_token :: "string \<Rightarrow> nat \<Rightarrow> (u64 \<times> string) option"
  infiltratr_parse_double_range :: "string \<Rightarrow> double \<Rightarrow> double \<Rightarrow> double option"
  infiltratr_parse_binary_quantity_u64 :: "string \<Rightarrow> u64 option"
  infiltratr_u64_add_saturating :: "u64 \<Rightarrow> u64 \<Rightarrow> u64"
  infiltratr_u64_multiply_saturating :: "u64 \<Rightarrow> u64 \<Rightarrow> u64"
  infiltratr_u64_multiply_checked :: "u64 \<Rightarrow> u64 \<Rightarrow> u64 option"
  infiltratr_u64_counter_delta :: "u64 \<Rightarrow> u64 \<Rightarrow> u64 option"
  infiltratr_u64_counter_rate :: "u64 \<Rightarrow> u64 \<Rightarrow> double \<Rightarrow> double \<Rightarrow> bool \<times> double"
  infiltratr_percent_u64 :: "u64 \<Rightarrow> u64 \<Rightarrow> double"
  infiltratr_clamp_double :: "double \<Rightarrow> double \<Rightarrow> double \<Rightarrow> double"
  infiltratr_load_le16 :: "u8 list \<Rightarrow> u16"
  infiltratr_load_le32 :: "u8 list \<Rightarrow> u32"
  infiltratr_utf8_validate :: "u8 list \<Rightarrow> bool"
  infiltratr_interval_due :: "double \<Rightarrow> double \<Rightarrow> double \<Rightarrow> bool"
  infiltratr_format_fixed_ascii :: "double \<Rightarrow> nat \<Rightarrow> nat \<Rightarrow> string option"
  infiltratr_config_parse_line :: "string \<Rightarrow> (string \<times> string) option"
  infiltratr_config_parse_bool :: "string \<Rightarrow> bool option"
  infiltratr_theme_system :: nat
  infiltratr_theme_mode_parse :: "string \<Rightarrow> nat option"
  infiltratr_theme_mode_key :: "nat \<Rightarrow> string"

subsection \<open>Bounded reads\<close>

text \<open>A read from a byte buffer is \<open>None\<close> when it leaves the buffer.\<close>

definition get :: "u8 list \<Rightarrow> nat \<Rightarrow> u8 option" where
  "get table i = (if i < length table then Some (table ! i) else None)"

definition get16 :: "common \<Rightarrow> u8 list \<Rightarrow> nat \<Rightarrow> u16 option" where
  "get16 c table i =
     (if i + 1 < length table then Some (infiltratr_load_le16 c (drop i table)) else None)"

definition get32 :: "common \<Rightarrow> u8 list \<Rightarrow> nat \<Rightarrow> u32 option" where
  "get32 c table i =
     (if i + 3 < length table then Some (infiltratr_load_le32 c (drop i table)) else None)"

subsection \<open>Documented behaviour\<close>

definition ascii_space :: "char \<Rightarrow> bool" where
  "ascii_space c \<longleftrightarrow> c \<in> {CHR '' '', TAB, LF, CHR 0x0B, CHR 0x0C, CR}"

definition ascii_digit :: "char \<Rightarrow> bool" where
  "ascii_digit c \<longleftrightarrow> of_char c \<in> {48..57::nat}"

definition ascii_xdigit :: "char \<Rightarrow> bool" where
  "ascii_xdigit c \<longleftrightarrow> ascii_digit c \<or> of_char c \<in> {65..70::nat} \<or> of_char c \<in> {97..102::nat}"

definition ascii_to_upper :: "char \<Rightarrow> char" where
  "ascii_to_upper c = (if of_char c \<in> {97..122::nat} then char_of (of_char c - 32 :: nat) else c)"

definition saturating_add :: "u64 \<Rightarrow> u64 \<Rightarrow> u64" where
  "saturating_add a b = (if unat a + unat b < 2 ^ 64 then a + b else UINT64_MAX)"

definition saturating_multiply :: "u64 \<Rightarrow> u64 \<Rightarrow> u64" where
  "saturating_multiply a b = (if unat a * unat b < 2 ^ 64 then a * b else UINT64_MAX)"

definition multiply_checked :: "u64 \<Rightarrow> u64 \<Rightarrow> u64 option" where
  "multiply_checked a b = (if unat a * unat b < 2 ^ 64 then Some (a * b) else None)"

definition counter_delta :: "u64 \<Rightarrow> u64 \<Rightarrow> u64 option" where
  "counter_delta current previous = (if previous \<le> current then Some (current - previous) else None)"

definition trim_spaces :: "string \<Rightarrow> string" where
  "trim_spaces s = rev (dropWhile ascii_space (rev (dropWhile ascii_space s)))"

subsection \<open>Decimal numerals\<close>

definition digit_char :: "nat \<Rightarrow> char" where
  "digit_char d = char_of (48 + d mod 10)"

fun nat_text :: "nat \<Rightarrow> string" where
  "nat_text n = (if n < 10 then [digit_char n] else nat_text (n div 10) @ [digit_char n])"

declare nat_text.simps [simp del]

definition digit_value :: "char \<Rightarrow> nat" where
  "digit_value c = of_char c - 48"

definition decimal_value :: "string \<Rightarrow> nat" where
  "decimal_value s = foldl (\<lambda>n c. 10 * n + digit_value c) 0 s"

lemma of_char_digit_char: "(of_char (digit_char d) :: nat) = 48 + d mod 10"
proof -
  have "48 + d mod 10 < 256" by (simp add: less_Suc_eq_le [symmetric] trans_less_add1 pos_mod_bound)
  then show ?thesis by (simp add: digit_char_def)
qed

lemma ascii_digit_char [simp]: "ascii_digit (digit_char d)"
  unfolding ascii_digit_def of_char_digit_char using mod_less_divisor [of 10 d] by auto

lemma digit_value_char [simp]: "digit_value (digit_char d) = d mod 10"
  unfolding digit_value_def of_char_digit_char by simp

lemma nat_text_digits: "nat_text n \<noteq> [] \<and> list_all ascii_digit (nat_text n)"
  by (induction n rule: nat_text.induct) (simp add: nat_text.simps)

lemma decimal_value_snoc: "decimal_value (s @ [c]) = 10 * decimal_value s + digit_value c"
  by (simp add: decimal_value_def)

text \<open>Printing and reading decimal numerals are inverse.\<close>

lemma decimal_value_nat_text [simp]: "decimal_value (nat_text n) = n"
proof (induction n rule: nat_text.induct)
  case (1 n)
  then show ?case
    by (cases "n < 10") (simp_all add: nat_text.simps [of n] decimal_value_snoc, simp_all add: decimal_value_def)
qed

subsection \<open>The contracts\<close>

text \<open>Character classes and the prefix test.\<close>

definition common_text_ok :: "common \<Rightarrow> bool" where
  "common_text_ok c \<longleftrightarrow>
     infiltratr_ascii_is_space c = ascii_space \<and> infiltratr_ascii_is_digit c = ascii_digit \<and>
     infiltratr_string_starts_with c = starts_with \<and> infiltratr_trim c = trim_spaces \<and>
     (\<forall>n s. infiltratr_copy_string c n s = take (n - 1) s)"

text \<open>Saturating arithmetic and rollback-detecting counters.\<close>

definition common_arith_ok :: "common \<Rightarrow> bool" where
  "common_arith_ok c \<longleftrightarrow>
     infiltratr_u64_add_saturating c = saturating_add \<and>
     infiltratr_u64_multiply_saturating c = saturating_multiply \<and>
     infiltratr_u64_counter_delta c = counter_delta"

text \<open>A checked product is the product, or refused when it does not fit.\<close>

definition common_checked_ok :: "common \<Rightarrow> bool" where
  "common_checked_ok c \<longleftrightarrow> infiltratr_u64_multiply_checked c = multiply_checked"

text \<open>Percentages stay within 0 to 100; a rate needs a non-decreasing counter and an elapsed
  time, and is a finite non-negative number; clamping to an ordered finite range.\<close>

definition common_rates_ok :: "common \<Rightarrow> bool" where
  "common_rates_ok c \<longleftrightarrow>
     (\<forall>a b. \<exists>r. infiltratr_percent_u64 c a b = Fin r \<and> 0 \<le> r \<and> r \<le> 100) \<and>
     (\<forall>cur prev k t. cur < prev \<or> \<not> isfinite t \<longrightarrow>
        infiltratr_u64_counter_rate c cur prev k t = (False, Fin 0)) \<and>
     (\<forall>cur prev k t d. infiltratr_u64_counter_rate c cur prev k t = (True, d) \<longrightarrow>
        is_double d \<and> (\<exists>r. d = Fin r \<and> 0 \<le> r)) \<and>
     (\<forall>x lo hi. \<not> isnan x \<and> dle (Fin lo) (Fin hi) \<longrightarrow>
        infiltratr_clamp_double c x (Fin lo) (Fin hi) =
          (if dless x (Fin lo) then Fin lo else if dless (Fin hi) x then Fin hi else x))"

text \<open>A rate is reported whenever the counter did not decrease, time elapsed and the quotient is
  far from overflowing.\<close>

definition common_rates_given :: "common \<Rightarrow> bool" where
  "common_rates_given c \<longleftrightarrow>
     (\<forall>cur prev k t. prev \<le> cur \<and> 0 \<le> k \<and> 0 < t \<and> of_nat (unat (cur - prev)) * k / t \<le> 2 ^ 512 \<longrightarrow>
        fst (infiltratr_u64_counter_rate c cur prev (Fin k) (Fin t)))"

text \<open>A number accepted within a range lies in it.\<close>

definition common_range_ok :: "common \<Rightarrow> bool" where
  "common_range_ok c \<longleftrightarrow>
     (\<forall>s lo hi d. infiltratr_parse_double_range c s lo hi = Some d \<longrightarrow> dle lo d \<and> dle d hi)"

text \<open>Unsigned decimals are read exactly.\<close>

definition common_decimal_ok :: "common \<Rightarrow> bool" where
  "common_decimal_ok c \<longleftrightarrow> (\<forall>v. infiltratr_parse_u64 c (nat_text (unat v)) 10 = Some v)"

text \<open>Signed decimals too, in the range of the type.\<close>

definition int_text :: "int \<Rightarrow> string" where
  "int_text v = (if v < 0 then CHR ''-'' # nat_text (nat (- v)) else nat_text (nat v))"

definition common_signed_ok :: "common \<Rightarrow> bool" where
  "common_signed_ok c \<longleftrightarrow>
     (\<forall>v. - (2 ^ 63) \<le> v \<and> v < 2 ^ 63 \<longrightarrow> infiltratr_parse_i64 c (int_text v) 10 = Some v)"

text \<open>A signed decimal within a range: the result lies in it, and every number of it is read exactly.\<close>

definition common_signed_range_ok :: "common \<Rightarrow> bool" where
  "common_signed_range_ok c \<longleftrightarrow>
     (\<forall>s lo hi v. infiltratr_parse_i64_range c s 10 lo hi = Some v \<longrightarrow> lo \<le> v \<and> v \<le> hi) \<and>
     (\<forall>lo hi v. lo \<le> v \<and> v \<le> hi \<and> - (2 ^ 63) \<le> v \<and> v < 2 ^ 63 \<longrightarrow>
        infiltratr_parse_i64_range c (int_text v) 10 lo hi = Some v)"

text \<open>
  Configuration lines: \<^verbatim>\<open>key=value\<close> between plain words is an entry and a comment is not; the
  Boolean values are the digits the program writes; a theme mode is read back from its key.
\<close>

definition config_char :: "char \<Rightarrow> bool" where
  "config_char x \<longleftrightarrow> ascii_digit x \<or> of_char x \<in> {97..122::nat} \<or> x \<in> {CHR ''_'', CHR ''.'', CHR ''-''}"

definition config_word :: "string \<Rightarrow> bool" where
  "config_word s \<longleftrightarrow> s \<noteq> [] \<and> list_all config_char s"

definition common_config_ok :: "common \<Rightarrow> bool" where
  "common_config_ok c \<longleftrightarrow>
     (\<forall>k v. config_word k \<and> config_word v \<longrightarrow> infiltratr_config_parse_line c (k @ ''='' @ v) = Some (k, v)) \<and>
     (\<forall>s. infiltratr_config_parse_line c (CHR ''#'' # s) = None) \<and>
     infiltratr_config_parse_bool c ''1'' = Some True \<and> infiltratr_config_parse_bool c ''0'' = Some False \<and>
     (\<forall>m. config_word (infiltratr_theme_mode_key c m)) \<and>
     (\<forall>s m. infiltratr_theme_mode_parse c s = Some m \<longrightarrow>
        infiltratr_theme_mode_parse c (infiltratr_theme_mode_key c m) = Some m) \<and>
     infiltratr_theme_mode_parse c (infiltratr_theme_mode_key c (infiltratr_theme_system c)) =
       Some (infiltratr_theme_system c)"

text \<open>Fixed-point formatting writes digits, a point and a sign into its buffer.\<close>

definition common_format_ok :: "common \<Rightarrow> bool" where
  "common_format_ok c \<longleftrightarrow>
     (\<forall>d n cap s. infiltratr_format_fixed_ascii c d n cap = Some s \<longrightarrow>
        s \<noteq> [] \<and> length s < cap \<and> (\<forall>x\<in>set s. ascii_digit x \<or> x = CHR ''.'' \<or> x = CHR ''-''))"

text \<open>A moderate non-negative number is printed, and read back as the printed decimal rounded to a
  double, which lies between the same whole bounds.\<close>

definition common_fixed_ok :: "common \<Rightarrow> bool" where
  "common_fixed_ok c \<longleftrightarrow>
     (\<forall>r digits cap (lo :: int) (hi :: int). 0 \<le> r \<and> r \<le> 2 ^ 64 \<and> 0 < digits \<and> digits \<le> 6 \<and> 32 \<le> cap \<and>
        is_double (Fin (of_int lo)) \<and> is_double (Fin (of_int hi)) \<and> of_int lo \<le> r \<and> r \<le> of_int hi \<longrightarrow>
        (\<exists>s q. infiltratr_format_fixed_ascii c (Fin r) digits cap = Some s \<and>
           infiltratr_parse_double_range c s (Fin (of_int lo)) (Fin (of_int hi)) = Some (fl q) \<and>
           \<bar>q - r\<bar> \<le> 1 / (2 * 10 ^ digits)))"

text \<open>Little-endian loads from the first bytes of a buffer.\<close>

definition common_endian_ok :: "common \<Rightarrow> bool" where
  "common_endian_ok c \<longleftrightarrow>
     (\<forall>a b r. infiltratr_load_le16 c (a # b # r) = ucast a + 256 * ucast b) \<and>
     (\<forall>x0 x1 x2 x3 r. infiltratr_load_le32 c (x0 # x1 # x2 # x3 # r) =
        ucast x0 + 256 * ucast x1 + 65536 * ucast x2 + 16777216 * ucast x3)"

subsection \<open>One library that behaves as documented\<close>

definition xdigit_value :: "char \<Rightarrow> nat" where
  "xdigit_value c =
     (if ascii_digit c then digit_value c else (of_char (ascii_to_upper c) :: nat) - 55)"

definition hex_value :: "string \<Rightarrow> nat" where
  "hex_value s = foldl (\<lambda>n c. 16 * n + xdigit_value c) 0 s"

definition ref_parse_u64 :: "string \<Rightarrow> nat \<Rightarrow> u64 option" where
  "ref_parse_u64 s base =
     (if base = 16 then
        if s \<noteq> [] \<and> list_all ascii_xdigit s \<and> hex_value s < 2 ^ 64 then Some (of_nat (hex_value s)) else None
      else if s \<noteq> [] \<and> list_all ascii_digit s \<and> decimal_value s < 2 ^ 64
      then Some (of_nat (decimal_value s)) else None)"

definition ref_parse_i64 :: "string \<Rightarrow> nat \<Rightarrow> int option" where
  "ref_parse_i64 s base =
     (let (negative, digits) = (if s \<noteq> [] \<and> hd s = CHR ''-'' then (True, tl s) else (False, s));
          v = (if negative then - int (decimal_value digits) else int (decimal_value digits))
      in if digits \<noteq> [] \<and> list_all ascii_digit digits \<and> - (2 ^ 63) \<le> v \<and> v < 2 ^ 63 then Some v else None)"

definition ref_parse_i64_range :: "string \<Rightarrow> nat \<Rightarrow> int \<Rightarrow> int \<Rightarrow> int option" where
  "ref_parse_i64_range s base lo hi =
     (case ref_parse_i64 s base of
        None \<Rightarrow> None | Some v \<Rightarrow> if lo \<le> v \<and> v \<le> hi then Some v else None)"

definition ref_config_parse_line :: "string \<Rightarrow> (string \<times> string) option" where
  "ref_config_parse_line s =
     (if s = [] \<or> hd s = CHR ''#'' then None
      else map_option (\<lambda>(k, v). (trim_spaces k, trim_spaces v)) (strchr_split CHR ''='' s))"

definition ref_theme_key :: "nat \<Rightarrow> string" where
  "ref_theme_key m = (if m = 1 then ''day'' else if m = 2 then ''night'' else ''system'')"

definition ref_theme_parse :: "string \<Rightarrow> nat option" where
  "ref_theme_parse s =
     (let u = map ascii_to_upper s
      in if u = ''DAY'' then Some 1 else if u = ''NIGHT'' then Some 2
         else if u = ''SYSTEM'' then Some 0 else None)"

definition ref_parse_u64_token :: "string \<Rightarrow> nat \<Rightarrow> (u64 \<times> string) option" where
  "ref_parse_u64_token s base =
     (let t = dropWhile ascii_space s
      in map_option (\<lambda>v. (v, dropWhile ascii_digit t))
           (ref_parse_u64 (takeWhile ascii_digit t) base))"

definition ref_parse_double_range :: "string \<Rightarrow> double \<Rightarrow> double \<Rightarrow> double option" where
  "ref_parse_double_range s lo hi =
     (case strchr_split CHR ''.'' s of
        None \<Rightarrow> None
      | Some (k, f) \<Rightarrow>
          if k \<noteq> [] \<and> f \<noteq> [] \<and> list_all ascii_digit (k @ f) then
            let d = fl (of_nat (decimal_value (k @ f)) / 10 ^ length f)
            in if dle lo d \<and> dle d hi then Some d else None
          else None)"

definition ref_percent :: "u64 \<Rightarrow> u64 \<Rightarrow> double" where
  "ref_percent a b =
     (if b = 0 then Fin 0 else if b \<le> a then Fin 100
      else fl (100 * of_nat (unat a) / of_nat (unat b)))"

definition ref_rate :: "u64 \<Rightarrow> u64 \<Rightarrow> double \<Rightarrow> double \<Rightarrow> bool \<times> double" where
  "ref_rate cur prev k t =
     (case (counter_delta cur prev, k, t) of
        (Some d, Fin k', Fin t') \<Rightarrow>
          let r = fl (of_nat (unat d) * k' / t')
          in if 0 < t' \<and> 0 \<le> k' \<and> isfinite r then (True, r) else (False, Fin 0)
      | _ \<Rightarrow> (False, Fin 0))"

definition ref_clamp :: "double \<Rightarrow> double \<Rightarrow> double \<Rightarrow> double" where
  "ref_clamp x lo hi = (if dless x lo then lo else if dless hi x then hi else x)"

fun pad_text :: "nat \<Rightarrow> nat \<Rightarrow> string" where
  "pad_text 0 n = []"
| "pad_text (Suc k) n = pad_text k (n div 10) @ [digit_char n]"

lemma pad_text_digits: "list_all ascii_digit (pad_text k n)"
  by (induction k n rule: pad_text.induct) simp_all

definition ref_format :: "double \<Rightarrow> nat \<Rightarrow> nat \<Rightarrow> string option" where
  "ref_format d digits cap =
     (case d of
        Fin r \<Rightarrow>
          let n = nat (round (\<bar>r\<bar> * 10 ^ digits));
              t = nat_text (n div 10 ^ digits) @ ''.'' @ pad_text digits (n mod 10 ^ digits)
          in if 0 \<le> r \<and> length t < cap then Some t else None
      | _ \<Rightarrow> None)"

definition ref_common :: common where
  "ref_common =
     \<lparr>infiltratr_ascii_is_space = ascii_space,
      infiltratr_ascii_is_digit = ascii_digit,
      infiltratr_ascii_is_xdigit = ascii_xdigit,
      infiltratr_ascii_to_upper = ascii_to_upper,
      infiltratr_ascii_equal_ci = (\<lambda>s t. map ascii_to_upper s = map ascii_to_upper t),
      infiltratr_trim_line_end = (\<lambda>s. rev (dropWhile (\<lambda>x. x = LF \<or> x = CR) (rev s))),
      infiltratr_string_starts_with = starts_with,
      infiltratr_ascii_contains_ci = (\<lambda>s p. \<exists>i<Suc (length s). take (length p) (drop i s) = p),
      infiltratr_trim = trim_spaces,
      infiltratr_copy_string = (\<lambda>n s. take (n - 1) s),
      infiltratr_parse_u64 = ref_parse_u64,
      infiltratr_parse_u64_range = (\<lambda>s base lo hi. case ref_parse_u64 s base of
          None \<Rightarrow> None | Some v \<Rightarrow> if lo \<le> v \<and> v \<le> hi then Some v else None),
      infiltratr_parse_i64 = ref_parse_i64,
      infiltratr_parse_i64_range = ref_parse_i64_range,
      infiltratr_parse_u64_token = ref_parse_u64_token,
      infiltratr_parse_double_range = ref_parse_double_range,
      infiltratr_parse_binary_quantity_u64 =
        (\<lambda>s. map_option (\<lambda>(v, _). v * 1024) (ref_parse_u64_token s 10)),
      infiltratr_u64_add_saturating = saturating_add,
      infiltratr_u64_multiply_saturating = saturating_multiply,
      infiltratr_u64_multiply_checked = multiply_checked,
      infiltratr_u64_counter_delta = counter_delta,
      infiltratr_u64_counter_rate = ref_rate,
      infiltratr_percent_u64 = ref_percent,
      infiltratr_clamp_double = ref_clamp,
      infiltratr_load_le16 = (\<lambda>bs. case bs of a # b # _ \<Rightarrow> ucast a + 256 * ucast b | _ \<Rightarrow> 0),
      infiltratr_load_le32 = (\<lambda>bs. case bs of
          x0 # x1 # x2 # x3 # _ \<Rightarrow>
            ucast x0 + 256 * ucast x1 + 65536 * ucast x2 + 16777216 * ucast x3
        | _ \<Rightarrow> 0),
      infiltratr_utf8_validate = list_all (\<lambda>b. b < 128),
      infiltratr_interval_due = (\<lambda>now last interval. \<not> dless (dsub now last) interval),
      infiltratr_format_fixed_ascii = ref_format,
      infiltratr_config_parse_line = ref_config_parse_line,
      infiltratr_config_parse_bool =
        (\<lambda>s. if s = ''1'' then Some True else if s = ''0'' then Some False else None),
      infiltratr_theme_system = 0,
      infiltratr_theme_mode_parse = ref_theme_parse,
      infiltratr_theme_mode_key = ref_theme_key\<rparr>"

subsection \<open>Consequences of the documented behaviour\<close>

lemma unat_saturating_add: "unat (saturating_add a b) = min (unat a + unat b) (2 ^ 64 - 1)"
  by (simp add: saturating_add_def unat_word_ariths unsigned_minus_1_eq_mask
      mask_eq_exp_minus_1)

lemma saturating_add_mono: "a \<le> saturating_add a b"
  using unsigned_less [of a, where ?'a = nat]
  by (simp add: word_le_nat_alt unat_saturating_add)

lemma ref_common_checked_ok: "common_checked_ok ref_common"
  by (simp add: common_checked_ok_def ref_common_def)

lemma multiply_checked_Some: "multiply_checked a b = Some p \<longleftrightarrow> unat p = unat a * unat b"
proof -
  have "unat p < 2 ^ 64" using unsigned_less [of p, where ?'a = nat] by simp
  then show ?thesis
    by (auto simp: multiply_checked_def unat_word_ariths word_unat_eq_iff)
qed

lemma counter_delta_Some:
  "counter_delta cur prev = Some d \<Longrightarrow> prev \<le> cur \<and> unat d = unat cur - unat prev"
  by (auto simp: counter_delta_def unat_sub split: if_splits)

lemma fl_percent_bounded:
  assumes "a \<le> b" "0 < b"
  shows "\<exists>r. fl (100 * of_nat a / of_nat b) = Fin r \<and> 0 \<le> r \<and> r \<le> 100"
proof (rule fl_between)
  show "100 * rat_of_nat a / rat_of_nat b \<le> 100"
    using assms by (simp add: divide_le_eq)
qed (auto simp: dbl_simps)

lemma ref_percent_bounded: "\<exists>r. ref_percent a b = Fin r \<and> 0 \<le> r \<and> r \<le> 100"
proof (cases "b = 0 \<or> b \<le> a")
  case True
  then show ?thesis by (auto simp: ref_percent_def)
next
  case False
  then have "unat a \<le> unat b" "0 < unat b"
    by (auto simp: word_le_nat_alt unat_gt_0)
  from fl_percent_bounded [OF this] False show ?thesis by (simp add: ref_percent_def)
qed

lemma fl_nonneg: "0 \<le> x \<Longrightarrow> fl x = Fin r \<Longrightarrow> 0 \<le> r"
  using fl_mono [of 0 x] by simp

lemma ref_rate_nonneg:
  assumes "ref_rate cur prev k t = (True, d)"
  shows "is_double d \<and> (\<exists>r. d = Fin r \<and> 0 \<le> r)"
proof -
  from assms obtain x k' t' where "0 < t'" "0 \<le> k'"
    and d: "d = fl (of_nat (unat (x::u64)) * k' / t')" "isfinite d"
    by (auto simp: ref_rate_def Let_def split: option.splits double.splits if_splits)
  then have "0 \<le> of_nat (unat x) * k' / t'"
    by (intro divide_nonneg_pos mult_nonneg_nonneg of_nat_0_le_iff)
  with d fl_nonneg show ?thesis by (metis isfiniteE is_double_fl)
qed

lemma ref_common_ok:
  "common_text_ok ref_common" "common_arith_ok ref_common" "common_rates_ok ref_common"
  "common_endian_ok ref_common" "common_range_ok ref_common" "common_decimal_ok ref_common"
  "common_format_ok ref_common" "common_signed_ok ref_common"
proof -
  show "common_text_ok ref_common" by (simp add: common_text_ok_def ref_common_def)
  show "common_arith_ok ref_common" by (simp add: common_arith_ok_def ref_common_def)
  have "ref_rate cur prev k t = (False, Fin 0)" if "cur < prev \<or> \<not> isfinite t" for cur prev k t
    using that by (cases t) (auto simp: ref_rate_def counter_delta_def split: double.splits)
  then show "common_rates_ok ref_common"
    using ref_percent_bounded ref_rate_nonneg
    by (auto simp: common_rates_ok_def ref_common_def ref_clamp_def)
  show "common_endian_ok ref_common" by (simp add: common_endian_ok_def ref_common_def)
  show "common_decimal_ok ref_common"
    using nat_text_digits unsigned_less [where ?'a = nat and ?'b = 64]
    by (simp add: common_decimal_ok_def ref_common_def ref_parse_u64_def)
  show "common_format_ok ref_common"
    using nat_text_digits pad_text_digits
    by (auto simp: common_format_ok_def ref_common_def ref_format_def Let_def list_all_iff
        split: double.splits if_splits)
  have "hd (nat_text n) \<noteq> CHR ''-''" for n
    using nat_text_digits [of n] by (cases "nat_text n") (auto simp: ascii_digit_def)
  then show "common_signed_ok ref_common"
    using nat_text_digits
    by (auto simp: common_signed_ok_def ref_common_def int_text_def ref_parse_i64_def)
  show "common_range_ok ref_common"
    by (auto simp: common_range_ok_def ref_common_def ref_parse_double_range_def Let_def
        split: option.splits if_splits)
qed

lemma ref_common_rates_given: "common_rates_given ref_common"
proof -
  have "isfinite (fl x)" if "0 \<le> x" "x \<le> 2 ^ 512" for x
    using fl_between [of 0 "2 ^ 512" x] rnd_dyadic [of 1 512] that by fastforce
  moreover have "0 \<le> of_nat (unat (x::u64)) * k / t" if "0 \<le> k" "0 < t" for x and k t :: rat
    using that by (intro divide_nonneg_pos mult_nonneg_nonneg of_nat_0_le_iff)
  ultimately show ?thesis by (simp add: common_rates_given_def ref_common_def ref_rate_def counter_delta_def Let_def)
qed

lemma decimal_value_pad: "decimal_value (s @ pad_text k n) = decimal_value s * 10 ^ k + n mod 10 ^ k"
proof (induction k arbitrary: n)
  case (Suc k)
  have "n mod 10 ^ Suc k = 10 * (n div 10 mod 10 ^ k) + n mod 10" by (simp add: mod_mult2_eq)
  then show ?case using Suc by (simp add: decimal_value_snoc flip: append_assoc)
qed simp

lemma length_pad_text: "length (pad_text k n) = k"
  by (induction k n rule: pad_text.induct) simp_all

lemma length_nat_text: "n < 10 ^ Suc k \<Longrightarrow> length (nat_text n) \<le> Suc k"
proof (induction k arbitrary: n)
  case 0
  then show ?case by (simp add: nat_text.simps)
next
  case (Suc k)
  then have "length (nat_text (n div 10)) \<le> Suc k" by (intro Suc.IH) auto
  then show ?case by (subst nat_text.simps) simp
qed

lemma rounded_decimal:
  fixes r :: rat and digits :: nat
  defines "q \<equiv> of_nat (nat (round (r * 10 ^ digits))) / 10 ^ digits"
  assumes "0 \<le> r"
  shows "\<bar>q - r\<bar> \<le> 1 / (2 * 10 ^ digits)" "of_int lo \<le> r \<Longrightarrow> of_int lo \<le> q" "r \<le> of_int hi \<Longrightarrow> q \<le> of_int hi"
proof -
  have "round (0 :: rat) \<le> round (r * 10 ^ digits)" by (rule round_mono) (simp add: assms(2))
  then have q: "q = of_int (round (r * 10 ^ digits)) / 10 ^ digits" by (simp add: q_def)
  have "q - r = (of_int (round (r * 10 ^ digits)) - r * 10 ^ digits) / 10 ^ digits" by (simp add: q diff_divide_distrib)
  then have "\<bar>q - r\<bar> = \<bar>of_int (round (r * 10 ^ digits)) - r * 10 ^ digits\<bar> / 10 ^ digits" by simp
  also have "\<dots> \<le> (1 / 2) / 10 ^ digits" by (intro divide_right_mono of_int_round_abs_le) simp
  finally show "\<bar>q - r\<bar> \<le> 1 / (2 * 10 ^ digits)" by simp
  have whole: "round (of_int n * 10 ^ digits :: rat) = n * 10 ^ digits" for n
    using round_of_int [of "n * 10 ^ digits", where ?'a = rat] by (simp only: of_int_mult of_int_power of_int_numeral)
  have scaled: "of_int (n * 10 ^ digits) / 10 ^ digits = (of_int n :: rat)" for n by simp
  show "of_int lo \<le> q" if "of_int lo \<le> r"
  proof -
    have "lo * 10 ^ digits \<le> round (r * 10 ^ digits)"
      using round_mono [of "of_int lo * 10 ^ digits" "r * 10 ^ digits"] that unfolding whole by simp
    then have "of_int (lo * 10 ^ digits) / (10 ^ digits :: rat) \<le> q" unfolding q
      by (intro divide_right_mono) (simp_all only: of_int_le_iff, simp)
    then show ?thesis unfolding scaled .
  qed
  show "q \<le> of_int hi" if "r \<le> of_int hi"
  proof -
    have "round (r * 10 ^ digits) \<le> hi * 10 ^ digits"
      using round_mono [of "r * 10 ^ digits" "of_int hi * 10 ^ digits"] that unfolding whole by simp
    then have "q \<le> of_int (hi * 10 ^ digits) / (10 ^ digits :: rat)" unfolding q
      by (intro divide_right_mono) (simp_all only: of_int_le_iff, simp)
    then show ?thesis unfolding scaled .
  qed
qed

lemma ref_common_fixed_ok: "common_fixed_ok ref_common"
  unfolding common_fixed_ok_def
proof (intro allI impI, elim conjE)
  fix r :: rat and digits cap :: nat and lo hi :: int
  assume r: "0 \<le> r" "r \<le> 2 ^ 64" and digits: "0 < digits" "digits \<le> 6" "32 \<le> cap"
    and bounds: "is_double (Fin (of_int lo))" "is_double (Fin (of_int hi))" "of_int lo \<le> r" "r \<le> of_int hi"
  define n where "n = nat (round (r * 10 ^ digits))"
  define q :: rat where "q = of_nat n / 10 ^ digits"
  let ?whole = "nat_text (n div 10 ^ digits)" and ?rest = "pad_text digits (n mod 10 ^ digits)"
  note near = rounded_decimal [OF r(1), where digits = digits, folded n_def q_def]
  have "q \<le> of_int (2 ^ 64)" using near(3) [of "2 ^ 64"] r(2) by simp
  then have "(of_nat n :: rat) \<le> of_nat (2 ^ 64 * 10 ^ digits)" by (simp add: q_def pos_divide_le_eq)
  then have "n \<le> 2 ^ 64 * 10 ^ digits" by (simp only: of_nat_le_iff)
  then have "n div 10 ^ digits \<le> (2 ^ 64 * 10 ^ digits) div 10 ^ digits" by (rule div_le_mono)
  then have "n div 10 ^ digits < 10 ^ Suc 19" by simp
  then have "length ?whole \<le> 20" using length_nat_text by fastforce
  then have "length (?whole @ ''.'' @ ?rest) < cap" using digits by (simp add: length_pad_text)
  then have formatted: "infiltratr_format_fixed_ascii ref_common (Fin r) digits cap = Some (?whole @ ''.'' @ ?rest)"
    using r(1) by (simp add: ref_common_def ref_format_def n_def Let_def)
  have "decimal_value (?whole @ ?rest) = n" by (simp add: decimal_value_pad div_mult_mod_eq)
  moreover have "strchr_split CHR ''.'' (?whole @ ''.'' @ ?rest) = Some (?whole, ?rest)"
  proof -
    have "CHR ''.'' \<notin> set ?whole" using nat_text_digits [of "n div 10 ^ digits"] by (auto simp: list_all_iff ascii_digit_def)
    from strchr_split_append [OF this, of ?rest] show ?thesis by simp
  qed
  moreover have "?rest \<noteq> []" using digits(1) length_pad_text [of digits "n mod 10 ^ digits"] by (metis less_irrefl list.size(3))
  moreover have "dle (Fin (of_int lo)) (fl q)" "dle (fl q) (Fin (of_int hi))"
  proof -
    have fl: "fl (of_int m) = Fin (of_int m)" if "is_double (Fin (of_int m))" for m
      using is_double_bound [OF that] by (simp add: fl_def)
    show "dle (Fin (of_int lo)) (fl q)" using fl_mono [OF near(2) [OF bounds(3)]] unfolding fl [OF bounds(1)] .
    show "dle (fl q) (Fin (of_int hi))" using fl_mono [OF near(3) [OF bounds(4)]] unfolding fl [OF bounds(2)] .
  qed
  ultimately have "infiltratr_parse_double_range ref_common (?whole @ ''.'' @ ?rest) (Fin (of_int lo)) (Fin (of_int hi)) = Some (fl q)"
    using nat_text_digits [of "n div 10 ^ digits"] pad_text_digits [of digits "n mod 10 ^ digits"]
    by (simp add: ref_common_def ref_parse_double_range_def length_pad_text q_def Let_def)
  then show "\<exists>s q. infiltratr_format_fixed_ascii ref_common (Fin r) digits cap = Some s \<and>
      infiltratr_parse_double_range ref_common s (Fin (of_int lo)) (Fin (of_int hi)) = Some (fl q) \<and>
      \<bar>q - r\<bar> \<le> 1 / (2 * 10 ^ digits)"
    using formatted near(1) by blast
qed

lemma ref_parse_i64_text: "- (2 ^ 63) \<le> v \<Longrightarrow> v < 2 ^ 63 \<Longrightarrow> ref_parse_i64 (int_text v) base = Some v"
proof -
  assume v: "- (2 ^ 63) \<le> v" "v < 2 ^ 63"
  have "hd (nat_text n) \<noteq> CHR ''-''" for n
    using nat_text_digits [of n] by (cases "nat_text n") (auto simp: ascii_digit_def)
  then show ?thesis
    using nat_text_digits v by (auto simp: int_text_def ref_parse_i64_def)
qed

lemma config_word_trim: "config_word s \<Longrightarrow> trim_spaces s = s"
proof -
  assume w: "config_word s"
  have "\<not> ascii_space x" if "config_char x" for x
    using that by (auto simp: config_char_def ascii_space_def ascii_digit_def)
  then have none: "\<forall>x\<in>set s. \<not> ascii_space x"
    using w by (auto simp: config_word_def list_all_iff)
  then have "dropWhile ascii_space s = s" "dropWhile ascii_space (rev s) = rev s"
    using hd_in_set [of s] hd_in_set [of "rev s"] by (auto simp: dropWhile_eq_self_iff)
  then show ?thesis by (simp add: trim_spaces_def)
qed

lemma ref_config_line:
  assumes "config_word k" and "config_word v"
  shows "ref_config_parse_line (k @ ''='' @ v) = Some (k, v)"
proof -
  have plain: "\<not> config_char CHR ''=''" "\<not> config_char CHR ''#''"
    by (simp_all add: config_char_def ascii_digit_def)
  then have "CHR ''='' \<notin> set k" "hd k \<noteq> CHR ''#''" "k \<noteq> []"
    using assms(1) by (cases k; auto simp: config_word_def list_all_iff)+
  then show ?thesis
    using assms config_word_trim by (simp add: ref_config_parse_line_def strchr_split_append)
qed

lemma ref_common_config_ok: "common_config_ok ref_common"
proof -
  have theme: "config_word (ref_theme_key m)" for m
    by (simp add: ref_theme_key_def config_word_def config_char_def ascii_digit_def)
  have "ref_theme_parse (ref_theme_key 0) = Some 0" "ref_theme_parse (ref_theme_key 1) = Some 1"
    "ref_theme_parse (ref_theme_key 2) = Some 2"
    by code_simp+
  then have parse: "ref_theme_parse (ref_theme_key m) = Some m" if "m \<in> {0, 1, 2}" for m
    using that by auto
  have "m \<in> {0, 1, 2}" if "ref_theme_parse s = Some m" for s m
    using that by (auto simp: ref_theme_parse_def Let_def split: if_splits)
  then show ?thesis
    using theme parse ref_config_line
    by (auto simp: common_config_ok_def ref_common_def ref_config_parse_line_def)
qed

lemma ref_common_signed_range_ok: "common_signed_range_ok ref_common"
  by (auto simp: common_signed_range_ok_def ref_common_def ref_parse_i64_range_def ref_parse_i64_text
      split: option.splits if_splits)

lemma parse_i64_range_Some:
  "common_signed_range_ok c \<Longrightarrow> infiltratr_parse_i64_range c s 10 lo hi = Some v \<Longrightarrow> v \<in> {lo..hi}"
  unfolding common_signed_range_ok_def by auto

lemma parse_i64_range_text:
  "common_signed_range_ok c \<Longrightarrow> lo \<le> v \<Longrightarrow> v \<le> hi \<Longrightarrow> - (2 ^ 63) \<le> lo \<Longrightarrow> hi < 2 ^ 63 \<Longrightarrow>
   infiltratr_parse_i64_range c (int_text v) 10 lo hi = Some v"
  unfolding common_signed_range_ok_def by auto

lemma int_text_nat: "int_text (int n) = nat_text n"
  by (simp add: int_text_def)

lemma config_word_digits: "list_all ascii_digit s \<Longrightarrow> s \<noteq> [] \<Longrightarrow> config_word s"
  by (simp add: config_word_def list_all_iff config_char_def)

lemma config_word_nat_text: "config_word (nat_text n)"
  using nat_text_digits by (simp add: config_word_digits)

lemma config_word_int_text: "config_word (int_text v)"
  using nat_text_digits [of "nat (- v)"] config_word_nat_text
  by (auto simp: int_text_def config_word_def list_all_iff config_char_def)

lemma config_word_format:
  "common_format_ok c \<Longrightarrow> infiltratr_format_fixed_ascii c d n cap = Some s \<Longrightarrow> config_word s"
  by (fastforce simp: common_format_ok_def config_word_def list_all_iff config_char_def)

lemma percent_u64_percent: "common_rates_ok c \<Longrightarrow> is_percent (infiltratr_percent_u64 c a b)"
  unfolding common_rates_ok_def by (metis is_percent_Fin)

lemma counter_rate_rollback:
  "common_rates_ok c \<Longrightarrow> cur < prev \<Longrightarrow>
   infiltratr_u64_counter_rate c cur prev k t = (False, Fin 0)"
  unfolding common_rates_ok_def by blast

lemma counter_rate_nonneg:
  "common_rates_ok c \<Longrightarrow> infiltratr_u64_counter_rate c cur prev k t = (True, d) \<Longrightarrow>
   \<exists>r. d = Fin r \<and> is_double (Fin r) \<and> 0 \<le> r"
  unfolding common_rates_ok_def by metis

text \<open>Over an interval that is not absurdly short, every counter that did not decrease has a rate.\<close>

lemma counter_rate_given:
  assumes "common_rates_given c" "prev \<le> cur" "0 \<le> k" "k \<le> 2 ^ 10" "1 / 2 ^ 64 \<le> t"
  shows "fst (infiltratr_u64_counter_rate c cur prev (Fin k) (Fin t))"
proof -
  have t: "0 < t" using less_le_trans [OF _ assms(5)] by simp
  have "unat (cur - prev) \<le> 2 ^ 64" using unsigned_less [of "cur - prev", where ?'a = nat] by simp
  then have "(of_nat (unat (cur - prev)) :: rat) \<le> of_nat (2 ^ 64)" by (simp only: of_nat_le_iff)
  then have "of_nat (unat (cur - prev)) * k \<le> 2 ^ 64 * 2 ^ 10"
    using assms(3,4) by (intro mult_mono) (simp_all only: of_nat_power of_nat_numeral zero_le_numeral zero_le_power)
  also have "\<dots> \<le> 2 ^ 512 * (1 / 2 ^ 64)" by simp
  also have "\<dots> \<le> 2 ^ 512 * t" using assms(5) by (intro mult_left_mono) simp_all
  finally have "of_nat (unat (cur - prev)) * k / t \<le> 2 ^ 512" using t by (simp add: pos_divide_le_eq)
  then show ?thesis using assms(1-3) t by (simp add: common_rates_given_def)
qed

end
