(* ===== verification/Overview_Sample.thy ===== *)
theory Overview_Sample
  imports Monitor_Types Common_Library
begin

text \<open>
  \<^verbatim>\<open>src/overview_history.c\<close>, first half: how one whole-system sample of the Overview page
  is derived from a published monitor snapshot. Percentages are clamped to 0..100, the
  disks are averaged and summed, the busiest network interface and GPU and the hottest
  sensor are chosen. The second half of the file, the history itself, is in the theory
  \<open>Overview_History\<close>.
\<close>

datatype temperature_source = TEMPERATURE_NONE | TEMPERATURE_CPU | TEMPERATURE_GPU

record overview_sample =
  ov_gap :: bool
  ov_generation :: u64
  ov_monotonic_seconds :: double
  ov_cpu_available :: bool
  ov_cpu_percent :: double
  ov_cpu_breakdown_available :: bool
  ov_cpu_user_percent :: double
  ov_cpu_kernel_percent :: double
  ov_memory_available :: bool
  ov_memory_percent :: double
  ov_memory_breakdown_available :: bool
  ov_memory_available_percent :: double
  ov_disk_available :: bool
  ov_disk_percent :: double
  ov_disk_read_bytes_per_sec :: double
  ov_disk_write_bytes_per_sec :: double
  ov_disk_index :: nat
  ov_disk_identity :: string
  ov_disk_name :: string
  ov_network_available :: bool
  ov_network_bytes_per_sec :: double
  ov_network_receive_bytes_per_sec :: double
  ov_network_send_bytes_per_sec :: double
  ov_network_index :: nat
  ov_network_identity :: string
  ov_network_name :: string
  ov_gpu_available :: bool
  ov_gpu_percent :: double
  ov_gpu_index :: nat
  ov_gpu_identity :: string
  ov_gpu_name :: string
  ov_temperature_available :: bool
  ov_temperature_c :: double
  ov_temperature_source :: temperature_source
  ov_temperature_gpu_index :: nat
  ov_temperature_identity :: string
  ov_temperature_name :: string
  ov_cpu_pressure_available :: bool
  ov_cpu_pressure_percent :: double
  ov_memory_pressure_available :: bool
  ov_memory_pressure_percent :: double
  ov_io_pressure_available :: bool
  ov_io_pressure_percent :: double

definition zero_sample :: overview_sample where
  "zero_sample =
     \<lparr>ov_gap = False, ov_generation = 0, ov_monotonic_seconds = Fin 0,
      ov_cpu_available = False, ov_cpu_percent = Fin 0, ov_cpu_breakdown_available = False,
      ov_cpu_user_percent = Fin 0, ov_cpu_kernel_percent = Fin 0,
      ov_memory_available = False, ov_memory_percent = Fin 0,
      ov_memory_breakdown_available = False, ov_memory_available_percent = Fin 0,
      ov_disk_available = False, ov_disk_percent = Fin 0, ov_disk_read_bytes_per_sec = Fin 0,
      ov_disk_write_bytes_per_sec = Fin 0, ov_disk_index = 0, ov_disk_identity = [],
      ov_disk_name = [],
      ov_network_available = False, ov_network_bytes_per_sec = Fin 0,
      ov_network_receive_bytes_per_sec = Fin 0, ov_network_send_bytes_per_sec = Fin 0,
      ov_network_index = 0, ov_network_identity = [], ov_network_name = [],
      ov_gpu_available = False, ov_gpu_percent = Fin 0, ov_gpu_index = 0,
      ov_gpu_identity = [], ov_gpu_name = [],
      ov_temperature_available = False, ov_temperature_c = Fin 0,
      ov_temperature_source = TEMPERATURE_NONE, ov_temperature_gpu_index = 0,
      ov_temperature_identity = [], ov_temperature_name = [],
      ov_cpu_pressure_available = False, ov_cpu_pressure_percent = Fin 0,
      ov_memory_pressure_available = False, ov_memory_pressure_percent = Fin 0,
      ov_io_pressure_available = False, ov_io_pressure_percent = Fin 0\<rparr>"

subsection \<open>Deriving a sample\<close>

definition bounded_percent :: "double \<Rightarrow> double" where
  "bounded_percent value =
     (if \<not> isfinite value then Fin 0
      else if dless value (Fin 0) then Fin 0
      else if dless (Fin 100) value then Fin 100 else value)"

definition copy_identity :: "common \<Rightarrow> nat \<Rightarrow> string \<Rightarrow> string \<Rightarrow> string" where
  "copy_identity c capacity primary fallback =
     infiltratr_copy_string c capacity (if primary \<noteq> [] then primary else fallback)"

definition nonneg_finite :: "double \<Rightarrow> bool" where
  "nonneg_finite d \<longleftrightarrow> isfinite d \<and> dle (Fin 0) d"

definition derive_disk_step ::
  "double \<times> double \<times> double \<times> nat \<Rightarrow> disk_info \<Rightarrow> double \<times> double \<times> double \<times> nat" where
  "derive_disk_step acc disk =
     (case acc of (activity_total, read_total, write_total, activity_count) \<Rightarrow>
        (if nonneg_finite (disk_active_percent disk)
           then dadd activity_total (bounded_percent (disk_active_percent disk))
           else activity_total,
         if nonneg_finite (disk_read_bytes_per_sec disk)
           then dadd read_total (disk_read_bytes_per_sec disk) else read_total,
         if nonneg_finite (disk_write_bytes_per_sec disk)
           then dadd write_total (disk_write_bytes_per_sec disk) else write_total,
         if nonneg_finite (disk_active_percent disk) then activity_count + 1
           else activity_count))"

definition derive_disk :: "monitor \<Rightarrow> overview_sample \<Rightarrow> overview_sample" where
  "derive_disk monitor sample =
     (if mon_disks monitor = [] then sample
      else case foldl derive_disk_step (Fin 0, Fin 0, Fin 0, 0) (mon_disks monitor) of
        (activity_total, read_total, write_total, activity_count) \<Rightarrow>
          if activity_count = 0 then sample
          else sample\<lparr>ov_disk_available := True,
            ov_disk_percent :=
              bounded_percent (ddiv activity_total (double_of_nat activity_count)),
            ov_disk_read_bytes_per_sec := read_total,
            ov_disk_write_bytes_per_sec := write_total,
            ov_disk_index := SIZE_MAX, ov_disk_identity := [], ov_disk_name := []\<rparr>)"

text \<open>The busiest-so-far loop shared by the network and GPU selections: \<open>score\<close> skips an
  entry or gives the value compared with a strict \<^verbatim>\<open>>\<close>.\<close>

fun busiest_loop ::
  "('a \<Rightarrow> double option) \<Rightarrow> nat \<Rightarrow> nat \<times> double \<Rightarrow> 'a list \<Rightarrow> nat \<times> double" where
  "busiest_loop score index acc [] = acc"
| "busiest_loop score index (busiest, best) (x # xs) =
     (case score x of
        None \<Rightarrow> busiest_loop score (index + 1) (busiest, best) xs
      | Some v \<Rightarrow>
          if busiest = SIZE_MAX \<or> dless best v
          then busiest_loop score (index + 1) (index, v) xs
          else busiest_loop score (index + 1) (busiest, best) xs)"

definition network_rate :: "net_info \<Rightarrow> double option" where
  "network_rate net =
     (if \<not> isfinite (net_rx_bytes_per_sec net) \<or> \<not> isfinite (net_tx_bytes_per_sec net) \<or>
         dless (net_rx_bytes_per_sec net) (Fin 0) \<or> dless (net_tx_bytes_per_sec net) (Fin 0)
      then None else Some (dadd (net_rx_bytes_per_sec net) (net_tx_bytes_per_sec net)))"

definition derive_network :: "common \<Rightarrow> monitor \<Rightarrow> overview_sample \<Rightarrow> overview_sample" where
  "derive_network c monitor sample =
     (case busiest_loop network_rate 0 (SIZE_MAX, Fin (- 1)) (mon_nets monitor) of
        (busiest, _) \<Rightarrow>
          if mon_nets monitor = [] \<or> busiest = SIZE_MAX then sample
          else let net = mon_nets monitor ! busiest
            in sample\<lparr>ov_network_available := True,
              ov_network_receive_bytes_per_sec := net_rx_bytes_per_sec net,
              ov_network_send_bytes_per_sec := net_tx_bytes_per_sec net,
              ov_network_bytes_per_sec :=
                dadd (net_rx_bytes_per_sec net) (net_tx_bytes_per_sec net),
              ov_network_index := busiest,
              ov_network_identity := copy_identity c LSM_IDENTITY_LEN (net_mac net) (net_name net),
              ov_network_name := infiltratr_copy_string c LSM_NAME_LEN
                (if net_product net \<noteq> [] then net_product net else net_name net)\<rparr>)"

definition gpu_usage :: "gpu_info \<Rightarrow> double option" where
  "gpu_usage gpu =
     (if \<not> gpu_utilization_available gpu \<or> \<not> isfinite (gpu_utilization_percent gpu) then None
      else Some (bounded_percent (gpu_utilization_percent gpu)))"

definition gpu_label :: "gpu_info \<Rightarrow> string" where
  "gpu_label gpu = (if gpu_name gpu \<noteq> [] then gpu_name gpu else gpu_display_identifier gpu)"

definition derive_gpu :: "common \<Rightarrow> monitor \<Rightarrow> overview_sample \<Rightarrow> overview_sample" where
  "derive_gpu c monitor sample =
     (case busiest_loop gpu_usage 0 (SIZE_MAX, Fin (- 1)) (mon_gpus monitor) of
        (busiest, busiest_usage) \<Rightarrow>
          if mon_gpus monitor = [] \<or> busiest = SIZE_MAX then sample
          else let gpu = mon_gpus monitor ! busiest
            in sample\<lparr>ov_gpu_available := True, ov_gpu_percent := busiest_usage,
              ov_gpu_index := busiest,
              ov_gpu_identity := copy_identity c LSM_IDENTITY_LEN
                (gpu_platform_identity gpu) (gpu_display_identifier gpu),
              ov_gpu_name := infiltratr_copy_string c LSM_NAME_LEN (gpu_label gpu)\<rparr>)"

fun derive_gpu_temperatures ::
  "common \<Rightarrow> nat \<Rightarrow> gpu_info list \<Rightarrow> overview_sample \<Rightarrow> overview_sample" where
  "derive_gpu_temperatures c index [] sample = sample"
| "derive_gpu_temperatures c index (gpu # gpus) sample =
     derive_gpu_temperatures c (index + 1) gpus
       (if \<not> gpu_temperature_available gpu \<or> \<not> isfinite (gpu_temperature_c gpu) then sample
        else if \<not> ov_temperature_available sample \<or>
                dless (ov_temperature_c sample) (gpu_temperature_c gpu)
        then sample\<lparr>ov_temperature_available := True,
          ov_temperature_c := gpu_temperature_c gpu,
          ov_temperature_source := TEMPERATURE_GPU,
          ov_temperature_gpu_index := index,
          ov_temperature_identity := copy_identity c LSM_IDENTITY_LEN
            (gpu_platform_identity gpu) (gpu_display_identifier gpu),
          ov_temperature_name := infiltratr_copy_string c LSM_NAME_LEN (gpu_label gpu)\<rparr>
        else sample)"

definition derive_temperature :: "common \<Rightarrow> monitor \<Rightarrow> overview_sample \<Rightarrow> overview_sample" where
  "derive_temperature c monitor sample =
     (let cpu = mon_cpu monitor;
          sample = (if cpu_temperature_available cpu \<and> isfinite (cpu_temperature_c cpu)
            then sample\<lparr>ov_temperature_available := True,
              ov_temperature_c := cpu_temperature_c cpu,
              ov_temperature_source := TEMPERATURE_CPU,
              ov_temperature_name := infiltratr_copy_string c LSM_NAME_LEN
                (if cpu_model cpu \<noteq> [] then cpu_model cpu else ''CPU'')\<rparr>
            else sample)
      in derive_gpu_temperatures c 0 (mon_gpus monitor) sample)"

definition derive_cpu :: "monitor \<Rightarrow> overview_sample \<Rightarrow> overview_sample" where
  "derive_cpu monitor sample =
     (let cpu = mon_cpu monitor;
          sample = (if cpu_usage_available cpu \<and> isfinite (cpu_usage_percent cpu)
            then sample\<lparr>ov_cpu_available := True,
              ov_cpu_percent := bounded_percent (cpu_usage_percent cpu)\<rparr>
            else sample)
      in if cpu_usage_available cpu \<and> isfinite (cpu_user_percent cpu) \<and>
            isfinite (cpu_kernel_percent cpu)
         then sample\<lparr>ov_cpu_breakdown_available := True,
           ov_cpu_user_percent := bounded_percent (cpu_user_percent cpu),
           ov_cpu_kernel_percent := bounded_percent (cpu_kernel_percent cpu)\<rparr>
         else sample)"

definition derive_memory :: "monitor \<Rightarrow> overview_sample \<Rightarrow> overview_sample" where
  "derive_memory monitor sample =
     (let memory = mon_memory monitor
      in if 0 < mem_total_bytes memory \<and> isfinite (mem_usage_percent memory)
         then let sample = sample\<lparr>ov_memory_available := True,
                  ov_memory_percent := bounded_percent (mem_usage_percent memory)\<rparr>
           in if mem_available_bytes memory \<le> mem_total_bytes memory
              then sample\<lparr>ov_memory_breakdown_available := True,
                ov_memory_available_percent := bounded_percent
                  (ddiv (dmul (Fin 100) (double_of_word (mem_available_bytes memory)))
                        (double_of_word (mem_total_bytes memory)))\<rparr>
              else sample
         else sample)"

definition derive_pressure :: "monitor \<Rightarrow> overview_sample \<Rightarrow> overview_sample" where
  "derive_pressure monitor sample =
     (let usable = (\<lambda>p. psi_available p \<and> isfinite (psi_some_avg10 p));
          sample = (if usable (mon_cpu_pressure monitor)
            then sample\<lparr>ov_cpu_pressure_available := True, ov_cpu_pressure_percent :=
              bounded_percent (psi_some_avg10 (mon_cpu_pressure monitor))\<rparr> else sample);
          sample = (if usable (mon_memory_pressure monitor)
            then sample\<lparr>ov_memory_pressure_available := True, ov_memory_pressure_percent :=
              bounded_percent (psi_some_avg10 (mon_memory_pressure monitor))\<rparr> else sample)
      in if usable (mon_io_pressure monitor)
         then sample\<lparr>ov_io_pressure_available := True, ov_io_pressure_percent :=
           bounded_percent (psi_some_avg10 (mon_io_pressure monitor))\<rparr> else sample)"

definition derive_sample :: "common \<Rightarrow> monitor \<Rightarrow> overview_sample" where
  "derive_sample c monitor =
     (let sample = zero_sample\<lparr>ov_generation := mon_sample_generation monitor,
            ov_monotonic_seconds := mon_sample_monotonic_seconds monitor\<rparr>
      in derive_pressure monitor (derive_temperature c monitor (derive_gpu c monitor
           (derive_network c monitor (derive_disk monitor
             (derive_memory monitor (derive_cpu monitor sample)))))))"

subsection \<open>Percentages are clamped\<close>

lemma is_percent_bounded [simp]: "is_percent (bounded_percent v)"
  by (cases v) (auto simp: bounded_percent_def is_percent_def)

lemma bounded_percent_not_nan [simp]: "\<not> isnan (bounded_percent v)"
  by (cases v) (auto simp: bounded_percent_def)

lemma bounded_percent_id: "is_percent v \<Longrightarrow> bounded_percent v = v"
  by (cases v) (auto simp: bounded_percent_def is_percent_def)

subsection \<open>The busiest entry\<close>

definition best_of :: "('a \<Rightarrow> double option) \<Rightarrow> 'a list \<Rightarrow> nat \<times> double \<Rightarrow> bool" where
  "best_of score ys acc \<longleftrightarrow>
     (case acc of (k, v) \<Rightarrow>
        if k = SIZE_MAX then \<forall>y\<in>set ys. score y = None
        else k < length ys \<and> score (ys ! k) = Some v \<and>
          (\<forall>j<length ys. \<forall>w. score (ys ! j) = Some w \<longrightarrow> dle w v \<and> (j < k \<longrightarrow> dless w v)))"

lemma best_of_skip:
  "score x = None \<Longrightarrow> best_of score ys acc \<Longrightarrow> best_of score (ys @ [x]) acc"
  by (auto simp: best_of_def nth_append less_Suc_eq split: if_splits prod.splits)

lemma best_of_keep:
  assumes "score x = Some w" "\<not> isnan w" "\<not> isnan v" "\<not> dless v w" "k \<noteq> SIZE_MAX"
    "best_of score ys (k, v)"
  shows "best_of score (ys @ [x]) (k, v)"
  using assms not_dless_dle [of v w]
  by (auto simp: best_of_def nth_append less_Suc_eq)

lemma best_of_take:
  assumes "score x = Some w" "\<not> isnan w" "length ys < SIZE_MAX"
    "k = SIZE_MAX \<or> dless v w" "best_of score ys (k, v)"
  shows "best_of score (ys @ [x]) (length ys, w)"
proof -
  have "dle w w" using assms(2) by (cases w) auto
  moreover have "dle w' w \<and> dless w' w" if "j < length ys" "score (ys ! j) = Some w'" for j w'
  proof (cases "k = SIZE_MAX")
    case True
    with assms(5) that nth_mem show ?thesis by (fastforce simp: best_of_def)
  next
    case False
    with assms(5) that have "dle w' v" by (auto simp: best_of_def)
    moreover have "dless v w" using assms(4) False by simp
    ultimately have "dless w' w" by (rule dle_dless_trans)
    then show ?thesis by (cases w'; cases w) auto
  qed
  ultimately show ?thesis
    using assms(1,3) by (auto simp: best_of_def nth_append less_Suc_eq)
qed

lemma best_of_not_nan:
  "best_of score ys (k, v) \<Longrightarrow> k \<noteq> SIZE_MAX \<Longrightarrow> (\<And>y w. score y = Some w \<Longrightarrow> \<not> isnan w) \<Longrightarrow>
   \<not> isnan v"
  by (auto simp: best_of_def)

lemma busiest_loop_best:
  assumes nn: "\<And>y w. score y = Some w \<Longrightarrow> \<not> isnan w"
  shows "best_of score ys acc \<Longrightarrow> length ys + length xs < SIZE_MAX \<Longrightarrow>
    best_of score (ys @ xs) (busiest_loop score (length ys) acc xs)"
proof (induction xs arbitrary: ys acc)
  case Nil
  then show ?case by simp
next
  case (Cons x xs)
  obtain k v where acc: "acc = (k, v)" by (cases acc)
  have step: "best_of score (ys @ x # xs) (busiest_loop score (length ys + 1) acc' xs)"
    if "best_of score (ys @ [x]) acc'" for acc'
    using Cons.IH [OF that] Cons.prems(2) by simp
  show ?case
  proof (cases "score x")
    case None
    with acc step [of acc] best_of_skip [OF None Cons.prems(1)] show ?thesis by simp
  next
    case (Some w)
    show ?thesis
    proof (cases "k = SIZE_MAX \<or> dless v w")
      case True
      with best_of_take [of score x w ys k v, OF Some nn [OF Some] _ True] Cons.prems acc Some
        step [of "(length ys, w)"]
      show ?thesis by simp
    next
      case False
      then have k: "k \<noteq> SIZE_MAX" "\<not> dless v w" by auto
      have b: "best_of score ys (k, v)" using Cons.prems(1) acc by simp
      have "best_of score (ys @ [x]) (k, v)"
        by (rule best_of_keep [OF Some nn [OF Some] best_of_not_nan [OF b k(1) nn] k(2,1) b])
      with step [of "(k, v)"] acc Some False show ?thesis by simp
    qed
  qed
qed

corollary busiest_loop_correct:
  assumes "\<And>y w. score y = Some w \<Longrightarrow> \<not> isnan w" "length xs < SIZE_MAX"
  shows "best_of score xs (busiest_loop score 0 (SIZE_MAX, b) xs)"
  using busiest_loop_best [of score "[]" "(SIZE_MAX, b)" xs] assms by (simp add: best_of_def)

lemma network_rate_not_nan: "network_rate n = Some w \<Longrightarrow> \<not> isnan w"
  by (cases "net_rx_bytes_per_sec n"; cases "net_tx_bytes_per_sec n")
     (auto simp: network_rate_def split: if_splits)

lemma gpu_usage_not_nan: "gpu_usage g = Some w \<Longrightarrow> \<not> isnan w"
  by (auto simp: gpu_usage_def split: if_splits)

subsection \<open>What each stage leaves alone\<close>

lemma gpu_temperatures_frame:
  "ov_network_available (derive_gpu_temperatures c i gs s) = ov_network_available s"
  "ov_network_index (derive_gpu_temperatures c i gs s) = ov_network_index s"
  "ov_network_bytes_per_sec (derive_gpu_temperatures c i gs s) = ov_network_bytes_per_sec s"
  "ov_gap (derive_gpu_temperatures c i gs s) = ov_gap s"
  "ov_generation (derive_gpu_temperatures c i gs s) = ov_generation s"
  "ov_monotonic_seconds (derive_gpu_temperatures c i gs s) = ov_monotonic_seconds s"
  by (induction gs arbitrary: i s) simp_all

lemma temperature_frame:
  "ov_network_available (derive_temperature c m s) = ov_network_available s"
  "ov_network_index (derive_temperature c m s) = ov_network_index s"
  "ov_network_bytes_per_sec (derive_temperature c m s) = ov_network_bytes_per_sec s"
  "ov_gap (derive_temperature c m s) = ov_gap s"
  "ov_generation (derive_temperature c m s) = ov_generation s"
  "ov_monotonic_seconds (derive_temperature c m s) = ov_monotonic_seconds s"
  by (simp_all add: derive_temperature_def gpu_temperatures_frame Let_def)

lemma pressure_frame:
  "ov_network_available (derive_pressure m s) = ov_network_available s"
  "ov_network_index (derive_pressure m s) = ov_network_index s"
  "ov_network_bytes_per_sec (derive_pressure m s) = ov_network_bytes_per_sec s"
  "ov_gap (derive_pressure m s) = ov_gap s"
  "ov_generation (derive_pressure m s) = ov_generation s"
  "ov_monotonic_seconds (derive_pressure m s) = ov_monotonic_seconds s"
  by (simp_all add: derive_pressure_def Let_def)

lemma gpu_frame:
  "ov_network_available (derive_gpu c m s) = ov_network_available s"
  "ov_network_index (derive_gpu c m s) = ov_network_index s"
  "ov_network_bytes_per_sec (derive_gpu c m s) = ov_network_bytes_per_sec s"
  "ov_gap (derive_gpu c m s) = ov_gap s"
  "ov_generation (derive_gpu c m s) = ov_generation s"
  "ov_monotonic_seconds (derive_gpu c m s) = ov_monotonic_seconds s"
  by (simp_all add: derive_gpu_def Let_def split: prod.split)

lemma disk_frame:
  "ov_network_available (derive_disk m s) = ov_network_available s"
  "ov_network_index (derive_disk m s) = ov_network_index s"
  "ov_network_bytes_per_sec (derive_disk m s) = ov_network_bytes_per_sec s"
  "ov_gap (derive_disk m s) = ov_gap s"
  "ov_generation (derive_disk m s) = ov_generation s"
  "ov_monotonic_seconds (derive_disk m s) = ov_monotonic_seconds s"
  by (simp_all add: derive_disk_def split: prod.split)

lemma memory_frame:
  "ov_network_available (derive_memory m s) = ov_network_available s"
  "ov_network_index (derive_memory m s) = ov_network_index s"
  "ov_network_bytes_per_sec (derive_memory m s) = ov_network_bytes_per_sec s"
  "ov_gap (derive_memory m s) = ov_gap s"
  "ov_generation (derive_memory m s) = ov_generation s"
  "ov_monotonic_seconds (derive_memory m s) = ov_monotonic_seconds s"
  by (simp_all add: derive_memory_def Let_def)

lemma cpu_frame:
  "ov_network_available (derive_cpu m s) = ov_network_available s"
  "ov_network_index (derive_cpu m s) = ov_network_index s"
  "ov_network_bytes_per_sec (derive_cpu m s) = ov_network_bytes_per_sec s"
  "ov_gap (derive_cpu m s) = ov_gap s"
  "ov_generation (derive_cpu m s) = ov_generation s"
  "ov_monotonic_seconds (derive_cpu m s) = ov_monotonic_seconds s"
  by (simp_all add: derive_cpu_def Let_def)

lemma network_frame:
  "ov_gap (derive_network c m s) = ov_gap s"
  "ov_generation (derive_network c m s) = ov_generation s"
  "ov_monotonic_seconds (derive_network c m s) = ov_monotonic_seconds s"
  by (simp_all add: derive_network_def Let_def split: prod.split)

lemmas stage_frames = temperature_frame pressure_frame gpu_frame disk_frame memory_frame
  cpu_frame network_frame

lemma derive_sample_identity:
  "ov_gap (derive_sample c m) = False"
  "ov_generation (derive_sample c m) = mon_sample_generation m"
  "ov_monotonic_seconds (derive_sample c m) = mon_sample_monotonic_seconds m"
  by (simp_all add: derive_sample_def stage_frames Let_def) (simp add: zero_sample_def)

lemma derive_sample_network:
  obtains s where "ov_network_available s = False"
    "ov_network_available (derive_sample c m) = ov_network_available (derive_network c m s)"
    "ov_network_index (derive_sample c m) = ov_network_index (derive_network c m s)"
    "ov_network_bytes_per_sec (derive_sample c m) =
       ov_network_bytes_per_sec (derive_network c m s)"
proof -
  define s where "s = derive_disk m (derive_memory m (derive_cpu m
    (zero_sample\<lparr>ov_generation := mon_sample_generation m,
       ov_monotonic_seconds := mon_sample_monotonic_seconds m\<rparr>)))"
  show ?thesis
    by (rule that [of s]) (simp_all add: derive_sample_def stage_frames Let_def s_def zero_sample_def)
qed

subsection \<open>Every stage keeps the percentages in range\<close>

definition sample_percents :: "overview_sample \<Rightarrow> double list" where
  "sample_percents s =
     [ov_cpu_percent s, ov_cpu_user_percent s, ov_cpu_kernel_percent s, ov_memory_percent s,
      ov_memory_available_percent s, ov_disk_percent s, ov_gpu_percent s,
      ov_cpu_pressure_percent s, ov_memory_pressure_percent s, ov_io_pressure_percent s]"

definition percents_ok :: "overview_sample \<Rightarrow> bool" where
  "percents_ok s \<longleftrightarrow> list_all is_percent (sample_percents s)"

lemmas percents_ok_defs = percents_ok_def sample_percents_def

lemma percents_ok_gpu_temperatures:
  "percents_ok s \<Longrightarrow> percents_ok (derive_gpu_temperatures c i gs s)"
proof (induction gs arbitrary: i s)
  case (Cons g gs)
  then show ?case by (simp add: percents_ok_defs)
qed simp

lemma percents_ok_temperature: "percents_ok s \<Longrightarrow> percents_ok (derive_temperature c m s)"
  unfolding derive_temperature_def Let_def
  by (rule percents_ok_gpu_temperatures) (simp add: percents_ok_defs)

lemma percents_ok_stages:
  assumes "percents_ok s"
  shows "percents_ok (derive_pressure m s)" "percents_ok (derive_network c m s)"
    "percents_ok (derive_disk m s)" "percents_ok (derive_memory m s)"
    "percents_ok (derive_cpu m s)"
  using assms
  by (simp_all add: percents_ok_defs derive_pressure_def derive_network_def derive_disk_def
      derive_memory_def derive_cpu_def Let_def split: prod.split)

lemma busiest_loop_value:
  "busiest_loop score i (k, v) xs = (k', v') \<Longrightarrow>
   (k', v') = (k, v) \<or> (\<exists>x\<in>set xs. score x = Some v')"
proof (induction xs arbitrary: i k v)
  case (Cons x xs)
  then show ?case by (fastforce split: option.splits if_splits)
qed simp

lemma percents_ok_gpu:
  assumes "percents_ok s"
  shows "percents_ok (derive_gpu c m s)"
proof -
  obtain k v where kv: "busiest_loop gpu_usage 0 (SIZE_MAX, Fin (- 1)) (mon_gpus m) = (k, v)"
    by fastforce
  from busiest_loop_value [OF kv] have "k = SIZE_MAX \<or> is_percent v"
    by (auto simp: gpu_usage_def split: if_splits)
  with assms kv show ?thesis by (auto simp: derive_gpu_def percents_ok_defs Let_def)
qed

text \<open>
  C2. Whatever the collectors published, including NaN, infinities and out-of-range
  values, every percentage of a derived overview sample is a number from 0 to 100.
\<close>

theorem derive_sample_percentages:
  "list_all is_percent (sample_percents (derive_sample c m))"
proof -
  have "percents_ok (zero_sample\<lparr>ov_generation := g, ov_monotonic_seconds := t\<rparr>)" for g t
    by (simp add: percents_ok_defs zero_sample_def)
  then have "percents_ok (derive_sample c m)"
    unfolding derive_sample_def Let_def
    by (intro percents_ok_stages percents_ok_temperature percents_ok_gpu)
  then show ?thesis by (simp add: percents_ok_def)
qed

text \<open>
  The network shown on the Overview page is the busiest usable one: a sample has a
  network exactly when some interface has two finite non-negative rates; the chosen index
  is then in range, its summed rate is the sample's, no usable interface has a higher
  rate and every earlier one has a strictly lower rate.
\<close>

theorem derive_network_busiest:
  assumes "length (mon_nets m) < SIZE_MAX"
  shows "(ov_network_available (derive_sample c m) \<longleftrightarrow>
            (\<exists>n\<in>set (mon_nets m). network_rate n \<noteq> None)) \<and>
         (ov_network_available (derive_sample c m) \<longrightarrow>
            best_of network_rate (mon_nets m)
              (ov_network_index (derive_sample c m), ov_network_bytes_per_sec (derive_sample c m)) \<and>
            ov_network_index (derive_sample c m) < length (mon_nets m))"
proof -
  obtain k v where kv: "busiest_loop network_rate 0 (SIZE_MAX, Fin (- 1)) (mon_nets m) = (k, v)"
    by fastforce
  have best: "best_of network_rate (mon_nets m) (k, v)"
    unfolding kv [symmetric] using network_rate_not_nan assms by (rule busiest_loop_correct)
  obtain s where s: "ov_network_available s = False"
    "ov_network_available (derive_sample c m) = ov_network_available (derive_network c m s)"
    "ov_network_index (derive_sample c m) = ov_network_index (derive_network c m s)"
    "ov_network_bytes_per_sec (derive_sample c m) = ov_network_bytes_per_sec (derive_network c m s)"
    by (rule derive_sample_network)
  have avail: "ov_network_available (derive_sample c m) \<longleftrightarrow> mon_nets m \<noteq> [] \<and> k \<noteq> SIZE_MAX"
    using s(1) by (simp add: s(2) derive_network_def kv Let_def)
  have "ov_network_available (derive_sample c m) \<longleftrightarrow>
      (\<exists>n\<in>set (mon_nets m). network_rate n \<noteq> None)"
  proof (cases "k = SIZE_MAX")
    case True
    with best avail show ?thesis by (auto simp: best_of_def)
  next
    case False
    with best have "k < length (mon_nets m)" "network_rate (mon_nets m ! k) \<noteq> None"
      by (auto simp: best_of_def)
    with False avail show ?thesis using nth_mem by fastforce
  qed
  moreover have "best_of network_rate (mon_nets m)
      (ov_network_index (derive_sample c m), ov_network_bytes_per_sec (derive_sample c m)) \<and>
    ov_network_index (derive_sample c m) < length (mon_nets m)"
    if "ov_network_available (derive_sample c m)"
  proof -
    from that avail have k: "k \<noteq> SIZE_MAX" "mon_nets m \<noteq> []" by auto
    with best have "network_rate (mon_nets m ! k) = Some v" by (simp add: best_of_def)
    then have "v = dadd (net_rx_bytes_per_sec (mon_nets m ! k))
        (net_tx_bytes_per_sec (mon_nets m ! k))"
      by (auto simp: network_rate_def split: if_splits)
    with best k kv show ?thesis by (simp add: s derive_network_def Let_def best_of_def)
  qed
  ultimately show ?thesis by blast
qed

theorem derive_network_busiest_witness:
  "length (mon_nets example_monitor) < SIZE_MAX \<and>
   ov_network_available (derive_sample ref_common example_monitor) \<and>
   best_of network_rate (mon_nets example_monitor)
     (ov_network_index (derive_sample ref_common example_monitor),
      ov_network_bytes_per_sec (derive_sample ref_common example_monitor))"
proof -
  have len: "length (mon_nets example_monitor) < SIZE_MAX"
    by (simp add: example_monitor_def SIZE_MAX_def)
  have "\<exists>n\<in>set (mon_nets example_monitor). network_rate n \<noteq> None"
    by (simp add: example_monitor_def network_rate_def)
  with len derive_network_busiest [OF len, of ref_common] show ?thesis by blast
qed

end
