(* ===== verification/Overview_History.thy ===== *)
theory Overview_History
  imports Overview_Sample Ring_Window
begin

text \<open>
  \<^verbatim>\<open>src/overview_history.c\<close>, second half: the 120-entry circular history of overview
  samples, the rule that accepts or rejects a published snapshot and marks missing
  generations by a gap entry, and the resolution of a remembered device in the current
  inventory.
\<close>

definition LSM_OVERVIEW_HISTORY_CAPACITY :: nat where
  "LSM_OVERVIEW_HISTORY_CAPACITY = 120"

record overview_history =
  oh_samples :: "overview_sample list"
  oh_count :: nat
  oh_next :: nat
  oh_last_generation :: u64
  oh_last_timestamp :: double
  oh_have_last :: bool

definition lsm_overview_history_create :: overview_history where
  "lsm_overview_history_create =
     \<lparr>oh_samples = replicate LSM_OVERVIEW_HISTORY_CAPACITY zero_sample, oh_count = 0,
      oh_next = 0, oh_last_generation = 0, oh_last_timestamp = Fin 0, oh_have_last = False\<rparr>"

definition lsm_overview_history_reset :: "overview_history \<Rightarrow> overview_history" where
  "lsm_overview_history_reset history = lsm_overview_history_create"

definition history_push :: "overview_sample \<Rightarrow> overview_history \<Rightarrow> overview_history" where
  "history_push sample history =
     history\<lparr>oh_samples := (oh_samples history)[oh_next history := sample],
       oh_next := (oh_next history + 1) mod LSM_OVERVIEW_HISTORY_CAPACITY,
       oh_count := (if oh_count history < LSM_OVERVIEW_HISTORY_CAPACITY
         then oh_count history + 1 else oh_count history)\<rparr>"

definition history_slot :: "overview_history \<Rightarrow> nat \<Rightarrow> nat" where
  "history_slot history index =
     (let oldest = (oh_next history + LSM_OVERVIEW_HISTORY_CAPACITY - oh_count history)
            mod LSM_OVERVIEW_HISTORY_CAPACITY
      in (oldest + index) mod LSM_OVERVIEW_HISTORY_CAPACITY)"

definition gap_sample :: "double \<Rightarrow> double \<Rightarrow> overview_sample" where
  "gap_sample last_timestamp now =
     zero_sample\<lparr>ov_gap := True,
       ov_monotonic_seconds := dadd last_timestamp (ddiv (dsub now last_timestamp) (Fin 2))\<rparr>"

definition expected_generation :: "u64 \<Rightarrow> u64" where
  "expected_generation last_generation =
     (if last_generation = UINT64_MAX then 1 else last_generation + 1)"

definition lsm_overview_history_record ::
  "common \<Rightarrow> overview_history \<Rightarrow> monitor \<Rightarrow> bool \<times> overview_history" where
  "lsm_overview_history_record c history monitor =
     (let now = mon_sample_monotonic_seconds monitor;
          generation = mon_sample_generation monitor
      in if generation = 0 \<or> \<not> isfinite now \<or> dle now (Fin 0) then (False, history)
         else if oh_have_last history \<and> generation = oh_last_generation history
           then (False, history)
         else if oh_have_last history \<and> dle now (oh_last_timestamp history)
           then (False, history)
         else
           let history = (if oh_have_last history \<and>
                 generation \<noteq> expected_generation (oh_last_generation history)
               then history_push (gap_sample (oh_last_timestamp history) now) history
               else history);
               history = history_push (derive_sample c monitor) history
           in (True, history\<lparr>oh_last_generation := generation, oh_last_timestamp := now,
                 oh_have_last := True\<rparr>))"

definition lsm_overview_history_count :: "overview_history option \<Rightarrow> nat" where
  "lsm_overview_history_count history = (case history of None \<Rightarrow> 0 | Some h \<Rightarrow> oh_count h)"

definition lsm_overview_history_get ::
  "overview_history option \<Rightarrow> nat \<Rightarrow> overview_sample option" where
  "lsm_overview_history_get history index =
     (case history of
        None \<Rightarrow> None
      | Some h \<Rightarrow> if oh_count h \<le> index then None else Some (oh_samples h ! history_slot h index))"

definition lsm_overview_history_latest ::
  "overview_history option \<Rightarrow> overview_sample option" where
  "lsm_overview_history_latest history =
     (case history of
        None \<Rightarrow> None
      | Some h \<Rightarrow>
          if oh_count h = 0 then None
          else lsm_overview_history_get history (oh_count h - 1))"

subsection \<open>Resolving a remembered device\<close>

definition identity_matches :: "string \<Rightarrow> string \<Rightarrow> string \<Rightarrow> string \<Rightarrow> bool" where
  "identity_matches saved_identity saved_name current_identity current_name =
     (if saved_identity \<noteq> [] \<and> current_identity \<noteq> [] then saved_identity = current_identity
      else saved_name \<noteq> [] \<and> current_name \<noteq> [] \<and> saved_name = current_name)"

fun first_index :: "('a \<Rightarrow> bool) \<Rightarrow> nat \<Rightarrow> 'a list \<Rightarrow> nat" where
  "first_index p i [] = SIZE_MAX"
| "first_index p i (x # xs) = (if p x then i else first_index p (i + 1) xs)"

definition lsm_overview_resolve_disk :: "monitor \<Rightarrow> overview_sample \<Rightarrow> nat" where
  "lsm_overview_resolve_disk monitor sample =
     (if \<not> ov_disk_available sample then SIZE_MAX
      else first_index (\<lambda>disk. identity_matches (ov_disk_identity sample) (ov_disk_name sample)
        (disk_instance_identity disk)
        (if disk_model disk \<noteq> [] then disk_model disk else disk_name disk)) 0 (mon_disks monitor))"

definition lsm_overview_resolve_network :: "monitor \<Rightarrow> overview_sample \<Rightarrow> nat" where
  "lsm_overview_resolve_network monitor sample =
     (if \<not> ov_network_available sample then SIZE_MAX
      else first_index (\<lambda>net. identity_matches (ov_network_identity sample)
        (ov_network_name sample)
        (if net_mac net \<noteq> [] then net_mac net else net_name net)
        (if net_product net \<noteq> [] then net_product net else net_name net)) 0 (mon_nets monitor))"

definition lsm_overview_resolve_gpu :: "monitor \<Rightarrow> overview_sample \<Rightarrow> nat" where
  "lsm_overview_resolve_gpu monitor sample =
     (if mon_gpus monitor = [] then SIZE_MAX
      else if \<not> ov_gpu_available sample then 0
      else first_index (\<lambda>gpu. identity_matches (ov_gpu_identity sample) (ov_gpu_name sample)
        (if gpu_platform_identity gpu \<noteq> [] then gpu_platform_identity gpu
         else gpu_display_identifier gpu) (gpu_label gpu)) 0 (mon_gpus monitor))"

subsection \<open>The history as a bounded window\<close>

lemma capacity_pos [simp]: "0 < LSM_OVERVIEW_HISTORY_CAPACITY"
  by (simp add: LSM_OVERVIEW_HISTORY_CAPACITY_def)

definition ohistory_inv :: "overview_history \<Rightarrow> bool" where
  "ohistory_inv h \<longleftrightarrow>
     length (oh_samples h) = LSM_OVERVIEW_HISTORY_CAPACITY \<and>
     oh_count h \<le> LSM_OVERVIEW_HISTORY_CAPACITY \<and> oh_next h < LSM_OVERVIEW_HISTORY_CAPACITY"

definition ohistory_window :: "overview_history \<Rightarrow> overview_sample list" where
  "ohistory_window h = map (\<lambda>i. oh_samples h ! history_slot h i) [0..<oh_count h]"

lemma length_ohistory_window [ring_simps]: "length (ohistory_window h) = oh_count h"
  by (simp add: ohistory_window_def)

lemma ohistory_window_ring:
  "length (oh_samples h) = LSM_OVERVIEW_HISTORY_CAPACITY \<Longrightarrow>
   ohistory_window h = ring_window (oh_samples h) (history_slot h 0) (oh_count h)"
  by (simp add: ohistory_window_def ring_window_def history_slot_def Let_def mod_add_left_eq)

lemma ohistory_inv_push: "ohistory_inv h \<Longrightarrow> ohistory_inv (history_push x h)"
  by (simp add: ohistory_inv_def history_push_def)

lemma ring_next:
  "k \<le> n \<Longrightarrow> next < n \<Longrightarrow> ((next + n - k) mod n + k) mod n = (next::nat)"
  by (simp add: mod_add_left_eq)

lemma ring_oldest_step:
  assumes "k < (n::nat)"
  shows "((i + 1) mod n + n - (k + 1)) mod n = (i + n - k) mod n"
proof -
  have "((i + 1) mod n + n - (k + 1)) mod n = ((i + 1) mod n + (n - (k + 1))) mod n"
    using assms by simp
  also have "\<dots> = (i + 1 + (n - (k + 1))) mod n" by (rule mod_add_left_eq)
  also have "i + 1 + (n - (k + 1)) = i + n - k" using assms by simp
  finally show ?thesis .
qed

lemma ohistory_window_push:
  assumes "ohistory_inv h"
  shows "ohistory_window (history_push x h) =
    (if oh_count h < LSM_OVERVIEW_HISTORY_CAPACITY then ohistory_window h
     else tl (ohistory_window h)) @ [x]"
proof -
  let ?n = LSM_OVERVIEW_HISTORY_CAPACITY and ?o = "history_slot h 0"
  have len: "length (oh_samples h) = ?n" and cnt: "oh_count h \<le> ?n" and nxt: "oh_next h < ?n"
    using assms by (auto simp: ohistory_inv_def)
  have o: "?o < length (oh_samples h)" by (simp add: history_slot_def len)
  have w: "ohistory_window (history_push x h) = ring_window ((oh_samples h)[oh_next h := x])
      (history_slot (history_push x h) 0) (oh_count (history_push x h))"
    using ohistory_window_ring [of "history_push x h"] len by (simp add: history_push_def)
  show ?thesis
  proof (cases "oh_count h < ?n")
    case True
    have "(?o + oh_count h) mod ?n = oh_next h"
      using ring_next [OF cnt nxt] by (simp add: history_slot_def)
    moreover have "history_slot (history_push x h) 0 = ?o"
      using ring_oldest_step [OF True, of "oh_next h"] True
      by (simp add: history_slot_def history_push_def)
    ultimately show ?thesis
      using ring_window_grow [OF o, of "oh_count h" x] True w len
      by (simp add: history_push_def ohistory_window_ring)
  next
    case False
    with cnt have c: "oh_count h = ?n" by simp
    then have s0: "?o = oh_next h" using nxt by (simp add: history_slot_def)
    have "history_slot (history_push x h) 0 = (?o + 1) mod ?n"
      unfolding s0 using c by (simp add: history_slot_def history_push_def)
    then show ?thesis
      using ring_window_rotate [OF o, of x] c w len s0
      by (simp add: history_push_def ohistory_window_ring)
  qed
qed

interpretation overview: bounded_window LSM_OVERVIEW_HISTORY_CAPACITY ohistory_inv
  ohistory_window "\<lambda>x. x" history_push
proof (unfold_locales, goal_cases)
  case 1 show ?case by simp
next
  case (2 s) then show ?case by (simp add: ohistory_inv_def ring_simps)
next
  case (3 s x) then show ?case by (rule ohistory_inv_push)
next
  case (4 s x) then show ?case by (simp add: ohistory_window_push ring_simps)
qed

lemma history_get_window:
  "lsm_overview_history_get (Some h) i =
     (if i < length (ohistory_window h) then Some (ohistory_window h ! i) else None)"
  by (auto simp: lsm_overview_history_get_def ohistory_window_def)

subsection \<open>Recording keeps time order\<close>

definition record_rejects :: "overview_history \<Rightarrow> monitor \<Rightarrow> bool" where
  "record_rejects h m \<longleftrightarrow>
     mon_sample_generation m = 0 \<or> \<not> isfinite (mon_sample_monotonic_seconds m) \<or>
     dle (mon_sample_monotonic_seconds m) (Fin 0) \<or>
     oh_have_last h \<and> (mon_sample_generation m = oh_last_generation h \<or>
       dle (mon_sample_monotonic_seconds m) (oh_last_timestamp h))"

definition record_gaps :: "overview_history \<Rightarrow> monitor \<Rightarrow> overview_sample list" where
  "record_gaps h m =
     (if oh_have_last h \<and> mon_sample_generation m \<noteq> expected_generation (oh_last_generation h)
      then [gap_sample (oh_last_timestamp h) (mon_sample_monotonic_seconds m)] else [])"

lemma record_eq:
  "lsm_overview_history_record c h m =
     (if record_rejects h m then (False, h)
      else (True, (fold history_push (record_gaps h m @ [derive_sample c m]) h)
        \<lparr>oh_last_generation := mon_sample_generation m,
         oh_last_timestamp := mon_sample_monotonic_seconds m, oh_have_last := True\<rparr>))"
  by (auto simp: lsm_overview_history_record_def record_rejects_def record_gaps_def Let_def)

lemma ohistory_window_last_fields [simp]:
  "ohistory_window (h\<lparr>oh_last_generation := g, oh_last_timestamp := t, oh_have_last := b\<rparr>) =
     ohistory_window h"
  "ohistory_inv (h\<lparr>oh_last_generation := g, oh_last_timestamp := t, oh_have_last := b\<rparr>) =
     ohistory_inv h"
  by (simp_all add: ohistory_window_def ohistory_inv_def history_slot_def)

text \<open>Finite times, never decreasing, and strictly increasing between recorded samples: a gap entry
  lies between its neighbours but may round to one of them.\<close>

definition time_before :: "overview_sample \<Rightarrow> overview_sample \<Rightarrow> bool" where
  "time_before a b \<longleftrightarrow>
     isfinite (ov_monotonic_seconds a) \<and> isfinite (ov_monotonic_seconds b) \<and>
     dle (ov_monotonic_seconds a) (ov_monotonic_seconds b) \<and>
     (ov_gap a \<or> ov_gap b \<or> dless (ov_monotonic_seconds a) (ov_monotonic_seconds b))"

definition time_ordered :: "overview_sample list \<Rightarrow> bool" where
  "time_ordered ss \<longleftrightarrow> sorted_wrt time_before ss"

definition until :: "rat \<Rightarrow> overview_sample \<Rightarrow> bool" where
  "until t s \<longleftrightarrow> (\<exists>r. ov_monotonic_seconds s = Fin r \<and> r \<le> t)"

definition ohistory_timed :: "overview_history \<Rightarrow> bool" where
  "ohistory_timed h \<longleftrightarrow>
     ohistory_inv h \<and> time_ordered (ohistory_window h) \<and>
     (if oh_have_last h
      then (\<exists>t. oh_last_timestamp h = Fin t \<and> 0 < t \<and> is_double (Fin t) \<and> (\<forall>s\<in>set (ohistory_window h). until t s))
      else ohistory_window h = [])"

lemma time_ordered_push:
  assumes "ohistory_inv h" "time_ordered (ohistory_window h)"
    "\<forall>s\<in>set (ohistory_window h). time_before s x"
  shows "time_ordered (ohistory_window (history_push x h))"
proof -
  have "time_ordered (tl (ohistory_window h))"
    using assms(2) by (cases "ohistory_window h") (auto simp: time_ordered_def)
  moreover have "set (tl (ohistory_window h)) \<subseteq> set (ohistory_window h)"
    by (cases "ohistory_window h") auto
  ultimately show ?thesis
    using assms by (auto simp: time_ordered_def ohistory_window_push sorted_wrt_append)
qed

lemma set_window_push:
  "ohistory_inv h \<Longrightarrow>
   set (ohistory_window (history_push x h)) \<subseteq> insert x (set (ohistory_window h))"
  by (cases "ohistory_window h") (auto simp: ohistory_window_push)

lemma timed_record_step:
  assumes h: "ohistory_timed h" and r: "\<not> record_rejects h m"
    and d: "is_double (mon_sample_monotonic_seconds m)"
  shows "ohistory_timed (snd (lsm_overview_history_record c h m))"
proof -
  obtain t where t: "mon_sample_monotonic_seconds m = Fin t" "0 < t"
    using r by (auto simp: record_rejects_def elim!: isfiniteE)
  have dm: "ov_monotonic_seconds (derive_sample c m) = Fin t" by (simp add: derive_sample_identity t)
  have inv: "ohistory_inv h" using h by (simp add: ohistory_timed_def)
  define g where "g = fold history_push (record_gaps h m) h"
  have g: "ohistory_inv g \<and> time_ordered (ohistory_window g) \<and>
      (\<forall>s\<in>set (ohistory_window g). time_before s (derive_sample c m) \<and> until t s)"
  proof (cases "oh_have_last h")
    case False
    then show ?thesis using h inv by (simp add: g_def record_gaps_def ohistory_timed_def time_ordered_def)
  next
    case True
    then obtain u where u: "oh_last_timestamp h = Fin u" "0 < u" "is_double (Fin u)"
      "\<forall>s\<in>set (ohistory_window h). until u s"
      using h by (auto simp: ohistory_timed_def)
    have ut: "u < t" using r True t u(1) by (auto simp: record_rejects_def)
    let ?gap = "gap_sample (Fin u) (Fin t)"
    obtain v where v: "ov_monotonic_seconds ?gap = Fin v" "u \<le> v" "v \<le> t"
      using midpoint_between [of u t] u d t ut by (auto simp: gap_sample_def)
    have gap: "ov_gap ?gap" by (simp add: gap_sample_def)
    have old: "time_before s ?gap \<and> time_before s (derive_sample c m) \<and> until t s" if "s \<in> set (ohistory_window h)" for s
    proof -
      have "until u s" using u(4) that by blast
      then obtain r where "ov_monotonic_seconds s = Fin r" "r \<le> u" unfolding until_def by blast
      then show ?thesis using v ut dm gap by (auto simp: time_before_def until_def)
    qed
    have new: "time_before ?gap (derive_sample c m) \<and> until t ?gap"
      using v dm gap by (auto simp: time_before_def until_def)
    have "time_ordered (ohistory_window (history_push ?gap h))"
      using h inv old by (intro time_ordered_push) (auto simp: ohistory_timed_def)
    then show ?thesis
      using h inv old new set_window_push [OF inv, of ?gap]
      by (auto simp: g_def record_gaps_def ohistory_timed_def u(1) t(1) intro: ohistory_inv_push)
  qed
  have "time_ordered (ohistory_window (history_push (derive_sample c m) g))"
    using g by (intro time_ordered_push) auto
  moreover have "\<forall>s\<in>set (ohistory_window (history_push (derive_sample c m) g)). until t s"
    using g dm set_window_push [of g "derive_sample c m"] by (auto simp: until_def)
  ultimately show ?thesis
    using g t d r by (simp add: record_eq ohistory_timed_def ohistory_inv_push flip: g_def)
qed

text \<open>The histories the program can reach: created, reset, or fed published snapshots whose
  timestamp is a machine double.\<close>

inductive overview_reachable :: "common \<Rightarrow> overview_history \<Rightarrow> bool" for c where
  created: "overview_reachable c lsm_overview_history_create"
| reset: "overview_reachable c h \<Longrightarrow> overview_reachable c (lsm_overview_history_reset h)"
| recorded: "overview_reachable c h \<Longrightarrow> is_double (mon_sample_monotonic_seconds m) \<Longrightarrow>
    overview_reachable c (snd (lsm_overview_history_record c h m))"

lemma timed_create: "ohistory_timed lsm_overview_history_create"
  by (simp add: ohistory_timed_def ohistory_inv_def lsm_overview_history_create_def
      ohistory_window_def time_ordered_def)

lemma reachable_timed: "overview_reachable c h \<Longrightarrow> ohistory_timed h"
proof (induction rule: overview_reachable.induct)
  case created
  show ?case by (rule timed_create)
next
  case (reset h)
  show ?case by (simp add: lsm_overview_history_reset_def timed_create)
next
  case (recorded h m)
  then show ?case
    by (cases "record_rejects h m") (auto simp: timed_record_step, simp add: record_eq)
qed



text \<open>
  What recording a snapshot does, on every branch. It is refused, leaving the history
  unchanged, exactly when the snapshot has no generation, no positive finite time, repeats
  the last generation or does not advance the clock. Otherwise the logical window becomes
  the last 120 entries of the old window followed by one gap entry if and only if the
  generation is not the successor of the last one, and then the snapshot's own sample.
\<close>

theorem overview_record_appends:
  assumes "ohistory_inv h"
  shows "lsm_overview_history_record c h m = (if record_rejects h m then (False, h)
           else (True, snd (lsm_overview_history_record c h m))) \<and>
    (\<not> record_rejects h m \<longrightarrow>
       (let w = ohistory_window h @ record_gaps h m @ [derive_sample c m]
        in ohistory_window (snd (lsm_overview_history_record c h m)) =
             drop (length w - LSM_OVERVIEW_HISTORY_CAPACITY) w \<and>
           lsm_overview_history_latest (Some (snd (lsm_overview_history_record c h m))) =
             Some (derive_sample c m)))"
proof -
  let ?xs = "record_gaps h m @ [derive_sample c m]"
  have w: "ohistory_window (fold history_push ?xs h) =
      drop (length (ohistory_window h) + length ?xs - LSM_OVERVIEW_HISTORY_CAPACITY)
        (ohistory_window h @ map (\<lambda>x. x) ?xs)"
    by (rule overview.window_fold_push [OF assms])
  have l: "last (ohistory_window (fold history_push ?xs h)) = derive_sample c m"
    using overview.last_window_push [OF overview.inv_fold_push [OF assms]] by simp
  have ne: "ohistory_window (fold history_push ?xs h) \<noteq> []"
    unfolding w by (simp add: LSM_OVERVIEW_HISTORY_CAPACITY_def)
  have "lsm_overview_history_latest (Some g) = Some (last (ohistory_window g))"
    if "ohistory_window g \<noteq> []" for g
    using that by (auto simp: lsm_overview_history_latest_def history_get_window last_conv_nth
        length_ohistory_window simp flip: length_greater_0_conv)
  with w l ne show ?thesis by (simp add: record_eq Let_def)
qed

theorem overview_record_appends_witness:
  "ohistory_inv lsm_overview_history_create \<and>
   \<not> record_rejects lsm_overview_history_create example_monitor \<and>
   lsm_overview_history_latest (Some (snd (lsm_overview_history_record ref_common
     lsm_overview_history_create example_monitor))) =
     Some (derive_sample ref_common example_monitor)"
proof -
  have i: "ohistory_inv lsm_overview_history_create"
    using timed_create by (simp add: ohistory_timed_def)
  have r: "\<not> record_rejects lsm_overview_history_create example_monitor"
    by (simp add: record_rejects_def example_monitor_def lsm_overview_history_create_def)
  show ?thesis using i r overview_record_appends [OF i] by (simp add: Let_def)
qed

end
