(* ===== verification/Top_Processes.thy ===== *)
theory Top_Processes
  imports Monitor_Types
begin

text \<open>
  \<^verbatim>\<open>lsm_overview_top_cpu_processes\<close> of \<^verbatim>\<open>src/overview_history.c\<close>: one pass over the process
  list keeps the indices of the five busiest processes in an array, inserting each
  eligible process at its place and shifting the rest. The array is proved to hold the
  five first indices in the order (CPU share descending, process id ascending, position).
\<close>

definition LSM_OVERVIEW_TOP_PROCESS_COUNT :: nat where
  "LSM_OVERVIEW_TOP_PROCESS_COUNT = 5"

subsection \<open>The busiest processes\<close>

definition process_precedes :: "process_info \<Rightarrow> process_info \<Rightarrow> bool" where
  "process_precedes left right =
     (if dless (proc_cpu_percent right) (proc_cpu_percent left) then True
      else if dless (proc_cpu_percent left) (proc_cpu_percent right) then False
      else proc_pid left < proc_pid right)"

text \<open>\<^verbatim>\<open>for (move = limit; move > position; move--) indices[move] = indices[move - 1]\<close>.\<close>

fun shift_right :: "nat list \<Rightarrow> nat \<Rightarrow> nat \<Rightarrow> nat list" where
  "shift_right indices 0 position = indices"
| "shift_right indices (Suc move) position =
     (if position < Suc move
      then shift_right (indices[Suc move := indices ! move]) move position else indices)"

definition eligible :: "process_info \<Rightarrow> bool" where
  "eligible p \<longleftrightarrow> isfinite (proc_cpu_percent p) \<and> \<not> dless (proc_cpu_percent p) (Fin 0)"

definition top_step ::
  "process_info list \<Rightarrow> nat list \<times> nat \<Rightarrow> nat \<Rightarrow> nat list \<times> nat" where
  "top_step processes st index =
     (case st of (indices, selected) \<Rightarrow>
        if \<not> eligible (processes ! index) then (indices, selected)
        else
          let position = length (takeWhile
                (\<lambda>j. \<not> process_precedes (processes ! index) (processes ! j))
                (take selected indices))
          in if LSM_OVERVIEW_TOP_PROCESS_COUNT \<le> position then (indices, selected)
             else
               let limit = (if selected < LSM_OVERVIEW_TOP_PROCESS_COUNT then selected
                     else LSM_OVERVIEW_TOP_PROCESS_COUNT - 1)
               in ((shift_right indices limit position)[position := index],
                   if selected < LSM_OVERVIEW_TOP_PROCESS_COUNT then selected + 1 else selected))"

definition lsm_overview_top_cpu_processes ::
  "process_info list option \<Rightarrow> nat list \<times> nat" where
  "lsm_overview_top_cpu_processes processes =
     (let indices = replicate LSM_OVERVIEW_TOP_PROCESS_COUNT SIZE_MAX
      in case processes of
           None \<Rightarrow> (indices, 0)
         | Some ps \<Rightarrow> foldl (top_step ps) (indices, 0) [0..<length ps])"

subsection \<open>The insertion as a list operation\<close>

lemma length_shift_right [simp]: "length (shift_right xs limit p) = length xs"
  by (induction xs limit p rule: shift_right.induct) auto

lemma shift_right_nth:
  "limit < length xs \<Longrightarrow> j < length xs \<Longrightarrow>
   shift_right xs limit p ! j = (if p < j \<and> j \<le> limit then xs ! (j - 1) else xs ! j)"
proof (induction xs limit p rule: shift_right.induct)
  case (1 xs p)
  then show ?case by auto
next
  case (2 xs move p)
  show ?case
  proof (cases "p < Suc move")
    case True
    with 2 show ?thesis by (auto simp: nth_list_update le_Suc_eq)
  next
    case False
    then show ?thesis by auto
  qed
qed

lemma insert_shifted:
  assumes "p \<le> limit" "limit < length xs"
  shows "take (Suc limit) ((shift_right xs limit p)[p := x]) =
    take p xs @ x # drop p (take limit xs)"
proof (rule nth_equalityI)
  fix i assume "i < length (take (Suc limit) ((shift_right xs limit p)[p := x]))"
  with assms show "take (Suc limit) ((shift_right xs limit p)[p := x]) ! i =
      (take p xs @ x # drop p (take limit xs)) ! i"
    by (cases "i < p"; cases "i = p")
       (auto simp: nth_append nth_list_update shift_right_nth nth_Cons' less_Suc_eq_le)
qed (use assms in auto)

lemma insert_shifted_tail:
  assumes "p \<le> limit" "limit < length xs"
  shows "drop (Suc limit) ((shift_right xs limit p)[p := x]) = drop (Suc limit) xs"
  using assms by (intro nth_equalityI) (auto simp: shift_right_nth)

subsection \<open>The order of processes\<close>

fun fin_value :: "double \<Rightarrow> rat" where
  "fin_value (Fin r) = r"
| "fin_value _ = 0"

definition ranks_before :: "process_info list \<Rightarrow> nat \<Rightarrow> nat \<Rightarrow> bool" where
  "ranks_before ps i j \<longleftrightarrow>
     (let ci = fin_value (proc_cpu_percent (ps ! i)); cj = fin_value (proc_cpu_percent (ps ! j));
          pi = proc_pid (ps ! i); pj = proc_pid (ps ! j)
      in cj < ci \<or> ci = cj \<and> (pi < pj \<or> pi = pj \<and> i < j))"

lemma ranks_before_trans: "ranks_before ps i j \<Longrightarrow> ranks_before ps j k \<Longrightarrow> ranks_before ps i k"
  by (auto simp: ranks_before_def Let_def)

lemma ranks_before_total: "i \<noteq> j \<Longrightarrow> ranks_before ps i j \<or> ranks_before ps j i"
  by (auto simp: ranks_before_def Let_def)

lemma ranks_before_asym: "ranks_before ps i j \<Longrightarrow> \<not> ranks_before ps j i"
  by (auto simp: ranks_before_def Let_def)

lemma ranks_sorted_distinct: "sorted_wrt (ranks_before ps) xs \<Longrightarrow> distinct xs"
  by (induction xs) (auto dest: ranks_before_asym)

lemma process_precedes_eligible:
  assumes "eligible (ps ! i)" "eligible (ps ! j)" "j < i"
  shows "process_precedes (ps ! i) (ps ! j) \<longleftrightarrow> ranks_before ps i j"
  using assms
  by (auto simp: eligible_def process_precedes_def ranks_before_def Let_def elim!: isfiniteE)

subsection \<open>The loop invariant\<close>

definition eligible_upto :: "process_info list \<Rightarrow> nat \<Rightarrow> nat set" where
  "eligible_upto ps n = {j. j < n \<and> eligible (ps ! j)}"

definition is_top :: "process_info list \<Rightarrow> nat \<Rightarrow> nat list \<Rightarrow> bool" where
  "is_top ps n sel \<longleftrightarrow>
     sorted_wrt (ranks_before ps) sel \<and> set sel \<subseteq> eligible_upto ps n \<and>
     length sel = min LSM_OVERVIEW_TOP_PROCESS_COUNT (card (eligible_upto ps n)) \<and>
     (\<forall>j\<in>eligible_upto ps n - set sel. \<forall>i\<in>set sel. ranks_before ps i j)"

definition top_state :: "process_info list \<Rightarrow> nat \<Rightarrow> nat list \<times> nat \<Rightarrow> bool" where
  "top_state ps n st \<longleftrightarrow>
     length (fst st) = LSM_OVERVIEW_TOP_PROCESS_COUNT \<and>
     snd st \<le> LSM_OVERVIEW_TOP_PROCESS_COUNT \<and> is_top ps n (take (snd st) (fst st)) \<and>
     drop (snd st) (fst st) = replicate (LSM_OVERVIEW_TOP_PROCESS_COUNT - snd st) SIZE_MAX"

lemma eligible_upto_Suc:
  "eligible_upto ps (Suc n) =
     (if eligible (ps ! n) then insert n (eligible_upto ps n) else eligible_upto ps n)"
  by (auto simp: eligible_upto_def less_Suc_eq)

lemma finite_eligible_upto [simp]: "finite (eligible_upto ps n)"
  by (simp add: eligible_upto_def)

lemma n_notin_eligible_upto [simp]: "n \<notin> eligible_upto ps n"
  by (simp add: eligible_upto_def)

lemma sorted_insert_split:
  fixes n :: nat
  defines "r \<equiv> \<lambda>ps j. ranks_before ps j n"
  assumes "sorted_wrt (ranks_before ps) xs" "n \<notin> set xs"
  shows "sorted_wrt (ranks_before ps) (takeWhile (r ps) xs @ n # dropWhile (r ps) xs)"
proof -
  let ?a = "takeWhile (r ps) xs" and ?b = "dropWhile (r ps) xs"
  have ab: "sorted_wrt (ranks_before ps) (?a @ ?b)" using assms(2) by simp
  have a: "\<forall>x\<in>set ?a. ranks_before ps x n" by (auto simp: r_def dest: set_takeWhileD)
  have b: "\<forall>x\<in>set ?b. ranks_before ps n x"
  proof (cases ?b)
    case (Cons y ys)
    then have "\<not> ranks_before ps y n" using hd_dropWhile [of "r ps" xs] by (simp add: r_def)
    moreover have "y \<noteq> n" using Cons assms(3) set_dropWhileD [of n "r ps" xs] by auto
    ultimately have y: "ranks_before ps n y" using ranks_before_total by blast
    have "\<forall>x\<in>set ys. ranks_before ps y x" using ab Cons by (simp add: sorted_wrt_append)
    with y show ?thesis unfolding Cons by (auto intro: ranks_before_trans)
  next
    case Nil
    then show ?thesis by (simp only: list.set(1) ball_empty)
  qed
  have "sorted_wrt (ranks_before ps) ?a" "sorted_wrt (ranks_before ps) ?b"
    using ab by (simp_all only: sorted_wrt_append)
  with a b show ?thesis by (auto simp: sorted_wrt_append intro: ranks_before_trans)
qed

text \<open>Inserting the next eligible process and cutting back to five keeps the best five.\<close>

lemma is_top_insert:
  fixes n :: nat
  defines "r \<equiv> \<lambda>ps j. ranks_before ps j n"
  assumes st: "is_top ps n xs" and e: "eligible (ps ! n)"
  shows "is_top ps (Suc n) (take LSM_OVERVIEW_TOP_PROCESS_COUNT
      (takeWhile (r ps) xs @ n # dropWhile (r ps) xs))"
proof -
  let ?K = LSM_OVERVIEW_TOP_PROCESS_COUNT
  let ?a = "takeWhile (r ps) xs" and ?b = "dropWhile (r ps) xs"
  define full where "full = ?a @ n # ?b"
  have xs: "sorted_wrt (ranks_before ps) xs" "set xs \<subseteq> eligible_upto ps n"
    "length xs = min ?K (card (eligible_upto ps n))"
    "\<forall>j\<in>eligible_upto ps n - set xs. \<forall>i\<in>set xs. ranks_before ps i j"
    using st by (auto simp: is_top_def)
  have n: "n \<notin> set xs" using xs(2) n_notin_eligible_upto by blast
  have sorted: "sorted_wrt (ranks_before ps) full"
    unfolding full_def r_def by (rule sorted_insert_split [OF xs(1) n])
  have set_full: "set full = insert n (set xs)"
    by (auto simp: full_def dest: set_takeWhileD set_dropWhileD)
       (metis UnE set_append takeWhile_dropWhile_id)
  have len_full: "length full = Suc (length xs)"
    by (simp add: full_def) (metis length_append takeWhile_dropWhile_id)
  have E: "eligible_upto ps (Suc n) = insert n (eligible_upto ps n)"
    using e by (simp add: eligible_upto_Suc)
  have "ranks_before ps i j"
    if j: "j \<in> eligible_upto ps (Suc n) - set (take ?K full)" and i: "i \<in> set (take ?K full)" for i j
  proof (cases "j \<in> set full")
    case True
    with j have "j \<in> set (drop ?K full)"
      by (metis DiffD2 UnE append_take_drop_id set_append)
    with i sorted show ?thesis
      by (metis append_take_drop_id sorted_wrt_append)
  next
    case False
    with j E set_full have jE: "j \<in> eligible_upto ps n - set xs" by auto
    show ?thesis
    proof (cases "i = n")
      case False
      with i set_full in_set_takeD [of i ?K full] jE xs(4) show ?thesis by auto
    next
      case True
      have "set xs \<subset> eligible_upto ps n" using xs(2) jE by blast
      then have "card (set xs) < card (eligible_upto ps n)" by (intro psubset_card_mono) simp_all
      moreover have "card (set xs) = length xs"
        using xs(1) by (intro distinct_card ranks_sorted_distinct)
      ultimately have "length xs = ?K" using xs(3) by simp
      moreover have "length ?a < ?K"
      proof (rule ccontr)
        assume "\<not> length ?a < ?K"
        then have "set (take ?K full) \<subseteq> set ?a" by (simp add: full_def set_take_subset)
        with i True n show False by (auto dest: set_takeWhileD)
      qed
      ultimately have "?b \<noteq> []"
        by (metis append_Nil2 less_irrefl takeWhile_dropWhile_id)
      then obtain p where "p \<in> set ?b" by (cases ?b) auto
      moreover from this have "p \<in> set xs" by (rule set_dropWhileD)
      moreover have "ranks_before ps n p"
        using sorted \<open>p \<in> set ?b\<close> by (simp add: full_def sorted_wrt_append)
      ultimately show ?thesis using jE xs(4) True by (blast intro: ranks_before_trans)
    qed
  qed
  moreover have "set (take ?K full) \<subseteq> eligible_upto ps (Suc n)"
    using set_full xs(2) E by (auto dest: in_set_takeD)
  moreover have "length (take ?K full) = min ?K (card (eligible_upto ps (Suc n)))"
    using len_full xs(3) by (simp add: E)
  ultimately show ?thesis
    unfolding full_def [symmetric] is_top_def using sorted by (auto intro: sorted_wrt_take)
qed

subsection \<open>The loop implements the insertion\<close>

lemma array_insert:
  fixes indices :: "nat list"
  assumes "length indices = K" "selected \<le> K" "p \<le> selected" "p < K"
  defines "limit \<equiv> (if selected < K then selected else K - 1)"
    and "selected' \<equiv> (if selected < K then selected + 1 else selected)"
  shows "take selected' ((shift_right indices limit p)[p := n]) =
      take K (take p (take selected indices) @ n # drop p (take selected indices))"
    and "drop selected' ((shift_right indices limit p)[p := n]) = drop selected' indices"
proof -
  have l: "p \<le> limit" "limit < length indices" using assms by (auto simp: limit_def)
  have s: "selected' = Suc limit" using assms by (auto simp: limit_def selected'_def)
  show "drop selected' ((shift_right indices limit p)[p := n]) = drop selected' indices"
    unfolding s using l by (rule insert_shifted_tail)
  have "take (Suc limit) ((shift_right indices limit p)[p := n]) =
      take p indices @ n # drop p (take limit indices)"
    using l by (rule insert_shifted)
  also have "\<dots> = take K (take p (take selected indices) @ n # drop p (take selected indices))"
  proof (cases "selected < K")
    case True
    then show ?thesis using assms by (simp add: min_def)
  next
    case False
    with assms have "selected = K" "K - Suc p = K - 1 - p" by auto
    with assms(1,4) show ?thesis
      by (simp add: limit_def min_def take_Cons' drop_take)
  qed
  finally show "take selected' ((shift_right indices limit p)[p := n]) =
      take K (take p (take selected indices) @ n # drop p (take selected indices))"
    by (simp only: s)
qed

lemma top_step_eq:
  assumes "top_state ps n (indices, selected)" "eligible (ps ! n)"
  defines "p \<equiv> length (takeWhile (\<lambda>j. ranks_before ps j n) (take selected indices))"
  shows "top_step ps (indices, selected) n =
      (if LSM_OVERVIEW_TOP_PROCESS_COUNT \<le> p then (indices, selected)
       else ((shift_right indices (if selected < LSM_OVERVIEW_TOP_PROCESS_COUNT then selected
                 else LSM_OVERVIEW_TOP_PROCESS_COUNT - 1) p)[p := n],
             if selected < LSM_OVERVIEW_TOP_PROCESS_COUNT then selected + 1 else selected))"
proof -
  have "\<forall>j\<in>set (take selected indices). j < n \<and> eligible (ps ! j)"
    using assms(1) by (auto simp: top_state_def is_top_def eligible_upto_def)
  then have "takeWhile (\<lambda>j. \<not> process_precedes (ps ! n) (ps ! j)) (take selected indices) =
      takeWhile (\<lambda>j. ranks_before ps j n) (take selected indices)"
    using assms(2) by (intro takeWhile_cong refl)
      (metis nat_neq_iff process_precedes_eligible ranks_before_asym ranks_before_total)
  then show ?thesis using assms(2) by (simp add: top_step_def p_def Let_def)
qed

lemma top_step_state:
  assumes st: "top_state ps n (indices, selected)"
  shows "top_state ps (Suc n) (top_step ps (indices, selected) n)"
proof (cases "eligible (ps ! n)")
  case False
  then have "eligible_upto ps (Suc n) = eligible_upto ps n" by (simp add: eligible_upto_Suc)
  then have "top_state ps (Suc n) (indices, selected) = top_state ps n (indices, selected)"
    by (simp only: top_state_def is_top_def)
  with st False show ?thesis by (simp add: top_step_def)
next
  case e: True
  let ?K = LSM_OVERVIEW_TOP_PROCESS_COUNT and ?xs = "take selected indices"
  define p where "p = length (takeWhile (\<lambda>j. ranks_before ps j n) ?xs)"
  have len: "length indices = ?K" "selected \<le> ?K" and top: "is_top ps n ?xs"
    and fill: "drop selected indices = replicate (?K - selected) SIZE_MAX"
    using st by (auto simp: top_state_def)
  have p: "p \<le> selected"
    using length_takeWhile_le [of _ ?xs] len by (auto simp: p_def intro: le_trans)
  have ins: "is_top ps (Suc n) (take ?K (take p ?xs @ n # drop p ?xs))"
    using is_top_insert [OF top e]
    by (simp only: p_def flip: takeWhile_eq_take dropWhile_eq_drop)
  show ?thesis
  proof (cases "?K \<le> p")
    case True
    with p len have "take ?K (take p ?xs @ n # drop p ?xs) = ?xs" by simp
    with ins st True top_step_eq [OF st e] show ?thesis by (simp add: top_state_def p_def)
  next
    case False
    then have "p < ?K" by simp
    note arr = array_insert [OF len p this, of n]
    have "drop (Suc selected) indices = replicate (?K - Suc selected) SIZE_MAX"
      using fill by (metis drop_drop drop_replicate add.commute plus_1_eq_Suc diff_diff_left)
    with arr ins False len fill top_step_eq [OF st e] show ?thesis
      by (simp add: top_state_def flip: p_def)
  qed
qed

lemma top_loop_state:
  "n \<le> length ps \<Longrightarrow>
   top_state ps n (foldl (top_step ps) (replicate LSM_OVERVIEW_TOP_PROCESS_COUNT SIZE_MAX, 0) [0..<n])"
proof (induction n)
  case 0
  then show ?case by (simp add: top_state_def is_top_def eligible_upto_def)
next
  case (Suc n)
  obtain a b where "foldl (top_step ps) (replicate LSM_OVERVIEW_TOP_PROCESS_COUNT SIZE_MAX, 0)
      [0..<n] = (a, b)" by fastforce
  with Suc show ?case using top_step_state [of ps n a b] by simp
qed

text \<open>
  C6. The five busiest processes: the call returns how many were selected, which is five
  or all the eligible ones (those with a finite, non-negative CPU share) if there are
  fewer; the selected indices stand at the front of the array in strict rank order, the
  rest of the array is the sentinel, and every eligible process left out ranks after every
  selected one.
\<close>

theorem top_cpu_processes_correct:
  "let (indices, selected) = lsm_overview_top_cpu_processes (Some ps)
   in selected = min LSM_OVERVIEW_TOP_PROCESS_COUNT (card (eligible_upto ps (length ps))) \<and>
      is_top ps (length ps) (take selected indices) \<and>
      indices = take selected indices @
        replicate (LSM_OVERVIEW_TOP_PROCESS_COUNT - selected) SIZE_MAX"
proof -
  obtain indices selected where r: "lsm_overview_top_cpu_processes (Some ps) = (indices, selected)"
    by fastforce
  then have "top_state ps (length ps) (indices, selected)"
    using top_loop_state [of "length ps" ps] by (simp add: lsm_overview_top_cpu_processes_def)
  then show ?thesis
    using append_take_drop_id [of selected indices]
    by (auto simp: r top_state_def is_top_def)
qed

end
