(* ===== verification/Counter_Stream.thy ===== *)
theory Counter_Stream
  imports Common_Library
begin

text \<open>
  The contract of the accounting streams (scheduler and disk counters). A stream keeps a
  private baseline of the last cumulative observation and publishes rates computed against
  it. The provider promises that an observation replaces the baseline and that what is
  published depends on the baseline and the observation only; the client gets that every
  published rate is determined by the last two observations, however the stream got there:
  no reset, loss or rollback further back can show up later as a spike.
\<close>

locale counter_stream =
  fixes update :: "'pub \<Rightarrow> 'st \<Rightarrow> 'obs \<Rightarrow> 'pub \<times> 'st"
    and baseline :: "'st \<Rightarrow> 'base"
    and baseline_of :: "'obs \<Rightarrow> 'base"
    and view :: "'pub \<Rightarrow> 'view"
    and rates :: "'base \<Rightarrow> 'obs \<Rightarrow> 'view"
    and admissible :: "'obs \<Rightarrow> bool"
    and inv :: "'st \<Rightarrow> bool"
  assumes baseline_update:
      "inv st \<Longrightarrow> admissible ob \<Longrightarrow> baseline (snd (update p st ob)) = baseline_of ob"
    and view_update:
      "inv st \<Longrightarrow> admissible ob \<Longrightarrow> view (fst (update p st ob)) = rates (baseline st) ob"
    and inv_update: "inv st \<Longrightarrow> inv (snd (update p st ob))"
begin

definition run :: "'pub \<times> 'st \<Rightarrow> 'obs list \<Rightarrow> 'pub \<times> 'st" where
  "run = foldl (\<lambda>(p, st) ob. update p st ob)"

lemma run_Nil [simp]: "run s [] = s"
  by (simp add: run_def)

lemma run_snoc [simp]: "run s (obs @ [ob]) = update (fst (run s obs)) (snd (run s obs)) ob"
  by (simp add: run_def case_prod_unfold)

lemma inv_run: "inv (snd s) \<Longrightarrow> inv (snd (run s obs))"
  by (induction obs rule: rev_induct) (auto intro: inv_update)

lemma view_last_two:
  assumes "inv (snd s)" "admissible a" "admissible b"
  shows "view (fst (run s (obs @ [a, b]))) = rates (baseline_of a) b"
proof -
  have i: "inv (snd (run s obs))" using assms(1) by (rule inv_run)
  have "run s (obs @ [a, b]) = run s ((obs @ [a]) @ [b])" by simp
  then show ?thesis
    using view_update [OF inv_update [OF i] assms(3)] baseline_update [OF i assms(2)]
    by (simp only: run_snoc)
qed

end

end
