(* ===== verification/Cpu_Accounting.thy ===== *)
theory Cpu_Accounting
  imports Counter_Stream Monitor_Types
begin

text \<open>
  \<^verbatim>\<open>src/cpu_accounting.c\<close>: parsing \<^verbatim>\<open>/proc/stat\<close> into a bounded sample of scheduler counters
  and turning successive samples into utilisation and event rates. Rows that do not parse
  are skipped; a parse succeeds when an aggregate row was found. Applying a sample always
  first withdraws the previous utilisation, so a rejected interval (rollback, shrinking
  I/O-wait, first sample) publishes NaN and an unavailable flag, never a stale value.
\<close>

record cpu_counters =
  cc_total :: u64
  cc_idle :: u64
  cc_user :: u64
  cc_kernel :: u64

record cpu_accounting_state =
  ca_previous :: "cpu_counters list"
  ca_previous_interrupt_count :: u64
  ca_previous_context_switch_count :: u64
  ca_scheduler_events_initialized :: bool

record cpu_accounting_sample =
  cs_cpus :: "cpu_counters list"
  cs_cpu_count :: nat
  cs_interrupts :: u64
  cs_context_switches :: u64

definition zero_counters :: cpu_counters where
  "zero_counters = \<lparr>cc_total = 0, cc_idle = 0, cc_user = 0, cc_kernel = 0\<rparr>"

definition zero_cpu_sample :: cpu_accounting_sample where
  "zero_cpu_sample = \<lparr>cs_cpus = replicate (LSM_MAX_CPUS + 1) zero_counters, cs_cpu_count = 0,
     cs_interrupts = 0, cs_context_switches = 0\<rparr>"

subsection \<open>Parsing\<close>

text \<open>\<^verbatim>\<open>while (count < 8U && lsm_parse_u64_token(&cursor, ...)) count++\<close>.\<close>

fun parse_fields :: "common \<Rightarrow> nat \<Rightarrow> string \<Rightarrow> u64 list" where
  "parse_fields c 0 cursor = []"
| "parse_fields c (Suc n) cursor =
     (case infiltratr_parse_u64_token c cursor 10 of
        None \<Rightarrow> []
      | Some (v, rest) \<Rightarrow> v # parse_fields c n rest)"

definition parse_cpu_row :: "common \<Rightarrow> string \<Rightarrow> cpu_counters option" where
  "parse_cpu_row c line =
     (if \<not> infiltratr_string_starts_with c line ''cpu'' then None
      else
        let cursor = dropWhile (infiltratr_ascii_is_digit c) (drop 3 line)
        in if cursor \<noteq> [] \<and> \<not> infiltratr_ascii_is_space c (hd cursor) then None
           else
             let parsed = parse_fields c 8 cursor;
                 fields = parsed @ replicate (8 - length parsed) 0;
                 add = infiltratr_u64_add_saturating c
             in if length parsed < 4 then None
                else Some \<lparr>cc_total = foldl add 0 parsed,
                  cc_idle = add (fields ! 3) (fields ! 4),
                  cc_user = add (fields ! 0) (fields ! 1),
                  cc_kernel = add (add (fields ! 2) (fields ! 5)) (fields ! 6)\<rparr>)"

definition parse_named_counter :: "common \<Rightarrow> string \<Rightarrow> string \<Rightarrow> u64 option" where
  "parse_named_counter c line name =
     (if \<not> infiltratr_string_starts_with c line name \<or>
         \<not> infiltratr_ascii_is_space c (char_at line (length name)) then None
      else map_option fst (infiltratr_parse_u64_token c (drop (length name) line) 10))"

definition parse_stat_line ::
  "common \<Rightarrow> bool \<times> cpu_accounting_sample \<Rightarrow> string \<Rightarrow> bool \<times> cpu_accounting_sample" where
  "parse_stat_line c acc line =
     (case acc of (aggregate_found, sample) \<Rightarrow>
        let space = infiltratr_ascii_is_space c; digit = infiltratr_ascii_is_digit c
        in if infiltratr_string_starts_with c line ''cpu'' \<and>
              (space (char_at line 3) \<or> digit (char_at line 3))
           then case parse_cpu_row c line of
               None \<Rightarrow> acc
             | Some counter \<Rightarrow>
                 if space (char_at line 3)
                 then (True, sample\<lparr>cs_cpus := (cs_cpus sample)[0 := counter],
                   cs_cpu_count := (if cs_cpu_count sample = 0 then 1 else cs_cpu_count sample)\<rparr>)
                 else case infiltratr_parse_u64_token c (drop 3 line) 10 of
                     None \<Rightarrow> acc
                   | Some (parsed_index, cursor) \<Rightarrow>
                       if \<not> space (char_at cursor 0) \<or> LSM_MAX_CPUS \<le> unat parsed_index then acc
                       else let index = unat parsed_index
                         in (aggregate_found, sample\<lparr>
                              cs_cpus := (cs_cpus sample)[index + 1 := counter],
                              cs_cpu_count := (if cs_cpu_count sample < index + 2
                                then index + 2 else cs_cpu_count sample)\<rparr>)
           else if infiltratr_string_starts_with c line ''intr''
           then case parse_named_counter c line ''intr'' of
               None \<Rightarrow> acc
             | Some v \<Rightarrow> (aggregate_found, sample\<lparr>cs_interrupts := v\<rparr>)
           else if infiltratr_string_starts_with c line ''ctxt''
           then case parse_named_counter c line ''ctxt'' of
               None \<Rightarrow> acc
             | Some v \<Rightarrow> (aggregate_found, sample\<lparr>cs_context_switches := v\<rparr>)
           else acc)"

definition cpu_accounting_parse_mutable ::
  "common \<Rightarrow> string \<Rightarrow> bool \<times> cpu_accounting_sample" where
  "cpu_accounting_parse_mutable c text =
     foldl (parse_stat_line c) (False, zero_cpu_sample) (strtok is_newline text)"

text \<open>The second argument of the two entry points is what the output held before the call.\<close>

definition lsm_cpu_accounting_parse ::
  "common \<Rightarrow> string option \<Rightarrow> cpu_accounting_sample \<Rightarrow> bool \<times> cpu_accounting_sample" where
  "lsm_cpu_accounting_parse c text sample =
     (case text of None \<Rightarrow> (False, sample) | Some t \<Rightarrow> cpu_accounting_parse_mutable c t)"

definition lsm_cpu_accounting_read ::
  "common \<Rightarrow> (string \<Rightarrow> string option) \<Rightarrow> string \<Rightarrow> cpu_accounting_sample \<Rightarrow>
     bool \<times> cpu_accounting_sample" where
  "lsm_cpu_accounting_read c read_text_file_alloc path sample =
     (if path = [] then (False, sample)
      else case read_text_file_alloc path of
          None \<Rightarrow> (False, sample)
        | Some text \<Rightarrow>
            if NUL \<in> set text then (False, sample) else cpu_accounting_parse_mutable c text)"

subsection \<open>Applying a sample\<close>

definition counter_percent :: "common \<Rightarrow> u64 \<Rightarrow> u64 \<Rightarrow> u64 \<Rightarrow> double option" where
  "counter_percent c current previous total_delta =
     (if total_delta = 0 then None
      else map_option (\<lambda>delta. infiltratr_percent_u64 c delta total_delta)
        (infiltratr_u64_counter_delta c current previous))"

text \<open>The guard of the interval: the total delta and the busy share, when it is usable.\<close>

definition interval_usage ::
  "common \<Rightarrow> bool \<Rightarrow> cpu_counters \<Rightarrow> cpu_counters \<Rightarrow> (u64 \<times> double) option" where
  "interval_usage c initial current previous =
     (if initial then None
      else case infiltratr_u64_counter_delta c (cc_total current) (cc_total previous) of
          None \<Rightarrow> None
        | Some total_delta \<Rightarrow>
            (case infiltratr_u64_counter_delta c (cc_idle current) (cc_idle previous) of
               None \<Rightarrow> None
             | Some idle_delta \<Rightarrow>
                 if 0 < total_delta \<and> idle_delta \<le> total_delta
                 then Some (total_delta,
                   infiltratr_percent_u64 c (total_delta - idle_delta) total_delta)
                 else None))"

definition apply_cpu ::
  "common \<Rightarrow> bool \<Rightarrow> cpu_accounting_sample \<Rightarrow> cpu_info \<times> cpu_accounting_state \<Rightarrow> nat \<Rightarrow>
     cpu_info \<times> cpu_accounting_state" where
  "apply_cpu c initial sample acc index =
     (case acc of (cpu, state) \<Rightarrow>
        let current = cs_cpus sample ! index; previous = ca_previous state ! index;
            cpu' = (case interval_usage c initial current previous of
                None \<Rightarrow> cpu
              | Some (total_delta, usage) \<Rightarrow>
                  if index = 0 then
                    let cpu = cpu\<lparr>cpu_usage_percent := usage, cpu_usage_available := True\<rparr>;
                        cpu = (case counter_percent c (cc_user current) (cc_user previous)
                                 total_delta of
                            None \<Rightarrow> cpu | Some share \<Rightarrow> cpu\<lparr>cpu_user_percent := share\<rparr>)
                    in (case counter_percent c (cc_kernel current) (cc_kernel previous)
                           total_delta of
                          None \<Rightarrow> cpu | Some share \<Rightarrow> cpu\<lparr>cpu_kernel_percent := share\<rparr>)
                  else cpu\<lparr>cpu_core_usage := (cpu_core_usage cpu)[index - 1 := usage]\<rparr>)
        in (cpu', state\<lparr>ca_previous := (ca_previous state)[index := current]\<rparr>))"

definition clear_usage :: "cpu_info \<Rightarrow> cpu_info" where
  "clear_usage cpu = cpu\<lparr>cpu_usage_percent := NaN, cpu_user_percent := NaN,
     cpu_kernel_percent := NaN, cpu_usage_available := False,
     cpu_core_usage := replicate LSM_MAX_CPUS NaN\<rparr>"

definition apply_events ::
  "common \<Rightarrow> bool \<Rightarrow> double \<Rightarrow> cpu_accounting_sample \<Rightarrow> cpu_info \<times> cpu_accounting_state \<Rightarrow>
     cpu_info \<times> cpu_accounting_state" where
  "apply_events c initial elapsed_seconds sample acc =
     (case acc of (cpu, state) \<Rightarrow>
        let cpu = cpu\<lparr>cpu_interrupt_count := cs_interrupts sample,
              cpu_context_switch_count := cs_context_switches sample,
              cpu_interrupts_per_sec_available := False,
              cpu_context_switches_per_sec_available := False\<rparr>;
            rate = (\<lambda>current previous. infiltratr_u64_counter_rate c current previous (Fin 1)
              elapsed_seconds);
            cpu = (if \<not> initial \<and> ca_scheduler_events_initialized state \<and>
                 isfinite elapsed_seconds \<and> dless (Fin 0) elapsed_seconds
               then case rate (cs_interrupts sample) (ca_previous_interrupt_count state) of
                   (interrupts_ok, interrupts) \<Rightarrow>
                     (case rate (cs_context_switches sample)
                        (ca_previous_context_switch_count state) of
                       (switches_ok, switches) \<Rightarrow>
                         cpu\<lparr>cpu_interrupts_per_sec_available := interrupts_ok,
                           cpu_interrupts_per_sec := interrupts,
                           cpu_context_switches_per_sec_available := switches_ok,
                           cpu_context_switches_per_sec := switches\<rparr>)
               else cpu)
        in (cpu, state\<lparr>ca_previous_interrupt_count := cs_interrupts sample,
              ca_previous_context_switch_count := cs_context_switches sample,
              ca_scheduler_events_initialized := True\<rparr>))"

definition lsm_cpu_accounting_apply ::
  "common \<Rightarrow> cpu_info \<Rightarrow> cpu_accounting_state \<Rightarrow> cpu_accounting_sample \<Rightarrow> bool \<Rightarrow> double \<Rightarrow>
     cpu_info \<times> cpu_accounting_state" where
  "lsm_cpu_accounting_apply c cpu state sample initial elapsed_seconds =
     (if cs_cpu_count sample = 0 then (cpu, state)
      else
        let usable = min (cs_cpu_count sample) (cpu_logical_cores cpu + 1)
        in apply_events c initial elapsed_seconds sample
             (foldl (apply_cpu c initial sample) (clear_usage cpu, state)
               [0..<min usable (LSM_MAX_CPUS + 1)]))"


subsection \<open>The parser\<close>

text \<open>Every parsed sample stays inside its fixed-size table, whatever the text.\<close>

definition cpu_sample_ok :: "cpu_accounting_sample \<Rightarrow> bool" where
  "cpu_sample_ok s \<longleftrightarrow> length (cs_cpus s) = LSM_MAX_CPUS + 1 \<and> cs_cpu_count s \<le> LSM_MAX_CPUS + 1"

text \<open>The table row a line carries: index 0 for the aggregate line, \<open>n + 1\<close> for \<^verbatim>\<open>cpun\<close>.\<close>

definition row_of :: "common \<Rightarrow> string \<Rightarrow> (nat \<times> cpu_counters) option" where
  "row_of c line =
     (if infiltratr_string_starts_with c line ''cpu'' \<and>
         (infiltratr_ascii_is_space c (char_at line 3) \<or> infiltratr_ascii_is_digit c (char_at line 3))
      then case parse_cpu_row c line of
          None \<Rightarrow> None
        | Some counter \<Rightarrow>
            if infiltratr_ascii_is_space c (char_at line 3) then Some (0, counter)
            else case infiltratr_parse_u64_token c (drop 3 line) 10 of
                None \<Rightarrow> None
              | Some (n, cursor) \<Rightarrow>
                  if infiltratr_ascii_is_space c (char_at cursor 0) \<and> unat n < LSM_MAX_CPUS
                  then Some (unat n + 1, counter) else None
      else None)"

definition stat_rows :: "common \<Rightarrow> string \<Rightarrow> (nat \<times> cpu_counters) list" where
  "stat_rows c text = List.map_filter (row_of c) (strtok is_newline text)"

lemma zero_cpu_sample_ok [simp]: "cpu_sample_ok zero_cpu_sample"
  by (simp add: cpu_sample_ok_def zero_cpu_sample_def)

lemma parse_stat_line_ok:
  "cpu_sample_ok (snd acc) \<Longrightarrow> cpu_sample_ok (snd (parse_stat_line c acc line))"
  by (auto simp: parse_stat_line_def cpu_sample_ok_def Let_def LSM_MAX_CPUS_def
      split: prod.splits option.splits)

lemma parse_stat_line_row:
  "(case parse_stat_line c (f, s) line of (f', s') \<Rightarrow> (f', cs_cpus s', cs_cpu_count s')) =
   (case row_of c line of
      None \<Rightarrow> (f, cs_cpus s, cs_cpu_count s)
    | Some (i, counter) \<Rightarrow> (f \<or> i = 0, (cs_cpus s)[i := counter], max (cs_cpu_count s) (Suc i)))"
  by (auto simp: parse_stat_line_def row_of_def Let_def max_def
      split: prod.splits option.splits)

lemma fold_stat_lines_ok:
  "cpu_sample_ok (snd acc) \<Longrightarrow> cpu_sample_ok (snd (foldl (parse_stat_line c) acc lines))"
  by (induction lines arbitrary: acc) (auto simp: parse_stat_line_ok)

text \<open>Folding the lines is folding the rows they carry.\<close>

lemma fold_stat_lines_rows:
  "(case foldl (parse_stat_line c) (f, s) lines of (f', s') \<Rightarrow> (f', cs_cpus s', cs_cpu_count s')) =
   foldl (\<lambda>(f, cpus, n) (i, counter). (f \<or> i = 0, cpus[i := counter], max n (Suc i)))
     (f, cs_cpus s, cs_cpu_count s) (List.map_filter (row_of c) lines)"
proof (induction lines arbitrary: f s)
  case (Cons line lines)
  obtain f' s' where step: "parse_stat_line c (f, s) line = (f', s')" by force
  with parse_stat_line_row [of c f s line] Cons [of f' s'] show ?case
    by (auto simp: List.map_filter_simps split: option.splits prod.splits)
qed (simp add: List.map_filter_simps)

lemma row_index: "row_of c line = Some (i, counter) \<Longrightarrow> i \<le> LSM_MAX_CPUS"
  by (auto simp: row_of_def split: if_splits option.splits)

lemma stat_rows_index: "(i, counter) \<in> set (stat_rows c text) \<Longrightarrow> i \<le> LSM_MAX_CPUS"
  unfolding stat_rows_def List.map_filter_def using row_index by fastforce

lemma fold_rows:
  fixes rows :: "(nat \<times> 'a) list"
  assumes "\<And>i x. (i, x) \<in> set rows \<Longrightarrow> i < length xs"
  shows "foldl (\<lambda>(f, cpus, n) (i, counter). (f \<or> i = 0, cpus[i := counter], max n (Suc i)))
      (f, xs, n) rows =
    (f \<or> 0 \<in> fst ` set rows,
     map (\<lambda>i. last (xs ! i # map snd (filter (\<lambda>r. fst r = i) rows))) [0..<length xs],
     fold max (map (Suc \<circ> fst) rows) n)"
  using assms
proof (induction rows arbitrary: f xs n)
  case Nil
  then show ?case by (simp add: map_nth)
next
  case (Cons r rows)
  obtain i x where r: "r = (i, x)" by force
  with Cons.prems have i: "i < length xs" by auto
  have bounds: "j < length (xs[i := x])" if "(j, y) \<in> set rows" for j y
    using Cons.prems that by auto
  have "foldl (\<lambda>(f, cpus, n) (i, counter). (f \<or> i = 0, cpus[i := counter], max n (Suc i)))
      (f, xs, n) (r # rows) =
    (f \<or> i = 0 \<or> 0 \<in> fst ` set rows,
     map (\<lambda>k. last (xs[i := x] ! k # map snd (filter (\<lambda>r. fst r = k) rows))) [0..<length xs],
     fold max (map (Suc \<circ> fst) rows) (max n (Suc i)))"
    using bounds by (simp add: r Cons.IH [of "xs[i := x]"] comp_def)
  with i r show ?case
    by (auto simp: max.commute comp_def nth_list_update intro!: map_cong)
qed

lemma cpu_stat_parse_rows:
  assumes "cpu_accounting_parse_mutable c text = (found, sample)"
  shows "found \<longleftrightarrow> 0 \<in> fst ` set (stat_rows c text)"
    and "cs_cpus sample = map (\<lambda>i. last (zero_counters # map snd (filter (\<lambda>r. fst r = i) (stat_rows c text))))
      [0..<LSM_MAX_CPUS + 1]"
    and "cs_cpu_count sample = fold max (map (Suc \<circ> fst) (stat_rows c text)) 0"
proof -
  have "(found, cs_cpus sample, cs_cpu_count sample) =
    foldl (\<lambda>(f, cpus, n) (i, counter). (f \<or> i = 0, cpus[i := counter], max n (Suc i)))
      (False, replicate (LSM_MAX_CPUS + 1) zero_counters, 0) (stat_rows c text)"
    using assms fold_stat_lines_rows [of c False zero_cpu_sample "strtok is_newline text"]
    by (simp add: cpu_accounting_parse_mutable_def stat_rows_def zero_cpu_sample_def)
  also have "\<dots> = (0 \<in> fst ` set (stat_rows c text),
     map (\<lambda>i. last (zero_counters # map snd (filter (\<lambda>r. fst r = i) (stat_rows c text))))
       [0..<LSM_MAX_CPUS + 1],
     fold max (map (Suc \<circ> fst) (stat_rows c text)) 0)"
    by (subst fold_rows) (auto dest: stat_rows_index simp: less_Suc_eq_le simp del: upt_Suc replicate_Suc
        intro!: map_cong)
  finally show "found \<longleftrightarrow> 0 \<in> fst ` set (stat_rows c text)"
    "cs_cpus sample = map (\<lambda>i. last (zero_counters # map snd (filter (\<lambda>r. fst r = i) (stat_rows c text))))
      [0..<LSM_MAX_CPUS + 1]"
    "cs_cpu_count sample = fold max (map (Suc \<circ> fst) (stat_rows c text)) 0"
    by simp_all
qed

subsection \<open>Applying a sample\<close>

text \<open>What one interval publishes for one row of the table.\<close>

definition published_usage :: "common \<Rightarrow> bool \<Rightarrow> cpu_counters \<Rightarrow> cpu_counters \<Rightarrow> double" where
  "published_usage c initial current previous =
     (case interval_usage c initial current previous of None \<Rightarrow> NaN | Some (_, usage) \<Rightarrow> usage)"

definition published_share ::
  "common \<Rightarrow> bool \<Rightarrow> (cpu_counters \<Rightarrow> u64) \<Rightarrow> cpu_counters \<Rightarrow> cpu_counters \<Rightarrow> double" where
  "published_share c initial field current previous =
     (case interval_usage c initial current previous of
        None \<Rightarrow> NaN
      | Some (interval, _) \<Rightarrow>
          (case counter_percent c (field current) (field previous) interval of
             None \<Rightarrow> NaN | Some share \<Rightarrow> share))"

text \<open>The usable interval, in plain arithmetic on the counters.\<close>

definition interval_valid :: "bool \<Rightarrow> cpu_counters \<Rightarrow> cpu_counters \<Rightarrow> bool" where
  "interval_valid initial current previous \<longleftrightarrow>
     \<not> initial \<and> cc_total previous < cc_total current \<and> cc_idle previous \<le> cc_idle current \<and>
     cc_idle current - cc_idle previous \<le> cc_total current - cc_total previous"

lemma interval_usage_arith:
  assumes "common_arith_ok c"
  shows "interval_usage c initial cur prev =
    (if interval_valid initial cur prev
     then Some (cc_total cur - cc_total prev, infiltratr_percent_u64 c
       (cc_total cur - cc_total prev - (cc_idle cur - cc_idle prev)) (cc_total cur - cc_total prev))
     else None)"
proof -
  have "0 < a - b \<longleftrightarrow> b < a" if "b \<le> a" for a b :: u64
    using that by (simp add: word_less_nat_alt word_le_nat_alt unat_sub)
  with assms show ?thesis
    by (auto simp: interval_usage_def interval_valid_def common_arith_ok_def counter_delta_def)
qed

lemma interval_usage_percent:
  assumes "common_rates_ok c" "interval_usage c initial cur prev = Some (t, u)"
  shows "is_percent u"
  using assms(2) percent_u64_percent [OF assms(1)]
  by (auto simp: interval_usage_def split: if_splits option.splits)

definition cpu_rows_applied ::
  "common \<Rightarrow> bool \<Rightarrow> cpu_accounting_sample \<Rightarrow> cpu_accounting_state \<Rightarrow> nat \<Rightarrow>
     cpu_info \<times> cpu_accounting_state \<Rightarrow> bool" where
  "cpu_rows_applied c initial sample state n acc \<longleftrightarrow>
     (let cur = (!) (cs_cpus sample); prev = (!) (ca_previous state); cpu = fst acc in
      ca_previous (snd acc) = take n (cs_cpus sample) @ drop n (ca_previous state) \<and>
      cpu_core_usage cpu = map (\<lambda>i. if Suc i < n then published_usage c initial (cur (Suc i)) (prev (Suc i)) else NaN) [0..<LSM_MAX_CPUS] \<and>
      cpu_usage_available cpu = (0 < n \<and> interval_usage c initial (cur 0) (prev 0) \<noteq> None) \<and>
      cpu_usage_percent cpu = (if 0 < n then published_usage c initial (cur 0) (prev 0) else NaN) \<and>
      cpu_user_percent cpu = (if 0 < n then published_share c initial cc_user (cur 0) (prev 0) else NaN) \<and>
      cpu_kernel_percent cpu = (if 0 < n then published_share c initial cc_kernel (cur 0) (prev 0) else NaN))"

lemma take_drop_update:
  "n < length ys \<Longrightarrow> length xs = length ys \<Longrightarrow>
   (take n ys @ drop n xs)[n := ys ! n] = take (Suc n) ys @ drop (Suc n) xs"
  by (simp add: list_update_append Cons_nth_drop_Suc [symmetric] take_Suc_conv_app_nth)

lemma nth_take_drop: "n < length xs \<Longrightarrow> n \<le> length ys \<Longrightarrow> (take n ys @ drop n xs) ! n = xs ! n"
  by (simp add: nth_append)

lemma list_update_0: "xs \<noteq> [] \<Longrightarrow> xs[0 := a] = a # drop (Suc 0) xs"
  by (cases xs) simp_all

lemma map_if_update:
  "n < k \<Longrightarrow> (map (\<lambda>i. if i < n then f i else z) [0..<k])[n := f n] =
     map (\<lambda>i. if i < Suc n then f i else z) [0..<k]"
  by (rule nth_equalityI) (auto simp: nth_list_update less_Suc_eq)

lemma map_if_keep:
  "f n = z \<Longrightarrow> map (\<lambda>i. if i < n then f i else z) [0..<k] =
     map (\<lambda>i. if i < Suc n then f i else z) [0..<k]"
  by (auto simp: less_Suc_eq)

lemma apply_cpu_row:
  assumes "cpu_rows_applied c initial sample state n acc" "n \<le> LSM_MAX_CPUS"
    and "length (cs_cpus sample) = LSM_MAX_CPUS + 1" "length (ca_previous state) = LSM_MAX_CPUS + 1"
  shows "cpu_rows_applied c initial sample state (Suc n) (apply_cpu c initial sample acc n)"
proof (cases n)
  case 0
  with assms show ?thesis
    by (auto simp: cpu_rows_applied_def apply_cpu_def published_usage_def published_share_def
        Let_def take_Suc_conv_app_nth list_update_0 simp flip: length_greater_0_conv
        split: prod.splits option.splits)
next
  case (Suc m)
  with assms map_if_update [of m LSM_MAX_CPUS "\<lambda>i. published_usage c initial (cs_cpus sample ! Suc i) (ca_previous state ! Suc i)" NaN]
    map_if_keep [of "\<lambda>i. published_usage c initial (cs_cpus sample ! Suc i) (ca_previous state ! Suc i)" m NaN]
  show ?thesis
    by (auto simp: cpu_rows_applied_def apply_cpu_def published_usage_def
        Let_def take_drop_update nth_take_drop
        split: prod.splits option.splits)
qed

lemma cpu_rows_fold:
  assumes "cpu_rows_applied c initial sample state 0 acc" "n \<le> LSM_MAX_CPUS + 1"
    and "length (cs_cpus sample) = LSM_MAX_CPUS + 1" "length (ca_previous state) = LSM_MAX_CPUS + 1"
  shows "cpu_rows_applied c initial sample state n (foldl (apply_cpu c initial sample) acc [0..<n])"
  using assms(2)
proof (induction n)
  case 0
  with assms(1) show ?case by simp
next
  case (Suc n)
  with apply_cpu_row [OF _ _ assms(3,4)] show ?case by simp
qed

lemma cpu_rows_clear: "cpu_rows_applied c initial sample state 0 (clear_usage cpu, state)"
  by (simp add: cpu_rows_applied_def clear_usage_def map_replicate_const Let_def)

definition usable_rows :: "cpu_info \<Rightarrow> cpu_accounting_sample \<Rightarrow> nat" where
  "usable_rows cpu sample =
     min (min (cs_cpu_count sample) (cpu_logical_cores cpu + 1)) (LSM_MAX_CPUS + 1)"

lemma apply_events_keeps:
  "cpu_rows_applied c i s st n (apply_events c initial e sample acc) =
   cpu_rows_applied c i s st n acc"
  by (simp add: apply_events_def cpu_rows_applied_def Let_def split: prod.splits)

lemma cpu_apply_rows:
  assumes "cpu_sample_ok sample" "0 < cs_cpu_count sample"
    and "length (ca_previous state) = LSM_MAX_CPUS + 1"
  shows "cpu_rows_applied c initial sample state (usable_rows cpu sample)
    (lsm_cpu_accounting_apply c cpu state sample initial elapsed)"
  using assms cpu_rows_fold [OF cpu_rows_clear, of "usable_rows cpu sample"]
  by (simp add: lsm_cpu_accounting_apply_def apply_events_keeps Let_def usable_rows_def
      cpu_sample_ok_def)

lemma length_apply_cpu: "length (ca_previous (snd (apply_cpu c i sample acc n))) =
    length (ca_previous (snd acc))"
  by (simp add: apply_cpu_def Let_def split: prod.splits)

lemma length_cpu_apply:
  "length (ca_previous (snd (lsm_cpu_accounting_apply c cpu state sample initial elapsed))) =
   length (ca_previous state)"
proof -
  have "length (ca_previous (snd (foldl (apply_cpu c initial sample) acc ns))) =
    length (ca_previous (snd acc))" for acc ns
    by (induction ns arbitrary: acc) (auto simp: length_apply_cpu)
  moreover have "ca_previous (snd (apply_events c initial elapsed sample acc)) =
    ca_previous (snd acc)" for acc
    by (simp add: apply_events_def Let_def split: prod.splits)
  ultimately show ?thesis
    by (simp add: lsm_cpu_accounting_apply_def Let_def)
qed

subsection \<open>The accounting stream\<close>

text \<open>The aggregate row as a counter stream: an observation is a sample with its \<open>initial\<close>
  flag and elapsed time, the published view the four aggregate fields.\<close>

type_synonym cpu_observation = "cpu_accounting_sample \<times> bool \<times> double"

definition cpu_update ::
  "common \<Rightarrow> cpu_info \<Rightarrow> cpu_accounting_state \<Rightarrow> cpu_observation \<Rightarrow>
     cpu_info \<times> cpu_accounting_state" where
  "cpu_update c cpu st ob = (case ob of (sample, initial, elapsed) \<Rightarrow>
     lsm_cpu_accounting_apply c cpu st sample initial elapsed)"

definition aggregate_view :: "cpu_info \<Rightarrow> bool \<times> double \<times> double \<times> double" where
  "aggregate_view cpu = (cpu_usage_available cpu, cpu_usage_percent cpu, cpu_user_percent cpu,
     cpu_kernel_percent cpu)"

definition aggregate_rates ::
  "common \<Rightarrow> cpu_counters \<Rightarrow> cpu_observation \<Rightarrow> bool \<times> double \<times> double \<times> double" where
  "aggregate_rates c previous ob = (case ob of (sample, initial, elapsed) \<Rightarrow>
     let current = cs_cpus sample ! 0
     in (interval_usage c initial current previous \<noteq> None,
         published_usage c initial current previous,
         published_share c initial cc_user current previous,
         published_share c initial cc_kernel current previous))"

interpretation cpu_stream: counter_stream "cpu_update c" "\<lambda>st. ca_previous st ! 0"
  "\<lambda>ob. cs_cpus (fst ob) ! 0" aggregate_view "aggregate_rates c"
  "\<lambda>ob. cpu_sample_ok (fst ob) \<and> 0 < cs_cpu_count (fst ob)"
  "\<lambda>st. length (ca_previous st) = LSM_MAX_CPUS + 1" for c
proof unfold_locales
  fix st p and ob :: cpu_observation
  obtain sample initial elapsed where ob: "ob = (sample, initial, elapsed)" by (cases ob)
  show "length (ca_previous st) = LSM_MAX_CPUS + 1 \<Longrightarrow>
    length (ca_previous (snd (cpu_update c p st ob))) = LSM_MAX_CPUS + 1"
    by (simp add: ob cpu_update_def length_cpu_apply)
  assume "length (ca_previous st) = LSM_MAX_CPUS + 1"
    and s: "cpu_sample_ok (fst ob) \<and> 0 < cs_cpu_count (fst ob)"
  with cpu_apply_rows [of sample st c initial p elapsed]
  have rows: "cpu_rows_applied c initial sample st (usable_rows p sample) (cpu_update c p st ob)"
    by (simp add: ob cpu_update_def)
  have n: "0 < usable_rows p sample" "0 < length (cs_cpus sample)"
    using s by (auto simp: ob usable_rows_def cpu_sample_ok_def)
  from rows n show "ca_previous (snd (cpu_update c p st ob)) ! 0 = cs_cpus (fst ob) ! 0"
    by (simp add: ob cpu_rows_applied_def Let_def nth_append)
  from rows n show "aggregate_view (fst (cpu_update c p st ob)) = aggregate_rates c (ca_previous st ! 0) ob"
    by (simp add: ob cpu_rows_applied_def aggregate_view_def aggregate_rates_def Let_def)
qed

subsection \<open>Properties\<close>

text \<open>C7. Utilisation published by one application, for the aggregate row and every core:
  available and a finite percentage exactly when the interval is valid (not the first sample,
  total strictly advanced, idle did not shrink and did not outrun the total), otherwise
  unavailable and NaN, whatever was published before. The baseline of every usable row becomes
  the sample's row and the others are kept.\<close>

theorem cpu_apply_publishes:
  assumes "common_arith_ok c" "common_rates_ok c"
    and "cpu_sample_ok sample" "0 < cs_cpu_count sample"
    and "length (ca_previous state) = LSM_MAX_CPUS + 1"
  shows "case lsm_cpu_accounting_apply c cpu state sample initial elapsed of (cpu', state') \<Rightarrow>
    let valid = (\<lambda>i. interval_valid initial (cs_cpus sample ! i) (ca_previous state ! i));
        n = usable_rows cpu sample
    in cpu_usage_available cpu' = valid 0 \<and>
      (if valid 0 then is_percent (cpu_usage_percent cpu')
       else cpu_usage_percent cpu' = NaN \<and> cpu_user_percent cpu' = NaN \<and>
         cpu_kernel_percent cpu' = NaN) \<and>
      length (cpu_core_usage cpu') = LSM_MAX_CPUS \<and>
      (\<forall>i<LSM_MAX_CPUS. if Suc i < n \<and> valid (Suc i) then is_percent (cpu_core_usage cpu' ! i)
        else cpu_core_usage cpu' ! i = NaN) \<and>
      ca_previous state' = take n (cs_cpus sample) @ drop n (ca_previous state)"
proof -
  have n: "0 < usable_rows cpu sample"
    using assms(4) by (simp add: usable_rows_def)
  show ?thesis
    using cpu_apply_rows [OF assms(3,4,5), of c initial cpu elapsed] n
    by (auto simp: cpu_rows_applied_def Let_def published_share_def published_usage_def
        interval_usage_arith [OF assms(1)] percent_u64_percent [OF assms(2)]
        split: prod.splits)
qed

definition two_cpu_sample :: "u64 \<Rightarrow> u64 \<Rightarrow> cpu_accounting_sample" where
  "two_cpu_sample t i = zero_cpu_sample\<lparr>cs_cpus := (cs_cpus zero_cpu_sample)
     [0 := zero_counters\<lparr>cc_total := t, cc_idle := i\<rparr>], cs_cpu_count := 1\<rparr>"

definition cleared_state :: cpu_accounting_state where
  "cleared_state = \<lparr>ca_previous = replicate (LSM_MAX_CPUS + 1) zero_counters,
     ca_previous_interrupt_count = 0, ca_previous_context_switch_count = 0,
     ca_scheduler_events_initialized = False\<rparr>"

lemma two_cpu_sample_ok: "cpu_sample_ok (two_cpu_sample t i)" "0 < cs_cpu_count (two_cpu_sample t i)"
  "length (ca_previous cleared_state) = LSM_MAX_CPUS + 1"
  by (simp_all add: two_cpu_sample_def cpu_sample_ok_def zero_cpu_sample_def cleared_state_def)

theorem cpu_apply_publishes_witness:
  "cpu_usage_available (fst (lsm_cpu_accounting_apply ref_common example_cpu cleared_state
     (two_cpu_sample 100 40) False (Fin 1))) \<and>
   is_percent (cpu_usage_percent (fst (lsm_cpu_accounting_apply ref_common example_cpu cleared_state
     (two_cpu_sample 100 40) False (Fin 1))))"
proof -
  have "interval_valid False (cs_cpus (two_cpu_sample 100 40) ! 0) (ca_previous cleared_state ! 0)"
    by (simp add: interval_valid_def two_cpu_sample_def cleared_state_def zero_cpu_sample_def
        zero_counters_def)
  then show ?thesis
    using cpu_apply_publishes [OF ref_common_ok(2,3) two_cpu_sample_ok(1,2) [of 100 40] two_cpu_sample_ok(3),
      where cpu = example_cpu and initial = False and elapsed = "Fin 1"]
    by (simp add: Let_def split: prod.splits)
qed

text \<open>However the stream was driven before (resets, rollbacks, unusable or empty samples,
  stale published values), the aggregate utilisation shown after two usable samples is computed
  from the counters of those two alone.\<close>

theorem cpu_usage_last_two:
  assumes "length (ca_previous state) = LSM_MAX_CPUS + 1"
    and "cpu_sample_ok (fst a)" "0 < cs_cpu_count (fst a)"
    and "cpu_sample_ok (fst b)" "0 < cs_cpu_count (fst b)"
  shows "aggregate_view (fst (foldl (\<lambda>(cpu, state). cpu_update c cpu state) (cpu, state) (history @ [a, b]))) =
    aggregate_rates c (cs_cpus (fst a) ! 0) b"
  using cpu_stream.view_last_two [of "(cpu, state)" a b c history] assms
  by (simp add: cpu_stream.run_def case_prod_unfold)

theorem cpu_usage_last_two_witness:
  "aggregate_view (fst (foldl (\<lambda>(cpu, state). cpu_update ref_common cpu state)
     (example_cpu, cleared_state)
     ([(two_cpu_sample 900 900, False, Fin 1)] @
      [(two_cpu_sample 100 40, False, Fin 1), (two_cpu_sample 200 60, False, Fin 1)]))) =
   aggregate_rates ref_common (cs_cpus (two_cpu_sample 100 40) ! 0)
     (two_cpu_sample 200 60, False, Fin 1)"
  using two_cpu_sample_ok by (subst cpu_usage_last_two) simp_all

text \<open>Parsing never leaves the fixed-size table and is exact for every text: the table
  holds, for every index, the last row the text carries for it (or zeros), the count is one more than
  the highest index seen, and the parse succeeds exactly when an aggregate row was found.\<close>

theorem cpu_parse_exact:
  "case cpu_accounting_parse_mutable c text of (found, sample) \<Rightarrow>
     let rows = stat_rows c text in
     (found \<longleftrightarrow> 0 \<in> fst ` set rows) \<and> cpu_sample_ok sample \<and>
     cs_cpu_count sample = fold max (map (Suc \<circ> fst) rows) 0 \<and>
     cs_cpus sample = map (\<lambda>i. last (zero_counters # map snd (filter (\<lambda>r. fst r = i) rows)))
       [0..<LSM_MAX_CPUS + 1]"
proof -
  have "cpu_sample_ok (snd (cpu_accounting_parse_mutable c text))"
    by (simp add: cpu_accounting_parse_mutable_def fold_stat_lines_ok)
  then show ?thesis
    by (cases "cpu_accounting_parse_mutable c text")
      (auto simp: Let_def cpu_stat_parse_rows simp del: upt_Suc)
qed

end
