(* ===== verification/Disk_Accounting.thy ===== *)
theory Disk_Accounting
  imports Counter_Stream Monitor_Types
begin

text \<open>
  \<^verbatim>\<open>src/disk_accounting.c\<close>: throughput, activity, response times and queue length of one disk
  from cumulative kernel counters. A missing sample (the \<^verbatim>\<open>NULL\<close> counters pointer, \<open>None\<close> here)
  blanks every metric and forgets the baseline; each metric needs its own counters to have
  advanced, and is NaN otherwise.
\<close>

record disk_accounting_state =
  da_previous_read_sectors :: u64
  da_previous_write_sectors :: u64
  da_previous_read_operations :: u64
  da_previous_write_operations :: u64
  da_previous_read_ms :: u64
  da_previous_write_ms :: u64
  da_previous_io_ms :: u64
  da_previous_weighted_io_ms :: u64
  da_initialized :: bool

record disk_counters =
  dc_read_operations :: u64
  dc_read_sectors :: u64
  dc_read_ms :: u64
  dc_write_operations :: u64
  dc_write_sectors :: u64
  dc_write_ms :: u64
  dc_in_progress_operations :: u64
  dc_io_ms :: u64
  dc_weighted_io_ms :: u64

definition blank_disk_rates :: "disk_info \<Rightarrow> disk_info" where
  "blank_disk_rates disk = disk\<lparr>disk_read_bytes_per_sec := NaN, disk_write_bytes_per_sec := NaN,
     disk_active_percent := NaN, disk_read_response_ms := NaN, disk_write_response_ms := NaN,
     disk_average_response_ms := NaN, disk_queue_length := NaN\<rparr>"

text \<open>Operations and time of one direction over the interval, when both counters advanced.\<close>

definition completed ::
  "common \<Rightarrow> u64 \<Rightarrow> u64 \<Rightarrow> u64 \<Rightarrow> u64 \<Rightarrow> (u64 \<times> u64) option" where
  "completed c operations previous_operations ms previous_ms =
     (case infiltratr_u64_counter_delta c operations previous_operations of
        None \<Rightarrow> None
      | Some delta \<Rightarrow>
          map_option (\<lambda>time. (delta, time)) (infiltratr_u64_counter_delta c ms previous_ms))"

definition response_ms :: "u64 \<Rightarrow> u64 \<Rightarrow> double" where
  "response_ms operations time =
     (if 0 < operations then ddiv (double_of_word time) (double_of_word operations) else Fin 0)"

definition disk_interval ::
  "common \<Rightarrow> disk_accounting_state \<Rightarrow> disk_counters \<Rightarrow> double \<Rightarrow> disk_info \<Rightarrow> disk_info" where
  "disk_interval c state counters elapsed_seconds disk =
     (let rate = infiltratr_u64_counter_rate c;
          (read_ok, read_rate) = rate (dc_read_sectors counters) (da_previous_read_sectors state)
            (Fin 512) elapsed_seconds;
          disk = (if read_ok then disk\<lparr>disk_read_bytes_per_sec := read_rate\<rparr> else disk);
          (write_ok, write_rate) = rate (dc_write_sectors counters)
            (da_previous_write_sectors state) (Fin 512) elapsed_seconds;
          disk = (if write_ok then disk\<lparr>disk_write_bytes_per_sec := write_rate\<rparr> else disk);
          (io_ok, io_rate) = rate (dc_io_ms counters) (da_previous_io_ms state) (Fin 1)
            elapsed_seconds;
          disk = (if io_ok
            then disk\<lparr>disk_active_percent :=
              infiltratr_clamp_double c (ddiv io_rate (Fin 10)) (Fin 0) (Fin 100)\<rparr>
            else disk);
          read = completed c (dc_read_operations counters) (da_previous_read_operations state)
            (dc_read_ms counters) (da_previous_read_ms state);
          write = completed c (dc_write_operations counters) (da_previous_write_operations state)
            (dc_write_ms counters) (da_previous_write_ms state);
          disk = (case read of
              None \<Rightarrow> disk
            | Some (ops, time) \<Rightarrow> disk\<lparr>disk_read_response_ms := response_ms ops time\<rparr>);
          disk = (case write of
              None \<Rightarrow> disk
            | Some (ops, time) \<Rightarrow> disk\<lparr>disk_write_response_ms := response_ms ops time\<rparr>);
          disk = (case (read, write) of
              (Some (read_ops, read_time), Some (write_ops, write_time)) \<Rightarrow>
                disk\<lparr>disk_average_response_ms := response_ms
                  (infiltratr_u64_add_saturating c read_ops write_ops)
                  (infiltratr_u64_add_saturating c read_time write_time)\<rparr>
            | _ \<Rightarrow> disk);
          (weighted_ok, weighted) = rate (dc_weighted_io_ms counters)
            (da_previous_weighted_io_ms state) (Fin 1) elapsed_seconds
      in if weighted_ok
         then disk\<lparr>disk_queue_length := fmax (Fin 0) (ddiv weighted (Fin 1000))\<rparr> else disk)"

definition disk_baseline :: "disk_counters \<Rightarrow> disk_accounting_state" where
  "disk_baseline counters =
     \<lparr>da_previous_read_sectors = dc_read_sectors counters,
      da_previous_write_sectors = dc_write_sectors counters,
      da_previous_read_operations = dc_read_operations counters,
      da_previous_write_operations = dc_write_operations counters,
      da_previous_read_ms = dc_read_ms counters,
      da_previous_write_ms = dc_write_ms counters,
      da_previous_io_ms = dc_io_ms counters,
      da_previous_weighted_io_ms = dc_weighted_io_ms counters,
      da_initialized = True\<rparr>"

definition lsm_disk_accounting_update ::
  "common \<Rightarrow> disk_info \<Rightarrow> disk_accounting_state \<Rightarrow> disk_counters option \<Rightarrow> double \<Rightarrow>
     disk_info \<times> disk_accounting_state" where
  "lsm_disk_accounting_update c disk state counters elapsed_seconds =
     (case counters of
        None \<Rightarrow> (blank_disk_rates disk, state\<lparr>da_initialized := False\<rparr>)
      | Some k \<Rightarrow>
          let disk = disk\<lparr>
                disk_read_bytes_total := infiltratr_u64_multiply_saturating c (dc_read_sectors k) 512,
                disk_write_bytes_total :=
                  infiltratr_u64_multiply_saturating c (dc_write_sectors k) 512,
                disk_in_progress_operations :=
                  (if (2 ^ 32 - 1 :: u64) < dc_in_progress_operations k then UINT_MAX
                   else ucast (dc_in_progress_operations k))\<rparr>;
              disk = blank_disk_rates disk;
              disk = (if da_initialized state \<and> dless (Fin 0) elapsed_seconds
                then disk_interval c state k elapsed_seconds disk else disk)
          in (disk, disk_baseline k))"

subsection \<open>What an interval publishes\<close>

definition rate_or_nan :: "bool \<times> double \<Rightarrow> double" where
  "rate_or_nan r = (if fst r then snd r else NaN)"

text \<open>A metric is withheld (NaN) or a finite non-negative number.\<close>

definition metric_ok :: "double \<Rightarrow> bool" where
  "metric_ok d \<longleftrightarrow> d = NaN \<or> isfinite d \<and> dle (Fin 0) d"

lemma metric_ok_simps [simp]: "metric_ok NaN" "metric_ok (Fin r) \<longleftrightarrow> 0 \<le> r"
  by (simp_all add: metric_ok_def)

lemma response_ms_ok: "metric_ok (response_ms ops time)"
proof (cases "0 < ops")
  case True
  obtain a where a: "double_of_word time = Fin a" "is_double (Fin a)" "0 \<le> a"
    using double_of_word_bounds [of time] by blast
  obtain b where b: "double_of_word ops = Fin b" "1 \<le> b"
    using double_of_word_bounds [of ops] True by blast
  show ?thesis using ddiv_finite [OF a(2,3) b(2)] True by (auto simp: response_ms_def a b)
qed (simp add: response_ms_def)

lemma counter_rate_ok:
  assumes "common_rates_ok c"
  shows "metric_ok (rate_or_nan (infiltratr_u64_counter_rate c cur prev k t))"
    and "cur < prev \<Longrightarrow> \<not> fst (infiltratr_u64_counter_rate c cur prev k t)"
  using counter_rate_nonneg [OF assms, of cur prev k t] counter_rate_rollback [OF assms, of cur prev k t]
  by (cases "infiltratr_u64_counter_rate c cur prev k t"; auto simp: rate_or_nan_def)+

lemma active_percent_ok:
  assumes "common_rates_ok c" "infiltratr_u64_counter_rate c cur prev k t = (True, io)"
  shows "is_percent (infiltratr_clamp_double c (ddiv io (Fin 10)) (Fin 0) (Fin 100))"
proof -
  obtain r where r: "io = Fin r" "is_double (Fin r)" "0 \<le> r"
    using counter_rate_nonneg [OF assms] by blast
  obtain q where "ddiv io (Fin 10) = Fin q" "0 \<le> q"
    using ddiv_finite [OF r(2,3), of 10] r(1) by auto
  with assms(1) show ?thesis by (auto simp: common_rates_ok_def)
qed

lemma queue_length_ok:
  assumes "common_rates_ok c" "infiltratr_u64_counter_rate c cur prev k t = (True, w)"
  shows "metric_ok (fmax (Fin 0) (ddiv w (Fin 1000)))"
proof -
  obtain r where r: "w = Fin r" "is_double (Fin r)" "0 \<le> r"
    using counter_rate_nonneg [OF assms] by blast
  then show ?thesis using ddiv_finite [OF r(2,3), of 1000] by (auto simp: fmax_def)
qed

text \<open>The published metrics: read and write throughput, activity, read, write and average
  response time, queue length.\<close>

type_synonym disk_metrics = "double \<times> double \<times> double \<times> double \<times> double \<times> double \<times> double"

definition disk_view :: "disk_info \<Rightarrow> disk_metrics" where
  "disk_view d = (disk_read_bytes_per_sec d, disk_write_bytes_per_sec d, disk_active_percent d,
     disk_read_response_ms d, disk_write_response_ms d, disk_average_response_ms d,
     disk_queue_length d)"

definition no_disk_metrics :: disk_metrics where
  "no_disk_metrics = (NaN, NaN, NaN, NaN, NaN, NaN, NaN)"

definition disk_metrics_of ::
  "common \<Rightarrow> disk_accounting_state \<Rightarrow> disk_counters \<Rightarrow> double \<Rightarrow> disk_metrics" where
  "disk_metrics_of c st k t =
     (let rate = infiltratr_u64_counter_rate c;
          r = completed c (dc_read_operations k) (da_previous_read_operations st)
            (dc_read_ms k) (da_previous_read_ms st);
          w = completed c (dc_write_operations k) (da_previous_write_operations st)
            (dc_write_ms k) (da_previous_write_ms st)
      in (rate_or_nan (rate (dc_read_sectors k) (da_previous_read_sectors st) (Fin 512) t),
          rate_or_nan (rate (dc_write_sectors k) (da_previous_write_sectors st) (Fin 512) t),
          (case rate (dc_io_ms k) (da_previous_io_ms st) (Fin 1) t of (ok, io) \<Rightarrow>
            if ok then infiltratr_clamp_double c (ddiv io (Fin 10)) (Fin 0) (Fin 100) else NaN),
          (case r of None \<Rightarrow> NaN | Some (n, ms) \<Rightarrow> response_ms n ms),
          (case w of None \<Rightarrow> NaN | Some (n, ms) \<Rightarrow> response_ms n ms),
          (case (r, w) of
             (Some (rn, rms), Some (wn, wms)) \<Rightarrow> response_ms
               (infiltratr_u64_add_saturating c rn wn) (infiltratr_u64_add_saturating c rms wms)
           | _ \<Rightarrow> NaN),
          (case rate (dc_weighted_io_ms k) (da_previous_weighted_io_ms st) (Fin 1) t of (ok, q) \<Rightarrow>
            if ok then fmax (Fin 0) (ddiv q (Fin 1000)) else NaN)))"

lemma disk_view_blank [simp]: "disk_view (blank_disk_rates d) = no_disk_metrics"
  by (simp add: disk_view_def blank_disk_rates_def no_disk_metrics_def)

lemma disk_view_interval:
  "disk_view (disk_interval c st k t (blank_disk_rates disk)) = disk_metrics_of c st k t"
proof (cases "infiltratr_u64_counter_rate c (dc_read_sectors k) (da_previous_read_sectors st) (Fin 512) t";
    cases "infiltratr_u64_counter_rate c (dc_write_sectors k) (da_previous_write_sectors st) (Fin 512) t";
    cases "infiltratr_u64_counter_rate c (dc_io_ms k) (da_previous_io_ms st) (Fin 1) t";
    cases "infiltratr_u64_counter_rate c (dc_weighted_io_ms k) (da_previous_weighted_io_ms st) (Fin 1) t")
  fix rr r wr w ir i qr q
  assume rates:
    "infiltratr_u64_counter_rate c (dc_read_sectors k) (da_previous_read_sectors st) (Fin 512) t = (rr, r)"
    "infiltratr_u64_counter_rate c (dc_write_sectors k) (da_previous_write_sectors st) (Fin 512) t = (wr, w)"
    "infiltratr_u64_counter_rate c (dc_io_ms k) (da_previous_io_ms st) (Fin 1) t = (ir, i)"
    "infiltratr_u64_counter_rate c (dc_weighted_io_ms k) (da_previous_weighted_io_ms st) (Fin 1) t = (qr, q)"
  define cr where "cr = completed c (dc_read_operations k) (da_previous_read_operations st)
    (dc_read_ms k) (da_previous_read_ms st)"
  define cw where "cw = completed c (dc_write_operations k) (da_previous_write_operations st)
    (dc_write_ms k) (da_previous_write_ms st)"
  show ?thesis
    unfolding disk_metrics_of_def disk_interval_def Let_def rates cr_def [symmetric] cw_def [symmetric]
    by (cases cr; cases cw) (simp_all add: disk_view_def blank_disk_rates_def rate_or_nan_def case_prod_unfold)
qed

lemma disk_metrics_ok:
  assumes "common_rates_ok c"
  shows "case disk_metrics_of c st k t of (r, w, a, rr, wr, ar, q) \<Rightarrow>
    list_all metric_ok [r, w, rr, wr, ar, q] \<and> (a = NaN \<or> is_percent a)"
  using counter_rate_ok(1) [OF assms] active_percent_ok [OF assms] queue_length_ok [OF assms]
    response_ms_ok
  by (auto simp: disk_metrics_of_def Let_def split: prod.splits option.splits)

subsection \<open>The accounting stream\<close>

type_synonym disk_observation = "disk_counters option \<times> double"

definition disk_update ::
  "common \<Rightarrow> disk_info \<Rightarrow> disk_accounting_state \<Rightarrow> disk_observation \<Rightarrow>
     disk_info \<times> disk_accounting_state" where
  "disk_update c disk st ob = lsm_disk_accounting_update c disk st (fst ob) (snd ob)"

definition retained_baseline :: "disk_accounting_state \<Rightarrow> disk_accounting_state option" where
  "retained_baseline st = (if da_initialized st then Some st else None)"

definition disk_rates ::
  "common \<Rightarrow> disk_accounting_state option \<Rightarrow> disk_observation \<Rightarrow> disk_metrics" where
  "disk_rates c previous ob =
     (case (previous, ob) of
        (Some st, Some k, t) \<Rightarrow>
          if dless (Fin 0) t then disk_metrics_of c st k t else no_disk_metrics
      | _ \<Rightarrow> no_disk_metrics)"

lemma disk_view_update:
  "disk_view (fst (lsm_disk_accounting_update c disk st k t)) =
   disk_rates c (retained_baseline st) (k, t)"
  by (simp add: lsm_disk_accounting_update_def disk_rates_def retained_baseline_def Let_def
      disk_view_interval split: option.split)

lemma disk_baseline_update:
  "retained_baseline (snd (lsm_disk_accounting_update c disk st k t)) = map_option disk_baseline k"
  by (simp add: lsm_disk_accounting_update_def retained_baseline_def disk_baseline_def Let_def
      split: option.split)

interpretation disk_stream: counter_stream "disk_update c" retained_baseline
  "\<lambda>ob. map_option disk_baseline (fst ob)" disk_view "disk_rates c" "\<lambda>_. True" "\<lambda>_. True" for c
  by unfold_locales (simp_all add: disk_update_def disk_view_update disk_baseline_update)

subsection \<open>Properties\<close>

text \<open>Milliseconds per completed operation, zero when none completed.\<close>

definition mean_response :: "nat \<Rightarrow> nat \<Rightarrow> double" where
  "mean_response operations ms =
     (if operations = 0 then Fin 0 else ddiv (double_of_nat ms) (double_of_nat operations))"

lemma response_ms_mean: "response_ms n ms = mean_response (unat n) (unat ms)"
proof (cases "n = 0")
  case False
  then have "0 < n" "0 < unat n" by (simp_all add: word_greater_zero_iff unat_gt_0)
  then show ?thesis by (simp add: response_ms_def mean_response_def)
qed (simp add: response_ms_def mean_response_def)

lemma completed_exact:
  assumes "common_arith_ok c"
  shows "completed c n pn ms pms = (if pn \<le> n \<and> pms \<le> ms then Some (n - pn, ms - pms) else None)"
  using assms by (auto simp: completed_def common_arith_ok_def counter_delta_def)

lemma disk_responses_exact:
  assumes "common_arith_ok c"
  shows "case disk_metrics_of c st k t of (r, w, a, rr, wr, ar, q) \<Rightarrow>
    let read = da_previous_read_operations st \<le> dc_read_operations k \<and> da_previous_read_ms st \<le> dc_read_ms k;
        written = da_previous_write_operations st \<le> dc_write_operations k \<and> da_previous_write_ms st \<le> dc_write_ms k;
        rn = unat (dc_read_operations k) - unat (da_previous_read_operations st);
        rms = unat (dc_read_ms k) - unat (da_previous_read_ms st);
        wn = unat (dc_write_operations k) - unat (da_previous_write_operations st);
        wms = unat (dc_write_ms k) - unat (da_previous_write_ms st)
    in rr = (if read then mean_response rn rms else NaN) \<and>
       wr = (if written then mean_response wn wms else NaN) \<and>
       ar = (if read \<and> written
         then mean_response (min (rn + wn) (2 ^ 64 - 1)) (min (rms + wms) (2 ^ 64 - 1)) else NaN)"
proof -
  have add: "infiltratr_u64_add_saturating c = saturating_add" using assms by (simp add: common_arith_ok_def)
  define read where "read \<longleftrightarrow> da_previous_read_operations st \<le> dc_read_operations k \<and> da_previous_read_ms st \<le> dc_read_ms k"
  define written where
    "written \<longleftrightarrow> da_previous_write_operations st \<le> dc_write_operations k \<and> da_previous_write_ms st \<le> dc_write_ms k"
  have deltas: "read \<Longrightarrow> unat (dc_read_operations k - da_previous_read_operations st) =
      unat (dc_read_operations k) - unat (da_previous_read_operations st)"
    "read \<Longrightarrow> unat (dc_read_ms k - da_previous_read_ms st) = unat (dc_read_ms k) - unat (da_previous_read_ms st)"
    "written \<Longrightarrow> unat (dc_write_operations k - da_previous_write_operations st) =
      unat (dc_write_operations k) - unat (da_previous_write_operations st)"
    "written \<Longrightarrow> unat (dc_write_ms k - da_previous_write_ms st) = unat (dc_write_ms k) - unat (da_previous_write_ms st)"
    by (simp_all add: read_def written_def unat_sub)
  show ?thesis
    unfolding disk_metrics_of_def Let_def completed_exact [OF assms] read_def [symmetric] written_def [symmetric]
    by (cases read; cases written) (simp_all add: response_ms_mean deltas add unat_saturating_add)
qed

lemma rate_metrics_given:
  assumes "common_rates_ok c" "common_rates_given c" "1 / 2 ^ 64 \<le> t"
  shows "case disk_metrics_of c st k (Fin t) of (r, w, a, rr, wr, ar, q) \<Rightarrow>
    (r = NaN \<longleftrightarrow> dc_read_sectors k < da_previous_read_sectors st) \<and>
    (w = NaN \<longleftrightarrow> dc_write_sectors k < da_previous_write_sectors st) \<and>
    (a = NaN \<longleftrightarrow> dc_io_ms k < da_previous_io_ms st) \<and>
    (q = NaN \<longleftrightarrow> dc_weighted_io_ms k < da_previous_weighted_io_ms st)"
proof -
  let ?rate = "infiltratr_u64_counter_rate c"
  have given: "\<exists>d. ?rate cur prev (Fin k) (Fin t) = (True, Fin d) \<and> is_double (Fin d) \<and> 0 \<le> d"
    if "prev \<le> cur" "k \<in> {1, 512}" for cur prev k
    using counter_rate_given [OF assms(2) that(1), of k t] counter_rate_nonneg [OF assms(1), of cur prev "Fin k" "Fin t"]
      assms(3) that(2) by (cases "?rate cur prev (Fin k) (Fin t)") auto
  have gone: "?rate cur prev k t = (False, Fin 0)" if "cur < prev" for cur prev k t
    by (rule counter_rate_rollback [OF assms(1) that])
  have throughput: "rate_or_nan (?rate cur prev (Fin 512) (Fin t)) = NaN \<longleftrightarrow> cur < prev" for cur prev
    using given [of prev cur 512] gone [of cur prev] by (cases "cur < prev") (auto simp: rate_or_nan_def not_less)
  have active: "(case ?rate cur prev (Fin 1) (Fin t) of (ok, io) \<Rightarrow>
      if ok then infiltratr_clamp_double c (ddiv io (Fin 10)) (Fin 0) (Fin 100) else NaN) = NaN \<longleftrightarrow> cur < prev" for cur prev
    using given [of prev cur 1] gone [of cur prev] active_percent_ok [OF assms(1), of cur prev "Fin 1" "Fin t"]
    by (cases "cur < prev") (auto simp: not_less is_percent_def)
  have queue: "(case ?rate cur prev (Fin 1) (Fin t) of (ok, n) \<Rightarrow>
      if ok then fmax (Fin 0) (ddiv n (Fin 1000)) else NaN) = NaN \<longleftrightarrow> cur < prev" for cur prev
  proof (cases "cur < prev")
    case False
    then obtain d where d: "?rate cur prev (Fin 1) (Fin t) = (True, Fin d)" "is_double (Fin d)" "0 \<le> d"
      using given [of prev cur 1] by (auto simp: not_less)
    then show ?thesis using False ddiv_finite [OF d(2,3), of 1000] by (auto simp: fmax_def)
  qed (simp add: gone)
  show ?thesis by (simp add: disk_metrics_of_def Let_def throughput active queue)
qed

text \<open>
  C10. Every metric a disk update publishes is either withheld (NaN) or a finite non-negative number,
  activity a percentage, and nothing is published without a baseline, without counters or without
  positive elapsed time. Otherwise a metric is withheld exactly when a counter it is computed from
  went backwards (for the throughputs, the activity and the queue length: over any finite interval
  of at least two to the minus 64 seconds), and the response times are the elapsed operation
  time per completed operation, zero when none completed, of reads, of writes and of both together.
\<close>

theorem disk_update_publishes:
  assumes "common_arith_ok c" "common_rates_ok c" "common_rates_given c"
  shows "case disk_view (fst (lsm_disk_accounting_update c disk st counters t)) of
      (r, w, a, rr, wr, ar, q) \<Rightarrow>
    list_all metric_ok [r, w, rr, wr, ar, q] \<and> (a = NaN \<or> is_percent a) \<and>
    (counters = None \<or> \<not> da_initialized st \<or> \<not> dless (Fin 0) t \<longrightarrow>
      list_all isnan [r, w, a, rr, wr, ar, q]) \<and>
    (\<forall>k. counters = Some k \<and> da_initialized st \<and> dless (Fin 0) t \<longrightarrow>
      (\<forall>seconds. t = Fin seconds \<and> 1 / 2 ^ 64 \<le> seconds \<longrightarrow>
        (r = NaN \<longleftrightarrow> dc_read_sectors k < da_previous_read_sectors st) \<and>
        (w = NaN \<longleftrightarrow> dc_write_sectors k < da_previous_write_sectors st) \<and>
        (a = NaN \<longleftrightarrow> dc_io_ms k < da_previous_io_ms st) \<and>
        (q = NaN \<longleftrightarrow> dc_weighted_io_ms k < da_previous_weighted_io_ms st)) \<and>
      (let read = da_previous_read_operations st \<le> dc_read_operations k \<and> da_previous_read_ms st \<le> dc_read_ms k;
           written = da_previous_write_operations st \<le> dc_write_operations k \<and> da_previous_write_ms st \<le> dc_write_ms k;
           rn = unat (dc_read_operations k) - unat (da_previous_read_operations st);
           rms = unat (dc_read_ms k) - unat (da_previous_read_ms st);
           wn = unat (dc_write_operations k) - unat (da_previous_write_operations st);
           wms = unat (dc_write_ms k) - unat (da_previous_write_ms st)
       in rr = (if read then mean_response rn rms else NaN) \<and>
          wr = (if written then mean_response wn wms else NaN) \<and>
          ar = (if read \<and> written
            then mean_response (min (rn + wn) (2 ^ 64 - 1)) (min (rms + wms) (2 ^ 64 - 1)) else NaN)))"
proof (cases "counters = None \<or> \<not> da_initialized st \<or> \<not> dless (Fin 0) t")
  case True
  then have "disk_view (fst (lsm_disk_accounting_update c disk st counters t)) = no_disk_metrics"
    by (auto simp: disk_view_update disk_rates_def retained_baseline_def split: option.split)
  then show ?thesis using True by (auto simp: no_disk_metrics_def)
next
  case False
  then obtain k where k: "counters = Some k" by auto
  with False have view: "disk_view (fst (lsm_disk_accounting_update c disk st counters t)) =
      disk_metrics_of c st k t"
    by (simp add: disk_view_update disk_rates_def retained_baseline_def)
  obtain r w a rr wr ar q where metrics: "disk_metrics_of c st k t = (r, w, a, rr, wr, ar, q)"
    by (cases "disk_metrics_of c st k t")
  note exact = disk_responses_exact [OF assms(1), where st = st and k = k and t = t, unfolded metrics prod.case]
  have "\<forall>seconds. t = Fin seconds \<and> 1 / 2 ^ 64 \<le> seconds \<longrightarrow>
      (r = NaN \<longleftrightarrow> dc_read_sectors k < da_previous_read_sectors st) \<and>
      (w = NaN \<longleftrightarrow> dc_write_sectors k < da_previous_write_sectors st) \<and>
      (a = NaN \<longleftrightarrow> dc_io_ms k < da_previous_io_ms st) \<and>
      (q = NaN \<longleftrightarrow> dc_weighted_io_ms k < da_previous_weighted_io_ms st)"
    using rate_metrics_given [OF assms(2,3), where st = st and k = k] metrics by fastforce
  moreover have "list_all metric_ok [r, w, rr, wr, ar, q] \<and> (a = NaN \<or> is_percent a)"
    using disk_metrics_ok [OF assms(2), where st = st and k = k and t = t] unfolding metrics prod.case .
  ultimately show ?thesis
    unfolding k view [unfolded k] metrics prod.case option.inject using exact False by blast
qed

definition disk_counters_at :: "u64 \<Rightarrow> disk_counters" where
  "disk_counters_at n = \<lparr>dc_read_operations = n, dc_read_sectors = n, dc_read_ms = n,
     dc_write_operations = n, dc_write_sectors = n, dc_write_ms = n, dc_in_progress_operations = n,
     dc_io_ms = n, dc_weighted_io_ms = n\<rparr>"

definition example_disk :: disk_info where
  "example_disk = \<lparr>disk_name = ''sda'', disk_instance_identity = [], disk_model = [],
     disk_read_bytes_per_sec = Fin 5, disk_write_bytes_per_sec = Fin 5, disk_active_percent = Fin 5,
     disk_average_response_ms = Fin 5, disk_read_response_ms = Fin 5, disk_write_response_ms = Fin 5,
     disk_queue_length = Fin 5, disk_read_bytes_total = 0, disk_write_bytes_total = 0,
     disk_in_progress_operations = 0\<rparr>"

text \<open>The sector counters advanced while the operation counters went backwards.\<close>

theorem disk_update_publishes_witness:
  "let disk = fst (lsm_disk_accounting_update ref_common example_disk (disk_baseline (disk_counters_at 9))
     (Some ((disk_counters_at 12)\<lparr>dc_read_operations := 11, dc_write_operations := 3\<rparr>)) (Fin 1))
   in disk_read_bytes_per_sec disk \<noteq> NaN \<and> disk_read_response_ms disk = mean_response 2 3 \<and>
      disk_write_response_ms disk = NaN \<and> disk_average_response_ms disk = NaN"
  using disk_update_publishes [OF ref_common_ok(2,3) ref_common_rates_given, where disk = example_disk and
      st = "disk_baseline (disk_counters_at 9)" and t = "Fin 1" and
      counters = "Some ((disk_counters_at 12)\<lparr>dc_read_operations := 11, dc_write_operations := 3\<rparr>)"]
  by (simp add: disk_view_def disk_baseline_def disk_counters_at_def Let_def)

text \<open>However the stream was driven before, the metrics shown after two observations are
  computed from those two alone: a lost sample followed by a good one publishes nothing, and
  the next good one publishes the rate over the last interval only.\<close>

theorem disk_rates_last_two:
  "disk_view (fst (foldl (\<lambda>(disk, st). disk_update c disk st) (disk, st) (history @ [a, b]))) =
     disk_rates c (map_option disk_baseline (fst a)) b"
  using disk_stream.view_last_two [where s = "(disk, st)" and c = c]
  by (simp add: disk_stream.run_def case_prod_unfold)

end
