(* ===== verification/Memory_Accounting.thy ===== *)
theory Memory_Accounting
  imports Common_Library Monitor_Types
begin

text \<open>
  \<^verbatim>\<open>src/memory_accounting.c\<close>: one pass over \<^verbatim>\<open>/proc/meminfo\<close>, publishing only after the whole
  stream was read and closed without error and \<^verbatim>\<open>MemAvailable\<close> was seen. The C variables
  \<^verbatim>\<open>x\<close> and \<^verbatim>\<open>have_x\<close> are the two components of one field.
\<close>

record meminfo_pass =
  mp_available :: "bool \<times> u64"
  mp_committed :: "bool \<times> u64"
  mp_commit_limit :: "bool \<times> u64"
  mp_cached :: "bool \<times> u64"
  mp_reclaimable :: "bool \<times> u64"
  mp_shared :: "bool \<times> u64"
  mp_nonreclaimable :: "bool \<times> u64"
  mp_page_tables :: "bool \<times> u64"
  mp_corrupted :: "bool \<times> u64"

definition empty_pass :: meminfo_pass where
  "empty_pass = \<lparr>mp_available = (False, 0), mp_committed = (False, 0),
     mp_commit_limit = (False, 0), mp_cached = (False, 0), mp_reclaimable = (False, 0),
     mp_shared = (False, 0), mp_nonreclaimable = (False, 0), mp_page_tables = (False, 0),
     mp_corrupted = (False, 0)\<rparr>"

definition parse_quantity :: "common \<Rightarrow> string \<Rightarrow> (string \<times> u64) option" where
  "parse_quantity c line =
     (case strchr_split CHR '':'' line of
        None \<Rightarrow> None
      | Some (before, after) \<Rightarrow>
          map_option (\<lambda>bytes. (infiltratr_trim c before, bytes))
            (infiltratr_parse_binary_quantity_u64 c after))"

definition meminfo_line :: "common \<Rightarrow> bool \<Rightarrow> meminfo_pass \<Rightarrow> string \<Rightarrow> meminfo_pass" where
  "meminfo_line c refresh_details pass line =
     (case parse_quantity c line of
        None \<Rightarrow> pass
      | Some (key, bytes) \<Rightarrow>
          let found = (True, bytes)
          in if key = ''MemAvailable'' then pass\<lparr>mp_available := found\<rparr>
             else if key = ''Committed_AS'' then pass\<lparr>mp_committed := found\<rparr>
             else if key = ''CommitLimit'' then pass\<lparr>mp_commit_limit := found\<rparr>
             else if refresh_details \<and> key = ''Cached'' then pass\<lparr>mp_cached := found\<rparr>
             else if refresh_details \<and> key = ''SReclaimable'' then pass\<lparr>mp_reclaimable := found\<rparr>
             else if refresh_details \<and> key = ''Shmem'' then pass\<lparr>mp_shared := found\<rparr>
             else if refresh_details \<and> key = ''SUnreclaim'' then pass\<lparr>mp_nonreclaimable := found\<rparr>
             else if refresh_details \<and> key = ''PageTables'' then pass\<lparr>mp_page_tables := found\<rparr>
             else if refresh_details \<and> key = ''HardwareCorrupted''
             then pass\<lparr>mp_corrupted := found\<rparr>
             else pass)"

definition publish_memory ::
  "common \<Rightarrow> bool \<Rightarrow> meminfo_pass \<Rightarrow> memory_info \<Rightarrow> memory_info" where
  "publish_memory c refresh_details pass memory =
     (let memory = memory\<lparr>mem_available_bytes := snd (mp_available pass)\<rparr>;
          memory = (if fst (mp_committed pass)
            then memory\<lparr>mem_committed_bytes := snd (mp_committed pass)\<rparr> else memory);
          memory = (if fst (mp_commit_limit pass)
            then memory\<lparr>mem_commit_limit_bytes := snd (mp_commit_limit pass)\<rparr> else memory)
      in if refresh_details then
           let memory = (if fst (mp_cached pass) \<or> fst (mp_reclaimable pass) \<or> fst (mp_shared pass)
                 then let combined = infiltratr_u64_add_saturating c (snd (mp_cached pass))
                            (snd (mp_reclaimable pass));
                          shared = snd (mp_shared pass)
                   in memory\<lparr>mem_cached_bytes := (if shared \<le> combined then combined - shared else 0)\<rparr>
                 else memory);
               or_zero = (\<lambda>(have, bytes). if have then bytes else 0)
           in memory\<lparr>mem_kernel_reclaimable_bytes := or_zero (mp_reclaimable pass),
                mem_kernel_nonreclaimable_bytes := or_zero (mp_nonreclaimable pass),
                mem_page_tables_bytes := or_zero (mp_page_tables pass),
                mem_hardware_corrupted_bytes := or_zero (mp_corrupted pass)\<rparr>
         else memory)"

definition lsm_memory_accounting_read ::
  "common \<Rightarrow> (string \<Rightarrow> text_stream option) \<Rightarrow> string \<Rightarrow> memory_info \<Rightarrow> bool \<Rightarrow>
     bool \<times> memory_info" where
  "lsm_memory_accounting_read c fopen path memory refresh_details =
     (case fopen path of
        None \<Rightarrow> (False, memory)
      | Some file \<Rightarrow>
          let pass = foldl (meminfo_line c refresh_details) empty_pass
                (map c_str (fgets_chunks 256 (ts_content file)));
              read_ok = (\<not> ts_error file);
              complete = (read_ok \<and> ts_close_ok file)
          in if \<not> complete \<or> \<not> fst (mp_available pass) then (False, memory)
             else (fst (mp_available pass), publish_memory c refresh_details pass memory))"

subsection \<open>Specification\<close>

text \<open>The value of a key: that of its last well-formed line.\<close>

definition meminfo_value :: "common \<Rightarrow> string list \<Rightarrow> string \<Rightarrow> u64 option" where
  "meminfo_value c lines key = map_of (rev (List.map_filter (parse_quantity c) lines)) key"

abbreviation found_value :: "u64 option \<Rightarrow> bool \<times> u64" where
  "found_value v \<equiv> (case v of None \<Rightarrow> (False, 0) | Some bytes \<Rightarrow> (True, bytes))"

lemma meminfo_value_snoc:
  "meminfo_value c (lines @ [line]) key =
   (case parse_quantity c line of
      None \<Rightarrow> meminfo_value c lines key
    | Some (k, bytes) \<Rightarrow> if k = key then Some bytes else meminfo_value c lines key)"
  by (auto simp: meminfo_value_def List.map_filter_def split: option.splits)

text \<open>The pass collects the values of the keys it looks for.\<close>

definition pass_of :: "(string \<Rightarrow> u64 option) \<Rightarrow> bool \<Rightarrow> meminfo_pass" where
  "pass_of v details =
     (let d = (\<lambda>key. if details then found_value (v key) else (False, 0)) in
      \<lparr>mp_available = found_value (v ''MemAvailable''),
       mp_committed = found_value (v ''Committed_AS''),
       mp_commit_limit = found_value (v ''CommitLimit''),
       mp_cached = d ''Cached'', mp_reclaimable = d ''SReclaimable'', mp_shared = d ''Shmem'',
       mp_nonreclaimable = d ''SUnreclaim'', mp_page_tables = d ''PageTables'',
       mp_corrupted = d ''HardwareCorrupted''\<rparr>)"

lemma meminfo_fold:
  "foldl (meminfo_line c details) empty_pass lines = pass_of (meminfo_value c lines) details"
proof (induction lines rule: rev_induct)
  case Nil
  then show ?case by (simp add: empty_pass_def pass_of_def meminfo_value_def List.map_filter_simps)
next
  case (snoc line lines)
  show ?case
  proof (cases "parse_quantity c line")
    case None
    with snoc show ?thesis
      by (simp add: meminfo_line_def meminfo_value_snoc [abs_def] pass_of_def)
  next
    case (Some p)
    obtain key bytes where p: "p = (key, bytes)" by force
    show ?thesis
      using snoc Some p by (cases details)
        (simp_all add: meminfo_line_def meminfo_value_snoc pass_of_def Let_def)
  qed
qed

text \<open>What a complete read publishes, from the values of the keys: optional fields keep what
  they held, detail fields fall back to zero, and the cache figure is the sum of page cache and
  reclaimable slab less shared memory, saturating at both ends.\<close>

definition expected_memory ::
  "(string \<Rightarrow> u64 option) \<Rightarrow> bool \<Rightarrow> memory_info \<Rightarrow> memory_info" where
  "expected_memory v details m =
     (let bytes = (\<lambda>key. case v key of None \<Rightarrow> 0 | Some b \<Rightarrow> b);
          keep = (\<lambda>key old. case v key of None \<Rightarrow> old | Some b \<Rightarrow> b);
          detail = (\<lambda>key old. if details then bytes key else old)
      in m\<lparr>mem_available_bytes := bytes ''MemAvailable'',
           mem_committed_bytes := keep ''Committed_AS'' (mem_committed_bytes m),
           mem_commit_limit_bytes := keep ''CommitLimit'' (mem_commit_limit_bytes m),
           mem_cached_bytes :=
             (if details \<and> list_ex (\<lambda>key. v key \<noteq> None) [''Cached'', ''SReclaimable'', ''Shmem'']
              then of_nat (min (unat (bytes ''Cached'') + unat (bytes ''SReclaimable'')) (2 ^ 64 - 1)
                - unat (bytes ''Shmem''))
              else mem_cached_bytes m),
           mem_kernel_reclaimable_bytes := detail ''SReclaimable'' (mem_kernel_reclaimable_bytes m),
           mem_kernel_nonreclaimable_bytes := detail ''SUnreclaim'' (mem_kernel_nonreclaimable_bytes m),
           mem_page_tables_bytes := detail ''PageTables'' (mem_page_tables_bytes m),
           mem_hardware_corrupted_bytes :=
             detail ''HardwareCorrupted'' (mem_hardware_corrupted_bytes m)\<rparr>)"

lemma cached_saturating:
  "(if s \<le> saturating_add a b then saturating_add a b - s else 0) =
   of_nat (min (unat a + unat b) (2 ^ 64 - 1) - unat s)"
proof -
  have "(if s \<le> x then x - s else 0) = of_nat (unat x - unat s)" for x :: u64
    by (auto simp: word_le_nat_alt of_nat_diff)
  then show ?thesis by (simp only: unat_saturating_add)
qed

lemma publish_memory_pass_of:
  assumes "common_arith_ok c" "v ''MemAvailable'' \<noteq> None"
  shows "publish_memory c details (pass_of v details) m = expected_memory v details m"
proof -
  have sat: "infiltratr_u64_add_saturating c = saturating_add"
    using assms(1) by (simp add: common_arith_ok_def)
  have found [simp]: "fst (found_value x) \<longleftrightarrow> x \<noteq> None"
    "snd (found_value x) = (case x of None \<Rightarrow> 0 | Some b \<Rightarrow> b)"
    "(case found_value x of (have, bytes) \<Rightarrow> if have then bytes else 0) =
     (case x of None \<Rightarrow> 0 | Some b \<Rightarrow> b)" for x
    by (simp_all split: option.split)
  show ?thesis
    unfolding publish_memory_def pass_of_def expected_memory_def Let_def sat cached_saturating
    by (cases details; cases "v ''Committed_AS''"; cases "v ''CommitLimit''") simp_all
qed

subsection \<open>Properties\<close>

text \<open>C12. Reading memory accounting is all-or-nothing and exact: nothing changes unless the
  whole stream was read and closed cleanly and holds \<^verbatim>\<open>MemAvailable\<close>; otherwise every field is
  the value of the last well-formed line of its key, with the documented fallbacks and a cache
  figure that cannot wrap around.\<close>

theorem memory_read_exact:
  assumes "common_arith_ok c"
  shows "lsm_memory_accounting_read c fopen path memory details =
    (case fopen path of
       None \<Rightarrow> (False, memory)
     | Some f \<Rightarrow>
         let v = meminfo_value c (map c_str (fgets_chunks 256 (ts_content f)))
         in if ts_error f \<or> \<not> ts_close_ok f \<or> v ''MemAvailable'' = None then (False, memory)
            else (True, expected_memory v details memory))"
proof -
  have "fst (mp_available (pass_of v details)) \<longleftrightarrow> v ''MemAvailable'' \<noteq> None" for v
    by (simp add: pass_of_def Let_def split: option.split)
  then show ?thesis
    by (auto simp: lsm_memory_accounting_read_def meminfo_fold Let_def
        publish_memory_pass_of [OF assms] split: option.split)
qed

definition example_meminfo :: text_stream where
  "example_meminfo = \<lparr>ts_content = ''MemAvailable: 7'', ts_error = False, ts_close_ok = True\<rparr>"

lemma example_meminfo_value:
  "meminfo_value ref_common (map c_str (fgets_chunks 256 (ts_content example_meminfo)))
     ''MemAvailable'' = Some 7168"
proof -
  have "fgets_chunks 256 (ts_content example_meminfo) = [''MemAvailable: 7'']"
    by (simp add: example_meminfo_def fgets_chunks_single)
  moreover have "parse_quantity ref_common (c_str ''MemAvailable: 7'') = Some (''MemAvailable'', 7168)"
    by (simp add: parse_quantity_def ref_common_def c_str_def strchr_split_def
        ref_parse_u64_token_def ref_parse_u64_def decimal_value_def digit_value_def ascii_digit_def
        ascii_space_def trim_spaces_def Let_def)
  ultimately show ?thesis by (simp add: meminfo_value_def List.map_filter_simps)
qed

theorem memory_read_exact_witness:
  "fst (lsm_memory_accounting_read ref_common (\<lambda>_. Some example_meminfo) ''/proc/meminfo''
     (mon_memory example_monitor) False) \<and>
   mem_available_bytes (snd (lsm_memory_accounting_read ref_common (\<lambda>_. Some example_meminfo)
     ''/proc/meminfo'' (mon_memory example_monitor) False)) = 7168"
  using example_meminfo_value
  by (subst (1 2) memory_read_exact [OF ref_common_ok(2)])
    (simp add: Let_def expected_memory_def example_meminfo_def)

end
