(* ===== verification/Pressure.thy ===== *)
theory Pressure
  imports Common_Library Monitor_Types
begin

text \<open>
  \<^verbatim>\<open>src/pressure.c\<close>: the Pressure Stall Information records. A malformed token, a repeated
  field or record, a missing field or a torn last line rejects the whole text; unknown fields
  and records are skipped.
\<close>

record pressure_line =
  pl_avg10 :: double
  pl_avg60 :: double
  pl_avg300 :: double
  pl_total_us :: u64
  pl_have_avg10 :: bool
  pl_have_avg60 :: bool
  pl_have_avg300 :: bool
  pl_have_total :: bool

definition zero_pressure_line :: pressure_line where
  "zero_pressure_line = \<lparr>pl_avg10 = Fin 0, pl_avg60 = Fin 0, pl_avg300 = Fin 0, pl_total_us = 0,
     pl_have_avg10 = False, pl_have_avg60 = False, pl_have_avg300 = False, pl_have_total = False\<rparr>"

text \<open>The body of the token loop; \<open>None\<close> is \<^verbatim>\<open>return false\<close>.\<close>

definition pressure_token :: "common \<Rightarrow> pressure_line \<Rightarrow> string \<Rightarrow> pressure_line option" where
  "pressure_token c parsed token =
     (case strchr_split CHR ''='' token of
        None \<Rightarrow> None
      | Some (key, val) \<Rightarrow>
          if key = [] \<or> val = [] \<or> CHR ''='' \<in> set val then None
          else
            let number = infiltratr_parse_double_range c val (Fin 0) (Fin 100)
            in if key = ''avg10'' then
                 if pl_have_avg10 parsed then None
                 else map_option (\<lambda>d. parsed\<lparr>pl_avg10 := d, pl_have_avg10 := True\<rparr>) number
               else if key = ''avg60'' then
                 if pl_have_avg60 parsed then None
                 else map_option (\<lambda>d. parsed\<lparr>pl_avg60 := d, pl_have_avg60 := True\<rparr>) number
               else if key = ''avg300'' then
                 if pl_have_avg300 parsed then None
                 else map_option (\<lambda>d. parsed\<lparr>pl_avg300 := d, pl_have_avg300 := True\<rparr>) number
               else if key = ''total'' then
                 if pl_have_total parsed then None
                 else map_option (\<lambda>n. parsed\<lparr>pl_total_us := n, pl_have_total := True\<rparr>)
                   (infiltratr_parse_u64 c val 10)
               else Some parsed)"

definition parse_pressure_line :: "common \<Rightarrow> string \<Rightarrow> string \<Rightarrow> pressure_line option" where
  "parse_pressure_line c line kind =
     (case strtok (\<lambda>x. x = CHR '' '' \<or> x = TAB) line of
        [] \<Rightarrow> None
      | token # tokens \<Rightarrow>
          if token \<noteq> kind then None
          else case foldM (pressure_token c) zero_pressure_line tokens of
              None \<Rightarrow> None
            | Some parsed \<Rightarrow>
                if pl_have_avg10 parsed \<and> pl_have_avg60 parsed \<and> pl_have_avg300 parsed \<and>
                   pl_have_total parsed
                then Some parsed else None)"

text \<open>The state of the record loop: the result so far, \<^verbatim>\<open>have_some\<close> and \<^verbatim>\<open>have_full\<close>.\<close>

type_synonym pressure_scan = "pressure_info \<times> bool \<times> bool"

definition is_record :: "common \<Rightarrow> string \<Rightarrow> string \<Rightarrow> bool" where
  "is_record c line kind \<longleftrightarrow>
     infiltratr_string_starts_with c line (kind @ '' '') \<or>
     infiltratr_string_starts_with c line (kind @ [TAB]) \<or> line = kind"

definition pressure_record :: "common \<Rightarrow> pressure_scan \<Rightarrow> string \<Rightarrow> pressure_scan option" where
  "pressure_record c scan raw =
     (case scan of (result, have_some, have_full) \<Rightarrow>
        let line = infiltratr_trim c raw
        in if line = [] then Some scan
           else if is_record c line ''some'' then
             if have_some then None
             else map_option (\<lambda>parsed. (result\<lparr>psi_some_avg10 := pl_avg10 parsed,
                 psi_some_avg60 := pl_avg60 parsed, psi_some_avg300 := pl_avg300 parsed,
                 psi_some_total_us := pl_total_us parsed\<rparr>, True, have_full))
               (parse_pressure_line c line ''some'')
           else if is_record c line ''full'' then
             if have_full then None
             else map_option (\<lambda>parsed. (result\<lparr>psi_full_avg10 := pl_avg10 parsed,
                 psi_full_avg60 := pl_avg60 parsed, psi_full_avg300 := pl_avg300 parsed,
                 psi_full_total_us := pl_total_us parsed\<rparr>, have_some, True))
               (parse_pressure_line c line ''full'')
           else Some scan)"

definition lsm_pressure_parse :: "common \<Rightarrow> string option \<Rightarrow> bool \<times> pressure_info" where
  "lsm_pressure_parse c text =
     (case text of
        None \<Rightarrow> (False, zero_pressure)
      | Some t \<Rightarrow>
          if t = [] \<or> last t \<noteq> LF then (False, zero_pressure)
          else case foldM (pressure_record c) (zero_pressure, False, False) (strtok is_newline t) of
              None \<Rightarrow> (False, zero_pressure)
            | Some (result, have_some, have_full) \<Rightarrow>
                if \<not> have_some then (False, zero_pressure)
                else (True, result\<lparr>psi_available := True, psi_full_available := have_full\<rparr>))"

definition lsm_pressure_read ::
  "common \<Rightarrow> (string \<Rightarrow> string option) \<Rightarrow> string option \<Rightarrow> bool \<times> pressure_info" where
  "lsm_pressure_read c read_text_file_alloc path =
     (case path of
        None \<Rightarrow> (False, zero_pressure)
      | Some p \<Rightarrow>
          if p = [] then (False, zero_pressure)
          else case read_text_file_alloc p of
              None \<Rightarrow> (False, zero_pressure)
            | Some t \<Rightarrow>
                if NUL \<in> set t then (False, zero_pressure) else lsm_pressure_parse c (Some t))"

subsection \<open>What an accepted text guarantees\<close>

definition line_percents :: "pressure_line \<Rightarrow> bool" where
  "line_percents l \<longleftrightarrow> is_percent (pl_avg10 l) \<and> is_percent (pl_avg60 l) \<and> is_percent (pl_avg300 l)"

definition scan_ok :: "pressure_scan \<Rightarrow> bool" where
  "scan_ok scan \<longleftrightarrow>
     (case scan of (p, have_some, have_full) \<Rightarrow>
        list_all is_percent [psi_some_avg10 p, psi_some_avg60 p, psi_some_avg300 p,
          psi_full_avg10 p, psi_full_avg60 p, psi_full_avg300 p] \<and>
        (\<not> have_full \<longrightarrow> psi_full_avg10 p = Fin 0 \<and> psi_full_avg60 p = Fin 0 \<and>
          psi_full_avg300 p = Fin 0 \<and> psi_full_total_us p = 0))"

lemma pressure_token_percents:
  assumes "common_range_ok c" "line_percents l" "pressure_token c l token = Some l'"
  shows "line_percents l'"
proof -
  have "is_percent d" if "infiltratr_parse_double_range c val (Fin 0) (Fin 100) = Some d" for val d
    using assms(1) that by (auto simp: common_range_ok_def is_percent_def)
  with assms(2,3) show ?thesis
    by (auto simp: pressure_token_def line_percents_def Let_def split: option.splits if_splits)
qed

lemma parse_pressure_line_percents:
  assumes "common_range_ok c" "parse_pressure_line c line kind = Some l"
  shows "line_percents l"
proof -
  obtain tokens where "foldM (pressure_token c) zero_pressure_line tokens = Some l"
    using assms(2) by (auto simp: parse_pressure_line_def split: list.splits option.splits if_splits)
  moreover have "line_percents zero_pressure_line"
    by (simp add: line_percents_def zero_pressure_line_def)
  ultimately show ?thesis
    by (rule foldM_inv) (rule pressure_token_percents [OF assms(1)])
qed

lemma pressure_record_ok:
  assumes "common_range_ok c" "scan_ok scan" "pressure_record c scan line = Some scan'"
  shows "scan_ok scan'"
  using assms(2,3) parse_pressure_line_percents [OF assms(1)]
  by (auto simp: pressure_record_def scan_ok_def line_percents_def Let_def
      split: prod.splits if_splits)

lemma pressure_scan_ok:
  assumes "common_range_ok c" "foldM (pressure_record c) (zero_pressure, False, False) lines = Some scan"
  shows "scan_ok scan"
proof -
  have "scan_ok (zero_pressure, False, False)" by (simp add: scan_ok_def zero_pressure_def)
  with assms(2) show ?thesis by (rule foldM_inv) (rule pressure_record_ok [OF assms(1)])
qed

text \<open>The kernel's rendering of one record from its printed fields.\<close>

definition pressure_text :: "string \<Rightarrow> string \<Rightarrow> string \<Rightarrow> string \<Rightarrow> string \<Rightarrow> string" where
  "pressure_text kind a10 a60 a300 total_us =
     join CHR '' '' [kind, ''avg10='' @ a10, ''avg60='' @ a60, ''avg300='' @ a300, ''total='' @ total_us]"

definition printed_field :: "string \<Rightarrow> bool" where
  "printed_field s \<longleftrightarrow> s \<noteq> [] \<and> (\<forall>x\<in>set s. \<not> ascii_space x \<and> x \<noteq> CHR ''='')"

lemma printed_field_plain:
  "printed_field s \<Longrightarrow> x \<in> set s \<Longrightarrow> x \<noteq> CHR '' '' \<and> x \<noteq> TAB \<and> x \<noteq> LF \<and> x \<noteq> CHR ''=''"
  by (auto simp: printed_field_def ascii_space_def)

lemma pressure_token_field:
  assumes "printed_field val" "CHR ''='' \<notin> set key" "key \<noteq> []"
  shows "pressure_token c l (key @ CHR ''='' # val) =
    (let number = infiltratr_parse_double_range c val (Fin 0) (Fin 100) in
     if key = ''avg10'' then
       if pl_have_avg10 l then None
       else map_option (\<lambda>d. l\<lparr>pl_avg10 := d, pl_have_avg10 := True\<rparr>) number
     else if key = ''avg60'' then
       if pl_have_avg60 l then None
       else map_option (\<lambda>d. l\<lparr>pl_avg60 := d, pl_have_avg60 := True\<rparr>) number
     else if key = ''avg300'' then
       if pl_have_avg300 l then None
       else map_option (\<lambda>d. l\<lparr>pl_avg300 := d, pl_have_avg300 := True\<rparr>) number
     else if key = ''total'' then
       if pl_have_total l then None
       else map_option (\<lambda>n. l\<lparr>pl_total_us := n, pl_have_total := True\<rparr>) (infiltratr_parse_u64 c val 10)
     else Some l)"
  using assms printed_field_plain [OF assms(1)]
  by (auto simp: pressure_token_def strchr_split_append printed_field_def)

lemma parse_pressure_text:
  assumes "list_all printed_field [a10, a60, a300, n]" "kind = ''some'' \<or> kind = ''full''"
    and "infiltratr_parse_double_range c a10 (Fin 0) (Fin 100) = Some d10"
    and "infiltratr_parse_double_range c a60 (Fin 0) (Fin 100) = Some d60"
    and "infiltratr_parse_double_range c a300 (Fin 0) (Fin 100) = Some d300"
    and "infiltratr_parse_u64 c n 10 = Some us"
  shows "parse_pressure_line c (pressure_text kind a10 a60 a300 n) kind =
    Some \<lparr>pl_avg10 = d10, pl_avg60 = d60, pl_avg300 = d300, pl_total_us = us,
      pl_have_avg10 = True, pl_have_avg60 = True, pl_have_avg300 = True, pl_have_total = True\<rparr>"
proof -
  have "strtok (\<lambda>x. x = CHR '' '' \<or> x = TAB) (pressure_text kind a10 a60 a300 n) =
      [kind, ''avg10='' @ a10, ''avg60='' @ a60, ''avg300='' @ a300, ''total='' @ n]"
    using assms(1,2) printed_field_plain unfolding pressure_text_def
    by (intro strtok_join) auto
  moreover have "foldM (pressure_token c) zero_pressure_line
      [''avg10='' @ a10, ''avg60='' @ a60, ''avg300='' @ a300, ''total='' @ n] =
      Some \<lparr>pl_avg10 = d10, pl_avg60 = d60, pl_avg300 = d300, pl_total_us = us,
        pl_have_avg10 = True, pl_have_avg60 = True, pl_have_avg300 = True, pl_have_total = True\<rparr>"
    using assms pressure_token_field [of a10 "''avg10''" c] pressure_token_field [of a60 "''avg60''" c]
      pressure_token_field [of a300 "''avg300''" c] pressure_token_field [of n "''total''" c]
    by (simp add: zero_pressure_line_def)
  ultimately show ?thesis by (simp add: parse_pressure_line_def)
qed

lemma pressure_text_shape:
  assumes "list_all printed_field [a10, a60, a300, n]" "kind = ''some'' \<or> kind = ''full''"
  shows "pressure_text kind a10 a60 a300 n \<noteq> []"
    and "LF \<notin> set (pressure_text kind a10 a60 a300 n)"
    and "trim_spaces (pressure_text kind a10 a60 a300 n) = pressure_text kind a10 a60 a300 n"
    and "take 5 (pressure_text kind a10 a60 a300 n) = kind @ '' ''"
proof -
  let ?t = "pressure_text kind a10 a60 a300 n"
  have n: "n \<noteq> []" "\<not> ascii_space (last n)" using assms(1) by (auto simp: printed_field_def)
  show ne: "?t \<noteq> []" and five: "take 5 ?t = kind @ '' ''"
    using assms(2) by (auto simp: pressure_text_def)
  show "LF \<notin> set ?t"
    using assms printed_field_plain unfolding pressure_text_def
    by (auto dest!: set_join [THEN subsetD])
  have l: "last ?t = last n"
    using last_join [of "[kind, ''avg10='' @ a10, ''avg60='' @ a60, ''avg300='' @ a300, ''total='' @ n]" "CHR '' ''"] n
    by (simp add: pressure_text_def)
  have h: "\<not> ascii_space (hd ?t)"
    using assms(2) by (auto simp: pressure_text_def ascii_space_def)
  have "dropWhile ascii_space ?t = ?t" using ne h by (cases ?t) auto
  moreover have "dropWhile ascii_space (rev ?t) = rev ?t"
    using ne l n(2) by (cases "rev ?t") (auto simp: last_conv_nth simp flip: hd_rev)
  ultimately show "trim_spaces ?t = ?t" by (simp add: trim_spaces_def)
qed

lemma pressure_text_records:
  assumes "common_text_ok c" "list_all printed_field [a10, a60, a300, n]"
  shows "is_record c (pressure_text ''some'' a10 a60 a300 n) ''some''"
    and "is_record c (pressure_text ''full'' a10 a60 a300 n) ''full''"
    and "\<not> is_record c (pressure_text ''full'' a10 a60 a300 n) ''some''"
  using assms pressure_text_shape(4) [OF assms(2), of "''some''"]
    pressure_text_shape(4) [OF assms(2), of "''full''"]
  by (auto simp: is_record_def common_text_ok_def starts_with_def pressure_text_def)

subsection \<open>Properties\<close>

text \<open>Parsing pressure records is all-or-nothing: a rejected text leaves the zeroed record
  and an accepted one is available with every average a percentage, the \<^verbatim>\<open>full\<close> figures zero
  unless a \<^verbatim>\<open>full\<close> record was read. A text without a final newline is always rejected.\<close>

theorem pressure_parse_all_or_nothing:
  assumes "common_range_ok c"
  shows "case lsm_pressure_parse c t of (ok, p) \<Rightarrow>
    (\<not> ok \<longrightarrow> p = zero_pressure) \<and>
    (ok \<longrightarrow> psi_available p \<and> (\<exists>s. t = Some (s @ [LF])) \<and>
      list_all is_percent [psi_some_avg10 p, psi_some_avg60 p, psi_some_avg300 p,
        psi_full_avg10 p, psi_full_avg60 p, psi_full_avg300 p] \<and>
      (\<not> psi_full_available p \<longrightarrow> psi_full_avg10 p = Fin 0 \<and> psi_full_avg60 p = Fin 0 \<and>
        psi_full_avg300 p = Fin 0 \<and> psi_full_total_us p = 0))"
proof (cases "fst (lsm_pressure_parse c t)")
  case False
  then show ?thesis
    by (auto simp: lsm_pressure_parse_def split: option.splits if_splits)
next
  case True
  then obtain s p full where t: "t = Some s" "s \<noteq> []" "last s = LF"
    and scan: "foldM (pressure_record c) (zero_pressure, False, False) (strtok is_newline s) =
      Some (p, True, full)"
    by (auto simp: lsm_pressure_parse_def split: option.splits if_splits)
  then have "s = butlast s @ [LF]" by (metis append_butlast_last_id)
  with t scan pressure_scan_ok [OF assms scan] show ?thesis
    by (auto simp: lsm_pressure_parse_def scan_ok_def)
qed

theorem pressure_parse_all_or_nothing_witness:
  "snd (lsm_pressure_parse ref_common (Some ''some avg10=1.0'')) = zero_pressure"
  using pressure_parse_all_or_nothing [OF ref_common_ok(5), of "Some ''some avg10=1.0''"]
  by (simp split: prod.splits)

text \<open>Round trip: the two records as the kernel prints them are parsed back to the printed
  numbers.\<close>

theorem pressure_roundtrip:
  assumes "common_text_ok c"
    and "list_all printed_field [sa, sb, sc, sn]" "list_all printed_field [fa, fb, fc, fn]"
    and "map (\<lambda>s. infiltratr_parse_double_range c s (Fin 0) (Fin 100)) [sa, sb, sc, fa, fb, fc] =
      map Some [sa', sb', sc', fa', fb', fc']"
    and "map (\<lambda>s. infiltratr_parse_u64 c s 10) [sn, fn] = map Some [sn', fn']"
  shows "lsm_pressure_parse c (Some (pressure_text ''some'' sa sb sc sn @ [LF] @
      pressure_text ''full'' fa fb fc fn @ [LF])) =
    (True, \<lparr>psi_available = True, psi_some_avg10 = sa', psi_some_avg60 = sb',
      psi_some_avg300 = sc', psi_some_total_us = sn', psi_full_available = True,
      psi_full_avg10 = fa', psi_full_avg60 = fb', psi_full_avg300 = fc',
      psi_full_total_us = fn'\<rparr>)"
proof -
  let ?s = "pressure_text ''some'' sa sb sc sn" and ?f = "pressure_text ''full'' fa fb fc fn"
  have trim: "infiltratr_trim c = trim_spaces" using assms(1) by (simp add: common_text_ok_def)
  note s = pressure_text_shape [OF assms(2), of "''some''", simplified]
    and f = pressure_text_shape [OF assms(3), of "''full''", simplified]
  have "strtok is_newline (concat (map (\<lambda>l. l @ [LF]) [?s, ?f])) = [?s, ?f]"
    using s f by (intro strtok_lines_append) auto
  then have tok: "strtok is_newline (?s @ [LF] @ ?f @ [LF]) = [?s, ?f]" by simp
  have line: "parse_pressure_line c ?s ''some'' = Some \<lparr>pl_avg10 = sa', pl_avg60 = sb',
      pl_avg300 = sc', pl_total_us = sn', pl_have_avg10 = True, pl_have_avg60 = True,
      pl_have_avg300 = True, pl_have_total = True\<rparr>"
    "parse_pressure_line c ?f ''full'' = Some \<lparr>pl_avg10 = fa', pl_avg60 = fb',
      pl_avg300 = fc', pl_total_us = fn', pl_have_avg10 = True, pl_have_avg60 = True,
      pl_have_avg300 = True, pl_have_total = True\<rparr>"
    using assms(2-5) by (auto intro!: parse_pressure_text)
  show ?thesis
    unfolding lsm_pressure_parse_def using s(1,3) f(1,3)
      pressure_text_records(1) [OF assms(1,2)] pressure_text_records(2,3) [OF assms(1,3)]
    by (simp add: tok [simplified] pressure_record_def trim line Let_def zero_pressure_def)
qed

lemma ref_parse_fields:
  "infiltratr_parse_double_range ref_common ''1.5'' (Fin 0) (Fin 100) = Some (Fin (3 / 2))"
  "infiltratr_parse_double_range ref_common ''0.0'' (Fin 0) (Fin 100) = Some (Fin 0)"
  "infiltratr_parse_u64 ref_common ''42'' 10 = Some 42"
proof -
  have "fl (3 / 2) = Fin (3 / 2)"
    using rnd_dyadic [of 3 "- 1"] by (simp add: fl_exact)
  then show "infiltratr_parse_double_range ref_common ''1.5'' (Fin 0) (Fin 100) = Some (Fin (3 / 2))"
    by (simp add: ref_common_def ref_parse_double_range_def strchr_split_def decimal_value_def
        digit_value_def ascii_digit_def Let_def)
  show "infiltratr_parse_double_range ref_common ''0.0'' (Fin 0) (Fin 100) = Some (Fin 0)"
    by (simp add: ref_common_def ref_parse_double_range_def strchr_split_def decimal_value_def
        digit_value_def ascii_digit_def Let_def)
  show "infiltratr_parse_u64 ref_common ''42'' 10 = Some 42"
    by (simp add: ref_common_def ref_parse_u64_def decimal_value_def digit_value_def ascii_digit_def)
qed

theorem pressure_roundtrip_witness:
  "lsm_pressure_parse ref_common (Some (pressure_text ''some'' ''1.5'' ''0.0'' ''0.0'' ''42'' @ [LF] @
      pressure_text ''full'' ''0.0'' ''0.0'' ''0.0'' ''42'' @ [LF])) =
    (True, \<lparr>psi_available = True, psi_some_avg10 = Fin (3 / 2), psi_some_avg60 = Fin 0,
      psi_some_avg300 = Fin 0, psi_some_total_us = 42, psi_full_available = True,
      psi_full_avg10 = Fin 0, psi_full_avg60 = Fin 0, psi_full_avg300 = Fin 0,
      psi_full_total_us = 42\<rparr>)"
proof -
  have "list_all printed_field [''1.5'', ''0.0'', ''42'']"
    by (simp add: printed_field_def ascii_space_def)
  then show ?thesis
    by (intro pressure_roundtrip [OF ref_common_ok(1)]) (simp_all add: ref_parse_fields)
qed

end
