(* ===== verification/Mountinfo.thy ===== *)
theory Mountinfo
  imports Common_Library Monitor_Types
begin

text \<open>
  \<^verbatim>\<open>src/mountinfo.c\<close>: the parser of \<^verbatim>\<open>/proc/PID/mountinfo\<close>. Fields are separated by white
  space, paths use three-digit octal escapes, and one malformed record makes the whole read
  fail, though the records before it were already delivered to the visitor.
\<close>

record mount_info_entry =
  mi_major_number :: u32
  mi_minor_number :: u32
  mi_source :: string
  mi_target :: string
  mi_filesystem :: string

text \<open>The field (or \<^verbatim>\<open>NULL\<close>) and the moved cursor.\<close>

definition next_field :: "common \<Rightarrow> string \<Rightarrow> string option \<times> string" where
  "next_field c cursor =
     (let start = dropWhile (infiltratr_ascii_is_space c) cursor
      in if start = [] then (None, start)
         else (Some (takeWhile (\<lambda>x. \<not> infiltratr_ascii_is_space c x) start),
               tl (dropWhile (\<lambda>x. \<not> infiltratr_ascii_is_space c x) start)))"

lemma next_field_shorter:
  assumes "next_field c cursor = (Some field, rest)"
  shows "length rest < length cursor"
proof -
  let ?start = "dropWhile (infiltratr_ascii_is_space c) cursor"
  let ?stop = "dropWhile (\<lambda>x. \<not> infiltratr_ascii_is_space c x) ?start"
  have start: "?start \<noteq> []" "rest = tl ?stop"
    using assms by (auto simp: next_field_def Let_def split: if_splits)
  then have "length rest < length ?start"
    using length_dropWhile_le [of "\<lambda>x. \<not> infiltratr_ascii_is_space c x" ?start]
    by (cases "?stop") auto
  also have "\<dots> \<le> length cursor" by (rule length_dropWhile_le)
  finally show ?thesis .
qed

definition parse_device_number :: "common \<Rightarrow> string \<Rightarrow> (u32 \<times> u32) option" where
  "parse_device_number c text =
     (case infiltratr_parse_u64_token c text 10 of
        None \<Rightarrow> None
      | Some (major_value, cursor) \<Rightarrow>
          if char_at cursor 0 \<noteq> CHR '':'' then None
          else case infiltratr_parse_u64_token c (tl cursor) 10 of
              None \<Rightarrow> None
            | Some (minor_value, cursor) \<Rightarrow>
                if cursor \<noteq> [] \<or> 2 ^ 32 \<le> unat major_value \<or> 2 ^ 32 \<le> unat minor_value then None
                else Some (ucast major_value, ucast minor_value))"

abbreviation octal_digit :: "char \<Rightarrow> bool" where
  "octal_digit x \<equiv> of_char x \<in> {48..55::nat}"

definition octal_value :: "char \<Rightarrow> char \<Rightarrow> char \<Rightarrow> nat" where
  "octal_value a b d =
     push_bit 6 (of_char a - 48) OR push_bit 3 (of_char b - 48) OR (of_char d - 48)"

text \<open>The loop from an input position on, with \<open>output\<close> bytes already written.\<close>

fun decode_from :: "nat \<Rightarrow> nat \<Rightarrow> string \<Rightarrow> string option" where
  "decode_from decoded_size output [] = Some []"
| "decode_from decoded_size output (x # rest) =
     (if x = CHR 0x5C then
        case rest of
          a # b # d # rest' \<Rightarrow>
            if \<not> octal_digit a \<or> \<not> octal_digit b \<or> \<not> octal_digit d then None
            else
              let octal = octal_value a b d
              in if octal = 0 \<or> 255 < octal then None
                 else if decoded_size \<le> output + 1 then None
                 else map_option ((#) (char_of octal)) (decode_from decoded_size (output + 1) rest')
        | _ \<Rightarrow> None
      else if decoded_size \<le> output + 1 then None
      else map_option ((#) x) (decode_from decoded_size (output + 1) rest))"

definition decode_mount_field :: "string \<Rightarrow> nat \<Rightarrow> string option" where
  "decode_mount_field encoded decoded_size =
     (if decoded_size = 0 then None else decode_from decoded_size 0 encoded)"

text \<open>Skipping the optional fields up to the separator: the cursor after it.\<close>

function find_separator :: "common \<Rightarrow> string \<Rightarrow> string option" where
  "find_separator c cursor =
     (case next_field c cursor of
        (None, _) \<Rightarrow> None
      | (Some field, rest) \<Rightarrow> if field = ''-'' then Some rest else find_separator c rest)"
  by pat_completeness auto
termination
  by (relation "measure (\<lambda>(c, s). length s)") (auto intro: next_field_shorter dest: sym)

declare find_separator.simps [simp del]

text \<open>The decoding step at the end of \<^verbatim>\<open>parse_mount_line\<close>.\<close>

definition decode_entry ::
  "common \<Rightarrow> string \<Rightarrow> string \<Rightarrow> string \<Rightarrow> string \<Rightarrow> mount_info_entry option" where
  "decode_entry c device_number source target filesystem =
     (case (parse_device_number c device_number, decode_mount_field source LSM_PATH_LEN,
            decode_mount_field target LSM_PATH_LEN, decode_mount_field filesystem 64) of
        (Some (major_number, minor_number), Some src, Some tgt, Some fs) \<Rightarrow>
          Some \<lparr>mi_major_number = major_number, mi_minor_number = minor_number,
            mi_source = src, mi_target = tgt, mi_filesystem = fs\<rparr>
      | _ \<Rightarrow> None)"

definition parse_mount_line :: "common \<Rightarrow> string \<Rightarrow> mount_info_entry option" where
  "parse_mount_line c line =
     (case next_field c line of (mount_id, cursor) \<Rightarrow>
      case next_field c cursor of (parent_id, cursor) \<Rightarrow>
      case next_field c cursor of (device_number, cursor) \<Rightarrow>
      case next_field c cursor of (mount_root, cursor) \<Rightarrow>
      case next_field c cursor of (target, cursor) \<Rightarrow>
      case next_field c cursor of (mount_options, cursor) \<Rightarrow>
        if mount_id = None \<or> parent_id = None \<or> device_number = None \<or> mount_root = None \<or>
           target = None \<or> mount_options = None \<or>
           infiltratr_parse_u64 c (the mount_id) 10 = None \<or>
           infiltratr_parse_u64 c (the parent_id) 10 = None \<or>
           char_at (the mount_root) 0 \<noteq> CHR ''/'' \<or> char_at (the target) 0 \<noteq> CHR ''/''
        then None
        else case find_separator c cursor of
            None \<Rightarrow> None
          | Some cursor \<Rightarrow>
              (case next_field c cursor of (filesystem, cursor) \<Rightarrow>
               case next_field c cursor of (source, cursor) \<Rightarrow>
               case next_field c cursor of (super_options, cursor) \<Rightarrow>
                 if filesystem = None \<or> source = None \<or> super_options = None \<or>
                    fst (next_field c cursor) \<noteq> None
                 then None
                 else decode_entry c (the device_number) (the source) (the target)
                   (the filesystem)))"

text \<open>One record of the stream: newline-terminated and well formed.\<close>

definition complete_record :: "common \<Rightarrow> string \<Rightarrow> mount_info_entry option" where
  "complete_record c line =
     (if line = [] \<or> last line \<noteq> LF then None else parse_mount_line c (c_str line))"

text \<open>The reading loop: the count, \<^verbatim>\<open>stopped_early\<close>, \<^verbatim>\<open>malformed\<close> and the visitor's own state.\<close>

fun visit_records ::
  "common \<Rightarrow> (mount_info_entry \<Rightarrow> 'u \<Rightarrow> bool \<times> 'u) \<Rightarrow> 'u \<Rightarrow> nat \<Rightarrow> string list \<Rightarrow>
     nat \<times> bool \<times> bool \<times> 'u" where
  "visit_records c visitor user count [] = (count, False, False, user)"
| "visit_records c visitor user count (line # lines) =
     (case complete_record c line of
        None \<Rightarrow> (count, False, True, user)
      | Some entry \<Rightarrow>
          (case visitor entry user of
             (False, user) \<Rightarrow> (count + 1, True, False, user)
           | (True, user) \<Rightarrow> visit_records c visitor user (count + 1) lines))"

definition lsm_mountinfo_visit_file_checked ::
  "common \<Rightarrow> (string \<Rightarrow> string \<Rightarrow> text_stream option) \<Rightarrow> string \<Rightarrow>
     (mount_info_entry \<Rightarrow> 'u \<Rightarrow> bool \<times> 'u) \<Rightarrow> 'u \<Rightarrow> bool \<times> nat \<times> 'u" where
  "lsm_mountinfo_visit_file_checked c fopen path visitor user =
     (case (case fopen path ''re'' of None \<Rightarrow> fopen path ''r'' | s \<Rightarrow> s) of
        None \<Rightarrow> (False, 0, user)
      | Some stream \<Rightarrow>
          (case visit_records c visitor user 0 (getline_chunks (ts_content stream)) of
             (count, stopped_early, malformed, user) \<Rightarrow>
               let read_ok = (\<not> ts_error stream); close_ok = ts_close_ok stream
               in (read_ok \<and> close_ok \<and> \<not> stopped_early \<and> \<not> malformed, count, user)))"

subsection \<open>Escaped fields\<close>

text \<open>The kernel's escaping of white space and backslash.\<close>

definition octal_escape :: "char \<Rightarrow> string" where
  "octal_escape x = (let n = of_char x :: nat in
     [CHR 0x5C, char_of (48 + n div 64), char_of (48 + n div 8 mod 8), char_of (48 + n mod 8)])"

definition mount_escape :: "string \<Rightarrow> string" where
  "mount_escape s = concat (map (\<lambda>x. if x \<in> {CHR '' '', TAB, LF, CHR 0x5C} then octal_escape x
     else [x]) s)"

lemma push_bit_or_low: "z < 2 ^ n \<Longrightarrow> push_bit n y OR z = 2 ^ n * y + (z :: nat)"
proof -
  assume "z < 2 ^ n"
  then have z: "take_bit n z = z" by (simp add: take_bit_nat_eq_self)
  have "push_bit n y AND take_bit n z = 0"
    by (rule bit_eqI) (auto simp: bit_simps)
  then have "push_bit n y AND z = 0" by (simp add: z)
  then show ?thesis by (simp add: disjunctive_add_eq_or [symmetric] push_bit_eq_mult)
qed

lemma octal_value_sum:
  assumes "octal_digit a" "octal_digit b" "octal_digit d"
  shows "octal_value a b d = 64 * (of_char a - 48) + 8 * (of_char b - 48) + (of_char d - 48)"
proof -
  have low: "(of_char d - 48 :: nat) < 2 ^ 3" "8 * (of_char b - 48) + (of_char d - 48 :: nat) < 2 ^ 6"
    using assms by auto
  show ?thesis
    unfolding octal_value_def push_bit_or_low [OF low(1)] using push_bit_or_low [OF low(2)] by simp
qed

lemma decode_from_bound: "decode_from cap k s = Some t \<Longrightarrow> k < cap \<Longrightarrow> k + length t < cap"
proof (induction s arbitrary: k t rule: length_induct)
  case (1 s)
  show ?case
  proof (cases s)
    case (Cons x rest)
    then obtain y u rest' where t: "t = y # u" "k + 1 < cap" "decode_from cap (k + 1) rest' = Some u"
      and "length rest' < length s"
      using 1(2) by (auto simp: Let_def split: if_splits list.splits)
    with 1(1) show ?thesis by fastforce
  qed (use 1(2,3) in simp)
qed

lemma of_char_of_small: "n < 256 \<Longrightarrow> (of_char (char_of n :: char) :: nat) = n"
  by simp

lemma decode_octal_escape:
  assumes "x \<noteq> NUL" "k + 1 < cap"
  shows "decode_from cap k (octal_escape x @ rest) = map_option ((#) x) (decode_from cap (k + 1) rest)"
proof -
  define n :: nat where "n = of_char x"
  have n: "n < 256" unfolding n_def by (rule nat_of_char_less_256)
  have "x = char_of n" by (simp add: n_def)
  moreover have "char_of (0 :: nat) = NUL" by (simp add: char_of_def)
  ultimately have "n \<noteq> 0" using assms(1) by metis
  define a b d :: char where "a = char_of (48 + n div 64)" and "b = char_of (48 + n div 8 mod 8)"
    and "d = char_of (48 + n mod 8)"
  have *: "of_char a = 48 + n div 64" "of_char b = 48 + n div 8 mod 8" "of_char d = 48 + n mod 8"
    unfolding a_def b_def d_def using n by (simp_all only: of_char_of_small)
  have digits: "octal_digit a" "octal_digit b" "octal_digit d" unfolding * using n by auto
  have "n div 8 = 8 * (n div 64) + n div 8 mod 8" "n = 8 * (n div 8) + n mod 8"
    using div_mult2_eq [of n 8 8] by simp_all
  then have "octal_value a b d = n"
    unfolding octal_value_sum [OF digits] * add_diff_cancel_left' by linarith
  moreover have "char_of n = x" by (simp add: n_def)
  ultimately show ?thesis
    using assms(2) digits \<open>n \<noteq> 0\<close> n
    by (simp add: octal_escape_def Let_def n_def [symmetric] a_def [symmetric] b_def [symmetric]
        d_def [symmetric] del: of_char_of)
qed

lemma decode_mount_escape:
  "NUL \<notin> set s \<Longrightarrow> k + length s < cap \<Longrightarrow> decode_from cap k (mount_escape s) = Some s"
proof (induction s arbitrary: k)
  case (Cons x s)
  then have IH: "decode_from cap (k + 1) (mount_escape s) = Some s" by simp
  have "k + 1 < cap" "x \<noteq> NUL" using Cons.prems by auto
  then show ?case
    using IH decode_octal_escape [of x k cap "mount_escape s"]
    by (cases "x \<in> {CHR '' '', TAB, LF, CHR 0x5C}") (auto simp: mount_escape_def)
qed (simp add: mount_escape_def)

subsection \<open>Fields are the white-space separated tokens\<close>

lemma next_field_cases:
  assumes "infiltratr_ascii_is_space c = ascii_space"
  obtains "next_field c s = (None, [])" "strtok ascii_space s = []"
  | f r where "next_field c s = (Some f, r)" "strtok ascii_space s = f # strtok ascii_space r"
proof (cases "dropWhile ascii_space s = []")
  case True
  then show ?thesis using that(1) assms by (simp add: next_field_def strtok.simps [of _ s] Let_def)
next
  case False
  then show ?thesis
    using that(2) assms by (simp add: next_field_def strtok.simps [of _ s] Let_def)
qed

lemma find_separator_fields:
  assumes "infiltratr_ascii_is_space c = ascii_space"
  shows "case find_separator c s of
      None \<Rightarrow> dropWhile (\<lambda>f. f \<noteq> ''-'') (strtok ascii_space s) = []
    | Some r \<Rightarrow> dropWhile (\<lambda>f. f \<noteq> ''-'') (strtok ascii_space s) = ''-'' # strtok ascii_space r"
proof (induction s rule: length_induct)
  case (1 s)
  show ?case
  proof (rule next_field_cases [OF assms, of s])
    fix f r assume *: "next_field c s = (Some f, r)" "strtok ascii_space s = f # strtok ascii_space r"
    have "case find_separator c r of
        None \<Rightarrow> dropWhile (\<lambda>f. f \<noteq> ''-'') (strtok ascii_space r) = []
      | Some r' \<Rightarrow> dropWhile (\<lambda>f. f \<noteq> ''-'') (strtok ascii_space r) = ''-'' # strtok ascii_space r'"
      using 1 next_field_shorter [OF *(1)] by blast
    with * show ?thesis
      by (simp add: find_separator.simps [of c s] split: option.splits)
  qed (simp add: find_separator.simps [of c s])
qed

text \<open>The reference reading of a record from its list of fields.\<close>

definition mount_entry_of_fields :: "common \<Rightarrow> string list \<Rightarrow> mount_info_entry option" where
  "mount_entry_of_fields c tokens =
     (case tokens of
        mount_id # parent_id # device # mount_root # target # options # rest \<Rightarrow>
          if infiltratr_parse_u64 c mount_id 10 = None \<or> infiltratr_parse_u64 c parent_id 10 = None \<or>
             char_at mount_root 0 \<noteq> CHR ''/'' \<or> char_at target 0 \<noteq> CHR ''/''
          then None
          else (case dropWhile (\<lambda>f. f \<noteq> ''-'') rest of
              [_, filesystem, source, super_options] \<Rightarrow> decode_entry c device source target filesystem
            | _ \<Rightarrow> None)
      | _ \<Rightarrow> None)"

lemma next_field_Nil [simp]: "next_field c [] = (None, [])"
  by (simp add: next_field_def)

lemma next_fieldD:
  assumes "infiltratr_ascii_is_space c = ascii_space"
  shows "case strtok ascii_space s of
      [] \<Rightarrow> next_field c s = (None, [])
    | f # fs \<Rightarrow> \<exists>r. next_field c s = (Some f, r) \<and> strtok ascii_space r = fs"
  by (rule next_field_cases [OF assms, of s]) auto

lemma three_fields:
  assumes "infiltratr_ascii_is_space c = ascii_space"
  shows "(case next_field c s of (a, s) \<Rightarrow> case next_field c s of (b, s) \<Rightarrow>
      case next_field c s of (d, s) \<Rightarrow>
        if a = None \<or> b = None \<or> d = None \<or> fst (next_field c s) \<noteq> None then None
        else P (the a) (the b) (the d)) =
    (case strtok ascii_space s of [a, b, d] \<Rightarrow> P a b d | _ \<Rightarrow> None)"
proof (rule next_field_cases [OF assms, of s])
  fix a r assume a: "next_field c s = (Some a, r)" "strtok ascii_space s = a # strtok ascii_space r"
  show ?thesis
  proof (rule next_field_cases [OF assms, of r])
    fix b u assume b: "next_field c r = (Some b, u)" "strtok ascii_space r = b # strtok ascii_space u"
    show ?thesis
    proof (rule next_field_cases [OF assms, of u])
      fix d v assume d: "next_field c u = (Some d, v)" "strtok ascii_space u = d # strtok ascii_space v"
      show ?thesis
        by (rule next_field_cases [OF assms, of v]) (simp_all add: a b d)
    qed (simp add: a b)
  qed (simp add: a)
qed simp

lemma six_fields:
  assumes "infiltratr_ascii_is_space c = ascii_space"
  shows "parse_mount_line c line = mount_entry_of_fields c (strtok ascii_space line) \<or>
    (\<exists>f1 f2 f3 f4 f5 f6 r1 r2 r3 r4 r5 r6.
      next_field c line = (Some f1, r1) \<and> next_field c r1 = (Some f2, r2) \<and>
      next_field c r2 = (Some f3, r3) \<and> next_field c r3 = (Some f4, r4) \<and>
      next_field c r4 = (Some f5, r5) \<and> next_field c r5 = (Some f6, r6) \<and>
      strtok ascii_space line = f1 # f2 # f3 # f4 # f5 # f6 # strtok ascii_space r6)"
proof -
  note field = next_field_cases [OF assms] and defs = parse_mount_line_def mount_entry_of_fields_def
  show ?thesis
  proof (rule field [of line])
    fix f1 r1 assume 1: "next_field c line = (Some f1, r1)" "strtok ascii_space line = f1 # strtok ascii_space r1"
    show ?thesis
    proof (rule field [of r1])
      fix f2 r2 assume 2: "next_field c r1 = (Some f2, r2)" "strtok ascii_space r1 = f2 # strtok ascii_space r2"
      show ?thesis
      proof (rule field [of r2])
        fix f3 r3 assume 3: "next_field c r2 = (Some f3, r3)" "strtok ascii_space r2 = f3 # strtok ascii_space r3"
        show ?thesis
        proof (rule field [of r3])
          fix f4 r4 assume 4: "next_field c r3 = (Some f4, r4)" "strtok ascii_space r3 = f4 # strtok ascii_space r4"
          show ?thesis
          proof (rule field [of r4])
            fix f5 r5 assume 5: "next_field c r4 = (Some f5, r5)" "strtok ascii_space r4 = f5 # strtok ascii_space r5"
            show ?thesis
              by (rule field [of r5]) (simp_all add: defs 1 2 3 4 5)
          qed (simp add: defs 1 2 3 4)
        qed (simp add: defs 1 2 3)
      qed (simp add: defs 1 2)
    qed (simp add: defs 1)
  qed (simp add: defs)
qed

lemma parse_mount_line_fields:
  assumes "infiltratr_ascii_is_space c = ascii_space"
  shows "parse_mount_line c line = mount_entry_of_fields c (strtok ascii_space line)"
proof -
  note defs = parse_mount_line_def mount_entry_of_fields_def
  consider "parse_mount_line c line = mount_entry_of_fields c (strtok ascii_space line)"
    | f1 f2 f3 f4 f5 f6 r1 r2 r3 r4 r5 r6 where
      "next_field c line = (Some f1, r1)" "next_field c r1 = (Some f2, r2)"
      "next_field c r2 = (Some f3, r3)" "next_field c r3 = (Some f4, r4)"
      "next_field c r4 = (Some f5, r5)" "next_field c r5 = (Some f6, r6)"
      "strtok ascii_space line = f1 # f2 # f3 # f4 # f5 # f6 # strtok ascii_space r6"
    using six_fields [OF assms, of line] by blast
  then show ?thesis
  proof cases
    case (2 f1 f2 f3 f4 f5 f6 r1 r2 r3 r4 r5 r6)
    show ?thesis
    proof (cases "find_separator c r6")
      case None
      with find_separator_fields [OF assms, of r6]
      have "dropWhile (\<lambda>f. f \<noteq> ''-'') (strtok ascii_space r6) = []" by simp
      with None 2 show ?thesis by (simp add: defs del: dropWhile_eq_Nil_conv)
    next
      case (Some r)
      with find_separator_fields [OF assms, of r6]
      have "dropWhile (\<lambda>f. f \<noteq> ''-'') (strtok ascii_space r6) = ''-'' # strtok ascii_space r" by simp
      with Some 2 show ?thesis
        using three_fields [OF assms, where s = r and P = "\<lambda>fs src _. decode_entry c (the (Some f3)) src (the (Some f5)) fs"]
        by (simp add: defs split: list.split)
    qed
  qed simp
qed

subsection \<open>Properties\<close>

text \<open>The cursor-moving parser reads exactly the white-space separated fields: it agrees,
  on every line, with the reference reading of the token list.\<close>

theorem mount_line_by_fields:
  assumes "common_text_ok c"
  shows "parse_mount_line c line = mount_entry_of_fields c (strtok ascii_space line)"
  using parse_mount_line_fields assms by (simp add: common_text_ok_def)

theorem mount_line_by_fields_witness:
  "parse_mount_line ref_common (join CHR '' '' [''36'', ''35'', ''8:1'']) = None"
  by (subst mount_line_by_fields [OF ref_common_ok(1)], subst strtok_join)
    (simp_all add: mount_entry_of_fields_def ascii_space_def)

text \<open>Round trip of a whole record: whatever the optional fields, the record the kernel
  prints for a mount (paths escaped) is parsed back to its device number, source, target and
  file-system type, as long as these fit their buffers.\<close>

definition plain_field :: "string \<Rightarrow> bool" where
  "plain_field s \<longleftrightarrow> s \<noteq> [] \<and> (\<forall>x\<in>set s. \<not> ascii_space x \<and> x \<noteq> NUL)"

definition mount_text ::
  "string \<Rightarrow> string \<Rightarrow> string \<Rightarrow> string \<Rightarrow> string \<Rightarrow> string \<Rightarrow> string list \<Rightarrow> string \<Rightarrow> string \<Rightarrow> string \<Rightarrow> string" where
  "mount_text mount_id parent_id device mount_root target options optional filesystem source super =
     join CHR '' '' ([mount_id, parent_id, device, mount_root, mount_escape target, options] @
       optional @ [''-'', filesystem, mount_escape source, super]) @ [LF]"

definition path_field :: "string \<Rightarrow> nat \<Rightarrow> bool" where
  "path_field s cap \<longleftrightarrow> s \<noteq> [] \<and> length s < cap \<and> (\<forall>x\<in>set s. x \<noteq> NUL \<and> x \<notin> {CHR 0x0B, CHR 0x0C, CR})"

lemma plain_mount_escape:
  assumes "path_field s cap"
  shows "plain_field (mount_escape s)"
proof -
  have digit: "\<not> ascii_space (char_of (48 + k)) \<and> char_of (48 + k) \<noteq> NUL" if "k < 8" for k :: nat
  proof -
    have "of_char (char_of (48 + k) :: char) = 48 + k" using that by (intro of_char_of_small) simp
    then show ?thesis by (auto simp: ascii_space_def simp del: of_char_of)
  qed
  have "\<not> ascii_space y \<and> y \<noteq> NUL" if "y \<in> set (octal_escape x)" for x y
  proof -
    have "(of_char x :: nat) < 8 * 64" using nat_of_char_less_256 [of x] by linarith
    then have "(of_char x :: nat) div 64 < 8" by (rule less_mult_imp_div_less)
    with digit [of "of_char x div 64"] digit [of "of_char x div 8 mod 8"] digit [of "of_char x mod 8"]
      that show ?thesis by (auto simp: octal_escape_def Let_def ascii_space_def [of "CHR 0x5C"])
  qed
  then have "\<forall>y\<in>set (mount_escape s). \<not> ascii_space y \<and> y \<noteq> NUL"
    using assms by (auto simp: mount_escape_def path_field_def ascii_space_def)
  moreover have "mount_escape s \<noteq> []"
    using assms by (cases s) (auto simp: mount_escape_def path_field_def octal_escape_def Let_def)
  ultimately show ?thesis by (simp add: plain_field_def)
qed

lemma char_at_hd: "s \<noteq> [] \<Longrightarrow> char_at s 0 = hd s"
  by (simp add: char_at_def hd_conv_nth)

lemma hd_mount_escape:
  "s \<noteq> [] \<Longrightarrow> hd s = CHR ''/'' \<Longrightarrow> char_at (mount_escape s) 0 = CHR ''/''"
  by (cases s) (simp_all add: mount_escape_def char_at_def)

lemma decode_plain: "CHR 0x5C \<notin> set s \<Longrightarrow> k + length s < cap \<Longrightarrow> decode_from cap k s = Some s"
  by (induction s arbitrary: k) auto

lemma decode_path: "path_field s cap \<Longrightarrow> decode_mount_field (mount_escape s) cap = Some s"
  unfolding decode_mount_field_def path_field_def by (subst decode_mount_escape) auto

theorem mount_roundtrip:
  assumes "common_text_ok c"
    and "list_all plain_field ([mount_id, parent_id, device, mount_root, options, filesystem, super] @ optional)"
    and "path_field target LSM_PATH_LEN" "path_field source LSM_PATH_LEN" "''-'' \<notin> set optional"
    and "path_field filesystem 64" "CHR 0x5C \<notin> set filesystem"
    and "infiltratr_parse_u64 c mount_id 10 \<noteq> None" "infiltratr_parse_u64 c parent_id 10 \<noteq> None"
    and "hd mount_root = CHR ''/''" "hd target = CHR ''/''"
    and "parse_device_number c device = Some (major_number, minor_number)"
  shows "complete_record c (mount_text mount_id parent_id device mount_root target options optional
      filesystem source super) =
    Some \<lparr>mi_major_number = major_number, mi_minor_number = minor_number, mi_source = source,
      mi_target = target, mi_filesystem = filesystem\<rparr>"
proof -
  let ?fields = "[mount_id, parent_id, device, mount_root, mount_escape target, options] @
    optional @ [''-'', filesystem, mount_escape source, super]"
  let ?text = "mount_text mount_id parent_id device mount_root target options optional filesystem source super"
  have plain: "\<forall>f\<in>set ?fields. plain_field f"
    using assms(2) plain_mount_escape [OF assms(3)] plain_mount_escape [OF assms(4)]
    by (auto simp: list_all_iff plain_field_def ascii_space_def)
  have "strtok ascii_space ?text = ?fields"
    unfolding mount_text_def using plain
    by (intro strtok_join_end) (auto simp: plain_field_def ascii_space_def)
  moreover have "char_at mount_root 0 = CHR ''/''" "char_at (mount_escape target) 0 = CHR ''/''"
    using assms(2,3,10,11) by (simp_all add: char_at_hd plain_field_def path_field_def hd_mount_escape)
  moreover have "decode_mount_field filesystem 64 = Some filesystem"
    using assms(6,7) by (simp add: decode_mount_field_def decode_plain path_field_def)
  moreover have "dropWhile (\<lambda>f. f \<noteq> ''-'') (optional @ [''-'', filesystem, mount_escape source, super]) =
      [''-'', filesystem, mount_escape source, super]"
    using assms(5) by (subst dropWhile_append_stop) auto
  ultimately have "mount_entry_of_fields c (strtok ascii_space ?text) =
    Some \<lparr>mi_major_number = major_number, mi_minor_number = minor_number, mi_source = source,
      mi_target = target, mi_filesystem = filesystem\<rparr>"
    using assms(5,8,9,12) decode_path [OF assms(3)] decode_path [OF assms(4)]
    by (simp add: mount_entry_of_fields_def decode_entry_def)
  moreover have "NUL \<notin> set (join CHR '' '' ?fields)"
    using plain unfolding plain_field_def by (intro notin_join) blast+
  then have "NUL \<notin> set ?text" by (simp add: mount_text_def)
  then have "c_str ?text = ?text" unfolding c_str_def by (auto simp: takeWhile_eq_all_conv)
  moreover have "?text \<noteq> []" "last ?text = LF" by (simp_all add: mount_text_def)
  ultimately show ?thesis
    using assms(1) by (simp add: complete_record_def parse_mount_line_fields common_text_ok_def)
qed

lemma ref_device_number: "parse_device_number ref_common ''8:1'' = Some (8, 1)"
  by (simp add: parse_device_number_def ref_common_def ref_parse_u64_token_def ref_parse_u64_def
      decimal_value_def digit_value_def ascii_digit_def ascii_space_def char_at_def Let_def)

lemma ref_mount_ids:
  "infiltratr_parse_u64 ref_common ''36'' 10 \<noteq> None" "infiltratr_parse_u64 ref_common ''35'' 10 \<noteq> None"
  by (simp_all add: ref_common_def ref_parse_u64_def decimal_value_def digit_value_def ascii_digit_def)

theorem mount_roundtrip_witness:
  "complete_record ref_common (mount_text ''36'' ''35'' ''8:1'' ''/'' ''/my disk'' ''rw'' [''shared:1'']
     ''ext4'' ''/dev/sda1'' ''rw'') =
   Some \<lparr>mi_major_number = 8, mi_minor_number = 1, mi_source = ''/dev/sda1'',
     mi_target = ''/my disk'', mi_filesystem = ''ext4''\<rparr>"
  by (rule mount_roundtrip [OF ref_common_ok(1)])
    (simp_all add: plain_field_def path_field_def ascii_space_def LSM_PATH_LEN_def ref_mount_ids
      ref_device_number)

text \<open>The visitor's verdicts on a sequence of entries.\<close>

definition accept_entry :: "('e \<Rightarrow> 'u \<Rightarrow> bool \<times> 'u) \<Rightarrow> 'u \<Rightarrow> 'e \<Rightarrow> 'u option" where
  "accept_entry visitor user entry =
     (case visitor entry user of (ok, user') \<Rightarrow> if ok then Some user' else None)"

lemma ex_map_Some_Cons:
  "(\<exists>es. map f (x # xs) = map Some es \<and> P es) \<longleftrightarrow>
   (\<exists>e es. f x = Some e \<and> map f xs = map Some es \<and> P (e # es))"
proof
  assume "\<exists>es. map f (x # xs) = map Some es \<and> P es"
  then obtain es where "map f (x # xs) = map Some es" "P es" by blast
  then show "\<exists>e es. f x = Some e \<and> map f xs = map Some es \<and> P (e # es)" by (cases es) auto
next
  assume "\<exists>e es. f x = Some e \<and> map f xs = map Some es \<and> P (e # es)"
  then obtain e es where "map f (x # xs) = map Some (e # es)" "P (e # es)" by auto
  then show "\<exists>es. map f (x # xs) = map Some es \<and> P es" by blast
qed

lemma visit_records_complete:
  "visit_records c visitor user k lines = (n, False, False, user') \<longleftrightarrow>
   (\<exists>entries. map (complete_record c) lines = map Some entries \<and> n = k + length entries \<and>
     foldM (accept_entry visitor) user entries = Some user')"
proof (induction lines arbitrary: user k)
  case Nil
  then show ?case by auto
next
  case (Cons line lines)
  show ?case
    unfolding ex_map_Some_Cons
    by (cases "complete_record c line")
      (simp_all add: Cons accept_entry_def [of visitor user] split: prod.split bool.split)
qed

text \<open>A read is reported complete exactly when the stream was opened, read and closed
  without error, every line of it is a newline-terminated well-formed record, and the visitor
  accepted each record in order; then the visitor saw all of them and the count is their
  number.\<close>

theorem mountinfo_visit_complete:
  "lsm_mountinfo_visit_file_checked c fopen path visitor user = (True, n, user') \<longleftrightarrow>
   (\<exists>stream entries.
     (fopen path ''re'' = Some stream \<or> fopen path ''re'' = None \<and> fopen path ''r'' = Some stream) \<and>
     \<not> ts_error stream \<and> ts_close_ok stream \<and>
     map (complete_record c) (getline_chunks (ts_content stream)) = map Some entries \<and>
     n = length entries \<and> foldM (accept_entry visitor) user entries = Some user')"
proof -
  have "lsm_mountinfo_visit_file_checked c fopen path visitor user = (True, n, user') \<longleftrightarrow>
    (\<exists>stream. (fopen path ''re'' = Some stream \<or> fopen path ''re'' = None \<and> fopen path ''r'' = Some stream) \<and>
      \<not> ts_error stream \<and> ts_close_ok stream \<and>
      visit_records c visitor user 0 (getline_chunks (ts_content stream)) = (n, False, False, user'))"
    by (auto simp: lsm_mountinfo_visit_file_checked_def Let_def split: option.splits prod.splits)
  then show ?thesis by (simp add: visit_records_complete)
qed

end
