(* ===== verification/Thermal_Policy.thy ===== *)
theory Thermal_Policy
  imports Common_Library Monitor_Types
begin

text \<open>
  \<^verbatim>\<open>src/thermal_policy.c\<close>: the warning and fault temperatures of a processor, from its sensor
  limits, else a model table, else fixed fallbacks. The arithmetic is C's double arithmetic.
\<close>

datatype thermal_policy_source =
  THERMAL_POLICY_FALLBACK | THERMAL_POLICY_MODEL_TABLE | THERMAL_POLICY_SENSOR

record thermal_policy =
  tp_warning_c :: double
  tp_fault_c :: double
  tp_source :: thermal_policy_source

definition cpu_thermal_table :: "(string \<times> double) list" where
  "cpu_thermal_table =
     [(''Core(TM) Ultra 5 125U'', Fin 110), (''Core(TM) Ultra 5 135U'', Fin 110),
      (''Core(TM) Ultra 7 155U'', Fin 110), (''Core(TM) Ultra 7 165U'', Fin 110),
      (''Ryzen 7 7800X3D'', Fin 89), (''Ryzen 9 7950X3D'', Fin 89), (''Ryzen 7 9800X3D'', Fin 95),
      (''Ryzen 9 9950X3D'', Fin 95), (''Ryzen 7 7700X'', Fin 95), (''Ryzen 9 9950X'', Fin 95)]"

definition valid_limit :: "double \<Rightarrow> bool" where
  "valid_limit celsius \<longleftrightarrow> isfinite celsius \<and> dle (Fin 50) celsius \<and> dle celsius (Fin 150)"

definition table_limit :: "common \<Rightarrow> string \<Rightarrow> double option" where
  "table_limit c model =
     (if model = [] then None
      else map_option snd
        (find (\<lambda>entry. infiltratr_ascii_contains_ci c model (fst entry)) cpu_thermal_table))"

definition table_policy :: "common \<Rightarrow> cpu_info \<Rightarrow> double \<times> double \<times> thermal_policy_source" where
  "table_policy c cpu =
     (case table_limit c (cpu_model cpu) of
        Some table_critical \<Rightarrow>
          if valid_limit table_critical
          then (dsub table_critical (Fin 10), table_critical, THERMAL_POLICY_MODEL_TABLE)
          else (Fin 80, Fin 95, THERMAL_POLICY_FALLBACK)
      | None \<Rightarrow> (Fin 80, Fin 95, THERMAL_POLICY_FALLBACK))"

definition sensor_policy ::
  "cpu_info \<Rightarrow> double \<times> double \<times> thermal_policy_source \<Rightarrow> double \<times> double \<times> thermal_policy_source" where
  "sensor_policy cpu policy =
     (let have_sensor_warning = (cpu_temperature_warning_available cpu \<and>
            valid_limit (cpu_temperature_warning_c cpu));
          have_sensor_critical = (cpu_temperature_critical_available cpu \<and>
            valid_limit (cpu_temperature_critical_c cpu))
      in if have_sensor_warning \<and> have_sensor_critical
         then (cpu_temperature_warning_c cpu, cpu_temperature_critical_c cpu, THERMAL_POLICY_SENSOR)
         else if have_sensor_warning then
           let warning = cpu_temperature_warning_c cpu;
               fault = dadd warning (Fin 10)
           in (warning, if dless (Fin 150) fault then Fin 150 else fault, THERMAL_POLICY_SENSOR)
         else if have_sensor_critical then
           let fault = cpu_temperature_critical_c cpu
           in (dsub fault (Fin 10), fault, THERMAL_POLICY_SENSOR)
         else policy)"

definition lsm_cpu_thermal_policy :: "common \<Rightarrow> cpu_info \<Rightarrow> thermal_policy" where
  "lsm_cpu_thermal_policy c cpu =
     (case sensor_policy cpu (table_policy c cpu) of (warning, fault, source) \<Rightarrow>
        let warning = (if dless warning (Fin 50) then Fin 50 else warning);
            warning = (if dle fault warning then dsub fault (Fin 5) else warning)
        in \<lparr>tp_warning_c = warning, tp_fault_c = fault, tp_source = source\<rparr>)"

subsection \<open>Thresholds stay ordered\<close>

lemma valid_limitE:
  assumes "valid_limit d"
  obtains r where "d = Fin r" "50 \<le> r" "r \<le> 150"
  using assms by (cases d) (auto simp: valid_limit_def)

lemma dsub_between:
  assumes "rnd lo = lo" "rnd hi = hi" "\<bar>lo\<bar> < 2 ^ 1024" "\<bar>hi\<bar> < 2 ^ 1024" "lo \<le> a - b" "a - b \<le> hi"
  shows "\<exists>r. dsub (Fin a) (Fin b) = Fin r \<and> lo \<le> r \<and> r \<le> hi"
  using fl_between [OF assms(1-4), of "a - b"] assms(5,6) by (simp add: dsub_def)

text \<open>Subtracting five from a limit gives a strictly smaller double, whatever the rounding: an
  integer lies between.\<close>

lemma dsub_5_less:
  assumes "50 \<le> f" "f \<le> 150"
  shows "\<exists>r. dsub (Fin f) (Fin 5) = Fin r \<and> 45 \<le> r \<and> r < f"
proof -
  define n where "n = \<lceil>f\<rceil> - 1"
  have n: "of_int n < f" "f - 5 \<le> of_int n" "\<bar>n\<bar> \<le> 150" "\<bar>of_int n :: rat\<bar> \<le> 150"
    using assms by (auto simp: n_def abs_le_iff) linarith+
  have "rnd (of_int n) = of_int n" using n(3) by (intro rnd_of_int) simp
  then obtain r where "dsub (Fin f) (Fin 5) = Fin r" "45 \<le> r" "r \<le> of_int n"
    using dsub_between [of 45 "of_int n" f 5] n assms by (auto simp: dbl_simps)
  with n(1) show ?thesis by auto
qed

definition limits_ok :: "double \<times> double \<times> thermal_policy_source \<Rightarrow> bool" where
  "limits_ok p \<longleftrightarrow> (\<exists>w f. fst p = Fin w \<and> fst (snd p) = Fin f \<and> 40 \<le> w \<and> w \<le> 150 \<and> 50 \<le> f \<and> f \<le> 150)"

lemma dsub_10_limit:
  assumes "valid_limit d"
  shows "limits_ok (dsub d (Fin 10), d, source)"
proof -
  obtain f where f: "d = Fin f" "50 \<le> f" "f \<le> 150" using assms by (rule valid_limitE)
  then show ?thesis
    using dsub_between [of 40 140 f 10] by (auto simp: limits_ok_def dbl_simps)
qed

lemma dadd_10_limit:
  assumes "valid_limit d"
  shows "limits_ok (d, if dless (Fin 150) (dadd d (Fin 10)) then Fin 150 else dadd d (Fin 10), source)"
proof -
  obtain w where w: "d = Fin w" "50 \<le> w" "w \<le> 150" using assms by (rule valid_limitE)
  have "\<exists>r. fl (w + 10) = Fin r \<and> 60 \<le> r \<and> r \<le> 160"
    using w by (intro fl_between) (auto simp: dbl_simps)
  then show ?thesis using w by (auto simp: limits_ok_def)
qed

lemma table_policy_ok: "limits_ok (table_policy c cpu)"
  using dsub_10_limit
  by (auto simp: table_policy_def limits_ok_def [of "(Fin 80, Fin 95, _)"] split: option.split)

lemma sensor_policy_ok: "limits_ok p \<Longrightarrow> limits_ok (sensor_policy cpu p)"
  using dsub_10_limit dadd_10_limit
  by (auto simp: sensor_policy_def Let_def limits_ok_def [of "(cpu_temperature_warning_c _, cpu_temperature_critical_c _, _)"]
      elim!: valid_limitE)

subsection \<open>Properties\<close>

text \<open>Whatever the sensors report (non-finite and contradictory limits included) and
  whatever the model string, the policy has two finite thresholds with the warning strictly
  below the fault, the fault within 50 to 150 degrees and the warning at least 45; a valid
  critical sensor limit is the fault threshold unchanged, and the source is the sensor exactly
  when one of its limits is valid.\<close>

theorem thermal_policy_ordered:
  "let p = lsm_cpu_thermal_policy c cpu;
       critical = (cpu_temperature_critical_available cpu \<and> valid_limit (cpu_temperature_critical_c cpu));
       warning = (cpu_temperature_warning_available cpu \<and> valid_limit (cpu_temperature_warning_c cpu))
   in dless (tp_warning_c p) (tp_fault_c p) \<and> dle (Fin 45) (tp_warning_c p) \<and>
     valid_limit (tp_fault_c p) \<and>
     (if critical then tp_fault_c p = cpu_temperature_critical_c cpu else True) \<and>
     (tp_source p = THERMAL_POLICY_SENSOR \<longleftrightarrow> critical \<or> warning)"
proof -
  obtain w f source where p: "sensor_policy cpu (table_policy c cpu) = (w, f, source)"
    by (cases "sensor_policy cpu (table_policy c cpu)")
  obtain w' f' where wf: "w = Fin w'" "f = Fin f'" "40 \<le> w'" "w' \<le> 150" "50 \<le> f'" "f' \<le> 150"
    using sensor_policy_ok [OF table_policy_ok [of c cpu], of cpu] p by (auto simp: limits_ok_def)
  have source: "source = THERMAL_POLICY_SENSOR \<longleftrightarrow>
      cpu_temperature_critical_available cpu \<and> valid_limit (cpu_temperature_critical_c cpu) \<or>
      cpu_temperature_warning_available cpu \<and> valid_limit (cpu_temperature_warning_c cpu)"
    and fault: "cpu_temperature_critical_available cpu \<Longrightarrow> valid_limit (cpu_temperature_critical_c cpu) \<Longrightarrow>
      cpu_temperature_critical_c cpu = f"
    using p by (auto simp: sensor_policy_def table_policy_def Let_def split: if_splits option.splits)
  define v where "v = (if w' < 50 then 50 else w')"
  obtain r where r: "dsub (Fin f') (Fin 5) = Fin r" "45 \<le> r" "r < f'"
    using dsub_5_less wf by blast
  define p where "p = lsm_cpu_thermal_policy c cpu"
  have eq: "p = \<lparr>tp_warning_c = (if f' \<le> v then Fin r else Fin v), tp_fault_c = Fin f', tp_source = source\<rparr>"
    by (simp add: p_def lsm_cpu_thermal_policy_def p wf r(1) v_def)
  have "45 \<le> v" using wf by (simp add: v_def)
  then have "dless (tp_warning_c p) (tp_fault_c p)" "dle (Fin 45) (tp_warning_c p)"
    "valid_limit (tp_fault_c p)" "tp_fault_c p = f" "tp_source p = source"
    using r(2,3) wf by (auto simp: eq valid_limit_def)
  then show ?thesis
    unfolding Let_def p_def [symmetric] using source fault by metis
qed

end
