(* ===== verification/Gpu_Metrics.thy ===== *)
theory Gpu_Metrics
  imports Ieee_Double Monitor_Types
begin

text \<open>
  \<^verbatim>\<open>src/gpu_metrics.c\<close>: which GPU series a graph can show and their values. A \<^verbatim>\<open>NULL\<close> GPU is
  \<open>None\<close>; the output array of a selection is the list of its entries, and the array argument
  of \<open>lsm_gpu_selectable_metrics\<close>, which may be \<^verbatim>\<open>NULL\<close>, an option.
\<close>

datatype gpu_metric =
  GPU_METRIC_OVERALL | GPU_METRIC_RENDER | GPU_METRIC_COMPUTE | GPU_METRIC_VIDEO
| GPU_METRIC_VIDEO_ENHANCE | GPU_METRIC_COPY | GPU_METRIC_MEMORY_BUSY | GPU_METRIC_ENCODER
| GPU_METRIC_DECODER | GPU_METRIC_COUNT

definition detailed_metric_order :: "gpu_metric list" where
  "detailed_metric_order =
     [GPU_METRIC_RENDER, GPU_METRIC_COMPUTE, GPU_METRIC_VIDEO, GPU_METRIC_VIDEO_ENHANCE,
      GPU_METRIC_COPY, GPU_METRIC_ENCODER, GPU_METRIC_DECODER, GPU_METRIC_MEMORY_BUSY]"

fun lsm_gpu_metric_name :: "gpu_metric \<Rightarrow> string" where
  "lsm_gpu_metric_name GPU_METRIC_OVERALL = ''Overall''"
| "lsm_gpu_metric_name GPU_METRIC_RENDER = ''Render''"
| "lsm_gpu_metric_name GPU_METRIC_COMPUTE = ''Compute''"
| "lsm_gpu_metric_name GPU_METRIC_VIDEO = ''Video''"
| "lsm_gpu_metric_name GPU_METRIC_VIDEO_ENHANCE = ''Video Enhance''"
| "lsm_gpu_metric_name GPU_METRIC_COPY = ''Copy''"
| "lsm_gpu_metric_name GPU_METRIC_MEMORY_BUSY = ''Memory Busy''"
| "lsm_gpu_metric_name GPU_METRIC_ENCODER = ''Video Encode''"
| "lsm_gpu_metric_name GPU_METRIC_DECODER = ''Video Decode''"
| "lsm_gpu_metric_name GPU_METRIC_COUNT = ''Unknown''"

definition lsm_gpu_metric_available :: "gpu_info option \<Rightarrow> gpu_metric \<Rightarrow> bool" where
  "lsm_gpu_metric_available gpu metric =
     (case gpu of
        None \<Rightarrow> False
      | Some g \<Rightarrow>
          (case metric of
             GPU_METRIC_OVERALL \<Rightarrow> gpu_utilization_available g
           | GPU_METRIC_RENDER \<Rightarrow> gpu_render_available g
           | GPU_METRIC_COMPUTE \<Rightarrow> gpu_compute_available g
           | GPU_METRIC_VIDEO \<Rightarrow> gpu_video_available g
           | GPU_METRIC_VIDEO_ENHANCE \<Rightarrow> gpu_video_enhance_available g
           | GPU_METRIC_COPY \<Rightarrow> gpu_copy_available g
           | GPU_METRIC_MEMORY_BUSY \<Rightarrow> gpu_memory_busy_available g
           | GPU_METRIC_ENCODER \<Rightarrow> gpu_encoder_available g
           | GPU_METRIC_DECODER \<Rightarrow> gpu_decoder_available g
           | GPU_METRIC_COUNT \<Rightarrow> False))"

fun raw_metric_value :: "gpu_info \<Rightarrow> gpu_metric \<Rightarrow> double" where
  "raw_metric_value g GPU_METRIC_OVERALL = gpu_utilization_percent g"
| "raw_metric_value g GPU_METRIC_RENDER = gpu_render_percent g"
| "raw_metric_value g GPU_METRIC_COMPUTE = gpu_compute_percent g"
| "raw_metric_value g GPU_METRIC_VIDEO = gpu_video_percent g"
| "raw_metric_value g GPU_METRIC_VIDEO_ENHANCE = gpu_video_enhance_percent g"
| "raw_metric_value g GPU_METRIC_COPY = gpu_copy_percent g"
| "raw_metric_value g GPU_METRIC_MEMORY_BUSY = gpu_memory_busy_percent g"
| "raw_metric_value g GPU_METRIC_ENCODER = gpu_encoder_percent g"
| "raw_metric_value g GPU_METRIC_DECODER = gpu_decoder_percent g"
| "raw_metric_value g GPU_METRIC_COUNT = Fin 0"

definition lsm_gpu_metric_value :: "gpu_info option \<Rightarrow> gpu_metric \<Rightarrow> double" where
  "lsm_gpu_metric_value gpu metric =
     (if \<not> lsm_gpu_metric_available gpu metric then Fin 0
      else case gpu of
          None \<Rightarrow> Fin 0
        | Some g \<Rightarrow>
            let val = raw_metric_value g metric
            in if \<not> isfinite val then Fin 0
               else if dless val (Fin 0) then Fin 0
               else if dless (Fin 100) val then Fin 100
               else val)"

text \<open>\<^verbatim>\<open>if (metrics && count < capacity) metrics[count] = metric; count++\<close>.\<close>

definition emit_metric ::
  "nat \<Rightarrow> gpu_metric list option \<times> nat \<Rightarrow> gpu_metric \<Rightarrow> gpu_metric list option \<times> nat" where
  "emit_metric capacity out metric =
     (case out of (metrics, count) \<Rightarrow>
        (map_option (\<lambda>m. if count < capacity then m[count := metric] else m) metrics, count + 1))"

definition lsm_gpu_selectable_metrics ::
  "gpu_info option \<Rightarrow> gpu_metric list option \<Rightarrow> nat \<Rightarrow> gpu_metric list option \<times> nat" where
  "lsm_gpu_selectable_metrics gpu metrics capacity =
     (if gpu = None then (metrics, 0)
      else
        let out = foldl (\<lambda>out metric. if \<not> lsm_gpu_metric_available gpu metric then out
                    else emit_metric capacity out metric) (metrics, 0) detailed_metric_order
        in if lsm_gpu_metric_available gpu GPU_METRIC_OVERALL
           then emit_metric capacity out GPU_METRIC_OVERALL else out)"

definition lsm_gpu_has_engine_metrics :: "gpu_info option \<Rightarrow> bool" where
  "lsm_gpu_has_engine_metrics gpu \<longleftrightarrow>
     gpu \<noteq> None \<and> list_ex (lsm_gpu_metric_available gpu) detailed_metric_order"

text \<open>The array is \<open>capacity\<close> entries long; the loop stops once it is full.\<close>

definition lsm_gpu_default_metrics ::
  "gpu_info option \<Rightarrow> gpu_metric list \<Rightarrow> nat \<Rightarrow> gpu_metric list" where
  "lsm_gpu_default_metrics gpu metrics capacity =
     (if capacity = 0 then metrics
      else
        let (metrics, count) = foldl (\<lambda>(m, count) metric.
              if count < capacity \<and> lsm_gpu_metric_available gpu metric
              then (m[count := metric], count + 1) else (m, count)) (metrics, 0) detailed_metric_order;
            (metrics, count) = (if count < capacity \<and> lsm_gpu_metric_available gpu GPU_METRIC_OVERALL
              then (metrics[count := GPU_METRIC_OVERALL], count + 1) else (metrics, count));
            fallback = (if 0 < count then metrics ! 0 else GPU_METRIC_OVERALL)
        in foldl (\<lambda>m i. m[i := fallback]) metrics [count..<capacity])"

subsection \<open>Selections\<close>

text \<open>The series a GPU offers, in the order of preference.\<close>

definition offered_metrics :: "gpu_info option \<Rightarrow> gpu_metric list" where
  "offered_metrics gpu =
     filter (lsm_gpu_metric_available gpu) (detailed_metric_order @ [GPU_METRIC_OVERALL])"

text \<open>Writing a list over the first cells of an array, as far as it fits.\<close>

definition overlay :: "'a list \<Rightarrow> 'a list \<Rightarrow> 'a list" where
  "overlay xs m = take (length m) xs @ drop (length xs) m"

lemma length_overlay [simp]: "length (overlay xs m) = length m"
  by (simp add: overlay_def)

lemma overlay_Nil [simp]: "overlay [] m = m"
  by (simp add: overlay_def)

lemma overlay_snoc:
  "overlay (xs @ [x]) m = (if length xs < length m then (overlay xs m)[length xs := x] else overlay xs m)"
  by (auto simp: overlay_def list_update_append Cons_nth_drop_Suc [symmetric] min_def)

lemma emit_fold:
  "length m = capacity \<Longrightarrow>
   foldl (\<lambda>out metric. if \<not> P metric then out else emit_metric capacity out metric)
     (Some m, 0) ms = (Some (overlay (filter P ms) m), length (filter P ms))"
  by (induction ms rule: rev_induct) (auto simp: emit_metric_def overlay_snoc)

lemma default_fold:
  "length m = capacity \<Longrightarrow>
   foldl (\<lambda>(m, count) metric. if count < capacity \<and> P metric then (m[count := metric], count + 1)
       else (m, count)) (m, 0) ms =
     (overlay (filter P ms) m, min capacity (length (filter P ms)))"
  by (induction ms rule: rev_induct) (auto simp: overlay_snoc min_def not_less)

lemma fill_fold:
  "n \<le> length m \<Longrightarrow> foldl (\<lambda>m i. m[i := x]) m [n..<length m] = take n m @ replicate (length m - n) x"
proof (induction "length m - n" arbitrary: n m)
  case (Suc k)
  then have n: "n < length m" by simp
  have "foldl (\<lambda>m i. m[i := x]) (m[n := x]) [Suc n..<length (m[n := x])] =
      take (Suc n) (m[n := x]) @ replicate (length (m[n := x]) - Suc n) x"
    using Suc(2) n by (intro Suc(1)) auto
  with n show ?case
    by (simp add: upt_conv_Cons take_Suc_conv_app_nth replicate_Suc [symmetric] Suc_diff_Suc del: replicate_Suc)
qed simp

lemma default_metrics_overlay:
  assumes "length m = capacity" "0 < capacity"
  shows "lsm_gpu_default_metrics gpu m capacity =
    (let offered = offered_metrics gpu; n = min capacity (length offered)
     in take n (overlay offered m) @ replicate (capacity - n)
       (if 0 < n then overlay offered m ! 0 else GPU_METRIC_OVERALL))"
proof -
  define d where "d = filter (lsm_gpu_metric_available gpu) detailed_metric_order"
  have first: "foldl (\<lambda>(m, count) metric. if count < capacity \<and> lsm_gpu_metric_available gpu metric
      then (m[count := metric], count + 1) else (m, count)) (m, 0) detailed_metric_order =
      (overlay d m, min capacity (length d))"
    unfolding d_def by (rule default_fold [OF assms(1)])
  have second: "(if min capacity (length d) < capacity \<and> lsm_gpu_metric_available gpu GPU_METRIC_OVERALL
      then ((overlay d m)[min capacity (length d) := GPU_METRIC_OVERALL], min capacity (length d) + 1)
      else (overlay d m, min capacity (length d))) =
      (overlay (offered_metrics gpu) m, min capacity (length (offered_metrics gpu)))"
    using assms(1) by (auto simp: offered_metrics_def d_def [symmetric] overlay_snoc min_def)
  show ?thesis
    unfolding lsm_gpu_default_metrics_def first second
    using assms fill_fold [of "min capacity (length (offered_metrics gpu))" "overlay (offered_metrics gpu) m"]
    by (simp add: Let_def second [simplified])
qed

subsection \<open>Properties\<close>

text \<open>The graph slots are always fully initialised: they show the offered series in order
  of preference, as many as fit, and the rest repeat the first one (or overall utilisation
  when nothing is offered); the list of selectable series is the offered ones exactly, written
  as far as the array reaches, and every value shown is a percentage.\<close>

theorem gpu_selection:
  "lsm_gpu_default_metrics gpu slots (length slots) =
     take (length slots) (offered_metrics gpu @
       replicate (length slots) (hd (offered_metrics gpu @ [GPU_METRIC_OVERALL]))) \<and>
   lsm_gpu_selectable_metrics gpu (Some slots) (length slots) =
     (Some (overlay (offered_metrics gpu) slots), length (offered_metrics gpu)) \<and>
   (lsm_gpu_has_engine_metrics gpu \<longleftrightarrow> set (offered_metrics gpu) - {GPU_METRIC_OVERALL} \<noteq> {}) \<and>
   is_percent (lsm_gpu_metric_value gpu metric)"
proof (intro conjI)
  let ?o = "offered_metrics gpu"
  show "lsm_gpu_default_metrics gpu slots (length slots) =
     take (length slots) (?o @ replicate (length slots) (hd (?o @ [GPU_METRIC_OVERALL])))"
  proof (cases "slots = []")
    case True
    then show ?thesis by (simp add: lsm_gpu_default_metrics_def)
  next
    case False
    then show ?thesis
      by (subst default_metrics_overlay) (auto simp: Let_def overlay_def min_def hd_append hd_conv_nth nth_append)
  qed
  show "lsm_gpu_selectable_metrics gpu (Some slots) (length slots) =
     (Some (overlay ?o slots), length ?o)"
  proof (cases gpu)
    case None
    then show ?thesis
      by (simp add: lsm_gpu_selectable_metrics_def offered_metrics_def lsm_gpu_metric_available_def)
  next
    case (Some g)
    then show ?thesis
      by (auto simp: lsm_gpu_selectable_metrics_def offered_metrics_def emit_fold emit_metric_def
          overlay_snoc Let_def)
  qed
  show "lsm_gpu_has_engine_metrics gpu \<longleftrightarrow> set ?o - {GPU_METRIC_OVERALL} \<noteq> {}"
    by (auto simp: lsm_gpu_has_engine_metrics_def offered_metrics_def detailed_metric_order_def
        lsm_gpu_metric_available_def split: option.splits)
  show "is_percent (lsm_gpu_metric_value gpu metric)"
    by (cases gpu; cases "raw_metric_value (the gpu) metric")
      (auto simp: lsm_gpu_metric_value_def Let_def is_percent_def)
qed

end
