(* ===== verification/Snapshot_Mailbox.thy ===== *)
theory Snapshot_Mailbox
  imports Monitor_Types "HOL-Library.Sublist"
begin

text \<open>
  The contract of the snapshot hand-off between a process-scanning worker and the user
  interface, kept by the Linux scanner and the Windows runtime alike. The mailbox holds at
  most one completed snapshot: publishing replaces what it holds, taking empties it, and
  everything else leaves it alone. The client learns that a take returns the newest snapshot
  published since the previous take, that nothing is delivered twice and nothing older is.
\<close>

type_synonym snapshot = "process_info list"

datatype 'op mailbox_event = Publish snapshot | Take | Other 'op

text \<open>What the taker should have received: per take, the newest snapshot published since the
  take before it, if there was one.\<close>

fun expected :: "snapshot option \<Rightarrow> 'op mailbox_event list \<Rightarrow> snapshot list \<times> snapshot option" where
  "expected held [] = ([], held)"
| "expected held (Publish v # es) = expected (Some v) es"
| "expected held (Take # es) =
     (case expected None es of (got, rest) \<Rightarrow>
        ((case held of None \<Rightarrow> [] | Some v \<Rightarrow> [v]) @ got, rest))"
| "expected held (Other a # es) = expected held es"

text \<open>Every delivered snapshot was published, and in that order: deliveries are a subsequence
  of the publications.\<close>

definition published :: "'op mailbox_event list \<Rightarrow> snapshot list" where
  "published es = List.map_filter (\<lambda>e. case e of Publish v \<Rightarrow> Some v | _ \<Rightarrow> None) es"

lemma expected_subseq:
  "subseq (fst (expected held es)) ((case held of None \<Rightarrow> [] | Some v \<Rightarrow> [v]) @ published es)"
proof (induction held es rule: expected.induct)
  case (2 held v es)
  then have "subseq (fst (expected (Some v) es)) (v # published es)" by simp
  then show ?case
    by (simp add: published_def List.map_filter_simps list_emb_append2)
next
  case (3 held es)
  then show ?case
    by (auto simp: published_def List.map_filter_simps split: prod.split option.split)
next
  case (4 held a es)
  then show ?case by (simp add: published_def List.map_filter_simps)
qed simp

locale snapshot_mailbox =
  fixes content :: "'s \<Rightarrow> snapshot option"
    and publish :: "snapshot \<Rightarrow> 's \<Rightarrow> 's"
    and take_op :: "'s \<Rightarrow> snapshot option \<times> 's"
    and other :: "'op \<Rightarrow> 's \<Rightarrow> 's"
    and inv :: "'s \<Rightarrow> bool"
  assumes publish_content: "inv s \<Longrightarrow> content (publish v s) = Some v"
    and take_result: "inv s \<Longrightarrow> fst (take_op s) = content s"
    and take_empties: "inv s \<Longrightarrow> content (snd (take_op s)) = None"
    and other_content: "inv s \<Longrightarrow> content (other a s) = content s"
    and inv_publish: "inv s \<Longrightarrow> inv (publish v s)"
    and inv_take: "inv s \<Longrightarrow> inv (snd (take_op s))"
    and inv_other: "inv s \<Longrightarrow> inv (other a s)"
begin

fun mailbox_step :: "'s \<times> snapshot list \<Rightarrow> 'op mailbox_event \<Rightarrow> 's \<times> snapshot list" where
  "mailbox_step (s, got) (Publish v) = (publish v s, got)"
| "mailbox_step (s, got) Take =
     (snd (take_op s), got @ (case fst (take_op s) of None \<Rightarrow> [] | Some v \<Rightarrow> [v]))"
| "mailbox_step (s, got) (Other a) = (other a s, got)"

lemma mailbox_run:
  assumes "inv s"
  shows "inv (fst (foldl mailbox_step (s, got) es)) \<and>
    snd (foldl mailbox_step (s, got) es) = got @ fst (expected (content s) es) \<and>
    content (fst (foldl mailbox_step (s, got) es)) = snd (expected (content s) es)"
  using assms
proof (induction es arbitrary: s got)
  case (Cons e es)
  then show ?case
    by (cases e) (auto simp: publish_content take_result take_empties other_content inv_publish
        inv_take inv_other split: prod.split)
qed simp

theorem deliveries_subseq:
  assumes "inv s" "content s = None"
  shows "subseq (snd (foldl mailbox_step (s, []) es)) (published es)"
  using mailbox_run [OF assms(1), of "[]" es] expected_subseq [of None es] assms(2) by simp

end

end
