(* ===== verification/Ref_Counted.thy ===== *)
theory Ref_Counted
  imports Prelude
begin

text \<open>
  The contract of the reference counts that own the background workers (the process scanner
  and the process recorder): releasing drops one reference and frees the object when it was the
  last. The client counts the parties that hold a reference and learns that the object is freed
  exactly once, by the last of them.
\<close>

locale ref_counted =
  fixes refs :: "'s \<Rightarrow> nat" and freed :: "'s \<Rightarrow> nat" and release :: "'s \<Rightarrow> 's"
  assumes release_refs: "refs (release s) = refs s - 1"
    and release_freed: "freed (release s) = freed s + (if refs s = 1 then 1 else 0)"
begin

text \<open>The count is right when it is the number of holders and the object has been freed once if
  there are none.\<close>

definition counted_by :: "nat \<Rightarrow> 's \<Rightarrow> bool" where
  "counted_by holders s \<longleftrightarrow> refs s = holders \<and> freed s = (if holders = 0 then 1 else 0)"

lemma counted_release: "counted_by (Suc n) s \<Longrightarrow> counted_by n (release s)"
  by (simp add: counted_by_def release_refs release_freed)

lemma counted_live: "counted_by n s \<Longrightarrow> 0 < n \<Longrightarrow> freed s = 0"
  by (simp add: counted_by_def)

text \<open>However many parties release their reference, the object is freed by the last only.\<close>

lemma counted_release_all: "counted_by n s \<Longrightarrow> k \<le> n \<Longrightarrow> counted_by (n - k) ((release ^^ k) s)"
proof (induction k)
  case (Suc k)
  then have "counted_by (Suc (n - Suc k)) ((release ^^ k) s)" by (simp add: Suc_diff_Suc)
  then show ?case using counted_release by simp
qed simp

end

end
