(* ===== verification/Process_Scanner.thy ===== *)
theory Process_Scanner
  imports Snapshot_Mailbox Ref_Counted
begin

text \<open>
  \<^verbatim>\<open>src/process_scanner.c\<close>: the detached worker thread that scans processes on request. Each
  section of the code that runs under the scanner's mutex is one definition on the scanner
  record; \<open>scanner_step\<close> interleaves them in every order the threads allow. The worker, the
  owning application, every idle source queued on the main loop and every dispatch whose
  destroy notification has not run hold one reference each. The field \<open>sc_freed\<close> counts how
  often the memory was freed: it has no counterpart in the code.
\<close>

definition LSM_PROCESS_SCAN_NONE :: u32 where "LSM_PROCESS_SCAN_NONE = 0"
definition LSM_PROCESS_SCAN_EXECUTABLE :: u32 where "LSM_PROCESS_SCAN_EXECUTABLE = 1"

text \<open>Callbacks and their data are addresses; a snapshot pointer with its count is a list.\<close>

record process_scanner =
  sc_completed :: "snapshot option"
  sc_requested_flags :: u32
  sc_active_flags :: u32
  sc_references :: nat
  sc_ready_callback :: "nat option"
  sc_ready_callback_data :: nat
  sc_request_pending :: bool
  sc_scan_in_progress :: bool
  sc_result_ready :: bool
  sc_ready_dispatch_pending :: bool
  sc_stop_requested :: bool
  sc_freed :: nat

definition scanner_release :: "process_scanner \<Rightarrow> process_scanner" where
  "scanner_release scanner =
     (let previous = sc_references scanner;
          scanner = scanner\<lparr>sc_references := previous - 1\<rparr>
      in if previous \<noteq> 1 then scanner
         else scanner\<lparr>sc_completed := None, sc_freed := sc_freed scanner + 1\<rparr>)"

definition scanner_retain :: "process_scanner \<Rightarrow> process_scanner" where
  "scanner_retain scanner = scanner\<lparr>sc_references := sc_references scanner + 1\<rparr>"

text \<open>The callback to run with its data, if any, and the scanner after the locked section.\<close>

definition scanner_ready_dispatch ::
  "process_scanner \<Rightarrow> (nat \<times> nat) option \<times> process_scanner" where
  "scanner_ready_dispatch scanner =
     (let scanner = scanner\<lparr>sc_ready_dispatch_pending := False\<rparr>
      in (if sc_stop_requested scanner then None
          else map_option (\<lambda>callback. (callback, sc_ready_callback_data scanner))
            (sc_ready_callback scanner),
          scanner))"

text \<open>The worker's first locked section: wait, stop, or begin a scan with these flags.\<close>

datatype worker_decision = Wait | Stop | Scan u32

definition scanner_next_request :: "process_scanner \<Rightarrow> worker_decision \<times> process_scanner" where
  "scanner_next_request scanner =
     (if \<not> sc_request_pending scanner \<and> \<not> sc_stop_requested scanner then (Wait, scanner)
      else if sc_stop_requested scanner then (Stop, scanner)
      else
        let flags = sc_requested_flags scanner
        in (Scan flags, scanner\<lparr>sc_active_flags := flags, sc_request_pending := False,
              sc_scan_in_progress := True\<rparr>))"

text \<open>The second one, with what the scan returned: whether the loop breaks, and whether a
  dispatch is to be queued.\<close>

definition scanner_finish_scan ::
  "snapshot option \<Rightarrow> process_scanner \<Rightarrow> bool \<times> bool \<times> process_scanner" where
  "scanner_finish_scan processes scanner =
     (let scanner = scanner\<lparr>sc_scan_in_progress := False\<rparr>
      in if sc_stop_requested scanner then (True, False, scanner)
         else case processes of
             None \<Rightarrow> (False, False, scanner)
           | Some list \<Rightarrow>
               let scanner = scanner\<lparr>sc_completed := Some list, sc_result_ready := True\<rparr>
               in if sc_ready_callback scanner \<noteq> None \<and> \<not> sc_ready_dispatch_pending scanner
                  then (False, True, scanner_retain (scanner\<lparr>sc_ready_dispatch_pending := True\<rparr>))
                  else (False, False, scanner))"

text \<open>The outcome of the calls that can fail on creation; every failure undoes what was done
  and returns \<^verbatim>\<open>NULL\<close>.\<close>

record create_outcome =
  co_mutex_init :: bool
  co_cond_init :: bool
  co_backend :: bool
  co_thread :: bool
  co_detach :: bool

definition new_scanner :: process_scanner where
  "new_scanner = \<lparr>sc_completed = None, sc_requested_flags = LSM_PROCESS_SCAN_EXECUTABLE,
     sc_active_flags = 0, sc_references = 2, sc_ready_callback = None, sc_ready_callback_data = 0,
     sc_request_pending = True, sc_scan_in_progress = False, sc_result_ready = False,
     sc_ready_dispatch_pending = False, sc_stop_requested = False, sc_freed = 0\<rparr>"

definition lsm_process_scanner_create :: "create_outcome \<Rightarrow> process_scanner option" where
  "lsm_process_scanner_create outcome =
     (if \<not> co_mutex_init outcome then None
      else if \<not> co_cond_init outcome then None
      else if \<not> co_backend outcome then None
      else if \<not> co_thread outcome then None
      else if \<not> co_detach outcome then None
      else Some new_scanner)"

text \<open>The result tells whether a dispatch is to be queued.\<close>

definition lsm_process_scanner_set_ready_callback ::
  "nat option \<Rightarrow> nat \<Rightarrow> process_scanner \<Rightarrow> bool \<times> process_scanner" where
  "lsm_process_scanner_set_ready_callback callback user_data scanner =
     (if sc_stop_requested scanner then (False, scanner)
      else
        let scanner = scanner\<lparr>sc_ready_callback := callback,
              sc_ready_callback_data := (if callback \<noteq> None then user_data else 0)\<rparr>
        in if callback \<noteq> None \<and> sc_result_ready scanner \<and> \<not> sc_ready_dispatch_pending scanner
           then (True, scanner_retain (scanner\<lparr>sc_ready_dispatch_pending := True\<rparr>))
           else (False, scanner))"

text \<open>The returned value, whether the condition was signalled, and the scanner.\<close>

definition lsm_process_scanner_request ::
  "u32 \<Rightarrow> process_scanner \<Rightarrow> bool \<times> bool \<times> process_scanner" where
  "lsm_process_scanner_request scan_flags scanner =
     (if sc_stop_requested scanner then (False, False, scanner)
      else if sc_scan_in_progress scanner then
        if scan_flags = sc_active_flags scanner
        then (True, False, scanner\<lparr>sc_request_pending := False\<rparr>)
        else (True, False, scanner\<lparr>sc_requested_flags := scan_flags, sc_request_pending := True\<rparr>)
      else
        let scanner = scanner\<lparr>sc_requested_flags := scan_flags\<rparr>
        in if \<not> sc_request_pending scanner
           then (True, True, scanner\<lparr>sc_request_pending := True\<rparr>)
           else (True, False, scanner))"

definition lsm_process_scanner_take ::
  "process_scanner \<Rightarrow> snapshot option \<times> process_scanner" where
  "lsm_process_scanner_take scanner =
     (if \<not> sc_result_ready scanner then (None, scanner)
      else (sc_completed scanner, scanner\<lparr>sc_completed := None, sc_result_ready := False\<rparr>))"

text \<open>The locked section of destruction (which signals the condition); the release follows.\<close>

definition scanner_stop :: "process_scanner \<Rightarrow> process_scanner" where
  "scanner_stop scanner = scanner\<lparr>sc_stop_requested := True, sc_ready_callback := None,
     sc_ready_callback_data := 0, sc_request_pending := False\<rparr>"

definition lsm_process_scanner_destroy :: "process_scanner \<Rightarrow> process_scanner" where
  "lsm_process_scanner_destroy scanner = scanner_release (scanner_stop scanner)"

subsection \<open>The threads\<close>

text \<open>Where the worker and the owner are: before the lock at the head of the loop, blocked in
  \<^verbatim>\<open>pthread_cond_wait\<close>, scanning, about to queue a dispatch, out of the loop with the reference
  still held, gone. The owner may be between the locked section and the release of
  \<^verbatim>\<open>lsm_process_scanner_destroy\<close>.\<close>

datatype worker_pc = At_Head | Blocked | Scanning u32 | Queueing | Leaving | Exited
datatype owner_pc = Owning | Releasing | Gone

record scanner_world =
  w_scanner :: process_scanner
  w_worker :: worker_pc
  w_owner :: owner_pc
  w_queued :: nat
  w_running :: nat
  w_callbacks :: "(nat \<times> nat) list"

datatype scanner_action = Worker_Action | Loop_Action | Owner_Action

text \<open>Signalling the condition wakes a blocked worker.\<close>

definition wake :: "bool \<Rightarrow> worker_pc \<Rightarrow> worker_pc" where
  "wake signal pc = (if signal \<and> pc = Blocked then At_Head else pc)"

definition start_world :: "process_scanner \<Rightarrow> scanner_world" where
  "start_world scanner = \<lparr>w_scanner = scanner, w_worker = At_Head, w_owner = Owning, w_queued = 0,
     w_running = 0, w_callbacks = []\<rparr>"

inductive scanner_step :: "scanner_world \<Rightarrow> scanner_action \<Rightarrow> scanner_world \<Rightarrow> bool" where
  block: "w_worker w = At_Head \<Longrightarrow> scanner_next_request (w_scanner w) = (Wait, s) \<Longrightarrow>
    scanner_step w Worker_Action (w\<lparr>w_scanner := s, w_worker := Blocked\<rparr>)"
| spurious: "w_worker w = Blocked \<Longrightarrow> scanner_step w Worker_Action (w\<lparr>w_worker := At_Head\<rparr>)"
| stop: "w_worker w = At_Head \<Longrightarrow> scanner_next_request (w_scanner w) = (Stop, s) \<Longrightarrow>
    scanner_step w Worker_Action (w\<lparr>w_scanner := s, w_worker := Leaving\<rparr>)"
| scan: "w_worker w = At_Head \<Longrightarrow> scanner_next_request (w_scanner w) = (Scan flags, s) \<Longrightarrow>
    scanner_step w Worker_Action (w\<lparr>w_scanner := s, w_worker := Scanning flags\<rparr>)"
| finish: "w_worker w = Scanning flags \<Longrightarrow>
    scanner_finish_scan result (w_scanner w) = (broke, dispatch, s) \<Longrightarrow>
    scanner_step w Worker_Action (w\<lparr>w_scanner := s,
      w_worker := (if broke then Leaving else if dispatch then Queueing else At_Head)\<rparr>)"
| queue: "w_worker w = Queueing \<Longrightarrow>
    scanner_step w Worker_Action (w\<lparr>w_worker := At_Head, w_queued := w_queued w + 1\<rparr>)"
| leave: "w_worker w = Leaving \<Longrightarrow>
    scanner_step w Worker_Action (w\<lparr>w_scanner := scanner_release (w_scanner w), w_worker := Exited\<rparr>)"
| dispatch: "0 < w_queued w \<Longrightarrow> scanner_ready_dispatch (w_scanner w) = (callback, s) \<Longrightarrow>
    scanner_step w Loop_Action (w\<lparr>w_scanner := s, w_queued := w_queued w - 1,
      w_running := w_running w + 1,
      w_callbacks := w_callbacks w @ (case callback of None \<Rightarrow> [] | Some c \<Rightarrow> [c])\<rparr>)"
| dispatch_destroy: "0 < w_running w \<Longrightarrow>
    scanner_step w Loop_Action (w\<lparr>w_scanner := scanner_release (w_scanner w),
      w_running := w_running w - 1\<rparr>)"
| set_callback: "w_owner w = Owning \<Longrightarrow>
    lsm_process_scanner_set_ready_callback callback user_data (w_scanner w) = (dispatch, s) \<Longrightarrow>
    scanner_step w Owner_Action (w\<lparr>w_scanner := s,
      w_queued := w_queued w + (if dispatch then 1 else 0)\<rparr>)"
| request: "w_owner w = Owning \<Longrightarrow>
    lsm_process_scanner_request flags (w_scanner w) = (accepted, signal, s) \<Longrightarrow>
    scanner_step w Owner_Action (w\<lparr>w_scanner := s, w_worker := wake signal (w_worker w)\<rparr>)"
| take: "w_owner w = Owning \<Longrightarrow> lsm_process_scanner_take (w_scanner w) = (taken, s) \<Longrightarrow>
    scanner_step w Owner_Action (w\<lparr>w_scanner := s\<rparr>)"
| destroy: "w_owner w = Owning \<Longrightarrow>
    scanner_step w Owner_Action (w\<lparr>w_scanner := scanner_stop (w_scanner w), w_owner := Releasing,
      w_worker := wake True (w_worker w)\<rparr>)"
| owner_release: "w_owner w = Releasing \<Longrightarrow>
    scanner_step w Owner_Action (w\<lparr>w_scanner := scanner_release (w_scanner w), w_owner := Gone\<rparr>)"

inductive scanner_reachable :: "scanner_world \<Rightarrow> bool" where
  created: "lsm_process_scanner_create outcome = Some scanner \<Longrightarrow> scanner_reachable (start_world scanner)"
| stepped: "scanner_reachable w \<Longrightarrow> scanner_step w action w' \<Longrightarrow> scanner_reachable w'"

subsection \<open>The invariant\<close>

text \<open>Dispatches promised but not yet run, and everyone who holds a reference.\<close>

definition promised :: "scanner_world \<Rightarrow> nat" where
  "promised w = w_queued w + (if w_worker w = Queueing then 1 else 0)"

definition holders :: "scanner_world \<Rightarrow> nat" where
  "holders w = (if w_owner w = Gone then 0 else 1) + (if w_worker w = Exited then 0 else 1) +
     w_running w + promised w"

interpretation scanner_refs: ref_counted sc_references sc_freed scanner_release
  by unfold_locales (simp_all add: scanner_release_def Let_def)

definition counted :: "scanner_world \<Rightarrow> bool" where
  "counted w \<longleftrightarrow> scanner_refs.counted_by (holders w) (w_scanner w)"

definition flags_ok :: "scanner_world \<Rightarrow> bool" where
  "flags_ok w \<longleftrightarrow>
     promised w = (if sc_ready_dispatch_pending (w_scanner w) then 1 else 0) \<and>
     (sc_stop_requested (w_scanner w) \<longleftrightarrow> w_owner w \<noteq> Owning) \<and>
     (w_worker w = Blocked \<longrightarrow> \<not> sc_request_pending (w_scanner w) \<and> \<not> sc_stop_requested (w_scanner w)) \<and>
     (w_worker w = Leaving \<or> w_worker w = Exited \<longrightarrow> sc_stop_requested (w_scanner w)) \<and>
     (sc_scan_in_progress (w_scanner w) \<longleftrightarrow> (\<exists>flags. w_worker w = Scanning flags)) \<and>
     (\<forall>flags. w_worker w = Scanning flags \<longrightarrow> sc_active_flags (w_scanner w) = flags)"

lemma release_flags [simp]:
  "sc_stop_requested (scanner_release s) = sc_stop_requested s"
  "sc_request_pending (scanner_release s) = sc_request_pending s"
  "sc_ready_dispatch_pending (scanner_release s) = sc_ready_dispatch_pending s"
  "sc_scan_in_progress (scanner_release s) = sc_scan_in_progress s"
  "sc_active_flags (scanner_release s) = sc_active_flags s"
  by (simp_all add: scanner_release_def Let_def)

lemma holders_pos: "scanner_step w a w' \<Longrightarrow> 0 < holders w"
  by (auto simp: holders_def promised_def elim!: scanner_step.cases)

lemmas scanner_defs = scanner_next_request_def scanner_finish_scan_def scanner_ready_dispatch_def
  lsm_process_scanner_set_ready_callback_def lsm_process_scanner_request_def
  lsm_process_scanner_take_def scanner_stop_def scanner_retain_def wake_def Let_def

lemma counted_release_step:
  assumes "counted w" "w_scanner w' = scanner_release (w_scanner w)" "holders w = Suc (holders w')"
  shows "counted w'"
  using assms scanner_refs.counted_release unfolding counted_def by metis

lemma counted_step:
  assumes "scanner_step w a w'" "counted w"
  shows "counted w'"
  using assms(1)
proof cases
  case leave
  then show ?thesis
    by (intro counted_release_step [OF assms(2)]) (auto simp: holders_def promised_def)
next
  case dispatch_destroy
  then show ?thesis
    by (intro counted_release_step [OF assms(2)]) (auto simp: holders_def promised_def)
next
  case owner_release
  then show ?thesis
    by (intro counted_release_step [OF assms(2)]) (auto simp: holders_def promised_def)
qed (use assms(2) in \<open>auto simp: counted_def scanner_refs.counted_by_def holders_def promised_def
    scanner_defs split: if_splits option.splits\<close>)

lemma flags_step:
  assumes "scanner_step w a w'" "flags_ok w"
  shows "flags_ok w'"
  using assms
proof cases
  case (finish flags result broke dispatch s)
  with assms(2) show ?thesis
    by (auto simp: flags_ok_def promised_def scanner_defs split: if_splits option.splits)
next
  case (set_callback callback user_data dispatch s)
  with assms(2) show ?thesis
    by (auto simp: flags_ok_def promised_def scanner_defs split: if_splits)
next
  case (request flags accepted signal s)
  with assms(2) show ?thesis
    by (auto simp: flags_ok_def promised_def scanner_defs split: if_splits)
qed (use assms(2) in \<open>auto simp: flags_ok_def promised_def scanner_defs split: if_splits\<close>)

lemma reachable_invariant: "scanner_reachable w \<Longrightarrow> counted w \<and> flags_ok w"
proof (induction rule: scanner_reachable.induct)
  case (created outcome scanner)
  then have "scanner = new_scanner" by (simp add: lsm_process_scanner_create_def split: if_splits)
  then show ?case
    by (simp add: counted_def scanner_refs.counted_by_def flags_ok_def holders_def promised_def start_world_def new_scanner_def)
next
  case (stepped w action w')
  then show ?case using counted_step flags_step by blast
qed

subsection \<open>After destruction\<close>

inductive scanner_run :: "scanner_world \<Rightarrow> nat \<Rightarrow> scanner_world \<Rightarrow> bool" where
  idle: "scanner_run w 0 w"
| step: "scanner_run w n w' \<Longrightarrow> scanner_step w' a w'' \<Longrightarrow> scanner_run w (Suc n) w''"

text \<open>A bound on the steps left once the owner has stopped the scanner.\<close>

fun worker_rank :: "worker_pc \<Rightarrow> nat" where
  "worker_rank Exited = 0"
| "worker_rank Leaving = 1"
| "worker_rank (Scanning flags) = 2"
| "worker_rank At_Head = 2"
| "worker_rank Blocked = 3"
| "worker_rank Queueing = 5"

definition remaining :: "scanner_world \<Rightarrow> nat" where
  "remaining w = worker_rank (w_worker w) + 2 * w_queued w + w_running w +
     (if w_owner w = Gone then 0 else 1)"

lemma stopped_step:
  assumes "flags_ok w" "w_owner w \<noteq> Owning" "scanner_step w a w'"
  shows "remaining w' < remaining w \<and> w_owner w' \<noteq> Owning \<and> w_callbacks w' = w_callbacks w"
  using assms(3)
proof cases
  case (finish flags result broke dispatch s)
  with assms(1,2) show ?thesis by (auto simp: remaining_def flags_ok_def scanner_defs)
next
  case (dispatch callback s)
  with assms(1,2) show ?thesis by (auto simp: remaining_def flags_ok_def scanner_defs)
qed (use assms(1,2) in \<open>auto simp: remaining_def flags_ok_def scanner_next_request_def Let_def
    split: if_splits\<close>)

lemma run_reachable: "scanner_run w n w' \<Longrightarrow> scanner_reachable w \<Longrightarrow> scanner_reachable w'"
  by (induction rule: scanner_run.induct) (auto intro: scanner_reachable.stepped)

lemma stopped_run:
  assumes "scanner_run w n w'" "scanner_reachable w" "w_owner w \<noteq> Owning"
  shows "n + remaining w' \<le> remaining w \<and> w_owner w' \<noteq> Owning \<and> w_callbacks w' = w_callbacks w"
  using assms
proof (induction rule: scanner_run.induct)
  case (step w n w' a w'')
  then have "flags_ok w'" using run_reachable reachable_invariant by blast
  with stopped_step [OF this _ step.hyps(2)] step show ?case by auto
qed simp

text \<open>As long as someone holds a reference, something can still happen.\<close>

lemma holder_steps:
  assumes "0 < holders w" "w_owner w \<noteq> Owning"
  shows "\<exists>a w'. scanner_step w a w'"
proof -
  consider "w_owner w = Releasing" | "w_worker w \<noteq> Exited" | "0 < w_running w" | "0 < w_queued w"
    using assms by (cases "w_owner w") (auto simp: holders_def promised_def split: if_splits)
  then show ?thesis
  proof cases
    case 2
    then show ?thesis
    proof (cases "w_worker w")
      case At_Head
      then show ?thesis
        by (cases "scanner_next_request (w_scanner w)"; cases "fst (scanner_next_request (w_scanner w))")
          (auto intro: block stop scan)
    next
      case (Scanning flags)
      then show ?thesis
        by (cases "scanner_finish_scan None (w_scanner w)") (blast intro: finish)
    qed (auto intro: spurious queue leave)
  next
    case 4
    then show ?thesis by (cases "scanner_ready_dispatch (w_scanner w)") (blast intro: dispatch)
  qed (blast intro: owner_release dispatch_destroy)+
qed

subsection \<open>The snapshot mailbox\<close>

datatype scanner_op = Request u32 | Next_Request | Ready_Dispatch | Set_Callback "nat option" nat
  | Failed_Scan

fun scanner_other :: "scanner_op \<Rightarrow> process_scanner \<Rightarrow> process_scanner" where
  "scanner_other (Request flags) s = snd (snd (lsm_process_scanner_request flags s))"
| "scanner_other Next_Request s = snd (scanner_next_request s)"
| "scanner_other Ready_Dispatch s = snd (scanner_ready_dispatch s)"
| "scanner_other (Set_Callback cb data) s = snd (lsm_process_scanner_set_ready_callback cb data s)"
| "scanner_other Failed_Scan s = snd (snd (scanner_finish_scan None s))"

definition scanner_content :: "process_scanner \<Rightarrow> snapshot option" where
  "scanner_content s = (if sc_result_ready s then sc_completed s else None)"

definition scanner_publish :: "snapshot \<Rightarrow> process_scanner \<Rightarrow> process_scanner" where
  "scanner_publish v s = snd (snd (scanner_finish_scan (Some v) s))"

lemma scanner_other_keeps:
  "sc_result_ready (scanner_other a s) = sc_result_ready s \<and>
   sc_completed (scanner_other a s) = sc_completed s \<and>
   sc_stop_requested (scanner_other a s) = sc_stop_requested s"
  by (cases a) (simp_all add: scanner_defs)

interpretation scanner_mail: snapshot_mailbox scanner_content scanner_publish
  lsm_process_scanner_take scanner_other "\<lambda>s. \<not> sc_stop_requested s"
  by unfold_locales
    (auto simp: scanner_content_def scanner_publish_def scanner_finish_scan_def scanner_retain_def
      lsm_process_scanner_take_def Let_def scanner_other_keeps)

fun scanner_event ::
  "process_scanner \<times> snapshot list \<Rightarrow> scanner_op mailbox_event \<Rightarrow> process_scanner \<times> snapshot list" where
  "scanner_event (s, got) (Publish v) = (scanner_publish v s, got)"
| "scanner_event (s, got) Take =
     (case lsm_process_scanner_take s of (taken, s') \<Rightarrow>
        (s', got @ (case taken of None \<Rightarrow> [] | Some v \<Rightarrow> [v])))"
| "scanner_event (s, got) (Other a) = (scanner_other a s, got)"

lemma scanner_event_mailbox: "scanner_event = scanner_mail.mailbox_step"
proof (intro ext)
  fix p e show "scanner_event p e = scanner_mail.mailbox_step p e"
    by (cases p; cases e) (simp_all split: prod.split)
qed

text \<open>The flags of the newest request that is still to be answered: waiting, or being scanned
  for.\<close>

definition newest_flags :: "process_scanner \<Rightarrow> u32 option" where
  "newest_flags s = (if sc_request_pending s then Some (sc_requested_flags s)
     else if sc_scan_in_progress s then Some (sc_active_flags s) else None)"

subsection \<open>Properties\<close>

text \<open>C20. Lifetime: in every state the threads can reach, the reference count is the number of
  parties that still hold one, the scanner has been freed exactly once if there are none and
  not at all otherwise, and no thread takes a step that touches a freed scanner.\<close>

theorem scanner_lifetime:
  assumes "scanner_reachable w"
  shows "sc_references (w_scanner w) = holders w \<and>
    sc_freed (w_scanner w) = (if holders w = 0 then 1 else 0) \<and>
    (\<forall>a w'. scanner_step w a w' \<longrightarrow> sc_freed (w_scanner w) = 0)"
proof -
  have "counted w" using assms reachable_invariant by blast
  then show ?thesis using holders_pos [of w] by (auto simp: counted_def scanner_refs.counted_by_def)
qed

lemma example_reachable: "scanner_reachable (start_world new_scanner)"
  by (rule scanner_reachable.created [of "\<lparr>co_mutex_init = True, co_cond_init = True,
        co_backend = True, co_thread = True, co_detach = True\<rparr>"])
    (simp add: lsm_process_scanner_create_def)

theorem scanner_lifetime_witness:
  "sc_references (w_scanner (start_world new_scanner)) = holders (start_world new_scanner)"
  using scanner_lifetime [OF example_reachable] by blast

text \<open>C21. No lost wake-up: the worker is never asleep while a request or the stop flag is
  waiting for it, although requests made during a scan and repeated requests do not signal.\<close>

theorem scanner_no_lost_wakeup:
  assumes "scanner_reachable w" "w_worker w = Blocked"
  shows "\<not> sc_request_pending (w_scanner w) \<and> \<not> sc_stop_requested (w_scanner w)"
  using assms reachable_invariant by (auto simp: flags_ok_def)

definition asleep_world :: scanner_world where
  "asleep_world = (start_world new_scanner)\<lparr>w_worker := Blocked,
     w_scanner := new_scanner\<lparr>sc_request_pending := False, sc_active_flags := 1\<rparr>\<rparr>"

lemma asleep_reachable: "scanner_reachable asleep_world"
proof -
  define s1 where "s1 = new_scanner\<lparr>sc_active_flags := LSM_PROCESS_SCAN_EXECUTABLE,
    sc_request_pending := False, sc_scan_in_progress := True\<rparr>"
  define w1 where "w1 = (start_world new_scanner)\<lparr>w_scanner := s1, w_worker := Scanning LSM_PROCESS_SCAN_EXECUTABLE\<rparr>"
  have 1: "scanner_step (start_world new_scanner) Worker_Action w1"
    unfolding w1_def s1_def
    by (rule scan) (simp_all add: start_world_def new_scanner_def scanner_next_request_def)
  define s2 where "s2 = s1\<lparr>sc_scan_in_progress := False\<rparr>"
  define w2 where "w2 = w1\<lparr>w_scanner := s2, w_worker := (if False then Leaving else if False then Queueing else At_Head)\<rparr>"
  have 2: "scanner_step w1 Worker_Action w2"
    unfolding w2_def
    by (rule finish [where result = None and flags = LSM_PROCESS_SCAN_EXECUTABLE])
      (simp_all add: w1_def s1_def s2_def new_scanner_def scanner_finish_scan_def)
  have 3: "scanner_step w2 Worker_Action (w2\<lparr>w_scanner := s2, w_worker := Blocked\<rparr>)"
    by (rule block) (simp_all add: w2_def s2_def s1_def new_scanner_def scanner_next_request_def)
  have "w2\<lparr>w_scanner := s2, w_worker := Blocked\<rparr> = asleep_world"
    by (simp add: asleep_world_def w2_def w1_def s2_def s1_def start_world_def new_scanner_def
        LSM_PROCESS_SCAN_EXECUTABLE_def)
  with 3 have "scanner_step w2 Worker_Action asleep_world" by simp
  with 1 2 example_reachable show ?thesis by (meson scanner_reachable.stepped)
qed

theorem scanner_no_lost_wakeup_witness:
  "\<not> sc_request_pending (w_scanner asleep_world) \<and> \<not> sc_stop_requested (w_scanner asleep_world)"
  using scanner_no_lost_wakeup [OF asleep_reachable] by (simp add: asleep_world_def)

text \<open>C22. Shutdown without joining: once the owner has destroyed the scanner, no callback runs
  any more, every interleaving of the remaining threads is over after at most \<open>remaining\<close>
  steps, and when nothing is left to do the scanner has been freed.\<close>

theorem scanner_shutdown:
  assumes "scanner_reachable w" "w_owner w \<noteq> Owning" "scanner_run w n w'"
  shows "n \<le> remaining w \<and> w_callbacks w' = w_callbacks w \<and>
    ((\<nexists>a w''. scanner_step w' a w'') \<longrightarrow> sc_freed (w_scanner w') = 1)"
proof -
  note run = stopped_run [OF assms(3,1,2)]
  have "counted w'" using run_reachable [OF assms(3,1)] reachable_invariant by blast
  then have "sc_freed (w_scanner w') = 1" if "\<nexists>a w''. scanner_step w' a w''"
    using holder_steps [of w'] that run by (auto simp: counted_def scanner_refs.counted_by_def)
  with run show ?thesis by auto
qed

definition stopped_world :: scanner_world where
  "stopped_world = (start_world new_scanner)\<lparr>w_scanner := scanner_stop new_scanner,
     w_owner := Releasing, w_worker := wake True At_Head\<rparr>"

theorem scanner_shutdown_witness:
  "1 \<le> remaining stopped_world \<and>
   w_callbacks (stopped_world\<lparr>w_scanner := scanner_release (w_scanner stopped_world), w_owner := Gone\<rparr>) =
     w_callbacks stopped_world"
proof -
  have "scanner_step (start_world new_scanner) Owner_Action stopped_world"
    using destroy [of "start_world new_scanner"] by (simp add: start_world_def stopped_world_def)
  then have r: "scanner_reachable stopped_world"
    using example_reachable by (rule scanner_reachable.stepped [rotated])
  have o: "w_owner stopped_world = Releasing" by (simp add: stopped_world_def)
  have "scanner_run stopped_world (Suc 0)
      (stopped_world\<lparr>w_scanner := scanner_release (w_scanner stopped_world), w_owner := Gone\<rparr>)"
    by (rule scanner_run.step [OF scanner_run.idle owner_release [OF o]])
  from scanner_shutdown [OF r _ this] o show ?thesis by simp
qed

text \<open>Hand-off: for every interleaving of completed and failed scans, requests, dispatches,
  callback changes and takes, each take returns the newest snapshot completed since the one
  before it; so nothing is delivered twice, nothing stale, and in order of completion.\<close>

theorem scanner_take_newest:
  "snd (foldl scanner_event (new_scanner, []) events) = fst (expected None events) \<and>
   subseq (snd (foldl scanner_event (new_scanner, []) events)) (published events)"
  using scanner_mail.mailbox_run [of new_scanner "[]" events]
    scanner_mail.deliveries_subseq [of new_scanner events]
  by (simp add: scanner_event_mailbox new_scanner_def scanner_content_def)

text \<open>Coalescing: a request is refused only after destruction; otherwise its flags become
  the newest ones and stay so until a scan with exactly these flags runs, and a worker that
  starts a scan always scans with the newest flags.\<close>

theorem scanner_request_newest:
  "(case lsm_process_scanner_request flags s of (accepted, signal, s') \<Rightarrow>
      accepted = (\<not> sc_stop_requested s) \<and>
      newest_flags s' = (if accepted then Some flags else newest_flags s)) \<and>
   (case scanner_next_request s of
      (Scan started, s') \<Rightarrow> newest_flags s = Some started \<and> newest_flags s' = Some started
    | (_, s') \<Rightarrow> s' = s) \<and>
   (case scanner_finish_scan processes s of (broke, dispatch, s') \<Rightarrow>
      newest_flags s' = (if sc_request_pending s then newest_flags s else None))"
  by (auto simp: newest_flags_def scanner_defs split: option.split)

end
