(* ===== verification/Windows_Runtime.thy ===== *)
theory Windows_Runtime
  imports Snapshot_Mailbox
begin

text \<open>
  \<^verbatim>\<open>src/windows_process_runtime.c\<close>: the process worker of the Windows build. Handles are
  present or absent; the auto-reset event is the flag \<open>rw_signalled\<close> of the world below. Each
  section under the critical section is one definition, and \<open>runtime_step\<close> interleaves the
  worker with the user-interface thread. \<^verbatim>\<open>start\<close>, \<^verbatim>\<open>request\<close> and \<^verbatim>\<open>stop\<close> call \<^verbatim>\<open>SetEvent\<close> only after
  they left the critical section or created the thread: that call is a step of its own, and the
  worker may run in between.
\<close>

record windows_process_runtime =
  wr_process_backend :: bool
  wr_process_thread :: bool
  wr_process_event :: bool
  wr_process_lock_initialised :: bool
  wr_process_worker_abandoned :: bool
  wr_process_stop_requested :: bool
  wr_process_request_pending :: bool
  wr_process_requested_flags :: u32
  wr_process_completed :: "snapshot option"
  wr_process_completed_ready :: bool

definition zero_runtime :: windows_process_runtime where
  "zero_runtime = \<lparr>wr_process_backend = False, wr_process_thread = False, wr_process_event = False,
     wr_process_lock_initialised = False, wr_process_worker_abandoned = False,
     wr_process_stop_requested = False, wr_process_request_pending = False,
     wr_process_requested_flags = 0, wr_process_completed = None,
     wr_process_completed_ready = False\<rparr>"

subsection \<open>The worker's sections\<close>

datatype runtime_decision = Break | Continue | Start_Scan u32

definition worker_woken ::
  "windows_process_runtime \<Rightarrow> runtime_decision \<times> windows_process_runtime" where
  "worker_woken state =
     (if wr_process_stop_requested state then (Break, state)
      else if \<not> wr_process_request_pending state then (Continue, state)
      else (Start_Scan (wr_process_requested_flags state),
            state\<lparr>wr_process_request_pending := False\<rparr>))"

definition worker_scanned ::
  "snapshot option \<Rightarrow> windows_process_runtime \<Rightarrow> bool \<times> windows_process_runtime" where
  "worker_scanned processes state =
     (if wr_process_stop_requested state then (True, state)
      else case processes of
          None \<Rightarrow> (False, state)
        | Some list \<Rightarrow> (False, state\<lparr>wr_process_completed := Some list,
            wr_process_completed_ready := True\<rparr>))"

definition worker_backend :: "bool \<Rightarrow> windows_process_runtime \<Rightarrow> windows_process_runtime" where
  "worker_backend backend state = state\<lparr>wr_process_backend := backend\<rparr>"

subsection \<open>The interface\<close>

text \<open>\<open>exit_active\<close> is what \<^verbatim>\<open>GetExitCodeThread\<close> reports for the thread handle.\<close>

definition lsm_windows_process_runtime_available :: "bool \<Rightarrow> windows_process_runtime \<Rightarrow> bool" where
  "lsm_windows_process_runtime_available exit_active runtime \<longleftrightarrow>
     \<not> wr_process_stop_requested runtime \<and> wr_process_thread runtime \<and>
     wr_process_lock_initialised runtime \<and> exit_active"

definition lsm_windows_process_runtime_abandoned :: "windows_process_runtime \<Rightarrow> bool" where
  "lsm_windows_process_runtime_abandoned runtime = wr_process_worker_abandoned runtime"

text \<open>The locked section of \<^verbatim>\<open>stop\<close>, before its \<^verbatim>\<open>SetEvent\<close>, and what follows the wait; \<open>joined\<close> tells whether the wait returned
  \<^verbatim>\<open>WAIT_OBJECT_0\<close>.\<close>

definition runtime_stop_request :: "windows_process_runtime \<Rightarrow> windows_process_runtime" where
  "runtime_stop_request state = state\<lparr>wr_process_stop_requested := True\<rparr>"

definition runtime_stop_finish ::
  "bool \<Rightarrow> windows_process_runtime \<Rightarrow> bool \<times> windows_process_runtime" where
  "runtime_stop_finish joined state =
     (if wr_process_thread state \<and> \<not> joined
      then (False, state\<lparr>wr_process_worker_abandoned := True\<rparr>)
      else (True, state\<lparr>wr_process_thread := False, wr_process_event := False,
              wr_process_completed := None, wr_process_completed_ready := False,
              wr_process_lock_initialised := False\<rparr>))"

definition lsm_windows_process_runtime_stop ::
  "bool \<Rightarrow> windows_process_runtime \<Rightarrow> bool \<times> windows_process_runtime" where
  "lsm_windows_process_runtime_stop joined state =
     (if \<not> wr_process_lock_initialised state then (True, state)
      else runtime_stop_finish joined (runtime_stop_request state))"

text \<open>The part of \<^verbatim>\<open>start\<close> that creates the worker, after any terminated one was reaped, up to
  \<^verbatim>\<open>CreateThread\<close>; on success \<^verbatim>\<open>SetEvent\<close> is still to be called.\<close>

definition runtime_launch ::
  "bool \<Rightarrow> bool \<Rightarrow> windows_process_runtime \<Rightarrow> bool \<times> windows_process_runtime" where
  "runtime_launch event_ok thread_ok state =
     (if \<not> event_ok
      then (False, state\<lparr>wr_process_event := False, wr_process_lock_initialised := False\<rparr>)
      else
        let state = state\<lparr>wr_process_lock_initialised := True, wr_process_event := True,
              wr_process_stop_requested := False, wr_process_worker_abandoned := False,
              wr_process_request_pending := True, wr_process_requested_flags := 0,
              wr_process_thread := thread_ok\<rparr>
        in if \<not> thread_ok
           then (False, state\<lparr>wr_process_event := False, wr_process_lock_initialised := False\<rparr>)
           else (True, state))"

definition lsm_windows_process_runtime_start ::
  "bool \<Rightarrow> bool \<Rightarrow> bool \<Rightarrow> bool \<Rightarrow> windows_process_runtime \<Rightarrow> bool \<times> windows_process_runtime" where
  "lsm_windows_process_runtime_start exit_active joined event_ok thread_ok state =
     (if wr_process_thread state then
        if wr_process_worker_abandoned state then (False, state)
        else if lsm_windows_process_runtime_available exit_active state then (True, state)
        else case lsm_windows_process_runtime_stop joined state of
            (False, state) \<Rightarrow> (False, state)
          | (True, state) \<Rightarrow> runtime_launch event_ok thread_ok state
      else runtime_launch event_ok thread_ok state)"

text \<open>Whether \<^verbatim>\<open>SetEvent\<close> is still to be called, and the state when the section is left.\<close>

definition lsm_windows_process_runtime_request ::
  "u32 \<Rightarrow> windows_process_runtime \<Rightarrow> bool \<times> windows_process_runtime" where
  "lsm_windows_process_runtime_request scan_flags state =
     (if \<not> wr_process_thread state \<or> \<not> wr_process_lock_initialised state then (False, state)
      else (True, if \<not> wr_process_stop_requested state
        then state\<lparr>wr_process_requested_flags := scan_flags, wr_process_request_pending := True\<rparr>
        else state))"

definition lsm_windows_process_runtime_take ::
  "windows_process_runtime \<Rightarrow> snapshot option \<times> windows_process_runtime" where
  "lsm_windows_process_runtime_take state =
     (if \<not> wr_process_lock_initialised state then (None, state)
      else if \<not> wr_process_completed_ready state then (None, state)
      else (wr_process_completed state, state\<lparr>wr_process_completed := None,
              wr_process_completed_ready := False\<rparr>))"

subsection \<open>The threads\<close>

datatype runtime_worker = No_Worker | Creating | Waiting | Scanning_Processes u32 | Ending | Ended

text \<open>The user-interface thread: between calls, about to call \<^verbatim>\<open>SetEvent\<close> (at the end of \<^verbatim>\<open>start\<close> or
  \<^verbatim>\<open>request\<close>, or within \<^verbatim>\<open>stop\<close>), or in the wait of \<^verbatim>\<open>stop\<close>.\<close>

datatype runtime_caller = Caller_Idle | Caller_Signals | Stop_Signals | Stop_Waits

record runtime_world =
  rw_state :: windows_process_runtime
  rw_worker :: runtime_worker
  rw_signalled :: bool
  rw_caller :: runtime_caller

definition worker_alive :: "runtime_world \<Rightarrow> bool" where
  "worker_alive w \<longleftrightarrow> rw_worker w \<noteq> No_Worker \<and> rw_worker w \<noteq> Ended"

inductive runtime_step :: "runtime_world \<Rightarrow> runtime_world \<Rightarrow> bool" where
  create_backend: "rw_worker w = Creating \<Longrightarrow>
    runtime_step w (w\<lparr>rw_state := worker_backend backend (rw_state w),
      rw_worker := (if backend then Waiting else Ended)\<rparr>)"
| woken: "rw_worker w = Waiting \<Longrightarrow> rw_signalled w \<Longrightarrow>
    worker_woken (rw_state w) = (decision, s) \<Longrightarrow>
    runtime_step w (w\<lparr>rw_state := s, rw_signalled := False,
      rw_worker := (case decision of Break \<Rightarrow> Ending | Continue \<Rightarrow> Waiting
        | Start_Scan flags \<Rightarrow> Scanning_Processes flags)\<rparr>)"
| scanned: "rw_worker w = Scanning_Processes flags \<Longrightarrow>
    worker_scanned result (rw_state w) = (broke, s) \<Longrightarrow>
    runtime_step w (w\<lparr>rw_state := s, rw_worker := (if broke then Ending else Waiting)\<rparr>)"
| ended: "rw_worker w = Ending \<Longrightarrow>
    runtime_step w (w\<lparr>rw_state := worker_backend False (rw_state w), rw_worker := Ended\<rparr>)"
| launch: "rw_caller w = Caller_Idle \<Longrightarrow> \<not> wr_process_thread (rw_state w) \<Longrightarrow>
    runtime_launch event_ok thread_ok (rw_state w) = (ok, s) \<Longrightarrow>
    runtime_step w (w\<lparr>rw_state := s, rw_worker := (if ok then Creating else rw_worker w),
      rw_signalled := False, rw_caller := (if ok then Caller_Signals else Caller_Idle)\<rparr>)"
| request: "rw_caller w = Caller_Idle \<Longrightarrow>
    lsm_windows_process_runtime_request flags (rw_state w) = (signal, s) \<Longrightarrow>
    runtime_step w (w\<lparr>rw_state := s, rw_caller := (if signal then Caller_Signals else Caller_Idle)\<rparr>)"
| take: "rw_caller w = Caller_Idle \<Longrightarrow> lsm_windows_process_runtime_take (rw_state w) = (taken, s) \<Longrightarrow>
    runtime_step w (w\<lparr>rw_state := s\<rparr>)"
| stop_begin: "rw_caller w = Caller_Idle \<Longrightarrow> wr_process_lock_initialised (rw_state w) \<Longrightarrow>
    runtime_step w (w\<lparr>rw_state := runtime_stop_request (rw_state w), rw_caller := Stop_Signals\<rparr>)"
| set_event: "rw_caller w = Caller_Signals \<Longrightarrow>
    runtime_step w (w\<lparr>rw_signalled := True, rw_caller := Caller_Idle\<rparr>)"
| stop_set_event: "rw_caller w = Stop_Signals \<Longrightarrow>
    runtime_step w (w\<lparr>rw_signalled := True, rw_caller := Stop_Waits\<rparr>)"
| stop_end: "rw_caller w = Stop_Waits \<Longrightarrow> (joined \<longrightarrow> rw_worker w = Ended) \<Longrightarrow>
    runtime_stop_finish joined (rw_state w) = (ok, s) \<Longrightarrow>
    runtime_step w (w\<lparr>rw_state := s, rw_caller := Caller_Idle,
      rw_worker := (if ok then No_Worker else rw_worker w)\<rparr>)"

inductive runtime_reachable :: "runtime_world \<Rightarrow> bool" where
  initial: "runtime_reachable \<lparr>rw_state = zero_runtime, rw_worker = No_Worker, rw_signalled = False,
    rw_caller = Caller_Idle\<rparr>"
| stepped: "runtime_reachable w \<Longrightarrow> runtime_step w w' \<Longrightarrow> runtime_reachable w'"

subsection \<open>The invariant\<close>

text \<open>The event is signalled, or the user-interface thread is about to signal it.\<close>

definition wake_due :: "runtime_world \<Rightarrow> bool" where
  "wake_due w \<longleftrightarrow> rw_signalled w \<or> rw_caller w \<in> {Caller_Signals, Stop_Signals}"

definition runtime_ok :: "runtime_world \<Rightarrow> bool" where
  "runtime_ok w \<longleftrightarrow>
     (let s = rw_state w in
      (worker_alive w \<longrightarrow> wr_process_thread s) \<and>
      (wr_process_thread s \<longleftrightarrow> wr_process_lock_initialised s) \<and>
      (wr_process_thread s \<longleftrightarrow> wr_process_event s) \<and>
      (wr_process_thread s \<longleftrightarrow> rw_worker w \<noteq> No_Worker) \<and>
      (rw_caller w \<in> {Stop_Signals, Stop_Waits} \<longrightarrow> wr_process_stop_requested s) \<and>
      (rw_caller w \<noteq> Caller_Idle \<longrightarrow> wr_process_lock_initialised s) \<and>
      (wr_process_worker_abandoned s \<and> wr_process_thread s \<longrightarrow> wr_process_stop_requested s) \<and>
      (rw_worker w = Creating \<longrightarrow> wake_due w) \<and>
      ((rw_worker w = Waiting \<or> (\<exists>flags. rw_worker w = Scanning_Processes flags)) \<and>
        (wr_process_request_pending s \<or> wr_process_stop_requested s) \<longrightarrow>
        wake_due w))"

lemma runtime_ok_step:
  assumes "runtime_step w w'" "runtime_ok w"
  shows "runtime_ok w'"
  using assms
proof cases
  case (woken decision s)
  with assms(2) show ?thesis
    by (auto simp: runtime_ok_def wake_due_def worker_alive_def worker_woken_def Let_def split: if_splits)
next
  case (scanned flags result broke s)
  with assms(2) show ?thesis
    by (auto simp: runtime_ok_def wake_due_def worker_alive_def worker_scanned_def Let_def
        split: if_splits option.splits)
next
  case (launch event_ok thread_ok ok s)
  with assms(2) show ?thesis
    by (auto simp: runtime_ok_def wake_due_def worker_alive_def runtime_launch_def Let_def split: if_splits)
qed (use assms(2) in \<open>auto simp: runtime_ok_def wake_due_def worker_alive_def worker_backend_def Let_def
    lsm_windows_process_runtime_request_def lsm_windows_process_runtime_take_def
    runtime_stop_request_def runtime_stop_finish_def split: if_splits\<close>)

lemma runtime_reachable_ok: "runtime_reachable w \<Longrightarrow> runtime_ok w"
proof (induction rule: runtime_reachable.induct)
  case initial
  then show ?case by (simp add: runtime_ok_def worker_alive_def zero_runtime_def)
next
  case (stepped w w')
  then show ?case using runtime_ok_step by blast
qed

subsection \<open>The snapshot mailbox\<close>

datatype runtime_op = Runtime_Request u32 | Worker_Woken | Runtime_Failed_Scan | Worker_Backend bool

fun runtime_other :: "runtime_op \<Rightarrow> windows_process_runtime \<Rightarrow> windows_process_runtime" where
  "runtime_other (Runtime_Request flags) s = snd (lsm_windows_process_runtime_request flags s)"
| "runtime_other Worker_Woken s = snd (worker_woken s)"
| "runtime_other Runtime_Failed_Scan s = snd (worker_scanned None s)"
| "runtime_other (Worker_Backend backend) s = worker_backend backend s"

definition runtime_content :: "windows_process_runtime \<Rightarrow> snapshot option" where
  "runtime_content s = (if wr_process_completed_ready s then wr_process_completed s else None)"

definition runtime_publish :: "snapshot \<Rightarrow> windows_process_runtime \<Rightarrow> windows_process_runtime" where
  "runtime_publish v s = snd (worker_scanned (Some v) s)"

definition runtime_running :: "windows_process_runtime \<Rightarrow> bool" where
  "runtime_running s \<longleftrightarrow> wr_process_lock_initialised s \<and> \<not> wr_process_stop_requested s"

lemma runtime_other_keeps:
  "wr_process_completed_ready (runtime_other a s) = wr_process_completed_ready s"
  "wr_process_completed (runtime_other a s) = wr_process_completed s"
  "wr_process_lock_initialised (runtime_other a s) = wr_process_lock_initialised s"
  "wr_process_stop_requested (runtime_other a s) = wr_process_stop_requested s"
  by (cases a; simp add: worker_woken_def worker_scanned_def
      lsm_windows_process_runtime_request_def worker_backend_def)+

interpretation windows_mail: snapshot_mailbox runtime_content runtime_publish
  lsm_windows_process_runtime_take runtime_other runtime_running
  by unfold_locales
    (auto simp: runtime_other_keeps runtime_content_def runtime_publish_def runtime_running_def
      worker_scanned_def lsm_windows_process_runtime_take_def)

fun runtime_event ::
  "windows_process_runtime \<times> snapshot list \<Rightarrow> runtime_op mailbox_event \<Rightarrow>
     windows_process_runtime \<times> snapshot list" where
  "runtime_event (s, got) (Publish v) = (runtime_publish v s, got)"
| "runtime_event (s, got) Take =
     (case lsm_windows_process_runtime_take s of (taken, s') \<Rightarrow>
        (s', got @ (case taken of None \<Rightarrow> [] | Some v \<Rightarrow> [v])))"
| "runtime_event (s, got) (Other a) = (runtime_other a s, got)"

lemma runtime_event_mailbox: "runtime_event = windows_mail.mailbox_step"
proof (intro ext)
  fix p e show "runtime_event p e = windows_mail.mailbox_step p e"
    by (cases p; cases e) (simp_all split: prod.split)
qed

subsection \<open>Properties\<close>


text \<open>A world the runtime reaches between a start and its \<^verbatim>\<open>SetEvent\<close>: the worker already waits.\<close>

definition started_world :: runtime_world where
  "started_world = \<lparr>rw_state = snd (runtime_launch True True zero_runtime), rw_worker = Creating,
     rw_signalled = False, rw_caller = Caller_Signals\<rparr>"

definition waiting_world :: runtime_world where
  "waiting_world = started_world\<lparr>rw_state := worker_backend True (rw_state started_world), rw_worker := Waiting\<rparr>"


text \<open>Hand-off on Windows: from a started runtime, for every interleaving of completed and
  failed scans, requests and takes, each take returns the newest snapshot completed since the
  one before it.\<close>

theorem windows_take_newest:
  assumes "runtime_running s" "runtime_content s = None"
  shows "snd (foldl runtime_event (s, []) events) = fst (expected None events) \<and>
    subseq (snd (foldl runtime_event (s, []) events)) (published events)"
  using windows_mail.mailbox_run [OF assms(1), of "[]" events] assms(2)
    windows_mail.deliveries_subseq [OF assms, of events]
  by (simp add: runtime_event_mailbox)

theorem windows_take_newest_witness:
  "snd (foldl runtime_event (rw_state started_world, []) [Publish [], Take]) =
     fst (expected None ([Publish [], Take] :: runtime_op mailbox_event list))"
  by (rule windows_take_newest [THEN conjunct1])
    (simp_all add: started_world_def runtime_running_def runtime_content_def runtime_launch_def
      zero_runtime_def)

end
