(* ===== verification/Recorder_Csv.thy ===== *)
theory Recorder_Csv
  imports Common_Library Monitor_Types
begin

text \<open>
  The on-disk schema of \<^verbatim>\<open>src/process_recorder.c\<close>: the header, the rows the writer prints and
  the strict reader the plot importer uses. Dates are read without the C library; only the
  local-time conversion and \<^verbatim>\<open>strftime\<close> of the writer are parameters.
\<close>

record record_node =
  rn_timestamp :: int
  rn_pid :: process_id
  rn_cpu_percent :: double
  rn_memory_percent :: double
  rn_rss_bytes :: u64
  rn_read_bytes :: u64
  rn_write_bytes :: u64
  rn_threads :: u32

definition recorder_csv_header :: string where
  "recorder_csv_header =
     ''timestamp,pid,cpu_percent,memory_percent,rss_bytes,read_bytes,write_bytes,threads''"

definition lsm_process_recorder_header_matches :: "string option \<Rightarrow> bool" where
  "lsm_process_recorder_header_matches line =
     (case line of
        None \<Rightarrow> False
      | Some l \<Rightarrow>
          take (length recorder_csv_header) l = recorder_csv_header \<and>
          (drop (length recorder_csv_header) l = [LF] \<or>
           drop (length recorder_csv_header) l = [CR, LF]))"

definition recorder_field :: "string \<Rightarrow> nat \<Rightarrow> string option" where
  "recorder_field field capacity =
     (if field = [] \<or> capacity \<le> length field then None else Some field)"

text \<open>The two digits at an offset of a text; the caller has checked the length.\<close>

definition recorder_pair :: "string \<Rightarrow> nat \<Rightarrow> nat option" where
  "recorder_pair t i =
     (if \<not> ascii_digit (t ! i) \<or> \<not> ascii_digit (t ! (i + 1)) then None
      else Some ((of_char (t ! i) - 48) * 10 + (of_char (t ! (i + 1)) - 48)))"

definition month_days :: "nat list" where
  "month_days = [31, 28, 31, 30, 31, 30, 31, 31, 30, 31, 30, 31]"

definition date_valid :: "nat \<Rightarrow> nat \<Rightarrow> nat \<Rightarrow> bool" where
  "date_valid year month day =
     (let leap = (year mod 4 = 0 \<and> (year mod 100 \<noteq> 0 \<or> year mod 400 = 0));
          maximum = month_days ! (month - 1) + (if month = 2 \<and> leap then 1 else 0)
      in 0 < day \<and> day \<le> maximum)"

definition recorder_timestamp_valid :: "string \<Rightarrow> bool" where
  "recorder_timestamp_valid t =
     (if (length t \<noteq> 24 \<and> length t \<noteq> 26) \<or> t ! 4 \<noteq> CHR ''-'' \<or> t ! 7 \<noteq> CHR ''-'' \<or>
         t ! 10 \<noteq> CHR ''T'' \<or> t ! 13 \<noteq> CHR '':'' \<or> t ! 16 \<noteq> CHR '':'' \<or>
         (t ! 19 \<noteq> CHR ''+'' \<and> t ! 19 \<noteq> CHR ''-'') then False
      else
        case (recorder_pair t 0, recorder_pair t 2, recorder_pair t 5, recorder_pair t 8,
              recorder_pair t 11, recorder_pair t 14, recorder_pair t 17, recorder_pair t 20,
              recorder_pair t 22, if length t = 26 then recorder_pair t 24 else Some 0) of
          (Some century, Some year_tail, Some month, Some day, Some hour, Some minute, Some second,
           Some zone_hour, Some zone_minute, Some zone_second) \<Rightarrow>
            let year = century * 100 + year_tail
            in if year = 0 \<or> month = 0 \<or> 12 < month \<or> 23 < hour \<or> 59 < minute \<or> 59 < second \<or>
                  23 < zone_hour \<or> 59 < zone_minute \<or> 59 < zone_second then False
               else date_valid year month day
        | _ \<Rightarrow> False)"

text \<open>The first fields of a row, each ended by a comma, and what follows them.\<close>

fun comma_fields :: "nat \<Rightarrow> string \<Rightarrow> (string list \<times> string) option" where
  "comma_fields 0 cursor = Some ([], cursor)"
| "comma_fields (Suc n) cursor =
     (case strchr_split CHR '','' cursor of
        None \<Rightarrow> None
      | Some (field, rest) \<Rightarrow> map_option (\<lambda>(fs, r). (field # fs, r)) (comma_fields n rest))"

definition integral_fields_ok :: "common \<Rightarrow> string list \<Rightarrow> bool" where
  "integral_fields_ok c columns \<longleftrightarrow>
     list_all (\<lambda>column.
       case recorder_field (columns ! column) 64 of
         None \<Rightarrow> False
       | Some text \<Rightarrow>
           (case infiltratr_parse_u64 c text 10 of
              None \<Rightarrow> False
            | Some v \<Rightarrow> \<not> (column = 1 \<and> v = 0) \<and> \<not> (column = 7 \<and> 2 ^ 32 \<le> unat v)))
       [1, 4, 5, 6, 7]"

definition lsm_process_recorder_parse_metrics ::
  "common \<Rightarrow> string option \<Rightarrow> (double \<times> double) option" where
  "lsm_process_recorder_parse_metrics c line =
     (case line of
        None \<Rightarrow> None
      | Some l \<Rightarrow>
          if length l < 2 \<or> last l \<noteq> LF then None
          else
            let body = butlast l;
                body = (if body \<noteq> [] \<and> last body = CR then butlast body else body)
            in case comma_fields 7 body of
                 None \<Rightarrow> None
               | Some (first, cursor) \<Rightarrow>
                   let columns = first @ [cursor]
                   in if CHR '','' \<in> set cursor \<or> \<not> recorder_timestamp_valid (columns ! 0) then None
                      else if \<not> integral_fields_ok c columns then None
                      else
                        case (recorder_field (columns ! 2) 64, recorder_field (columns ! 3) 64) of
                          (Some cpu_text, Some memory_text) \<Rightarrow>
                            (case (infiltratr_parse_double_range c cpu_text (Fin 0) (Fin dbl_max),
                                   infiltratr_parse_double_range c memory_text (Fin 0) (Fin 100)) of
                               (Some cpu, Some memory) \<Rightarrow> Some (cpu, memory)
                             | _ \<Rightarrow> None)
                        | _ \<Rightarrow> None)"

text \<open>The row \<^verbatim>\<open>write_record\<close> prints; \<open>None\<close> when the time or a percentage cannot be printed.
  \<open>local_time_text\<close> stands for \<^verbatim>\<open>localtime_r\<close> and \<^verbatim>\<open>strftime\<close>.\<close>

definition record_row :: "common \<Rightarrow> (int \<Rightarrow> string option) \<Rightarrow> record_node \<Rightarrow> string option" where
  "record_row c local_time_text node =
     (case local_time_text (rn_timestamp node) of
        None \<Rightarrow> None
      | Some timestamp \<Rightarrow>
          (case (infiltratr_format_fixed_ascii c (rn_cpu_percent node) 3 64,
                 infiltratr_format_fixed_ascii c (rn_memory_percent node) 3 64) of
             (Some cpu_percent, Some memory_percent) \<Rightarrow>
               Some (join CHR '','' [timestamp, nat_text (unat (rn_pid node)), cpu_percent,
                 memory_percent, nat_text (unat (rn_rss_bytes node)),
                 nat_text (unat (rn_read_bytes node)), nat_text (unat (rn_write_bytes node)),
                 nat_text (unat (rn_threads node))] @ [LF])
           | _ \<Rightarrow> None))"

subsection \<open>Timestamps\<close>

definition two_digits :: "nat \<Rightarrow> string" where
  "two_digits n = [digit_char (n div 10), digit_char n]"

record civil_time =
  ct_year :: nat
  ct_month :: nat
  ct_day :: nat
  ct_hour :: nat
  ct_minute :: nat
  ct_second :: nat
  ct_sign :: char
  ct_zone_hour :: nat
  ct_zone_minute :: nat
  ct_zone_second :: "nat option"

text \<open>The proleptic Gregorian calendar.\<close>

definition days_in_month :: "nat \<Rightarrow> nat \<Rightarrow> nat" where
  "days_in_month year month =
     (if month = 2 then if (4 dvd year \<and> \<not> 100 dvd year) \<or> 400 dvd year then 29 else 28
      else if month \<in> {4, 6, 9, 11} then 30 else 31)"

definition civil_ok :: "civil_time \<Rightarrow> bool" where
  "civil_ok t \<longleftrightarrow> ct_year t \<in> {1..9999} \<and> ct_month t \<in> {1..12} \<and>
     ct_day t \<in> {1..days_in_month (ct_year t) (ct_month t)} \<and> ct_hour t \<le> 23 \<and>
     ct_minute t \<le> 59 \<and> ct_second t \<le> 59 \<and> ct_sign t \<in> {CHR ''+'', CHR ''-''} \<and>
     ct_zone_hour t \<le> 23 \<and> ct_zone_minute t \<le> 59 \<and>
     (case ct_zone_second t of None \<Rightarrow> True | Some s \<Rightarrow> s \<le> 59)"

definition civil_text :: "civil_time \<Rightarrow> string" where
  "civil_text t = two_digits (ct_year t div 100) @ two_digits (ct_year t mod 100) @ ''-'' @
     two_digits (ct_month t) @ ''-'' @ two_digits (ct_day t) @ ''T'' @ two_digits (ct_hour t) @ '':'' @
     two_digits (ct_minute t) @ '':'' @ two_digits (ct_second t) @ [ct_sign t] @
     two_digits (ct_zone_hour t) @ two_digits (ct_zone_minute t) @
     (case ct_zone_second t of None \<Rightarrow> [] | Some s \<Rightarrow> two_digits s)"

lemma digit_charI: "ascii_digit x \<Longrightarrow> x = digit_char (of_char x - 48)"
proof -
  assume "ascii_digit x"
  then have x: "of_char x \<in> {48..57::nat}" by (simp add: ascii_digit_def)
  then have "of_char x - 48 < (10 :: nat)" by auto
  then have "(of_char x - 48) mod 10 = (of_char x - 48 :: nat)" by (rule mod_less)
  then have "48 + (of_char x - 48) mod 10 = (of_char x :: nat)" using x by simp
  then show ?thesis unfolding digit_char_def by simp
qed

lemma digit_char_mod [simp]: "digit_char (n mod 10) = digit_char n"
  by (simp add: digit_char_def)

lemma recorder_pair_Some:
  assumes "recorder_pair t i = Some v"
  shows "t ! i = digit_char (v div 10)" "t ! (i + 1) = digit_char v" "v < 100"
proof -
  define a b :: nat where "a = of_char (t ! i) - 48" and "b = of_char (t ! (i + 1)) - 48"
  have d: "ascii_digit (t ! i)" "ascii_digit (t ! (i + 1))" and v: "v = a * 10 + b"
    using assms by (auto simp: recorder_pair_def a_def b_def split: if_splits)
  then have ab: "a \<le> 9" "b \<le> 9" by (auto simp: a_def b_def ascii_digit_def)
  have "v div 10 = a" using v ab by simp
  then show "t ! i = digit_char (v div 10)" using digit_charI [OF d(1)] by (simp add: a_def)
  have "digit_char v = digit_char (v mod 10)" by simp
  also have "v mod 10 = b" using v ab by simp
  finally show "t ! (i + 1) = digit_char v" using digit_charI [OF d(2)] by (simp add: b_def)
  show "v < 100" using v ab by simp
qed

lemma recorder_pair_digits:
  assumes "t ! i = digit_char (v div 10)" "t ! (i + 1) = digit_char v" "v < 100"
  shows "recorder_pair t i = Some v"
proof -
  have "(v div 10) mod 10 = v div 10" using assms(3) by simp
  then have "(of_char (t ! i) - 48 :: nat) = v div 10" "(of_char (t ! (i + 1)) - 48 :: nat) = v mod 10"
    unfolding assms(1,2) of_char_digit_char by simp_all
  then show ?thesis using assms(1,2) by (simp add: recorder_pair_def)
qed

lemma days_table:
  "1 \<le> month \<Longrightarrow> month \<le> 12 \<Longrightarrow>
   month_days ! (month - 1) + (if month = 2 \<and> leap then 1 else 0) =
     (if month = 2 then if leap then 29 else 28 else if month \<in> {4, 6, 9, 11} then 30 else 31)"
proof -
  assume "1 \<le> month" "month \<le> 12"
  then have "month \<in> set [1..<13]" by simp
  then show ?thesis by (auto simp: month_days_def upt_rec)
qed

lemma date_valid_days:
  assumes "1 \<le> month" "month \<le> 12"
  shows "date_valid year month day \<longleftrightarrow> day \<in> {1..days_in_month year month}"
proof -
  have "(4 dvd year \<and> \<not> 100 dvd year \<or> 400 dvd year) \<longleftrightarrow>
      (year mod 4 = 0 \<and> (year mod 100 \<noteq> 0 \<or> year mod 400 = 0))"
    unfolding dvd_eq_mod_eq_0 [symmetric] by (auto intro: dvd_trans [of 4 400 year])
  then show ?thesis
    unfolding date_valid_def days_in_month_def Let_def days_table [OF assms] by auto
qed

lemma upt_24: "[0..<24] = [0, 1, 2, 3, 4, 5, 6, 7, 8, 9, 10, 11, 12, 13, 14, 15, 16, 17, 18, 19, 20, 21, 22, 23 :: nat]"
  by code_simp

lemma upt_26: "[0..<26] = [0, 1, 2, 3, 4, 5, 6, 7, 8, 9, 10, 11, 12, 13, 14, 15, 16, 17, 18, 19, 20, 21, 22, 23, 24, 25 :: nat]"
  by code_simp

lemma explicit_list: "length t = n \<Longrightarrow> t = map ((!) t) [0..<n]"
  using map_nth [of t] by simp

text \<open>The checks of the code, as facts about the text.\<close>

lemma timestamp_validE:
  assumes "recorder_timestamp_valid t"
  obtains ce yt mo d h mi s zh zm zs where
    "length t = 24 \<or> length t = 26" "t ! 4 = CHR ''-''" "t ! 7 = CHR ''-''" "t ! 10 = CHR ''T''"
    "t ! 13 = CHR '':''" "t ! 16 = CHR '':''" "t ! 19 \<in> {CHR ''+'', CHR ''-''}"
    "map (recorder_pair t) [0, 2, 5, 8, 11, 14, 17, 20, 22] = map Some [ce, yt, mo, d, h, mi, s, zh, zm]"
    "length t = 26 \<Longrightarrow> recorder_pair t 24 = Some zs" "length t = 24 \<Longrightarrow> zs = 0"
    "ce * 100 + yt \<noteq> 0" "mo \<in> {1..12}" "h \<le> 23" "mi \<le> 59" "s \<le> 59" "zh \<le> 23" "zm \<le> 59"
    "zs \<le> 59" "date_valid (ce * 100 + yt) mo d"
  using assms
  by (auto simp: recorder_timestamp_valid_def Let_def not_less Suc_le_eq split: if_splits option.splits)

lemma timestamp_valid_civil:
  assumes "recorder_timestamp_valid t"
  shows "\<exists>ct. civil_ok ct \<and> t = civil_text ct"
  using assms
proof (rule timestamp_validE)
  fix ce yt mo d h mi s zh zm zs
  assume len: "length t = 24 \<or> length t = 26" and sep: "t ! 4 = CHR ''-''" "t ! 7 = CHR ''-''"
    "t ! 10 = CHR ''T''" "t ! 13 = CHR '':''" "t ! 16 = CHR '':''"
    and sign: "t ! 19 \<in> {CHR ''+'', CHR ''-''}"
    and pairs: "map (recorder_pair t) [0, 2, 5, 8, 11, 14, 17, 20, 22] = map Some [ce, yt, mo, d, h, mi, s, zh, zm]"
    and zs: "length t = 26 \<Longrightarrow> recorder_pair t 24 = Some zs"
    and ok: "ce * 100 + yt \<noteq> 0" "mo \<in> {1..12}" "h \<le> 23" "mi \<le> 59" "s \<le> 59" "zh \<le> 23" "zm \<le> 59"
      "zs \<le> 59" "date_valid (ce * 100 + yt) mo d"
  have p: "recorder_pair t 0 = Some ce" "recorder_pair t 2 = Some yt" "recorder_pair t 5 = Some mo"
    "recorder_pair t 8 = Some d" "recorder_pair t 11 = Some h" "recorder_pair t 14 = Some mi"
    "recorder_pair t 17 = Some s" "recorder_pair t 20 = Some zh" "recorder_pair t 22 = Some zm"
    using pairs by simp_all
  note digits = p [THEN recorder_pair_Some(1)] p [THEN recorder_pair_Some(2)]
  have y: "ce < 100" "yt < 100" using p(1,2) by (auto dest: recorder_pair_Some(3))
  define ct where "ct = \<lparr>ct_year = ce * 100 + yt, ct_month = mo, ct_day = d, ct_hour = h,
    ct_minute = mi, ct_second = s, ct_sign = t ! 19, ct_zone_hour = zh, ct_zone_minute = zm,
    ct_zone_second = (if length t = 26 then Some zs else None)\<rparr>"
  have "civil_ok ct"
    using ok y sign by (auto simp: civil_ok_def ct_def date_valid_days)
  moreover have "t = civil_text ct"
  proof (cases "length t = 26")
    case True
    note z = zs [OF True, THEN recorder_pair_Some(1)] zs [OF True, THEN recorder_pair_Some(2)]
    show ?thesis
      using explicit_list [OF True] sep digits z y True
      by (simp add: ct_def civil_text_def two_digits_def upt_26)
  next
    case False
    with len have 24: "length t = 24" by simp
    show ?thesis
      using explicit_list [OF 24] sep digits y False
      by (simp add: ct_def civil_text_def two_digits_def upt_24)
  qed
  ultimately show ?thesis by blast
qed

lemma two_digits_parts:
  "two_digits n ! 0 = digit_char (n div 10)" "two_digits n ! 1 = digit_char n" "length (two_digits n) = 2"
  by (simp_all add: two_digits_def)

lemma civil_text_valid:
  assumes "civil_ok ct"
  shows "recorder_timestamp_valid (civil_text ct)"
proof -
  let ?t = "civil_text ct"
  have len: "length ?t = (if ct_zone_second ct = None then 24 else 26)"
    by (simp add: civil_text_def two_digits_def split: option.split)
  have sep: "?t ! 4 = CHR ''-''" "?t ! 7 = CHR ''-''" "?t ! 10 = CHR ''T''" "?t ! 13 = CHR '':''"
    "?t ! 16 = CHR '':''" "?t ! 19 = ct_sign ct"
    by (simp_all add: civil_text_def two_digits_def)
  have d: "ct_day ct < 100" "ct_month ct < 100"
    using assms by (auto simp: civil_ok_def days_in_month_def split: if_splits)
  have pairs: "recorder_pair ?t 0 = Some (ct_year ct div 100)" "recorder_pair ?t 2 = Some (ct_year ct mod 100)"
    "recorder_pair ?t 5 = Some (ct_month ct)" "recorder_pair ?t 8 = Some (ct_day ct)"
    "recorder_pair ?t 11 = Some (ct_hour ct)" "recorder_pair ?t 14 = Some (ct_minute ct)"
    "recorder_pair ?t 17 = Some (ct_second ct)" "recorder_pair ?t 20 = Some (ct_zone_hour ct)"
    "recorder_pair ?t 22 = Some (ct_zone_minute ct)"
    using assms d
    by (auto intro!: recorder_pair_digits simp: civil_text_def two_digits_def civil_ok_def)
  have zs: "recorder_pair ?t 24 = Some z" if "ct_zone_second ct = Some z" for z
    using assms that
    by (auto intro!: recorder_pair_digits simp: civil_text_def two_digits_def civil_ok_def)
  have "ct_year ct div 100 * 100 + ct_year ct mod 100 = ct_year ct" by simp
  then show ?thesis
    using assms len sep pairs zs
    by (cases "ct_zone_second ct")
      (auto simp: recorder_timestamp_valid_def civil_ok_def Let_def date_valid_days)
qed

subsection \<open>Rows\<close>

lemma comma_fields_join:
  "\<forall>f\<in>set fs. CHR '','' \<notin> set f \<Longrightarrow>
   comma_fields (length fs) (join CHR '','' (fs @ [r])) = Some (fs, r)"
proof (induction fs)
  case (Cons f fs)
  then show ?case by (simp add: join_Cons strchr_split_append)
qed simp

definition no_comma :: "string \<Rightarrow> bool" where
  "no_comma s \<longleftrightarrow> CHR '','' \<notin> set s"

lemma digits_no_comma: "list_all ascii_digit s \<Longrightarrow> no_comma s"
  by (auto simp: no_comma_def list_all_iff ascii_digit_def)

lemma civil_no_comma: "civil_ok ct \<Longrightarrow> no_comma (civil_text ct)"
proof -
  assume ok: "civil_ok ct"
  have "\<not> ascii_digit (CHR '','')" by (simp add: ascii_digit_def)
  then have "CHR '','' \<noteq> digit_char d" for d by (metis ascii_digit_char)
  then have "no_comma (two_digits n)" for n
    by (simp add: no_comma_def two_digits_def)
  with ok show ?thesis
    by (auto simp: no_comma_def civil_text_def civil_ok_def split: option.splits)
qed

lemma nat_text_field: "n < 2 ^ 64 \<Longrightarrow> recorder_field (nat_text n) 64 = Some (nat_text n)"
  using length_nat_text [of n 19] nat_text_digits [of n] by (simp add: recorder_field_def)

lemma last_digit_not_CR: "ascii_digit x \<Longrightarrow> x \<noteq> CR"
  by (auto simp: ascii_digit_def)

lemma parse_joined_row:
  assumes "length first = 7" "\<forall>f\<in>set first. no_comma f" "no_comma r" "r \<noteq> []" "last r \<noteq> CR"
  shows "lsm_process_recorder_parse_metrics c (Some (join CHR '','' (first @ [r]) @ [LF])) =
    (let columns = first @ [r]
     in if \<not> recorder_timestamp_valid (columns ! 0) then None
        else if \<not> integral_fields_ok c columns then None
        else case (recorder_field (columns ! 2) 64, recorder_field (columns ! 3) 64) of
            (Some cpu_text, Some memory_text) \<Rightarrow>
              (case (infiltratr_parse_double_range c cpu_text (Fin 0) (Fin dbl_max),
                     infiltratr_parse_double_range c memory_text (Fin 0) (Fin 100)) of
                 (Some cpu, Some memory) \<Rightarrow> Some (cpu, memory)
               | _ \<Rightarrow> None)
          | _ \<Rightarrow> None)"
proof -
  have j: "join CHR '','' (first @ [r]) \<noteq> []" "last (join CHR '','' (first @ [r])) = last r"
    using last_join [of "first @ [r]"] assms(4) by simp_all
  have "comma_fields 7 (join CHR '','' (first @ [r])) = Some (first, r)"
    using comma_fields_join [of first r] assms(1,2) by (simp add: no_comma_def)
  moreover have "\<not> length (join CHR '','' (first @ [r]) @ [LF]) < 2" using j(1) by (cases "join CHR '','' (first @ [r])") auto
  ultimately show ?thesis
    using j assms(3,5) by (simp add: lsm_process_recorder_parse_metrics_def no_comma_def Let_def)
qed

lemma row_accepted:
  assumes "common_decimal_ok c" "common_format_ok c"
    and "local_time_text (rn_timestamp node) = Some (civil_text ct)" "civil_ok ct"
    and "infiltratr_format_fixed_ascii c (rn_cpu_percent node) 3 64 = Some cpu_text"
    and "infiltratr_format_fixed_ascii c (rn_memory_percent node) 3 64 = Some memory_text"
    and "infiltratr_parse_double_range c cpu_text (Fin 0) (Fin dbl_max) = Some cpu"
    and "infiltratr_parse_double_range c memory_text (Fin 0) (Fin 100) = Some memory"
    and "rn_pid node \<noteq> 0"
  shows "lsm_process_recorder_parse_metrics c (record_row c local_time_text node) = Some (cpu, memory)"
proof -
  let ?first = "[civil_text ct, nat_text (unat (rn_pid node)), cpu_text, memory_text,
    nat_text (unat (rn_rss_bytes node)), nat_text (unat (rn_read_bytes node)),
    nat_text (unat (rn_write_bytes node))]"
  let ?r = "nat_text (unat (rn_threads node))"
  have f: "recorder_field t 64 = Some t \<and> no_comma t" if "infiltratr_format_fixed_ascii c d 3 64 = Some t" for d t
    using assms(2) that by (fastforce simp: common_format_ok_def recorder_field_def no_comma_def ascii_digit_def)
  have row: "record_row c local_time_text node = Some (join CHR '','' (?first @ [?r]) @ [LF])"
    using assms(3,5,6) by (simp add: record_row_def)
  have "last ?r \<noteq> CR" "?r \<noteq> []"
    using nat_text_digits [of "unat (rn_threads node)"] by (auto simp: list_all_iff last_digit_not_CR)
  note parse = parse_joined_row [of ?first ?r c, OF _ _ _ this(2,1)]
  have u64: "infiltratr_parse_u64 c (nat_text (unat v)) 10 = Some v" "unat v < 2 ^ 64" for v :: u64
    using assms(1) unsigned_less [of v, where ?'a = nat] by (simp_all add: common_decimal_ok_def)
  have threads: "unat (ucast (rn_threads node) :: u64) = unat (rn_threads node)"
    "unat (rn_threads node) < 2 ^ 32"
    using unsigned_less [of "rn_threads node", where ?'a = nat]
    by (simp_all add: unsigned_ucast_eq take_bit_nat_eq_self)
  then have "infiltratr_parse_u64 c ?r 10 = Some (ucast (rn_threads node))"
    using u64(1) [of "ucast (rn_threads node)"] by simp
  then have "integral_fields_ok c (?first @ [?r])"
    using u64 threads assms(9) by (simp add: integral_fields_ok_def nat_text_field)
  then show ?thesis
    using parse row f [OF assms(5)] f [OF assms(6)] civil_text_valid [OF assms(4)] assms(7,8)
      civil_no_comma [OF assms(4)] digits_no_comma nat_text_digits
    by simp
qed

lemma dbl_max_double: "is_double (Fin (of_int (2 ^ 1024 - 2 ^ 971)))"
proof -
  have "rnd (of_int (2 ^ 53 - 1) * 2 powi 971) = of_int (2 ^ 53 - 1) * 2 powi 971" by (rule rnd_dyadic) simp_all
  moreover have "of_int (2 ^ 53 - 1) * 2 powi 971 = (of_int (2 ^ 1024 - 2 ^ 971) :: rat)" by (simp add: power_int_def)
  ultimately show ?thesis by (simp add: is_double_def)
qed

text \<open>A percentage is printed, and read back within the range of its column.\<close>

lemma percent_reread:
  assumes "common_fixed_ok c" "0 \<le> x" "x \<le> 2 ^ 64"
  shows "\<exists>s p. infiltratr_format_fixed_ascii c (Fin x) 3 64 = Some s \<and>
      infiltratr_parse_double_range c s (Fin 0) (Fin dbl_max) = Some (fl p) \<and> \<bar>p - x\<bar> \<le> 1 / 2000"
    and "x \<le> 100 \<Longrightarrow> \<exists>s p. infiltratr_format_fixed_ascii c (Fin x) 3 64 = Some s \<and>
      infiltratr_parse_double_range c s (Fin 0) (Fin 100) = Some (fl p) \<and> \<bar>p - x\<bar> \<le> 1 / 2000"
proof -
  have reread: "\<exists>s p. infiltratr_format_fixed_ascii c (Fin x) 3 64 = Some s \<and>
      infiltratr_parse_double_range c s (Fin (of_int 0)) (Fin (of_int hi)) = Some (fl p) \<and> \<bar>p - x\<bar> \<le> 1 / (2 * 10 ^ 3)"
    if "is_double (Fin (of_int hi))" "x \<le> of_int hi" for hi :: int
  proof -
    have "is_double (Fin (of_int 0))" by (simp add: is_double_def)
    then show ?thesis
      using assms that by (intro assms(1) [unfolded common_fixed_ok_def, rule_format]) simp_all
  qed
  have "x \<le> of_int (2 ^ 1024 - 2 ^ 971)" using assms(3) by simp
  from reread [OF dbl_max_double this] show "\<exists>s p. infiltratr_format_fixed_ascii c (Fin x) 3 64 = Some s \<and>
      infiltratr_parse_double_range c s (Fin 0) (Fin dbl_max) = Some (fl p) \<and> \<bar>p - x\<bar> \<le> 1 / 2000"
    by (simp add: dbl_max_def)
  have "is_double (Fin (of_int 100))" using rnd_dyadic [of 25 2] by (simp add: is_double_def)
  from reread [OF this] show "\<exists>s p. infiltratr_format_fixed_ascii c (Fin x) 3 64 = Some s \<and>
      infiltratr_parse_double_range c s (Fin 0) (Fin 100) = Some (fl p) \<and> \<bar>p - x\<bar> \<le> 1 / 2000" if "x \<le> 100"
    using that by simp
qed

subsection \<open>Properties\<close>

text \<open>C27. The hand-written timestamp check accepts exactly the texts of valid civil times:
  four-digit years from 1, existing Gregorian dates (leap years included), times of day and a
  numeric UTC offset with optional seconds.\<close>

theorem recorder_timestamp_exact:
  "recorder_timestamp_valid t \<longleftrightarrow> (\<exists>ct. civil_ok ct \<and> t = civil_text ct)"
  using timestamp_valid_civil civil_text_valid by blast

text \<open>
  C28. Schema agreement of writer and reader: for a process with a non-zero number, a processor share
  from 0 to 2 to the 64 percent, a memory share from 0 to 100 percent and a local time whose text is
  that of a valid civil time, the writer prints a row, the importer accepts it, and it gets back each
  share as its three printed decimals read, within half a thousandth of what was recorded; the header
  the writer emits is recognised.
\<close>

theorem recorder_row_roundtrip:
  assumes "common_decimal_ok c" "common_format_ok c" "common_fixed_ok c"
    and "local_time_text (rn_timestamp node) = Some (civil_text ct)" "civil_ok ct" "rn_pid node \<noteq> 0"
    and "rn_cpu_percent node = Fin cpu" "0 \<le> cpu" "cpu \<le> 2 ^ 64"
    and "rn_memory_percent node = Fin memory" "0 \<le> memory" "memory \<le> 100"
  shows "\<exists>row p q. record_row c local_time_text node = Some row \<and>
    lsm_process_recorder_parse_metrics c (Some row) = Some (fl p, fl q) \<and>
    \<bar>p - cpu\<bar> \<le> 1 / 2000 \<and> \<bar>q - memory\<bar> \<le> 1 / 2000 \<and>
    lsm_process_recorder_header_matches (Some (recorder_csv_header @ [LF]))"
proof -
  obtain cpu_text p where cpu: "infiltratr_format_fixed_ascii c (rn_cpu_percent node) 3 64 = Some cpu_text"
    "infiltratr_parse_double_range c cpu_text (Fin 0) (Fin dbl_max) = Some (fl p)" "\<bar>p - cpu\<bar> \<le> 1 / 2000"
    using percent_reread(1) [OF assms(3,8,9)] assms(7) by auto
  have "memory \<le> 2 ^ 64" using assms(12) by simp
  then obtain memory_text q where memory: "infiltratr_format_fixed_ascii c (rn_memory_percent node) 3 64 = Some memory_text"
    "infiltratr_parse_double_range c memory_text (Fin 0) (Fin 100) = Some (fl q)" "\<bar>q - memory\<bar> \<le> 1 / 2000"
    using percent_reread(2) [OF assms(3,11) _ assms(12)] assms(10) by auto
  have "record_row c local_time_text node \<noteq> None" using assms(4) cpu(1) memory(1) by (simp add: record_row_def)
  then obtain row where "record_row c local_time_text node = Some row" by blast
  then show ?thesis
    using row_accepted [OF assms(1,2), where local_time_text = local_time_text, OF assms(4,5) cpu(1) memory(1) cpu(2) memory(2) assms(6)] cpu(3) memory(3)
    by (auto simp: lsm_process_recorder_header_matches_def)
qed

definition example_node :: record_node where
  "example_node = \<lparr>rn_timestamp = 0, rn_pid = 7, rn_cpu_percent = Fin (5 / 4), rn_memory_percent = Fin 50,
     rn_rss_bytes = 1, rn_read_bytes = 2, rn_write_bytes = 3, rn_threads = 4\<rparr>"

definition example_civil :: civil_time where
  "example_civil = \<lparr>ct_year = 2024, ct_month = 2, ct_day = 29, ct_hour = 12, ct_minute = 0,
     ct_second = 0, ct_sign = CHR ''+'', ct_zone_hour = 0, ct_zone_minute = 0, ct_zone_second = None\<rparr>"

theorem recorder_row_roundtrip_witness:
  "\<exists>row p q. record_row ref_common (\<lambda>_. Some (civil_text example_civil)) example_node = Some row \<and>
     lsm_process_recorder_parse_metrics ref_common (Some row) = Some (fl p, fl q) \<and>
     \<bar>p - 5 / 4\<bar> \<le> 1 / 2000 \<and> \<bar>q - 50\<bar> \<le> 1 / 2000"
proof -
  have "civil_ok example_civil" by (simp add: civil_ok_def example_civil_def days_in_month_def)
  then show ?thesis
    using recorder_row_roundtrip [OF ref_common_ok(6,7) ref_common_fixed_ok, of "\<lambda>_. Some (civil_text example_civil)"
        example_node example_civil "5 / 4" 50]
    by (simp add: example_node_def) blast
qed

end
