(* ===== verification/Process_Recorder.thy ===== *)
theory Process_Recorder
  imports Recorder_Csv Ref_Counted "HOL-Library.Sublist"
begin

text \<open>
  The recording queue of \<^verbatim>\<open>src/process_recorder.c\<close>: the application appends samples, a worker
  writes them in order. The linked list from \<^verbatim>\<open>head\<close> to \<^verbatim>\<open>tail\<close> is a list; the sections under the
  mutex are definitions on the recorder record and \<open>recorder_step\<close> interleaves them. Whether a
  row was written is an outcome of the step (\<^verbatim>\<open>write_record\<close> fails when the row cannot be
  printed, see \<open>Recorder_Csv\<close>, or when \<^verbatim>\<open>fprintf\<close> or \<^verbatim>\<open>fflush\<close> fail). The world keeps, beside the
  recorder, the samples accepted so far, the rows written and whether the worker gave up on
  queued samples; none of these has a counterpart in the code.
\<close>

definition LSM_PROCESS_RECORDER_MAX_QUEUED :: nat where
  "LSM_PROCESS_RECORDER_MAX_QUEUED = 4096"

definition EIO :: int where "EIO = 5"
definition EAGAIN :: int where "EAGAIN = 11"
definition EINVAL :: int where "EINVAL = 22"
definition ENOBUFS :: int where "ENOBUFS = 105"

record process_recorder =
  rc_queue :: "record_node list"
  rc_queued :: nat
  rc_references :: nat
  rc_failure :: int
  rc_stop_requested :: bool
  rc_file :: bool
  rc_freed :: nat

definition new_recorder :: process_recorder where
  "new_recorder = \<lparr>rc_queue = [], rc_queued = 0, rc_references = 2, rc_failure = 0,
     rc_stop_requested = False, rc_file = True, rc_freed = 0\<rparr>"

text \<open>Creation, from the outcome of the calls that can fail: the error code and the recorder.
  An \<^verbatim>\<open>errno\<close> of zero is reported as \<^verbatim>\<open>EIO\<close>.\<close>

record recorder_outcome =
  ro_mutex_init :: bool
  ro_cond_init :: bool
  ro_fopen :: "int option"
  ro_header :: "int option"
  ro_thread_error :: int

definition errno_or_eio :: "int \<Rightarrow> int" where
  "errno_or_eio e = (if e \<noteq> 0 then e else EIO)"

definition lsm_process_recorder_create ::
  "string option \<Rightarrow> recorder_outcome \<Rightarrow> int \<times> process_recorder option" where
  "lsm_process_recorder_create path outcome =
     (if path = None \<or> path = Some [] then (EINVAL, None)
      else if \<not> ro_mutex_init outcome then (EAGAIN, None)
      else if \<not> ro_cond_init outcome then (EAGAIN, None)
      else case ro_fopen outcome of
          Some e \<Rightarrow> (errno_or_eio e, None)
        | None \<Rightarrow>
            (case ro_header outcome of
               Some e \<Rightarrow> (errno_or_eio e, None)
             | None \<Rightarrow>
                 if ro_thread_error outcome \<noteq> 0 then (ro_thread_error outcome, None)
                 else (0, Some new_recorder)))"

definition recorder_release :: "process_recorder \<Rightarrow> process_recorder" where
  "recorder_release recorder =
     (let previous = rc_references recorder;
          recorder = recorder\<lparr>rc_references := previous - 1\<rparr>
      in if previous \<noteq> 1 then recorder
         else recorder\<lparr>rc_file := False, rc_queue := [], rc_freed := rc_freed recorder + 1\<rparr>)"

definition record_of :: "int \<Rightarrow> process_info \<Rightarrow> record_node" where
  "record_of now process = \<lparr>rn_timestamp = now, rn_pid = proc_pid process,
     rn_cpu_percent = proc_cpu_percent process, rn_memory_percent = proc_memory_percent process,
     rn_rss_bytes = proc_rss_bytes process, rn_read_bytes = proc_read_bytes process,
     rn_write_bytes = proc_write_bytes process, rn_threads = proc_threads process\<rparr>"

text \<open>The returned value, whether the condition was signalled, and the recorder.\<close>

definition lsm_process_recorder_append ::
  "int \<Rightarrow> process_info \<Rightarrow> process_recorder \<Rightarrow> bool \<times> bool \<times> process_recorder" where
  "lsm_process_recorder_append now process recorder =
     (if rc_stop_requested recorder \<or> rc_failure recorder \<noteq> 0 then (False, False, recorder)
      else if LSM_PROCESS_RECORDER_MAX_QUEUED \<le> rc_queued recorder
      then (False, True, recorder\<lparr>rc_failure := ENOBUFS, rc_stop_requested := True\<rparr>)
      else (True, True, recorder\<lparr>rc_queue := rc_queue recorder @ [record_of now process],
              rc_queued := rc_queued recorder + 1\<rparr>))"

definition lsm_process_recorder_error :: "process_recorder option \<Rightarrow> int" where
  "lsm_process_recorder_error recorder = (case recorder of None \<Rightarrow> EINVAL | Some r \<Rightarrow> rc_failure r)"

definition recorder_stop_request :: "process_recorder \<Rightarrow> process_recorder" where
  "recorder_stop_request recorder = recorder\<lparr>rc_stop_requested := True\<rparr>"

text \<open>The worker's sections: taking a node, giving up after a failed write, and recording a
  failed close.\<close>

datatype recorder_decision = Rec_Wait | Rec_Break | Rec_Write record_node

definition recorder_next :: "process_recorder \<Rightarrow> recorder_decision \<times> process_recorder" where
  "recorder_next recorder =
     (case rc_queue recorder of
        [] \<Rightarrow> (if rc_stop_requested recorder then Rec_Break else Rec_Wait, recorder)
      | node # rest \<Rightarrow>
          (Rec_Write node, recorder\<lparr>rc_queue := rest,
             rc_queued := (if 0 < rc_queued recorder then rc_queued recorder - 1
               else rc_queued recorder)\<rparr>))"

definition recorder_give_up :: "int \<Rightarrow> process_recorder \<Rightarrow> process_recorder" where
  "recorder_give_up errno recorder = recorder\<lparr>
     rc_failure := (if rc_failure recorder = 0 then errno_or_eio errno else rc_failure recorder),
     rc_stop_requested := True, rc_queue := [], rc_queued := 0\<rparr>"

definition recorder_close :: "int option \<Rightarrow> process_recorder \<Rightarrow> process_recorder" where
  "recorder_close error recorder =
     (if \<not> rc_file recorder then recorder
      else case error of
          None \<Rightarrow> recorder\<lparr>rc_file := False\<rparr>
        | Some e \<Rightarrow> recorder\<lparr>rc_failure := (if rc_failure recorder = 0 then errno_or_eio e
              else rc_failure recorder), rc_file := False\<rparr>)"

subsection \<open>The threads\<close>

datatype recorder_worker = Rec_Head | Rec_Blocked | Rec_Writing record_node | Rec_Closing
  | Rec_Leaving | Rec_Exited
datatype recorder_owner = Rec_Owning | Rec_Stopping | Rec_Gone

record recorder_world =
  rv_recorder :: process_recorder
  rv_worker :: recorder_worker
  rv_owner :: recorder_owner
  rv_accepted :: "record_node list"
  rv_written :: "record_node list"
  rv_dropped :: bool

definition rec_wake :: "bool \<Rightarrow> recorder_worker \<Rightarrow> recorder_worker" where
  "rec_wake signal pc = (if signal \<and> pc = Rec_Blocked then Rec_Head else pc)"

definition recorder_start :: "process_recorder \<Rightarrow> recorder_world" where
  "recorder_start recorder = \<lparr>rv_recorder = recorder, rv_worker = Rec_Head, rv_owner = Rec_Owning,
     rv_accepted = [], rv_written = [], rv_dropped = False\<rparr>"

inductive recorder_step :: "recorder_world \<Rightarrow> recorder_world \<Rightarrow> bool" where
  block: "rv_worker w = Rec_Head \<Longrightarrow> recorder_next (rv_recorder w) = (Rec_Wait, r) \<Longrightarrow>
    recorder_step w (w\<lparr>rv_recorder := r, rv_worker := Rec_Blocked\<rparr>)"
| spurious: "rv_worker w = Rec_Blocked \<Longrightarrow> recorder_step w (w\<lparr>rv_worker := Rec_Head\<rparr>)"
| break: "rv_worker w = Rec_Head \<Longrightarrow> recorder_next (rv_recorder w) = (Rec_Break, r) \<Longrightarrow>
    recorder_step w (w\<lparr>rv_recorder := r, rv_worker := Rec_Closing\<rparr>)"
| pop: "rv_worker w = Rec_Head \<Longrightarrow> recorder_next (rv_recorder w) = (Rec_Write node, r) \<Longrightarrow>
    recorder_step w (w\<lparr>rv_recorder := r, rv_worker := Rec_Writing node\<rparr>)"
| write_ok: "rv_worker w = Rec_Writing node \<Longrightarrow>
    recorder_step w (w\<lparr>rv_worker := Rec_Head, rv_written := rv_written w @ [node]\<rparr>)"
| write_failed: "rv_worker w = Rec_Writing node \<Longrightarrow>
    recorder_step w (w\<lparr>rv_recorder := recorder_give_up errno (rv_recorder w),
      rv_worker := Rec_Closing, rv_dropped := True\<rparr>)"
| close: "rv_worker w = Rec_Closing \<Longrightarrow>
    recorder_step w (w\<lparr>rv_recorder := recorder_close error (rv_recorder w), rv_worker := Rec_Leaving\<rparr>)"
| leave: "rv_worker w = Rec_Leaving \<Longrightarrow>
    recorder_step w (w\<lparr>rv_recorder := recorder_release (rv_recorder w), rv_worker := Rec_Exited\<rparr>)"
| append: "rv_owner w = Rec_Owning \<Longrightarrow>
    lsm_process_recorder_append now process (rv_recorder w) = (ok, signal, r) \<Longrightarrow>
    recorder_step w (w\<lparr>rv_recorder := r, rv_worker := rec_wake signal (rv_worker w),
      rv_accepted := rv_accepted w @ (if ok then [record_of now process] else [])\<rparr>)"
| stop: "rv_owner w = Rec_Owning \<Longrightarrow>
    recorder_step w (w\<lparr>rv_recorder := recorder_stop_request (rv_recorder w),
      rv_worker := rec_wake True (rv_worker w), rv_owner := Rec_Stopping\<rparr>)"
| owner_release: "rv_owner w = Rec_Stopping \<Longrightarrow>
    recorder_step w (w\<lparr>rv_recorder := recorder_release (rv_recorder w), rv_owner := Rec_Gone\<rparr>)"

inductive recorder_reachable :: "recorder_world \<Rightarrow> bool" where
  created: "lsm_process_recorder_create path outcome = (0, Some recorder) \<Longrightarrow>
    recorder_reachable (recorder_start recorder)"
| stepped: "recorder_reachable w \<Longrightarrow> recorder_step w w' \<Longrightarrow> recorder_reachable w'"

subsection \<open>The invariants\<close>

interpretation recorder_refs: ref_counted rc_references rc_freed recorder_release
  by unfold_locales (simp_all add: recorder_release_def Let_def)

definition recorder_holders :: "recorder_world \<Rightarrow> nat" where
  "recorder_holders w = (if rv_owner w = Rec_Gone then 0 else 1) +
     (if rv_worker w = Rec_Exited then 0 else 1)"

definition recorder_counted :: "recorder_world \<Rightarrow> bool" where
  "recorder_counted w \<longleftrightarrow> recorder_refs.counted_by (recorder_holders w) (rv_recorder w)"

text \<open>Samples on their way: the one being written and those in the queue.\<close>

definition in_flight :: "recorder_world \<Rightarrow> record_node list" where
  "in_flight w = (case rv_worker w of Rec_Writing node \<Rightarrow> [node] | _ \<Rightarrow> []) @ rc_queue (rv_recorder w)"

definition worker_done :: "recorder_world \<Rightarrow> bool" where
  "worker_done w \<longleftrightarrow> rv_worker w \<in> {Rec_Closing, Rec_Leaving, Rec_Exited}"

definition recorder_ok :: "recorder_world \<Rightarrow> bool" where
  "recorder_ok w \<longleftrightarrow>
     (let r = rv_recorder w in
      rc_queued r = length (rc_queue r) \<and> rc_queued r \<le> LSM_PROCESS_RECORDER_MAX_QUEUED \<and>
      (worker_done w \<longrightarrow> rc_queue r = [] \<and> rc_stop_requested r) \<and>
      (rv_worker w = Rec_Blocked \<longrightarrow> rc_queue r = [] \<and> \<not> rc_stop_requested r) \<and>
      (rv_dropped w \<longrightarrow> rc_failure r \<noteq> 0 \<and> worker_done w) \<and>
      (rv_owner w \<noteq> Rec_Owning \<longrightarrow> rc_stop_requested r) \<and>
      (if rv_dropped w then prefix (rv_written w) (rv_accepted w)
       else rv_accepted w = rv_written w @ in_flight w))"

lemma recorder_holders_pos: "recorder_step w w' \<Longrightarrow> 0 < recorder_holders w"
  by (auto simp: recorder_holders_def elim!: recorder_step.cases)

lemma recorder_release_step:
  assumes "recorder_counted w" "rv_recorder w' = recorder_release (rv_recorder w)"
    "recorder_holders w = Suc (recorder_holders w')"
  shows "recorder_counted w'"
  using assms recorder_refs.counted_release unfolding recorder_counted_def by metis

lemmas recorder_defs = recorder_next_def recorder_give_up_def recorder_close_def
  lsm_process_recorder_append_def recorder_stop_request_def rec_wake_def

lemma recorder_counted_step:
  assumes "recorder_step w w'" "recorder_counted w"
  shows "recorder_counted w'"
  using assms(1)
proof cases
  case leave
  then show ?thesis
    by (intro recorder_release_step [OF assms(2)]) (auto simp: recorder_holders_def)
next
  case owner_release
  then show ?thesis
    by (intro recorder_release_step [OF assms(2)]) (auto simp: recorder_holders_def)
qed (use assms(2) in \<open>auto simp: recorder_counted_def recorder_refs.counted_by_def
    recorder_holders_def recorder_defs split: if_splits option.splits list.splits\<close>)

lemma release_fields:
  "rc_queued (recorder_release r) = rc_queued r" "rc_failure (recorder_release r) = rc_failure r"
  "rc_stop_requested (recorder_release r) = rc_stop_requested r"
  "rc_references r \<noteq> 1 \<Longrightarrow> rc_queue (recorder_release r) = rc_queue r"
  "rc_queue r = [] \<Longrightarrow> rc_queue (recorder_release r) = []"
  by (simp_all add: recorder_release_def Let_def)

lemma recorder_ok_step:
  assumes "recorder_step w w'" "recorder_ok w" "recorder_counted w"
  shows "recorder_ok w'"
  using assms(1)
proof cases
  case (pop node r)
  with assms(2) show ?thesis
    by (auto simp: recorder_ok_def worker_done_def in_flight_def recorder_next_def Let_def
        split: list.splits if_splits)
next
  case (append now process ok signal r)
  with assms(2) show ?thesis
    by (auto simp: recorder_ok_def worker_done_def in_flight_def recorder_defs ENOBUFS_def Let_def
        split: if_splits recorder_worker.splits)
next
  case (write_failed node errno)
  with assms(2) show ?thesis
    by (auto simp: recorder_ok_def worker_done_def in_flight_def recorder_defs errno_or_eio_def
        EIO_def Let_def split: if_splits)
next
  case (close error)
  with assms(2) show ?thesis
    by (auto simp: recorder_ok_def worker_done_def in_flight_def recorder_defs Let_def
        errno_or_eio_def EIO_def split: if_splits option.splits)
next
  case leave
  with assms(2) show ?thesis
    by (auto simp: recorder_ok_def worker_done_def in_flight_def release_fields Let_def split: if_splits)
next
  case owner_release
  have "rc_references (rv_recorder w) \<noteq> 1 \<or> rc_queue (rv_recorder w) = []"
    using assms(2,3) owner_release by (auto simp: recorder_counted_def recorder_refs.counted_by_def
        recorder_holders_def recorder_ok_def worker_done_def Let_def split: if_splits)
  then have "rc_queue (recorder_release (rv_recorder w)) = rc_queue (rv_recorder w)"
    by (auto simp: release_fields)
  with owner_release assms(2) show ?thesis
    by (auto simp: recorder_ok_def worker_done_def in_flight_def release_fields Let_def split: if_splits)
qed (use assms(2) in \<open>auto simp: recorder_ok_def worker_done_def in_flight_def recorder_defs Let_def
    split: if_splits list.splits recorder_worker.splits\<close>)

lemma recorder_invariant: "recorder_reachable w \<Longrightarrow> recorder_ok w \<and> recorder_counted w"
proof (induction rule: recorder_reachable.induct)
  case (created path outcome recorder)
  then have "recorder = new_recorder"
    by (auto simp: lsm_process_recorder_create_def split: if_splits option.splits)
  then show ?case
    by (simp add: recorder_ok_def recorder_counted_def recorder_refs.counted_by_def in_flight_def
        recorder_holders_def worker_done_def recorder_start_def new_recorder_def
        LSM_PROCESS_RECORDER_MAX_QUEUED_def)
next
  case (stepped w w')
  then show ?case using recorder_ok_step recorder_counted_step by blast
qed

subsection \<open>Draining\<close>

inductive recorder_run :: "recorder_world \<Rightarrow> nat \<Rightarrow> recorder_world \<Rightarrow> bool" where
  idle: "recorder_run w 0 w"
| step: "recorder_run w n w' \<Longrightarrow> recorder_step w' w'' \<Longrightarrow> recorder_run w (Suc n) w''"

definition drain_bound :: "recorder_world \<Rightarrow> nat" where
  "drain_bound w = 2 * length (rc_queue (rv_recorder w)) +
     (case rv_worker w of Rec_Exited \<Rightarrow> 0 | Rec_Leaving \<Rightarrow> 1 | Rec_Closing \<Rightarrow> 2 | Rec_Head \<Rightarrow> 3
      | Rec_Writing _ \<Rightarrow> 4 | Rec_Blocked \<Rightarrow> 4) + (if rv_owner w = Rec_Gone then 0 else 1)"

lemma release_queue_length: "length (rc_queue (recorder_release r)) \<le> length (rc_queue r)"
  by (simp add: recorder_release_def Let_def)

lemma stopped_recorder_step:
  assumes "recorder_ok w" "rv_owner w \<noteq> Rec_Owning" "recorder_step w w'"
  shows "drain_bound w' < drain_bound w \<and> rv_owner w' \<noteq> Rec_Owning \<and> rv_accepted w' = rv_accepted w"
  using assms(3)
proof cases
  case leave
  with assms(1,2) release_queue_length [of "rv_recorder w"] show ?thesis by (auto simp: drain_bound_def)
next
  case owner_release
  with assms(1,2) release_queue_length [of "rv_recorder w"] show ?thesis by (auto simp: drain_bound_def)
qed (use assms(1,2) in \<open>auto simp: drain_bound_def recorder_ok_def recorder_next_def
    recorder_give_up_def recorder_close_def Let_def split: if_splits list.splits option.splits\<close>)

lemma recorder_run_reachable: "recorder_run w n w' \<Longrightarrow> recorder_reachable w \<Longrightarrow> recorder_reachable w'"
  by (induction rule: recorder_run.induct) (auto intro: recorder_reachable.stepped)

lemma stopped_recorder_run:
  assumes "recorder_run w n w'" "recorder_reachable w" "rv_owner w \<noteq> Rec_Owning"
  shows "n + drain_bound w' \<le> drain_bound w \<and> rv_owner w' \<noteq> Rec_Owning \<and> rv_accepted w' = rv_accepted w"
  using assms
proof (induction rule: recorder_run.induct)
  case (step w n w' w'')
  then have "recorder_ok w'" using recorder_run_reachable recorder_invariant by blast
  with stopped_recorder_step [OF this _ step.hyps(2)] step show ?case by auto
qed simp

lemma recorder_holder_steps:
  assumes "0 < recorder_holders w" "rv_owner w \<noteq> Rec_Owning"
  shows "\<exists>w'. recorder_step w w'"
proof -
  consider "rv_owner w = Rec_Stopping" | "rv_worker w \<noteq> Rec_Exited"
    using assms by (cases "rv_owner w") (auto simp: recorder_holders_def split: if_splits)
  then show ?thesis
  proof cases
    case 2
    then show ?thesis
    proof (cases "rv_worker w")
      case Rec_Head
      then show ?thesis
        by (cases "recorder_next (rv_recorder w)"; cases "fst (recorder_next (rv_recorder w))")
          (auto intro: block break pop)
    qed (auto intro: spurious write_ok close leave)
  qed (blast intro: owner_release)
qed

subsection \<open>Properties\<close>

text \<open>C29. Recording loses and reorders nothing silently: in every reachable state the queue is
  bounded and its counter exact, what was written is an initial part of what was accepted, and
  unless the worker had to give up (which sets the failure code) what was accepted is exactly
  what was written followed by what is still on its way. A worker asleep has nothing to do, and
  the recorder is freed exactly once, by the last holder.\<close>

theorem recorder_fifo:
  assumes "recorder_reachable w"
  shows "rc_queued (rv_recorder w) = length (rc_queue (rv_recorder w)) \<and>
    rc_queued (rv_recorder w) \<le> LSM_PROCESS_RECORDER_MAX_QUEUED \<and>
    prefix (rv_written w) (rv_accepted w) \<and>
    (rv_dropped w \<longrightarrow> rc_failure (rv_recorder w) \<noteq> 0) \<and>
    (\<not> rv_dropped w \<longrightarrow> rv_accepted w = rv_written w @ in_flight w) \<and>
    (rv_worker w = Rec_Blocked \<longrightarrow>
      rc_queue (rv_recorder w) = [] \<and> \<not> rc_stop_requested (rv_recorder w)) \<and>
    rc_freed (rv_recorder w) = (if recorder_holders w = 0 then 1 else 0)"
proof -
  have ok: "recorder_ok w" and c: "recorder_counted w" using recorder_invariant [OF assms] by auto
  have "prefix (rv_written w) (rv_accepted w)"
    using ok by (auto simp: recorder_ok_def Let_def split: if_splits)
  with ok c show ?thesis
    by (auto simp: recorder_ok_def recorder_counted_def recorder_refs.counted_by_def Let_def
        split: if_splits)
qed

lemma example_recorder_reachable: "recorder_reachable (recorder_start new_recorder)"
  by (rule recorder_reachable.created [of "Some ''a.csv''" "\<lparr>ro_mutex_init = True,
        ro_cond_init = True, ro_fopen = None, ro_header = None, ro_thread_error = 0\<rparr>"])
    (simp add: lsm_process_recorder_create_def)

theorem recorder_fifo_witness:
  "prefix (rv_written (recorder_start new_recorder)) (rv_accepted (recorder_start new_recorder))"
  using recorder_fifo [OF example_recorder_reachable] by blast

text \<open>C30. Ordered drain: once the application has stopped the recorder, every interleaving is
  over within a bound that depends on the queue only, and when nothing is left to do the
  recorder has been freed and, unless a failure was reported, every accepted sample was
  written.\<close>

theorem recorder_drain:
  assumes "recorder_reachable w" "rv_owner w \<noteq> Rec_Owning" "recorder_run w n w'"
  shows "n \<le> drain_bound w \<and> rv_accepted w' = rv_accepted w \<and>
    ((\<nexists>w''. recorder_step w' w'') \<longrightarrow>
      rc_freed (rv_recorder w') = 1 \<and>
      (rc_failure (rv_recorder w') = 0 \<longrightarrow> rv_written w' = rv_accepted w))"
proof -
  note run = stopped_recorder_run [OF assms(3,1,2)]
  have ok: "recorder_ok w'" and c: "recorder_counted w'"
    using recorder_invariant [OF recorder_run_reachable [OF assms(3,1)]] by auto
  have "rc_freed (rv_recorder w') = 1 \<and>
      (rc_failure (rv_recorder w') = 0 \<longrightarrow> rv_written w' = rv_accepted w)"
    if "\<nexists>w''. recorder_step w' w''"
  proof -
    have "recorder_holders w' = 0" using recorder_holder_steps [of w'] that run by auto
    moreover from this have "worker_done w'"
      by (auto simp: recorder_holders_def worker_done_def split: if_splits)
    ultimately show ?thesis
      using ok c run by (auto simp: recorder_ok_def recorder_counted_def recorder_refs.counted_by_def
          in_flight_def worker_done_def Let_def split: if_splits)
  qed
  with run show ?thesis by auto
qed

definition stopped_recorder :: recorder_world where
  "stopped_recorder = (recorder_start new_recorder)\<lparr>rv_recorder := recorder_stop_request new_recorder,
     rv_worker := rec_wake True Rec_Head, rv_owner := Rec_Stopping\<rparr>"

theorem recorder_drain_witness:
  "1 \<le> drain_bound stopped_recorder"
proof -
  have "recorder_step (recorder_start new_recorder) stopped_recorder"
    using stop [of "recorder_start new_recorder"] by (simp add: recorder_start_def stopped_recorder_def)
  then have r: "recorder_reachable stopped_recorder"
    using example_recorder_reachable by (rule recorder_reachable.stepped [rotated])
  have o: "rv_owner stopped_recorder = Rec_Stopping" by (simp add: stopped_recorder_def)
  from recorder_drain [OF r _ recorder_run.step [OF recorder_run.idle owner_release [OF o]]] o
  show ?thesis by simp
qed

end
