(* ===== verification/Smbios_Memory.thy ===== *)
theory Smbios_Memory
  imports Common_Library "HOL-Library.Monad_Syntax"
begin

text \<open>
  \<^verbatim>\<open>src/smbios_memory.c\<close>: the walk over a raw DMI table that collects the Type-17 memory devices.
  The table comes from firmware, so every read is checked here: \<open>get\<close> and the loads give
  \<open>None\<close> outside the table, where the C code would read out of bounds, and the theorems show that
  this never happens, whatever the bytes. The system calls of \<^verbatim>\<open>read_table\<close> are the record
  \<open>table_file\<close>, with the \<^verbatim>\<open>strerror\<close> text of a failed call as its left value. Slot counters are
  naturals: a table of at most 16 MiB cannot overflow them.
\<close>

definition LSM_DMI_MAX_BYTES :: nat where "LSM_DMI_MAX_BYTES = 16 * 1024 * 1024"

definition SMBIOS_TYPE_MEMORY_DEVICE :: u8 where "SMBIOS_TYPE_MEMORY_DEVICE = 17"

definition SMBIOS_TYPE_END :: u8 where "SMBIOS_TYPE_END = 127"

definition LSM_SMBIOS_MAX_MODULES :: nat where "LSM_SMBIOS_MAX_MODULES = 32"

record smbios_memory_module =
  sm_locator :: string
  sm_bank_locator :: string
  sm_manufacturer :: string
  sm_part_number :: string
  sm_serial_number :: string
  sm_memory_type :: string
  sm_form_factor :: string
  sm_size_bytes :: u64
  sm_speed_mhz :: u32

record smbios_memory_info =
  si_speed_mhz :: u32
  si_slots_used :: nat
  si_slots_total :: nat
  si_form_factor :: string
  si_modules :: "smbios_memory_module list"

definition empty_info :: smbios_memory_info where
  "empty_info = \<lparr>si_speed_mhz = 0, si_slots_used = 0, si_slots_total = 0, si_form_factor = ''N/A'',
     si_modules = []\<rparr>"

definition form_factor_name :: "u8 \<Rightarrow> string" where
  "form_factor_name v =
     (let names = ['''', ''Other'', ''Unknown'', ''SIMM'', ''SIP'', ''Chip'', ''DIP'', ''ZIP'',
            ''Proprietary Card'', ''DIMM'', ''TSOP'', ''Row of Chips'', ''RIMM'', ''SODIMM'', ''SRIMM'',
            ''FB-DIMM'', ''Die'']
      in if unat v < length names then names ! unat v else ''Unknown'')"

definition memory_type_name :: "u8 \<Rightarrow> string" where
  "memory_type_name v =
     (if v = 0x12 then ''DDR'' else if v = 0x13 then ''DDR2'' else if v = 0x18 then ''DDR3''
      else if v = 0x1a then ''DDR4'' else if v = 0x1b then ''LPDDR'' else if v = 0x1c then ''LPDDR2''
      else if v = 0x1d then ''LPDDR3'' else if v = 0x1e then ''LPDDR4'' else if v = 0x20 then ''HBM''
      else if v = 0x21 then ''HBM2'' else if v = 0x22 then ''DDR5'' else if v = 0x23 then ''LPDDR5''
      else if v = 0x24 then ''HBM3'' else ''N/A'')"

text \<open>A record is the table from an offset on; \<open>len\<close> is its formatted length.\<close>

definition memory_size_bytes :: "common \<Rightarrow> u8 list \<Rightarrow> nat \<Rightarrow> nat \<Rightarrow> u64 option" where
  "memory_size_bytes c table record_at len =
     (if len \<le> 0x0d then Some 0
      else do {
        encoded \<leftarrow> get16 c table (record_at + 0x0c);
        if encoded = 0 \<or> encoded = 0xffff then Some 0
        else if encoded = 0x7fff then
          if len < 0x20 then Some 0
          else do {
            extended \<leftarrow> get32 c table (record_at + 0x1c);
            Some (ucast extended * 1024 * 1024)
          }
        else if encoded AND 0x8000 \<noteq> 0 then Some (ucast (encoded AND 0x7fff) * 1024)
        else Some (ucast encoded * 1024 * 1024)
      })"

definition populated_memory_device :: "common \<Rightarrow> u8 list \<Rightarrow> nat \<Rightarrow> nat \<Rightarrow> bool option" where
  "populated_memory_device c table record_at len =
     (if len \<le> 0x0d then Some False
      else do {
        size16 \<leftarrow> get16 c table (record_at + 0x0c);
        if size16 = 0 \<or> size16 = 0xffff then Some False
        else if size16 \<noteq> 0x7fff then Some True
        else if len < 0x20 then Some False
        else do {
          extended \<leftarrow> get32 c table (record_at + 0x1c);
          Some (extended \<noteq> 0)
        }
      })"

definition memory_speed :: "common \<Rightarrow> u8 list \<Rightarrow> nat \<Rightarrow> nat \<Rightarrow> u32 option" where
  "memory_speed c table record_at len = do {
     rated \<leftarrow> (if 0x17 \<le> len then map_option ucast (get16 c table (record_at + 0x15)) else Some 0);
     configured \<leftarrow> (if 0x22 \<le> len then map_option ucast (get16 c table (record_at + 0x20)) else Some 0);
     rated \<leftarrow> (if rated = 0xffff \<and> 0x58 \<le> len then get32 c table (record_at + 0x54) else Some rated);
     configured \<leftarrow> (if configured = 0xffff \<and> 0x5c \<le> len then get32 c table (record_at + 0x58)
       else Some configured);
     let configured = (if configured = 0xffff then 0 else configured);
         rated = (if rated = 0xffff then 0 else rated)
     in Some (if configured \<noteq> 0 then configured else rated)
   }"

text \<open>The position of the next NUL byte, or of the end of the area.\<close>

function string_stop :: "u8 list \<Rightarrow> nat \<Rightarrow> nat \<Rightarrow> nat option" where
  "string_stop table strings_end cursor =
     (if cursor < strings_end then
        do {
          b \<leftarrow> get table cursor;
          if b \<noteq> 0 then string_stop table strings_end (cursor + 1) else Some cursor
        }
      else Some cursor)"
  by pat_completeness auto
termination by (relation "measure (\<lambda>(t, e, cursor). e - cursor)") auto

text \<open>Trailing blanks and tabs are cut off.\<close>

fun trim_blanks :: "u8 list \<Rightarrow> nat \<Rightarrow> nat \<Rightarrow> nat option" where
  "trim_blanks table start 0 = Some 0"
| "trim_blanks table start (Suc n) = do {
     b \<leftarrow> get table (start + n);
     if b = 32 \<or> b = 9 then trim_blanks table start n else Some (Suc n)
   }"

definition area :: "u8 list \<Rightarrow> nat \<Rightarrow> nat \<Rightarrow> u8 list option" where
  "area table start n = (if start + n \<le> length table then Some (take n (drop start table)) else None)"

text \<open>\<^verbatim>\<open>while (length > 0U && !infiltratr_utf8_validate(...)) length--\<close>.\<close>

fun shorten :: "common \<Rightarrow> u8 list \<Rightarrow> nat \<Rightarrow> nat" where
  "shorten c bytes 0 = 0"
| "shorten c bytes (Suc n) =
     (if infiltratr_utf8_validate c (take (Suc n) bytes) then Suc n else shorten c bytes n)"

definition bytes_text :: "u8 list \<Rightarrow> string" where
  "bytes_text bs = map (\<lambda>b. char_of (unat b)) bs"

declare string_stop.simps [simp del]

definition store_string :: "common \<Rightarrow> u8 list \<Rightarrow> nat \<Rightarrow> string" where
  "store_string c bytes destination_size =
     (if \<not> infiltratr_utf8_validate c bytes then ''N/A''
      else
        let stored = (if destination_size \<le> length bytes
              then take (shorten c bytes (destination_size - 1)) bytes else bytes)
        in if stored = [] then ''N/A'' else bytes_text stored)"

lemma string_stop_ge: "string_stop table e cursor = Some stop \<Longrightarrow> cursor \<le> stop"
  by (induction table e cursor arbitrary: stop rule: string_stop.induct)
    (subst (asm) (2) string_stop.simps,
     fastforce split: if_splits simp: bind_eq_Some_conv)

function select_string ::
  "common \<Rightarrow> u8 list \<Rightarrow> nat \<Rightarrow> nat \<Rightarrow> nat \<Rightarrow> nat \<Rightarrow> nat \<Rightarrow> string option" where
  "select_string c table strings_end string_index destination_size cursor current =
     (if cursor < strings_end then
        case string_stop table strings_end cursor of
          None \<Rightarrow> None
        | Some stop \<Rightarrow>
            if current = string_index then do {
              len \<leftarrow> trim_blanks table cursor (stop - cursor);
              bytes \<leftarrow> area table cursor len;
              Some (store_string c bytes destination_size)
            }
            else if strings_end \<le> stop then Some ''N/A''
            else select_string c table strings_end string_index destination_size (stop + 1) (current + 1)
      else Some ''N/A'')"
  by pat_completeness auto
termination by (relation "measure (\<lambda>(c, t, e, i, d, cursor, k). e - cursor)")
    (auto dest: string_stop_ge)

declare select_string.simps [simp del]

definition copy_smbios_string ::
  "common \<Rightarrow> u8 list \<Rightarrow> nat \<Rightarrow> nat \<Rightarrow> u8 \<Rightarrow> nat \<Rightarrow> string option" where
  "copy_smbios_string c table strings_start strings_end string_index destination_size =
     (if string_index = 0 \<or> strings_end \<le> strings_start \<or> length table < strings_end
      then Some ''N/A''
      else select_string c table strings_end (unat string_index) destination_size strings_start 1)"

text \<open>The end of the string area: the first double NUL, or the last byte of the table.\<close>

function strings_stop :: "u8 list \<Rightarrow> nat \<Rightarrow> nat option" where
  "strings_stop table next =
     (if next + 1 < length table then
        do {
          a \<leftarrow> get table next;
          b \<leftarrow> get table (next + 1);
          if a \<noteq> 0 \<or> b \<noteq> 0 then strings_stop table (next + 1) else Some next
        }
      else Some next)"
  by pat_completeness auto
termination by (relation "measure (\<lambda>(t, n). length t - n)") auto

declare strings_stop.simps [simp del]

text \<open>The optional byte of a record: present when the record is long enough.\<close>

definition field8 :: "u8 list \<Rightarrow> nat \<Rightarrow> nat \<Rightarrow> nat \<Rightarrow> u8 option" where
  "field8 table record_at len k = (if k < len then get table (record_at + k) else Some 0)"

definition read_module ::
  "common \<Rightarrow> u8 list \<Rightarrow> nat \<Rightarrow> nat \<Rightarrow> nat \<Rightarrow> nat \<Rightarrow> u32 \<Rightarrow> smbios_memory_module option" where
  "read_module c table record_at len strings_start next speed = do {
     size_bytes \<leftarrow> memory_size_bytes c table record_at len;
     form_factor \<leftarrow> (if 0x0e < len then map_option form_factor_name (get table (record_at + 0x0e))
       else Some ''N/A'');
     memory_type \<leftarrow> (if 0x12 < len then map_option memory_type_name (get table (record_at + 0x12))
       else Some ''N/A'');
     i \<leftarrow> field8 table record_at len 0x10;
     locator \<leftarrow> copy_smbios_string c table strings_start next i 64;
     i \<leftarrow> field8 table record_at len 0x11;
     bank_locator \<leftarrow> copy_smbios_string c table strings_start next i 64;
     i \<leftarrow> field8 table record_at len 0x17;
     manufacturer \<leftarrow> copy_smbios_string c table strings_start next i 64;
     i \<leftarrow> field8 table record_at len 0x18;
     serial_number \<leftarrow> copy_smbios_string c table strings_start next i 64;
     i \<leftarrow> field8 table record_at len 0x1a;
     part_number \<leftarrow> copy_smbios_string c table strings_start next i 96;
     Some \<lparr>sm_locator = locator, sm_bank_locator = bank_locator, sm_manufacturer = manufacturer,
       sm_part_number = part_number, sm_serial_number = serial_number,
       sm_memory_type = infiltratr_copy_string c 32 memory_type,
       sm_form_factor = infiltratr_copy_string c 32 form_factor,
       sm_size_bytes = size_bytes, sm_speed_mhz = speed\<rparr>
   }"

text \<open>The body of the loop for a memory device; the flag is \<^verbatim>\<open>modules_complete\<close>.\<close>

definition memory_device ::
  "common \<Rightarrow> u8 list \<Rightarrow> nat \<Rightarrow> nat \<Rightarrow> nat \<Rightarrow> nat \<Rightarrow> smbios_memory_info \<times> bool \<Rightarrow>
     (smbios_memory_info \<times> bool) option" where
  "memory_device c table record_at len strings_start next acc =
     (case acc of (info, modules_complete) \<Rightarrow> do {
        let info = info\<lparr>si_slots_total := si_slots_total info + 1\<rparr> in
        do {
        populated \<leftarrow> populated_memory_device c table record_at len;
        if \<not> populated then Some (info, modules_complete)
        else do {
          speed \<leftarrow> memory_speed c table record_at len;
          name \<leftarrow> (if si_form_factor info = ''N/A'' \<and> 0x0e < len
            then map_option form_factor_name (get table (record_at + 0x0e)) else Some ''Unknown'');
          let info = info\<lparr>si_slots_used := si_slots_used info + 1,
                si_speed_mhz := (if 0 < speed \<and> (si_speed_mhz info = 0 \<or> speed < si_speed_mhz info)
                  then speed else si_speed_mhz info),
                si_form_factor := (if name \<noteq> ''Unknown'' \<and> name \<noteq> []
                  then infiltratr_copy_string c 64 name else si_form_factor info)\<rparr>
          in if length (si_modules info) < LSM_SMBIOS_MAX_MODULES then do {
               module \<leftarrow> read_module c table record_at len strings_start next speed;
               Some (info\<lparr>si_modules := si_modules info @ [module]\<rparr>, modules_complete)
             }
             else Some (info, False)
        } }
      })"

lemma strings_stop_ge: "strings_stop table n = Some stop \<Longrightarrow> n \<le> stop"
  by (induction table n arbitrary: stop rule: strings_stop.induct)
    (subst (asm) (2) strings_stop.simps,
     fastforce split: if_splits simp: bind_eq_Some_conv)

text \<open>The loop over the structures of the table.\<close>

function read_structures ::
  "common \<Rightarrow> u8 list \<Rightarrow> nat \<Rightarrow> smbios_memory_info \<times> bool \<Rightarrow> (smbios_memory_info \<times> bool) option" where
  "read_structures c table offset acc =
     (if offset + 4 \<le> length table then
        do {
          kind \<leftarrow> get table offset;
          len \<leftarrow> map_option unat (get table (offset + 1));
          if len < 4 \<or> length table < offset + len then Some acc
          else do {
            next \<leftarrow> strings_stop table (offset + len);
            if length table \<le> next + 1 then Some acc
            else do {
              acc \<leftarrow> (if kind = SMBIOS_TYPE_MEMORY_DEVICE
                then memory_device c table offset len (offset + len) next acc else Some acc);
              if kind = SMBIOS_TYPE_END then Some acc
              else read_structures c table (next + 2) acc
            }
          }
        }
      else Some acc)"
  by pat_completeness auto
termination
  by (relation "measure (\<lambda>(c, t, offset, acc). length t - offset)") (auto dest: strings_stop_ge)

declare read_structures.simps [simp del]

record table_file =
  tf_open :: "string + unit"
  tf_stat :: "string + int"
  tf_read_full :: "nat \<Rightarrow> string + u8 list"
  tf_close :: "string + unit"

definition set_error :: "nat \<Rightarrow> string \<Rightarrow> string \<Rightarrow> string" where
  "set_error n message detail =
     (if n = 0 then '''' else take (n - 1) (if detail \<noteq> '''' then message @ '': '' @ detail else message))"

definition read_table :: "table_file \<Rightarrow> nat \<Rightarrow> string + u8 list" where
  "read_table f n =
     (case tf_open f of
        Inl e \<Rightarrow> Inl (set_error n ''Unable to open DMI table'' e)
      | Inr _ \<Rightarrow>
     (case tf_stat f of
        Inl e \<Rightarrow> Inl (set_error n ''Unable to inspect DMI table'' e)
      | Inr st_size \<Rightarrow>
        if st_size \<le> 0 \<or> int LSM_DMI_MAX_BYTES < st_size
        then Inl (set_error n ''DMI table has an invalid size'' '''')
        else
     (case tf_read_full f (nat st_size) of
        Inl e \<Rightarrow> Inl (set_error n ''Unable to read DMI table'' e)
      | Inr bytes \<Rightarrow>
     (case tf_close f of
        Inl e \<Rightarrow> Inl (set_error n ''Unable to close DMI table'' e)
      | Inr _ \<Rightarrow> Inr bytes))))"

definition LSM_DMI_DEFAULT_PATH :: string where
  "LSM_DMI_DEFAULT_PATH = ''/sys/firmware/dmi/tables/DMI''"

text \<open>
  The result is the returned flag, the structure and the diagnostic buffer of \<open>n\<close> bytes; \<open>None\<close>
  would be a read outside the table.
\<close>

definition lsm_smbios_memory_read ::
  "common \<Rightarrow> (string \<Rightarrow> table_file) \<Rightarrow> string option \<Rightarrow> nat \<Rightarrow>
     (bool \<times> smbios_memory_info \<times> string) option" where
  "lsm_smbios_memory_read c files path n =
     (let path = (case path of None \<Rightarrow> LSM_DMI_DEFAULT_PATH
                  | Some p \<Rightarrow> if p = '''' then LSM_DMI_DEFAULT_PATH else p)
      in case read_table (files path) n of
        Inl e \<Rightarrow> Some (False, empty_info, e)
      | Inr table \<Rightarrow> do {
          (info, modules_complete) \<leftarrow> read_structures c table 0 (empty_info, True);
          Some
            (if \<not> modules_complete then
               (False, empty_info,
                set_error n ''SMBIOS memory module count exceeds supported capacity'' '''')
             else if si_slots_total info = 0 then
               (False, info, set_error n ''No SMBIOS memory-device records found'' '''')
             else (True, info, ''''))
        })"

subsection \<open>No read outside the table\<close>

lemma string_stop_total:
  "e \<le> length table \<Longrightarrow> cursor \<le> e \<Longrightarrow>
     \<exists>stop. string_stop table e cursor = Some stop \<and> cursor \<le> stop \<and> stop \<le> e"
proof (induction table e cursor rule: string_stop.induct)
  case (1 table e cursor)
  then show ?case
    by (subst string_stop.simps) (auto simp: get_def intro: order_trans Suc_leD)
qed

lemma trim_blanks_total:
  "start + n \<le> length table \<Longrightarrow> \<exists>k \<le> n. trim_blanks table start n = Some k"
  by (induction n) (auto simp: get_def intro: le_SucI)

lemma select_string_total:
  assumes "e \<le> length table"
  shows "\<exists>s. select_string c table e i d cursor k = Some s"
  using assms
proof (induction c table e i d cursor k rule: select_string.induct)
  case (1 c table e i d cursor k)
  show ?case
  proof (cases "cursor < e")
    case True
    then obtain stop where stop: "string_stop table e cursor = Some stop" "cursor \<le> stop" "stop \<le> e"
      using string_stop_total [of e table cursor] 1(2) by auto
    then obtain n where n: "n \<le> stop - cursor" "trim_blanks table cursor (stop - cursor) = Some n"
      using trim_blanks_total [of cursor "stop - cursor" table] 1(2) by auto
    then have "area table cursor n = Some (take n (drop cursor table))"
      using stop 1(2) by (simp add: area_def)
    then show ?thesis
      using True stop n 1 by (subst select_string.simps) (auto simp: not_le)
  qed (subst select_string.simps, simp)
qed

lemma copy_smbios_string_total: "\<exists>s. copy_smbios_string c table a e i d = Some s"
  using select_string_total [of e table c] by (auto simp: copy_smbios_string_def not_less)

lemma strings_stop_total: "\<exists>stop. strings_stop table n = Some stop"
proof (induction table n rule: strings_stop.induct)
  case (1 table n)
  then show ?case by (subst strings_stop.simps) (auto simp: get_def)
qed

lemma memory_reads_total:
  assumes "pos + len \<le> length table"
  shows "\<exists>v. memory_size_bytes c table pos len = Some v"
    and "\<exists>v. populated_memory_device c table pos len = Some v"
    and "\<exists>v. memory_speed c table pos len = Some v"
    and "\<exists>v. field8 table pos len k = Some v"
  using assms
  by (auto simp: memory_size_bytes_def populated_memory_device_def memory_speed_def field8_def
      get_def get16_def get32_def Let_def)

lemma read_module_total:
  assumes "pos + len \<le> length table"
  shows "\<exists>m. read_module c table pos len strs nxt speed = Some m"
proof -
  note total = memory_reads_total [OF assms] copy_smbios_string_total [of c table strs nxt]
  have name: "\<exists>v. (if k < len then map_option f (get table (pos + k)) else Some d) = Some v"
    for k d and f :: "u8 \<Rightarrow> string"
    using assms by (auto simp: get_def)
  show ?thesis
    unfolding read_module_def by (intro bind_total total name) simp_all
qed

lemma memory_device_total:
  assumes "pos + len \<le> length table"
  shows "\<exists>r. memory_device c table pos len strs nxt acc = Some r"
proof -
  obtain info fin where acc: "acc = (info, fin)" by fastforce
  have name: "\<exists>v. map_option f (get table (pos + k)) = Some v" if "k < len"
    for k and f :: "u8 \<Rightarrow> string"
    using assms that by (auto simp: get_def)
  show ?thesis
    unfolding memory_device_def acc prod.case Let_def
    by (intro total_intros memory_reads_total [OF assms] read_module_total [OF assms] name) simp_all
qed

lemma read_structures_total: "\<exists>r. read_structures c table offset acc = Some r"
proof (induction c table offset acc rule: read_structures.induct)
  case (1 c table offset acc)
  show ?case
    unfolding read_structures.simps [of c table offset acc]
    by (intro total_intros strings_stop_total memory_device_total 1) (auto simp: get_def)
qed

subsection \<open>The collected structure\<close>

definition stored_ok :: "common \<Rightarrow> nat \<Rightarrow> string \<Rightarrow> bool" where
  "stored_ok c n s \<longleftrightarrow> length s < n \<and>
     (s = ''N/A'' \<or> (\<exists>bs. infiltratr_utf8_validate c bs \<and> s = bytes_text bs))"

definition module_ok :: "common \<Rightarrow> smbios_memory_module \<Rightarrow> bool" where
  "module_ok c m \<longleftrightarrow>
     stored_ok c 64 (sm_locator m) \<and> stored_ok c 64 (sm_bank_locator m) \<and>
     stored_ok c 64 (sm_manufacturer m) \<and> stored_ok c 64 (sm_serial_number m) \<and>
     stored_ok c 96 (sm_part_number m) \<and>
     length (sm_memory_type m) < 32 \<and> length (sm_form_factor m) < 32"

definition slowest :: "smbios_memory_module list \<Rightarrow> u32" where
  "slowest ms = (let xs = filter (\<lambda>v. 0 < v) (map sm_speed_mhz ms)
     in if xs = [] then 0 else Min (set xs))"

definition known_form :: "smbios_memory_module list \<Rightarrow> string" where
  "known_form ms =
     (case filter (\<lambda>f. f \<notin> {''N/A'', ''Unknown'', ''''}) (map sm_form_factor ms) of
        [] \<Rightarrow> ''N/A'' | f # fs \<Rightarrow> f)"

definition memory_info_ok :: "common \<Rightarrow> smbios_memory_info \<Rightarrow> bool" where
  "memory_info_ok c info \<longleftrightarrow>
     si_slots_used info \<le> si_slots_total info \<and>
     length (si_modules info) = si_slots_used info \<and> length (si_modules info) \<le> LSM_SMBIOS_MAX_MODULES \<and>
     (\<forall>m \<in> set (si_modules info). module_ok c m) \<and>
     si_speed_mhz info = slowest (si_modules info) \<and>
     si_form_factor info = known_form (si_modules info) \<and> length (si_form_factor info) < 64"

lemma shorten_bounds:
  "shorten c bytes n \<le> n"
  "shorten c bytes n \<noteq> 0 \<Longrightarrow> infiltratr_utf8_validate c (take (shorten c bytes n) bytes)"
  by (induction n) auto

lemma store_string_ok: "3 < n \<Longrightarrow> stored_ok c n (store_string c bytes n)"
  using shorten_bounds [of c bytes "n - 1"]
  by (auto simp: store_string_def stored_ok_def Let_def bytes_text_def)

lemma select_string_ok:
  assumes "select_string c table e i d cursor k = Some s" and "3 < d"
  shows "stored_ok c d s"
  using assms
proof (induction c table e i d cursor k rule: select_string.induct)
  case (1 c table e i d cursor k)
  have na: "stored_ok c d ''N/A''" using 1(3) by (simp add: stored_ok_def)
  show ?case
    using 1 na by (subst (asm) (2) select_string.simps)
      (auto simp: bind_eq_Some_conv store_string_ok split: if_splits option.splits)
qed

lemma copy_smbios_string_ok:
  "copy_smbios_string c table a e i d = Some s \<Longrightarrow> 3 < d \<Longrightarrow> stored_ok c d s"
  by (auto simp: copy_smbios_string_def stored_ok_def split: if_splits
      dest!: select_string_ok)

lemma slowest_append:
  "slowest (ms @ [m]) =
     (if 0 < sm_speed_mhz m \<and> (slowest ms = 0 \<or> sm_speed_mhz m < slowest ms)
      then sm_speed_mhz m else slowest ms)"
proof -
  define xs where "xs = filter (\<lambda>v. 0 < v) (map sm_speed_mhz ms)"
  have "\<forall>v \<in> set xs. 0 < v" by (simp add: xs_def)
  then have "0 < Min (set xs)" if "xs \<noteq> []"
    using that Min_in [of "set xs"] by simp
  moreover have "slowest (ms @ [m]) =
      (if sm_speed_mhz m = 0 then slowest ms
       else if xs = [] then sm_speed_mhz m else min (Min (set xs)) (sm_speed_mhz m))"
  proof -
    have "filter (\<lambda>v. 0 < v) (map sm_speed_mhz (ms @ [m])) =
        xs @ (if sm_speed_mhz m = 0 then [] else [sm_speed_mhz m])"
      by (simp add: xs_def word_gt_0)
    then show ?thesis by (simp add: slowest_def min.commute flip: xs_def)
  qed
  moreover have "slowest ms = (if xs = [] then 0 else Min (set xs))"
    by (simp add: slowest_def xs_def)
  ultimately show ?thesis by (auto simp: min_def word_gt_0 simp del: Min_gr_iff Min.bounded_iff)
qed

lemma known_form_append:
  "known_form (ms @ [m]) =
     (if known_form ms = ''N/A'' \<and> sm_form_factor m \<notin> {''N/A'', ''Unknown'', ''''}
      then sm_form_factor m else known_form ms)"
proof -
  define P where "P = (\<lambda>f. f \<notin> {''N/A'', ''Unknown'', ''''::string})"
  define xs where "xs = filter P (map sm_form_factor ms)"
  have "\<not> P ''N/A''" by (simp add: P_def)
  then have "''N/A'' \<notin> set xs" by (auto simp: xs_def)
  moreover have "known_form (ms @ [m]) =
      (case xs @ filter P [sm_form_factor m] of [] \<Rightarrow> ''N/A'' | f # fs \<Rightarrow> f)"
    "known_form ms = (case xs of [] \<Rightarrow> ''N/A'' | f # fs \<Rightarrow> f)"
    by (simp_all add: known_form_def xs_def P_def)
  ultimately show ?thesis
    by (cases xs) (auto simp: P_def)
qed

lemma form_factor_name_known: "length (form_factor_name v) < 32" "form_factor_name v \<noteq> ''N/A''"
proof -
  let ?names = "['''', ''Other'', ''Unknown'', ''SIMM'', ''SIP'', ''Chip'', ''DIP'', ''ZIP'',
            ''Proprietary Card'', ''DIMM'', ''TSOP'', ''Row of Chips'', ''RIMM'', ''SODIMM'', ''SRIMM'',
            ''FB-DIMM'', ''Die'']"
  have "list_all (\<lambda>s. length s < 32 \<and> s \<noteq> ''N/A'') ?names" by simp
  then have "length (form_factor_name v) < 32 \<and> form_factor_name v \<noteq> ''N/A''"
    by (simp add: form_factor_name_def Let_def list_all_length)
  then show "length (form_factor_name v) < 32" "form_factor_name v \<noteq> ''N/A''" by simp_all
qed

lemma copy_form_factor:
  assumes "common_text_ok c" and "32 \<le> n"
  shows "infiltratr_copy_string c n (form_factor_name v) = form_factor_name v"
    and "infiltratr_copy_string c n ''N/A'' = ''N/A''"
    and "length (infiltratr_copy_string c n s) < n"
  using assms form_factor_name_known(1) [of v] by (auto simp: common_text_ok_def)

text \<open>What one read of a record gives: a well-formed module with the record's form factor and speed.\<close>

lemma read_module_ok:
  assumes "read_module c table pos len strs nxt speed = Some m" and "common_text_ok c"
  shows "module_ok c m" and "sm_speed_mhz m = speed"
    and "sm_form_factor m = (if 0x0e < len then form_factor_name (table ! (pos + 0x0e)) else ''N/A'')"
  using assms copy_smbios_string_ok copy_form_factor [of c 32] form_factor_name_known
  by (auto simp: read_module_def bind_eq_Some_conv module_ok_def get_def split: if_splits)

text \<open>
  The loop invariant: while no module was dropped the structure is well formed, and without memory
  devices it is still empty.
\<close>

definition walk_ok :: "common \<Rightarrow> smbios_memory_info \<times> bool \<Rightarrow> bool" where
  "walk_ok c acc \<longleftrightarrow> (snd acc \<longrightarrow> memory_info_ok c (fst acc)) \<and>
     (si_slots_total (fst acc) = 0 \<longrightarrow> fst acc = empty_info)"

lemma memory_info_ok_add:
  assumes "memory_info_ok c info" and "module_ok c m" and "length (si_modules info) < LSM_SMBIOS_MAX_MODULES"
    and "length (sm_form_factor m) < 64"
  shows "memory_info_ok c (info\<lparr>si_slots_total := si_slots_total info + 1,
    si_slots_used := si_slots_used info + 1,
    si_speed_mhz := (if 0 < sm_speed_mhz m \<and> (si_speed_mhz info = 0 \<or> sm_speed_mhz m < si_speed_mhz info)
      then sm_speed_mhz m else si_speed_mhz info),
    si_form_factor := (if si_form_factor info = ''N/A'' \<and>
        sm_form_factor m \<notin> {''N/A'', ''Unknown'', ''''} then sm_form_factor m else si_form_factor info),
    si_modules := si_modules info @ [m]\<rparr>)"
  using assms by (auto simp: memory_info_ok_def slowest_append known_form_append)

lemma memory_device_ok:
  assumes device: "memory_device c table pos len strs nxt (info, fin) = Some (info', fin')"
    and ok: "fin \<Longrightarrow> memory_info_ok c info" and "common_text_ok c" and "fin'"
  shows "memory_info_ok c info'"
proof -
  have info: "memory_info_ok c info"
    using device ok \<open>fin'\<close> by (auto simp: memory_device_def Let_def bind_eq_Some_conv split: if_splits)
  note text_ok = \<open>common_text_ok c\<close>
  obtain populated where populated: "populated_memory_device c table pos len = Some populated"
    using device by (auto simp: memory_device_def Let_def bind_eq_Some_conv)
  show ?thesis
  proof (cases populated)
    case False
    with device populated info show ?thesis
      by (auto simp: memory_device_def memory_info_ok_def)
  next
    case True
    with device populated \<open>fin'\<close> obtain speed m where
      m: "read_module c table pos len strs nxt speed = Some m" and
      space: "length (si_modules info) < LSM_SMBIOS_MAX_MODULES" and
      info': "info' = info\<lparr>si_slots_total := si_slots_total info + 1,
         si_slots_used := si_slots_used info + 1,
         si_speed_mhz := (if 0 < speed \<and> (si_speed_mhz info = 0 \<or> speed < si_speed_mhz info)
            then speed else si_speed_mhz info),
         si_form_factor := (if si_form_factor info = ''N/A'' \<and> 0x0e < len \<and>
             form_factor_name (table ! (pos + 0x0e)) \<notin> {''Unknown'', ''''}
           then infiltratr_copy_string c 64 (form_factor_name (table ! (pos + 0x0e)))
           else si_form_factor info),
         si_modules := si_modules info @ [m]\<rparr>"
      by (auto simp: memory_device_def bind_eq_Some_conv Let_def get_def split: if_splits)
    note module = read_module_ok [OF m text_ok]
    have "length (sm_form_factor m) < 64" using module(1) by (simp add: module_ok_def)
    note add = memory_info_ok_add [OF info module(1) space this]
    have form: "(if si_form_factor info = ''N/A'' \<and> 0x0e < len \<and>
             form_factor_name (table ! (pos + 0x0e)) \<notin> {''Unknown'', ''''}
           then infiltratr_copy_string c 64 (form_factor_name (table ! (pos + 0x0e)))
           else si_form_factor info) = (if si_form_factor info = ''N/A'' \<and>
        sm_form_factor m \<notin> {''N/A'', ''Unknown'', ''''} then sm_form_factor m else si_form_factor info)"
      using module(3) copy_form_factor [OF text_ok, of 64] form_factor_name_known by simp
    show ?thesis unfolding info' form by (rule add [unfolded module(2)])
  qed
qed

lemma memory_device_counts:
  "memory_device c table pos len strs nxt (info, fin) = Some (info', fin') \<Longrightarrow>
     si_slots_total info' = Suc (si_slots_total info)"
proof -
  have "option_post (\<lambda>r. si_slots_total (fst r) = Suc (si_slots_total info))
      (memory_device c table pos len strs nxt (info, fin))"
    unfolding memory_device_def prod.case Let_def by (intro post_intros) simp_all
  then show "memory_device c table pos len strs nxt (info, fin) = Some (info', fin') \<Longrightarrow> ?thesis"
    by (auto dest: option_postD)
qed

lemma memory_device_walk_ok:
  assumes "memory_device c table pos len strs nxt acc = Some acc'" "walk_ok c acc" "common_text_ok c"
  shows "walk_ok c acc'"
proof -
  obtain info fin info' fin' where acc: "acc = (info, fin)" "acc' = (info', fin')" by fastforce
  note device = assms(1) [unfolded acc]
  show ?thesis
    using memory_device_ok [OF device _ assms(3)] memory_device_counts [OF device] assms(2)
    by (simp add: walk_ok_def acc)
qed

lemma read_structures_walk_ok:
  assumes "walk_ok c acc" and "common_text_ok c"
  shows "option_post (walk_ok c) (read_structures c table offset acc)"
  using assms
proof (induction c table offset acc rule: read_structures.induct)
  case (1 c table offset acc)
  have device: "walk_ok c v"
    if "(if P then memory_device c table offset len strs nxt acc else Some acc) = Some v" for P len strs nxt v
    using that 1(2,3) by (auto intro: memory_device_walk_ok split: if_splits)
  show ?case
    unfolding read_structures.simps [of c table offset acc]
    by (intro post_intros 1(1)) (auto simp del: split_paired_All intro: device 1(2,3))
qed

lemma walk_ok_start: "walk_ok c (empty_info, True)"
  by (simp add: walk_ok_def memory_info_ok_def empty_info_def slowest_def known_form_def)

lemma set_error_short: "length (set_error n message detail) \<le> n - Suc 0"
  by (simp add: set_error_def)

lemma read_table_error_short: "read_table f n = Inl e \<Longrightarrow> length e \<le> n - Suc 0"
  by (auto simp: read_table_def set_error_short split: sum.splits if_splits)

subsection \<open>The values of the size fields\<close>

lemma load_values:
  assumes "common_endian_ok c"
  shows "i + 1 < length table \<Longrightarrow> map_option unat (get16 c table i) =
      Some (unat (table ! i) + 256 * unat (table ! (i + 1)))"
    and "i + 3 < length table \<Longrightarrow> map_option unat (get32 c table i) =
      Some (unat (table ! i) + 256 * unat (table ! (i + 1)) + 65536 * unat (table ! (i + 2)) +
        16777216 * unat (table ! (i + 3)))"
proof -
  have b: "unat (b :: u8) < 256" for b using unsigned_less [of b] by simp
  assume "i + 1 < length table"
  then have d: "drop i table = table ! i # table ! (i + 1) # drop (i + 2) table"
    by (simp add: Cons_nth_drop_Suc)
  have "unat (ucast x + 256 * ucast y :: u16) = unat x + 256 * unat y" for x y :: u8
    using b [of x] b [of y] by (simp add: unat_word_ariths unsigned_ucast_eq take_bit_eq_mod)
  with d show "map_option unat (get16 c table i) = Some (unat (table ! i) + 256 * unat (table ! (i + 1)))"
    using assms \<open>i + 1 < length table\<close> by (simp add: get16_def common_endian_ok_def)
next
  have b: "unat (b :: u8) < 256" for b using unsigned_less [of b] by simp
  assume i: "i + 3 < length table"
  then have d: "drop i table = table ! i # table ! (i + 1) # table ! (i + 2) # table ! (i + 3) # drop (i + 4) table"
    by (simp add: Cons_nth_drop_Suc numeral_3_eq_3 numeral_Bit0)
  have "unat (ucast x + 256 * ucast y + 65536 * ucast z + 16777216 * ucast w :: u32) = unat x + 256 * unat y
     + 65536 * unat z + 16777216 * unat w" for x y z w :: u8
    using b [of x] b [of y] b [of z] b [of w] by (simp add: unat_word_ariths unsigned_ucast_eq take_bit_eq_mod)
  with d show "map_option unat (get32 c table i) =
      Some (unat (table ! i) + 256 * unat (table ! (i + 1)) + 65536 * unat (table ! (i + 2)) +
        16777216 * unat (table ! (i + 3)))"
    using assms i by (simp add: get32_def common_endian_ok_def)
qed

lemma granularity_bit:
  fixes w :: u16
  shows "w AND 0x8000 \<noteq> 0 \<longleftrightarrow> 0x8000 \<le> unat w" and "unat (w AND 0x7fff) = unat w mod 0x8000"
proof -
  have "w AND 0x7fff = take_bit 15 w" by (simp add: take_bit_eq_mask mask_eq_exp_minus_1)
  then show "unat (w AND 0x7fff) = unat w mod 0x8000" by (simp only: unsigned_take_bit_eq) (simp add: take_bit_eq_mod)
  have "w AND 0x8000 \<noteq> 0 \<longleftrightarrow> bit w 15" using and_exp_eq_0_iff_not_bit [of w 15] by simp
  also have "\<dots> \<longleftrightarrow> odd (unat w div 2 ^ 15)" using bit_unsigned_iff [of w 15, where ?'a = nat] by (simp only: bit_iff_odd) simp
  also have "\<dots> \<longleftrightarrow> 0x8000 \<le> unat w"
  proof -
    have "unat w div 2 ^ 15 < 2" using unsigned_less [of w, where ?'a = nat] by simp
    then have "odd (unat w div 2 ^ 15) \<longleftrightarrow> unat w div 2 ^ 15 \<noteq> 0" by (auto simp: less_2_cases_iff)
    then show ?thesis by (simp add: div_eq_0_iff not_less)
  qed
  finally show "w AND 0x8000 \<noteq> 0 \<longleftrightarrow> 0x8000 \<le> unat w" .
qed

subsection \<open>A table with one module\<close>

definition sample_table :: "u8 list" where
  "sample_table =
     [17, 0x19, 0, 0, 0, 0, 0, 0, 0, 0, 0, 0, 0, 0x20, 13, 0, 1, 0, 0x1a, 0, 0, 0x80, 0x0c, 0, 0,
      65, 49, 32, 0, 0]"

definition sample_file :: "table_file" where
  "sample_file = \<lparr>tf_open = Inr (), tf_stat = Inr 30, tf_read_full = (\<lambda>n. Inr (take n sample_table)),
     tf_close = Inr ()\<rparr>"

definition sample_module :: smbios_memory_module where
  "sample_module = \<lparr>sm_locator = ''A1'', sm_bank_locator = ''N/A'', sm_manufacturer = ''N/A'',
     sm_part_number = ''N/A'', sm_serial_number = ''N/A'', sm_memory_type = ''DDR4'',
     sm_form_factor = ''SODIMM'', sm_size_bytes = 8589934592, sm_speed_mhz = 3200\<rparr>"

definition sample_info :: smbios_memory_info where
  "sample_info = \<lparr>si_speed_mhz = 3200, si_slots_used = 1, si_slots_total = 1,
     si_form_factor = ''SODIMM'', si_modules = [sample_module]\<rparr>"

lemma sample_table_read: "read_table sample_file 64 = Inr sample_table"
  by (simp add: read_table_def sample_file_def sample_table_def LSM_DMI_MAX_BYTES_def)

lemmas table_loads = get_def get16_def get32_def ref_common_def

lemma sample_size: "memory_size_bytes ref_common sample_table 0 25 = Some 8589934592"
  by (simp add: memory_size_bytes_def table_loads sample_table_def)

lemma sample_populated: "populated_memory_device ref_common sample_table 0 25 = Some True"
  by (simp add: populated_memory_device_def table_loads sample_table_def)

lemma sample_speed: "memory_speed ref_common sample_table 0 25 = Some 3200"
  by (simp add: memory_speed_def table_loads sample_table_def)

lemma sample_strings_stop: "strings_stop sample_table 25 = Some 28"
  by (simp add: strings_stop.simps table_loads sample_table_def)

lemma sample_no_string: "copy_smbios_string ref_common sample_table 25 28 0 d = Some ''N/A''"
  by (simp add: copy_smbios_string_def)

lemma sample_string_stop: "string_stop sample_table 28 25 = Some 28"
  by (simp add: string_stop.simps table_loads sample_table_def)

lemma sample_trim: "trim_blanks sample_table 25 3 = Some 2"
  by (simp add: numeral_3_eq_3 numeral_2_eq_2 get_def) (simp add: sample_table_def)

lemma sample_bytes_text: "bytes_text [65, 49] = ''A1''" by code_simp

lemma sample_locator: "copy_smbios_string ref_common sample_table 25 28 1 64 = Some ''A1''"
proof -
  have "area sample_table 25 2 = Some [65, 49]" by (simp add: sample_table_def area_def)
  then show ?thesis
  by (simp add: copy_smbios_string_def select_string.simps sample_string_stop sample_trim)
     (simp add: sample_table_def store_string_def sample_bytes_text ref_common_def)
qed

lemma sample_module_read: "read_module ref_common sample_table 0 25 25 28 3200 = Some sample_module"
proof -
  have *: "get sample_table 14 = Some 13" "get sample_table 16 = Some 1" "get sample_table 17 = Some 0"
   "get sample_table 18 = Some 0x1a" "get sample_table 23 = Some 0" "get sample_table 24 = Some 0"
    by (simp_all add: sample_table_def get_def)
  have "infiltratr_copy_string ref_common 32 (memory_type_name 0x1a) = ''DDR4''"
    "infiltratr_copy_string ref_common 32 (form_factor_name 13) = ''SODIMM''"
    by (simp_all add: ref_common_def memory_type_name_def form_factor_name_def)
  then show ?thesis
  by (simp add: read_module_def sample_size sample_no_string sample_locator field8_def * sample_module_def)
qed

lemma sample_device: "memory_device ref_common sample_table 0 25 25 28 (empty_info, True) = Some (sample_info, True)"
  by (simp add: memory_device_def sample_populated sample_speed sample_module_read Let_def empty_info_def LSM_SMBIOS_MAX_MODULES_def)
   (simp add: get_def sample_table_def sample_info_def ref_common_def form_factor_name_def)

lemma sample_structures: "read_structures ref_common sample_table 0 (empty_info, True) = Some (sample_info, True)"
proof -
  have *: "get sample_table 0 = Some 17" "get sample_table (Suc 0) = Some 25" "length sample_table = 30" "read_structures ref_common sample_table 30 r = Some r" for r
    by (simp_all add: sample_table_def get_def read_structures.simps)
  show ?thesis
  by (subst read_structures.simps) (simp add: * sample_strings_stop sample_device SMBIOS_TYPE_MEMORY_DEVICE_def SMBIOS_TYPE_END_def)
qed

lemma sample_read: "lsm_smbios_memory_read ref_common (\<lambda>_. sample_file) None 64 = Some (True, sample_info, [])"
  by (simp add: lsm_smbios_memory_read_def sample_table_read sample_structures) (simp add: sample_info_def)


subsection \<open>Properties\<close>

text \<open>
  C31. Reading the DMI table ends and stays in bounds, whatever the firmware wrote: for every table
  the result exists, so no byte outside the table is read and the loops over structures and strings
  stop, and the diagnostic fits its buffer with the terminator.
\<close>

theorem smbios_read_safe:
  "\<exists>ok info e. lsm_smbios_memory_read c files path n = Some (ok, info, e) \<and> length e \<le> n - 1"
proof -
  define f where "f = files (case path of None \<Rightarrow> LSM_DMI_DEFAULT_PATH
                  | Some p \<Rightarrow> if p = '''' then LSM_DMI_DEFAULT_PATH else p)"
  show ?thesis
  proof (cases "read_table f n")
    case (Inl e)
    then show ?thesis
      using read_table_error_short [OF Inl]
      by (auto simp: lsm_smbios_memory_read_def Let_def simp flip: f_def)
  next
    case (Inr table)
    then show ?thesis
      using read_structures_total [of c table 0 "(empty_info, True)"]
      by (auto simp: lsm_smbios_memory_read_def Let_def set_error_short simp flip: f_def)
  qed
qed

text \<open>
  C32. The structure a call leaves behind is always well formed. On success there is at least one
  slot, every populated slot has its module, at most 32 of them, each text is valid UTF-8 that fits
  its array, the summary speed is the lowest reported one and the summary form factor the first known
  one. After any failure the structure is the empty one: no partial inventory is published.
\<close>

theorem smbios_read_wellformed:
  assumes "lsm_smbios_memory_read c files path n = Some (ok, info, e)" and "common_text_ok c"
  shows "if ok then 0 < si_slots_total info \<and> memory_info_ok c info else info = empty_info"
  using assms option_postD [OF read_structures_walk_ok [OF walk_ok_start]]
  by (auto simp: lsm_smbios_memory_read_def Let_def bind_eq_Some_conv walk_ok_def
      split: sum.splits if_splits)

theorem smbios_read_wellformed_witness:
  "lsm_smbios_memory_read ref_common (\<lambda>_. sample_file) None 64 = Some (True, sample_info, '''') \<and>
     common_text_ok ref_common \<and> 0 < si_slots_total sample_info \<and> memory_info_ok ref_common sample_info"
  using smbios_read_wellformed [OF sample_read ref_common_ok(1)] sample_read ref_common_ok(1) by simp

text \<open>
  The size of a module is decoded without overflow. With \<open>e\<close> the 16-bit field and \<open>x\<close> the
  extended one: no size for an empty or unknown slot, \<open>x\<close> mebibytes for the extended marker,
  kibibytes when the granularity bit is set, and mebibytes otherwise.
\<close>

theorem smbios_size_exact:
  fixes table :: "u8 list" and pos :: nat
  defines "e \<equiv> unat (table ! (pos + 0x0c)) + 256 * unat (table ! (pos + 0x0d))"
    and "x \<equiv> unat (table ! (pos + 0x1c)) + 256 * unat (table ! (pos + 0x1d)) +
       65536 * unat (table ! (pos + 0x1e)) + 16777216 * unat (table ! (pos + 0x1f))"
  assumes ok: "common_endian_ok c" and pos: "pos + len \<le> length table" and len: "0x0d < len"
  shows "map_option unat (memory_size_bytes c table pos len) = Some
    (if e = 0 \<or> e = 0xffff \<or> (e = 0x7fff \<and> len < 0x20) then 0
     else if e = 0x7fff then x * 2 ^ 20
     else if 0x8000 \<le> e then (e - 0x8000) * 2 ^ 10
     else e * 2 ^ 20)"
proof -
  obtain w where w: "get16 c table (pos + 0x0c) = Some w" "unat w = e"
    using load_values(1) [OF ok, of "pos + 0x0c" table] pos len by (auto simp: e_def ac_simps)
  have u: "w = k \<longleftrightarrow> e = unat k" for k using w(2) by (auto simp: word_unat_eq_iff)
  have small: "unat w < 65536" using unsigned_less [of w] by simp
  have big: "unat (ucast v * 1024 * 1024 :: u64) = unat v * 2 ^ 20" for v :: u32
    using unsigned_less [of v, where ?'a = nat] by (simp add: unat_word_ariths unsigned_ucast_eq take_bit_eq_mod)
  have mid: "unat (ucast v * 1024 * 1024 :: u64) = unat v * 2 ^ 20" for v :: u16
    using unsigned_less [of v, where ?'a = nat] by (simp add: unat_word_ariths unsigned_ucast_eq take_bit_eq_mod)
  have low: "unat (ucast v * 1024 :: u64) = unat v * 2 ^ 10" for v :: u16
    using unsigned_less [of v, where ?'a = nat] by (simp add: unat_word_ariths unsigned_ucast_eq take_bit_eq_mod)
  show ?thesis
  proof (cases "e = 0x7fff \<and> 0x20 \<le> len")
    case True
    obtain v where "get32 c table (pos + 0x1c) = Some v" "unat v = x"
      using load_values(2) [OF ok, of "pos + 0x1c" table] pos True by (auto simp: x_def ac_simps)
    then show ?thesis using True w big [of v] by (simp add: memory_size_bytes_def u)
  next
    case False
    have "e mod 0x8000 = e - 0x8000" if "0x8000 \<le> e" using that small w(2) by (simp add: mod_if)
    then show ?thesis using False w(1) len granularity_bit [of w] mid [of w] low [of "w AND 0x7fff"]
      by (auto simp: memory_size_bytes_def u w(2))
  qed
qed

theorem smbios_size_exact_witness:
  "common_endian_ok ref_common \<and>
     map_option unat (memory_size_bytes ref_common sample_table 0 25) = Some (8192 * 2 ^ 20)"
proof -
  have "0 + 25 \<le> length sample_table" by (simp add: sample_table_def)
  from smbios_size_exact [OF ref_common_ok(4) this] show ?thesis
    using ref_common_ok(4) by (simp add: sample_table_def)
qed

end
