(* ===== verification/Hidpp_Protocol.thy ===== *)
theory Hidpp_Protocol
  imports Common_Library
begin

text \<open>
  \<^verbatim>\<open>src/logitech_hidpp_protocol.c\<close> and the message exchange of \<^verbatim>\<open>src/logitech_hidpp.c\<close>: the HID++
  2.0 request format, the two battery payloads, the search for the reply to a request among
  everything that arrives on the shared hidraw node, and the query of one device. The device is a
  parameter: the reports that can be read after a request was written, until the deadline or the
  cancellation; an empty report stands for a failed read.
\<close>

unbundle bit_operations_syntax

definition LSM_HIDPP_REPORT_ID_SHORT :: u8 where "LSM_HIDPP_REPORT_ID_SHORT = 0x10"
definition LSM_HIDPP_REPORT_ID_LONG :: u8 where "LSM_HIDPP_REPORT_ID_LONG = 0x11"
definition LSM_HIDPP_REPORT_SIZE_LONG :: nat where "LSM_HIDPP_REPORT_SIZE_LONG = 20"
definition LSM_HIDPP_DEVICE_DIRECT :: u8 where "LSM_HIDPP_DEVICE_DIRECT = 0xff"
definition LSM_HIDPP_SOFTWARE_ID :: u8 where "LSM_HIDPP_SOFTWARE_ID = 0x0c"
definition LSM_HIDPP_ERROR_FEATURE :: u8 where "LSM_HIDPP_ERROR_FEATURE = 0xff"
definition LSM_HIDPP_FEATURE_BATTERY_STATUS :: u16 where "LSM_HIDPP_FEATURE_BATTERY_STATUS = 0x1000"
definition LSM_HIDPP_FEATURE_UNIFIED_BATTERY :: u16 where "LSM_HIDPP_FEATURE_UNIFIED_BATTERY = 0x1004"
definition LSM_HIDPP_FUNCTION_GET_STATUS :: u8 where "LSM_HIDPP_FUNCTION_GET_STATUS = 0"
definition LSM_HIDPP_FUNCTION_UNIFIED_STATUS :: u8 where "LSM_HIDPP_FUNCTION_UNIFIED_STATUS = 0x10"

lemmas hidpp_constants =
  LSM_HIDPP_REPORT_ID_SHORT_def LSM_HIDPP_REPORT_ID_LONG_def LSM_HIDPP_REPORT_SIZE_LONG_def
  LSM_HIDPP_DEVICE_DIRECT_def LSM_HIDPP_SOFTWARE_ID_def LSM_HIDPP_ERROR_FEATURE_def
  LSM_HIDPP_FEATURE_BATTERY_STATUS_def LSM_HIDPP_FEATURE_UNIFIED_BATTERY_def
  LSM_HIDPP_FUNCTION_GET_STATUS_def LSM_HIDPP_FUNCTION_UNIFIED_STATUS_def

subsection \<open>Battery payloads\<close>

record hidpp_battery_reading =
  hr_percent :: double
  hr_next_percent :: int
  hr_status :: string
  hr_level :: string
  hr_source :: string
  hr_exact_percent :: bool
  hr_next_percent_available :: bool

definition lsm_logitech_hidpp_reset_reading :: hidpp_battery_reading where
  "lsm_logitech_hidpp_reset_reading =
     \<lparr>hr_percent = NaN, hr_next_percent = - 1, hr_status = '''', hr_level = '''', hr_source = '''',
      hr_exact_percent = False, hr_next_percent_available = False\<rparr>"

definition set_level_from_percent :: "common \<Rightarrow> double \<Rightarrow> nat \<Rightarrow> string" where
  "set_level_from_percent c percent n =
     infiltratr_copy_string c n
       (if dle (Fin 100) percent then ''Full''
        else if dle (Fin 81) percent then ''High''
        else if dle (Fin 31) percent then ''Normal''
        else if dle (Fin 11) percent then ''Low''
        else if dle (Fin 0) percent then ''Critical''
        else ''Unknown'')"

definition set_battery_status :: "common \<Rightarrow> u8 \<Rightarrow> nat \<Rightarrow> string" where
  "set_battery_status c status n =
     infiltratr_copy_string c n
       (if status = 0 then ''Discharging''
        else if status = 1 \<or> status = 2 then ''Charging''
        else if status = 3 then ''Full''
        else if status = 4 then ''Charging slowly''
        else if status = 5 then ''Invalid battery''
        else if status = 6 then ''Thermal error''
        else if status = 7 then ''Charging error''
        else ''Unknown'')"

definition set_unified_battery_status :: "common \<Rightarrow> u8 \<Rightarrow> nat \<Rightarrow> string" where
  "set_unified_battery_status c status n =
     infiltratr_copy_string c n
       (if status = 0 then ''Charging''
        else if status = 1 then ''Full''
        else if status = 2 then ''Discharging''
        else if status = 7 then ''Charging error''
        else ''Unknown'')"

text \<open>\<open>None\<close>: the payload is too short and the reading is left as it was.\<close>

definition lsm_logitech_hidpp_parse_1000 :: "common \<Rightarrow> u8 list \<Rightarrow> hidpp_battery_reading option" where
  "lsm_logitech_hidpp_parse_1000 c payload =
     (if length payload < 3 then None
      else
        let reading = lsm_logitech_hidpp_reset_reading;
            percent = payload ! 0; next_percent = payload ! 1; status = payload ! 2;
            reading = reading\<lparr>hr_status := set_battery_status c status 32\<rparr>;
            reading =
              (if 0 < percent \<and> percent \<le> 100 then
                 reading\<lparr>hr_percent := double_of_word percent, hr_exact_percent := True\<rparr>
               else if status = 3 then reading\<lparr>hr_level := infiltratr_copy_string c 32 ''Full''\<rparr>
               else reading);
            reading =
              (if 0 < next_percent \<and> next_percent \<le> 100 then
                 reading\<lparr>hr_next_percent := int (unat next_percent), hr_next_percent_available := True\<rparr>
               else reading)
        in Some
          (if hr_exact_percent reading then
             reading\<lparr>hr_level := set_level_from_percent c (hr_percent reading) 32\<rparr>
           else reading))"

definition lsm_logitech_hidpp_parse_1004 :: "common \<Rightarrow> u8 list \<Rightarrow> hidpp_battery_reading option" where
  "lsm_logitech_hidpp_parse_1004 c payload =
     (if length payload < 4 then None
      else
        let reading = lsm_logitech_hidpp_reset_reading;
            state_of_charge = payload ! 0; level_bits = payload ! 1; charging_status = payload ! 2;
            reading = reading\<lparr>hr_status := set_unified_battery_status c charging_status 32\<rparr>
        in Some
          (if 0 < state_of_charge \<and> state_of_charge \<le> 100 then
             reading\<lparr>hr_percent := double_of_word state_of_charge, hr_exact_percent := True,
               hr_level := set_level_from_percent c (double_of_word state_of_charge) 32\<rparr>
           else if level_bits AND 0x08 \<noteq> 0 then reading\<lparr>hr_level := infiltratr_copy_string c 32 ''Full''\<rparr>
           else if level_bits AND 0x04 \<noteq> 0 then reading\<lparr>hr_level := infiltratr_copy_string c 32 ''Normal''\<rparr>
           else if level_bits AND 0x02 \<noteq> 0 then reading\<lparr>hr_level := infiltratr_copy_string c 32 ''Low''\<rparr>
           else if level_bits AND 0x01 \<noteq> 0 then reading\<lparr>hr_level := infiltratr_copy_string c 32 ''Critical''\<rparr>
           else reading))"

subsection \<open>Requests and replies\<close>

text \<open>\<open>None\<close> is the returned size 0; otherwise the report is 20 bytes.\<close>

definition lsm_logitech_hidpp_format_request :: "u8 \<Rightarrow> u8 \<Rightarrow> u8 list \<Rightarrow> nat \<Rightarrow> u8 list option" where
  "lsm_logitech_hidpp_format_request feature_index function_code parameters capacity =
     (if capacity < LSM_HIDPP_REPORT_SIZE_LONG \<or> LSM_HIDPP_REPORT_SIZE_LONG - 4 < length parameters
      then None
      else Some
        ([LSM_HIDPP_REPORT_ID_LONG, LSM_HIDPP_DEVICE_DIRECT, feature_index,
          (function_code AND 0xf0) OR LSM_HIDPP_SOFTWARE_ID] @ parameters @
         replicate (LSM_HIDPP_REPORT_SIZE_LONG - 4 - length parameters) 0))"

text \<open>The loop over what is read: the reply, an error reply, or nothing before the deadline.\<close>

fun await_reply :: "u8 \<Rightarrow> u8 \<Rightarrow> nat \<Rightarrow> u8 list list \<Rightarrow> u8 list option" where
  "await_reply feature_index tag payload_size [] = None"
| "await_reply feature_index tag payload_size (response # reads) =
     (if length response < 4 then await_reply feature_index tag payload_size reads
      else if response ! 0 \<noteq> LSM_HIDPP_REPORT_ID_SHORT \<and> response ! 0 \<noteq> LSM_HIDPP_REPORT_ID_LONG
      then await_reply feature_index tag payload_size reads
      else if response ! 1 \<noteq> LSM_HIDPP_DEVICE_DIRECT \<and> response ! 1 \<noteq> 0
      then await_reply feature_index tag payload_size reads
      else if response ! 2 = LSM_HIDPP_ERROR_FEATURE \<and> response ! 3 = feature_index \<and>
          6 \<le> length response \<and> response ! 4 = tag
      then None
      else if response ! 2 \<noteq> feature_index \<or> response ! 3 \<noteq> tag
      then await_reply feature_index tag payload_size reads
      else Some (take payload_size (drop 4 response)))"

text \<open>
  A device: whether it opens as a Logitech device, and the answer to a written report, \<open>None\<close>
  when the write fails. Reads take at most 64 bytes.
\<close>

record hidpp_device =
  hd_logitech :: bool
  hd_exchange :: "u8 list \<Rightarrow> u8 list list option"

definition hidpp_request :: "hidpp_device \<Rightarrow> u8 \<Rightarrow> u8 \<Rightarrow> u8 list \<Rightarrow> nat \<Rightarrow> u8 list option" where
  "hidpp_request device feature_index function_code parameters payload_size =
     (case lsm_logitech_hidpp_format_request feature_index function_code parameters
         LSM_HIDPP_REPORT_SIZE_LONG of
        None \<Rightarrow> None
      | Some request \<Rightarrow>
        (case hd_exchange device request of
           None \<Rightarrow> None
         | Some reads \<Rightarrow> await_reply feature_index (request ! 3) payload_size (map (take 64) reads)))"

definition root_feature_index :: "hidpp_device \<Rightarrow> u16 \<Rightarrow> u8 option" where
  "root_feature_index device feature =
     (case hidpp_request device 0 0 [ucast (drop_bit 8 feature), ucast (feature AND 0xff)] 16 of
        None \<Rightarrow> None
      | Some response \<Rightarrow>
          if length response < 1 \<or> response ! 0 = 0 then None else Some (response ! 0))"

text \<open>
  \<^verbatim>\<open>query_device\<close>: the feature a device reported is kept across calls; \<open>(0, _)\<close> asks for
  discovery. The result is the feature pair after the call and the reading when it succeeded.
\<close>

definition discover_feature :: "hidpp_device \<Rightarrow> u16 \<Rightarrow> u8 \<Rightarrow> u16 \<times> u8" where
  "discover_feature device feature_id feature_index =
     (if feature_id = 0 then
        case root_feature_index device LSM_HIDPP_FEATURE_UNIFIED_BATTERY of
          Some index \<Rightarrow> (LSM_HIDPP_FEATURE_UNIFIED_BATTERY, index)
        | None \<Rightarrow>
          (case root_feature_index device LSM_HIDPP_FEATURE_BATTERY_STATUS of
             Some index \<Rightarrow> (LSM_HIDPP_FEATURE_BATTERY_STATUS, index)
           | None \<Rightarrow> (0, feature_index))
      else (feature_id, feature_index))"

definition query_device ::
  "common \<Rightarrow> hidpp_device \<Rightarrow> u16 \<Rightarrow> u8 \<Rightarrow> (u16 \<times> u8) \<times> hidpp_battery_reading option" where
  "query_device c device feature_id feature_index =
     (if \<not> hd_logitech device then ((feature_id, feature_index), None)
      else
        let (feature_id, feature_index) = discover_feature device feature_id feature_index;
            reading =
              (if feature_id = LSM_HIDPP_FEATURE_UNIFIED_BATTERY then
                 Option.bind (hidpp_request device feature_index LSM_HIDPP_FUNCTION_UNIFIED_STATUS [] 16)
                   (lsm_logitech_hidpp_parse_1004 c)
               else if feature_id = LSM_HIDPP_FEATURE_BATTERY_STATUS then
                 Option.bind (hidpp_request device feature_index LSM_HIDPP_FUNCTION_GET_STATUS [] 16)
                   (lsm_logitech_hidpp_parse_1000 c)
               else None);
            source =
              (if feature_id = LSM_HIDPP_FEATURE_UNIFIED_BATTERY then ''Logitech HID++ 0x1004''
               else ''Logitech HID++ 0x1000'')
        in ((feature_id, feature_index),
            map_option (\<lambda>r. r\<lparr>hr_source := infiltratr_copy_string c 48 source\<rparr>) reading))"

subsection \<open>Which report answers a request\<close>

definition from_device :: "u8 list \<Rightarrow> bool" where
  "from_device r \<longleftrightarrow> 4 \<le> length r \<and> r ! 0 \<in> {0x10, 0x11} \<and> r ! 1 \<in> {0xff, 0}"

definition replies_to :: "u8 \<Rightarrow> u8 \<Rightarrow> u8 list \<Rightarrow> bool" where
  "replies_to feature tag r \<longleftrightarrow> from_device r \<and> r ! 2 = feature \<and> r ! 3 = tag"

definition refuses :: "u8 \<Rightarrow> u8 \<Rightarrow> u8 list \<Rightarrow> bool" where
  "refuses feature tag r \<longleftrightarrow>
     from_device r \<and> 6 \<le> length r \<and> r ! 2 = 0xff \<and> r ! 3 = feature \<and> r ! 4 = tag"

definition unrelated :: "u8 \<Rightarrow> u8 \<Rightarrow> u8 list \<Rightarrow> bool" where
  "unrelated feature tag r \<longleftrightarrow> \<not> replies_to feature tag r \<and> \<not> refuses feature tag r"

lemmas answer_defs = from_device_def replies_to_def refuses_def unrelated_def

lemma await_unrelated:
  "\<forall>r \<in> set noise. unrelated feature tag r \<Longrightarrow>
     await_reply feature tag n (noise @ reads) = await_reply feature tag n reads"
  by (induction noise) (auto simp: answer_defs hidpp_constants)

lemma unrelated_take: "unrelated feature tag (take 64 r) \<longleftrightarrow> unrelated feature tag r"
  by (auto simp: answer_defs)

text \<open>
  What a HID++ 2.0 device does: after the request, and whatever other traffic crosses the node in
  between, a report with the feature index and the request's tag carries the payload.
\<close>

definition answers :: "hidpp_device \<Rightarrow> u8 \<Rightarrow> u8 \<Rightarrow> u8 list \<Rightarrow> u8 list \<Rightarrow> bool" where
  "answers device feature function_code parameters payload \<longleftrightarrow>
     (\<exists>noise rest. hd_exchange device
        ([0x11, 0xff, feature, (function_code AND 0xf0) OR 0x0c] @ parameters @
          replicate (16 - length parameters) 0)
        = Some (noise @ ([0x11, 0xff, feature, (function_code AND 0xf0) OR 0x0c] @ payload) # rest) \<and>
      (\<forall>r \<in> set noise. unrelated feature ((function_code AND 0xf0) OR 0x0c) r))"

lemma hidpp_request_answer:
  assumes "answers device feature function_code parameters payload" and "length parameters \<le> 16"
    and "length payload \<le> 60" and "(function_code AND 0xf0) OR 0x0c \<noteq> (0xff :: u8)"
  shows "hidpp_request device feature function_code parameters n = Some (take n payload)"
proof -
  let ?tag = "(function_code AND 0xf0) OR 0x0c"
  let ?reply = "[0x11, 0xff, feature, ?tag] @ payload"
  from assms(1) obtain noise rest where
    exchange: "hd_exchange device ([0x11, 0xff, feature, ?tag] @ parameters @
       replicate (16 - length parameters) 0) = Some (noise @ ?reply # rest)" and
    noise: "\<forall>r \<in> set noise. unrelated feature ?tag r"
    by (auto simp: answers_def)
  have "await_reply feature ?tag n (map (take 64) (noise @ ?reply # rest)) =
      await_reply feature ?tag n (map (take 64) (?reply # rest))"
    using await_unrelated [of "map (take 64) noise" feature ?tag n] noise
    by (simp add: unrelated_take)
  also have "\<dots> = Some (take n payload)"
    using assms(3,4) by (auto simp: hidpp_constants)
  finally show ?thesis
    using exchange assms(2)
    by (simp add: hidpp_request_def lsm_logitech_hidpp_format_request_def hidpp_constants)
qed

subsection \<open>Readings\<close>

lemma double_of_byte: "double_of_word (b :: u8) = Fin (of_nat (unat b))"
proof -
  have b: "unat b < 256" using unsigned_less [of b, where ?'a = nat] by simp
  have "rnd (of_nat n) = of_nat n" "\<bar>of_nat n :: rat\<bar> < 2 ^ 1024" if "n < 256" for n
    using that rnd_of_int [of "int n"] by (auto intro: less_le_trans [of _ 256])
  with b show ?thesis unfolding double_of_nat_def by (intro fl_exact) blast+
qed

text \<open>A reading is a percentage of 1 to 100 that is marked as exact, or none; the same for the next level.\<close>

definition reading_ok :: "hidpp_battery_reading \<Rightarrow> bool" where
  "reading_ok r \<longleftrightarrow>
     (if hr_exact_percent r then dle (Fin 1) (hr_percent r) \<and> dle (hr_percent r) (Fin 100)
      else hr_percent r = NaN) \<and>
     (if hr_next_percent_available r then 1 \<le> hr_next_percent r \<and> hr_next_percent r \<le> 100
      else hr_next_percent r = - 1) \<and>
     length (hr_status r) < 32 \<and> length (hr_level r) < 32 \<and> length (hr_source r) < 48"

lemma byte_percent:
  fixes b :: u8
  assumes "0 < b" and "b \<le> 100"
  shows "1 \<le> (of_nat (unat b) :: rat)" and "(of_nat (unat b) :: rat) \<le> 100"
proof -
  have "1 \<le> unat b" "unat b \<le> 100" using assms by (simp_all add: word_less_nat_alt word_le_nat_alt)
  then show "1 \<le> (of_nat (unat b) :: rat)" "(of_nat (unat b) :: rat) \<le> 100"
    using of_nat_mono [of 1 "unat b", where ?'a = rat] of_nat_mono [of "unat b" 100, where ?'a = rat] by simp_all
qed

lemma copied_text_short:
  assumes "common_text_ok c"
  shows "length (set_level_from_percent c p 32) < 32" "length (set_battery_status c v 32) < 32"
    "length (set_unified_battery_status c v 32) < 32"
    and "0 < n \<Longrightarrow> length (infiltratr_copy_string c n s) < n"
proof -
  have short: "0 < n \<Longrightarrow> length (infiltratr_copy_string c n s) < n" for n s
    using assms by (auto simp: common_text_ok_def)
  show "length (set_level_from_percent c p 32) < 32" "length (set_battery_status c v 32) < 32"
    "length (set_unified_battery_status c v 32) < 32"
    unfolding set_level_from_percent_def set_battery_status_def set_unified_battery_status_def
    by (rule short, simp)+
  show "0 < n \<Longrightarrow> length (infiltratr_copy_string c n s) < n" by (rule short)
qed

lemma next_percent_range:
  fixes b :: u8
  assumes "0 < b" and "b \<le> 100"
  shows "1 \<le> uint b" and "uint b \<le> 100"
  using assms by (simp_all add: word_less_def word_le_def)

lemma parse_1000_ok:
  assumes "lsm_logitech_hidpp_parse_1000 c payload = Some r" and "common_text_ok c"
  shows "reading_ok r"
  using assms(1) copied_text_short [OF assms(2)] byte_percent next_percent_range
  by (auto simp: lsm_logitech_hidpp_parse_1000_def lsm_logitech_hidpp_reset_reading_def reading_ok_def
      double_of_byte Let_def split: if_splits)

lemma parse_1004_ok:
  assumes "lsm_logitech_hidpp_parse_1004 c payload = Some r" and "common_text_ok c"
  shows "reading_ok r"
  using assms(1) copied_text_short [OF assms(2)] byte_percent
  by (auto simp: lsm_logitech_hidpp_parse_1004_def lsm_logitech_hidpp_reset_reading_def reading_ok_def
      double_of_byte Let_def split: if_splits)

lemma query_device_ok:
  assumes "query_device c device f i = (p, Some r)" and "common_text_ok c"
  shows "reading_ok r"
proof -
  have "reading_ok (r\<lparr>hr_source := infiltratr_copy_string c 48 s\<rparr>)" if "reading_ok r" for r s
    using that copied_text_short(4) [OF assms(2), of 48] by (simp add: reading_ok_def)
  with assms show ?thesis
    using parse_1000_ok parse_1004_ok
    by (auto simp: query_device_def Let_def bind_eq_Some_conv split: if_splits prod.splits)
qed

text \<open>A mouse with the unified battery at index 5, while another client talks to it.\<close>

definition sample_mouse :: hidpp_device where
  "sample_mouse = \<lparr>hd_logitech = True, hd_exchange = (\<lambda>request.
     if request ! 2 = 0 then Some [[0x11, 0xff, 9, 0x0b, 1], [0x11, 0xff, 0, 0x0c, 5, 0]]
     else Some [[], [0x11, 0xff, 5, 0x1c, 75, 4, 0, 1]])\<rparr>"

lemma sample_mouse_answers:
  "answers sample_mouse 0 0 [0x10, 0x04] [5, 0]" "answers sample_mouse 5 0x10 [] [75, 4, 0, 1]"
  unfolding answers_def
  by (rule exI [of _ "[[0x11, 0xff, 9, 0x0b, 1]]"], simp add: sample_mouse_def answer_defs)
    (rule exI [of _ "[[]]"], simp add: sample_mouse_def answer_defs)

text \<open>
  What the status report of the unified battery feature says: the state of charge in percent when it is
  one, else the highest level whose bit is set, and the charging state.
\<close>

definition unified_reading :: "u8 \<Rightarrow> u8 \<Rightarrow> u8 \<Rightarrow> hidpp_battery_reading" where
  "unified_reading charge level_bits charging =
     (let percent = unat charge; known = (1 \<le> percent \<and> percent \<le> 100)
      in \<lparr>hr_percent = (if known then Fin (of_nat percent) else NaN), hr_next_percent = - 1,
        hr_status = (case unat charging of 0 \<Rightarrow> ''Charging'' | Suc 0 \<Rightarrow> ''Full'' | Suc (Suc 0) \<Rightarrow> ''Discharging''
          | n \<Rightarrow> if n = 7 then ''Charging error'' else ''Unknown''),
        hr_level =
          (if known then
             (if percent = 100 then ''Full'' else if percent \<in> {81..99} then ''High''
              else if percent \<in> {31..80} then ''Normal'' else if percent \<in> {11..30} then ''Low'' else ''Critical'')
           else if bit level_bits 3 then ''Full'' else if bit level_bits 2 then ''Normal''
           else if bit level_bits 1 then ''Low'' else if bit level_bits 0 then ''Critical'' else ''''),
        hr_source = ''Logitech HID++ 0x1004'', hr_exact_percent = known, hr_next_percent_available = False\<rparr>)"

lemma level_bit: "w AND 8 \<noteq> 0 \<longleftrightarrow> bit w 3" "w AND 4 \<noteq> 0 \<longleftrightarrow> bit w 2" "w AND 2 \<noteq> 0 \<longleftrightarrow> bit w 1"
  "w AND 1 \<noteq> 0 \<longleftrightarrow> bit w 0" for w :: u8
  using and_exp_eq_0_iff_not_bit [of w 3] and_exp_eq_0_iff_not_bit [of w 2] and_exp_eq_0_iff_not_bit [of w 1]
    and_exp_eq_0_iff_not_bit [of w 0] by simp_all

lemma parse_unified_battery:
  assumes "common_text_ok c"
  shows "map_option (\<lambda>r. r\<lparr>hr_source := infiltratr_copy_string c 48 ''Logitech HID++ 0x1004''\<rparr>)
      (lsm_logitech_hidpp_parse_1004 c payload) =
    (case payload of charge # level_bits # charging # _ # _ \<Rightarrow> Some (unified_reading charge level_bits charging)
     | _ \<Rightarrow> None)"
proof (cases "length payload < 4")
  case True
  then show ?thesis by (auto simp: lsm_logitech_hidpp_parse_1004_def split: list.split)
next
  case False
  then have "4 \<le> length payload" by simp
  then obtain charge level_bits charging d extra where payload: "payload = charge # level_bits # charging # d # extra"
    by (auto simp: numeral_eq_Suc Suc_le_length_iff)
  have copy: "length s < 31 \<Longrightarrow> infiltratr_copy_string c 32 s = s"
    "length s < 31 \<Longrightarrow> infiltratr_copy_string c 48 s = s" for s
    using assms by (auto simp: common_text_ok_def)
  have le: "(numeral m :: rat) \<le> of_nat (unat charge) \<longleftrightarrow> numeral m \<le> unat charge" for m
    by (metis of_nat_le_iff of_nat_numeral)
  have known: "0 < charge \<and> charge \<le> 100 \<longleftrightarrow> 1 \<le> unat charge \<and> unat charge \<le> 100"
    by (auto simp: word_le_nat_alt word_less_nat_alt)
  have level: "set_level_from_percent c (Fin (of_nat (unat charge))) 32 =
      (if unat charge = 100 then ''Full'' else if unat charge \<in> {81..99} then ''High''
       else if unat charge \<in> {31..80} then ''Normal'' else if unat charge \<in> {11..30} then ''Low'' else ''Critical'')"
    if "1 \<le> unat charge" "unat charge \<le> 100"
    using that by (auto simp: set_level_from_percent_def copy le simp del: of_nat_unat)
  have status: "set_unified_battery_status c charging 32 =
      (case unat charging of 0 \<Rightarrow> ''Charging'' | Suc 0 \<Rightarrow> ''Full'' | Suc (Suc 0) \<Rightarrow> ''Discharging''
       | n \<Rightarrow> if n = 7 then ''Charging error'' else ''Unknown'')"
    by (auto simp: set_unified_battery_status_def copy word_unat_eq_iff split: nat.split)
  show ?thesis
    using level by (auto simp: payload lsm_logitech_hidpp_parse_1004_def unified_reading_def known status level_bit
        lsm_logitech_hidpp_reset_reading_def double_of_byte copy Let_def simp del: of_nat_unat)
qed

lemma query_unified_battery:
  assumes "hd_logitech device" and "common_text_ok c"
    and feature: "answers device 0 0 [0x10, 0x04] (index # padding)" "index \<noteq> 0" "length padding < 60"
    and status: "answers device index 0x10 [] payload" "length payload \<le> 60"
  shows "query_device c device 0 k = ((0x1004, index),
    case take 16 payload of
      charge # level_bits # charging # _ # _ \<Rightarrow> Some (unified_reading charge level_bits charging)
    | _ \<Rightarrow> None)"
proof -
  have "root_feature_index device 0x1004 = Some index"
    using hidpp_request_answer [OF feature(1)] feature(2,3) by (simp add: root_feature_index_def)
  moreover have "hidpp_request device index 0x10 [] 16 = Some (take 16 payload)"
    using hidpp_request_answer [OF status(1), of 16] status(2) by simp
  ultimately show ?thesis
    using assms(1) parse_unified_battery [OF assms(2), of "take 16 payload"]
    by (simp add: query_device_def discover_feature_def hidpp_constants Let_def)
qed

text \<open>
  C34. Querying a Logitech device reads its battery. When the device reports the unified battery
  feature at an index and answers the status request, the query ends with that feature and, when the
  answer has at least four bytes, with the reading it encodes: the exact percentage and the level it
  falls in when the first byte is a percentage from 1 to 100, else no percentage and the highest level
  whose bit is set in the second byte, and the charging state of the third byte; a shorter answer gives
  no reading. Unrelated traffic of other clients on the node before the two replies changes nothing.
\<close>

theorem hidpp_query_reads_battery:
  assumes "hd_logitech device" and "common_text_ok c"
    and feature: "answers device 0 0 [0x10, 0x04] (index # padding)" "index \<noteq> 0" "length padding < 60"
    and status: "answers device index 0x10 [] payload" "length payload \<le> 60"
  shows "fst (query_device c device 0 k) = (0x1004, index) \<and>
    (length payload < 4 \<longrightarrow> snd (query_device c device 0 k) = None) \<and>
    (\<forall>charge level_bits charging d extra. payload = charge # level_bits # charging # d # extra \<longrightarrow>
       snd (query_device c device 0 k) = Some (unified_reading charge level_bits charging))"
  using query_unified_battery [OF assms, of k] by (auto split: list.split)

text \<open>The mouse of the example, and one that knows no percentage and reports the level bits 8 and 4.\<close>

definition sample_keyboard :: hidpp_device where
  "sample_keyboard = \<lparr>hd_logitech = True, hd_exchange = (\<lambda>request.
     if request ! 2 = 0 then Some [[0x11, 0xff, 0, 0x0c, 5, 0]] else Some [[0x11, 0xff, 5, 0x1c, 0, 12, 2, 1]])\<rparr>"

lemma sample_keyboard_answers:
  "answers sample_keyboard 0 0 [0x10, 0x04] [5, 0]" "answers sample_keyboard 5 0x10 [] [0, 12, 2, 1]"
  unfolding answers_def by (rule exI [of _ "[]"], simp add: sample_keyboard_def)+

theorem hidpp_query_reads_battery_witness:
  "query_device ref_common sample_mouse 0 0 = ((0x1004, 5), Some (unified_reading 75 4 0)) \<and>
   query_device ref_common sample_keyboard 0 0 = ((0x1004, 5), Some (unified_reading 0 12 2)) \<and>
   hr_percent (unified_reading 75 4 0) = Fin 75 \<and> hr_level (unified_reading 0 12 2) = ''Full''"
proof -
  have "bit (12 :: u8) 3" by code_simp
  then have "hr_percent (unified_reading 75 4 0) = Fin 75" "hr_level (unified_reading 0 12 2) = ''Full''"
    by (simp_all add: unified_reading_def)
  moreover have "hd_logitech sample_mouse" "hd_logitech sample_keyboard"
    by (simp_all add: sample_mouse_def sample_keyboard_def)
  ultimately show ?thesis
    using hidpp_query_reads_battery [OF _ ref_common_ok(1) sample_mouse_answers(1) _ _ sample_mouse_answers(2), of 0]
      hidpp_query_reads_battery [OF _ ref_common_ok(1) sample_keyboard_answers(1) _ _ sample_keyboard_answers(2), of 0]
    by (auto simp: prod_eq_iff)
qed

end
