(* ===== verification/Hidpp_Worker.thy ===== *)
theory Hidpp_Worker
  imports Hidpp_Protocol
begin

text \<open>
  The worker of \<^verbatim>\<open>src/logitech_hidpp.c\<close>: the bounded table of watched devices behind one mutex, the
  polling thread that queries them without holding it, and the calls that replace the table, read the
  cache, start and stop the thread. Each mutex-protected section is one definition; \<open>hidpp_step\<close>
  interleaves them, with an arbitrary device behind every query. Clock readings are parameters.
\<close>

definition LSM_HIDPP_REFRESH_SECONDS :: double where "LSM_HIDPP_REFRESH_SECONDS = Fin 10"
definition LSM_HIDPP_RETRY_SECONDS :: double where "LSM_HIDPP_RETRY_SECONDS = Fin 30"
definition LSM_HIDPP_PATH_SIZE :: nat where "LSM_HIDPP_PATH_SIZE = 512"
definition LSM_LOGITECH_HIDPP_MAX_DEVICES :: nat where "LSM_LOGITECH_HIDPP_MAX_DEVICES = 16"

record hidpp_device_slot =
  hs_device_path :: string
  hs_feature_id :: u16
  hs_feature_index :: u8
  hs_reading :: hidpp_battery_reading
  hs_next_query_monotonic :: double
  hs_valid :: bool

text \<open>\<open>hw_cancel_pipe\<close> says whether the two descriptors of the pipe are open.\<close>

record hidpp_worker_state =
  hw_devices :: "hidpp_device_slot list"
  hw_stop_requested :: bool
  hw_thread_started :: bool
  hw_condition_initialized :: bool
  hw_cancel_pipe :: bool

definition hidpp_state :: hidpp_worker_state where
  "hidpp_state = \<lparr>hw_devices = [], hw_stop_requested = False, hw_thread_started = False,
     hw_condition_initialized = False, hw_cancel_pipe = False\<rparr>"

definition ensure_worker_condition_locked :: "bool \<Rightarrow> hidpp_worker_state \<Rightarrow> bool \<times> hidpp_worker_state" where
  "ensure_worker_condition_locked created w =
     (if hw_condition_initialized w then (True, w)
      else if \<not> created then (False, w)
      else (True, w\<lparr>hw_condition_initialized := True\<rparr>))"

definition find_slot_locked :: "hidpp_device_slot list \<Rightarrow> string \<Rightarrow> hidpp_device_slot option" where
  "find_slot_locked devices path = find (\<lambda>slot. hs_device_path slot = path) devices"

text \<open>Writing through the pointer that \<^verbatim>\<open>find_slot_locked\<close> returns.\<close>

fun update_slot ::
  "string \<Rightarrow> (hidpp_device_slot \<Rightarrow> hidpp_device_slot) \<Rightarrow> hidpp_device_slot list \<Rightarrow> hidpp_device_slot list" where
  "update_slot path f [] = []"
| "update_slot path f (slot # slots) =
     (if hs_device_path slot = path then f slot # slots else slot # update_slot path f slots)"

subsection \<open>The watched devices\<close>

definition new_slot :: "common \<Rightarrow> string \<Rightarrow> hidpp_device_slot" where
  "new_slot c path =
     \<lparr>hs_device_path = infiltratr_copy_string c LSM_HIDPP_PATH_SIZE path, hs_feature_id = 0,
      hs_feature_index = 0, hs_reading = lsm_logitech_hidpp_reset_reading,
      hs_next_query_monotonic = Fin 0, hs_valid = False\<rparr>"

text \<open>The loop of \<^verbatim>\<open>set_devices\<close>; \<open>None\<close> is the overflow return, a path \<open>None\<close> the null pointer.\<close>

fun collect_devices ::
  "common \<Rightarrow> hidpp_device_slot list \<Rightarrow> string option list \<Rightarrow> hidpp_device_slot list \<Rightarrow>
     hidpp_device_slot list option" where
  "collect_devices c old [] updated = Some updated"
| "collect_devices c old (None # paths) updated = collect_devices c old paths updated"
| "collect_devices c old (Some path # paths) updated =
     (if path = '''' \<or> (\<exists>slot \<in> set updated. hs_device_path slot = path)
      then collect_devices c old paths updated
      else if LSM_LOGITECH_HIDPP_MAX_DEVICES \<le> length updated then None
      else collect_devices c old paths
        (updated @ [case find_slot_locked old path of Some slot \<Rightarrow> slot | None \<Rightarrow> new_slot c path]))"

definition lsm_logitech_hidpp_set_devices ::
  "common \<Rightarrow> bool \<Rightarrow> string option list \<Rightarrow> hidpp_worker_state \<Rightarrow> bool \<times> hidpp_worker_state" where
  "lsm_logitech_hidpp_set_devices c created paths w =
     (case collect_devices c (hw_devices w) paths [] of
        None \<Rightarrow> (False, w)
      | Some updated \<Rightarrow>
          (True, snd (ensure_worker_condition_locked created (w\<lparr>hw_devices := updated\<rparr>))))"

definition lsm_logitech_hidpp_snapshot ::
  "string \<Rightarrow> hidpp_worker_state \<Rightarrow> hidpp_battery_reading option" where
  "lsm_logitech_hidpp_snapshot path w =
     (if path = '''' then None
      else case find_slot_locked (hw_devices w) path of
        None \<Rightarrow> None
      | Some slot \<Rightarrow> if hs_valid slot then Some (hs_reading slot) else None)"

subsection \<open>The polling thread\<close>

text \<open>The first due slot, or the time to wait.\<close>

fun due_slot :: "double \<Rightarrow> nat \<Rightarrow> double \<Rightarrow> hidpp_device_slot list \<Rightarrow> nat + double" where
  "due_slot now index shortest_wait [] = Inr shortest_wait"
| "due_slot now index shortest_wait (slot # slots) =
     (let remaining = dsub (hs_next_query_monotonic slot) now
      in if dle remaining (Fin 0) then Inl index
         else due_slot now (Suc index) (if dless remaining shortest_wait then remaining else shortest_wait) slots)"

definition find_due_slot_locked :: "double \<Rightarrow> hidpp_device_slot list \<Rightarrow> nat + double" where
  "find_due_slot_locked now devices = due_slot now 0 LSM_HIDPP_REFRESH_SECONDS devices"

text \<open>
  The worker up to the release of the mutex: it copies the due slot and moves its deadline. \<open>None\<close>:
  it waits or finds the stop request.
\<close>

definition worker_select ::
  "double \<Rightarrow> double \<Rightarrow> hidpp_worker_state \<Rightarrow> (hidpp_device_slot \<times> hidpp_worker_state) option" where
  "worker_select now later w =
     (if hw_stop_requested w \<or> hw_devices w = [] then None
      else case find_due_slot_locked now (hw_devices w) of
        Inr wait_seconds \<Rightarrow> None
      | Inl i \<Rightarrow>
          if length (hw_devices w) \<le> i then None
          else Some (hw_devices w ! i,
            w\<lparr>hw_devices := (hw_devices w)[i := (hw_devices w ! i)
              \<lparr>hs_next_query_monotonic := dadd later LSM_HIDPP_RETRY_SECONDS\<rparr>]\<rparr>))"

text \<open>The worker after the query: the slot is looked up again by the path of the request.\<close>

definition worker_publish ::
  "double \<Rightarrow> hidpp_device_slot \<Rightarrow> (u16 \<times> u8) \<times> hidpp_battery_reading option \<Rightarrow>
     hidpp_worker_state \<Rightarrow> hidpp_worker_state" where
  "worker_publish now request result w =
     (if hw_stop_requested w then w
      else w\<lparr>hw_devices := update_slot (hs_device_path request) (\<lambda>slot.
        case result of
          ((feature_id, feature_index), Some reading) \<Rightarrow>
            slot\<lparr>hs_next_query_monotonic := dadd now LSM_HIDPP_REFRESH_SECONDS,
              hs_feature_id := feature_id, hs_feature_index := feature_index,
              hs_reading := reading, hs_valid := True\<rparr>
        | (_, None) \<Rightarrow>
            slot\<lparr>hs_next_query_monotonic := dadd now LSM_HIDPP_RETRY_SECONDS,
              hs_feature_id := 0, hs_feature_index := 0\<rparr>) (hw_devices w)\<rparr>)"

subsection \<open>Starting and stopping\<close>

text \<open>The flags are the outcomes of creating the condition variable, the pipe and the thread.\<close>

definition lsm_logitech_hidpp_start ::
  "bool \<Rightarrow> bool \<Rightarrow> bool \<Rightarrow> hidpp_worker_state \<Rightarrow> bool \<times> hidpp_worker_state" where
  "lsm_logitech_hidpp_start condition_ok pipe_ok thread_ok w =
     (if hw_thread_started w then (True, w)
      else case ensure_worker_condition_locked condition_ok w of
        (False, w) \<Rightarrow> (False, w)
      | (True, w) \<Rightarrow>
        let w = w\<lparr>hw_stop_requested := False, hw_devices := []\<rparr>
        in if \<not> pipe_ok then (False, w)
           else if \<not> thread_ok then (False, w\<lparr>hw_cancel_pipe := False\<rparr>)
           else (True, w\<lparr>hw_cancel_pipe := True, hw_thread_started := True\<rparr>))"

definition stop_request :: "hidpp_worker_state \<Rightarrow> hidpp_worker_state" where
  "stop_request w = (if hw_thread_started w then w\<lparr>hw_stop_requested := True\<rparr> else w)"

definition stop_joined :: "hidpp_worker_state \<Rightarrow> hidpp_worker_state" where
  "stop_joined w = w\<lparr>hw_cancel_pipe := False, hw_thread_started := False,
     hw_stop_requested := False, hw_devices := []\<rparr>"

subsection \<open>Interleavings\<close>

text \<open>
  \<open>Querying\<close> carries the worker's local copy of the slot. \<open>hm_joining\<close>: the caller of
  \<^verbatim>\<open>lsm_logitech_hidpp_stop\<close> waits for the thread. \<open>hm_results\<close> records every successful query. The
  monitor thread makes all calls, with paths that fit \<^verbatim>\<open>LSM_HIDPP_PATH_SIZE\<close>, and does not stop again
  after a stop whose join timed out.
\<close>

datatype worker_pc = No_Worker | Idle | Querying hidpp_device_slot | Ended

record hidpp_machine =
  hm_state :: hidpp_worker_state
  hm_worker :: worker_pc
  hm_joining :: bool
  hm_detached :: bool
  hm_results :: "(string \<times> hidpp_battery_reading) list"

definition initial_machine :: hidpp_machine where
  "initial_machine = \<lparr>hm_state = hidpp_state, hm_worker = No_Worker, hm_joining = False,
     hm_detached = False, hm_results = []\<rparr>"

inductive hidpp_step :: "common \<Rightarrow> hidpp_machine \<Rightarrow> hidpp_machine \<Rightarrow> bool" for c where
  start: "\<not> hm_joining m \<Longrightarrow> lsm_logitech_hidpp_start a p t (hm_state m) = (ok, w) \<Longrightarrow>
    hidpp_step c m (m\<lparr>hm_state := w,
      hm_worker := (if ok \<and> \<not> hw_thread_started (hm_state m) then Idle else hm_worker m)\<rparr>)"
| set_devices: "\<not> hm_joining m \<Longrightarrow>
    \<forall>path. Some path \<in> set paths \<longrightarrow> length path < LSM_HIDPP_PATH_SIZE \<Longrightarrow>
    lsm_logitech_hidpp_set_devices c a paths (hm_state m) = (ok, w) \<Longrightarrow>
    hidpp_step c m (m\<lparr>hm_state := w\<rparr>)"
| select: "hm_worker m = Idle \<Longrightarrow> worker_select now later (hm_state m) = Some (request, w) \<Longrightarrow>
    hidpp_step c m (m\<lparr>hm_state := w, hm_worker := Querying request\<rparr>)"
| publish: "hm_worker m = Querying request \<Longrightarrow>
    query_device c device (hs_feature_id request) (hs_feature_index request) = (feature, reading) \<Longrightarrow>
    hidpp_step c m (m\<lparr>hm_state := worker_publish now request (feature, reading) (hm_state m),
      hm_worker := Idle,
      hm_results := (case reading of None \<Rightarrow> hm_results m
        | Some r \<Rightarrow> hm_results m @ [(hs_device_path request, r)])\<rparr>)"
| finish: "hm_worker m = Idle \<Longrightarrow> hw_stop_requested (hm_state m) \<Longrightarrow>
    hidpp_step c m (m\<lparr>hm_worker := Ended\<rparr>)"
| stop: "\<not> hm_joining m \<Longrightarrow> \<not> hm_detached m \<Longrightarrow> hw_thread_started (hm_state m) \<Longrightarrow>
    hidpp_step c m (m\<lparr>hm_state := stop_request (hm_state m), hm_joining := True\<rparr>)"
| joined: "hm_joining m \<Longrightarrow> hm_worker m = Ended \<Longrightarrow>
    hidpp_step c m (m\<lparr>hm_state := stop_joined (hm_state m), hm_joining := False,
      hm_worker := No_Worker\<rparr>)"
| abandoned: "hm_joining m \<Longrightarrow>
    hidpp_step c m (m\<lparr>hm_joining := False, hm_detached := True\<rparr>)"

definition hidpp_reachable :: "common \<Rightarrow> hidpp_machine \<Rightarrow> bool" where
  "hidpp_reachable c m \<longleftrightarrow> (hidpp_step c)\<^sup>*\<^sup>* initial_machine m"

subsection \<open>The invariant\<close>

definition devices_ok :: "hidpp_device_slot list \<Rightarrow> bool" where
  "devices_ok devices \<longleftrightarrow>
     length devices \<le> LSM_LOGITECH_HIDPP_MAX_DEVICES \<and> distinct (map hs_device_path devices) \<and>
     '''' \<notin> hs_device_path ` set devices"

definition cached_ok :: "(string \<times> hidpp_battery_reading) list \<Rightarrow> hidpp_device_slot \<Rightarrow> bool" where
  "cached_ok results slot \<longleftrightarrow>
     (hs_valid slot \<longrightarrow> (hs_device_path slot, hs_reading slot) \<in> set results)"

definition hidpp_inv :: "hidpp_machine \<Rightarrow> bool" where
  "hidpp_inv m \<longleftrightarrow>
     devices_ok (hw_devices (hm_state m)) \<and>
     (\<forall>slot \<in> set (hw_devices (hm_state m)). cached_ok (hm_results m) slot) \<and>
     (\<forall>(path, r) \<in> set (hm_results m). reading_ok r) \<and>
     (hm_worker m \<noteq> No_Worker \<longrightarrow> hw_thread_started (hm_state m)) \<and>
     (hm_joining m \<longrightarrow> hw_thread_started (hm_state m)) \<and>
     (hw_thread_started (hm_state m) \<longrightarrow> hw_cancel_pipe (hm_state m) \<and> hw_condition_initialized (hm_state m))"

lemma update_slot_paths:
  assumes "\<And>slot. hs_device_path (f slot) = hs_device_path slot"
  shows "map hs_device_path (update_slot path f devices) = map hs_device_path devices"
  using assms by (induction devices) auto

lemma update_slot_set: "slot \<in> set (update_slot path f devices) \<Longrightarrow>
    slot \<in> set devices \<or> (\<exists>old \<in> set devices. hs_device_path old = path \<and> slot = f old)"
  by (induction devices) (auto split: if_splits)

lemma devices_ok_paths:
  "map hs_device_path new = map hs_device_path old \<Longrightarrow> devices_ok new \<longleftrightarrow> devices_ok old"
proof -
  assume eq: "map hs_device_path new = map hs_device_path old"
  have "length new = length old" using arg_cong [OF eq, of length] by simp
  moreover have "hs_device_path ` set new = hs_device_path ` set old" using arg_cong [OF eq, of set] by simp
  ultimately show ?thesis by (simp add: devices_ok_def eq)
qed

lemma find_slot_SomeD:
  "find_slot_locked devices path = Some slot \<Longrightarrow> slot \<in> set devices \<and> hs_device_path slot = path"
  by (auto simp: find_slot_locked_def find_Some_iff)

lemma due_slot_index:
  "due_slot now k w devices = Inl i \<Longrightarrow> k \<le> i \<and> i < k + length devices"
  by (induction devices arbitrary: k w) (fastforce simp: Let_def split: if_splits)+

text \<open>The collected table: first occurrences in order, known devices with their slots.\<close>

lemma collect_devices_ok:
  assumes "collect_devices c old paths updated = Some new" and "common_text_ok c" and "devices_ok updated"
    and "\<forall>path. Some path \<in> set paths \<longrightarrow> length path < LSM_HIDPP_PATH_SIZE"
    and "\<forall>slot \<in> set updated. slot \<in> set old \<or> \<not> hs_valid slot"
  shows "devices_ok new \<and> (\<forall>slot \<in> set new. slot \<in> set old \<or> \<not> hs_valid slot)"
  using assms
proof (induction c old paths updated rule: collect_devices.induct)
  case (3 c old path paths updated)
  let ?slot = "case find_slot_locked old path of Some slot \<Rightarrow> slot | None \<Rightarrow> new_slot c path"
  have slot: "hs_device_path ?slot = path" "?slot \<in> set old \<or> \<not> hs_valid ?slot"
    using "3.prems"(2,4) by (auto simp: new_slot_def common_text_ok_def split: option.splits
        dest!: find_slot_SomeD)
  show ?case
  proof (cases "path = '''' \<or> (\<exists>slot \<in> set updated. hs_device_path slot = path)")
    case True
    with 3 show ?thesis by simp
  next
    case False
    with "3.prems"(1) have space: "length updated < LSM_LOGITECH_HIDPP_MAX_DEVICES"
      by (simp split: if_splits)
    have "devices_ok (updated @ [?slot])"
      using "3.prems"(3) False slot(1) space by (auto simp: devices_ok_def)
    with 3 False space slot(2) show ?thesis by (simp add: not_le)
  qed
qed simp_all

text \<open>Nothing is published when the distinct paths exceed the capacity; otherwise all of them are.\<close>

lemma collect_devices_complete:
  assumes "collect_devices c old paths updated = Some new" and "common_text_ok c"
    and "\<forall>path. Some path \<in> set paths \<longrightarrow> length path < LSM_HIDPP_PATH_SIZE"
  shows "set (map hs_device_path new) =
    set (map hs_device_path updated) \<union> {path. Some path \<in> set paths \<and> path \<noteq> ''''}"
  using assms
proof (induction c old paths updated rule: collect_devices.induct)
  case (3 c old path paths updated)
  let ?slot = "case find_slot_locked old path of Some slot \<Rightarrow> slot | None \<Rightarrow> new_slot c path"
  have "hs_device_path ?slot = path"
    using "3.prems"(2,3) by (auto simp: new_slot_def common_text_ok_def split: option.splits
        dest!: find_slot_SomeD)
  with 3 show ?case by (force split: if_splits)
qed auto

lemma cached_ok_mono: "cached_ok results slot \<Longrightarrow> set results \<subseteq> set more' \<Longrightarrow> cached_ok more' slot"
  by (auto simp: cached_ok_def)

lemma worker_select_ok:
  assumes "worker_select now later w = Some (request, w')"
  shows "map hs_device_path (hw_devices w') = map hs_device_path (hw_devices w)"
    and "\<forall>slot \<in> set (hw_devices w). cached_ok results slot \<Longrightarrow> \<forall>slot \<in> set (hw_devices w'). cached_ok results slot"
    and "hw_thread_started w' = hw_thread_started w" "hw_cancel_pipe w' = hw_cancel_pipe w"
      "hw_condition_initialized w' = hw_condition_initialized w"
proof -
  obtain i where i: "i < length (hw_devices w)" and w': "w' = w\<lparr>hw_devices := (hw_devices w)[i := (hw_devices w ! i)
              \<lparr>hs_next_query_monotonic := dadd later LSM_HIDPP_RETRY_SECONDS\<rparr>]\<rparr>"
    using assms by (auto simp: worker_select_def not_le split: if_splits sum.splits)
  show "map hs_device_path (hw_devices w') = map hs_device_path (hw_devices w)"
    using i by (simp add: w' map_update list_update_same_conv)
  show "\<forall>slot \<in> set (hw_devices w). cached_ok results slot \<Longrightarrow> \<forall>slot \<in> set (hw_devices w'). cached_ok results slot"
    using i set_update_subset_insert by (fastforce simp: w' cached_ok_def)
qed (use assms in \<open>auto simp: worker_select_def split: if_splits sum.splits\<close>)

lemma worker_publish_ok:
  shows "map hs_device_path (hw_devices (worker_publish now request result w)) = map hs_device_path (hw_devices w)"
    and "hw_thread_started (worker_publish now request result w) = hw_thread_started w"
      "hw_cancel_pipe (worker_publish now request result w) = hw_cancel_pipe w"
      "hw_condition_initialized (worker_publish now request result w) = hw_condition_initialized w"
  by (auto simp: worker_publish_def update_slot_paths split: prod.splits option.splits)

lemma worker_publish_cached:
  assumes "\<forall>slot \<in> set (hw_devices w). cached_ok results slot"
    and "\<And>r. snd result = Some r \<Longrightarrow> (hs_device_path request, r) \<in> set results"
  shows "\<forall>slot \<in> set (hw_devices (worker_publish now request result w)). cached_ok results slot"
proof (cases "hw_stop_requested w")
  case False
  obtain p reading where result: "result = (p, reading)" by fastforce
  show ?thesis
  proof
    fix slot assume "slot \<in> set (hw_devices (worker_publish now request result w))"
    with False have "slot \<in> set (hw_devices w) \<or> (\<exists>old \<in> set (hw_devices w).
        hs_device_path old = hs_device_path request \<and> hs_device_path slot = hs_device_path old \<and>
        (case reading of Some r \<Rightarrow> hs_reading slot = r
         | None \<Rightarrow> hs_reading slot = hs_reading old \<and> hs_valid slot = hs_valid old))"
      by (auto simp: worker_publish_def result split: option.splits prod.splits dest!: update_slot_set)
    then show "cached_ok results slot"
      using assms by (auto simp: cached_ok_def result split: option.splits)
  qed
qed (use assms in \<open>simp add: worker_publish_def\<close>)

lemma hidpp_start_ok:
  assumes "lsm_logitech_hidpp_start a p t w = (ok, w')" and "\<not> hw_thread_started w"
  shows "hw_thread_started w' = ok" "ok \<Longrightarrow> hw_cancel_pipe w' \<and> hw_condition_initialized w'"
    and "hw_devices w' = [] \<or> hw_devices w' = hw_devices w"
  using assms by (auto simp: lsm_logitech_hidpp_start_def ensure_worker_condition_locked_def Let_def
      split: if_splits)

lemma hidpp_set_devices_ok:
  assumes "lsm_logitech_hidpp_set_devices c a paths w = (ok, w')" and "common_text_ok c"
    and "\<forall>path. Some path \<in> set paths \<longrightarrow> length path < LSM_HIDPP_PATH_SIZE"
  shows "devices_ok (hw_devices w) \<Longrightarrow> devices_ok (hw_devices w')"
    and "\<forall>slot \<in> set (hw_devices w'). slot \<in> set (hw_devices w) \<or> \<not> hs_valid slot"
    and "hw_thread_started w' = hw_thread_started w" "hw_cancel_pipe w' = hw_cancel_pipe w"
      "hw_condition_initialized w \<Longrightarrow> hw_condition_initialized w'"
proof -
  have "devices_ok []" by (simp add: devices_ok_def)
  then show "devices_ok (hw_devices w) \<Longrightarrow> devices_ok (hw_devices w')"
    "\<forall>slot \<in> set (hw_devices w'). slot \<in> set (hw_devices w) \<or> \<not> hs_valid slot"
    "hw_thread_started w' = hw_thread_started w" "hw_cancel_pipe w' = hw_cancel_pipe w"
    "hw_condition_initialized w \<Longrightarrow> hw_condition_initialized w'"
    using assms collect_devices_ok [of c "hw_devices w" paths "[]"]
    by (auto simp: lsm_logitech_hidpp_set_devices_def ensure_worker_condition_locked_def
        split: option.splits if_splits)
qed

lemma hidpp_step_inv:
  assumes "hidpp_step c m m'" and "hidpp_inv m" and "common_text_ok c"
  shows "hidpp_inv m'"
  using assms(1)
proof cases
  case (start a p t ok w)
  show ?thesis
  proof (cases "hw_thread_started (hm_state m)")
    case True
    with start assms(2) show ?thesis by (simp add: lsm_logitech_hidpp_start_def hidpp_inv_def)
  next
    case False
    note hidpp_start_ok [OF start(3) this]
    with start assms(2) False show ?thesis by (auto simp: hidpp_inv_def devices_ok_def)
  qed
next
  case (set_devices paths a ok w)
  note hidpp_set_devices_ok [OF set_devices(4) assms(3) set_devices(3)]
  with set_devices assms(2) show ?thesis by (fastforce simp: hidpp_inv_def cached_ok_def)
next
  case (select now later request w)
  note ok = worker_select_ok [OF select(3)]
  show ?thesis using ok devices_ok_paths [OF ok(1)] select assms(2) by (simp add: hidpp_inv_def)
next
  case (publish request device feature reading now)
  let ?results = "case reading of None \<Rightarrow> hm_results m
    | Some r \<Rightarrow> hm_results m @ [(hs_device_path request, r)]"
  have "\<forall>slot \<in> set (hw_devices (hm_state m)). cached_ok ?results slot"
    using assms(2) by (auto simp: hidpp_inv_def cached_ok_def split: option.splits)
  then have "\<forall>slot \<in> set (hw_devices (worker_publish now request (feature, reading) (hm_state m))).
      cached_ok ?results slot"
    by (rule worker_publish_cached) simp
  moreover have "reading_ok r" if "reading = Some r" for r
    using query_device_ok [of c device _ _ feature r] publish(3) assms(3) that by blast
  then have "\<forall>(path, r) \<in> set ?results. reading_ok r"
    using assms(2) by (auto simp: hidpp_inv_def split: option.splits)
  ultimately show ?thesis
    using publish assms(2) worker_publish_ok [of now request "(feature, reading)" "hm_state m"]
      devices_ok_paths [OF worker_publish_ok(1)] by (simp add: hidpp_inv_def)
qed (use assms(2) in \<open>auto simp: hidpp_inv_def devices_ok_def stop_request_def stop_joined_def\<close>)

lemma hidpp_reachable_inv:
  assumes "hidpp_reachable c m" and "common_text_ok c"
  shows "hidpp_inv m"
  using assms(1) unfolding hidpp_reachable_def
proof (induction rule: rtranclp_induct)
  case base
  show ?case by (simp add: hidpp_inv_def initial_machine_def hidpp_state_def devices_ok_def)
qed (use assms(2) in \<open>auto intro: hidpp_step_inv\<close>)

text \<open>
  C35. In every interleaving of the polling thread with the monitor, the table holds at most 16
  distinct devices, and a cached reading is one that a query of exactly that device returned, with
  valid percentages, although the table may be replaced while the query is under way. While the
  thread exists its cancellation pipe is open and its condition variable initialised, also after a
  stop that gave up waiting.
\<close>

theorem hidpp_cache_safe:
  assumes "hidpp_reachable c m" and "common_text_ok c"
  shows "length (hw_devices (hm_state m)) \<le> 16 \<and> distinct (map hs_device_path (hw_devices (hm_state m))) \<and>
    (\<forall>path r. lsm_logitech_hidpp_snapshot path (hm_state m) = Some r \<longrightarrow>
       (path, r) \<in> set (hm_results m) \<and> reading_ok r) \<and>
    (hm_worker m \<noteq> No_Worker \<longrightarrow>
       hw_cancel_pipe (hm_state m) \<and> hw_condition_initialized (hm_state m) \<and> hw_thread_started (hm_state m))"
  using hidpp_reachable_inv [OF assms]
  by (auto simp: hidpp_inv_def devices_ok_def LSM_LOGITECH_HIDPP_MAX_DEVICES_def cached_ok_def
      lsm_logitech_hidpp_snapshot_def split: if_splits option.splits dest!: find_slot_SomeD)

text \<open>A run: the worker starts, one mouse is watched, found due, queried, and its reading published.\<close>

definition sample_reading :: hidpp_battery_reading where
  "sample_reading = \<lparr>hr_percent = Fin 75, hr_next_percent = - 1, hr_status = ''Charging'',
     hr_level = ''Normal'', hr_source = ''Logitech HID++ 0x1004'', hr_exact_percent = True,
     hr_next_percent_available = False\<rparr>"

definition sample_slot :: hidpp_device_slot where
  "sample_slot = \<lparr>hs_device_path = ''/dev/hidraw0'', hs_feature_id = 0, hs_feature_index = 0,
     hs_reading = lsm_logitech_hidpp_reset_reading, hs_next_query_monotonic = Fin 0, hs_valid = False\<rparr>"

definition sample_worker :: "hidpp_device_slot list \<Rightarrow> hidpp_worker_state" where
  "sample_worker slots = \<lparr>hw_devices = slots, hw_stop_requested = False, hw_thread_started = True,
     hw_condition_initialized = True, hw_cancel_pipe = True\<rparr>"

definition sample_machine :: hidpp_machine where
  "sample_machine = \<lparr>hm_state = sample_worker [sample_slot
       \<lparr>hs_feature_id := 0x1004, hs_feature_index := 5, hs_reading := sample_reading,
        hs_next_query_monotonic := Fin 12, hs_valid := True\<rparr>],
     hm_worker = Idle, hm_joining = False, hm_detached = False,
     hm_results = [(''/dev/hidraw0'', sample_reading)]\<rparr>"

lemma sample_query: "query_device ref_common sample_mouse 0 0 = ((0x1004, 5), Some sample_reading)"
  using query_unified_battery [OF _ ref_common_ok(1) sample_mouse_answers(1) _ _ sample_mouse_answers(2), of 0]
  by (simp add: sample_reading_def sample_mouse_def unified_reading_def)

lemma sample_clock: "fl 12 = Fin 12" "dle (dsub (Fin 0) (Fin 1)) (Fin 0)"
  using rnd_of_int [of "- 1"] by (simp_all add: dsub_def dbl_simps fl_def)

lemma sample_machine_reachable: "hidpp_reachable ref_common sample_machine"
proof -
  let ?m = "\<lambda>slots pc. \<lparr>hm_state = sample_worker slots, hm_worker = pc, hm_joining = False,
    hm_detached = False, hm_results = []\<rparr>"
  let ?s = "sample_slot\<lparr>hs_next_query_monotonic := dadd (Fin 1) LSM_HIDPP_RETRY_SECONDS\<rparr>"
  have 1: "hidpp_step ref_common initial_machine (?m [] Idle)"
    using hidpp_step.start [of initial_machine True True True True "sample_worker []" ref_common]
    by (simp add: initial_machine_def hidpp_state_def lsm_logitech_hidpp_start_def
        ensure_worker_condition_locked_def sample_worker_def)
  have 2: "hidpp_step ref_common (?m [] Idle) (?m [sample_slot] Idle)"
    using hidpp_step.set_devices [of "?m [] Idle" "[Some ''/dev/hidraw0'']" ref_common True True
        "sample_worker [sample_slot]"]
    by (simp add: lsm_logitech_hidpp_set_devices_def ensure_worker_condition_locked_def sample_worker_def
        LSM_HIDPP_PATH_SIZE_def LSM_LOGITECH_HIDPP_MAX_DEVICES_def find_slot_locked_def new_slot_def
        sample_slot_def ref_common_def)
  have 3: "hidpp_step ref_common (?m [sample_slot] Idle) (?m [?s] (Querying sample_slot))"
    using hidpp_step.select [of "?m [sample_slot] Idle" "Fin 1" "Fin 1" sample_slot "sample_worker [?s]" ref_common]
    by (simp add: worker_select_def find_due_slot_locked_def sample_worker_def sample_slot_def sample_clock)
  have 4: "hidpp_step ref_common (?m [?s] (Querying sample_slot)) sample_machine"
    using hidpp_step.publish [of "?m [?s] (Querying sample_slot)" sample_slot ref_common sample_mouse
        "(0x1004, 5)" "Some sample_reading" "Fin 2"] sample_query
    by (simp add: sample_machine_def worker_publish_def sample_worker_def sample_slot_def
        LSM_HIDPP_REFRESH_SECONDS_def sample_clock)
  from 1 2 3 4 show ?thesis unfolding hidpp_reachable_def by (meson r_into_rtranclp rtranclp_trans)
qed

theorem hidpp_cache_safe_witness:
  "hidpp_reachable ref_common sample_machine \<and>
     lsm_logitech_hidpp_snapshot ''/dev/hidraw0'' (hm_state sample_machine) = Some sample_reading \<and>
     (''/dev/hidraw0'', sample_reading) \<in> set (hm_results sample_machine) \<and> reading_ok sample_reading"
proof -
  have "lsm_logitech_hidpp_snapshot ''/dev/hidraw0'' (hm_state sample_machine) = Some sample_reading"
    by (simp add: lsm_logitech_hidpp_snapshot_def sample_machine_def sample_worker_def sample_slot_def
        find_slot_locked_def)
  then show ?thesis
    using hidpp_cache_safe [OF sample_machine_reachable ref_common_ok(1)] sample_machine_reachable by blast
qed

end
