(* ===== verification/Sorted_Arrays.thy ===== *)
theory Sorted_Arrays
  imports Main
begin

text \<open>
  Sorting and searching as several components write them: \<^verbatim>\<open>qsort\<close>, an insertion sort by the given
  comparison (on a total order every sorting algorithm gives this list), and the binary search for
  the first position whose key is not below the one looked for, with its reading as a finite map
  when the keys are strictly sorted.
\<close>

fun insert_by :: "('a \<Rightarrow> 'a \<Rightarrow> int) \<Rightarrow> 'a \<Rightarrow> 'a list \<Rightarrow> 'a list" where
  "insert_by cmp x [] = [x]"
| "insert_by cmp x (y # ys) = (if cmp x y \<le> 0 then x # y # ys else y # insert_by cmp x ys)"

definition qsort :: "('a \<Rightarrow> 'a \<Rightarrow> int) \<Rightarrow> 'a list \<Rightarrow> 'a list" where
  "qsort cmp xs = foldr (insert_by cmp) xs []"

lemma set_qsort: "set (qsort cmp xs) = set xs"
proof -
  have "set (insert_by cmp x ys) = insert x (set ys)" for x and ys :: "'a list"
    by (induction ys) auto
  then show ?thesis by (induction xs) (simp_all add: qsort_def)
qed

lemma qsort_sort_key:
  assumes "\<And>x y. cmp x y \<le> 0 \<longleftrightarrow> rank x \<le> rank y"
  shows "qsort cmp xs = sort_key rank xs"
proof -
  have "insert_by cmp x ys = insort_key rank x ys" for x ys
    by (induction ys) (auto simp: assms)
  then have "insert_by cmp = insort_key rank" by (intro ext) auto
  then show ?thesis by (simp add: qsort_def sort_key_def)
qed

function lower_bound :: "'a::linorder list \<Rightarrow> 'a \<Rightarrow> nat \<Rightarrow> nat \<Rightarrow> nat" where
  "lower_bound keys key low high =
     (if low < high then
        let middle = low + (high - low) div 2
        in if keys ! middle < key then lower_bound keys key (middle + 1) high
           else lower_bound keys key low middle
      else low)"
  by pat_completeness auto

termination
  by (relation "measure (\<lambda>(keys, key, low, high). high - low)") auto

declare lower_bound.simps [simp del]

lemma lower_bound_partitions:
  assumes "sorted keys" and "low \<le> high" and "high \<le> length keys"
    and "\<forall>i<low. keys ! i < key" and "\<forall>i. high \<le> i \<and> i < length keys \<longrightarrow> key \<le> keys ! i"
  shows "lower_bound keys key low high \<le> high \<and> (\<forall>i<lower_bound keys key low high. keys ! i < key) \<and>
    (\<forall>i. lower_bound keys key low high \<le> i \<and> i < length keys \<longrightarrow> key \<le> keys ! i)"
  using assms
proof (induction keys key low high rule: lower_bound.induct)
  case (1 keys key low high)
  show ?case
  proof (cases "low < high")
    case False
    then have "lower_bound keys key low high = low" by (simp add: lower_bound.simps [of keys key low high])
    then show ?thesis using "1.prems" False by simp
  next
    case True
    define middle where "middle = low + (high - low) div 2"
    have mid: "low \<le> middle" "middle < high" "middle < length keys"
      using True "1.prems"(3) by (auto simp: middle_def)
    show ?thesis
    proof (cases "keys ! middle < key")
      case less: True
      have "keys ! i < key" if "i < middle + 1" for i
        using sorted_nth_mono [OF "1.prems"(1), of i middle] that mid less by simp
      then have "lower_bound keys key (middle + 1) high \<le> high \<and>
          (\<forall>i<lower_bound keys key (middle + 1) high. keys ! i < key) \<and>
          (\<forall>i. lower_bound keys key (middle + 1) high \<le> i \<and> i < length keys \<longrightarrow> key \<le> keys ! i)"
        using "1.IH"(1) [OF True middle_def less] "1.prems" mid by simp
      moreover have "lower_bound keys key low high = lower_bound keys key (middle + 1) high"
        using True less by (simp add: lower_bound.simps [of keys key low high] Let_def flip: middle_def)
      ultimately show ?thesis by simp
    next
      case ge: False
      have "key \<le> keys ! i" if "middle \<le> i" "i < length keys" for i
        using sorted_nth_mono [OF "1.prems"(1) that] ge by (simp add: not_less)
      then have above: "\<forall>i. middle \<le> i \<and> i < length keys \<longrightarrow> key \<le> keys ! i" by simp
      have "lower_bound keys key low middle \<le> middle \<and>
          (\<forall>i<lower_bound keys key low middle. keys ! i < key) \<and>
          (\<forall>i. lower_bound keys key low middle \<le> i \<and> i < length keys \<longrightarrow> key \<le> keys ! i)"
        by (rule "1.IH"(2) [OF True middle_def ge "1.prems"(1) mid(1) _ "1.prems"(4) above])
          (use mid(3) in simp)
      moreover have "lower_bound keys key low high = lower_bound keys key low middle"
        using True ge by (simp add: lower_bound.simps [of keys key low high] Let_def flip: middle_def)
      ultimately show ?thesis using less_imp_le [OF mid(2)] by (metis le_trans)
    qed
  qed
qed

lemma lower_bound_map_of:
  fixes records :: "('k::linorder \<times> 'v) list" and key :: 'k
  assumes "sorted_wrt (<) (map fst records)"
  defines "low \<equiv> lower_bound (map fst records) key 0 (length records)"
  shows "map_of records key =
    (if length records \<le> low \<or> fst (records ! low) \<noteq> key then None else Some (snd (records ! low)))"
proof -
  have keys: "sorted (map fst records)" "distinct (map fst records)"
    using assms(1) by (simp_all add: strict_sorted_iff)
  have part: "low \<le> length records \<and> (\<forall>i<low. map fst records ! i < key) \<and>
      (\<forall>i. low \<le> i \<and> i < length (map fst records) \<longrightarrow> key \<le> map fst records ! i)"
    unfolding low_def by (rule lower_bound_partitions) (use keys(1) in auto)
  then have bound: "\<forall>i<low. fst (records ! i) < key"
      "\<forall>i. low \<le> i \<and> i < length records \<longrightarrow> key \<le> fst (records ! i)" "low \<le> length records"
    by auto
  show ?thesis
  proof (cases "low < length records \<and> fst (records ! low) = key")
    case True
    then have "(key, snd (records ! low)) \<in> set records"
      by (metis nth_mem prod.collapse)
    then show ?thesis using True keys(2) by simp
  next
    case False
    have "fst (records ! i) \<noteq> key" if i: "i < length records" for i
    proof (cases "i < low")
      case True
      then show ?thesis using bound(1) by (metis less_irrefl)
    next
      case low: False
      then have less: "low < length records" using i by simp
      then have "key < fst (records ! low)" using False bound(2) by (simp add: order_less_le)
      also have "\<dots> \<le> fst (records ! i)"
        using sorted_nth_mono [OF keys(1), of low i] low i by simp
      finally show ?thesis by simp
    qed
    then have "key \<notin> fst ` set records" by (metis imageE in_set_conv_nth)
    then show ?thesis using False by (auto simp: map_of_eq_None_iff)
  qed
qed

end
