(* ===== verification/String_Order.thy ===== *)
theory String_Order
  imports C_String Sorted_Arrays "HOL-Library.List_Lexorder" "HOL-Library.Product_Lexorder"
begin

text \<open>
  The order of C strings: \<^verbatim>\<open>strcmp\<close> compares bytes lexicographically, so it is the library's order on
  lists of byte values, and arrays sorted by a key with \<^verbatim>\<open>strcmp\<close> are sorted in that order.
\<close>

fun strcmp :: "string \<Rightarrow> string \<Rightarrow> int" where
  "strcmp [] [] = 0"
| "strcmp [] (b # bs) = - 1"
| "strcmp (a # as) [] = 1"
| "strcmp (a # as) (b # bs) =
     (if of_char a < (of_char b :: nat) then - 1 else if of_char b < (of_char a :: nat) then 1
      else strcmp as bs)"

abbreviation byte_values :: "string \<Rightarrow> nat list" where
  "byte_values s \<equiv> map of_char s"

lemma strcmp_less: "strcmp a b < 0 \<longleftrightarrow> byte_values a < byte_values b"
  by (induction a b rule: strcmp.induct) auto

lemma strcmp_0: "strcmp a b = 0 \<longleftrightarrow> a = b"
  by (induction a b rule: strcmp.induct) auto

lemma byte_values_inj: "byte_values a = byte_values b \<longleftrightarrow> a = b"
  by (rule inj_map_eq_map) (simp add: inj_on_def)

lemma strcmp_le: "strcmp a b \<le> 0 \<longleftrightarrow> byte_values a \<le> byte_values b"
  using strcmp_less [of a b] strcmp_0 [of a b] by (auto simp: order_le_less byte_values_inj)

text \<open>Sorting by a string key.\<close>

lemma qsort_strcmp: "qsort (\<lambda>a b. strcmp (key a) (key b)) xs = sort_key (\<lambda>a. byte_values (key a)) xs"
  by (rule qsort_sort_key) (rule strcmp_le)

end
