(* ===== verification/History_Retention.thy ===== *)
theory History_Retention
  imports Common_Library String_Order
begin

text \<open>
  The retention policy of \<^verbatim>\<open>src/history.c\<close>: which entries of the App History leave the table when it
  holds more than \<^verbatim>\<open>LSM_HISTORY_MAX_ENTRIES\<close>. The hash table is the list of its entries in the order
  its iterator meets them, which is unspecified: every theorem holds for all orders. Times are
  integers, since they are only compared.
\<close>

definition LSM_HISTORY_MAX_ENTRIES :: nat where "LSM_HISTORY_MAX_ENTRIES = 4096"

record history_entry =
  he_key :: string
  he_name :: string
  he_user :: string
  he_identity :: string
  he_cpu_seconds :: double
  he_active_seconds :: double
  he_read_bytes :: u64
  he_write_bytes :: u64
  he_peak_rss_bytes :: u64
  he_current_rss_bytes :: u64
  he_live_generation :: u32
  he_first_seen :: int
  he_last_seen :: int

text \<open>The hash table and the separate counter \<^verbatim>\<open>history_entry_count\<close>.\<close>

record history_table =
  ht_entries :: "history_entry list"
  ht_count :: nat

definition history_entry_recency_compare :: "history_entry \<Rightarrow> history_entry \<Rightarrow> int" where
  "history_entry_recency_compare left right =
     (if he_last_seen left \<noteq> he_last_seen right then
        if he_last_seen left < he_last_seen right then - 1 else 1
      else if he_first_seen left \<noteq> he_first_seen right then
        if he_first_seen left < he_first_seen right then - 1 else 1
      else strcmp (he_key left) (he_key right))"

definition history_protected :: "u32 \<Rightarrow> history_entry \<Rightarrow> bool" where
  "history_protected protected_generation e \<longleftrightarrow>
     protected_generation \<noteq> 0 \<and> he_live_generation e = protected_generation"

text \<open>The iteration of \<^verbatim>\<open>history_oldest_key\<close>.\<close>

definition oldest_step :: "u32 \<Rightarrow> history_entry \<Rightarrow> history_entry option \<Rightarrow> history_entry option" where
  "oldest_step protected_generation e oldest =
     (if history_protected protected_generation e then oldest
      else case oldest of
        None \<Rightarrow> Some e
      | Some o' \<Rightarrow> if history_entry_recency_compare e o' < 0 then Some e else oldest)"

definition history_oldest_key :: "u32 \<Rightarrow> history_table \<Rightarrow> string option" where
  "history_oldest_key protected_generation t =
     (if ht_count t = 0 then None
      else map_option he_key (fold (oldest_step protected_generation) (ht_entries t) None))"

definition remove_key :: "string \<Rightarrow> history_entry list \<Rightarrow> history_entry list" where
  "remove_key key entries = filter (\<lambda>e. he_key e \<noteq> key) entries"

definition contains_key :: "string \<Rightarrow> history_entry list \<Rightarrow> bool" where
  "contains_key key entries \<longleftrightarrow> (\<exists>e \<in> set entries. he_key e = key)"

definition history_remove_oldest :: "u32 \<Rightarrow> history_table \<Rightarrow> bool \<times> history_table" where
  "history_remove_oldest protected_generation t =
     (case history_oldest_key protected_generation t of
        None \<Rightarrow> (False, t)
      | Some key \<Rightarrow>
          if \<not> contains_key key (ht_entries t) then (False, t)
          else (True, \<lparr>ht_entries = remove_key key (ht_entries t),
            ht_count = (if 0 < ht_count t then ht_count t - 1 else ht_count t)\<rparr>))"

text \<open>Removing a list of keys, and how many of them were present.\<close>

fun remove_keys :: "string list \<Rightarrow> history_entry list \<Rightarrow> nat \<Rightarrow> history_entry list \<times> nat" where
  "remove_keys [] entries removed = (entries, removed)"
| "remove_keys (key # keys) entries removed =
     (if contains_key key entries then remove_keys keys (remove_key key entries) (Suc removed)
      else remove_keys keys entries removed)"

definition trim_batch :: "u32 \<Rightarrow> history_table \<Rightarrow> bool \<times> history_table" where
  "trim_batch protected_generation t =
     (let excess = ht_count t - LSM_HISTORY_MAX_ENTRIES;
          candidates = qsort history_entry_recency_compare
            (filter (\<lambda>e. \<not> history_protected protected_generation e) (ht_entries t));
          (entries, removed) = remove_keys (map he_key (take excess candidates)) (ht_entries t) 0
      in (0 < removed, \<lparr>ht_entries = entries,
            ht_count = (if ht_count t < removed then 0 else ht_count t - removed)\<rparr>))"

text \<open>The loop for the case that the candidate array cannot be allocated.\<close>

function trim_loop :: "u32 \<Rightarrow> bool \<Rightarrow> history_table \<Rightarrow> bool \<times> history_table" where
  "trim_loop protected_generation changed t =
     (if LSM_HISTORY_MAX_ENTRIES < ht_count t then
        case history_remove_oldest protected_generation t of
          (False, _) \<Rightarrow> (changed, t)
        | (True, t') \<Rightarrow> trim_loop protected_generation True t'
      else (changed, t))"
  by pat_completeness auto
termination
  by (relation "measure (\<lambda>(g, c, t). ht_count t)")
    (auto simp: history_remove_oldest_def split: option.splits if_splits)

declare trim_loop.simps [simp del]

definition history_trim_to_limit :: "bool \<Rightarrow> u32 \<Rightarrow> history_table \<Rightarrow> bool \<times> history_table" where
  "history_trim_to_limit allocated protected_generation t =
     (if ht_count t \<le> LSM_HISTORY_MAX_ENTRIES then (False, t)
      else if allocated then trim_batch protected_generation t
      else trim_loop protected_generation False t)"

subsection \<open>The recency order\<close>

text \<open>The comparison is the lexicographic order on last use, first use and key bytes.\<close>

definition recency_rank :: "history_entry \<Rightarrow> int \<times> int \<times> nat list" where
  "recency_rank e = (he_last_seen e, he_first_seen e, map of_char (he_key e))"

lemma recency_compare_less: "history_entry_recency_compare l r < 0 \<longleftrightarrow> recency_rank l < recency_rank r"
  by (auto simp: history_entry_recency_compare_def recency_rank_def less_prod_def' strcmp_less)

lemma recency_compare_le: "history_entry_recency_compare l r \<le> 0 \<longleftrightarrow> recency_rank l \<le> recency_rank r"
proof -
  have "history_entry_recency_compare l r = 0 \<longleftrightarrow> recency_rank l = recency_rank r"
    by (auto simp: history_entry_recency_compare_def recency_rank_def strcmp_0 inj_map_eq_map
        inj_on_def)
  then show ?thesis using recency_compare_less [of l r] by (auto simp: le_less)
qed

lemma recency_rank_key: "recency_rank a = recency_rank b \<Longrightarrow> he_key a = he_key b"
  by (simp add: recency_rank_def inj_map_eq_map inj_on_def)

lemma qsort_recency: "qsort history_entry_recency_compare xs = sort_key recency_rank xs"
  by (rule qsort_sort_key) (simp add: recency_compare_le)

subsection \<open>What is evicted\<close>

definition table_ok :: "history_table \<Rightarrow> bool" where
  "table_ok t \<longleftrightarrow> distinct (map he_key (ht_entries t)) \<and> ht_count t = length (ht_entries t)"

text \<open>The entries that may leave, oldest first.\<close>

definition candidates :: "u32 \<Rightarrow> history_entry list \<Rightarrow> history_entry list" where
  "candidates g entries = sort_key recency_rank (filter (\<lambda>e. \<not> history_protected g e) entries)"

definition without :: "history_entry list \<Rightarrow> history_entry list \<Rightarrow> history_entry list" where
  "without gone entries = filter (\<lambda>e. he_key e \<notin> he_key ` set gone) entries"

lemma set_candidates: "set (candidates g entries) = {e \<in> set entries. \<not> history_protected g e}"
  by (auto simp: candidates_def)

lemma distinct_candidates:
  "distinct (map he_key entries) \<Longrightarrow> distinct (map he_key (candidates g entries))"
  by (simp add: candidates_def distinct_map inj_on_subset [of _ "set entries"] filter_is_subset)

lemma distinct_keys_eq:
  "distinct (map he_key xs) \<Longrightarrow> a \<in> set xs \<Longrightarrow> b \<in> set xs \<Longrightarrow> he_key a = he_key b \<Longrightarrow> a = b"
  by (auto simp: distinct_map dest: inj_onD)

lemma oldest_fold:
  "\<exists>m. fold (oldest_step g) xs (Some e) = Some m \<and>
     m \<in> insert e {x \<in> set xs. \<not> history_protected g x} \<and>
     (\<forall>x \<in> insert e {x \<in> set xs. \<not> history_protected g x}. recency_rank m \<le> recency_rank x)"
proof (induction xs arbitrary: e)
  case (Cons x xs)
  let ?e = "if \<not> history_protected g x \<and> recency_rank x < recency_rank e then x else e"
  have step: "oldest_step g x (Some e) = Some ?e"
    by (simp add: oldest_step_def recency_compare_less)
  from Cons [of ?e] obtain m where m: "fold (oldest_step g) xs (Some ?e) = Some m"
    "m \<in> insert ?e {x \<in> set xs. \<not> history_protected g x}"
    "\<forall>x \<in> insert ?e {x \<in> set xs. \<not> history_protected g x}. recency_rank m \<le> recency_rank x"
    by blast
  then show ?case unfolding fold_simps(2) step
    by (intro exI [of _ m]) (auto split: if_splits intro: order_trans)
qed simp

lemma oldest_is_first_candidate:
  assumes "distinct (map he_key entries)"
  shows "fold (oldest_step g) entries None =
    (case candidates g entries of [] \<Rightarrow> None | c # cs \<Rightarrow> Some c)"
proof (cases "candidates g entries")
  case Nil
  then have "\<forall>e \<in> set entries. history_protected g e"
    using set_candidates [of g entries] by auto
  then have "fold (oldest_step g) entries None = None"
    by (induction entries) (auto simp: oldest_step_def)
  with Nil show ?thesis by simp
next
  case (Cons c cs)
  have "\<exists>m. fold (oldest_step g) entries None = Some m \<and> m \<in> set (candidates g entries) \<and>
      (\<forall>x \<in> set (candidates g entries). recency_rank m \<le> recency_rank x)"
  proof -
    have "\<exists>e \<in> set entries. \<not> history_protected g e"
      using Cons set_candidates [of g entries] by auto
    from split_list_first_prop [OF this] obtain ys e zs where
      split: "entries = ys @ e # zs" "\<not> history_protected g e" "\<forall>y \<in> set ys. history_protected g y"
      by auto
    have "fold (oldest_step g) ys None = None" using split(3)
      by (induction ys) (auto simp: oldest_step_def)
    then have "fold (oldest_step g) entries None = fold (oldest_step g) zs (Some e)"
      using split by (simp add: oldest_step_def)
    moreover have "set (candidates g entries) = insert e {x \<in> set zs. \<not> history_protected g x}"
      using split by (auto simp: set_candidates)
    ultimately show ?thesis using oldest_fold [of g zs e] by auto
  qed
  then obtain m where m: "fold (oldest_step g) entries None = Some m" "m \<in> set (candidates g entries)"
    "\<forall>x \<in> set (candidates g entries). recency_rank m \<le> recency_rank x" by blast
  have "\<forall>x \<in> set (candidates g entries). recency_rank c \<le> recency_rank x"
    using sorted_sort_key [of recency_rank "filter (\<lambda>e. \<not> history_protected g e) entries"]
    by (simp add: Cons flip: candidates_def)
  with m Cons have "recency_rank c = recency_rank m" by (auto intro: antisym)
  moreover have "c \<in> set (candidates g entries)" by (simp add: Cons)
  ultimately have "c = m"
    using distinct_keys_eq [OF distinct_candidates [OF assms]] m(2) recency_rank_key by blast
  with m(1) Cons show ?thesis by simp
qed

lemma remove_key_keys: "he_key ` set (remove_key key entries) = he_key ` set entries - {key}"
  by (auto simp: remove_key_def)

lemma remove_keys_without:
  assumes "distinct (map he_key gone)" and "he_key ` set gone \<subseteq> he_key ` set entries"
  shows "remove_keys (map he_key gone) entries n = (without gone entries, n + length gone)"
  using assms
proof (induction gone arbitrary: entries n)
  case Nil
  then show ?case by (simp add: without_def)
next
  case (Cons e gone)
  have "he_key e \<notin> he_key ` set gone" "he_key ` set gone \<subseteq> he_key ` set entries"
    using Cons.prems by simp_all
  then have "he_key ` set gone \<subseteq> he_key ` set entries - {he_key e}" by blast
  then have "he_key ` set gone \<subseteq> he_key ` set (remove_key (he_key e) entries)" by (simp add: remove_key_keys)
  moreover have "contains_key (he_key e) entries" using Cons.prems by (auto simp: contains_key_def)
  moreover have "without gone (remove_key (he_key e) entries) = without (e # gone) entries"
    by (auto simp: without_def remove_key_def intro: filter_cong)
  ultimately show ?case using Cons by simp
qed

definition evicted :: "u32 \<Rightarrow> history_table \<Rightarrow> history_entry list" where
  "evicted g t = take (ht_count t - LSM_HISTORY_MAX_ENTRIES) (candidates g (ht_entries t))"

lemma evicted_keys:
  assumes "table_ok t"
  shows "distinct (map he_key (evicted g t))" "set (evicted g t) \<subseteq> set (ht_entries t)"
    "length (evicted g t) \<le> ht_count t"
proof -
  show "distinct (map he_key (evicted g t))"
    using distinct_candidates assms by (simp add: evicted_def table_ok_def distinct_take flip: take_map)
  show "set (evicted g t) \<subseteq> set (ht_entries t)"
    using set_take_subset [of _ "candidates g (ht_entries t)"] by (auto simp: evicted_def set_candidates)
  show "length (evicted g t) \<le> ht_count t"
    using assms by (simp add: evicted_def table_ok_def)
qed

lemma trim_batch_evicts:
  assumes "table_ok t"
  shows "trim_batch g t = (evicted g t \<noteq> [],
    \<lparr>ht_entries = without (evicted g t) (ht_entries t), ht_count = ht_count t - length (evicted g t)\<rparr>)"
proof -
  note keys = evicted_keys [OF assms, of g]
  have "he_key ` set (evicted g t) \<subseteq> he_key ` set (ht_entries t)" using keys(2) by blast
  note removed = remove_keys_without [OF keys(1) this, of 0]
  have "take (ht_count t - LSM_HISTORY_MAX_ENTRIES) (qsort history_entry_recency_compare
      (filter (\<lambda>e. \<not> history_protected g e) (ht_entries t))) = evicted g t"
    by (simp add: evicted_def candidates_def qsort_recency)
  with removed keys(3) show ?thesis by (auto simp: trim_batch_def Let_def)
qed

lemma remove_key_remove1:
  "distinct (map he_key xs) \<Longrightarrow> c \<in> set xs \<Longrightarrow> remove_key (he_key c) xs = remove1 c xs"
proof (induction xs)
  case (Cons x xs)
  show ?case
  proof (cases "x = c")
    case True
    have "he_key y \<noteq> he_key c" if "y \<in> set xs" for y
      using that Cons.prems(1) True by (metis distinct.simps(2) image_eqI list.set_map list.simps(9))
    then show ?thesis using True by (simp add: remove_key_def filter_id_conv)
  next
    case False
    then have "c \<in> set xs" using Cons.prems by simp
    moreover from this have "he_key x \<noteq> he_key c"
      using Cons.prems(1) by (metis distinct.simps(2) image_eqI list.set_map list.simps(9))
    ultimately show ?thesis using Cons False by (simp add: remove_key_def)
  qed
qed simp

text \<open>One round of the loop removes the first candidate.\<close>

lemma remove_oldest_candidate:
  assumes "table_ok t" and "candidates g (ht_entries t) = c # cs"
  shows "history_remove_oldest g t =
      (True, \<lparr>ht_entries = remove_key (he_key c) (ht_entries t), ht_count = ht_count t - 1\<rparr>)"
    and "candidates g (remove_key (he_key c) (ht_entries t)) = cs"
    and "table_ok \<lparr>ht_entries = remove_key (he_key c) (ht_entries t), ht_count = ht_count t - 1\<rparr>"
proof -
  have dist: "distinct (map he_key (ht_entries t))" and count: "ht_count t = length (ht_entries t)"
    using assms(1) by (simp_all add: table_ok_def)
  have c: "c \<in> set (ht_entries t)" using assms(2) set_candidates [of g "ht_entries t"] by auto
  then have "contains_key (he_key c) (ht_entries t)" "0 < ht_count t"
    by (auto simp: contains_key_def count)
  then show "history_remove_oldest g t =
      (True, \<lparr>ht_entries = remove_key (he_key c) (ht_entries t), ht_count = ht_count t - 1\<rparr>)"
    using assms(2) oldest_is_first_candidate [OF dist, of g]
    by (simp add: history_remove_oldest_def history_oldest_key_def)
  have "candidates g (remove_key (he_key c) (ht_entries t)) = filter (\<lambda>e. he_key e \<noteq> he_key c) (c # cs)"
    by (simp add: candidates_def remove_key_def filter_sort conj_commute flip: assms(2))
  also have "\<dots> = cs"
    using distinct_candidates [OF dist, of g] by (auto simp: assms(2) filter_id_conv image_iff)
  finally show "candidates g (remove_key (he_key c) (ht_entries t)) = cs" .
  have "remove_key (he_key c) (ht_entries t) = remove1 c (ht_entries t)"
    using dist c by (rule remove_key_remove1)
  then show "table_ok \<lparr>ht_entries = remove_key (he_key c) (ht_entries t), ht_count = ht_count t - 1\<rparr>"
    using c dist count by (simp add: table_ok_def length_remove1 distinct_map remove_key_def
        inj_on_subset [of _ "set (ht_entries t)"] filter_is_subset)
qed

lemma without_Cons:
  "without (c # gone) entries = without gone (remove_key (he_key c) entries)"
  by (auto simp: without_def remove_key_def intro: filter_cong)

lemma trim_loop_evicts:
  assumes "table_ok t"
  shows "trim_loop g changed t = (changed \<or> evicted g t \<noteq> [],
    \<lparr>ht_entries = without (evicted g t) (ht_entries t), ht_count = ht_count t - length (evicted g t)\<rparr>)"
  using assms
proof (induction "ht_count t - LSM_HISTORY_MAX_ENTRIES" arbitrary: t changed)
  case 0
  then show ?case by (subst trim_loop.simps) (simp add: evicted_def without_def)
next
  case (Suc n)
  show ?case
  proof (cases "candidates g (ht_entries t)")
    case Nil
    then have "history_remove_oldest g t = (False, t)"
      using oldest_is_first_candidate [of "ht_entries t" g] Suc(3)
      by (simp add: history_remove_oldest_def history_oldest_key_def table_ok_def)
    with Suc Nil show ?thesis by (subst trim_loop.simps) (simp add: evicted_def without_def)
  next
    case (Cons c cs)
    note round = remove_oldest_candidate [OF Suc(3) Cons]
    let ?t = "\<lparr>ht_entries = remove_key (he_key c) (ht_entries t), ht_count = ht_count t - 1\<rparr>"
    have big: "LSM_HISTORY_MAX_ENTRIES < ht_count t" using Suc(2) by arith
    have n: "n = ht_count ?t - LSM_HISTORY_MAX_ENTRIES" using Suc(2) by simp
    have "evicted g t = c # evicted g ?t"
      using round(2) Cons Suc(2) n by (simp add: evicted_def flip: Suc(2))
    moreover have "trim_loop g changed t = trim_loop g True ?t"
      using round(1) big by (subst trim_loop.simps) simp
    ultimately show ?thesis
      using Suc(1) [OF n round(3), of True] by (simp add: without_Cons)
  qed
qed

lemma trim_to_limit_evicts:
  assumes "table_ok t"
  shows "history_trim_to_limit allocated g t = (evicted g t \<noteq> [],
    \<lparr>ht_entries = without (evicted g t) (ht_entries t), ht_count = ht_count t - length (evicted g t)\<rparr>)"
proof (cases "ht_count t \<le> LSM_HISTORY_MAX_ENTRIES")
  case True
  then show ?thesis by (simp add: history_trim_to_limit_def evicted_def without_def)
next
  case False
  then show ?thesis
    by (simp add: history_trim_to_limit_def trim_batch_evicts [OF assms] trim_loop_evicts [OF assms])
qed

lemma without_length:
  assumes "table_ok t"
  shows "length (without (evicted g t) (ht_entries t)) = ht_count t - length (evicted g t)"
proof -
  note keys = evicted_keys [OF assms, of g]
  have "without (evicted g t) (ht_entries t) = filter (\<lambda>e. e \<notin> set (evicted g t)) (ht_entries t)"
    using keys(2) assms distinct_keys_eq [of "ht_entries t"]
    by (auto simp: without_def table_ok_def intro!: filter_cong)
  moreover have "distinct (ht_entries t)" using assms by (simp add: table_ok_def distinct_map)
  moreover have "set (filter (\<lambda>e. e \<notin> set (evicted g t)) (ht_entries t)) =
      set (ht_entries t) - set (evicted g t)" by auto
  ultimately have "length (without (evicted g t) (ht_entries t)) = card (set (ht_entries t) - set (evicted g t))"
    by (metis distinct_card distinct_filter)
  also have "\<dots> = ht_count t - length (evicted g t)"
    using keys assms \<open>distinct (ht_entries t)\<close>
    by (simp add: card_Diff_subset distinct_card table_ok_def distinct_map)
  finally show ?thesis .
qed

lemma trim_to_limit_ok:
  assumes "table_ok t" and "history_trim_to_limit allocated g t = (changed, t')"
  shows "table_ok t'"
  using assms(2) trim_to_limit_evicts [OF assms(1), of allocated g] without_length [OF assms(1), of g] assms(1)
  by (auto simp: table_ok_def without_def distinct_map inj_on_subset [of _ "set (ht_entries t)"] filter_is_subset)

lemma candidates_order:
  assumes "i < j" and "j < length (candidates g entries)" and "distinct (map he_key entries)"
  shows "recency_rank (candidates g entries ! i) < recency_rank (candidates g entries ! j)"
proof -
  let ?c = "candidates g entries"
  have "recency_rank (?c ! i) \<le> recency_rank (?c ! j)"
    using sorted_sort_key [of recency_rank "filter (\<lambda>e. \<not> history_protected g e) entries"] assms
    by (simp add: sorted_iff_nth_mono flip: candidates_def)
  moreover have "he_key (?c ! i) \<noteq> he_key (?c ! j)"
    using distinct_candidates [OF assms(3), of g] assms(1,2)
    by (auto simp: distinct_conv_nth)
  ultimately show ?thesis using recency_rank_key by (metis le_less)
qed

lemma evicted_older:
  assumes "table_ok t" and "gone \<in> set (evicted g t)" and "kept \<in> set (without (evicted g t) (ht_entries t))"
    and "\<not> history_protected g kept"
  shows "recency_rank gone < recency_rank kept"
proof -
  let ?c = "candidates g (ht_entries t)" and ?n = "ht_count t - LSM_HISTORY_MAX_ENTRIES"
  from assms(2) obtain i where i: "i < ?n" "i < length ?c" "gone = ?c ! i"
    by (auto simp: evicted_def in_set_conv_nth)
  from assms(3,4) have "kept \<in> set ?c" "kept \<notin> set (evicted g t)" by (auto simp: without_def set_candidates)
  then obtain j where j: "j < length ?c" "kept = ?c ! j" "\<not> j < ?n"
    unfolding evicted_def in_set_conv_nth by force
  then show ?thesis using i candidates_order [of i j g "ht_entries t"] assms(1) by (simp add: table_ok_def)
qed

text \<open>
  When an entry was last seen decides which of two is older, then when it was first seen, then the bytes
  of its key.
\<close>

definition entry_older :: "history_entry \<Rightarrow> history_entry \<Rightarrow> bool" where
  "entry_older a b \<longleftrightarrow>
     he_last_seen a < he_last_seen b \<or>
     he_last_seen a = he_last_seen b \<and>
       (he_first_seen a < he_first_seen b \<or>
        he_first_seen a = he_first_seen b \<and> byte_values (he_key a) < byte_values (he_key b))"

lemma recency_rank_older: "recency_rank a < recency_rank b \<longleftrightarrow> entry_older a b"
  by (auto simp: recency_rank_def entry_older_def less_prod_def')

lemma candidates_length:
  "length (candidates g entries) + length (filter (history_protected g) entries) = length entries"
  using sum_length_filter_compl [of "history_protected g" entries] by (simp add: candidates_def)

text \<open>
  C36. Trimming the history evicts exactly the entries that were unused for longest. The batch
  routine and the loop it falls back to without memory give the same table, whatever order the hash
  table iterates in: the entries last seen by the protected generation all stay, every evicted entry was
  last seen earlier than every other one that stays (among equals first seen earlier, then with the
  lower key bytes), the table keeps 4096 entries, or all when it has fewer, or the protected ones when
  these are more, and a change is reported exactly when something was evicted.
\<close>

theorem history_retention:
  assumes "table_ok t"
  shows "history_trim_to_limit True g t = history_trim_to_limit False g t \<and>
    (case history_trim_to_limit True g t of (changed, t') \<Rightarrow>
       table_ok t' \<and> set (ht_entries t') \<subseteq> set (ht_entries t) \<and>
       (\<forall>e\<in>set (ht_entries t) - set (ht_entries t').
          \<not> (g \<noteq> 0 \<and> he_live_generation e = g) \<and>
          (\<forall>kept\<in>set (ht_entries t'). \<not> (g \<noteq> 0 \<and> he_live_generation kept = g) \<longrightarrow> entry_older e kept)) \<and>
       ht_count t' = max (min (ht_count t) 4096)
         (length (filter (\<lambda>e. g \<noteq> 0 \<and> he_live_generation e = g) (ht_entries t))) \<and>
       (changed \<longleftrightarrow> ht_count t' < ht_count t))"
proof -
  define t' where "t' = \<lparr>ht_entries = without (evicted g t) (ht_entries t),
    ht_count = ht_count t - length (evicted g t)\<rparr>"
  have trim: "history_trim_to_limit allocated g t = (evicted g t \<noteq> [], t')" for allocated
    using trim_to_limit_evicts [OF assms] by (simp add: t'_def)
  note keys = evicted_keys [OF assms, of g]
  have protected: "history_protected g = (\<lambda>e. g \<noteq> 0 \<and> he_live_generation e = g)"
    by (simp add: fun_eq_iff history_protected_def)
  have gone: "e \<in> set (evicted g t)" if "e \<in> set (ht_entries t) - set (ht_entries t')" for e
    using that keys(2) assms distinct_keys_eq [of "ht_entries t" e] by (auto simp: t'_def without_def table_ok_def)
  have unprotected: "\<not> history_protected g e" if "e \<in> set (evicted g t)" for e
    using that in_set_takeD by (fastforce simp: evicted_def set_candidates)
  have older: "entry_older e kept"
    if "e \<in> set (evicted g t)" "kept \<in> set (ht_entries t')" "\<not> history_protected g kept" for e kept
    using evicted_older [OF assms that(1) _ that(3)] that(2) by (simp add: t'_def recency_rank_older)
  have count: "ht_count t' = max (min (ht_count t) 4096) (length (filter (history_protected g) (ht_entries t)))"
    using candidates_length [of g "ht_entries t"] assms
    by (simp add: t'_def evicted_def LSM_HISTORY_MAX_ENTRIES_def table_ok_def)
  have "set (ht_entries t') \<subseteq> set (ht_entries t)" by (auto simp: t'_def without_def)
  moreover have "evicted g t \<noteq> [] \<longleftrightarrow> ht_count t' < ht_count t"
    using keys(3) by (cases "evicted g t") (auto simp: t'_def)
  ultimately show ?thesis
    using trim_to_limit_ok [OF assms trim [of True]] gone unprotected older count
    unfolding trim prod.case protected by blast
qed

definition sample_entry :: "nat \<Rightarrow> history_entry" where
  "sample_entry i = \<lparr>he_key = replicate i CHR ''x'', he_name = ''x'', he_user = ''u'', he_identity = ''/x'',
     he_cpu_seconds = Fin 0, he_active_seconds = Fin 0, he_read_bytes = 0, he_write_bytes = 0,
     he_peak_rss_bytes = 0, he_current_rss_bytes = 0, he_live_generation = 0,
     he_first_seen = int i, he_last_seen = int i\<rparr>"

definition sample_history :: history_table where
  "sample_history = \<lparr>ht_entries = map sample_entry [0..<4097], ht_count = 4097\<rparr>"

lemma sample_history_ok: "table_ok sample_history"
proof -
  have "inj (\<lambda>i. replicate i CHR ''x'')" by (metis injI length_replicate)
  then show ?thesis by (simp add: table_ok_def sample_history_def distinct_map inj_on_def sample_entry_def comp_def)
qed

theorem history_retention_witness:
  "history_trim_to_limit True 0 sample_history = history_trim_to_limit False 0 sample_history \<and>
   (case history_trim_to_limit True 0 sample_history of (changed, t') \<Rightarrow>
      changed \<and> ht_count t' = 4096 \<and> (\<forall>e\<in>set (ht_entries sample_history) - set (ht_entries t').
        \<forall>kept\<in>set (ht_entries t'). entry_older e kept))"
proof -
  note ret = history_retention [OF sample_history_ok, of 0]
  obtain changed t' where trim: "history_trim_to_limit True 0 sample_history = (changed, t')"
    by (cases "history_trim_to_limit True 0 sample_history")
  have "ht_count sample_history = 4097" by (simp add: sample_history_def)
  then show ?thesis using ret unfolding trim by auto
qed

end
