(* ===== verification/App_History.thy ===== *)
theory App_History
  imports History_Retention Monitor_Types
begin

text \<open>
  \<^verbatim>\<open>src/history.c\<close>: the accounting of process snapshots in the App History. A snapshot adds, for every
  process instance that was seen before, the growth of its cumulative counters to the entry of its
  application; the entries of the snapshot are protected when the table is trimmed. Clock readings
  are parameters; \<open>created i\<close> is the time an entry made for the \<open>i\<close>-th process gets. Allocations
  succeed, except for the candidate array of the trimming routine.
\<close>

record process_details = process_info +
  pd_name :: string
  pd_user :: string
  pd_account_identity :: string
  pd_executable :: string
  pd_command :: string
  pd_cpu_time_nanoseconds :: u64

record history_sample =
  hsm_cpu_time_nanoseconds :: u64
  hsm_read_bytes :: u64
  hsm_write_bytes :: u64
  hsm_generation :: u32

type_synonym history_process_key = "process_id \<times> process_instance_id"

record app_history =
  ah_table :: history_table
  ah_samples :: "history_process_key \<rightharpoonup> history_sample"
  ah_generation :: u32
  ah_last_sample :: double
  ah_mutation_generation :: u32
  ah_dirty :: bool

definition history_mark_dirty :: "app_history \<Rightarrow> app_history" where
  "history_mark_dirty h =
     h\<lparr>ah_mutation_generation := (if ah_mutation_generation h < UINT_MAX
          then ah_mutation_generation h + 1 else ah_mutation_generation h),
       ah_dirty := True\<rparr>"

text \<open>The application a process belongs to: the key and the shown identity.\<close>

definition history_identity :: "common \<Rightarrow> process_details \<Rightarrow> string \<times> string" where
  "history_identity c p =
     (let executable =
            (if pd_executable p \<noteq> '''' then infiltratr_copy_string c LSM_PATH_LEN (pd_executable p)
             else if pd_command p \<noteq> '''' \<and> hd (pd_command p) \<noteq> CHR ''['' then
               take (LSM_PATH_LEN - 1) (takeWhile (\<lambda>x. x \<notin> {CHR '' '', TAB}) (pd_command p))
             else '''');
          executable = (if executable = '''' then infiltratr_copy_string c LSM_PATH_LEN (pd_name p)
            else executable)
      in (take (LSM_PATH_LEN + 63) (pd_account_identity p @ ''|'' @ executable),
          infiltratr_copy_string c LSM_PATH_LEN executable))"

abbreviation history_key :: "common \<Rightarrow> process_details \<Rightarrow> string" where
  "history_key c p \<equiv> fst (history_identity c p)"

definition lookup_entry :: "string \<Rightarrow> history_table \<Rightarrow> history_entry option" where
  "lookup_entry key t = find (\<lambda>e. he_key e = key) (ht_entries t)"

definition new_entry :: "int \<Rightarrow> process_details \<Rightarrow> string \<Rightarrow> string \<Rightarrow> history_entry" where
  "new_entry now p key identity =
     \<lparr>he_key = key, he_name = pd_name p, he_user = pd_user p, he_identity = identity,
      he_cpu_seconds = Fin 0, he_active_seconds = Fin 0, he_read_bytes = 0, he_write_bytes = 0,
      he_peak_rss_bytes = 0, he_current_rss_bytes = 0, he_live_generation = 0,
      he_first_seen = now, he_last_seen = now\<rparr>"

definition history_entry_get ::
  "int \<Rightarrow> process_details \<Rightarrow> string \<Rightarrow> string \<Rightarrow> history_table \<Rightarrow> history_table" where
  "history_entry_get now p key identity t =
     (case lookup_entry key t of
        Some e \<Rightarrow> t
      | None \<Rightarrow> \<lparr>ht_entries = ht_entries t @ [new_entry now p key identity], ht_count = ht_count t + 1\<rparr>)"

definition update_entry :: "string \<Rightarrow> (history_entry \<Rightarrow> history_entry) \<Rightarrow> history_table \<Rightarrow> history_table" where
  "update_entry key f t =
     t\<lparr>ht_entries := map (\<lambda>e. if he_key e = key then f e else e) (ht_entries t)\<rparr>"

text \<open>Live membership and resident memory of the current generation.\<close>

definition entry_live :: "common \<Rightarrow> u32 \<Rightarrow> double \<Rightarrow> process_details \<Rightarrow> history_entry \<Rightarrow> history_entry" where
  "entry_live c generation elapsed p e =
     (let e = (if he_live_generation e \<noteq> generation then
            e\<lparr>he_live_generation := generation, he_current_rss_bytes := 0,
              he_active_seconds := dadd (he_active_seconds e) elapsed\<rparr> else e);
          e = e\<lparr>he_current_rss_bytes :=
            infiltratr_u64_add_saturating c (he_current_rss_bytes e) (proc_rss_bytes p)\<rparr>
      in if he_peak_rss_bytes e < he_current_rss_bytes e
         then e\<lparr>he_peak_rss_bytes := he_current_rss_bytes e\<rparr> else e)"

definition growth :: "u64 \<Rightarrow> u64 \<Rightarrow> u64" where
  "growth current previous = (if previous \<le> current then current - previous else 0)"

text \<open>The growth of the counters of an instance: CPU time, bytes read, bytes written.\<close>

definition sample_deltas :: "history_sample option \<Rightarrow> process_details \<Rightarrow> u64 \<times> u64 \<times> u64" where
  "sample_deltas sample p =
     (case sample of
        None \<Rightarrow> (0, 0, 0)
      | Some s \<Rightarrow>
          (growth (pd_cpu_time_nanoseconds p) (hsm_cpu_time_nanoseconds s),
           growth (proc_read_bytes p) (hsm_read_bytes s),
           growth (proc_write_bytes p) (hsm_write_bytes s)))"

definition entry_account ::
  "common \<Rightarrow> int \<Rightarrow> process_details \<Rightarrow> u64 \<times> u64 \<times> u64 \<Rightarrow> history_entry \<Rightarrow> history_entry" where
  "entry_account c now_epoch p deltas e =
     (case deltas of (cpu_delta, read_delta, write_delta) \<Rightarrow>
        let e = e\<lparr>he_cpu_seconds := dadd (he_cpu_seconds e) (ddiv (double_of_word cpu_delta) (Fin 1000000000)),
              he_read_bytes := infiltratr_u64_add_saturating c (he_read_bytes e) read_delta,
              he_write_bytes := infiltratr_u64_add_saturating c (he_write_bytes e) write_delta\<rparr>
        in if cpu_delta \<noteq> 0 \<or> read_delta \<noteq> 0 \<or> write_delta \<noteq> 0 \<or>
              dless (fl (1 / 20)) (proc_cpu_percent p)
           then e\<lparr>he_last_seen := now_epoch\<rparr> else e)"

definition process_sample :: "u32 \<Rightarrow> process_details \<Rightarrow> history_sample" where
  "process_sample generation p =
     \<lparr>hsm_cpu_time_nanoseconds = pd_cpu_time_nanoseconds p, hsm_read_bytes = proc_read_bytes p,
      hsm_write_bytes = proc_write_bytes p, hsm_generation = generation\<rparr>"

definition instance_of :: "process_details \<Rightarrow> history_process_key" where
  "instance_of p = (proc_pid p, proc_instance_id p)"

text \<open>The body of the loop over the snapshot.\<close>

definition ingest_process ::
  "common \<Rightarrow> u32 \<Rightarrow> double \<Rightarrow> int \<Rightarrow> (nat \<Rightarrow> int) \<Rightarrow> nat \<times> process_details \<Rightarrow>
     history_table \<times> (history_process_key \<rightharpoonup> history_sample) \<Rightarrow>
     history_table \<times> (history_process_key \<rightharpoonup> history_sample)" where
  "ingest_process c generation elapsed now_epoch created ip acc =
     (case (ip, acc) of ((i, p), (t, samples)) \<Rightarrow>
        let (key, identity) = history_identity c p;
            t = history_entry_get (created i) p key identity t;
            t = update_entry key (entry_live c generation elapsed p) t;
            deltas = sample_deltas (samples (instance_of p)) p;
            samples = samples(instance_of p \<mapsto> process_sample generation p);
            t = update_entry key (entry_account c now_epoch p deltas) t
        in (t, samples))"

definition remove_stale_samples ::
  "u32 \<Rightarrow> (history_process_key \<rightharpoonup> history_sample) \<Rightarrow> history_process_key \<rightharpoonup> history_sample" where
  "remove_stale_samples current samples =
     (\<lambda>k. case samples k of None \<Rightarrow> None
        | Some s \<Rightarrow> if hsm_generation s + 2 < current then None else Some s)"

definition lsm_app_history_ingest ::
  "common \<Rightarrow> bool \<Rightarrow> double \<Rightarrow> int \<Rightarrow> (nat \<Rightarrow> int) \<Rightarrow> process_details list \<Rightarrow> app_history \<Rightarrow> app_history" where
  "lsm_app_history_ingest c allocated now_mono now_epoch created processes h =
     (let generation = ah_generation h + 1;
          elapsed = (if dless (Fin 0) (ah_last_sample h) then dsub now_mono (ah_last_sample h) else Fin 0);
          elapsed = (if dless elapsed (Fin 0) \<or> dless (Fin 60) elapsed then Fin 0 else elapsed);
          (t, samples) = fold (ingest_process c generation elapsed now_epoch created)
            (enumerate 0 processes) (ah_table h, ah_samples h);
          samples = remove_stale_samples generation samples;
          t = snd (history_trim_to_limit allocated generation t);
          h = h\<lparr>ah_generation := generation, ah_last_sample := now_mono, ah_table := t, ah_samples := samples\<rparr>
      in if processes \<noteq> [] then history_mark_dirty h else h)"

subsection \<open>One process\<close>

text \<open>The totals of an application, zero when it has no entry.\<close>

definition total_of :: "(history_entry \<Rightarrow> nat) \<Rightarrow> string \<Rightarrow> history_table \<Rightarrow> nat" where
  "total_of f key t = (case lookup_entry key t of None \<Rightarrow> 0 | Some e \<Rightarrow> f e)"

definition live_rss :: "u32 \<Rightarrow> history_entry \<Rightarrow> nat" where
  "live_rss generation e = (if he_live_generation e = generation then unat (he_current_rss_bytes e) else 0)"

abbreviation U64_LIMIT :: nat where "U64_LIMIT \<equiv> 2 ^ 64 - 1"

lemma lookup_update_entry:
  assumes "\<And>e. he_key (f e) = he_key e"
  shows "lookup_entry k (update_entry key f t) =
    (if k = key then map_option f (lookup_entry k t) else lookup_entry k t)"
proof -
  have "find (\<lambda>e. he_key e = k) (map (\<lambda>e. if he_key e = key then f e else e) es) =
      (if k = key then map_option f (find (\<lambda>e. he_key e = k) es) else find (\<lambda>e. he_key e = k) es)" for es
    using assms by (induction es) auto
  then show ?thesis by (simp add: lookup_entry_def update_entry_def)
qed

lemma lookup_entry_get:
  "lookup_entry k (history_entry_get now p key identity t) =
     (case lookup_entry k t of Some e \<Rightarrow> Some e
      | None \<Rightarrow> if k = key then Some (new_entry now p key identity) else None)"
proof -
  have "find P (xs @ [x]) = (case find P xs of Some e \<Rightarrow> Some e | None \<Rightarrow> if P x then Some x else None)"
    for P and xs :: "history_entry list" and x
    by (induction xs) auto
  then show ?thesis
    by (auto simp: history_entry_get_def lookup_entry_def new_entry_def split: option.splits)
qed

lemma entry_updates_keep_key [simp]:
  "he_key (entry_live c g elapsed p e) = he_key e" "he_key (entry_account c now p d e) = he_key e"
  by (auto simp: entry_live_def entry_account_def Let_def split: prod.splits)

lemma ingest_process_lookup:
  assumes "ingest_process c g elapsed now created (i, p) (t, samples) = (t', samples')"
  shows "lookup_entry k t' =
    (if k = history_key c p then
       Some (entry_account c now p (sample_deltas (samples (instance_of p)) p)
         (entry_live c g elapsed p
           (case lookup_entry k t of Some e \<Rightarrow> e
            | None \<Rightarrow> new_entry (created i) p k (snd (history_identity c p)))))
     else lookup_entry k t)"
    and "samples' = samples(instance_of p \<mapsto> process_sample g p)"
  using assms
  by (auto simp: ingest_process_def Let_def lookup_update_entry lookup_entry_get split: prod.splits option.splits)

lemma history_entry_get_ok: "table_ok t \<Longrightarrow> table_ok (history_entry_get now p key identity t)"
proof -
  assume ok: "table_ok t"
  show ?thesis
  proof (cases "lookup_entry key t")
    case None
    then have "key \<notin> he_key ` set (ht_entries t)" by (auto simp: lookup_entry_def find_None_iff)
    with ok None show ?thesis by (auto simp: history_entry_get_def table_ok_def new_entry_def)
  qed (simp add: history_entry_get_def ok)
qed

lemma update_entry_ok:
  assumes "table_ok t" and "\<And>e. he_key (f e) = he_key e"
  shows "table_ok (update_entry key f t)"
proof -
  have "he_key \<circ> (\<lambda>e. if he_key e = key then f e else e) = he_key"
    using assms(2) by auto
  then show ?thesis using assms(1) by (simp add: table_ok_def update_entry_def)
qed

lemma ingest_process_ok:
  "table_ok t \<Longrightarrow> table_ok (fst (ingest_process c g elapsed now created (i, p) (t, samples)))"
  by (simp add: ingest_process_def Let_def split_beta history_entry_get_ok update_entry_ok)

text \<open>What one process adds to the totals of its application.\<close>

lemma entry_updates_totals:
  assumes "common_arith_ok c"
  shows "unat (he_read_bytes (entry_account c now p (dc, dr, dw) (entry_live c g elapsed p e))) =
      min (unat (he_read_bytes e) + unat dr) U64_LIMIT"
    and "unat (he_write_bytes (entry_account c now p (dc, dr, dw) (entry_live c g elapsed p e))) =
      min (unat (he_write_bytes e) + unat dw) U64_LIMIT"
    and "live_rss g (entry_account c now p (dc, dr, dw) (entry_live c g elapsed p e)) =
      min (live_rss g e + unat (proc_rss_bytes p)) U64_LIMIT"
    and "unat (he_peak_rss_bytes (entry_account c now p (dc, dr, dw) (entry_live c g elapsed p e))) =
      max (unat (he_peak_rss_bytes e)) (min (live_rss g e + unat (proc_rss_bytes p)) U64_LIMIT)"
    and "he_live_generation (entry_account c now p (dc, dr, dw) (entry_live c g elapsed p e)) = g"
  using assms
  by (auto simp: entry_account_def entry_live_def Let_def common_arith_ok_def unat_saturating_add live_rss_def
      word_less_nat_alt max_def)

subsection \<open>A whole snapshot\<close>

text \<open>
  By how much a counter of a process grew since the instance was sampled: nothing for an instance seen
  for the first time or a counter that fell.
\<close>

definition grown_since ::
  "(process_details \<Rightarrow> u64) \<Rightarrow> (history_sample \<Rightarrow> u64) \<Rightarrow> (history_process_key \<rightharpoonup> history_sample) \<Rightarrow>
     process_details \<Rightarrow> nat" where
  "grown_since now before samples p =
     (case samples (proc_pid p, proc_instance_id p) of None \<Rightarrow> 0 | Some s \<Rightarrow> unat (now p) - unat (before s))"

abbreviation read_growth :: "(history_process_key \<rightharpoonup> history_sample) \<Rightarrow> process_details \<Rightarrow> nat" where
  "read_growth \<equiv> grown_since proc_read_bytes hsm_read_bytes"

abbreviation write_growth :: "(history_process_key \<rightharpoonup> history_sample) \<Rightarrow> process_details \<Rightarrow> nat" where
  "write_growth \<equiv> grown_since proc_write_bytes hsm_write_bytes"

abbreviation cpu_growth :: "(history_process_key \<rightharpoonup> history_sample) \<Rightarrow> process_details \<Rightarrow> nat" where
  "cpu_growth \<equiv> grown_since pd_cpu_time_nanoseconds hsm_cpu_time_nanoseconds"

lemma unat_growth: "unat (growth current previous) = unat current - unat previous"
  by (cases "previous \<le> current") (simp_all add: growth_def unat_sub not_le word_le_nat_alt)

lemma sample_deltas_since:
  assumes "sample_deltas (samples (instance_of p)) p = (dc, dr, dw)"
  shows "unat dc = cpu_growth samples p" "unat dr = read_growth samples p" "unat dw = write_growth samples p"
  using assms by (auto simp: sample_deltas_def grown_since_def instance_of_def unat_growth split: option.splits)

definition members :: "common \<Rightarrow> string \<Rightarrow> process_details list \<Rightarrow> process_details list" where
  "members c key ps = filter (\<lambda>p. history_key c p = key) ps"

abbreviation (input) add_capped :: "nat \<Rightarrow> nat \<Rightarrow> nat" where
  "add_capped a b \<equiv> min (a + b) U64_LIMIT"

lemma growth_other:
  "instance_of q \<noteq> i \<Longrightarrow> grown_since now before (samples(i \<mapsto> s)) q = grown_since now before samples q"
  by (simp add: grown_since_def instance_of_def)

text \<open>The processor time of an application, and what a process adds to it.\<close>

definition cpu_seconds_of :: "string \<Rightarrow> history_table \<Rightarrow> double" where
  "cpu_seconds_of key t = (case lookup_entry key t of None \<Rightarrow> Fin 0 | Some e \<Rightarrow> he_cpu_seconds e)"

definition add_nanoseconds :: "double \<Rightarrow> nat \<Rightarrow> double" where
  "add_nanoseconds seconds n = dadd seconds (ddiv (double_of_nat n) (Fin 1000000000))"

lemma total_of_step:
  assumes "ingest_process c g elapsed now created (i, p) (t, samples) = (t', samples')" and "common_arith_ok c"
  shows "total_of (\<lambda>e. unat (he_read_bytes e)) k t' = (if k = history_key c p
      then add_capped (total_of (\<lambda>e. unat (he_read_bytes e)) k t) (read_growth samples p)
      else total_of (\<lambda>e. unat (he_read_bytes e)) k t)"
    and "total_of (\<lambda>e. unat (he_write_bytes e)) k t' = (if k = history_key c p
      then add_capped (total_of (\<lambda>e. unat (he_write_bytes e)) k t) (write_growth samples p)
      else total_of (\<lambda>e. unat (he_write_bytes e)) k t)"
    and "total_of (live_rss g) k t' = (if k = history_key c p
      then add_capped (total_of (live_rss g) k t) (unat (proc_rss_bytes p)) else total_of (live_rss g) k t)"
    and "total_of (\<lambda>e. unat (he_peak_rss_bytes e)) k t' = (if k = history_key c p
      then max (total_of (\<lambda>e. unat (he_peak_rss_bytes e)) k t)
        (add_capped (total_of (live_rss g) k t) (unat (proc_rss_bytes p)))
      else total_of (\<lambda>e. unat (he_peak_rss_bytes e)) k t)"
proof -
  obtain dc dr dw where d: "sample_deltas (samples (instance_of p)) p = (dc, dr, dw)"
    by (metis prod_cases3)
  note upd = entry_updates_totals [OF assms(2)] and since = sample_deltas_since [where samples = samples, OF d]
  note look = ingest_process_lookup(1) [OF assms(1), of k, unfolded d]
  have fresh: "live_rss g (new_entry n p k' j) = 0" for n k' j
    by (simp add: live_rss_def new_entry_def)
  show "total_of (\<lambda>e. unat (he_read_bytes e)) k t' = (if k = history_key c p
      then add_capped (total_of (\<lambda>e. unat (he_read_bytes e)) k t) (read_growth samples p)
      else total_of (\<lambda>e. unat (he_read_bytes e)) k t)"
    by (simp add: total_of_def look upd since d new_entry_def split: option.splits)
  show "total_of (\<lambda>e. unat (he_write_bytes e)) k t' = (if k = history_key c p
      then add_capped (total_of (\<lambda>e. unat (he_write_bytes e)) k t) (write_growth samples p)
      else total_of (\<lambda>e. unat (he_write_bytes e)) k t)"
    by (simp add: total_of_def look upd since d new_entry_def split: option.splits)
  show "total_of (live_rss g) k t' = (if k = history_key c p
      then add_capped (total_of (live_rss g) k t) (unat (proc_rss_bytes p)) else total_of (live_rss g) k t)"
    by (simp add: total_of_def look upd fresh split: option.splits)
  show "total_of (\<lambda>e. unat (he_peak_rss_bytes e)) k t' = (if k = history_key c p
      then max (total_of (\<lambda>e. unat (he_peak_rss_bytes e)) k t)
        (add_capped (total_of (live_rss g) k t) (unat (proc_rss_bytes p)))
      else total_of (\<lambda>e. unat (he_peak_rss_bytes e)) k t)"
    by (simp add: total_of_def look upd fresh split: option.splits) (simp add: new_entry_def)
qed

lemma cpu_seconds_step:
  assumes "ingest_process c g elapsed now created (i, p) (t, samples) = (t', samples')"
  shows "cpu_seconds_of k t' = (if k = history_key c p
    then add_nanoseconds (cpu_seconds_of k t) (cpu_growth samples p) else cpu_seconds_of k t)"
proof -
  obtain dc dr dw where d: "sample_deltas (samples (instance_of p)) p = (dc, dr, dw)"
    by (metis prod_cases3)
  have "he_cpu_seconds (entry_account c now p (dc, dr, dw) (entry_live c g elapsed p e)) =
      add_nanoseconds (he_cpu_seconds e) (cpu_growth samples p)" for e
    by (simp add: entry_account_def entry_live_def add_nanoseconds_def Let_def sample_deltas_since(1) [where samples = samples, OF d, symmetric])
  then show ?thesis
    by (simp add: cpu_seconds_of_def ingest_process_lookup(1) [OF assms, of k] d new_entry_def split: option.splits)
qed

lemma total_of_bound: "(\<And>e. f e \<le> U64_LIMIT) \<Longrightarrow> total_of f k t \<le> U64_LIMIT"
  by (simp add: total_of_def split: option.splits)

lemma live_rss_bound: "live_rss g e \<le> U64_LIMIT"
  using unsigned_less [of "he_current_rss_bytes e", where ?'a = nat] by (simp add: live_rss_def)

lemma u64_bound: "unat (w :: u64) \<le> U64_LIMIT"
  using unsigned_less [of w, where ?'a = nat] by simp

lemma capped_assoc: "add_capped (add_capped a b) d = add_capped a (b + d)"
  by (simp add: min_def)

text \<open>Induction over the snapshot: a value each process of the application changes by an amount that the
  processes before it do not influence.\<close>

lemma ingest_fold_held:
  fixes grown :: "(history_process_key \<rightharpoonup> history_sample) \<Rightarrow> process_details \<Rightarrow> nat" and held :: "history_table \<Rightarrow> 'v"
  assumes step: "\<And>i p t samples t' samples'. ingest_process c g elapsed now created (i, p) (t, samples) = (t', samples') \<Longrightarrow>
      held t' = (if k = history_key c p then combine (held t) (grown samples p) else held t)"
    and other: "\<And>i q samples s. instance_of q \<noteq> i \<Longrightarrow> grown (samples(i \<mapsto> s)) q = grown samples q"
    and "distinct (map (instance_of \<circ> snd) xs)"
    and "fold (ingest_process c g elapsed now created) xs (t, samples) = (t', samples')"
  shows "held t' = foldl combine (held t) (map (grown samples) (members c k (map snd xs)))"
  using assms(3,4)
proof (induction xs arbitrary: t samples)
  case Nil
  then show ?case by (simp add: members_def)
next
  case (Cons ip xs)
  obtain i p where ip: "ip = (i, p)" by fastforce
  obtain t1 s1 where one: "ingest_process c g elapsed now created (i, p) (t, samples) = (t1, s1)" by fastforce
  have s1: "s1 = samples(instance_of p \<mapsto> process_sample g p)" by (rule ingest_process_lookup(2) [OF one])
  have rest: "fold (ingest_process c g elapsed now created) xs (t1, s1) = (t', samples')"
    using Cons.prems(2) by (simp add: ip one)
  have fresh: "instance_of p \<notin> instance_of ` set (map snd xs)"
    using Cons.prems(1) by (auto simp: ip image_comp)
  have "grown s1 q = grown samples q" if "q \<in> set (members c k (map snd xs))" for q
  proof -
    have "instance_of q \<in> instance_of ` set (map snd xs)" using that by (simp add: members_def)
    then have "instance_of q \<noteq> instance_of p" using fresh by metis
    then show ?thesis by (simp add: s1 other)
  qed
  then have same: "map (grown s1) (members c k (map snd xs)) = map (grown samples) (members c k (map snd xs))"
    by simp
  have "held t' = foldl combine (held t1) (map (grown samples) (members c k (map snd xs)))"
    using Cons.IH [OF _ rest] Cons.prems(1) same by simp
  then show ?case using step [OF one] by (simp add: members_def ip)
qed

lemma ingest_fold_total:
  assumes "\<And>i p t samples t' samples'. ingest_process c g elapsed now created (i, p) (t, samples) = (t', samples') \<Longrightarrow>
      total_of f k t' = (if k = history_key c p then add_capped (total_of f k t) (grown samples p) else total_of f k t)"
    and "\<And>i q samples s. instance_of q \<noteq> i \<Longrightarrow> grown (samples(i \<mapsto> s)) q = grown samples q"
    and bound: "\<And>e. f e \<le> U64_LIMIT"
    and "distinct (map (instance_of \<circ> snd) xs)"
    and "fold (ingest_process c g elapsed now created) xs (t, samples) = (t', samples')"
  shows "total_of f k t' = add_capped (total_of f k t) (\<Sum>p \<leftarrow> members c k (map snd xs). grown samples p)"
proof -
  have capped: "foldl (\<lambda>a b. add_capped a b) a bs = add_capped a (sum_list bs)" if "a \<le> U64_LIMIT" for a bs
    using that by (induction bs arbitrary: a) (simp_all add: capped_assoc)
  show ?thesis
    using ingest_fold_held [where combine = "\<lambda>a b. add_capped a b" and grown = grown and k = k and held = "total_of f k",
        OF assms(1,2,4,5)] capped [OF total_of_bound [of f k t, OF bound]] by simp
qed

text \<open>Afterwards every process of the snapshot is sampled, and the other samples are as before.\<close>

lemma ingest_fold_samples:
  assumes "distinct (map (instance_of \<circ> snd) xs)"
    and "fold (ingest_process c g elapsed now created) xs (t, samples) = (t', samples')"
  shows "(\<forall>q\<in>set (map snd xs). samples' (instance_of q) = Some (process_sample g q)) \<and>
    (\<forall>i. i \<notin> instance_of ` set (map snd xs) \<longrightarrow> samples' i = samples i)"
  using assms
proof (induction xs arbitrary: t samples)
  case (Cons ip xs)
  obtain i p where ip: "ip = (i, p)" by fastforce
  obtain t1 s1 where one: "ingest_process c g elapsed now created (i, p) (t, samples) = (t1, s1)" by fastforce
  have s1: "s1 = samples(instance_of p \<mapsto> process_sample g p)" by (rule ingest_process_lookup(2) [OF one])
  have rest: "fold (ingest_process c g elapsed now created) xs (t1, s1) = (t', samples')"
    using Cons.prems(2) by (simp add: ip one)
  have "instance_of p \<notin> instance_of ` set (map snd xs)"
    using Cons.prems(1) by (auto simp: ip image_comp)
  moreover have "(\<forall>q\<in>set (map snd xs). samples' (instance_of q) = Some (process_sample g q)) \<and>
      (\<forall>i. i \<notin> instance_of ` set (map snd xs) \<longrightarrow> samples' i = s1 i)"
    using Cons.IH [OF _ rest] Cons.prems(1) by simp
  ultimately show ?case unfolding s1 ip
    by (simp del: split_paired_All)
qed simp

lemma ingest_fold_ok:
  "table_ok t \<Longrightarrow> table_ok (fst (fold (ingest_process c g elapsed now created) xs (t, samples)))"
proof (induction xs arbitrary: t samples)
  case (Cons ip xs)
  obtain t1 s1 where one: "ingest_process c g elapsed now created ip (t, samples) = (t1, s1)" by fastforce
  have "table_ok t1"
    using ingest_process_ok [OF Cons.prems, of c g elapsed now created "fst ip" "snd ip" samples]
    by (simp add: one)
  with Cons.IH show ?case by (simp add: one)
qed simp

lemma ingest_fold_untouched:
  assumes "fold (ingest_process c g elapsed now created) xs (t, samples) = (t', samples')"
    and "members c k (map snd xs) = []"
  shows "lookup_entry k t' = lookup_entry k t"
  using assms
proof (induction xs arbitrary: t samples)
  case (Cons ip xs)
  obtain i p where ip: "ip = (i, p)" by fastforce
  obtain t1 s1 where one: "ingest_process c g elapsed now created (i, p) (t, samples) = (t1, s1)" by fastforce
  have "k \<noteq> history_key c p" "members c k (map snd xs) = []"
    using Cons.prems(2) by (auto simp: members_def ip split: if_splits)
  with Cons.IH [of t1 s1] Cons.prems(1) ingest_process_lookup(1) [OF one, of k] show ?case
    by (simp add: ip one)
qed simp

lemma max_absorb_step: "a \<le> b \<Longrightarrow> b \<le> max a l \<Longrightarrow> l \<le> m \<Longrightarrow> max b m = max a (m :: nat)"
  by auto

text \<open>The peak covers the resident memory of the snapshot, and the entry is marked as live.\<close>

lemma ingest_fold_peak:
  assumes "common_arith_ok c" and "fold (ingest_process c g elapsed now created) xs (t, samples) = (t', samples')"
    and "members c k (map snd xs) \<noteq> []"
  shows "total_of (\<lambda>e. unat (he_peak_rss_bytes e)) k t' =
      max (total_of (\<lambda>e. unat (he_peak_rss_bytes e)) k t) (total_of (live_rss g) k t') \<and>
    (\<exists>e. lookup_entry k t' = Some e \<and> he_live_generation e = g)"
  using assms(2,3)
proof (induction xs arbitrary: t' samples' rule: rev_induct)
  case Nil
  then show ?case by (simp add: members_def)
next
  case (snoc ip xs)
  obtain i p where ip: "ip = (i, p)" by fastforce
  obtain t1 s1 where before: "fold (ingest_process c g elapsed now created) xs (t, samples) = (t1, s1)" by fastforce
  have one: "ingest_process c g elapsed now created (i, p) (t1, s1) = (t', samples')"
    using snoc.prems(1) before by (simp add: ip)
  note step = total_of_step(3,4) [OF one assms(1), of k]
  show ?case
  proof (cases "k = history_key c p")
    case True
    have "total_of (live_rss g) k t1 \<le> total_of (live_rss g) k t'"
      using step(1) True total_of_bound [of "live_rss g" k t1] live_rss_bound by simp
    moreover have "total_of (\<lambda>e. unat (he_peak_rss_bytes e)) k t1 \<le>
        max (total_of (\<lambda>e. unat (he_peak_rss_bytes e)) k t) (total_of (live_rss g) k t1)"
      "total_of (\<lambda>e. unat (he_peak_rss_bytes e)) k t \<le> total_of (\<lambda>e. unat (he_peak_rss_bytes e)) k t1"
      using snoc.IH [OF before] ingest_fold_untouched [OF before, of k]
      by (cases "members c k (map snd xs) = []"; simp add: total_of_def)+
    moreover have "\<exists>e. lookup_entry k t' = Some e \<and> he_live_generation e = g"
      using ingest_process_lookup(1) [OF one, of k] entry_updates_totals(5) [OF assms(1)] True
      by (simp add: split_paired_all) (metis prod_cases3)
    moreover have "total_of (\<lambda>e. unat (he_peak_rss_bytes e)) k t' =
        max (total_of (\<lambda>e. unat (he_peak_rss_bytes e)) k t1) (total_of (live_rss g) k t')"
      using step True by simp
    ultimately show ?thesis using max_absorb_step by metis
  next
    case False
    then have "members c k (map snd xs) \<noteq> []" using snoc.prems(2) by (auto simp: members_def ip)
    with snoc.IH [OF before] step False ingest_process_lookup(1) [OF one, of k] show ?thesis by simp
  qed
qed

text \<open>An entry of the current generation survives the trimming.\<close>

lemma trim_keeps_live:
  assumes "table_ok t" and "lookup_entry k t = Some e" and "he_live_generation e = g" and "g \<noteq> 0"
  shows "lookup_entry k (snd (history_trim_to_limit allocated g t)) = Some e"
proof -
  have e: "e \<in> set (ht_entries t)" "he_key e = k"
    using assms(2) by (auto simp: lookup_entry_def find_Some_iff)
  have "k \<notin> he_key ` set (evicted g t)"
  proof
    assume "k \<in> he_key ` set (evicted g t)"
    then obtain e' where e': "e' \<in> set (evicted g t)" "he_key e' = k" by auto
    then have "e' = e"
      using evicted_keys(2) [OF assms(1), of g] e assms(1) distinct_keys_eq [of "ht_entries t" e' e]
      by (auto simp: table_ok_def)
    then have "e \<in> set (candidates g (ht_entries t))"
      using e'(1) unfolding evicted_def by (blast dest: in_set_takeD)
    then have "\<not> history_protected g e" by (simp add: set_candidates)
    with assms(3,4) show False by (simp add: history_protected_def)
  qed
  then have "find (\<lambda>x. he_key x = k) (without (evicted g t) es) = find (\<lambda>x. he_key x = k) es" for es
    by (induction es) (auto simp: without_def)
  then show ?thesis
    using trim_to_limit_evicts [OF assms(1), of allocated g] assms(2) by (simp add: lookup_entry_def)
qed

lemma stale_samples:
  assumes "unat current + 2 < 2 ^ 32" "\<And>s. samples i = Some s \<Longrightarrow> hsm_generation s \<le> current"
  shows "remove_stale_samples current samples i =
    (case samples i of None \<Rightarrow> None | Some s \<Rightarrow> if unat current \<le> unat (hsm_generation s) + 2 then Some s else None)"
proof (cases "samples i")
  case (Some s)
  have "unat (hsm_generation s) \<le> unat current" using assms(2) [OF Some] by (simp add: word_le_nat_alt)
  then have "unat (hsm_generation s + 2) = unat (hsm_generation s) + 2"
    using assms(1) by (simp add: unat_word_ariths)
  then show ?thesis using Some by (simp add: remove_stale_samples_def word_less_nat_alt not_less)
qed (simp add: remove_stale_samples_def)

text \<open>One application of the snapshot.\<close>

lemma ingest_application:
  fixes allocated :: bool and now_mono :: double and now_epoch :: int and created :: "nat \<Rightarrow> int"
  assumes "common_arith_ok c" and "table_ok (ah_table h)" and "ah_generation h + 1 \<noteq> 0"
    and "\<forall>e \<in> set (ht_entries (ah_table h)). he_live_generation e \<noteq> ah_generation h + 1"
    and "distinct (map instance_of ps)" and "p \<in> set ps"
  defines "k \<equiv> history_key c p"
  defines "h' \<equiv> lsm_app_history_ingest c allocated now_mono now_epoch created ps h"
  shows "\<exists>e. lookup_entry k (ah_table h') = Some e \<and>
    unat (he_read_bytes e) = min (total_of (\<lambda>e. unat (he_read_bytes e)) k (ah_table h) +
      (\<Sum>q \<leftarrow> members c k ps. read_growth (ah_samples h) q)) (2 ^ 64 - 1) \<and>
    unat (he_write_bytes e) = min (total_of (\<lambda>e. unat (he_write_bytes e)) k (ah_table h) +
      (\<Sum>q \<leftarrow> members c k ps. write_growth (ah_samples h) q)) (2 ^ 64 - 1) \<and>
    he_cpu_seconds e = foldl add_nanoseconds (cpu_seconds_of k (ah_table h)) (map (cpu_growth (ah_samples h)) (members c k ps)) \<and>
    unat (he_current_rss_bytes e) = min (\<Sum>q \<leftarrow> members c k ps. unat (proc_rss_bytes q)) (2 ^ 64 - 1) \<and>
    unat (he_peak_rss_bytes e) = max (total_of (\<lambda>e. unat (he_peak_rss_bytes e)) k (ah_table h))
      (unat (he_current_rss_bytes e))"
proof -
  let ?g = "ah_generation h + 1"
  define elapsed where "elapsed =
    (let d = (if dless (Fin 0) (ah_last_sample h) then dsub now_mono (ah_last_sample h) else Fin 0)
     in if dless d (Fin 0) \<or> dless (Fin 60) d then Fin 0 else d)"
  obtain t samples where run: "fold (ingest_process c ?g elapsed now_epoch created)
      (enumerate 0 ps) (ah_table h, ah_samples h) = (t, samples)" by fastforce
  have snd: "map snd (enumerate 0 ps) = ps" "map (instance_of \<circ> snd) (enumerate 0 ps) = map instance_of ps"
    by (simp_all flip: map_map)
  have dist: "distinct (map (instance_of \<circ> snd) (enumerate 0 ps))" using assms(5) snd(2) by simp
  note step = total_of_step [OF _ assms(1)]
  have ok: "table_ok t" using ingest_fold_ok [OF assms(2)] run by (metis fst_conv)
  have "members c k (map snd (enumerate 0 ps)) \<noteq> []"
    using assms(6) unfolding snd(1) by (auto simp: members_def k_def filter_empty_conv)
  from ingest_fold_peak [OF assms(1) run this] obtain e where
    e: "lookup_entry k t = Some e" "he_live_generation e = ?g" and
    peak: "total_of (\<lambda>e. unat (he_peak_rss_bytes e)) k t =
      max (total_of (\<lambda>e. unat (he_peak_rss_bytes e)) k (ah_table h)) (total_of (live_rss ?g) k t)" by blast
  have before: "total_of (live_rss ?g) k (ah_table h) = 0"
    using assms(4) by (auto simp: total_of_def live_rss_def lookup_entry_def find_Some_iff split: option.splits)
  have "lookup_entry k (ah_table h') = Some e"
    using trim_keeps_live [OF ok e assms(3), of allocated] run
    by (simp add: h'_def lsm_app_history_ingest_def Let_def elapsed_def history_mark_dirty_def)
  moreover have "total_of (\<lambda>e. unat (he_read_bytes e)) k t =
      add_capped (total_of (\<lambda>e. unat (he_read_bytes e)) k (ah_table h))
        (\<Sum>q \<leftarrow> members c k (map snd (enumerate 0 ps)). read_growth (ah_samples h) q)"
    by (rule ingest_fold_total [OF _ _ _ dist run]) (erule step(1), erule growth_other, rule u64_bound)
  moreover have "total_of (\<lambda>e. unat (he_write_bytes e)) k t =
      add_capped (total_of (\<lambda>e. unat (he_write_bytes e)) k (ah_table h))
        (\<Sum>q \<leftarrow> members c k (map snd (enumerate 0 ps)). write_growth (ah_samples h) q)"
    by (rule ingest_fold_total [OF _ _ _ dist run]) (erule step(2), erule growth_other, rule u64_bound)
  moreover have "total_of (live_rss ?g) k t = add_capped (total_of (live_rss ?g) k (ah_table h))
        (\<Sum>q \<leftarrow> members c k (map snd (enumerate 0 ps)). unat (proc_rss_bytes q))"
    by (rule ingest_fold_total [OF _ _ _ dist run]) (erule step(3), rule refl, rule live_rss_bound)
  moreover have "cpu_seconds_of k t = foldl add_nanoseconds (cpu_seconds_of k (ah_table h))
      (map (cpu_growth (ah_samples h)) (members c k (map snd (enumerate 0 ps))))"
    by (rule ingest_fold_held [OF _ _ dist run]) (erule cpu_seconds_step, erule growth_other)
  ultimately show ?thesis
    using e peak before unfolding snd(1) by (simp add: total_of_def [of _ k t] cpu_seconds_of_def [of k t] live_rss_def)
qed

text \<open>
  C37. A snapshot is accounted exactly, when its process instances are distinct, no entry or sample of
  the table is newer than the last snapshot and the 32-bit snapshot counter is not about to wrap. For
  every application with a process in it, the entry after the snapshot holds the bytes read and written
  before plus the growth of the counters of those process instances that were sampled before, each
  counted once and never for a first sight or a reused PID, capped at the 64-bit limit, and the
  processor seconds before with the growth of each instance's processor time added; the resident memory
  is the sum over its processes and the peak covers it; and the entry is in the table even when older
  ones had to leave. Every process of the snapshot is sampled, and every other instance keeps its sample
  while at most two snapshots passed since it was seen and is forgotten after that.
\<close>

theorem history_ingest_accounts:
  fixes allocated :: bool and now_mono :: double and now_epoch :: int and created :: "nat \<Rightarrow> int"
  assumes "common_arith_ok c" and "table_ok (ah_table h)" and "unat (ah_generation h) + 3 < 2 ^ 32"
    and "\<forall>e\<in>set (ht_entries (ah_table h)). he_live_generation e \<le> ah_generation h"
    and "\<forall>s\<in>ran (ah_samples h). hsm_generation s \<le> ah_generation h"
    and "distinct (map (\<lambda>p. (proc_pid p, proc_instance_id p)) ps)"
  defines "h' \<equiv> lsm_app_history_ingest c allocated now_mono now_epoch created ps h"
  shows "(\<forall>p\<in>set ps. let k = history_key c p in \<exists>e. lookup_entry k (ah_table h') = Some e \<and>
      unat (he_read_bytes e) = min (total_of (\<lambda>e. unat (he_read_bytes e)) k (ah_table h) +
        (\<Sum>q \<leftarrow> members c k ps. read_growth (ah_samples h) q)) (2 ^ 64 - 1) \<and>
      unat (he_write_bytes e) = min (total_of (\<lambda>e. unat (he_write_bytes e)) k (ah_table h) +
        (\<Sum>q \<leftarrow> members c k ps. write_growth (ah_samples h) q)) (2 ^ 64 - 1) \<and>
      he_cpu_seconds e = foldl add_nanoseconds (cpu_seconds_of k (ah_table h))
        (map (cpu_growth (ah_samples h)) (members c k ps)) \<and>
      unat (he_current_rss_bytes e) = min (\<Sum>q \<leftarrow> members c k ps. unat (proc_rss_bytes q)) (2 ^ 64 - 1) \<and>
      unat (he_peak_rss_bytes e) = max (total_of (\<lambda>e. unat (he_peak_rss_bytes e)) k (ah_table h))
        (unat (he_current_rss_bytes e))) \<and>
    (\<forall>p\<in>set ps. ah_samples h' (proc_pid p, proc_instance_id p) = Some
      \<lparr>hsm_cpu_time_nanoseconds = pd_cpu_time_nanoseconds p, hsm_read_bytes = proc_read_bytes p,
       hsm_write_bytes = proc_write_bytes p, hsm_generation = ah_generation h + 1\<rparr>) \<and>
    (\<forall>i. i \<notin> (\<lambda>p. (proc_pid p, proc_instance_id p)) ` set ps \<longrightarrow> ah_samples h' i = (case ah_samples h i of
       None \<Rightarrow> None
     | Some s \<Rightarrow> if unat (ah_generation h) + 1 \<le> unat (hsm_generation s) + 2 then Some s else None))"
proof -
  let ?g = "ah_generation h + 1"
  have g: "unat ?g = unat (ah_generation h) + 1" using assms(3) by (simp add: unat_word_ariths)
  then have nonzero: "?g \<noteq> 0" by (metis add_is_0 one_neq_zero unat_0)
  have later: "w \<noteq> ?g" if "w \<le> ah_generation h" for w using that g by (auto simp: word_le_nat_alt)
  have instances: "(\<lambda>p. (proc_pid p, proc_instance_id p)) = instance_of" by (simp add: fun_eq_iff instance_of_def)
  have dist: "distinct (map instance_of ps)" using assms(6) unfolding instances .
  define elapsed where "elapsed =
    (let d = (if dless (Fin 0) (ah_last_sample h) then dsub now_mono (ah_last_sample h) else Fin 0)
     in if dless d (Fin 0) \<or> dless (Fin 60) d then Fin 0 else d)"
  obtain t samples where run: "fold (ingest_process c ?g elapsed now_epoch created)
      (enumerate 0 ps) (ah_table h, ah_samples h) = (t, samples)" by fastforce
  have kept: "ah_samples h' = remove_stale_samples ?g samples"
    using run by (simp add: h'_def lsm_app_history_ingest_def Let_def elapsed_def history_mark_dirty_def)
  have snd: "map snd (enumerate 0 ps) = ps" "map (instance_of \<circ> snd) (enumerate 0 ps) = map instance_of ps"
    by (simp_all flip: map_map)
  have sampled: "\<And>q. q \<in> set ps \<Longrightarrow> samples (instance_of q) = Some (process_sample ?g q)"
    "\<And>i. i \<notin> instance_of ` set ps \<Longrightarrow> samples i = ah_samples h i"
    using ingest_fold_samples [OF _ run] dist unfolding snd by blast+
  have generation: "hsm_generation s \<le> ?g" if "samples i = Some s" for i s
  proof (cases "i \<in> instance_of ` set ps")
    case True
    then show ?thesis using sampled(1) that by (auto simp: process_sample_def)
  next
    case False
    then have "ah_samples h i = Some s" using sampled(2) that by simp
    then have "hsm_generation s \<le> ah_generation h" using assms(5) ranI by fast
    then show ?thesis using g by (simp add: word_le_nat_alt)
  qed
  have stale: "ah_samples h' i = (case samples i of None \<Rightarrow> None
      | Some s \<Rightarrow> if unat (ah_generation h) + 1 \<le> unat (hsm_generation s) + 2 then Some s else None)" for i
  proof -
    have "unat ?g + 2 < 2 ^ 32" using g assms(3) by simp
    from stale_samples [of ?g samples i, OF this generation] show ?thesis unfolding kept g .
  qed
  have "ah_samples h' (instance_of p) = Some (process_sample ?g p)" if "p \<in> set ps" for p
    unfolding stale sampled(1) [OF that] by (simp add: process_sample_def g)
  moreover have "ah_samples h' i = (case ah_samples h i of None \<Rightarrow> None
      | Some s \<Rightarrow> if unat (ah_generation h) + 1 \<le> unat (hsm_generation s) + 2 then Some s else None)"
    if "i \<notin> instance_of ` set ps" for i
    unfolding stale sampled(2) [OF that] by (rule refl)
  moreover have "\<forall>e\<in>set (ht_entries (ah_table h)). he_live_generation e \<noteq> ?g" using assms(4) later by blast
  note application = ingest_application [OF assms(1,2) nonzero this dist, of _ allocated now_mono now_epoch created]
  ultimately show ?thesis
    unfolding instances Let_def h'_def using application
    by (simp only: process_sample_def instance_of_def) blast
qed

definition sample_process :: process_details where
  "sample_process =
     \<lparr>proc_pid = 42, proc_instance_id = 7, proc_state = ''Running'', proc_efficiency_mode = False,
      proc_cpu_percent = Fin 1, proc_memory_percent = Fin 1, proc_read_bytes_per_sec = Fin 0,
      proc_write_bytes_per_sec = Fin 0, proc_io_rate_available = True, proc_rss_bytes = 4096,
      proc_read_bytes = 150, proc_write_bytes = 30, proc_threads = 1, proc_gpu_percent = Fin 0,
      proc_gpu_engine = '''', proc_gpu_available = False, pd_name = ''bash'', pd_user = ''ann'',
      pd_account_identity = ''1000'', pd_executable = ''/bin/bash'', pd_command = ''bash'',
      pd_cpu_time_nanoseconds = 5000\<rparr>"

text \<open>The process was sampled before; two instances have ended, one of them three snapshots ago.\<close>

definition sample_of :: "u32 \<Rightarrow> history_sample" where
  "sample_of generation = \<lparr>hsm_cpu_time_nanoseconds = 4000, hsm_read_bytes = 100, hsm_write_bytes = 30,
     hsm_generation = generation\<rparr>"

definition sample_app_history :: app_history where
  "sample_app_history =
     \<lparr>ah_table = \<lparr>ht_entries = [], ht_count = 0\<rparr>,
      ah_samples = [(42, 7) \<mapsto> sample_of 3, (43, 1) \<mapsto> sample_of 1, (44, 1) \<mapsto> sample_of 2],
      ah_generation = 3, ah_last_sample = Fin 10, ah_mutation_generation = 1, ah_dirty = True\<rparr>"

theorem history_ingest_accounts_witness:
  "let h' = lsm_app_history_ingest ref_common True (Fin 12) 1700000000 (\<lambda>_. 1700000000) [sample_process] sample_app_history
   in (\<exists>e. lookup_entry (history_key ref_common sample_process) (ah_table h') = Some e \<and>
      unat (he_read_bytes e) = 50 \<and> unat (he_write_bytes e) = 0 \<and> unat (he_peak_rss_bytes e) = 4096 \<and>
      he_cpu_seconds e = add_nanoseconds (Fin 0) 1000) \<and>
      ah_samples h' (43, 1) = None \<and> ah_samples h' (44, 1) = Some (sample_of 2)"
proof -
  have ok: "table_ok (ah_table sample_app_history)" "unat (ah_generation sample_app_history) + 3 < 2 ^ 32"
    "\<forall>e\<in>set (ht_entries (ah_table sample_app_history)). he_live_generation e \<le> ah_generation sample_app_history"
    "\<forall>s\<in>ran (ah_samples sample_app_history). hsm_generation s \<le> ah_generation sample_app_history"
    "distinct (map (\<lambda>p. (proc_pid p, proc_instance_id p)) [sample_process])"
    by (auto simp: sample_app_history_def table_ok_def ran_def sample_of_def split: if_splits)
  note accounts = history_ingest_accounts [OF ref_common_ok(2) ok, of True "Fin 12" 1700000000 "\<lambda>_. 1700000000"]
  have "members ref_common (history_key ref_common sample_process) [sample_process] = [sample_process]"
    by (simp add: members_def)
  moreover have "read_growth (ah_samples sample_app_history) sample_process = 50"
    "write_growth (ah_samples sample_app_history) sample_process = 0"
    "cpu_growth (ah_samples sample_app_history) sample_process = 1000"
    "total_of f k (ah_table sample_app_history) = 0" "cpu_seconds_of k (ah_table sample_app_history) = Fin 0" for f k
    by (simp_all add: grown_since_def sample_app_history_def sample_process_def sample_of_def total_of_def
        cpu_seconds_of_def lookup_entry_def)
  moreover have "ah_samples sample_app_history (43, 1) = Some (sample_of 1)" "ah_samples sample_app_history (44, 1) = Some (sample_of 2)"
    "unat (ah_generation sample_app_history) = 3" "hsm_generation (sample_of n) = n" for n
    by (simp_all add: sample_app_history_def sample_of_def)
  moreover have "unat (proc_rss_bytes sample_process) = 4096" "(43, 1) \<notin> (\<lambda>p. (proc_pid p, proc_instance_id p)) ` set [sample_process]"
    "(44, 1) \<notin> (\<lambda>p. (proc_pid p, proc_instance_id p)) ` set [sample_process]"
    by (simp_all add: sample_process_def)
  ultimately show ?thesis using accounts unfolding Let_def by (auto simp del: split_paired_All)
qed

end
