(* ===== verification/History_File.thy ===== *)
theory History_File
  imports App_History
begin

text \<open>
  The durable form of the App History: the rows \<^verbatim>\<open>src/history_persistence.c\<close> writes, and the loader
  of \<^verbatim>\<open>src/history.c\<close> with its merge into the running table. The file is text, one entry per line
  with eleven fields separated by tabs. \<^verbatim>\<open>fgets\<close> and the C strings in its buffer are modelled as in
  \<^verbatim>\<open>C_String\<close>: an over-long line is skipped to its newline.
\<close>

definition LSM_HISTORY_MAX_LINE_BYTES :: nat where "LSM_HISTORY_MAX_LINE_BYTES = 16384"

record history_record =
  hp_key :: string
  hp_name :: string
  hp_user :: string
  hp_identity :: string
  hp_cpu_seconds :: double
  hp_active_seconds :: double
  hp_read_bytes :: u64
  hp_write_bytes :: u64
  hp_peak_rss_bytes :: u64
  hp_first_seen :: int
  hp_last_seen :: int

subsection \<open>Writing\<close>

definition copy_record_string :: "string \<Rightarrow> string" where
  "copy_record_string source = map (\<lambda>x. if x \<in> {TAB, CR, LF} then CHR '' '' else x) source"

text \<open>The projection of an entry and its copy in the request.\<close>

definition record_of_entry :: "history_entry \<Rightarrow> history_record" where
  "record_of_entry e =
     \<lparr>hp_key = copy_record_string (he_key e), hp_name = copy_record_string (he_name e),
      hp_user = copy_record_string (he_user e), hp_identity = copy_record_string (he_identity e),
      hp_cpu_seconds = he_cpu_seconds e, hp_active_seconds = he_active_seconds e,
      hp_read_bytes = he_read_bytes e, hp_write_bytes = he_write_bytes e,
      hp_peak_rss_bytes = he_peak_rss_bytes e, hp_first_seen = he_first_seen e,
      hp_last_seen = he_last_seen e\<rparr>"

definition request_records :: "history_table \<Rightarrow> history_record list" where
  "request_records t = map record_of_entry (take (ht_count t) (ht_entries t))"

definition history_row :: "common \<Rightarrow> history_record \<Rightarrow> string option" where
  "history_row c r =
     (case (infiltratr_format_fixed_ascii c (hp_cpu_seconds r) 6 64,
            infiltratr_format_fixed_ascii c (hp_active_seconds r) 6 64) of
        (Some cpu_seconds, Some active_seconds) \<Rightarrow>
          Some (join TAB [hp_key r, hp_name r, hp_user r, hp_identity r, cpu_seconds, active_seconds,
            nat_text (unat (hp_read_bytes r)), nat_text (unat (hp_write_bytes r)),
            nat_text (unat (hp_peak_rss_bytes r)), int_text (hp_first_seen r), int_text (hp_last_seen r)]
            @ [LF])
      | _ \<Rightarrow> None)"

fun history_rows :: "common \<Rightarrow> history_record list \<Rightarrow> string option" where
  "history_rows c [] = Some []"
| "history_rows c (r # rs) =
     (case history_row c r of None \<Rightarrow> None | Some row \<Rightarrow> map_option (\<lambda>rest. row @ rest) (history_rows c rs))"

definition history_header :: string where
  "history_header = ''# System-Monitor App History v1'' @ [LF]"

definition history_output :: "common \<Rightarrow> history_record list \<Rightarrow> string option" where
  "history_output c rs = map_option (\<lambda>rows. history_header @ rows) (history_rows c rs)"

subsection \<open>Loading\<close>

text \<open>\<^verbatim>\<open>g_strsplit\<close>: at most \<open>n\<close> pieces, the last one with the rest of the text.\<close>

fun strsplit :: "char \<Rightarrow> nat \<Rightarrow> string \<Rightarrow> string list" where
  "strsplit d 0 s = [s]"
| "strsplit d (Suc 0) s = [s]"
| "strsplit d (Suc n) s = (case strchr_split d s of None \<Rightarrow> [s] | Some (a, b) \<Rightarrow> a # strsplit d n b)"

definition store_entry :: "history_entry \<Rightarrow> history_table \<Rightarrow> history_table" where
  "store_entry e t =
     (if contains_key (he_key e) (ht_entries t) then update_entry (he_key e) (\<lambda>_. e) t
      else \<lparr>ht_entries = ht_entries t @ [e], ht_count = ht_count t + 1\<rparr>)"

definition retain_loaded :: "history_entry \<Rightarrow> history_table \<Rightarrow> bool \<times> history_table" where
  "retain_loaded e t =
     (if \<not> contains_key (he_key e) (ht_entries t) \<and> LSM_HISTORY_MAX_ENTRIES \<le> ht_count t then
        case Option.bind (history_oldest_key 0 t) (\<lambda>key. lookup_entry key t) of
          None \<Rightarrow> (True, t)
        | Some oldest \<Rightarrow>
            if history_entry_recency_compare e oldest \<le> 0 then (True, t)
            else (case history_remove_oldest 0 t of
                (False, _) \<Rightarrow> (True, t)
              | (True, t') \<Rightarrow> (True, store_entry e t'))
      else (False, store_entry e t))"

definition entry_of_record :: "history_record \<Rightarrow> history_entry" where
  "entry_of_record r =
     \<lparr>he_key = hp_key r, he_name = hp_name r, he_user = hp_user r, he_identity = hp_identity r,
      he_cpu_seconds = hp_cpu_seconds r, he_active_seconds = hp_active_seconds r,
      he_read_bytes = hp_read_bytes r, he_write_bytes = hp_write_bytes r,
      he_peak_rss_bytes = hp_peak_rss_bytes r, he_current_rss_bytes = 0, he_live_generation = 0,
      he_first_seen = hp_first_seen r, he_last_seen = hp_last_seen r\<rparr>"

definition parse_record :: "common \<Rightarrow> string list \<Rightarrow> history_record option" where
  "parse_record c columns =
     (case (infiltratr_parse_double_range c (columns ! 4) (Fin 0) (double_of_word UINT64_MAX),
            infiltratr_parse_double_range c (columns ! 5) (Fin 0) (double_of_word UINT64_MAX),
            infiltratr_parse_u64 c (columns ! 6) 10, infiltratr_parse_u64 c (columns ! 7) 10,
            infiltratr_parse_u64 c (columns ! 8) 10,
            infiltratr_parse_i64 c (columns ! 9) 10, infiltratr_parse_i64 c (columns ! 10) 10) of
        (Some cpu_seconds, Some active_seconds, Some read_bytes, Some write_bytes, Some peak_rss_bytes,
         Some first_seen, Some last_seen) \<Rightarrow>
          Some \<lparr>hp_key = columns ! 0, hp_name = columns ! 1, hp_user = columns ! 2, hp_identity = columns ! 3,
            hp_cpu_seconds = cpu_seconds, hp_active_seconds = active_seconds,
            hp_read_bytes = read_bytes, hp_write_bytes = write_bytes, hp_peak_rss_bytes = peak_rss_bytes,
            hp_first_seen = first_seen, hp_last_seen = last_seen\<rparr>
      | _ \<Rightarrow> None)"

text \<open>The flag says that the row must not survive the next rewrite.\<close>

definition history_load_record :: "common \<Rightarrow> string \<Rightarrow> history_table \<Rightarrow> bool \<times> history_table" where
  "history_load_record c line t =
     (if line = '''' \<or> hd line = CHR ''#'' then (False, t)
      else
        let columns = strsplit TAB 11 line
        in if length columns < 11 then (True, t)
           else case parse_record c columns of
             None \<Rightarrow> (True, t)
           | Some r \<Rightarrow> retain_loaded (entry_of_record r) t)"

definition strip_line :: "string \<Rightarrow> string" where
  "strip_line s = rev (dropWhile (\<lambda>x. x = LF \<or> x = CR) (rev s))"

text \<open>
  The loop of \<^verbatim>\<open>history_load_path\<close>. A line without its newline is the last one only when the stream
  is at its end, which \<^verbatim>\<open>fgets\<close> has noticed unless the buffer was exactly full.
\<close>

lemma fgets_shrinks:
  assumes "content \<noteq> []"
  shows "length (drop (length (fgets_line LSM_HISTORY_MAX_LINE_BYTES content)) content) < length content"
    and "length (drop 1 (dropWhile P (drop (length (fgets_line LSM_HISTORY_MAX_LINE_BYTES content)) content)))
      < length content"
proof -
  let ?rest = "drop (length (fgets_line LSM_HISTORY_MAX_LINE_BYTES content)) content"
  show shrinks: "length ?rest < length content"
    using fgets_line_prefix [OF assms, of LSM_HISTORY_MAX_LINE_BYTES] assms
    by (simp add: LSM_HISTORY_MAX_LINE_BYTES_def)
  have "length (drop 1 (dropWhile P ?rest)) \<le> length ?rest"
    using length_dropWhile_le [of P ?rest] by simp
  with shrinks show "length (drop 1 (dropWhile P ?rest)) < length content" by simp
qed

function load_lines :: "common \<Rightarrow> string \<Rightarrow> bool \<times> history_table \<Rightarrow> bool \<times> history_table" where
  "load_lines c content acc =
     (if content = [] then acc
      else
        let chunk = fgets_line LSM_HISTORY_MAX_LINE_BYTES content;
            rest = drop (length chunk) content;
            line = c_str chunk;
            complete = (line \<noteq> [] \<and> last line = LF);
            at_eof = (rest = [] \<and> last chunk \<noteq> LF \<and> length chunk < LSM_HISTORY_MAX_LINE_BYTES - 1);
            (truncated, t) = acc
        in if \<not> complete \<and> \<not> at_eof
           then load_lines c (drop 1 (dropWhile (\<lambda>x. x \<noteq> LF) rest)) (True, t)
           else
             let (bad, t') = history_load_record c (strip_line line) t
             in load_lines c rest (truncated \<or> bad, t'))"
  by pat_completeness auto
termination
  by (relation "measure (\<lambda>(c, s, acc). length s)") (simp_all add: fgets_shrinks [simplified])

declare load_lines.simps [simp del]

text \<open>
  \<open>Inl\<close> is a failure code; for a failed read or close it is \<^verbatim>\<open>EIO\<close>, where the program reports
  \<^verbatim>\<open>errno\<close> when it is set. The file is missing (no entries), cannot be opened, or gives a stream.
\<close>

datatype history_file = Missing | Unreadable int | Stream text_stream

definition EIO :: int where "EIO = 5"

definition history_load_path ::
  "common \<Rightarrow> history_file \<Rightarrow> int + (history_table \<times> bool) option" where
  "history_load_path c file =
     (case file of
        Missing \<Rightarrow> Inr None
      | Unreadable e \<Rightarrow> Inl (if e \<noteq> 0 then e else EIO)
      | Stream s \<Rightarrow>
          let (truncated, t) = load_lines c (ts_content s) (False, \<lparr>ht_entries = [], ht_count = 0\<rparr>)
          in if ts_error s \<or> \<not> ts_close_ok s then Inl EIO else Inr (Some (t, truncated)))"

subsection \<open>Merging into the running table\<close>

definition fmin :: "double \<Rightarrow> double \<Rightarrow> double" where
  "fmin x y = (if isnan x then y else if isnan y then x else if dless y x then y else x)"

definition merge_entry :: "common \<Rightarrow> history_entry \<Rightarrow> history_entry \<Rightarrow> history_entry" where
  "merge_entry c loaded current =
     (let seconds_limit = double_of_word UINT64_MAX in
      current\<lparr>
        he_cpu_seconds := fmin seconds_limit (dadd (he_cpu_seconds current) (he_cpu_seconds loaded)),
        he_active_seconds := fmin seconds_limit (dadd (he_active_seconds current) (he_active_seconds loaded)),
        he_read_bytes := infiltratr_u64_add_saturating c (he_read_bytes current) (he_read_bytes loaded),
        he_write_bytes := infiltratr_u64_add_saturating c (he_write_bytes current) (he_write_bytes loaded),
        he_peak_rss_bytes := (if he_peak_rss_bytes current < he_peak_rss_bytes loaded
          then he_peak_rss_bytes loaded else he_peak_rss_bytes current),
        he_first_seen := (if 0 < he_first_seen loaded \<and>
            (he_first_seen current \<le> 0 \<or> he_first_seen loaded < he_first_seen current)
          then he_first_seen loaded else he_first_seen current),
        he_last_seen := (if he_last_seen current < he_last_seen loaded
          then he_last_seen loaded else he_last_seen current)\<rparr>)"

definition merge_step :: "common \<Rightarrow> history_entry \<Rightarrow> history_table \<Rightarrow> history_table" where
  "merge_step c loaded t =
     (case lookup_entry (he_key loaded) t of
        None \<Rightarrow> \<lparr>ht_entries = ht_entries t @ [loaded], ht_count = ht_count t + 1\<rparr>
      | Some current \<Rightarrow> update_entry (he_key loaded) (merge_entry c loaded) t)"

definition history_merge_loaded ::
  "common \<Rightarrow> bool \<Rightarrow> int + (history_table \<times> bool) option \<Rightarrow> app_history \<Rightarrow> app_history" where
  "history_merge_loaded c allocated result h =
     (case result of
        Inr (Some (loaded, truncated)) \<Rightarrow>
          let t = fold (merge_step c) (ht_entries loaded) (ah_table h);
              (trimmed, t) = history_trim_to_limit allocated (ah_generation h) t;
              h = h\<lparr>ah_table := t\<rparr>
          in if truncated \<or> trimmed then history_mark_dirty h else h
      | _ \<Rightarrow> h)"

subsection \<open>Reading back what was written\<close>

lemma strsplit_join:
  "fs \<noteq> [] \<Longrightarrow> \<forall>f \<in> set fs. d \<notin> set f \<Longrightarrow> strsplit d (length fs) (join d fs) = fs"
proof (induction d fs rule: join.induct)
  case (3 d f g fs)
  have "strchr_split d (f @ d # join d (g # fs)) = Some (f, join d (g # fs))"
    using 3(3) by (intro strchr_split_append) simp
  with 3 show ?case by simp
qed simp_all

lemma fgets_line_row:
  assumes "LF \<notin> set body" and "length body + 1 < LSM_HISTORY_MAX_LINE_BYTES"
  shows "fgets_line LSM_HISTORY_MAX_LINE_BYTES (body @ LF # rest) = body @ [LF]"
proof -
  let ?n = "LSM_HISTORY_MAX_LINE_BYTES - 1"
  have "take ?n (body @ LF # rest) = body @ LF # take (?n - length body - 1) rest"
    using assms(2) by (simp add: take_Cons')
  moreover have "strchr_split LF (body @ LF # x) = Some (body, x)" for x
    using assms(1) by (rule strchr_split_append)
  ultimately show ?thesis by (simp add: fgets_line_def)
qed

text \<open>One complete line without NUL bytes goes to the record parser.\<close>

lemma load_lines_row:
  assumes "LF \<notin> set body" and "NUL \<notin> set body" and "length body + 1 < LSM_HISTORY_MAX_LINE_BYTES"
    and "body \<noteq> []" and "last body \<noteq> CR" and "history_load_record c body t = (bad, t')"
  shows "load_lines c (body @ LF # rest) (truncated, t) = load_lines c rest (truncated \<or> bad, t')"
proof -
  have "c_str (body @ [LF]) = body @ [LF]"
    using assms(2) by (auto simp: c_str_def takeWhile_append takeWhile_eq_all_conv)
  moreover have "last body \<noteq> LF" using assms(1,4) last_in_set by metis
  then have "strip_line (body @ [LF]) = body"
    using assms(4,5) by (cases body rule: rev_cases) (auto simp: strip_line_def)
  ultimately show ?thesis
    using fgets_line_row [OF assms(1,3), of rest] assms(6)
    by (subst load_lines.simps) (simp add: Let_def)
qed

text \<open>A number of seconds as the file gives it back: printed with six decimals, read in its range.\<close>

definition reread_seconds :: "common \<Rightarrow> double \<Rightarrow> double option" where
  "reread_seconds c d =
     Option.bind (infiltratr_format_fixed_ascii c d 6 64)
       (\<lambda>s. infiltratr_parse_double_range c s (Fin 0) (double_of_word UINT64_MAX))"

definition reread_record :: "common \<Rightarrow> history_record \<Rightarrow> history_record option" where
  "reread_record c r =
     (case (reread_seconds c (hp_cpu_seconds r), reread_seconds c (hp_active_seconds r)) of
        (Some a, Some b) \<Rightarrow> Some (r\<lparr>hp_cpu_seconds := a, hp_active_seconds := b\<rparr>)
      | _ \<Rightarrow> None)"

text \<open>What a record of the running program satisfies: C strings without separators, times of the
  64-bit type, and a line that fits the loader's buffer.\<close>

definition printable :: "common \<Rightarrow> history_record \<Rightarrow> bool" where
  "printable c r \<longleftrightarrow>
     (\<forall>s \<in> {hp_key r, hp_name r, hp_user r, hp_identity r}. set s \<inter> {TAB, CR, LF, NUL} = {}) \<and>
     (hp_key r = '''' \<or> hd (hp_key r) \<noteq> CHR ''#'') \<and>
     - (2 ^ 63) \<le> hp_first_seen r \<and> hp_first_seen r < 2 ^ 63 \<and>
     - (2 ^ 63) \<le> hp_last_seen r \<and> hp_last_seen r < 2 ^ 63 \<and>
     (\<forall>row. history_row c r = Some row \<longrightarrow> length row < LSM_HISTORY_MAX_LINE_BYTES)"

lemma digits_text: "list_all ascii_digit s \<Longrightarrow> set s \<inter> {TAB, CR, LF, NUL} = {}"
  by (auto simp: list_all_iff ascii_digit_def)

lemma int_text_chars:
  "set (int_text v) \<inter> {TAB, CR, LF, NUL} = {}" "int_text v \<noteq> []" "last (int_text v) \<noteq> CR"
proof -
  show chars: "set (int_text v) \<inter> {TAB, CR, LF, NUL} = {}" and "int_text v \<noteq> []"
    using nat_text_digits digits_text by (auto simp: int_text_def)
  then have "last (int_text v) \<in> set (int_text v)" by simp
  then show "last (int_text v) \<noteq> CR" using chars by (metis disjoint_iff insertCI)
qed

lemma format_chars:
  assumes "common_format_ok c" and "infiltratr_format_fixed_ascii c d n cap = Some s"
  shows "set s \<inter> {TAB, CR, LF, NUL} = {}"
  using assms by (fastforce simp: common_format_ok_def ascii_digit_def)

lemma history_row_line:
  assumes "common_decimal_ok c" "common_signed_ok c" "common_format_ok c"
    and "printable c r" and "reread_record c r = Some r'"
  shows "\<exists>body. history_row c r = Some (body @ [LF]) \<and> LF \<notin> set body \<and> NUL \<notin> set body \<and>
    length body + 1 < LSM_HISTORY_MAX_LINE_BYTES \<and> body \<noteq> [] \<and> last body \<noteq> CR \<and>
    history_load_record c body t = retain_loaded (entry_of_record r') t"
proof -
  obtain cpu active a b where texts:
    "infiltratr_format_fixed_ascii c (hp_cpu_seconds r) 6 64 = Some cpu"
    "infiltratr_format_fixed_ascii c (hp_active_seconds r) 6 64 = Some active" and
    vals: "infiltratr_parse_double_range c cpu (Fin 0) (double_of_word UINT64_MAX) = Some a"
    "infiltratr_parse_double_range c active (Fin 0) (double_of_word UINT64_MAX) = Some b" and
    r': "r' = r\<lparr>hp_cpu_seconds := a, hp_active_seconds := b\<rparr>"
    using assms(5) by (auto simp: reread_record_def reread_seconds_def bind_eq_Some_conv split: option.splits)
  let ?fs = "[hp_key r, hp_name r, hp_user r, hp_identity r, cpu, active,
    nat_text (unat (hp_read_bytes r)), nat_text (unat (hp_write_bytes r)),
    nat_text (unat (hp_peak_rss_bytes r)), int_text (hp_first_seen r), int_text (hp_last_seen r)]"
  let ?body = "join TAB ?fs"
  have chars: "set f \<inter> {TAB, CR, LF, NUL} = {}" if "f \<in> set ?fs" for f
    using that assms(4) format_chars [OF assms(3) texts(1)] format_chars [OF assms(3) texts(2)]
      digits_text nat_text_digits int_text_chars(1)
    unfolding printable_def by auto
  have row: "history_row c r = Some (?body @ [LF])" by (simp add: history_row_def texts)
  have free: "\<forall>f \<in> set ?fs. x \<notin> set f" if "x \<in> {TAB, CR, LF, NUL}" for x
    using chars that by (metis disjoint_iff)
  have "strsplit TAB (length ?fs) ?body = ?fs"
    by (rule strsplit_join [OF _ free]) simp_all
  moreover have "length ?fs = 11" by simp
  ultimately have split: "strsplit TAB 11 ?body = ?fs" by (simp only:)
  have lf: "LF \<notin> set ?body" "NUL \<notin> set ?body"
    by (rule notin_join [OF _ free]; simp)+
  have last: "?body \<noteq> []" "last ?body \<noteq> CR"
    using last_join [of ?fs TAB] int_text_chars(2,3) by auto
  have "hd ?body \<noteq> CHR ''#''"
    using assms(4) by (cases "hp_key r") (auto simp: printable_def)
  moreover have "parse_record c ?fs = Some r'"
    using assms(1,2,4) by (simp add: parse_record_def vals common_decimal_ok_def common_signed_ok_def
        printable_def r')
  ultimately have "history_load_record c ?body t = retain_loaded (entry_of_record r') t"
    using split last(1) by (simp add: history_load_record_def)
  moreover have "length ?body + 1 < LSM_HISTORY_MAX_LINE_BYTES"
    using assms(4) row by (auto simp: printable_def)
  ultimately show ?thesis using row lf last by blast
qed

text \<open>Loading the rows one after the other appends their entries.\<close>

lemma retain_loaded_new:
  assumes "he_key e \<notin> he_key ` set (ht_entries t)" and "ht_count t < LSM_HISTORY_MAX_ENTRIES"
  shows "retain_loaded e t = (False, \<lparr>ht_entries = ht_entries t @ [e], ht_count = ht_count t + 1\<rparr>)"
proof -
  have "\<not> contains_key (he_key e) (ht_entries t)" using assms(1) unfolding contains_key_def by (metis imageI)
  with assms(2) show ?thesis by (simp add: retain_loaded_def store_entry_def)
qed

lemma load_rows:
  assumes ok: "common_decimal_ok c" "common_signed_ok c" "common_format_ok c"
    and "\<forall>r \<in> set rs. printable c r \<and> reread_record c r \<noteq> None"
    and "distinct (map hp_key rs)" and "hp_key ` set rs \<inter> he_key ` set (ht_entries t) = {}"
    and "ht_count t + length rs \<le> LSM_HISTORY_MAX_ENTRIES"
  shows "\<exists>rows. history_rows c rs = Some rows \<and>
    load_lines c rows (truncated, t) = (truncated,
      \<lparr>ht_entries = ht_entries t @ map (\<lambda>r. entry_of_record (the (reread_record c r))) rs,
       ht_count = ht_count t + length rs\<rparr>)"
  using assms(4-)
proof (induction rs arbitrary: t)
  case Nil
  then show ?case by (simp add: load_lines.simps)
next
  case (Cons r rs)
  obtain r' where r': "reread_record c r = Some r'" using Cons.prems(1) by auto
  have key: "he_key (entry_of_record r') = hp_key r"
    using r' by (auto simp: reread_record_def entry_of_record_def split: option.splits)
  let ?t = "\<lparr>ht_entries = ht_entries t @ [entry_of_record r'], ht_count = ht_count t + 1\<rparr>"
  have "retain_loaded (entry_of_record r') t = (False, ?t)"
    using Cons.prems(3,4) key by (intro retain_loaded_new) auto
  with history_row_line [OF ok, of r r' t] Cons.prems(1) r' obtain body where
    body: "history_row c r = Some (body @ [LF])" "LF \<notin> set body" "NUL \<notin> set body"
    "length body + 1 < LSM_HISTORY_MAX_LINE_BYTES" "body \<noteq> []" "last body \<noteq> CR"
    "history_load_record c body t = (False, ?t)" by auto
  have "hp_key ` set rs \<inter> he_key ` set (ht_entries ?t) = {}"
    using Cons.prems(2,3) key by auto
  then obtain rows where rows: "history_rows c rs = Some rows"
    "load_lines c rows (truncated, ?t) = (truncated,
      \<lparr>ht_entries = ht_entries ?t @ map (\<lambda>r. entry_of_record (the (reread_record c r))) rs,
       ht_count = ht_count ?t + length rs\<rparr>)"
    using Cons.IH [of ?t] Cons.prems by auto
  then show ?case
    using load_lines_row [OF body(2-7), of rows truncated] body(1) r' by simp
qed

lemma load_header: "load_lines c (history_header @ rows) (False, t) = load_lines c rows (False, t)"
proof -
  let ?body = "''# System-Monitor App History v1''"
  have "history_load_record c ?body t = (False, t)" by (simp add: history_load_record_def)
  then show ?thesis
    using load_lines_row [of ?body c t False t rows False]
    by (simp add: history_header_def LSM_HISTORY_MAX_LINE_BYTES_def)
qed

subsection \<open>The entries a save can store\<close>

text \<open>A text with its tabulators and line ends replaced by spaces.\<close>

fun blanked :: "string \<Rightarrow> string" where
  "blanked [] = []"
| "blanked (x # xs) = (if x = TAB \<or> x = CR \<or> x = LF then CHR '' '' else x) # blanked xs"

lemma copy_record_blanked: "copy_record_string s = blanked s"
  by (induction s) (simp_all add: copy_record_string_def)

lemma length_blanked [simp]: "length (blanked s) = length s"
  by (induction s) simp_all

lemma blanked_chars: "NUL \<notin> set s \<Longrightarrow> set (blanked s) \<inter> {TAB, CR, LF, NUL} = {}"
  by (induction s) auto

lemma hd_blanked: "blanked s \<noteq> '''' \<Longrightarrow> hd (blanked s) = CHR ''#'' \<longleftrightarrow> hd s = CHR ''#''"
  by (cases s) auto

text \<open>
  The entries a save can store: C strings that fit a line together, a key that does not start like a
  comment, seconds within what the table accumulates, times of the 64-bit type.
\<close>

definition seconds_ok :: "double \<Rightarrow> bool" where
  "seconds_ok d \<longleftrightarrow> (\<exists>x. d = Fin x \<and> 0 \<le> x \<and> x \<le> 2 ^ 64)"

definition entry_storable :: "history_entry \<Rightarrow> bool" where
  "entry_storable e \<longleftrightarrow>
     NUL \<notin> set (he_key e) \<union> set (he_name e) \<union> set (he_user e) \<union> set (he_identity e) \<and>
     length (he_key e) + length (he_name e) + length (he_user e) + length (he_identity e) \<le> 16000 \<and>
     (he_key e = '''' \<or> hd (he_key e) \<noteq> CHR ''#'') \<and>
     seconds_ok (he_cpu_seconds e) \<and> seconds_ok (he_active_seconds e) \<and>
     - (2 ^ 63) \<le> he_first_seen e \<and> he_first_seen e < 2 ^ 63 \<and>
     - (2 ^ 63) \<le> he_last_seen e \<and> he_last_seen e < 2 ^ 63"

text \<open>Seconds as their six printed decimals read.\<close>

definition same_seconds :: "double \<Rightarrow> double \<Rightarrow> bool" where
  "same_seconds d d' \<longleftrightarrow> (\<exists>x q. d = Fin x \<and> d' = fl q \<and> \<bar>q - x\<bar> \<le> 1 / 2000000)"

definition entry_reread :: "history_entry \<Rightarrow> history_entry \<Rightarrow> bool" where
  "entry_reread e e' \<longleftrightarrow>
     he_key e' = blanked (he_key e) \<and> he_name e' = blanked (he_name e) \<and> he_user e' = blanked (he_user e) \<and>
     he_identity e' = blanked (he_identity e) \<and> same_seconds (he_cpu_seconds e) (he_cpu_seconds e') \<and>
     same_seconds (he_active_seconds e) (he_active_seconds e') \<and> he_read_bytes e' = he_read_bytes e \<and>
     he_write_bytes e' = he_write_bytes e \<and> he_peak_rss_bytes e' = he_peak_rss_bytes e \<and>
     he_current_rss_bytes e' = 0 \<and> he_live_generation e' = 0 \<and>
     he_first_seen e' = he_first_seen e \<and> he_last_seen e' = he_last_seen e"

lemma double_u64_max: "double_of_word UINT64_MAX = Fin (2 ^ 64)"
proof -
  have "unat UINT64_MAX = 2 ^ 64 - 1" by (simp add: unsigned_minus_1_eq_mask mask_eq_exp_minus_1)
  then have n: "(of_nat (unat UINT64_MAX) :: rat) = 2 ^ 64 - 1" by (simp only: of_nat_diff) simp
  have "ilog2 (2 ^ 64 - 1) = 63" by (rule ilog2_unique) (simp_all add: power_int_def)
  then have "ulp_exp (2 ^ 64 - 1) = 11" by (simp add: ulp_exp_def)
  moreover have "\<lfloor>(2 ^ 64 - 1) / 2 ^ 11 :: rat\<rfloor> = 2 ^ 53 - 1" by (rule floor_unique) simp_all
  then have "rne ((2 ^ 64 - 1) / 2 ^ 11) = 2 ^ 53" by (simp add: rne_def Let_def)
  ultimately have "rnd_pos (2 ^ 64 - 1) = 2 ^ 64" by (simp add: rnd_pos_def power_int_def)
  then show ?thesis unfolding double_of_nat_def n fl_def rnd_def by simp
qed

lemma seconds_reread:
  assumes "common_fixed_ok c" "seconds_ok d"
  shows "\<exists>d'. reread_seconds c d = Some d' \<and> same_seconds d d'"
proof -
  obtain x where x: "d = Fin x" "0 \<le> x" "x \<le> 2 ^ 64" using assms(2) by (auto simp: seconds_ok_def)
  have limit: "double_of_word UINT64_MAX = Fin (of_int (2 ^ 64))" "is_double (Fin (of_int (2 ^ 64)))"
    using double_u64_max is_double_fl [of "of_nat (unat UINT64_MAX)"] by (simp_all add: double_of_nat_def)
  have "is_double (Fin (of_int 0))" by (simp add: is_double_def)
  then have "\<exists>s q. infiltratr_format_fixed_ascii c (Fin x) 6 64 = Some s \<and>
      infiltratr_parse_double_range c s (Fin (of_int 0)) (Fin (of_int (2 ^ 64))) = Some (fl q) \<and> \<bar>q - x\<bar> \<le> 1 / (2 * 10 ^ 6)"
    using x limit(2) by (intro assms(1) [unfolded common_fixed_ok_def, rule_format]) simp_all
  then obtain s q where "infiltratr_format_fixed_ascii c (Fin x) 6 64 = Some s"
    "infiltratr_parse_double_range c s (Fin 0) (double_of_word UINT64_MAX) = Some (fl q)" "\<bar>q - x\<bar> \<le> 1 / 2000000"
    unfolding limit(1) by auto
  then show ?thesis unfolding reread_seconds_def x(1) same_seconds_def by auto
qed

lemma length_int_text: "- (2 ^ 63) \<le> v \<Longrightarrow> v < 2 ^ 63 \<Longrightarrow> length (int_text v) \<le> 21"
proof -
  assume "- (2 ^ 63) \<le> v" "v < 2 ^ 63"
  then have "nat v < 10 ^ Suc 19" "nat (- v) < 10 ^ Suc 19" by simp_all
  then have "length (nat_text (nat v)) \<le> 20" "length (nat_text (nat (- v))) \<le> 20" using length_nat_text by fastforce+
  then show ?thesis by (simp add: int_text_def)
qed

lemma length_u64_text: "length (nat_text (unat (w :: u64))) \<le> 20"
  using length_nat_text [of "unat w" 19] unsigned_less [of w, where ?'a = nat] by simp

lemma storable_printable:
  assumes "common_format_ok c" "entry_storable e"
  shows "printable c (record_of_entry e)"
proof -
  let ?r = "record_of_entry e"
  have texts: "set s \<inter> {TAB, CR, LF, NUL} = {}" if "s \<in> {hp_key ?r, hp_name ?r, hp_user ?r, hp_identity ?r}" for s
    using that assms(2) blanked_chars by (auto simp: record_of_entry_def copy_record_blanked entry_storable_def)
  have "length row < LSM_HISTORY_MAX_LINE_BYTES" if row: "history_row c ?r = Some row" for row
  proof -
    obtain a b where ab: "infiltratr_format_fixed_ascii c (hp_cpu_seconds ?r) 6 64 = Some a"
      "infiltratr_format_fixed_ascii c (hp_active_seconds ?r) 6 64 = Some b"
      using row by (auto simp: history_row_def split: option.splits)
    then have "length a < 64" "length b < 64" using assms(1) by (auto simp: common_format_ok_def)
    moreover have "length row = length (hp_key ?r) + length (hp_name ?r) + length (hp_user ?r) + length (hp_identity ?r) +
        length a + length b + length (nat_text (unat (hp_read_bytes ?r))) + length (nat_text (unat (hp_write_bytes ?r))) +
        length (nat_text (unat (hp_peak_rss_bytes ?r))) + length (int_text (hp_first_seen ?r)) +
        length (int_text (hp_last_seen ?r)) + 11"
      using row ab by (auto simp: history_row_def)
    moreover have "length (hp_key ?r) + length (hp_name ?r) + length (hp_user ?r) + length (hp_identity ?r) \<le> 16000"
      "length (int_text (hp_first_seen ?r)) \<le> 21" "length (int_text (hp_last_seen ?r)) \<le> 21"
      using assms(2) length_int_text by (simp_all add: record_of_entry_def copy_record_blanked entry_storable_def)
    ultimately show ?thesis
      using length_u64_text [of "hp_read_bytes ?r"] length_u64_text [of "hp_write_bytes ?r"] length_u64_text [of "hp_peak_rss_bytes ?r"]
      by (simp add: LSM_HISTORY_MAX_LINE_BYTES_def)
  qed
  moreover have "hp_key ?r = '''' \<or> hd (hp_key ?r) \<noteq> CHR ''#''"
    using assms(2) hd_blanked [of "he_key e"] by (cases "he_key e") (auto simp: record_of_entry_def copy_record_blanked entry_storable_def)
  ultimately show ?thesis
    using texts assms(2) by (auto simp: printable_def record_of_entry_def entry_storable_def)
qed

lemma storable_reread:
  assumes "common_fixed_ok c" "entry_storable e"
  shows "\<exists>r. reread_record c (record_of_entry e) = Some r \<and> entry_reread e (entry_of_record r)"
proof -
  obtain a b where "reread_seconds c (he_cpu_seconds e) = Some a" "same_seconds (he_cpu_seconds e) a"
    "reread_seconds c (he_active_seconds e) = Some b" "same_seconds (he_active_seconds e) b"
    using seconds_reread [OF assms(1)] assms(2) unfolding entry_storable_def by blast
  then show ?thesis
    by (auto simp: reread_record_def record_of_entry_def entry_of_record_def entry_reread_def copy_record_blanked)
qed

text \<open>
  C38. The history file is read back as it was written: for a table of at most the entries the program
  keeps, whose texts hold no NUL and fit a line together, whose keys do not start with a number sign and
  stay distinct when separators become spaces, whose seconds are finite from 0 to 2 to the 64 and whose
  times are of the 64-bit type, a save writes a text of which the loader accepts every row and drops
  nothing; it gives the same entries in order, texts with tabulators and line ends as spaces, counters
  and times unchanged, the seconds within half a millionth of what was saved, and no current activity.
\<close>

theorem history_file_roundtrip:
  assumes "common_decimal_ok c" "common_signed_ok c" "common_format_ok c" "common_fixed_ok c"
    and "table_ok t" "ht_count t \<le> LSM_HISTORY_MAX_ENTRIES"
    and "\<forall>e\<in>set (ht_entries t). entry_storable e" "distinct (map (\<lambda>e. blanked (he_key e)) (ht_entries t))"
  shows "\<exists>output t'. history_output c (request_records t) = Some output \<and>
    history_load_path c (Stream \<lparr>ts_content = output, ts_error = False, ts_close_ok = True\<rparr>) = Inr (Some (t', False)) \<and>
    ht_count t' = ht_count t \<and> list_all2 entry_reread (ht_entries t) (ht_entries t')"
proof -
  let ?empty = "\<lparr>ht_entries = [], ht_count = 0\<rparr>"
  let ?reread = "\<lambda>r. entry_of_record (the (reread_record c r))"
  have all: "request_records t = map record_of_entry (ht_entries t)"
    using assms(5) by (simp add: request_records_def table_ok_def)
  have good: "\<forall>r\<in>set (request_records t). printable c r \<and> reread_record c r \<noteq> None"
    using assms(7) storable_printable [OF assms(3)] storable_reread [OF assms(4)] unfolding all by fastforce
  have "distinct (map hp_key (request_records t))"
    using assms(8) unfolding all by (simp add: comp_def record_of_entry_def copy_record_blanked)
  moreover have "length (request_records t) = ht_count t" using assms(5) by (simp add: all table_ok_def)
  ultimately obtain rows where "history_rows c (request_records t) = Some rows"
    "load_lines c rows (False, ?empty) = (False, \<lparr>ht_entries = map ?reread (request_records t), ht_count = ht_count t\<rparr>)"
    using load_rows [OF assms(1-3) good, of ?empty False] assms(6) by auto
  moreover have "list_all2 entry_reread (ht_entries t) (map ?reread (request_records t))"
  proof -
    have "entry_reread e (?reread (record_of_entry e))" if "e \<in> set (ht_entries t)" for e
      using assms(7) storable_reread [OF assms(4)] that by fastforce
    then show ?thesis unfolding all by (simp add: list_all2_map2 list_all2_same)
  qed
  ultimately show ?thesis
    by (simp add: history_output_def history_load_path_def load_header)
qed

text \<open>A program whose path holds a tabulator.\<close>

definition sample_saved :: history_table where
  "sample_saved = \<lparr>ht_entries = [(new_entry 1700000000 sample_process (''1000|/a'' @ [TAB] @ ''b'') (''/a'' @ [TAB] @ ''b''))
     \<lparr>he_cpu_seconds := Fin (3 / 2)\<rparr>], ht_count = 1\<rparr>"

theorem history_file_roundtrip_witness:
  "\<exists>output t'. history_output ref_common (request_records sample_saved) = Some output \<and>
    history_load_path ref_common (Stream \<lparr>ts_content = output, ts_error = False, ts_close_ok = True\<rparr>) = Inr (Some (t', False)) \<and>
    map he_key (ht_entries t') = [''1000|/a b''] \<and> list_all2 entry_reread (ht_entries sample_saved) (ht_entries t')"
proof -
  have seconds: "seconds_ok (Fin (3 / 2))" "seconds_ok (Fin 0)" 
    unfolding seconds_ok_def by (rule exI [of _ "3 / 2"], simp) simp
  have ok: "table_ok sample_saved" "ht_count sample_saved \<le> LSM_HISTORY_MAX_ENTRIES"
    "\<forall>e\<in>set (ht_entries sample_saved). entry_storable e" "distinct (map (\<lambda>e. blanked (he_key e)) (ht_entries sample_saved))"
    by (simp_all add: sample_saved_def table_ok_def LSM_HISTORY_MAX_ENTRIES_def entry_storable_def new_entry_def
        sample_process_def seconds)
  from history_file_roundtrip [OF ref_common_ok(6,8,7) ref_common_fixed_ok ok] obtain written t' where
    "history_output ref_common (request_records sample_saved) = Some written"
    "history_load_path ref_common (Stream \<lparr>ts_content = written, ts_error = False, ts_close_ok = True\<rparr>) = Inr (Some (t', False))"
    "list_all2 entry_reread (ht_entries sample_saved) (ht_entries t')" by blast
  moreover from this(3) have "map he_key (ht_entries t') = [''1000|/a b'']"
    by (auto simp: sample_saved_def entry_reread_def new_entry_def list_all2_Cons1)
  ultimately show ?thesis by (intro exI [of _ written] exI [of _ t'] conjI)
qed

end
