(* ===== verification/History_Saving.thy ===== *)
theory History_Saving
  imports History_File
begin

text \<open>
  When the App History is saved: the asynchronous save and load of \<^verbatim>\<open>src/history.c\<close> and the
  generation coordinator of \<^verbatim>\<open>src/history_persistence.c\<close>. The durable content of the table (its
  records) is a type parameter, since the protocol never looks at it. A save request carries the
  mutation generation and the content at its creation; the worker checks the generation before it
  builds the text and again under the write mutex, which makes check and write one step. The GUI
  thread makes all other steps, in a window that exists (the page is built in it) and with or without
  the coordinator, whose allocation may have failed. \<open>sv_disk\<close> is the content the file stands for and
  \<open>sv_loaded\<close> records that it has been merged. Reaching the last mutation generation is excluded (it takes 2^32 - 1
  changes); from then on \<^verbatim>\<open>history_mark_dirty\<close> no longer tells versions apart.
\<close>

datatype 'a save_task =
    No_Task
  | Queued u32 'a
  | Checked u32 'a
  | Done u32 bool bool \<comment> \<open>generation, failed, written\<close>

record 'a history_saver =
  sv_coordinator :: bool
  sv_content :: 'a
  sv_mutation_generation :: u32
  sv_dirty :: bool
  sv_load_pending :: bool
  sv_loaded :: bool
  sv_save_pending :: bool
  sv_save_again :: bool
  sv_shut_down :: bool
  sv_latest_scheduled :: u32
  sv_latest_written :: u32
  sv_task :: "'a save_task"
  sv_disk :: 'a

text \<open>The window is being built: an empty table, the file not read yet.\<close>

definition initial_saver :: "bool \<Rightarrow> 'a \<Rightarrow> 'a \<Rightarrow> 'a history_saver" where
  "initial_saver coordinator blank disk =
     \<lparr>sv_coordinator = coordinator, sv_content = blank, sv_mutation_generation = 0, sv_dirty = False, sv_load_pending = True,
      sv_loaded = False, sv_save_pending = False, sv_save_again = False, sv_shut_down = False,
      sv_latest_scheduled = 0, sv_latest_written = 0, sv_task = No_Task, sv_disk = disk\<rparr>"

subsection \<open>The GUI thread\<close>

definition saver_mark_dirty :: "'a history_saver \<Rightarrow> 'a history_saver" where
  "saver_mark_dirty s =
     s\<lparr>sv_mutation_generation := (if sv_mutation_generation s < UINT_MAX
          then sv_mutation_generation s + 1 else sv_mutation_generation s),
       sv_dirty := True\<rparr>"

text \<open>A request is superseded by a newer scheduled generation or by a write of its own or a newer one.\<close>

definition superseded :: "u32 \<Rightarrow> 'a history_saver \<Rightarrow> bool" where
  "superseded generation s \<longleftrightarrow> sv_coordinator s \<and>
     (generation < sv_latest_scheduled s \<or> generation \<le> sv_latest_written s)"

definition note_scheduled :: "u32 \<Rightarrow> 'a history_saver \<Rightarrow> 'a history_saver" where
  "note_scheduled generation s =
     (if sv_coordinator s then s\<lparr>sv_latest_scheduled := generation\<rparr> else s)"

definition latest_written :: "'a history_saver \<Rightarrow> u32" where
  "latest_written s = (if sv_coordinator s then sv_latest_written s else 0)"

text \<open>The atomic replacement of the file and the generation it records.\<close>

definition write_file :: "u32 \<Rightarrow> 'a \<Rightarrow> 'a history_saver \<Rightarrow> 'a history_saver" where
  "write_file generation content s =
     s\<lparr>sv_disk := content,
       sv_latest_written := (if sv_coordinator s then generation else sv_latest_written s)\<rparr>"

text \<open>
  A save in the GUI thread. \<open>created\<close> says whether the request could be created and \<open>ok\<close> whether the
  directory, the text and the file could be written.
\<close>

definition history_save_checked_sync :: "bool \<Rightarrow> bool \<Rightarrow> 'a history_saver \<Rightarrow> 'a history_saver" where
  "history_save_checked_sync created ok s =
     (if \<not> sv_dirty s \<or> \<not> created then s
      else
        let generation = sv_mutation_generation s;
            s = note_scheduled generation s
        in if superseded generation s then
             (if generation \<le> latest_written s then s\<lparr>sv_dirty := False\<rparr> else s)
           else if \<not> ok then s
           else write_file generation (sv_content s) s\<lparr>sv_dirty := False\<rparr>)"

definition lsm_history_save :: "bool \<Rightarrow> bool \<Rightarrow> 'a history_saver \<Rightarrow> 'a history_saver" where
  "lsm_history_save created ok s =
     (if \<not> sv_dirty s then s
      else if sv_load_pending s then s\<lparr>sv_save_again := True\<rparr>
      else if \<not> sv_coordinator s then history_save_checked_sync created ok s
      else if sv_save_pending s then s\<lparr>sv_save_again := True\<rparr>
      else if \<not> created then s
      else note_scheduled (sv_mutation_generation s) s
        \<lparr>sv_save_pending := True, sv_task := Queued (sv_mutation_generation s) (sv_content s)\<rparr>)"

definition save_if_again :: "bool \<Rightarrow> bool \<Rightarrow> 'a history_saver \<Rightarrow> 'a history_saver" where
  "save_if_again created ok s =
     (if sv_save_again s \<and> \<not> sv_shut_down s
      then lsm_history_save created ok (s\<lparr>sv_save_again := False\<rparr>) else s)"

definition save_result :: "u32 \<Rightarrow> bool \<Rightarrow> bool \<Rightarrow> 'a history_saver \<Rightarrow> 'a history_saver" where
  "save_result generation failed written s =
     s\<lparr>sv_task := No_Task, sv_save_pending := False,
       sv_dirty := (if \<not> failed \<and> written \<and> generation = sv_mutation_generation s
         then False else sv_dirty s)\<rparr>"

definition history_save_complete :: "bool \<Rightarrow> bool \<Rightarrow> 'a history_saver \<Rightarrow> 'a history_saver" where
  "history_save_complete created ok s =
     (case sv_task s of
        Done generation failed written \<Rightarrow>
          save_if_again created ok (save_result generation failed written s)
      | _ \<Rightarrow> s)"

text \<open>
  \<^verbatim>\<open>history_load_complete\<close>: \<open>Some (content, changed)\<close> is the merged table and whether it must be
  rewritten, \<open>None\<close> a failed load.
\<close>

definition load_result :: "('a \<times> bool) option \<Rightarrow> 'a history_saver \<Rightarrow> 'a history_saver" where
  "load_result result s =
     (case result of
        None \<Rightarrow> s\<lparr>sv_load_pending := False\<rparr>
      | Some (content, changed) \<Rightarrow>
          let s = s\<lparr>sv_load_pending := False, sv_loaded := True, sv_content := content\<rparr>
          in if changed then saver_mark_dirty s else s)"

definition history_load_complete ::
    "bool \<Rightarrow> bool \<Rightarrow> ('a \<times> bool) option \<Rightarrow> 'a history_saver \<Rightarrow> 'a history_saver" where
  "history_load_complete created ok result s = save_if_again created ok (load_result result s)"

subsection \<open>The worker and the coordinator\<close>

text \<open>The first check, the directory and the text; \<open>ok\<close> is their outcome.\<close>

definition request_check :: "bool \<Rightarrow> 'a history_saver \<Rightarrow> 'a history_saver" where
  "request_check ok s =
     (case sv_task s of
        Queued generation content \<Rightarrow>
          s\<lparr>sv_task := (if superseded generation s then Done generation False False
             else if \<not> ok then Done generation True False else Checked generation content)\<rparr>
      | _ \<Rightarrow> s)"

text \<open>The second check and the atomic file replacement, under the mutex.\<close>

definition request_commit :: "bool \<Rightarrow> 'a history_saver \<Rightarrow> 'a history_saver" where
  "request_commit ok s =
     (case sv_task s of
        Checked generation content \<Rightarrow>
          if superseded generation s then s\<lparr>sv_task := Done generation False False\<rparr>
          else if \<not> ok then s\<lparr>sv_task := Done generation True False\<rparr>
          else write_file generation content s\<lparr>sv_task := Done generation False True\<rparr>
      | _ \<Rightarrow> s)"

text \<open>The page is torn down: a last save unless the load is still pending, then no GUI side is left.\<close>

definition lsm_history_destroy :: "bool \<Rightarrow> bool \<Rightarrow> 'a history_saver \<Rightarrow> 'a history_saver" where
  "lsm_history_destroy created ok s =
     (if sv_dirty s \<and> \<not> sv_load_pending s then history_save_checked_sync created ok s else s)
       \<lparr>sv_shut_down := True, sv_load_pending := False, sv_save_pending := False,
        sv_save_again := False\<rparr>"

text \<open>
  A step of the system. A load that changes nothing and finds an untouched table yields what is on
  disk.
\<close>

inductive saver_step :: "'a history_saver \<Rightarrow> 'a history_saver \<Rightarrow> bool" where
  mutate: "\<not> sv_shut_down s \<Longrightarrow> sv_mutation_generation s < UINT_MAX \<Longrightarrow>
    saver_step s (saver_mark_dirty (s\<lparr>sv_content := content\<rparr>))"
| save: "\<not> sv_shut_down s \<Longrightarrow> saver_step s (lsm_history_save created ok s)"
| loaded: "\<not> sv_shut_down s \<Longrightarrow> sv_load_pending s \<Longrightarrow> sv_mutation_generation s < UINT_MAX \<Longrightarrow>
    (\<And>content. result = Some (content, False) \<Longrightarrow> \<not> sv_dirty s \<Longrightarrow> content = sv_disk s) \<Longrightarrow>
    saver_step s (history_load_complete created ok result s)"
| completed: "\<not> sv_shut_down s \<Longrightarrow> saver_step s (history_save_complete created ok s)"
| check: "saver_step s (request_check ok s)"
| commit: "saver_step s (request_commit ok s)"
| destroy: "\<not> sv_shut_down s \<Longrightarrow> saver_step s (lsm_history_destroy created ok s)"

definition saver_reachable :: "'a history_saver \<Rightarrow> bool" where
  "saver_reachable s \<longleftrightarrow>
     (\<exists>coordinator blank disk. saver_step\<^sup>*\<^sup>* (initial_saver coordinator blank disk) s)"

subsection \<open>The invariant\<close>

text \<open>
  A request that carries the current generation carries the current content, and a result that says
  \<open>written\<close> is the latest write.
\<close>

fun task_ok :: "'a history_saver \<Rightarrow> 'a save_task \<Rightarrow> bool" where
  "task_ok s No_Task \<longleftrightarrow> True"
| "task_ok s (Queued g x) \<longleftrightarrow> 0 < g \<and> g \<le> sv_mutation_generation s \<and>
     (g = sv_mutation_generation s \<longrightarrow> x = sv_content s)"
| "task_ok s (Checked g x) \<longleftrightarrow> 0 < g \<and> g \<le> sv_mutation_generation s \<and>
     (g = sv_mutation_generation s \<longrightarrow> x = sv_content s)"
| "task_ok s (Done g failed written) \<longleftrightarrow>
     (written \<longrightarrow> \<not> failed \<and> 0 < g \<and> (sv_shut_down s \<or> g = sv_latest_written s))"

fun task_written :: "'a save_task \<Rightarrow> bool" where
  "task_written (Done g failed written) \<longleftrightarrow> written"
| "task_written task \<longleftrightarrow> False"

definition task_inv :: "'a history_saver \<Rightarrow> bool" where
  "task_inv s \<longleftrightarrow> task_ok s (sv_task s) \<and>
     (sv_task s \<noteq> No_Task \<longrightarrow> sv_coordinator s \<and> (sv_shut_down s \<or> sv_save_pending s)) \<and>
     (sv_load_pending s \<longrightarrow> sv_task s = No_Task \<and> sv_latest_written s = 0 \<and> \<not> sv_loaded s) \<and>
     (\<not> sv_coordinator s \<longrightarrow> sv_latest_written s = 0)"

definition disk_inv :: "'a history_saver \<Rightarrow> bool" where
  "disk_inv s \<longleftrightarrow>
     sv_latest_written s \<le> sv_mutation_generation s \<and>
     (sv_dirty s \<longrightarrow> 0 < sv_mutation_generation s) \<and>
     (sv_dirty s \<and> \<not> task_written (sv_task s) \<longrightarrow> sv_latest_written s < sv_mutation_generation s) \<and>
     (0 < sv_latest_written s \<and> sv_latest_written s = sv_mutation_generation s \<longrightarrow>
        sv_disk s = sv_content s) \<and>
     (\<not> sv_dirty s \<and> \<not> sv_load_pending s \<and> (sv_loaded s \<or> 0 < sv_mutation_generation s) \<longrightarrow>
        sv_disk s = sv_content s) \<and>
     (\<not> sv_dirty s \<and> sv_load_pending s \<longrightarrow> sv_mutation_generation s = 0) \<and>
     (\<not> sv_dirty s \<and> sv_coordinator s \<longrightarrow> sv_latest_written s = sv_mutation_generation s)"

definition saver_inv :: "'a history_saver \<Rightarrow> bool" where
  "saver_inv s \<longleftrightarrow> task_inv s \<and> disk_inv s"

lemmas saver_inv_defs = saver_inv_def task_inv_def disk_inv_def

lemma mark_dirty_generation:
  assumes "sv_mutation_generation s < UINT_MAX"
  shows "sv_mutation_generation (saver_mark_dirty s) = sv_mutation_generation s + 1"
    and "sv_mutation_generation s < sv_mutation_generation s + 1"
    and "0 < sv_mutation_generation s + 1"
proof -
  have small: "unat (sv_mutation_generation s) < 2 ^ 32 - 1"
    using assms by (simp add: word_less_nat_alt unsigned_minus_1_eq_mask mask_eq_exp_minus_1)
  show "sv_mutation_generation (saver_mark_dirty s) = sv_mutation_generation s + 1"
    using assms by (simp add: saver_mark_dirty_def)
  show "sv_mutation_generation s < sv_mutation_generation s + 1" "0 < sv_mutation_generation s + 1"
    using small by (simp_all add: word_less_nat_alt unat_word_ariths)
qed

lemma task_ok_mono:
  assumes "task_ok s task" and "sv_mutation_generation s < sv_mutation_generation s'"
    and "sv_latest_written s' = sv_latest_written s" and "sv_shut_down s' = sv_shut_down s"
  shows "task_ok s' task"
  using assms by (cases task) (auto simp: not_less)

lemma task_ok_cong:
  assumes "sv_mutation_generation s' = sv_mutation_generation s" "sv_content s' = sv_content s"
    and "sv_latest_written s' = sv_latest_written s" "sv_shut_down s \<longrightarrow> sv_shut_down s'"
    and "task_ok s task"
  shows "task_ok s' task"
  using assms by (cases task) auto

lemma mark_dirty_inv:
  assumes "saver_inv s" and "sv_mutation_generation s < UINT_MAX"
  shows "saver_inv (saver_mark_dirty (s\<lparr>sv_content := x\<rparr>))"
proof -
  let ?s = "saver_mark_dirty (s\<lparr>sv_content := x\<rparr>)"
  have gen: "sv_mutation_generation ?s = sv_mutation_generation s + 1"
    "sv_mutation_generation s < sv_mutation_generation s + 1" "0 < sv_mutation_generation s + 1"
    using mark_dirty_generation [of "s\<lparr>sv_content := x\<rparr>"] assms(2) by simp_all
  have rest: "sv_task ?s = sv_task s" "sv_latest_written ?s = sv_latest_written s" "sv_dirty ?s"
    "sv_load_pending ?s = sv_load_pending s" "sv_save_pending ?s = sv_save_pending s"
    "sv_coordinator ?s = sv_coordinator s" "sv_shut_down ?s = sv_shut_down s"
    "sv_loaded ?s = sv_loaded s"
    by (simp_all add: saver_mark_dirty_def)
  have "task_ok ?s (sv_task s)"
    using task_ok_mono [of s "sv_task s" ?s] assms(1) gen rest by (simp add: saver_inv_defs)
  then have "task_inv ?s"
    using assms(1) rest unfolding saver_inv_defs by auto
  moreover have "sv_latest_written s < sv_mutation_generation s + 1"
    using assms(1) gen(2) le_less_trans unfolding saver_inv_defs by blast
  then have "disk_inv ?s"
    using gen(1,3) rest unfolding disk_inv_def by (simp add: less_imp_le less_imp_neq)
  ultimately show ?thesis
    by (simp add: saver_inv_def)
qed

text \<open>The effect of a synchronous save and of the two outcomes of a task, on an invariant state.\<close>

lemma sync_eq:
  "history_save_checked_sync created ok s =
     (if \<not> sv_dirty s \<or> \<not> created then s
      else if sv_coordinator s \<and> sv_mutation_generation s \<le> sv_latest_written s
        then note_scheduled (sv_mutation_generation s) s\<lparr>sv_dirty := False\<rparr>
      else if \<not> ok then note_scheduled (sv_mutation_generation s) s
      else write_file (sv_mutation_generation s) (sv_content s)
        (note_scheduled (sv_mutation_generation s) s)\<lparr>sv_dirty := False\<rparr>)"
  by (simp add: history_save_checked_sync_def Let_def superseded_def latest_written_def
      note_scheduled_def)

lemma saver_inv_carry:
  assumes "sv_mutation_generation s' = sv_mutation_generation s" "sv_content s' = sv_content s"
    and "sv_latest_written s' = sv_latest_written s" "sv_shut_down s' = sv_shut_down s"
    and "sv_task s' = sv_task s" "sv_coordinator s' = sv_coordinator s" "sv_disk s' = sv_disk s"
    and "sv_save_pending s' = sv_save_pending s" "sv_load_pending s' = sv_load_pending s"
    and "sv_loaded s' = sv_loaded s" "sv_dirty s' = sv_dirty s"
    and "saver_inv s"
  shows "saver_inv s'"
proof -
  have "task_ok s' (sv_task s)"
    using assms task_ok_cong [of s' s "sv_task s"] by (simp add: saver_inv_def task_inv_def)
  then show ?thesis
    using assms(12) unfolding saver_inv_defs assms(1-11) by blast
qed

lemma note_scheduled_inv: "saver_inv s \<Longrightarrow> saver_inv (note_scheduled g s)"
  by (erule saver_inv_carry [rotated -1]) (simp_all add: note_scheduled_def)

text \<open>Only the task, the flags and the disk change below; the rest of the state is carried over.\<close>

lemma written_inv:
  assumes "saver_inv s" and "\<not> sv_load_pending s" and "sv_task s = No_Task \<or> sv_shut_down s"
    and "sv_dirty s"
  shows "saver_inv (write_file (sv_mutation_generation s) (sv_content s) s\<lparr>sv_dirty := False\<rparr>)"
    (is "saver_inv ?s")
proof -
  have "task_ok ?s (sv_task s)"
    using assms(1,3) by (cases "sv_task s") (simp_all add: saver_inv_defs write_file_def)
  then have "task_inv ?s"
    using assms(1,2) by (simp add: saver_inv_defs write_file_def)
  moreover have "disk_inv ?s"
    using assms(1,2) by (simp add: saver_inv_defs write_file_def)
  ultimately show ?thesis by (simp add: saver_inv_def)
qed

lemma clean_inv:
  assumes "saver_inv s" and "\<not> sv_load_pending s" and "sv_dirty s" and "sv_coordinator s"
    and "sv_mutation_generation s \<le> sv_latest_written s"
  shows "saver_inv (s\<lparr>sv_dirty := False\<rparr>)" (is "saver_inv ?s")
proof -
  have eq: "sv_latest_written s = sv_mutation_generation s" "0 < sv_mutation_generation s"
    using assms(1,3,5) unfolding saver_inv_defs by (blast intro: antisym)+
  have "task_ok ?s (sv_task s)"
    using assms(1) task_ok_cong [of ?s s "sv_task s"] by (simp add: saver_inv_defs)
  then have "task_inv ?s"
    using assms(1,2) by (simp add: saver_inv_defs)
  moreover have "sv_disk s = sv_content s"
    using assms(1) eq unfolding saver_inv_defs by simp
  then have "disk_inv ?s"
    using assms(1,2) eq by (simp add: saver_inv_defs)
  ultimately show ?thesis by (simp add: saver_inv_def)
qed

lemma sync_inv:
  assumes "saver_inv s" and "\<not> sv_load_pending s" and "sv_task s = No_Task \<or> sv_shut_down s"
  shows "saver_inv (history_save_checked_sync created ok s)"
proof -
  let ?n = "note_scheduled (sv_mutation_generation s) s"
  have n: "saver_inv ?n" using assms(1) by (rule note_scheduled_inv)
  have f: "sv_load_pending ?n = sv_load_pending s" "sv_task ?n = sv_task s"
    "sv_shut_down ?n = sv_shut_down s" "sv_dirty ?n = sv_dirty s"
    "sv_coordinator ?n = sv_coordinator s" "sv_content ?n = sv_content s"
    "sv_mutation_generation ?n = sv_mutation_generation s"
    "sv_latest_written ?n = sv_latest_written s"
    by (simp_all add: note_scheduled_def)
  show ?thesis
    using assms n clean_inv [OF n] written_inv [OF n] unfolding sync_eq f by simp
qed

lemma save_inv:
  assumes "saver_inv s" and "\<not> sv_shut_down s"
  shows "saver_inv (lsm_history_save created ok s)"
proof -
  let ?g = "sv_mutation_generation s"
  have again: "saver_inv (s\<lparr>sv_save_again := True\<rparr>)"
    using assms by (erule_tac saver_inv_carry [rotated -1]) simp_all
  have idle: "sv_task s = No_Task" if "\<not> sv_coordinator s \<or> \<not> sv_save_pending s"
    using assms that unfolding saver_inv_defs by blast
  have queued: "saver_inv (note_scheduled ?g s\<lparr>sv_save_pending := True, sv_task := Queued ?g (sv_content s)\<rparr>)"
    if "sv_dirty s" "\<not> sv_load_pending s" "sv_coordinator s" "\<not> sv_save_pending s"
  proof -
    let ?s = "note_scheduled ?g s\<lparr>sv_save_pending := True, sv_task := Queued ?g (sv_content s)\<rparr>"
    have "task_inv ?s" "disk_inv ?s"
      using assms that idle by (simp_all add: saver_inv_defs note_scheduled_def)
    then show ?thesis by (simp add: saver_inv_def)
  qed
  show ?thesis
    unfolding lsm_history_save_def using assms again idle queued sync_inv [OF assms(1)] by simp
qed

lemma save_if_again_inv:
  assumes "saver_inv s"
  shows "saver_inv (save_if_again created ok s)"
proof -
  have "saver_inv (s\<lparr>sv_save_again := False\<rparr>)"
    using assms by (erule_tac saver_inv_carry [rotated -1]) simp_all
  then show ?thesis using assms by (simp add: save_if_again_def save_inv)
qed

lemma complete_inv:
  assumes "saver_inv s" and "\<not> sv_shut_down s"
  shows "saver_inv (history_save_complete created ok s)"
proof (cases "sv_task s")
  case (Done g failed written)
  let ?s = "save_result g failed written s"
  have "task_inv ?s"
    using assms(1) unfolding saver_inv_defs by (simp add: save_result_def)
  moreover have latest: "written \<longrightarrow> \<not> failed \<and> 0 < g \<and> g = sv_latest_written s"
    using assms Done by (auto simp: saver_inv_def task_inv_def)
  moreover have "disk_inv ?s"
  proof (cases "written \<and> g = sv_mutation_generation s")
    case True
    then have "sv_latest_written s = sv_mutation_generation s" "0 < sv_mutation_generation s" "\<not> failed"
      using latest by auto
    then show ?thesis using assms(1) True Done unfolding saver_inv_defs save_result_def by simp
  next
    case False
    have "sv_latest_written s < sv_mutation_generation s" if "sv_dirty s"
    proof (cases written)
      case True
      then have "sv_latest_written s = g" "sv_latest_written s \<le> sv_mutation_generation s"
        using latest assms unfolding saver_inv_defs by simp_all
      then show ?thesis using True False by (simp add: order_less_le)
    next
      case False
      then show ?thesis using assms Done that unfolding saver_inv_defs by simp
    qed
    moreover have "?s = s\<lparr>sv_task := No_Task, sv_save_pending := False\<rparr>"
      using False by (auto simp: save_result_def)
    ultimately show ?thesis using assms(1) by (simp add: saver_inv_def disk_inv_def) blast
  qed
  ultimately have "saver_inv ?s" by (simp add: saver_inv_def)
  then show ?thesis by (simp add: history_save_complete_def Done save_if_again_inv)
qed (use assms in \<open>simp_all add: history_save_complete_def\<close>)

lemma load_inv:
  assumes "saver_inv s" and "sv_load_pending s" and "sv_mutation_generation s < UINT_MAX"
    and "\<And>content. result = Some (content, False) \<Longrightarrow> \<not> sv_dirty s \<Longrightarrow> content = sv_disk s"
  shows "saver_inv (load_result result s)"
proof (cases result)
  case None
  have "task_inv (s\<lparr>sv_load_pending := False\<rparr>)" "disk_inv (s\<lparr>sv_load_pending := False\<rparr>)"
    using assms(1,2) by (auto simp: saver_inv_defs)
  then show ?thesis by (simp add: load_result_def None saver_inv_def)
next
  case (Some r)
  obtain x changed where r: "r = (x, changed)" by (cases r)
  let ?s = "s\<lparr>sv_load_pending := False, sv_loaded := True, sv_content := x\<rparr>"
  have idle: "sv_task s = No_Task" "sv_latest_written s = 0"
    "\<not> sv_dirty s \<Longrightarrow> sv_mutation_generation s = 0"
    using assms(1,2) unfolding saver_inv_defs by auto
  show ?thesis
  proof (cases changed)
    case False
    have "task_inv ?s" "disk_inv ?s"
      using assms(1,2,4) idle Some r False by (auto simp: saver_inv_defs)
    then show ?thesis using Some r False by (simp add: load_result_def saver_inv_def)
  next
    case True
    let ?t = "saver_mark_dirty ?s"
    have gen: "sv_mutation_generation ?t = sv_mutation_generation s + 1"
      "0 < sv_mutation_generation s + 1"
      using mark_dirty_generation [of ?s] assms(3) by simp_all
    have rest: "sv_task ?t = No_Task" "sv_latest_written ?t = 0" "sv_dirty ?t" "\<not> sv_load_pending ?t"
      using idle by (simp_all add: saver_mark_dirty_def)
    have "saver_inv ?t"
      using gen unfolding saver_inv_defs rest by (simp add: rest)
    then show ?thesis using Some r True by (simp add: load_result_def)
  qed
qed

lemma check_inv:
  assumes "saver_inv s"
  shows "saver_inv (request_check ok s)"
proof (cases "sv_task s")
  case (Queued g x)
  have "task_inv (request_check ok s)" "disk_inv (request_check ok s)"
    using assms Queued by (auto simp: saver_inv_defs request_check_def)
  then show ?thesis by (simp add: saver_inv_def)
qed (use assms in \<open>simp_all add: request_check_def\<close>)

lemma commit_inv:
  assumes "saver_inv s"
  shows "saver_inv (request_commit ok s)"
proof (cases "sv_task s")
  case (Checked g x)
  then have g: "0 < g" "g \<le> sv_mutation_generation s" "g = sv_mutation_generation s \<longrightarrow> x = sv_content s"
    and flags: "sv_coordinator s" "sv_shut_down s \<or> sv_save_pending s" "\<not> sv_load_pending s"
    using assms by (auto simp: saver_inv_def task_inv_def)
  have fresh: "sv_dirty s" if "\<not> superseded g s"
  proof (rule ccontr)
    assume "\<not> sv_dirty s"
    then have "sv_latest_written s = sv_mutation_generation s"
      using assms flags unfolding saver_inv_defs by blast
    then show False using that g flags by (simp add: superseded_def)
  qed
  have "task_inv (request_commit ok s)"
    using g flags assms Checked by (simp add: task_inv_def saver_inv_def request_commit_def write_file_def)
  moreover have "disk_inv (request_commit ok s)"
    using g flags assms Checked fresh
    by (simp add: saver_inv_defs request_commit_def write_file_def)
  ultimately show ?thesis by (simp add: saver_inv_def)
qed (use assms in \<open>simp_all add: request_commit_def\<close>)

lemma shut_inv:
  assumes "saver_inv s"
  shows "saver_inv (s\<lparr>sv_shut_down := True\<rparr>)" (is "saver_inv ?s")
proof -
  have "task_ok ?s (sv_task s)"
    using assms task_ok_cong [of ?s s "sv_task s"] by (simp add: saver_inv_def task_inv_def)
  then show ?thesis
    using assms by (auto simp: saver_inv_defs)
qed

lemma closed_inv:
  assumes "saver_inv s" and "sv_shut_down s"
  shows "saver_inv (s\<lparr>sv_load_pending := False, sv_save_pending := False, sv_save_again := False\<rparr>)"
    (is "saver_inv ?s")
proof -
  have "task_ok ?s (sv_task s)"
    using assms task_ok_cong [of ?s s "sv_task s"] by (simp add: saver_inv_def task_inv_def)
  moreover have "sv_load_pending s \<Longrightarrow> \<not> sv_dirty s \<Longrightarrow> \<not> (sv_loaded s \<or> 0 < sv_mutation_generation s)"
    using assms unfolding saver_inv_defs by auto
  ultimately show ?thesis
    using assms unfolding saver_inv_defs by auto
qed

lemma destroy_inv:
  assumes "saver_inv s"
  shows "saver_inv (lsm_history_destroy created ok s)"
proof -
  let ?shut = "\<lambda>s. s\<lparr>sv_shut_down := True\<rparr>"
  have commute: "?shut (history_save_checked_sync created ok s) =
      history_save_checked_sync created ok (?shut s)"
    by (simp add: sync_eq note_scheduled_def write_file_def)
  have "saver_inv (?shut (if sv_dirty s \<and> \<not> sv_load_pending s
      then history_save_checked_sync created ok s else s))" (is "saver_inv (?shut ?t)")
    using shut_inv [OF assms] sync_inv [OF shut_inv [OF assms]] by (simp add: commute)
  then have "saver_inv ((?shut ?t)\<lparr>sv_load_pending := False, sv_save_pending := False,
      sv_save_again := False\<rparr>)"
    by (rule closed_inv) simp
  then show ?thesis by (simp add: lsm_history_destroy_def)
qed

lemma step_inv: "saver_step s s' \<Longrightarrow> saver_inv s \<Longrightarrow> saver_inv s'"
  by (induction rule: saver_step.induct)
    (simp_all add: mark_dirty_inv save_inv save_if_again_inv load_inv history_load_complete_def
      complete_inv check_inv commit_inv destroy_inv)

lemma initial_inv: "saver_inv (initial_saver coordinator blank disk)"
  by (simp add: saver_inv_defs initial_saver_def)

lemma reachable_inv: "saver_reachable s \<Longrightarrow> saver_inv s"
  unfolding saver_reachable_def
  by (elim exE, erule rtranclp_induct) (simp_all add: initial_inv step_inv)

subsection \<open>Durability\<close>

text \<open>
  The order of the writes: the written generation never goes back, and a step that changes the file
  writes a newer generation or, without a coordinator, what the table holds.
\<close>

definition ordered_write :: "'a history_saver \<Rightarrow> 'a history_saver \<Rightarrow> bool" where
  "ordered_write s s' \<longleftrightarrow>
     sv_latest_written s \<le> sv_latest_written s' \<and>
     (sv_disk s' = sv_disk s \<or> sv_latest_written s < sv_latest_written s' \<or>
      \<not> sv_coordinator s \<and> sv_disk s' = sv_content s')"

lemma ordered_write_carry:
  assumes "ordered_write s s'" and "sv_disk t = sv_disk s"
    and "sv_latest_written t = sv_latest_written s" and "sv_coordinator t = sv_coordinator s"
  shows "ordered_write t s'"
  using assms by (simp add: ordered_write_def)

lemma ordered_write_sync: "ordered_write s (history_save_checked_sync created ok s)"
  by (auto simp: ordered_write_def sync_eq note_scheduled_def write_file_def)

lemma ordered_write_save: "ordered_write s (lsm_history_save created ok s)"
  using ordered_write_sync [of s created ok]
  by (auto simp: ordered_write_def lsm_history_save_def note_scheduled_def)

lemma ordered_write_again: "ordered_write s (save_if_again created ok s)"
  using ordered_write_save [of "s\<lparr>sv_save_again := False\<rparr>" created ok]
  by (auto simp: ordered_write_def save_if_again_def)

lemma ordered_write_complete: "ordered_write s (history_save_complete created ok s)"
proof (cases "sv_task s")
  case (Done g failed written)
  then show ?thesis
    using ordered_write_carry [OF ordered_write_again [of "save_result g failed written s"]]
    by (simp add: history_save_complete_def save_result_def)
qed (simp_all add: ordered_write_def history_save_complete_def)

lemma ordered_write_load: "ordered_write s (history_load_complete created ok result s)"
  unfolding history_load_complete_def
  by (rule ordered_write_carry [OF ordered_write_again])
    (auto simp: load_result_def saver_mark_dirty_def Let_def split: option.splits prod.splits)

lemma ordered_write_commit:
  assumes "saver_inv s"
  shows "ordered_write s (request_commit ok s)"
proof (cases "sv_task s")
  case (Checked g x)
  then have "sv_coordinator s" using assms by (simp add: saver_inv_def task_inv_def)
  then show ?thesis
    using Checked by (auto simp: ordered_write_def request_commit_def write_file_def superseded_def)
qed (simp_all add: ordered_write_def request_commit_def)

lemma ordered_write_check: "ordered_write s (request_check ok s)"
  by (cases "sv_task s") (simp_all add: ordered_write_def request_check_def)

lemma ordered_write_destroy: "ordered_write s (lsm_history_destroy created ok s)"
  using ordered_write_sync [of s created ok] by (auto simp: ordered_write_def lsm_history_destroy_def)

lemma step_ordered:
  assumes "saver_step s s'" and "saver_inv s"
  shows "ordered_write s s'"
  using assms
  by (induction rule: saver_step.induct)
    (simp_all add: ordered_write_save ordered_write_load ordered_write_complete ordered_write_check
      ordered_write_commit ordered_write_destroy, simp add: ordered_write_def saver_mark_dirty_def)

text \<open>An undisturbed save of a dirty table.\<close>

definition save_cycle :: "'a history_saver \<Rightarrow> 'a history_saver" where
  "save_cycle s = history_save_complete True True
     (request_commit True (request_check True (lsm_history_save True True s)))"

lemma save_cycle_persists:
  assumes "saver_inv s" and "sv_dirty s" and "\<not> sv_load_pending s" and "\<not> sv_save_pending s"
    and "\<not> sv_shut_down s"
  shows "\<not> sv_dirty (save_cycle s) \<and> sv_disk (save_cycle s) = sv_content s"
proof (cases "sv_coordinator s")
  case True
  have idle: "sv_task s = No_Task"
    using assms(1,4,5) unfolding saver_inv_defs by blast
  then have "sv_latest_written s < sv_mutation_generation s"
    using assms(1,2) unfolding saver_inv_defs by simp
  then show ?thesis
    using True assms(2-5)
    by (simp add: save_cycle_def lsm_history_save_def note_scheduled_def request_check_def
        superseded_def request_commit_def write_file_def history_save_complete_def save_result_def
        save_if_again_def not_le)
next
  case False
  then have idle: "sv_task s = No_Task"
    using assms(1) unfolding saver_inv_defs by blast
  then show ?thesis
    using False assms(2-5)
    by (simp add: save_cycle_def lsm_history_save_def sync_eq note_scheduled_def request_check_def
        request_commit_def write_file_def history_save_complete_def)
qed

text \<open>
  C39. In every state the program can reach, whatever the interleaving of mutations, saves, the load,
  the worker and the shutdown: a clean table whose load has finished equals the file; no step lets an
  older snapshot overwrite a newer one; and a dirty idle table is on disk after one undisturbed save.
\<close>

theorem history_save_durable:
  assumes "saver_reachable s"
  shows "(\<not> sv_dirty s \<and> \<not> sv_load_pending s \<and> (sv_loaded s \<or> 0 < sv_mutation_generation s) \<longrightarrow>
      sv_disk s = sv_content s) \<and>
    (\<forall>s'. saver_step s s' \<longrightarrow>
      sv_latest_written s \<le> sv_latest_written s' \<and>
      (sv_disk s' = sv_disk s \<or> sv_latest_written s < sv_latest_written s' \<or>
       \<not> sv_coordinator s \<and> sv_disk s' = sv_content s')) \<and>
    (sv_dirty s \<and> \<not> sv_load_pending s \<and> \<not> sv_save_pending s \<and> \<not> sv_shut_down s \<longrightarrow>
      \<not> sv_dirty (save_cycle s) \<and> sv_disk (save_cycle s) = sv_content s)"
proof (intro conjI)
  have inv: "saver_inv s" using assms by (rule reachable_inv)
  then show "\<not> sv_dirty s \<and> \<not> sv_load_pending s \<and> (sv_loaded s \<or> 0 < sv_mutation_generation s) \<longrightarrow>
      sv_disk s = sv_content s"
    unfolding saver_inv_defs by blast
  show "\<forall>s'. saver_step s s' \<longrightarrow>
      sv_latest_written s \<le> sv_latest_written s' \<and>
      (sv_disk s' = sv_disk s \<or> sv_latest_written s < sv_latest_written s' \<or>
       \<not> sv_coordinator s \<and> sv_disk s' = sv_content s')"
    using step_ordered [OF _ inv] unfolding ordered_write_def by blast
  show "sv_dirty s \<and> \<not> sv_load_pending s \<and> \<not> sv_save_pending s \<and> \<not> sv_shut_down s \<longrightarrow>
      \<not> sv_dirty (save_cycle s) \<and> sv_disk (save_cycle s) = sv_content s"
    using save_cycle_persists [OF inv] by blast
qed

text \<open>A table that was trimmed while it was loaded: dirty, idle, and one save puts it on disk.\<close>

theorem history_save_durable_witness:
  "let s = history_load_complete True True (Some (5, True)) (initial_saver True 0 (7::nat))
   in saver_reachable s \<and> sv_dirty s \<and> sv_disk s = 7 \<and> sv_disk (save_cycle s) = 5"
proof -
  let ?i = "initial_saver True 0 (7::nat)"
  let ?s = "history_load_complete True True (Some (5, True)) ?i"
  have "saver_step ?i ?s"
    by (rule saver_step.loaded) (simp_all add: initial_saver_def word_less_nat_alt unsigned_minus_1_eq_mask mask_eq_exp_minus_1)
  then have reach: "saver_reachable ?s"
    unfolding saver_reachable_def by blast
  have s: "sv_dirty ?s" "\<not> sv_load_pending ?s" "\<not> sv_save_pending ?s" "\<not> sv_shut_down ?s"
    "sv_disk ?s = 7" "sv_content ?s = 5"
    by (simp_all add: history_load_complete_def load_result_def save_if_again_def saver_mark_dirty_def
        initial_saver_def Let_def)
  then show ?thesis
    using history_save_durable [OF reach] reach by (simp add: Let_def)
qed

end
