(* ===== verification/Pci_Names.thy ===== *)
theory Pci_Names
  imports Common_Library Sorted_Arrays
begin

text \<open>
  Names of PCI devices: \<^verbatim>\<open>src/pci_names.c\<close> and the lookups of \<^verbatim>\<open>src/pci_names_data.c\<close>. The
  generated tables are a parameter, with what their header says of them as the predicate
  \<open>pci_data_ok\<close>: sorted keys, and references into the chunk they name. The override database of
  \<^verbatim>\<open>LSM_PCI_DB_PATH\<close> is an optional stream (\<open>None\<close> when unset, empty or not readable). The cache
  is the list of its used slots, oldest first.
\<close>

definition LSM_PCI_NAME_LEN :: nat where "LSM_PCI_NAME_LEN = 256"

definition LSM_PCI_CACHE_SIZE :: nat where "LSM_PCI_CACHE_SIZE = 64"

subsection \<open>The generated tables\<close>

record pci_data =
  pd_vendors :: "(u16 \<times> u32) list"
  pd_devices :: "(u32 \<times> u32) list"
  pd_chunks :: "string list"

definition name_at :: "pci_data \<Rightarrow> u32 \<Rightarrow> string option" where
  "name_at d reference =
     (let chunk = unat (drop_bit 16 reference); offset = unat (reference AND 0xffff)
      in if length (pd_chunks d) \<le> chunk then None
         else Some (c_str (drop offset (pd_chunks d ! chunk))))"

definition lsm_pci_data_vendor_name :: "pci_data \<Rightarrow> u16 \<Rightarrow> string option" where
  "lsm_pci_data_vendor_name d vendor_id =
     (let records = pd_vendors d;
          low = lower_bound (map fst records) vendor_id 0 (length records)
      in if length records \<le> low \<or> fst (records ! low) \<noteq> vendor_id then None
         else name_at d (snd (records ! low)))"

definition device_key :: "u16 \<Rightarrow> u16 \<Rightarrow> u32" where
  "device_key vendor_id device_id = push_bit 16 (ucast vendor_id) OR ucast device_id"

definition lsm_pci_data_device_name :: "pci_data \<Rightarrow> u16 \<Rightarrow> u16 \<Rightarrow> string option" where
  "lsm_pci_data_device_name d vendor_id device_id =
     (let key = device_key vendor_id device_id; records = pd_devices d;
          low = lower_bound (map fst records) key 0 (length records)
      in if length records \<le> low \<or> fst (records ! low) \<noteq> key then None
         else name_at d (snd (records ! low)))"

subsection \<open>Identifiers\<close>

text \<open>The text after white space and an optional prefix.\<close>

definition id_digits :: "common \<Rightarrow> string \<Rightarrow> string" where
  "id_digits c s =
     (let s = dropWhile (infiltratr_ascii_is_space c) s
      in if take 2 s = ''0x'' \<or> take 2 s = ''0X'' then drop 2 s else s)"

text \<open>Four hexadecimal digits, in upper case, and their value; a shorter text ends at its NUL.\<close>

definition normalise_id :: "common \<Rightarrow> string option \<Rightarrow> (string \<times> u16) option" where
  "normalise_id c input =
     (case input of
        None \<Rightarrow> None
      | Some s \<Rightarrow>
          let s = id_digits c s
          in if length s < 4 \<or> \<not> list_all (infiltratr_ascii_is_xdigit c) (take 4 s) then None
             else if dropWhile (infiltratr_ascii_is_space c) (drop 4 s) \<noteq> [] then None
             else
               let output = map (infiltratr_ascii_to_upper c) (take 4 s)
               in (case infiltratr_parse_u64 c output 16 of
                     None \<Rightarrow> None
                   | Some parsed \<Rightarrow> if 0xffff < parsed then None else Some (output, ucast parsed)))"

subsection \<open>The cache\<close>

record pci_cache_entry =
  pc_vendor_id :: string
  pc_device_id :: string
  pc_vendor :: string
  pc_product :: string
  pc_found :: bool

definition find_cached :: "string \<Rightarrow> string \<Rightarrow> pci_cache_entry list \<Rightarrow> pci_cache_entry option" where
  "find_cached vendor_id device_id cache =
     find (\<lambda>e. pc_vendor_id e = vendor_id \<and> pc_device_id e = device_id) cache"

definition blank_cache_entry :: "common \<Rightarrow> string \<Rightarrow> string \<Rightarrow> pci_cache_entry" where
  "blank_cache_entry c vendor_id device_id =
     \<lparr>pc_vendor_id = infiltratr_copy_string c 5 vendor_id,
      pc_device_id = infiltratr_copy_string c 5 device_id,
      pc_vendor = [], pc_product = [], pc_found = False\<rparr>"

definition new_cache_entry :: "common \<Rightarrow> string \<Rightarrow> string \<Rightarrow> pci_cache_entry list \<Rightarrow> pci_cache_entry list" where
  "new_cache_entry c vendor_id device_id cache =
     (if length cache < LSM_PCI_CACHE_SIZE then cache else drop 1 cache)
       @ [blank_cache_entry c vendor_id device_id]"

subsection \<open>The override database\<close>

text \<open>One \<^verbatim>\<open>strtok_r\<close> call: the token and the text after its delimiter.\<close>

definition strtok_r :: "(char \<Rightarrow> bool) \<Rightarrow> string \<Rightarrow> (string \<times> string) option" where
  "strtok_r delim s =
     (let t = dropWhile delim s
      in if t = [] then None
         else Some (takeWhile (\<lambda>x. \<not> delim x) t, drop 1 (dropWhile (\<lambda>x. \<not> delim x) t)))"

definition store_name :: "common \<Rightarrow> string \<Rightarrow> string \<Rightarrow> string" where
  "store_name c name old =
     (if name \<noteq> [] \<and> old = [] then infiltratr_copy_string c LSM_PCI_NAME_LEN name else old)"

text \<open>A line that is skipped is \<open>None\<close>: the test for a complete entry is not reached.\<close>

definition search_line :: "common \<Rightarrow> string \<Rightarrow> string \<Rightarrow> string \<Rightarrow> pci_cache_entry \<Rightarrow> pci_cache_entry option" where
  "search_line c vendor_id expected_key line entry =
     (let line = infiltratr_trim_line_end c line; tab = (\<lambda>x. x = TAB)
      in if line = [] \<or> hd line = CHR ''#'' then None
         else case strtok_r tab line of
           None \<Rightarrow> None
         | Some (kind, save) \<Rightarrow> (case strtok_r tab save of
             None \<Rightarrow> None
           | Some (key, save) \<Rightarrow> Some (
               if kind = ''V'' \<and> infiltratr_ascii_equal_ci c key vendor_id then
                 entry\<lparr>pc_vendor := store_name c save (pc_vendor entry)\<rparr>
               else if kind = ''D'' \<and> infiltratr_ascii_equal_ci c key expected_key then
                 (let (vendor, product) = (case strtok_r tab save of None \<Rightarrow> ([], []) | Some v \<Rightarrow> v)
                  in entry\<lparr>pc_vendor := store_name c vendor (pc_vendor entry),
                       pc_product := store_name c product (pc_product entry)\<rparr>)
               else entry)))"

fun search_lines :: "common \<Rightarrow> string \<Rightarrow> string \<Rightarrow> string list \<Rightarrow> pci_cache_entry \<Rightarrow> pci_cache_entry" where
  "search_lines c vendor_id expected_key [] entry = entry"
| "search_lines c vendor_id expected_key (line # lines) entry =
     (case search_line c vendor_id expected_key line entry of
        None \<Rightarrow> search_lines c vendor_id expected_key lines entry
      | Some entry' \<Rightarrow>
          if pc_vendor entry' \<noteq> [] \<and> pc_product entry' \<noteq> [] then entry'
          else search_lines c vendor_id expected_key lines entry')"

definition search_database_file ::
    "common \<Rightarrow> text_stream \<Rightarrow> string \<Rightarrow> string \<Rightarrow> pci_cache_entry \<Rightarrow> bool \<times> pci_cache_entry" where
  "search_database_file c database vendor_id device_id entry =
     (\<not> ts_error database,
      search_lines c vendor_id (take 9 (vendor_id @ '':'' @ device_id))
        (map c_str (fgets_chunks 1024 (ts_content database))) entry)"

subsection \<open>The lookup\<close>

definition fill_name :: "common \<Rightarrow> string option \<Rightarrow> string \<Rightarrow> string" where
  "fill_name c name old =
     (if old \<noteq> [] then old
      else case name of None \<Rightarrow> old | Some n \<Rightarrow> infiltratr_copy_string c LSM_PCI_NAME_LEN n)"

definition populate_entry ::
    "common \<Rightarrow> pci_data \<Rightarrow> text_stream option \<Rightarrow> u16 \<Rightarrow> u16 \<Rightarrow> pci_cache_entry \<Rightarrow> pci_cache_entry" where
  "populate_entry c d override vendor_id device_id entry =
     (let entry = (case override of
            None \<Rightarrow> entry
          | Some database \<Rightarrow>
              let (complete, candidate) =
                    search_database_file c database (pc_vendor_id entry) (pc_device_id entry) entry
              in if complete \<and> ts_close_ok database then
                   entry\<lparr>pc_vendor := infiltratr_copy_string c LSM_PCI_NAME_LEN (pc_vendor candidate),
                     pc_product := infiltratr_copy_string c LSM_PCI_NAME_LEN (pc_product candidate)\<rparr>
                 else entry);
          entry = entry\<lparr>pc_vendor := fill_name c (lsm_pci_data_vendor_name d vendor_id) (pc_vendor entry)\<rparr>;
          entry = entry\<lparr>pc_product :=
            fill_name c (lsm_pci_data_device_name d vendor_id device_id) (pc_product entry)\<rparr>
      in entry\<lparr>pc_found := pc_vendor entry \<noteq> [] \<or> pc_product entry \<noteq> []\<rparr>)"

record pci_request =
  rq_vendor_id :: "string option"
  rq_device_id :: "string option"
  rq_vendor_size :: nat
  rq_product_size :: nat

text \<open>The result and the two texts the caller gets, and the cache afterwards.\<close>

definition lsm_pci_names_lookup ::
    "common \<Rightarrow> pci_data \<Rightarrow> text_stream option \<Rightarrow> pci_request \<Rightarrow> pci_cache_entry list \<Rightarrow>
     (bool \<times> string \<times> string) \<times> pci_cache_entry list" where
  "lsm_pci_names_lookup c d override rq cache =
     (case (normalise_id c (rq_vendor_id rq), normalise_id c (rq_device_id rq)) of
        (Some (normal_vendor, numeric_vendor), Some (normal_device, numeric_device)) \<Rightarrow>
          let (entry, cache) = (case find_cached normal_vendor normal_device cache of
                Some entry \<Rightarrow> (entry, cache)
              | None \<Rightarrow>
                  let cache = new_cache_entry c normal_vendor normal_device cache;
                      entry = populate_entry c d override numeric_vendor numeric_device (last cache)
                  in (entry, butlast cache @ [entry]))
          in ((pc_found entry, infiltratr_copy_string c (rq_vendor_size rq) (pc_vendor entry),
               infiltratr_copy_string c (rq_product_size rq) (pc_product entry)), cache)
      | _ \<Rightarrow> ((False, [], []), cache))"

fun lookups ::
    "common \<Rightarrow> pci_data \<Rightarrow> text_stream option \<Rightarrow> pci_request list \<Rightarrow> pci_cache_entry list \<Rightarrow>
     (bool \<times> string \<times> string) list \<times> pci_cache_entry list" where
  "lookups c d override [] cache = ([], cache)"
| "lookups c d override (rq # rqs) cache =
     (let (result, cache) = lsm_pci_names_lookup c d override rq cache;
          (results, cache) = lookups c d override rqs cache
      in (result # results, cache))"

subsection \<open>Searching is looking up\<close>

text \<open>What the generator promises: strictly sorted keys, and references to a name of their chunk.\<close>

definition reference_ok :: "pci_data \<Rightarrow> u32 \<Rightarrow> bool" where
  "reference_ok d r \<longleftrightarrow> unat (drop_bit 16 r) < length (pd_chunks d) \<and>
     unat (r AND 0xffff) < length (pd_chunks d ! unat (drop_bit 16 r))"

definition pci_data_ok :: "pci_data \<Rightarrow> bool" where
  "pci_data_ok d \<longleftrightarrow>
     sorted_wrt (<) (map fst (pd_vendors d)) \<and> sorted_wrt (<) (map fst (pd_devices d)) \<and>
     list_all (\<lambda>(_, r). reference_ok d r) (pd_vendors d) \<and>
     list_all (\<lambda>(_, r). reference_ok d r) (pd_devices d)"

text \<open>The name a reference stands for.\<close>

definition referenced :: "pci_data \<Rightarrow> u32 \<Rightarrow> string" where
  "referenced d r = c_str (drop (unat (r AND 0xffff)) (pd_chunks d ! unat (drop_bit 16 r)))"

lemma name_at_ok: "reference_ok d r \<Longrightarrow> name_at d r = Some (referenced d r)"
  by (simp add: name_at_def reference_ok_def referenced_def Let_def)

lemma vendor_name_map_of:
  assumes "pci_data_ok d"
  shows "lsm_pci_data_vendor_name d v = map_option (referenced d) (map_of (pd_vendors d) v)"
proof -
  have "reference_ok d r" if "map_of (pd_vendors d) v = Some r" for r
    using assms map_of_SomeD [OF that] by (auto simp: pci_data_ok_def list_all_iff)
  then show ?thesis
    using lower_bound_map_of [of "pd_vendors d" v] assms
    by (auto simp: pci_data_ok_def lsm_pci_data_vendor_name_def Let_def name_at_ok)
qed

lemma device_name_map_of:
  assumes "pci_data_ok d"
  shows "lsm_pci_data_device_name d v p = map_option (referenced d) (map_of (pd_devices d) (device_key v p))"
proof -
  have "reference_ok d r" if "map_of (pd_devices d) (device_key v p) = Some r" for r
    using assms map_of_SomeD [OF that] by (auto simp: pci_data_ok_def list_all_iff)
  then show ?thesis
    using lower_bound_map_of [of "pd_devices d" "device_key v p"] assms
    by (auto simp: pci_data_ok_def lsm_pci_data_device_name_def Let_def name_at_ok)
qed

subsection \<open>The cache is transparent\<close>

text \<open>The answer without a cache: the override's names where it was read completely, then the tables.\<close>

definition override_names :: "common \<Rightarrow> text_stream option \<Rightarrow> string \<Rightarrow> string \<Rightarrow> string \<times> string" where
  "override_names c override vendor_id device_id =
     (case override of
        None \<Rightarrow> ([], [])
      | Some database \<Rightarrow>
          if ts_error database \<or> \<not> ts_close_ok database then ([], [])
          else
            let e = search_lines c vendor_id (vendor_id @ '':'' @ device_id)
                  (map c_str (fgets_chunks 1024 (ts_content database)))
                  (blank_cache_entry c vendor_id device_id)
            in (take 255 (pc_vendor e), take 255 (pc_product e)))"

definition name_or :: "string \<Rightarrow> string option \<Rightarrow> string" where
  "name_or preferred fallback =
     (if preferred \<noteq> [] then preferred else case fallback of None \<Rightarrow> [] | Some n \<Rightarrow> take 255 n)"

definition pci_reference ::
    "common \<Rightarrow> pci_data \<Rightarrow> text_stream option \<Rightarrow> pci_request \<Rightarrow> bool \<times> string \<times> string" where
  "pci_reference c d override rq =
     (case (normalise_id c (rq_vendor_id rq), normalise_id c (rq_device_id rq)) of
        (Some (nv, v), Some (np, p)) \<Rightarrow>
          let names = override_names c override nv np;
              vendor = name_or (fst names) (map_option (referenced d) (map_of (pd_vendors d) v));
              product = name_or (snd names) (map_option (referenced d) (map_of (pd_devices d) (device_key v p)))
          in (vendor \<noteq> [] \<or> product \<noteq> [], take (rq_vendor_size rq - 1) vendor,
              take (rq_product_size rq - 1) product)
      | _ \<Rightarrow> (False, [], []))"

lemma normalise_id_SomeD:
  assumes "normalise_id c input = Some (s, v)"
  shows "length s = 4 \<and> (\<exists>parsed. infiltratr_parse_u64 c s 16 = Some parsed \<and> v = ucast parsed)"
  using assms unfolding normalise_id_def Let_def
  by (clarsimp split: option.split_asm if_split_asm)

lemma normalise_id_unique:
  assumes "normalise_id c a = Some (s, v)" and "normalise_id c b = Some (s, w)"
  shows "v = w"
  using normalise_id_SomeD [OF assms(1)] normalise_id_SomeD [OF assms(2)] by auto

text \<open>The entry a miss creates, over the entry's identifiers.\<close>

definition filled :: "common \<Rightarrow> pci_data \<Rightarrow> text_stream option \<Rightarrow> string \<Rightarrow> string \<Rightarrow> u16 \<Rightarrow> u16 \<Rightarrow> pci_cache_entry" where
  "filled c d override nv np v p =
     (let names = override_names c override nv np;
          vendor = name_or (fst names) (map_option (referenced d) (map_of (pd_vendors d) v));
          product = name_or (snd names) (map_option (referenced d) (map_of (pd_devices d) (device_key v p)))
      in \<lparr>pc_vendor_id = nv, pc_device_id = np, pc_vendor = vendor, pc_product = product,
          pc_found = vendor \<noteq> [] \<or> product \<noteq> []\<rparr>)"

lemma populate_filled:
  assumes "common_text_ok c" and "pci_data_ok d" and "length nv = 4" and "length np = 4"
  shows "populate_entry c d override v p (blank_cache_entry c nv np) = filled c d override nv np v p"
proof -
  have copy: "infiltratr_copy_string c n s = take (n - 1) s" for n s
    using assms(1) by (simp add: common_text_ok_def)
  have fill: "fill_name c name old = name_or old name" for name old
    by (cases name) (simp_all add: fill_name_def name_or_def copy LSM_PCI_NAME_LEN_def)
  have blank: "blank_cache_entry c nv np =
      \<lparr>pc_vendor_id = nv, pc_device_id = np, pc_vendor = [], pc_product = [], pc_found = False\<rparr>"
    using assms(3,4) by (simp add: blank_cache_entry_def copy)
  show ?thesis
    unfolding populate_entry_def filled_def override_names_def search_database_file_def fill
      vendor_name_map_of [OF assms(2)] device_name_map_of [OF assms(2)] blank
    using assms(3,4) by (cases override) (simp_all add: Let_def copy LSM_PCI_NAME_LEN_def)
qed

text \<open>Every cached entry is the one its identifiers would be filled with now.\<close>

definition cache_ok :: "common \<Rightarrow> pci_data \<Rightarrow> text_stream option \<Rightarrow> pci_cache_entry list \<Rightarrow> bool" where
  "cache_ok c d override cache \<longleftrightarrow>
     length cache \<le> LSM_PCI_CACHE_SIZE \<and>
     distinct (map (\<lambda>e. (pc_vendor_id e, pc_device_id e)) cache) \<and>
     (\<forall>e \<in> set cache. \<forall>a b v p. normalise_id c a = Some (pc_vendor_id e, v) \<longrightarrow>
        normalise_id c b = Some (pc_device_id e, p) \<longrightarrow>
        e = filled c d override (pc_vendor_id e) (pc_device_id e) v p)"

lemma filled_ids [simp]:
  "pc_vendor_id (filled c d override nv np v p) = nv" "pc_device_id (filled c d override nv np v p) = np"
  by (simp_all add: filled_def Let_def)

lemma cache_ok_hit:
  assumes "cache_ok c d override cache" and "find_cached nv np cache = Some e"
    and "normalise_id c a = Some (nv, v)" and "normalise_id c b = Some (np, p)"
  shows "e = filled c d override nv np v p"
  using assms unfolding cache_ok_def find_cached_def by (auto simp: find_Some_iff)

lemma cache_ok_miss:
  assumes ok: "cache_ok c d override cache" and miss: "find_cached nv np cache = None"
    and v: "normalise_id c a = Some (nv, v)" and p: "normalise_id c b = Some (np, p)"
  shows "cache_ok c d override
    ((if length cache < LSM_PCI_CACHE_SIZE then cache else drop 1 cache) @ [filled c d override nv np v p])"
    (is "cache_ok c d override (?rest @ [?e])")
proof -
  have sub: "set ?rest \<subseteq> set cache" using set_drop_subset [of 1 cache] by auto
  have "length ?rest < LSM_PCI_CACHE_SIZE" using ok by (auto simp: cache_ok_def LSM_PCI_CACHE_SIZE_def)
  moreover have "distinct (map (\<lambda>e. (pc_vendor_id e, pc_device_id e)) ?rest)"
    using ok by (auto simp: cache_ok_def drop_map [symmetric])
  moreover have "(nv, np) \<notin> (\<lambda>e. (pc_vendor_id e, pc_device_id e)) ` set ?rest"
    using miss sub by (auto simp: find_cached_def find_None_iff)
  moreover have "?e = filled c d override nv np v' p'"
    if "normalise_id c a' = Some (nv, v')" "normalise_id c b' = Some (np, p')" for a' b' v' p'
    using normalise_id_unique [OF v that(1)] normalise_id_unique [OF p that(2)] by simp
  ultimately show ?thesis
    using ok sub unfolding cache_ok_def by auto
qed

lemma lookup_exact:
  assumes "common_text_ok c" and "pci_data_ok d" and "cache_ok c d override cache"
  shows "fst (lsm_pci_names_lookup c d override rq cache) = pci_reference c d override rq \<and>
    cache_ok c d override (snd (lsm_pci_names_lookup c d override rq cache))"
proof (cases "normalise_id c (rq_vendor_id rq) = None \<or> normalise_id c (rq_device_id rq) = None")
  case True
  then show ?thesis
    using assms(3) by (auto simp: lsm_pci_names_lookup_def pci_reference_def split: option.splits)
next
  case False
  then obtain nv v np p where ids: "normalise_id c (rq_vendor_id rq) = Some (nv, v)"
    "normalise_id c (rq_device_id rq) = Some (np, p)" by auto
  have copy: "infiltratr_copy_string c n s = take (n - 1) s" for n s
    using assms(1) by (simp add: common_text_ok_def)
  have ref: "pci_reference c d override rq = (pc_found e, take (rq_vendor_size rq - 1) (pc_vendor e),
      take (rq_product_size rq - 1) (pc_product e))" if "e = filled c d override nv np v p" for e
    using that by (simp add: pci_reference_def ids filled_def Let_def)
  show ?thesis
  proof (cases "find_cached nv np cache")
    case (Some e)
    then show ?thesis
      using ref [OF cache_ok_hit [OF assms(3) Some ids]] assms(3)
      by (simp add: lsm_pci_names_lookup_def ids copy)
  next
    case None
    have len: "length nv = 4" "length np = 4"
      using normalise_id_SomeD ids by blast+
    show ?thesis
      using ref [OF refl] cache_ok_miss [OF assms(3) None ids] populate_filled [OF assms(1,2) len]
      by (simp add: lsm_pci_names_lookup_def ids copy None new_cache_entry_def Let_def)
  qed
qed

lemma lookups_exact:
  assumes "common_text_ok c" and "pci_data_ok d" and "cache_ok c d override cache"
  shows "fst (lookups c d override rqs cache) = map (pci_reference c d override) rqs \<and>
    cache_ok c d override (snd (lookups c d override rqs cache))"
  using assms(3)
proof (induction rqs arbitrary: cache)
  case (Cons rq rqs)
  from lookup_exact [OF assms(1,2) Cons.prems, of rq] Cons.IH
  show ?case by (simp add: Let_def case_prod_beta)
qed simp

text \<open>
  C40. Looking names up through the bounded cache and the binary searches is looking them up: for any
  sequence of requests each answer is the one computed afresh from the override database and the
  tables read as finite maps, and the cache never holds more than its slots nor a pair twice.
\<close>

theorem pci_lookup_transparent:
  assumes "common_text_ok c" and "pci_data_ok d"
  shows "fst (lookups c d override requests []) = map (pci_reference c d override) requests \<and>
    length (snd (lookups c d override requests [])) \<le> LSM_PCI_CACHE_SIZE \<and>
    distinct (map (\<lambda>e. (pc_vendor_id e, pc_device_id e)) (snd (lookups c d override requests [])))"
proof -
  have "cache_ok c d override []" by (simp add: cache_ok_def)
  from lookups_exact [OF assms this] show ?thesis unfolding cache_ok_def by blast
qed

text \<open>One vendor and one device, asked for twice.\<close>

definition sample_pci :: pci_data where
  "sample_pci = \<lparr>pd_vendors = [(0x8086, 0)], pd_devices = [(0x80861237, 6)],
     pd_chunks = [''Intel'' @ [CHR 0x00] @ ''440FX'' @ [CHR 0x00]]\<rparr>"

definition sample_request :: pci_request where
  "sample_request = \<lparr>rq_vendor_id = Some ''0x8086'', rq_device_id = Some '' 1237 '', rq_vendor_size = 64,
     rq_product_size = 4\<rparr>"

theorem pci_lookup_transparent_witness:
  "pci_data_ok sample_pci \<and>
   fst (lookups ref_common sample_pci None [sample_request, sample_request] []) =
     [(True, ''Intel'', ''440''), (True, ''Intel'', ''440'')]"
proof -
  have ok: "pci_data_ok sample_pci"
    by (simp add: pci_data_ok_def reference_ok_def sample_pci_def)
  have ids: "normalise_id ref_common (Some ''0x8086'') = Some (''8086'', 0x8086)"
    "normalise_id ref_common (Some '' 1237 '') = Some (''1237'', 0x1237)"
    by (simp_all add: normalise_id_def id_digits_def ref_common_def ascii_space_def ascii_xdigit_def
        ascii_digit_def ascii_to_upper_def ref_parse_u64_def hex_value_def xdigit_value_def
        digit_value_def)
  have "pci_reference ref_common sample_pci None sample_request = (True, ''Intel'', ''440'')"
    by (simp add: pci_reference_def sample_request_def ids override_names_def name_or_def sample_pci_def
        device_key_def referenced_def c_str_def)
  then show ?thesis
    using pci_lookup_transparent [OF ref_common_ok(1) ok, of None "[sample_request, sample_request]"] ok by simp
qed

end
