(* ===== verification/Config_File.thy ===== *)
theory Config_File
  imports Common_Library
begin

text \<open>
  The settings files share a form: lines of \<^verbatim>\<open>key=value\<close> that \<^verbatim>\<open>strtok_r\<close> and
  \<^verbatim>\<open>infiltratr_config_parse_line\<close> take apart, every entry applied to the state in order. \<open>config_fold\<close>
  is that loop, with the component's own treatment of an entry as an argument.
\<close>

definition config_line :: "common \<Rightarrow> (string \<times> string \<Rightarrow> 's \<Rightarrow> 's) \<Rightarrow> 's \<Rightarrow> string \<Rightarrow> 's" where
  "config_line c f s line =
     (case infiltratr_config_parse_line c line of None \<Rightarrow> s | Some entry \<Rightarrow> f entry s)"

definition config_fold :: "common \<Rightarrow> (string \<times> string \<Rightarrow> 's \<Rightarrow> 's) \<Rightarrow> string \<Rightarrow> 's \<Rightarrow> 's" where
  "config_fold c f content s = foldl (config_line c f) s (strtok (\<lambda>x. x = LF) content)"

definition apply_entries :: "(string \<times> string \<Rightarrow> 's \<Rightarrow> 's) \<Rightarrow> (string \<times> string) list \<Rightarrow> 's \<Rightarrow> 's" where
  "apply_entries f entries s = foldl (\<lambda>s e. f e s) s entries"

definition entry_line :: "string \<times> string \<Rightarrow> string" where
  "entry_line entry = fst entry @ ''='' @ snd entry"

definition bool_text :: "bool \<Rightarrow> string" where
  "bool_text b = (if b then ''1'' else ''0'')"

lemma apply_entries_append:
  "apply_entries f (xs @ ys) s = apply_entries f ys (apply_entries f xs s)"
  by (simp add: apply_entries_def)

lemma apply_entries_Cons [simp]: "apply_entries f (e # es) s = apply_entries f es (f e s)"
  and apply_entries_Nil [simp]: "apply_entries f [] s = s"
  by (simp_all add: apply_entries_def)

lemma config_fold_invariant:
  assumes "I s" and "\<And>e s. I s \<Longrightarrow> I (f e s)"
  shows "I (config_fold c f content s)"
proof -
  have "I (foldl (config_line c f) s lines)" if "I s" for lines s
    using that by (induction lines arbitrary: s) (auto simp: config_line_def assms(2) split: option.split)
  then show ?thesis using assms(1) by (simp add: config_fold_def)
qed

lemma config_word_bool_text: "config_word (bool_text b)"
  by (simp add: bool_text_def config_word_def config_char_def ascii_digit_def)

lemma config_word_plain: "config_word s \<Longrightarrow> LF \<notin> set s \<and> NUL \<notin> set s"
  by (auto simp: config_word_def list_all_iff config_char_def ascii_digit_def)

text \<open>The entries of a file are plain words; a leading comment is skipped.\<close>

definition entries_ok :: "(string \<times> string) list \<Rightarrow> bool" where
  "entries_ok entries \<longleftrightarrow> list_all (\<lambda>(k, v). config_word k \<and> config_word v) entries"

lemma entries_ok_simps [simp]:
  "entries_ok []" "entries_ok ((k, v) # es) \<longleftrightarrow> config_word k \<and> config_word v \<and> entries_ok es"
  "entries_ok (xs @ ys) \<longleftrightarrow> entries_ok xs \<and> entries_ok ys"
  by (auto simp: entries_ok_def)

abbreviation config_text :: "string list \<Rightarrow> string" where
  "config_text lines \<equiv> concat (map (\<lambda>l. l @ [LF]) lines)"

lemma config_text_plain:
  assumes "entries_ok entries"
  shows "strtok (\<lambda>x. x = LF) (config_text (map entry_line entries)) = map entry_line entries"
    and "NUL \<notin> set (config_text (map entry_line entries))"
proof -
  have plain: "LF \<notin> set l \<and> NUL \<notin> set l \<and> l \<noteq> []" if "l \<in> set (map entry_line entries)" for l
    using that assms config_word_plain by (fastforce simp: entries_ok_def list_all_iff entry_line_def)
  show "strtok (\<lambda>x. x = LF) (config_text (map entry_line entries)) = map entry_line entries"
    using plain by (intro strtok_lines_append ballI conjI) blast+
  show "NUL \<notin> set (config_text (map entry_line entries))"
    using plain by auto
qed

lemma foldl_entry_lines:
  assumes "common_config_ok c" and "entries_ok entries"
  shows "foldl (config_line c f) s (map entry_line entries) = apply_entries f entries s"
  using assms(2)
proof (induction entries arbitrary: s)
  case (Cons e entries)
  then have "config_line c f s (entry_line e) = f e s"
    using assms(1) by (cases e) (simp add: config_line_def entry_line_def common_config_ok_def)
  then show ?case using Cons by (cases e) simp
qed simp

text \<open>Reading a file of entries applies them in order.\<close>

lemma config_fold_entries:
  assumes "common_config_ok c" and "entries_ok entries"
  shows "config_fold c f (config_text (map entry_line entries)) s = apply_entries f entries s"
  using config_text_plain(1) [OF assms(2)] foldl_entry_lines [OF assms] by (simp add: config_fold_def)

lemma config_fold_comment:
  assumes "common_config_ok c" and "entries_ok entries" and "LF \<notin> set comment"
  shows "config_fold c f (config_text ((CHR ''#'' # comment) # map entry_line entries)) s =
    apply_entries f entries s"
proof -
  have "\<forall>x\<in>set comment. x \<noteq> LF" using assms(3) by auto
  then have "strtok (\<lambda>x. x = LF) (config_text ((CHR ''#'' # comment) # map entry_line entries)) =
      (CHR ''#'' # comment) # map entry_line entries"
    using config_text_plain(1) [OF assms(2)]
      strtok_token [of "CHR ''#'' # comment" "\<lambda>x. x = LF" LF "config_text (map entry_line entries)"]
    by simp
  moreover have "config_line c f s (CHR ''#'' # comment) = s"
    using assms(1) by (simp add: config_line_def common_config_ok_def)
  ultimately show ?thesis
    using foldl_entry_lines [OF assms(1,2)] by (simp add: config_fold_def)
qed

end
