(* ===== verification/Preferences.thy ===== *)
theory Preferences
  imports Sample_History Config_File
begin

text \<open>
  The graphical preferences: defaults, the settings file and its reader (\<^verbatim>\<open>src/preferences.c\<close>).
  The record holds the fields of \<^verbatim>\<open>app->runtime\<close> and \<^verbatim>\<open>app->details\<close> that are persisted; the file
  is its text, \<open>None\<close> when it cannot be read. The GTK side of committing a dialog is left out.
\<close>

definition LSM_TAB_COUNT :: nat where "LSM_TAB_COUNT = 9"

definition LSM_TAB_OVERVIEW :: int where "LSM_TAB_OVERVIEW = 8"

definition LSM_DEFAULT_UPDATE_INTERVAL_MS :: nat where "LSM_DEFAULT_UPDATE_INTERVAL_MS = 1000"

record preferences =
  pf_update_interval_ms :: nat
  pf_filesystem_update_interval_ms :: nat
  pf_theme_mode :: nat
  pf_newer_on_right :: bool
  pf_network_use_bits :: bool
  pf_network_total_separate :: bool
  pf_network_total_use_bits :: bool
  pf_graph_smooth :: bool
  pf_cpu_stacked :: bool
  pf_memory_logarithmic :: bool
  pf_graph_data_points :: nat
  pf_process_cpu_per_core :: bool
  pf_confirm_process_actions :: bool
  pf_show_all_filesystems :: bool
  pf_process_heatmap :: bool
  pf_always_on_top :: bool
  pf_compact_summary :: bool
  pf_window_width :: int
  pf_window_height :: int
  pf_window_maximized :: bool
  pf_last_tab :: int
  pf_page_scroll :: "double list"
  pf_performance_page :: string

definition lsm_preferences_initialise_defaults :: "common \<Rightarrow> preferences" where
  "lsm_preferences_initialise_defaults c =
     \<lparr>pf_update_interval_ms = LSM_DEFAULT_UPDATE_INTERVAL_MS, pf_filesystem_update_interval_ms = 5000,
      pf_theme_mode = infiltratr_theme_system c, pf_newer_on_right = True, pf_network_use_bits = False,
      pf_network_total_separate = False, pf_network_total_use_bits = False, pf_graph_smooth = True,
      pf_cpu_stacked = False, pf_memory_logarithmic = False, pf_graph_data_points = 100,
      pf_process_cpu_per_core = False, pf_confirm_process_actions = True,
      pf_show_all_filesystems = False, pf_process_heatmap = False, pf_always_on_top = False,
      pf_compact_summary = False, pf_window_width = 1280, pf_window_height = 800,
      pf_window_maximized = False, pf_last_tab = LSM_TAB_OVERVIEW,
      pf_page_scroll = replicate LSM_TAB_COUNT (Fin 0),
      pf_performance_page = infiltratr_copy_string c 96 ''cpu''\<rparr>"

subsection \<open>Reading\<close>

definition parse_boolean :: "common \<Rightarrow> string \<Rightarrow> bool \<Rightarrow> bool" where
  "parse_boolean c value fallback =
     (case infiltratr_config_parse_bool c value of None \<Rightarrow> fallback | Some b \<Rightarrow> b)"

definition validated_theme_mode :: "common \<Rightarrow> string \<Rightarrow> nat \<Rightarrow> nat" where
  "validated_theme_mode c value fallback =
     (case infiltratr_theme_mode_parse c value of None \<Rightarrow> fallback | Some m \<Rightarrow> m)"

definition INT64_MAX :: int where "INT64_MAX = 2 ^ 63 - 1"

definition validated_interval :: "common \<Rightarrow> string \<Rightarrow> nat \<Rightarrow> nat" where
  "validated_interval c value fallback =
     (case infiltratr_parse_i64_range c value 10 0 INT64_MAX of
        None \<Rightarrow> fallback
      | Some parsed \<Rightarrow>
          if parsed \<noteq> 500 \<and> parsed \<noteq> 1000 \<and> parsed \<noteq> 2000 \<and> parsed \<noteq> 5000 then fallback else nat parsed)"

definition validated_integer :: "common \<Rightarrow> string \<Rightarrow> int \<Rightarrow> int \<Rightarrow> int \<Rightarrow> int" where
  "validated_integer c value minimum maximum fallback =
     (case infiltratr_parse_i64_range c value 10 minimum maximum of None \<Rightarrow> fallback | Some v \<Rightarrow> v)"

definition validated_double :: "common \<Rightarrow> string \<Rightarrow> double \<Rightarrow> double \<Rightarrow> double \<Rightarrow> double" where
  "validated_double c value minimum maximum fallback =
     (case infiltratr_parse_double_range c value minimum maximum of None \<Rightarrow> fallback | Some d \<Rightarrow> d)"

definition stack_char :: "char \<Rightarrow> bool" where
  "stack_char x \<longleftrightarrow> of_char x \<in> {97..122::nat} \<or> of_char x \<in> {48..57::nat} \<or> x = CHR ''-'' \<or> x = CHR ''_''"

definition valid_stack_name :: "string \<Rightarrow> bool" where
  "valid_stack_name value \<longleftrightarrow> value \<noteq> [] \<and> list_all stack_char value"

definition preference_page_scroll_index :: "common \<Rightarrow> string \<Rightarrow> nat option" where
  "preference_page_scroll_index c key =
     (if \<not> infiltratr_string_starts_with c key ''page_scroll_'' then None
      else map_option nat (infiltratr_parse_i64_range c (drop 12 key) 10 0 (int LSM_TAB_COUNT - 1)))"

text \<open>One entry of the file; the tests are in the order of the code.\<close>

definition apply_preference :: "common \<Rightarrow> string \<times> string \<Rightarrow> preferences \<Rightarrow> preferences" where
  "apply_preference c entry p =
     (case entry of (key, value) \<Rightarrow>
        if key = ''update_interval_ms'' then
          p\<lparr>pf_update_interval_ms := validated_interval c value (pf_update_interval_ms p)\<rparr>
        else if key = ''filesystem_update_interval_ms'' then
          (case infiltratr_parse_i64_range c value 10 1000 100000 of
             None \<Rightarrow> p | Some parsed \<Rightarrow> p\<lparr>pf_filesystem_update_interval_ms := nat parsed\<rparr>)
        else if key = ''theme_mode'' then
          p\<lparr>pf_theme_mode := validated_theme_mode c value (pf_theme_mode p)\<rparr>
        else if key = ''newer_on_right'' then
          p\<lparr>pf_newer_on_right := parse_boolean c value (pf_newer_on_right p)\<rparr>
        else if key = ''network_use_bits'' then
          p\<lparr>pf_network_use_bits := parse_boolean c value (pf_network_use_bits p)\<rparr>
        else if key = ''network_total_separate'' then
          p\<lparr>pf_network_total_separate := parse_boolean c value (pf_network_total_separate p)\<rparr>
        else if key = ''network_total_use_bits'' then
          p\<lparr>pf_network_total_use_bits := parse_boolean c value (pf_network_total_use_bits p)\<rparr>
        else if key = ''graph_smooth'' then
          p\<lparr>pf_graph_smooth := parse_boolean c value (pf_graph_smooth p)\<rparr>
        else if key = ''cpu_stacked'' then
          p\<lparr>pf_cpu_stacked := parse_boolean c value (pf_cpu_stacked p)\<rparr>
        else if key = ''memory_logarithmic'' then
          p\<lparr>pf_memory_logarithmic := parse_boolean c value (pf_memory_logarithmic p)\<rparr>
        else if key = ''graph_data_points'' then
          (case infiltratr_parse_i64_range c value 10 30 (int LSM_HISTORY_LENGTH) of
             None \<Rightarrow> p | Some parsed \<Rightarrow> p\<lparr>pf_graph_data_points := nat parsed\<rparr>)
        else if key = ''process_cpu_per_core'' then
          p\<lparr>pf_process_cpu_per_core := parse_boolean c value (pf_process_cpu_per_core p)\<rparr>
        else if key = ''confirm_process_actions'' then
          p\<lparr>pf_confirm_process_actions := parse_boolean c value (pf_confirm_process_actions p)\<rparr>
        else if key = ''show_all_filesystems'' then
          p\<lparr>pf_show_all_filesystems := parse_boolean c value (pf_show_all_filesystems p)\<rparr>
        else if key = ''process_heatmap'' then
          p\<lparr>pf_process_heatmap := parse_boolean c value (pf_process_heatmap p)\<rparr>
        else if key = ''always_on_top'' then
          p\<lparr>pf_always_on_top := parse_boolean c value (pf_always_on_top p)\<rparr>
        else if key = ''compact_summary'' then
          p\<lparr>pf_compact_summary := parse_boolean c value (pf_compact_summary p)\<rparr>
        else if key = ''window_width'' then
          p\<lparr>pf_window_width := validated_integer c value 320 7680 (pf_window_width p)\<rparr>
        else if key = ''window_height'' then
          p\<lparr>pf_window_height := validated_integer c value 240 4320 (pf_window_height p)\<rparr>
        else if key = ''window_maximized'' then
          p\<lparr>pf_window_maximized := parse_boolean c value (pf_window_maximized p)\<rparr>
        else if key = ''last_tab'' then
          p\<lparr>pf_last_tab := validated_integer c value 0 (int LSM_TAB_COUNT - 1) (pf_last_tab p)\<rparr>
        else if key = ''performance_page'' \<and> valid_stack_name value then
          p\<lparr>pf_performance_page := infiltratr_copy_string c 96 value\<rparr>
        else
          (case preference_page_scroll_index c key of
             None \<Rightarrow> p
           | Some i \<Rightarrow> p\<lparr>pf_page_scroll := (pf_page_scroll p)
               [i := validated_double c value (Fin 0) (Fin 1000000000) (pf_page_scroll p ! i)]\<rparr>))"

definition lsm_preferences_load :: "common \<Rightarrow> string option \<Rightarrow> preferences \<Rightarrow> preferences" where
  "lsm_preferences_load c file p =
     (case file of
        None \<Rightarrow> p
      | Some content \<Rightarrow>
          if NUL \<in> set content then p
          else config_fold c (apply_preference c) content p)"

subsection \<open>Writing\<close>

definition option_entries :: "common \<Rightarrow> preferences \<Rightarrow> (string \<times> string) list" where
  "option_entries c p =
     [(''update_interval_ms'', nat_text (pf_update_interval_ms p)),
      (''filesystem_update_interval_ms'', nat_text (pf_filesystem_update_interval_ms p)),
      (''theme_mode'', infiltratr_theme_mode_key c (pf_theme_mode p)),
      (''newer_on_right'', bool_text (pf_newer_on_right p)),
      (''network_use_bits'', bool_text (pf_network_use_bits p)),
      (''network_total_separate'', bool_text (pf_network_total_separate p)),
      (''network_total_use_bits'', bool_text (pf_network_total_use_bits p)),
      (''graph_smooth'', bool_text (pf_graph_smooth p)),
      (''cpu_stacked'', bool_text (pf_cpu_stacked p)),
      (''memory_logarithmic'', bool_text (pf_memory_logarithmic p)),
      (''graph_data_points'', nat_text (pf_graph_data_points p)),
      (''process_cpu_per_core'', bool_text (pf_process_cpu_per_core p)),
      (''confirm_process_actions'', bool_text (pf_confirm_process_actions p)),
      (''show_all_filesystems'', bool_text (pf_show_all_filesystems p)),
      (''process_heatmap'', bool_text (pf_process_heatmap p)),
      (''always_on_top'', bool_text (pf_always_on_top p)),
      (''compact_summary'', bool_text (pf_compact_summary p)),
      (''window_width'', int_text (pf_window_width p)),
      (''window_height'', int_text (pf_window_height p)),
      (''window_maximized'', bool_text (pf_window_maximized p)),
      (''last_tab'', int_text (pf_last_tab p))]"

fun scroll_entries :: "common \<Rightarrow> nat \<Rightarrow> double list \<Rightarrow> (string \<times> string) list option" where
  "scroll_entries c i [] = Some []"
| "scroll_entries c i (d # ds) =
     (case infiltratr_format_fixed_ascii c d 3 64 of
        None \<Rightarrow> None
      | Some scroll \<Rightarrow>
          map_option (\<lambda>rest. (''page_scroll_'' @ nat_text i, scroll) # rest) (scroll_entries c (i + 1) ds))"

text \<open>The text written, or \<open>None\<close> when a number cannot be formatted and the file is left as it was.\<close>

definition write_preferences :: "common \<Rightarrow> preferences \<Rightarrow> string option" where
  "write_preferences c p =
     map_option (\<lambda>scrolls.
         config_text
           (''# System Monitor graphical preferences'' #
            map entry_line (option_entries c p @ scrolls @
              [(''performance_page'',
                if pf_performance_page p \<noteq> [] then pf_performance_page p else ''cpu'')])))
       (scroll_entries c 0 (pf_page_scroll p))"

subsection \<open>Valid preferences\<close>

definition pref_ok :: "common \<Rightarrow> preferences \<Rightarrow> bool" where
  "pref_ok c p \<longleftrightarrow>
     pf_update_interval_ms p \<in> {500, 1000, 2000, 5000} \<and>
     pf_filesystem_update_interval_ms p \<in> {1000..100000} \<and>
     infiltratr_theme_mode_parse c (infiltratr_theme_mode_key c (pf_theme_mode p)) = Some (pf_theme_mode p) \<and>
     pf_graph_data_points p \<in> {30..LSM_HISTORY_LENGTH} \<and>
     pf_window_width p \<in> {320..7680} \<and> pf_window_height p \<in> {240..4320} \<and>
     pf_last_tab p \<in> {0..<int LSM_TAB_COUNT} \<and>
     length (pf_page_scroll p) = LSM_TAB_COUNT \<and>
     list_all (\<lambda>d. dle (Fin 0) d \<and> dle d (Fin 1000000000)) (pf_page_scroll p) \<and>
     valid_stack_name (pf_performance_page p) \<and> length (pf_performance_page p) < 96"

lemma pref_ok_flags [simp]:
  "pref_ok c (p\<lparr>pf_newer_on_right := b\<rparr>) = pref_ok c p"
  "pref_ok c (p\<lparr>pf_network_use_bits := b\<rparr>) = pref_ok c p"
  "pref_ok c (p\<lparr>pf_network_total_separate := b\<rparr>) = pref_ok c p"
  "pref_ok c (p\<lparr>pf_network_total_use_bits := b\<rparr>) = pref_ok c p"
  "pref_ok c (p\<lparr>pf_graph_smooth := b\<rparr>) = pref_ok c p"
  "pref_ok c (p\<lparr>pf_cpu_stacked := b\<rparr>) = pref_ok c p"
  "pref_ok c (p\<lparr>pf_memory_logarithmic := b\<rparr>) = pref_ok c p"
  "pref_ok c (p\<lparr>pf_process_cpu_per_core := b\<rparr>) = pref_ok c p"
  "pref_ok c (p\<lparr>pf_confirm_process_actions := b\<rparr>) = pref_ok c p"
  "pref_ok c (p\<lparr>pf_show_all_filesystems := b\<rparr>) = pref_ok c p"
  "pref_ok c (p\<lparr>pf_process_heatmap := b\<rparr>) = pref_ok c p"
  "pref_ok c (p\<lparr>pf_always_on_top := b\<rparr>) = pref_ok c p"
  "pref_ok c (p\<lparr>pf_compact_summary := b\<rparr>) = pref_ok c p"
  "pref_ok c (p\<lparr>pf_window_maximized := b\<rparr>) = pref_ok c p"
  by (simp_all add: pref_ok_def)

lemma valid_stack_name_take: "valid_stack_name s \<Longrightarrow> 0 < n \<Longrightarrow> valid_stack_name (take n s)"
  by (auto simp: valid_stack_name_def list_all_iff dest: in_set_takeD)

lemma pref_ok_fields:
  assumes "pref_ok c p"
  shows "n \<in> {500, 1000, 2000, 5000} \<Longrightarrow> pref_ok c (p\<lparr>pf_update_interval_ms := n\<rparr>)"
    and "1000 \<le> v \<Longrightarrow> v \<le> 100000 \<Longrightarrow> pref_ok c (p\<lparr>pf_filesystem_update_interval_ms := nat v\<rparr>)"
    and "infiltratr_theme_mode_parse c (infiltratr_theme_mode_key c m) = Some m \<Longrightarrow>
      pref_ok c (p\<lparr>pf_theme_mode := m\<rparr>)"
    and "30 \<le> v \<Longrightarrow> v \<le> int LSM_HISTORY_LENGTH \<Longrightarrow> pref_ok c (p\<lparr>pf_graph_data_points := nat v\<rparr>)"
    and "w \<in> {320..7680} \<Longrightarrow> pref_ok c (p\<lparr>pf_window_width := w\<rparr>)"
    and "w \<in> {240..4320} \<Longrightarrow> pref_ok c (p\<lparr>pf_window_height := w\<rparr>)"
    and "w \<in> {0..<int LSM_TAB_COUNT} \<Longrightarrow> pref_ok c (p\<lparr>pf_last_tab := w\<rparr>)"
    and "valid_stack_name s \<Longrightarrow> length s < 96 \<Longrightarrow> pref_ok c (p\<lparr>pf_performance_page := s\<rparr>)"
    and "dle (Fin 0) d \<Longrightarrow> dle d (Fin 1000000000) \<Longrightarrow>
      pref_ok c (p\<lparr>pf_page_scroll := (pf_page_scroll p)[i := d]\<rparr>)"
proof -
  show "pref_ok c (p\<lparr>pf_page_scroll := (pf_page_scroll p)[i := d]\<rparr>)"
    if "dle (Fin 0) d" "dle d (Fin 1000000000)"
    using assms that set_update_subset_insert [of "pf_page_scroll p" i d]
    by (auto simp: pref_ok_def list_all_iff)
qed (use assms in \<open>simp_all add: pref_ok_def nat_le_iff le_nat_iff\<close>)

lemma validated_integer_range:
  "common_signed_range_ok c \<Longrightarrow> f \<in> {lo..hi} \<Longrightarrow> validated_integer c v lo hi f \<in> {lo..hi}"
  using parse_i64_range_Some by (auto simp: validated_integer_def split: option.splits)

lemma validated_interval_range:
  "f \<in> {500, 1000, 2000, 5000} \<Longrightarrow> validated_interval c v f \<in> {500, 1000, 2000, 5000}"
  by (auto simp: validated_interval_def split: option.splits)

lemma validated_theme_mode_parses:
  "common_config_ok c \<Longrightarrow> infiltratr_theme_mode_parse c (infiltratr_theme_mode_key c f) = Some f \<Longrightarrow>
   infiltratr_theme_mode_parse c (infiltratr_theme_mode_key c (validated_theme_mode c v f)) =
     Some (validated_theme_mode c v f)"
  by (auto simp: validated_theme_mode_def common_config_ok_def split: option.splits)

lemma validated_double_range:
  "common_range_ok c \<Longrightarrow> dle lo f \<Longrightarrow> dle f hi \<Longrightarrow>
   dle lo (validated_double c v lo hi f) \<and> dle (validated_double c v lo hi f) hi"
  by (auto simp: validated_double_def common_range_ok_def split: option.splits)

lemma apply_preference_simps:
  "apply_preference c (''newer_on_right'', v) p = p\<lparr>pf_newer_on_right := parse_boolean c v (pf_newer_on_right p)\<rparr>"
  "apply_preference c (''network_use_bits'', v) p = p\<lparr>pf_network_use_bits := parse_boolean c v (pf_network_use_bits p)\<rparr>"
  "apply_preference c (''network_total_separate'', v) p = p\<lparr>pf_network_total_separate := parse_boolean c v (pf_network_total_separate p)\<rparr>"
  "apply_preference c (''network_total_use_bits'', v) p = p\<lparr>pf_network_total_use_bits := parse_boolean c v (pf_network_total_use_bits p)\<rparr>"
  "apply_preference c (''graph_smooth'', v) p = p\<lparr>pf_graph_smooth := parse_boolean c v (pf_graph_smooth p)\<rparr>"
  "apply_preference c (''cpu_stacked'', v) p = p\<lparr>pf_cpu_stacked := parse_boolean c v (pf_cpu_stacked p)\<rparr>"
  "apply_preference c (''memory_logarithmic'', v) p = p\<lparr>pf_memory_logarithmic := parse_boolean c v (pf_memory_logarithmic p)\<rparr>"
  "apply_preference c (''process_cpu_per_core'', v) p = p\<lparr>pf_process_cpu_per_core := parse_boolean c v (pf_process_cpu_per_core p)\<rparr>"
  "apply_preference c (''confirm_process_actions'', v) p = p\<lparr>pf_confirm_process_actions := parse_boolean c v (pf_confirm_process_actions p)\<rparr>"
  "apply_preference c (''show_all_filesystems'', v) p = p\<lparr>pf_show_all_filesystems := parse_boolean c v (pf_show_all_filesystems p)\<rparr>"
  "apply_preference c (''process_heatmap'', v) p = p\<lparr>pf_process_heatmap := parse_boolean c v (pf_process_heatmap p)\<rparr>"
  "apply_preference c (''always_on_top'', v) p = p\<lparr>pf_always_on_top := parse_boolean c v (pf_always_on_top p)\<rparr>"
  "apply_preference c (''compact_summary'', v) p = p\<lparr>pf_compact_summary := parse_boolean c v (pf_compact_summary p)\<rparr>"
  "apply_preference c (''window_maximized'', v) p = p\<lparr>pf_window_maximized := parse_boolean c v (pf_window_maximized p)\<rparr>"
  "apply_preference c (''update_interval_ms'', v) p =
     p\<lparr>pf_update_interval_ms := validated_interval c v (pf_update_interval_ms p)\<rparr>"
  "apply_preference c (''filesystem_update_interval_ms'', v) p =
     (case infiltratr_parse_i64_range c v 10 1000 100000 of
        None \<Rightarrow> p | Some parsed \<Rightarrow> p\<lparr>pf_filesystem_update_interval_ms := nat parsed\<rparr>)"
  "apply_preference c (''graph_data_points'', v) p =
     (case infiltratr_parse_i64_range c v 10 30 (int LSM_HISTORY_LENGTH) of
        None \<Rightarrow> p | Some parsed \<Rightarrow> p\<lparr>pf_graph_data_points := nat parsed\<rparr>)"
  "apply_preference c (''theme_mode'', v) p = p\<lparr>pf_theme_mode := validated_theme_mode c v (pf_theme_mode p)\<rparr>"
  "apply_preference c (''window_width'', v) p =
     p\<lparr>pf_window_width := validated_integer c v 320 7680 (pf_window_width p)\<rparr>"
  "apply_preference c (''window_height'', v) p =
     p\<lparr>pf_window_height := validated_integer c v 240 4320 (pf_window_height p)\<rparr>"
  "apply_preference c (''last_tab'', v) p =
     p\<lparr>pf_last_tab := validated_integer c v 0 (int LSM_TAB_COUNT - 1) (pf_last_tab p)\<rparr>"
  "valid_stack_name v \<Longrightarrow> apply_preference c (''performance_page'', v) p =
     p\<lparr>pf_performance_page := infiltratr_copy_string c 96 v\<rparr>"
  by (simp_all add: apply_preference_def)

lemma apply_preference_ok:
  assumes ok: "pref_ok c p" and "common_signed_range_ok c" "common_config_ok c" "common_range_ok c"
    "common_text_ok c"
  shows "pref_ok c (apply_preference c entry p)"
proof -
  have range: "lo \<le> x" "x \<le> hi" if "infiltratr_parse_i64_range c s 10 lo hi = Some x" for s lo hi x
    using parse_i64_range_Some [OF assms(2) that] by simp_all
  have fields: "pf_update_interval_ms p \<in> {500, 1000, 2000, 5000}"
    "infiltratr_theme_mode_parse c (infiltratr_theme_mode_key c (pf_theme_mode p)) = Some (pf_theme_mode p)"
    "pf_window_width p \<in> {320..7680}" "pf_window_height p \<in> {240..4320}"
    "pf_last_tab p \<in> {0..int LSM_TAB_COUNT - 1}"
    using ok by (simp_all add: pref_ok_def)
  have tab: "validated_integer c v 0 (int LSM_TAB_COUNT - 1) (pf_last_tab p) \<in> {0..<int LSM_TAB_COUNT}" for v
    using validated_integer_range [OF assms(2) fields(5), of v] by simp
  have scroll: "pref_ok c (p\<lparr>pf_page_scroll := (pf_page_scroll p)
      [i := validated_double c v (Fin 0) (Fin 1000000000) (pf_page_scroll p ! i)]\<rparr>)"
    if "preference_page_scroll_index c key = Some i" for key i v
  proof -
    have "i < LSM_TAB_COUNT"
      using that range by (fastforce simp: preference_page_scroll_index_def split: if_splits)
    then have "dle (Fin 0) (pf_page_scroll p ! i)" "dle (pf_page_scroll p ! i) (Fin 1000000000)"
      using ok by (simp_all add: pref_ok_def list_all_length)
    then show ?thesis
      using validated_double_range [OF assms(4)] by (intro pref_ok_fields(9) [OF ok]) blast+
  qed
  have page: "pref_ok c (p\<lparr>pf_performance_page := infiltratr_copy_string c 96 v\<rparr>)" if "valid_stack_name v" for v
    using assms(5) valid_stack_name_take [OF that, of 95] pref_ok_fields(8) [OF ok, of "take 95 v"]
    by (simp add: common_text_ok_def)
  obtain key v where "entry = (key, v)" by (cases entry)
  then show ?thesis
    unfolding apply_preference_def
    using ok validated_interval_range [OF fields(1)] validated_theme_mode_parses [OF assms(3) fields(2)]
      validated_integer_range [OF assms(2) fields(3)] validated_integer_range [OF assms(2) fields(4)]
      tab scroll page range
    by (simp add: pref_ok_fields split: option.split)
qed

lemma preferences_load_ok:
  assumes "pref_ok c p" and "common_signed_range_ok c" "common_config_ok c" "common_range_ok c"
    "common_text_ok c"
  shows "pref_ok c (lsm_preferences_load c file p)"
proof -
  have "pref_ok c (config_fold c (apply_preference c) content p)" for content
    by (rule config_fold_invariant [of "pref_ok c"]) (simp_all add: assms apply_preference_ok)
  then show ?thesis using assms(1) by (simp add: lsm_preferences_load_def split: option.split)
qed

lemma defaults_ok:
  "common_config_ok c \<Longrightarrow> common_text_ok c \<Longrightarrow> pref_ok c (lsm_preferences_initialise_defaults c)"
  by (simp add: pref_ok_def lsm_preferences_initialise_defaults_def common_config_ok_def common_text_ok_def
      LSM_DEFAULT_UPDATE_INTERVAL_MS_def LSM_HISTORY_LENGTH_def LSM_TAB_OVERVIEW_def LSM_TAB_COUNT_def
      valid_stack_name_def stack_char_def list_all_iff dbl_simps)

subsection \<open>The round trip\<close>

lemma parse_boolean_text: "common_config_ok c \<Longrightarrow> parse_boolean c (bool_text b) f = b"
  by (simp add: common_config_ok_def parse_boolean_def bool_text_def)

lemma validated_interval_text:
  assumes "common_signed_range_ok c" and "n \<in> {500, 1000, 2000, 5000}"
  shows "validated_interval c (nat_text n) f = n"
  using parse_i64_range_text [OF assms(1), of 0 "int n" INT64_MAX] assms(2)
  by (auto simp: int_text_nat validated_interval_def INT64_MAX_def)

lemma validated_integer_text:
  assumes "common_signed_range_ok c" and "v \<in> {lo..hi}" and "- (2 ^ 63) \<le> lo" and "hi < 2 ^ 63"
  shows "validated_integer c (int_text v) lo hi f = v"
  using parse_i64_range_text [OF assms(1), of lo v hi] assms(2-4) by (simp add: validated_integer_def)

lemma validated_theme_mode_text:
  "infiltratr_theme_mode_parse c (infiltratr_theme_mode_key c m) = Some m \<Longrightarrow>
   validated_theme_mode c (infiltratr_theme_mode_key c m) f = m"
  by (simp add: validated_theme_mode_def)

lemma nat_range_text:
  assumes "common_signed_range_ok c" and "lo \<le> int n" and "int n \<le> hi" and "0 \<le> lo" and "hi < 2 ^ 63"
  shows "infiltratr_parse_i64_range c (nat_text n) 10 lo hi = Some (int n)"
  using parse_i64_range_text [OF assms(1-3)] assms(4,5) by (simp add: int_text_nat)

lemma apply_option_entries:
  assumes ok: "pref_ok c p" and c: "common_signed_range_ok c" "common_config_ok c"
  shows "apply_entries (apply_preference c) (option_entries c p) q =
    p\<lparr>pf_page_scroll := pf_page_scroll q, pf_performance_page := pf_performance_page q\<rparr>"
proof -
  have bounds: "pf_update_interval_ms p \<in> {500, 1000, 2000, 5000}"
    "infiltratr_theme_mode_parse c (infiltratr_theme_mode_key c (pf_theme_mode p)) = Some (pf_theme_mode p)"
    "pf_window_width p \<in> {320..7680}" "pf_window_height p \<in> {240..4320}"
    "pf_last_tab p \<in> {0..int LSM_TAB_COUNT - 1}"
    using ok by (simp_all add: pref_ok_def)
  have nats: "infiltratr_parse_i64_range c (nat_text (pf_filesystem_update_interval_ms p)) 10 1000 100000 =
      Some (int (pf_filesystem_update_interval_ms p))"
    "infiltratr_parse_i64_range c (nat_text (pf_graph_data_points p)) 10 30 (int LSM_HISTORY_LENGTH) =
      Some (int (pf_graph_data_points p))"
    using ok by (auto intro!: nat_range_text [OF c(1)] simp: pref_ok_def LSM_HISTORY_LENGTH_def)
  have ints: "validated_integer c (int_text (pf_window_width p)) 320 7680 f = pf_window_width p"
    "validated_integer c (int_text (pf_window_height p)) 240 4320 f = pf_window_height p"
    "validated_integer c (int_text (pf_last_tab p)) 0 (int LSM_TAB_COUNT - 1) f = pf_last_tab p" for f
    using bounds by (auto intro!: validated_integer_text [OF c(1)] simp: LSM_TAB_COUNT_def)
  show ?thesis
    unfolding apply_entries_def option_entries_def
    by (simp add: apply_preference_simps nats ints parse_boolean_text [OF c(2)]
        validated_interval_text [OF c(1) bounds(1)] validated_theme_mode_text [OF bounds(2)])
qed

text \<open>A scroll position as it is read back from its three decimals.\<close>

definition reread_scroll :: "common \<Rightarrow> double \<Rightarrow> double option" where
  "reread_scroll c d =
     Option.bind (infiltratr_format_fixed_ascii c d 3 64)
       (\<lambda>scroll. infiltratr_parse_double_range c scroll (Fin 0) (Fin 1000000000))"

lemma page_scroll_index:
  assumes "common_signed_range_ok c" and "common_text_ok c" and "i < LSM_TAB_COUNT"
  shows "preference_page_scroll_index c (''page_scroll_'' @ nat_text i) = Some i"
proof -
  have "infiltratr_parse_i64_range c (nat_text i) 10 0 (int LSM_TAB_COUNT - 1) = Some (int i)"
    using assms(3) by (intro nat_range_text [OF assms(1)]) (simp_all add: LSM_TAB_COUNT_def)
  then show ?thesis
    using assms(2) by (simp add: preference_page_scroll_index_def common_text_ok_def starts_with_def)
qed

lemma apply_scroll_entries:
  assumes c: "common_signed_range_ok c" "common_text_ok c"
    and "\<forall>d\<in>set ds. reread_scroll c d \<noteq> None" and "i + length ds \<le> LSM_TAB_COUNT"
    and "length (pf_page_scroll q) = LSM_TAB_COUNT"
  shows "\<exists>entries. scroll_entries c i ds = Some entries \<and>
    apply_entries (apply_preference c) entries q = q\<lparr>pf_page_scroll := take i (pf_page_scroll q) @
      map (\<lambda>d. the (reread_scroll c d)) ds @ drop (i + length ds) (pf_page_scroll q)\<rparr>"
  using assms(3-5)
proof (induction ds arbitrary: i q)
  case (Cons d ds)
  let ?v = "the (reread_scroll c d)" and ?s = "pf_page_scroll q"
  let ?q = "q\<lparr>pf_page_scroll := ?s[i := ?v]\<rparr>"
  from Cons.prems(1) obtain scroll where scroll: "infiltratr_format_fixed_ascii c d 3 64 = Some scroll"
    "infiltratr_parse_double_range c scroll (Fin 0) (Fin 1000000000) = Some ?v"
    by (auto simp: reread_scroll_def bind_eq_None_conv split: option.splits)
  have i: "i < LSM_TAB_COUNT" "i < length ?s" using Cons.prems(2,3) by simp_all
  have "apply_preference c (''page_scroll_'' @ nat_text i, scroll) q = ?q"
    using page_scroll_index [OF c i(1)] by (simp add: apply_preference_def validated_double_def scroll(2))
  moreover from Cons.IH [of "i + 1" ?q] Cons.prems
  obtain entries where "scroll_entries c (i + 1) ds = Some entries"
    "apply_entries (apply_preference c) entries ?q = ?q\<lparr>pf_page_scroll := take (i + 1) (?s[i := ?v]) @
      map (\<lambda>d. the (reread_scroll c d)) ds @ drop (i + 1 + length ds) (?s[i := ?v])\<rparr>"
    by auto
  ultimately show ?case
    using i(2) by (simp add: scroll(1) apply_entries_def take_Suc_conv_app_nth drop_update_cancel)
qed (simp add: apply_entries_def)

lemma entry_words:
  assumes c: "common_config_ok c" "common_format_ok c" and "scroll_entries c i ds = Some scrolls"
  shows "entries_ok scrolls" and "entries_ok (option_entries c p)"
proof -
  have word: "config_word (''page_scroll_'' @ nat_text i)" for i
    using config_word_nat_text [of i] by (simp add: config_word_def config_char_def)
  show "entries_ok scrolls"
    using assms(3)
  proof (induction ds arbitrary: i scrolls)
    case (Cons d ds)
    from Cons.prems obtain scroll rest where
      "infiltratr_format_fixed_ascii c d 3 64 = Some scroll" "scroll_entries c (i + 1) ds = Some rest"
      "scrolls = (''page_scroll_'' @ nat_text i, scroll) # rest"
      by (auto split: option.splits)
    then show ?case
      using word [of i] config_word_format [OF c(2)] Cons.IH [of "i + 1" rest] by simp
  qed simp
  have "list_all (\<lambda>(k, v). config_word k) (option_entries c p)"
    by (simp add: option_entries_def config_word_def config_char_def)
  moreover have "config_word (infiltratr_theme_mode_key c m)" for m
    using c(1) by (simp add: common_config_ok_def)
  ultimately show "entries_ok (option_entries c p)"
    by (simp add: option_entries_def config_word_nat_text config_word_int_text config_word_bool_text)
qed

lemma config_word_stack: "valid_stack_name s \<Longrightarrow> config_word s"
  by (auto simp: valid_stack_name_def config_word_def list_all_iff stack_char_def config_char_def
      ascii_digit_def)

text \<open>
  C3. Saving and loading preferences is the identity: whatever valid preferences are written, loading
  the file over any other valid preferences gives them back, the scroll positions as their three
  decimals say.
\<close>

theorem preferences_roundtrip:
  assumes "common_signed_range_ok c" "common_config_ok c" "common_format_ok c" "common_text_ok c"
    and "pref_ok c p" and "pref_ok c q"
    and "\<forall>d \<in> set (pf_page_scroll p). reread_scroll c d \<noteq> None"
  shows "\<exists>content. write_preferences c p = Some content \<and>
    lsm_preferences_load c (Some content) q =
      p\<lparr>pf_page_scroll := map (\<lambda>d. the (reread_scroll c d)) (pf_page_scroll p)\<rparr>"
proof -
  have len: "length (pf_page_scroll p) = LSM_TAB_COUNT" "length (pf_page_scroll q) = LSM_TAB_COUNT"
    and page: "valid_stack_name (pf_performance_page p)" "length (pf_performance_page p) < 96"
    using assms(5,6) by (simp_all add: pref_ok_def)
  let ?q = "p\<lparr>pf_page_scroll := pf_page_scroll q, pf_performance_page := pf_performance_page q\<rparr>"
  let ?page = "[(''performance_page'', pf_performance_page p)]"
  obtain scrolls where scrolls: "scroll_entries c 0 (pf_page_scroll p) = Some scrolls"
    "apply_entries (apply_preference c) scrolls ?q = ?q\<lparr>pf_page_scroll := map (\<lambda>d. the (reread_scroll c d)) (pf_page_scroll p)\<rparr>"
    using apply_scroll_entries [OF assms(1,4,7), of 0 ?q] len by auto
  let ?entries = "option_entries c p @ scrolls @ ?page"
  have words: "entries_ok ?entries"
    using entry_words(1) [OF assms(2,3) scrolls(1)] entry_words(2) [OF assms(2,3) scrolls(1), of p]
      config_word_stack [OF page(1)]
    by (simp add: config_word_def [of "''performance_page''"] config_char_def)
  have "apply_entries (apply_preference c) ?page r = r\<lparr>pf_performance_page := pf_performance_page p\<rparr>" for r
    using page assms(4)
    by (simp add: apply_entries_def apply_preference_simps common_text_ok_def)
  then have "apply_entries (apply_preference c) ?entries q =
      p\<lparr>pf_page_scroll := map (\<lambda>d. the (reread_scroll c d)) (pf_page_scroll p)\<rparr>"
    unfolding apply_entries_append apply_option_entries [OF assms(5,1,2)] scrolls(2) by simp
  moreover let ?lines = "''# System Monitor graphical preferences'' # map entry_line ?entries"
  have "NUL \<notin> set (config_text ?lines)"
    using config_text_plain(2) [OF words] by simp
  ultimately have "lsm_preferences_load c (Some (config_text ?lines)) q =
      p\<lparr>pf_page_scroll := map (\<lambda>d. the (reread_scroll c d)) (pf_page_scroll p)\<rparr>"
    using config_fold_comment [OF assms(2) words, of "'' System Monitor graphical preferences''"
        "apply_preference c" q]
    by (simp add: lsm_preferences_load_def)
  moreover have "write_preferences c p = Some (config_text ?lines)"
    using page(1) by (simp add: write_preferences_def scrolls(1) valid_stack_name_def)
  ultimately show ?thesis by blast
qed

text \<open>Preferences that differ from the defaults, written and read over the defaults.\<close>

definition sample_preferences :: preferences where
  "sample_preferences = (lsm_preferences_initialise_defaults ref_common)
     \<lparr>pf_update_interval_ms := 500, pf_graph_smooth := False, pf_last_tab := 3,
      pf_performance_page := ''disk-sda''\<rparr>"

lemma reread_scroll_zero: "reread_scroll ref_common (Fin 0) = Some (Fin 0)"
proof -
  have "ref_format (Fin 0) 3 64 = Some ''0.000''" by code_simp
  moreover have "ref_parse_double_range ''0.000'' (Fin 0) (Fin 1000000000) = Some (Fin 0)"
    by (simp add: ref_parse_double_range_def strchr_split_def ascii_digit_def decimal_value_def
        digit_value_def dbl_simps)
  ultimately show ?thesis by (simp add: reread_scroll_def ref_common_def)
qed

theorem preferences_roundtrip_witness:
  "\<exists>content. write_preferences ref_common sample_preferences = Some content \<and>
     lsm_preferences_load ref_common (Some content) (lsm_preferences_initialise_defaults ref_common) =
       sample_preferences"
proof -
  let ?d = "lsm_preferences_initialise_defaults ref_common"
  have d: "pref_ok ref_common ?d" by (rule defaults_ok [OF ref_common_config_ok ref_common_ok(1)])
  then have p: "pref_ok ref_common sample_preferences"
    by (simp add: sample_preferences_def pref_ok_def LSM_TAB_COUNT_def valid_stack_name_def stack_char_def)
  have s: "pf_page_scroll sample_preferences = replicate LSM_TAB_COUNT (Fin 0)"
    by (simp add: sample_preferences_def lsm_preferences_initialise_defaults_def)
  then have r: "\<forall>x \<in> set (pf_page_scroll sample_preferences). reread_scroll ref_common x \<noteq> None"
    by (simp add: reread_scroll_zero)
  have "map (\<lambda>d. the (reread_scroll ref_common d)) (pf_page_scroll sample_preferences) =
      pf_page_scroll sample_preferences"
    by (simp add: s reread_scroll_zero)
  then have same: "sample_preferences\<lparr>pf_page_scroll := map (\<lambda>d. the (reread_scroll ref_common d))
      (pf_page_scroll sample_preferences)\<rparr> = sample_preferences"
    by simp
  from preferences_roundtrip [OF ref_common_signed_range_ok ref_common_config_ok ref_common_ok(7)
      ref_common_ok(1) p d r]
  show ?thesis unfolding same .
qed

text \<open>
  C11. Whatever a settings file contains (garbage, foreign keys, out-of-range numbers, none at all),
  the preferences after start-up are valid: known intervals, a window and a tab within their limits,
  one finite scroll position per page and a well-formed page name that fits its buffer. Valid
  preferences stay valid under every single entry applied to them and under loading any file.
\<close>

theorem preferences_always_valid:
  assumes "common_signed_range_ok c" "common_config_ok c" "common_range_ok c" "common_text_ok c"
  shows "pref_ok c (lsm_preferences_load c file (lsm_preferences_initialise_defaults c)) \<and>
    (\<forall>p. pref_ok c p \<longrightarrow>
      (\<forall>entry. pref_ok c (apply_preference c entry p)) \<and> (\<forall>any_file. pref_ok c (lsm_preferences_load c any_file p)))"
  using assms by (intro conjI allI impI preferences_load_ok apply_preference_ok defaults_ok)

theorem preferences_always_valid_witness:
  "pref_ok ref_common (lsm_preferences_load ref_common (Some ''last_tab=99'')
     (lsm_preferences_initialise_defaults ref_common)) \<and>
   pref_ok ref_common (apply_preference ref_common (''window_width'', ''7'') (lsm_preferences_initialise_defaults ref_common))"
  using preferences_always_valid [OF ref_common_signed_range_ok ref_common_config_ok ref_common_ok(5) ref_common_ok(1)]
    defaults_ok [OF ref_common_config_ok ref_common_ok(1)] by blast

end
