(* ===== verification/Column_Layout.thy ===== *)
theory Column_Layout
  imports Config_File
begin

text \<open>
  The saved layouts of the two tables with movable columns: Technical Details
  (\<^verbatim>\<open>src/details_layout.c\<close>) and File Systems (\<^verbatim>\<open>src/filesystems.c\<close>). What GTK shows of a column is
  its entry in a list: visibility, width, and the sequence of the columns in the view. Loading a
  layout moves columns one after the other behind the previous one; the model returns that sequence.
  A column's position is a \<^verbatim>\<open>gint\<close>, here an integer.
\<close>

record column_spec =
  cs_key :: string
  cs_default_visible :: bool
  cs_minimum_width :: int

record column_state =
  cl_visible :: "bool list"
  cl_widths :: "int list"
  cl_order :: "int list"

definition LSM_DETAILS_LAYOUT_VERSION :: int where "LSM_DETAILS_LAYOUT_VERSION = 5"

definition LSM_DETAILS_LAYOUT_MAX_WIDTH :: int where "LSM_DETAILS_LAYOUT_MAX_WIDTH = 2000"

definition PROC_COL_GPU_ENGINE :: int where "PROC_COL_GPU_ENGINE = 16"

definition lsm_details_column_specs :: "column_spec list" where
  "lsm_details_column_specs =
     [column_spec.make ''name'' True 170,
      column_spec.make ''pid'' True 70,
      column_spec.make ''ppid'' False 85,
      column_spec.make ''user'' True 95,
      column_spec.make ''status'' True 90,
      column_spec.make ''cpu'' True 70,
      column_spec.make ''cpu_time'' False 95,
      column_spec.make ''memory'' True 80,
      column_spec.make ''rss'' True 110,
      column_spec.make ''virtual'' False 110,
      column_spec.make ''writable'' False 115,
      column_spec.make ''shared'' False 110,
      column_spec.make ''threads'' False 70,
      column_spec.make ''read_rate'' True 90,
      column_spec.make ''write_rate'' True 90,
      column_spec.make ''gpu'' True 70,
      column_spec.make ''gpu_engine'' False 105,
      column_spec.make ''gpu_memory'' False 105,
      column_spec.make ''read_total'' False 95,
      column_spec.make ''write_total'' False 105,
      column_spec.make ''handles'' False 105,
      column_spec.make ''contexts'' False 110,
      column_spec.make ''faults'' False 90,
      column_spec.make ''priority'' False 105,
      column_spec.make ''nice'' False 65,
      column_spec.make ''security'' False 180,
      column_spec.make ''wchan'' False 145,
      column_spec.make ''cgroup'' False 220,
      column_spec.make ''unit'' False 170,
      column_spec.make ''session'' False 85,
      column_spec.make ''seat'' False 85,
      column_spec.make ''owner'' False 105,
      column_spec.make ''started'' False 145,
      column_spec.make ''elapsed'' False 100,
      column_spec.make ''executable'' False 260,
      column_spec.make ''command'' False 280]"

definition filesystem_column_specs :: "column_spec list" where
  "filesystem_column_specs =
     [column_spec.make ''source'' True 140,
      column_spec.make ''target'' True 180,
      column_spec.make ''type'' True 85,
      column_spec.make ''total'' True 90,
      column_spec.make ''free'' False 90,
      column_spec.make ''available'' True 90,
      column_spec.make ''used'' True 90,
      column_spec.make ''use'' True 70]"

subsection \<open>The pieces both layouts use\<close>

definition layout_identity_order :: "nat \<Rightarrow> int list" where
  "layout_identity_order n = map int [0..<n]"

fun order_check :: "nat \<Rightarrow> bool list \<Rightarrow> int list \<Rightarrow> bool" where
  "order_check n seen [] \<longleftrightarrow> True"
| "order_check n seen (position # order) \<longleftrightarrow>
     (if position < 0 \<or> int n \<le> position \<or> seen ! nat position then False
      else order_check n (seen[nat position := True]) order)"

definition layout_order_is_permutation :: "nat \<Rightarrow> int list \<Rightarrow> bool" where
  "layout_order_is_permutation n order \<longleftrightarrow> order_check n (replicate n False) order"

definition layout_boolean :: "common \<Rightarrow> string \<Rightarrow> bool \<Rightarrow> bool" where
  "layout_boolean c value fallback =
     (case infiltratr_config_parse_bool c value of None \<Rightarrow> fallback | Some b \<Rightarrow> b)"

definition layout_integer :: "common \<Rightarrow> string \<Rightarrow> int \<Rightarrow> int \<Rightarrow> int \<Rightarrow> int" where
  "layout_integer c value minimum maximum fallback =
     (case infiltratr_parse_i64_range c value 10 minimum maximum of None \<Rightarrow> fallback | Some v \<Rightarrow> v)"

text \<open>The positions of the columns of the view, entered into the order one by one.\<close>

fun view_order :: "nat \<Rightarrow> nat list \<Rightarrow> int list \<Rightarrow> int list" where
  "view_order position [] order = order"
| "view_order position (column # columns) order =
     view_order (position + 1) columns (order[column := int position])"

text \<open>The search for the column an entry belongs to; \<open>least\<close> is the smallest width accepted for it.\<close>

fun column_entry ::
    "common \<Rightarrow> (column_spec \<Rightarrow> int) \<Rightarrow> nat \<Rightarrow> nat \<Rightarrow> column_spec list \<Rightarrow> string \<times> string \<Rightarrow>
     column_state \<Rightarrow> column_state" where
  "column_entry c least n i [] entry st = st"
| "column_entry c least n i (spec # specs) entry st =
     (let key = fst entry; value = snd entry
      in if key = cs_key spec then
           st\<lparr>cl_visible := (cl_visible st)[i := layout_boolean c value (cl_visible st ! i)]\<rparr>
         else if key = take 63 (''width.'' @ cs_key spec) then
           st\<lparr>cl_widths := (cl_widths st)
             [i := layout_integer c value (least spec) LSM_DETAILS_LAYOUT_MAX_WIDTH (cl_widths st ! i)]\<rparr>
         else if key = take 63 (''order.'' @ cs_key spec) then
           st\<lparr>cl_order := (cl_order st)[i := layout_integer c value 0 (int n - 1) (cl_order st ! i)]\<rparr>
         else column_entry c least n (i + 1) specs entry st)"

definition default_columns :: "column_spec list \<Rightarrow> column_state" where
  "default_columns specs =
     \<lparr>cl_visible = map cs_default_visible specs, cl_widths = map cs_minimum_width specs,
      cl_order = layout_identity_order (length specs)\<rparr>"

text \<open>For every position the first column that asks for it is moved behind the previous one.\<close>

definition arrange :: "nat \<Rightarrow> int list \<Rightarrow> nat list" where
  "arrange n order =
     concat (map (\<lambda>position. case find (\<lambda>i. order ! i = int position) [0..<n] of
         None \<Rightarrow> [] | Some i \<Rightarrow> [i]) [0..<n])"

definition column_entries :: "column_spec list \<Rightarrow> bool list \<Rightarrow> int list \<Rightarrow> int list \<Rightarrow> (string \<times> string) list" where
  "column_entries specs visible widths order =
     concat (map (\<lambda>i.
       [(cs_key (specs ! i), bool_text (visible ! i)),
        (''width.'' @ cs_key (specs ! i), int_text (widths ! i)),
        (''order.'' @ cs_key (specs ! i), int_text (order ! i))]) [0..<length specs])"

text \<open>The sort state of a view: column and whether descending.\<close>

definition sort_entries :: "(int \<times> bool) option \<Rightarrow> (string \<times> string) list" where
  "sort_entries sorting =
     (case sorting of
        None \<Rightarrow> []
      | Some (column, descending) \<Rightarrow>
          [(''sort_column'', int_text column),
           (''sort_order'', if descending then ''descending'' else ''ascending'')])"

definition sort_order :: "string \<Rightarrow> bool \<Rightarrow> bool" where
  "sort_order value descending =
     (if value = ''descending'' then True else if value = ''ascending'' then False else descending)"

subsection \<open>Technical Details\<close>

record details_layout =
  dl_version :: int
  dl_tree_mode :: bool
  dl_scope :: int
  dl_heatmap :: bool
  dl_sort_column :: int
  dl_descending :: bool
  dl_columns :: column_state

definition details_entry :: "common \<Rightarrow> string \<times> string \<Rightarrow> details_layout \<Rightarrow> details_layout" where
  "details_entry c entry l =
     (let key = fst entry; value = snd entry; n = length lsm_details_column_specs
      in if key = ''layout_version'' then
           l\<lparr>dl_version := layout_integer c value 0 (2 ^ 31 - 1) (dl_version l)\<rparr>
         else if key = ''tree'' then l\<lparr>dl_tree_mode := layout_boolean c value (dl_tree_mode l)\<rparr>
         else if key = ''scope'' then l\<lparr>dl_scope := layout_integer c value 0 2 (dl_scope l)\<rparr>
         else if key = ''heatmap'' then l\<lparr>dl_heatmap := layout_boolean c value (dl_heatmap l)\<rparr>
         else if key = ''sort_column'' then
           l\<lparr>dl_sort_column := layout_integer c value 0 (int n - 1) (dl_sort_column l)\<rparr>
         else if key = ''sort_order'' then l\<lparr>dl_descending := sort_order value (dl_descending l)\<rparr>
         else l\<lparr>dl_columns :=
           column_entry c cs_minimum_width n 0 lsm_details_column_specs entry (dl_columns l)\<rparr>)"

text \<open>Older files: their sort column numbers and orders belong to other column sets.\<close>

definition migrate_layout :: "details_layout \<Rightarrow> details_layout" where
  "migrate_layout l =
     (let version = dl_version l; identity = layout_identity_order (length lsm_details_column_specs);
          l = (if version < 2 then
                 l\<lparr>dl_columns := (dl_columns l)\<lparr>cl_visible := map cs_default_visible lsm_details_column_specs\<rparr>\<rparr>
               else l);
          l = (if version < 3 then
                 l\<lparr>dl_sort_column := (if 11 \<le> dl_sort_column l then dl_sort_column l + 3
                     else if 6 \<le> dl_sort_column l then dl_sort_column l + 1 else dl_sort_column l),
                   dl_columns := (dl_columns l)\<lparr>cl_order := identity\<rparr>\<rparr>
               else l);
          l = (if version < 4 then
                 l\<lparr>dl_sort_column := (if PROC_COL_GPU_ENGINE \<le> dl_sort_column l then dl_sort_column l + 1
                     else dl_sort_column l),
                   dl_columns := (dl_columns l)\<lparr>cl_order := identity\<rparr>\<rparr>
               else l);
          l = (if version < LSM_DETAILS_LAYOUT_VERSION then
                 l\<lparr>dl_sort_column := - 1, dl_columns := (dl_columns l)\<lparr>cl_order := identity\<rparr>\<rparr>
               else l)
      in if \<not> layout_order_is_permutation (length lsm_details_column_specs) (cl_order (dl_columns l))
         then l\<lparr>dl_columns := (dl_columns l)\<lparr>cl_order := identity\<rparr>\<rparr> else l)"

text \<open>The view: the modes, the columns with their sequence, and the sort order, if one is set.\<close>

record table_view =
  tv_visible :: "bool list"
  tv_widths :: "int list"
  tv_sequence :: "nat list"
  tv_sort :: "(int \<times> bool) option"

record details_view = table_view +
  tv_tree_mode :: bool
  tv_scope :: int
  tv_heatmap :: bool

definition lsm_details_layout_load :: "common \<Rightarrow> string option \<Rightarrow> details_view" where
  "lsm_details_layout_load c file =
     (let l = \<lparr>dl_version = 0, dl_tree_mode = True, dl_scope = 0, dl_heatmap = True, dl_sort_column = - 1,
            dl_descending = False, dl_columns = default_columns lsm_details_column_specs\<rparr>;
          l = (case file of None \<Rightarrow> l | Some content \<Rightarrow> config_fold c (details_entry c) (c_str content) l);
          l = migrate_layout l
      in \<lparr>tv_visible = (cl_visible (dl_columns l))[0 := True], tv_widths = cl_widths (dl_columns l),
          tv_sequence = arrange (length lsm_details_column_specs) (cl_order (dl_columns l)),
          tv_sort = (if 0 \<le> dl_sort_column l then Some (dl_sort_column l, dl_descending l) else None),
          tv_tree_mode = dl_tree_mode l, tv_scope = dl_scope l, tv_heatmap = dl_heatmap l\<rparr>)"

definition lsm_details_save_layout :: "details_view \<Rightarrow> string" where
  "lsm_details_save_layout v =
     (let n = length lsm_details_column_specs;
          order = view_order 0 (tv_sequence v) (layout_identity_order n)
      in config_text (map entry_line (
           [(''layout_version'', int_text LSM_DETAILS_LAYOUT_VERSION),
            (''tree'', bool_text (tv_tree_mode v)), (''scope'', int_text (tv_scope v)),
            (''heatmap'', bool_text (tv_heatmap v))] @
           column_entries lsm_details_column_specs (tv_visible v) (tv_widths v) order @
           sort_entries (tv_sort v))))"

subsection \<open>File Systems\<close>

record filesystem_layout =
  fl_sort_column :: int
  fl_descending :: bool
  fl_columns :: column_state

definition filesystem_entry :: "common \<Rightarrow> string \<times> string \<Rightarrow> filesystem_layout \<Rightarrow> filesystem_layout" where
  "filesystem_entry c entry l =
     (let key = fst entry; value = snd entry; n = length filesystem_column_specs
      in if key = ''sort_column'' then
           l\<lparr>fl_sort_column := layout_integer c value 0 (int n - 1) (fl_sort_column l)\<rparr>
         else if key = ''sort_order'' then l\<lparr>fl_descending := sort_order value (fl_descending l)\<rparr>
         else l\<lparr>fl_columns := column_entry c (\<lambda>_. 40) n 0 filesystem_column_specs entry (fl_columns l)\<rparr>)"

definition filesystem_columns_load :: "common \<Rightarrow> string option \<Rightarrow> table_view" where
  "filesystem_columns_load c file =
     (let l = \<lparr>fl_sort_column = - 1, fl_descending = False, fl_columns = default_columns filesystem_column_specs\<rparr>;
          l = (case file of None \<Rightarrow> l | Some content \<Rightarrow> config_fold c (filesystem_entry c) (c_str content) l)
      in \<lparr>tv_visible = cl_visible (fl_columns l), tv_widths = cl_widths (fl_columns l),
          tv_sequence = arrange (length filesystem_column_specs) (cl_order (fl_columns l)),
          tv_sort = (if 0 \<le> fl_sort_column l then Some (fl_sort_column l, fl_descending l) else None)\<rparr>)"

definition filesystem_columns_save :: "table_view \<Rightarrow> string" where
  "filesystem_columns_save v =
     (let n = length filesystem_column_specs;
          order = view_order 0 (tv_sequence v) (layout_identity_order n)
      in config_text (map entry_line (
           [(''layout_version'', ''1'')] @
           column_entries filesystem_column_specs (tv_visible v) (tv_widths v) order @
           sort_entries (tv_sort v))))"

subsection \<open>Orders are permutations\<close>

lemma order_check_iff:
  assumes "length seen = n"
  shows "order_check n seen order \<longleftrightarrow>
    distinct order \<and> (\<forall>p \<in> set order. 0 \<le> p \<and> p < int n \<and> \<not> seen ! nat p)"
  using assms
proof (induction order arbitrary: seen)
  case (Cons p order)
  show ?case
  proof (cases "0 \<le> p \<and> p < int n \<and> \<not> seen ! nat p")
    case True
    then have "(seen[nat p := True]) ! nat q \<longleftrightarrow> q = p \<or> seen ! nat q" if "0 \<le> q" for q
      using that Cons.prems by (auto simp: nth_list_update eq_nat_nat_iff split: if_splits)
    then show ?thesis
      using True Cons.IH [of "seen[nat p := True]"] Cons.prems by auto
  qed auto
qed simp

lemma layout_order_is_permutation_iff:
  "layout_order_is_permutation n order \<longleftrightarrow> distinct order \<and> set order \<subseteq> {0..<int n}"
proof -
  have "\<not> replicate n False ! nat p" if "0 \<le> p" "p < int n" for p
    using that by simp
  then show ?thesis by (auto simp: layout_order_is_permutation_def order_check_iff subset_iff)
qed

lemma identity_permutation: "layout_order_is_permutation n (layout_identity_order n)"
  by (auto simp: layout_order_is_permutation_iff layout_identity_order_def distinct_map)

text \<open>With a permutation every column is moved exactly once, to its position.\<close>

lemma arrange_exact:
  assumes "length order = n" and "length columns = n" and "distinct order"
    and "\<And>j. j < n \<Longrightarrow> columns ! j < n \<and> order ! (columns ! j) = int j"
  shows "arrange n order = columns"
proof -
  have "find (\<lambda>i. order ! i = int j) [0..<n] = Some (columns ! j)" if j: "j < n" for j
  proof -
    have "i = columns ! j" if "i < n" "order ! i = int j" for i
      using assms(1,3) assms(4) [OF j] that by (metis nth_eq_iff_index_eq)
    then have "\<forall>k < columns ! j. order ! k \<noteq> int j"
      using assms(4) [OF j] by (metis less_irrefl less_trans)
    then show ?thesis
      using assms(4) [OF j] by (simp add: find_Some_iff) (rule exI [of _ "columns ! j"], simp)
  qed
  then have "map (\<lambda>j. case find (\<lambda>i. order ! i = int j) [0..<n] of None \<Rightarrow> [] | Some i \<Rightarrow> [i]) [0..<n]
      = map (\<lambda>j. [columns ! j]) [0..<n]"
    by simp
  then have "arrange n order = concat (map (\<lambda>j. [columns ! j]) [0..<n])"
    unfolding arrange_def by (rule arg_cong)
  also have "\<dots> = map ((!) columns) [0..<n]"
    by (induction n) simp_all
  finally show ?thesis using assms(2) map_nth [of columns] by simp
qed

lemma arrange_permutation:
  assumes "length order = n" and "layout_order_is_permutation n order"
  shows "distinct (arrange n order) \<and> set (arrange n order) = {0..<n} \<and> length (arrange n order) = n \<and>
    (\<forall>i<n. arrange n order ! nat (order ! i) = i)"
proof -
  have perm: "distinct order" "set order \<subseteq> {0..<int n}"
    using assms(2) by (simp_all add: layout_order_is_permutation_iff)
  have "card (set order) = card {0..<int n}"
    using perm(1) assms(1) by (simp add: distinct_card)
  then have all: "set order = {0..<int n}"
    using perm(2) by (intro card_subset_eq) simp_all
  define columns where "columns = map (\<lambda>j. THE i. i < n \<and> order ! i = int j) [0..<n]"
  have place: "columns ! j < n \<and> order ! (columns ! j) = int j" if "j < n" for j
  proof -
    have "int j \<in> set order" using all that by simp
    then obtain i where "i < n" "order ! i = int j" using assms(1) by (metis in_set_conv_nth)
    then have "\<exists>!i. i < n \<and> order ! i = int j"
      using perm(1) assms(1) by (metis nth_eq_iff_index_eq)
    from theI' [OF this] show ?thesis using that by (simp add: columns_def)
  qed
  have arr: "arrange n order = columns"
    using place by (intro arrange_exact [OF assms(1) _ perm(1)]) (simp_all add: columns_def)
  have len: "length columns = n" by (simp add: columns_def)
  have inv: "columns ! nat (order ! i) = i" if "i < n" for i
  proof -
    have "order ! i \<in> {0..<int n}" using all assms(1) that by (metis nth_mem)
    then have "nat (order ! i) < n" "int (nat (order ! i)) = order ! i" by auto
    with place [of "nat (order ! i)"] perm(1) assms(1) that show ?thesis by (metis nth_eq_iff_index_eq)
  qed
  have "distinct columns"
    using place len by (metis distinct_conv_nth of_nat_eq_iff)
  moreover have "set columns \<subseteq> {0..<n}" using place len by (auto simp: in_set_conv_nth)
  then have "set columns = {0..<n}"
    using distinct_card [OF \<open>distinct columns\<close>] len by (intro card_subset_eq) simp_all
  ultimately show ?thesis using arr len inv by simp
qed

text \<open>The order a save computes from the view puts every column at its place.\<close>

lemma view_order_nth:
  assumes "distinct columns" and "\<forall>x \<in> set columns. x < length order"
  shows "length (view_order p columns order) = length order"
    and "j < length columns \<Longrightarrow> view_order p columns order ! (columns ! j) = int (p + j)"
    and "i \<notin> set columns \<Longrightarrow> view_order p columns order ! i = order ! i"
proof -
  have all: "length (view_order p columns order) = length order \<and>
    (\<forall>j < length columns. view_order p columns order ! (columns ! j) = int (p + j)) \<and>
    (\<forall>i. i \<notin> set columns \<longrightarrow> view_order p columns order ! i = order ! i)"
    using assms
  proof (induction columns arbitrary: p order)
    case (Cons x columns)
    then have IH: "length (view_order (p + 1) columns (order[x := int p])) = length order \<and>
        (\<forall>j < length columns. view_order (p + 1) columns (order[x := int p]) ! (columns ! j) = int (p + 1 + j)) \<and>
        (\<forall>i. i \<notin> set columns \<longrightarrow> view_order (p + 1) columns (order[x := int p]) ! i = order[x := int p] ! i)"
      by simp
    show ?case
    proof (intro conjI allI impI)
      fix j assume "j < length (x # columns)"
      then show "view_order p (x # columns) order ! ((x # columns) ! j) = int (p + j)"
        using IH Cons.prems by (cases j) auto
    qed (use IH in auto)
  qed simp
  then show "length (view_order p columns order) = length order"
    "j < length columns \<Longrightarrow> view_order p columns order ! (columns ! j) = int (p + j)"
    "i \<notin> set columns \<Longrightarrow> view_order p columns order ! i = order ! i" by blast+
qed

lemma view_order_arrange:
  assumes "distinct columns" and "set columns = {0..<n}" and "length order = n"
  shows "arrange n (view_order 0 columns order) = columns"
    and "layout_order_is_permutation n (view_order 0 columns order)"
    and "length (view_order 0 columns order) = n"
proof -
  let ?o = "view_order 0 columns order"
  have len: "length columns = n" using assms(1,2) distinct_card by fastforce
  have "\<forall>x \<in> set columns. x < length order" using assms(2,3) by simp
  note vo = view_order_nth [OF assms(1) this]
  show l: "length ?o = n" using vo(1) [of 0] assms(3) by simp
  have place: "columns ! j < n \<and> ?o ! (columns ! j) = int j" if "j < n" for j
    using vo(2) [of j 0] assms(2) len that nth_mem [of j columns] by simp
  have nth: "?o ! i \<in> {0..<int n} \<and> columns ! nat (?o ! i) = i" if "i < n" for i
  proof -
    have "i \<in> set columns" using assms(2) that by simp
    then obtain j where "j < n" "columns ! j = i" using len by (metis in_set_conv_nth)
    with place [of j] show ?thesis by auto
  qed
  have dist: "distinct ?o"
    using nth l by (metis distinct_conv_nth)
  then show "layout_order_is_permutation n ?o"
    using nth l by (auto simp: layout_order_is_permutation_iff in_set_conv_nth)
  show "arrange n ?o = columns"
    using place by (intro arrange_exact [OF l len dist])
qed

subsection \<open>A table's columns and their entries\<close>

definition columns_ok :: "column_spec list \<Rightarrow> (column_spec \<Rightarrow> int) \<Rightarrow> column_state \<Rightarrow> bool" where
  "columns_ok specs least st \<longleftrightarrow>
     length (cl_visible st) = length specs \<and> length (cl_widths st) = length specs \<and>
     length (cl_order st) = length specs \<and>
     (\<forall>i < length specs. cl_widths st ! i \<in> {least (specs ! i)..LSM_DETAILS_LAYOUT_MAX_WIDTH} \<and>
        cl_order st ! i \<in> {0..int (length specs) - 1})"

lemma layout_integer_range:
  "common_signed_range_ok c \<Longrightarrow> f \<in> {lo..hi} \<Longrightarrow> layout_integer c v lo hi f \<in> {lo..hi}"
  using parse_i64_range_Some by (auto simp: layout_integer_def split: option.splits)

lemma layout_integer_text:
  assumes "common_signed_range_ok c" and "v \<in> {lo..hi}" and "- (2 ^ 63) \<le> lo" and "hi < 2 ^ 63"
  shows "layout_integer c (int_text v) lo hi f = v"
  using parse_i64_range_text [OF assms(1), of lo v hi] assms(2-4) by (simp add: layout_integer_def)

lemma layout_boolean_text: "common_config_ok c \<Longrightarrow> layout_boolean c (bool_text b) f = b"
  by (simp add: common_config_ok_def layout_boolean_def bool_text_def)

lemma column_entry_columns_ok:
  assumes "common_signed_range_ok c" and "columns_ok specs least st"
  shows "columns_ok specs least (column_entry c least (length specs) 0 specs entry st)"
proof -
  have "columns_ok specs least (column_entry c least (length specs) i (drop i specs) entry st)"
    if "i \<le> length specs" for i
    using that
  proof (induction "length specs - i" arbitrary: i)
    case (Suc k)
    then have i: "i < length specs" "drop i specs = specs ! i # drop (i + 1) specs"
      by (simp_all add: Cons_nth_drop_Suc)
    let ?w = "layout_integer c (snd entry) (least (specs ! i)) LSM_DETAILS_LAYOUT_MAX_WIDTH (cl_widths st ! i)"
    let ?o = "layout_integer c (snd entry) 0 (int (length specs) - 1) (cl_order st ! i)"
    have "?w \<in> {least (specs ! i)..LSM_DETAILS_LAYOUT_MAX_WIDTH}" "?o \<in> {0..int (length specs) - 1}"
      using assms i(1) by (intro layout_integer_range; simp add: columns_ok_def)+
    then have "columns_ok specs least (st\<lparr>cl_widths := (cl_widths st)[i := ?w]\<rparr>)"
      "columns_ok specs least (st\<lparr>cl_order := (cl_order st)[i := ?o]\<rparr>)"
      "columns_ok specs least (st\<lparr>cl_visible := (cl_visible st)[i := b]\<rparr>)" for b
      using assms(2) i(1) by (auto simp: columns_ok_def nth_list_update)
    then show ?case
      using Suc.hyps(1) [of "i + 1"] Suc.hyps(2) i by (simp add: Let_def)
  qed (simp add: assms(2))
  from this [of 0] show ?thesis by simp
qed

text \<open>
  A schema: distinct plain keys without a dot, short enough that the prefixed keys fit their buffer,
  and default widths within the accepted range.
\<close>

locale column_schema =
  fixes specs :: "column_spec list" and least :: "column_spec \<Rightarrow> int"
  assumes distinct_keys: "distinct (map cs_key specs)"
    and plain_key: "spec \<in> set specs \<Longrightarrow>
      config_word (cs_key spec) \<and> CHR ''.'' \<notin> set (cs_key spec) \<and> length (cs_key spec) \<le> 57"
    and width_range: "spec \<in> set specs \<Longrightarrow>
      0 \<le> least spec \<and> least spec \<le> cs_minimum_width spec \<and> cs_minimum_width spec \<le> LSM_DETAILS_LAYOUT_MAX_WIDTH"
    and few_columns: "length specs \<le> 100"
begin

lemma default_ok: "columns_ok specs least (default_columns specs)"
  using width_range
  by (auto simp: columns_ok_def default_columns_def layout_identity_order_def)

lemma prefixed_key:
  "spec \<in> set specs \<Longrightarrow> take 63 (''width.'' @ cs_key spec) = ''width.'' @ cs_key spec \<and>
   take 63 (''order.'' @ cs_key spec) = ''order.'' @ cs_key spec"
  using plain_key by simp

lemma key_neq_prefixed:
  assumes "spec \<in> set specs"
  shows "cs_key spec \<noteq> ''width.'' @ k" "cs_key spec \<noteq> ''order.'' @ k"
    and "''width.'' @ k \<noteq> cs_key spec" "''order.'' @ k \<noteq> cs_key spec"
proof -
  have "CHR ''.'' \<notin> set (cs_key spec)" using plain_key [OF assms] by blast
  then show "cs_key spec \<noteq> ''width.'' @ k" "cs_key spec \<noteq> ''order.'' @ k" by auto
  then show "''width.'' @ k \<noteq> cs_key spec" "''order.'' @ k \<noteq> cs_key spec" by (metis)+
qed

text \<open>An entry of the column at an index reaches that column.\<close>

lemma entry_at:
  assumes "i < length specs"
  shows "column_entry c least n 0 specs (cs_key (specs ! i), v) st =
      st\<lparr>cl_visible := (cl_visible st)[i := layout_boolean c v (cl_visible st ! i)]\<rparr>"
    and "column_entry c least n 0 specs (''width.'' @ cs_key (specs ! i), v) st =
      st\<lparr>cl_widths := (cl_widths st)[i := layout_integer c v (least (specs ! i))
        LSM_DETAILS_LAYOUT_MAX_WIDTH (cl_widths st ! i)]\<rparr>"
    and "column_entry c least n 0 specs (''order.'' @ cs_key (specs ! i), v) st =
      st\<lparr>cl_order := (cl_order st)[i := layout_integer c v 0 (int n - 1) (cl_order st ! i)]\<rparr>"
proof -
  have "column_entry c least n j (drop j specs) (key, v) st = column_entry c least n i (drop i specs) (key, v) st"
    if key: "key \<in> {cs_key (specs ! i), ''width.'' @ cs_key (specs ! i), ''order.'' @ cs_key (specs ! i)}"
      and "j \<le> i" for key j
    using that(2)
  proof (induction "i - j" arbitrary: j)
    case (Suc k)
    then have j: "j < i" "j < length specs" "drop j specs = specs ! j # drop (j + 1) specs"
      using assms by (simp_all add: Cons_nth_drop_Suc)
    have mem: "specs ! j \<in> set specs" "specs ! i \<in> set specs" using j assms by simp_all
    have "cs_key (specs ! j) \<noteq> cs_key (specs ! i)"
      using distinct_keys j assms by (auto simp: distinct_conv_nth)
    then have "key \<noteq> cs_key (specs ! j)" "key \<noteq> take 63 (''width.'' @ cs_key (specs ! j))"
      "key \<noteq> take 63 (''order.'' @ cs_key (specs ! j))"
      using key prefixed_key [OF mem(1)] key_neq_prefixed [OF mem(1)] key_neq_prefixed [OF mem(2)] by auto
    then show ?case
      using Suc.hyps(1) [of "j + 1"] Suc.hyps(2) j by (simp add: Let_def)
  qed simp
  note reach = this [of _ 0]
  have i: "drop i specs = specs ! i # drop (i + 1) specs" "specs ! i \<in> set specs"
    using assms by (simp_all add: Cons_nth_drop_Suc)
  note at_i = prefixed_key [OF i(2)] key_neq_prefixed [OF i(2)]
  show "column_entry c least n 0 specs (cs_key (specs ! i), v) st =
      st\<lparr>cl_visible := (cl_visible st)[i := layout_boolean c v (cl_visible st ! i)]\<rparr>"
    using reach [of "cs_key (specs ! i)"] i by (simp add: Let_def)
  show "column_entry c least n 0 specs (''width.'' @ cs_key (specs ! i), v) st =
      st\<lparr>cl_widths := (cl_widths st)[i := layout_integer c v (least (specs ! i))
        LSM_DETAILS_LAYOUT_MAX_WIDTH (cl_widths st ! i)]\<rparr>"
    using reach [of "''width.'' @ cs_key (specs ! i)"] i at_i by (simp add: Let_def)
  show "column_entry c least n 0 specs (''order.'' @ cs_key (specs ! i), v) st =
      st\<lparr>cl_order := (cl_order st)[i := layout_integer c v 0 (int n - 1) (cl_order st ! i)]\<rparr>"
    using reach [of "''order.'' @ cs_key (specs ! i)"] i at_i by (simp add: Let_def)
qed

lemma columns_restored:
  assumes c: "common_signed_range_ok c" "common_config_ok c"
    and st: "columns_ok specs least st" and target: "columns_ok specs least target"
  shows "apply_entries (column_entry c least (length specs) 0 specs)
      (column_entries specs (cl_visible target) (cl_widths target) (cl_order target)) st = target"
proof -
  let ?f = "column_entry c least (length specs) 0 specs"
  let ?mix = "\<lambda>k new old. take k new @ drop k old"
  have len: "length (cl_visible st) = length specs" "length (cl_widths st) = length specs"
    "length (cl_order st) = length specs" "length (cl_visible target) = length specs"
    "length (cl_widths target) = length specs" "length (cl_order target) = length specs"
    using st target by (simp_all add: columns_ok_def)
  have "apply_entries ?f (concat (map (\<lambda>i.
       [(cs_key (specs ! i), bool_text (cl_visible target ! i)),
        (''width.'' @ cs_key (specs ! i), int_text (cl_widths target ! i)),
        (''order.'' @ cs_key (specs ! i), int_text (cl_order target ! i))]) [0..<k])) st =
      \<lparr>cl_visible = ?mix k (cl_visible target) (cl_visible st),
       cl_widths = ?mix k (cl_widths target) (cl_widths st),
       cl_order = ?mix k (cl_order target) (cl_order st)\<rparr>" if "k \<le> length specs" for k
    using that
  proof (induction k)
    case (Suc k)
    then have k: "k < length specs" by simp
    then have w: "layout_integer c (int_text (cl_widths target ! k)) (least (specs ! k))
        LSM_DETAILS_LAYOUT_MAX_WIDTH f = cl_widths target ! k"
      and o: "layout_integer c (int_text (cl_order target ! k)) 0 (int (length specs) - 1) f = cl_order target ! k"
      for f
      using target width_range [of "specs ! k"] few_columns
      by (auto intro!: layout_integer_text [OF c(1)] simp: columns_ok_def LSM_DETAILS_LAYOUT_MAX_WIDTH_def)
    have step: "(?mix k new old)[k := new ! k] = ?mix (Suc k) new old"
      if "length new = length specs" "length old = length specs" for new old :: "'x list"
      using that k by (simp add: list_update_append take_Suc_conv_app_nth Cons_nth_drop_Suc [symmetric])
    show ?case
      using Suc k len
      by (simp add: apply_entries_append entry_at(1) [OF k]
          entry_at(2,3) [OF k, unfolded append.simps] layout_boolean_text [OF c(2)] w o step)
  qed simp
  from this [of "length specs"] len show ?thesis
    by (simp add: column_entries_def)
qed

lemma column_entries_ok:
  "entries_ok (column_entries specs visible widths order)"
proof -
  have "entries_ok (concat (map (\<lambda>i.
       [(cs_key (specs ! i), bool_text (visible ! i)),
        (''width.'' @ cs_key (specs ! i), int_text (widths ! i)),
        (''order.'' @ cs_key (specs ! i), int_text (order ! i))]) [0..<k]))" if "k \<le> length specs" for k
    using that
  proof (induction k)
    case (Suc k)
    then have "config_word (cs_key (specs ! k))" using plain_key by simp
    then have "config_word (''width.'' @ cs_key (specs ! k))" "config_word (''order.'' @ cs_key (specs ! k))"
      by (simp_all add: config_word_def config_char_def)
    then show ?case
      using Suc plain_key by (simp add: config_word_bool_text config_word_int_text)
  qed simp
  from this [of "length specs"] show ?thesis by (simp add: column_entries_def)
qed

lemma column_entry_keys:
  "(k, v) \<in> set (column_entries specs visible widths order) \<Longrightarrow>
   \<exists>spec \<in> set specs. k = cs_key spec \<or> k = ''width.'' @ cs_key spec \<or> k = ''order.'' @ cs_key spec"
  by (fastforce simp: column_entries_def)

end

interpretation details: column_schema lsm_details_column_specs cs_minimum_width
proof
  show "distinct (map cs_key lsm_details_column_specs)"
    by (simp add: lsm_details_column_specs_def column_spec.defs)
  have "\<forall>spec \<in> set lsm_details_column_specs. list_all config_char (cs_key spec) \<and> cs_key spec \<noteq> [] \<and>
      CHR ''.'' \<notin> set (cs_key spec) \<and> length (cs_key spec) \<le> 57"
    by (simp add: lsm_details_column_specs_def column_spec.defs config_char_def)
  then show "config_word (cs_key spec) \<and> CHR ''.'' \<notin> set (cs_key spec) \<and> length (cs_key spec) \<le> 57"
    if "spec \<in> set lsm_details_column_specs" for spec
    using that by (simp add: config_word_def)
  have "\<forall>spec \<in> set lsm_details_column_specs. 0 \<le> cs_minimum_width spec \<and> cs_minimum_width spec \<le> 2000"
    by (simp add: lsm_details_column_specs_def column_spec.defs)
  then show "0 \<le> cs_minimum_width spec \<and> cs_minimum_width spec \<le> cs_minimum_width spec \<and>
      cs_minimum_width spec \<le> LSM_DETAILS_LAYOUT_MAX_WIDTH" if "spec \<in> set lsm_details_column_specs" for spec
    using that by (simp add: LSM_DETAILS_LAYOUT_MAX_WIDTH_def)
qed (simp add: lsm_details_column_specs_def)

interpretation filesystem: column_schema filesystem_column_specs "\<lambda>_. 40"
proof
  show "distinct (map cs_key filesystem_column_specs)"
    by (simp add: filesystem_column_specs_def column_spec.defs)
  have "\<forall>spec \<in> set filesystem_column_specs. list_all config_char (cs_key spec) \<and> cs_key spec \<noteq> [] \<and>
      CHR ''.'' \<notin> set (cs_key spec) \<and> length (cs_key spec) \<le> 57"
    by (simp add: filesystem_column_specs_def column_spec.defs config_char_def)
  then show "config_word (cs_key spec) \<and> CHR ''.'' \<notin> set (cs_key spec) \<and> length (cs_key spec) \<le> 57"
    if "spec \<in> set filesystem_column_specs" for spec
    using that by (simp add: config_word_def)
  have "\<forall>spec \<in> set filesystem_column_specs. 40 \<le> cs_minimum_width spec \<and> cs_minimum_width spec \<le> 2000"
    by (simp add: filesystem_column_specs_def column_spec.defs)
  then show "0 \<le> (40 :: int) \<and> 40 \<le> cs_minimum_width spec \<and>
      cs_minimum_width spec \<le> LSM_DETAILS_LAYOUT_MAX_WIDTH" if "spec \<in> set filesystem_column_specs" for spec
    using that by (simp add: LSM_DETAILS_LAYOUT_MAX_WIDTH_def)
qed (simp add: filesystem_column_specs_def)

subsection \<open>Loading always gives a usable table\<close>

definition table_view_ok :: "column_spec list \<Rightarrow> (column_spec \<Rightarrow> int) \<Rightarrow> 'a table_view_scheme \<Rightarrow> bool" where
  "table_view_ok specs least v \<longleftrightarrow>
     length (tv_visible v) = length specs \<and> length (tv_widths v) = length specs \<and>
     (\<forall>i < length specs. tv_widths v ! i \<in> {least (specs ! i)..LSM_DETAILS_LAYOUT_MAX_WIDTH}) \<and>
     distinct (tv_sequence v) \<and> set (tv_sequence v) = {0..<length specs} \<and>
     (\<forall>column descending. tv_sort v = Some (column, descending) \<longrightarrow> column \<in> {0..int (length specs) - 1})"

definition details_view_ok :: "details_view \<Rightarrow> bool" where
  "details_view_ok v \<longleftrightarrow>
     table_view_ok lsm_details_column_specs cs_minimum_width v \<and> tv_visible v ! 0 \<and> tv_scope v \<in> {0..2}"

definition details_inv :: "details_layout \<Rightarrow> bool" where
  "details_inv l \<longleftrightarrow> columns_ok lsm_details_column_specs cs_minimum_width (dl_columns l) \<and>
     dl_sort_column l \<in> {- 1..int (length lsm_details_column_specs) - 1} \<and> dl_scope l \<in> {0..2}"

lemma length_details_specs: "length lsm_details_column_specs = 36"
  by (simp add: lsm_details_column_specs_def)

lemma details_entry_inv:
  assumes "common_signed_range_ok c" and "details_inv l"
  shows "details_inv (details_entry c entry l)"
proof -
  have "layout_integer c v 0 (int 36 - 1) (dl_sort_column l) \<in> {- 1..int 36 - 1}" for v
    using assms parse_i64_range_Some [OF assms(1), of v 0 "int 36 - 1"]
    by (auto simp: layout_integer_def details_inv_def length_details_specs split: option.split)
  moreover have "layout_integer c v 0 2 (dl_scope l) \<in> {0..2}" for v
    using assms by (intro layout_integer_range) (simp_all add: details_inv_def)
  ultimately show ?thesis
    using assms column_entry_columns_ok [of c lsm_details_column_specs cs_minimum_width "dl_columns l" entry]
    by (simp add: details_entry_def details_inv_def Let_def length_details_specs)
qed

lemma columns_ok_updates:
  "columns_ok specs least st \<Longrightarrow> length visible = length specs \<Longrightarrow> columns_ok specs least (st\<lparr>cl_visible := visible\<rparr>)"
  "columns_ok specs least st \<Longrightarrow>
   columns_ok specs least (st\<lparr>cl_order := layout_identity_order (length specs)\<rparr>)"
  by (simp_all add: columns_ok_def layout_identity_order_def)

lemma migrate_inv:
  assumes "details_inv l"
  shows "details_inv (migrate_layout l) \<and>
    layout_order_is_permutation (length lsm_details_column_specs) (cl_order (dl_columns (migrate_layout l)))"
proof (cases "dl_version l < LSM_DETAILS_LAYOUT_VERSION")
  case True
  define k where "k = (if dl_version l < 2
    then (dl_columns l)\<lparr>cl_visible := map cs_default_visible lsm_details_column_specs\<rparr> else dl_columns l)"
  have "columns_ok lsm_details_column_specs cs_minimum_width k"
    using assms by (simp add: k_def details_inv_def columns_ok_updates)
  moreover have "dl_columns (migrate_layout l) =
      k\<lparr>cl_order := layout_identity_order (length lsm_details_column_specs)\<rparr>"
    "dl_sort_column (migrate_layout l) = - 1" "dl_scope (migrate_layout l) = dl_scope l"
    using True by (simp_all add: migrate_layout_def Let_def identity_permutation k_def)
  ultimately show ?thesis
    using assms by (simp add: details_inv_def columns_ok_updates identity_permutation)
next
  case False
  then have "migrate_layout l =
      (if layout_order_is_permutation (length lsm_details_column_specs) (cl_order (dl_columns l)) then l
       else l\<lparr>dl_columns := (dl_columns l)\<lparr>cl_order := layout_identity_order (length lsm_details_column_specs)\<rparr>\<rparr>)"
    by (simp add: migrate_layout_def Let_def LSM_DETAILS_LAYOUT_VERSION_def)
  then show ?thesis
    using assms by (simp add: details_inv_def columns_ok_updates identity_permutation)
qed

definition initial_layout :: details_layout where
  "initial_layout = \<lparr>dl_version = 0, dl_tree_mode = True, dl_scope = 0, dl_heatmap = True, dl_sort_column = - 1,
     dl_descending = False, dl_columns = default_columns lsm_details_column_specs\<rparr>"

lemma initial_layout_inv: "details_inv initial_layout"
  using details.default_ok by (simp add: details_inv_def initial_layout_def length_details_specs)

text \<open>
  C33. Whatever the layout file holds, the Technical Details table comes up usable: every column is in
  the view exactly once, the name column is visible, widths lie between the column's minimum and the
  maximum, and the sort column, also after migrating an older file, is a column or none.
\<close>

theorem details_layout_usable:
  assumes "common_signed_range_ok c"
  shows "details_view_ok (lsm_details_layout_load c file)"
proof -
  define l where "l = (case file of None \<Rightarrow> initial_layout
    | Some content \<Rightarrow> config_fold c (details_entry c) (c_str content) initial_layout)"
  have "details_inv (config_fold c (details_entry c) content initial_layout)" for content
    by (rule config_fold_invariant [of details_inv]) (simp_all add: initial_layout_inv details_entry_inv assms)
  then have "details_inv l" by (simp add: l_def initial_layout_inv split: option.split)
  from migrate_inv [OF this] have inv: "details_inv (migrate_layout l)"
    and perm: "layout_order_is_permutation (length lsm_details_column_specs) (cl_order (dl_columns (migrate_layout l)))"
    by blast+
  have "length (cl_order (dl_columns (migrate_layout l))) = length lsm_details_column_specs"
    using inv by (simp add: details_inv_def columns_ok_def)
  from arrange_permutation [OF this perm] inv show ?thesis
    unfolding lsm_details_layout_load_def initial_layout_def [symmetric] l_def [symmetric] Let_def
    by (auto simp: details_view_ok_def table_view_ok_def details_inv_def columns_ok_def length_details_specs)
qed

theorem details_layout_usable_witness:
  "details_view_ok (lsm_details_layout_load ref_common (Some ''order.name=99''))"
  by (rule details_layout_usable [OF ref_common_signed_range_ok])

subsection \<open>The round trip\<close>

lemma c_str_config: "entries_ok entries \<Longrightarrow> c_str (config_text (map entry_line entries)) = config_text (map entry_line entries)"
  using config_text_plain(2) [of entries] unfolding c_str_def takeWhile_eq_all_conv by blast

lemma sort_entries_ok: "entries_ok (sort_entries sorting)"
proof -
  have "config_word ''sort_column''" "config_word ''sort_order''" "config_word ''descending''"
    "config_word ''ascending''" by (simp_all add: config_word_def config_char_def)
  then show ?thesis by (auto simp: sort_entries_def config_word_int_text split: option.split)
qed

lemma permutation_range:
  assumes "layout_order_is_permutation n order" and "i < length order"
  shows "order ! i \<in> {0..int n - 1}"
proof -
  have "order ! i \<in> {0..<int n}"
    using assms nth_mem subsetD unfolding layout_order_is_permutation_iff by blast
  then show ?thesis by simp
qed

text \<open>The column state a save describes.\<close>

definition view_columns :: "column_spec list \<Rightarrow> 'a table_view_scheme \<Rightarrow> column_state" where
  "view_columns specs v =
     \<lparr>cl_visible = tv_visible v, cl_widths = tv_widths v,
      cl_order = view_order 0 (tv_sequence v) (layout_identity_order (length specs))\<rparr>"

lemma view_columns_ok:
  assumes "table_view_ok specs least v"
  shows "columns_ok specs least (view_columns specs v)"
    and "arrange (length specs) (cl_order (view_columns specs v)) = tv_sequence v"
    and "layout_order_is_permutation (length specs) (cl_order (view_columns specs v))"
proof -
  let ?o = "view_order 0 (tv_sequence v) (layout_identity_order (length specs))"
  have "length (layout_identity_order (length specs)) = length specs" by (simp add: layout_identity_order_def)
  note arr = view_order_arrange [OF _ _ this, of "tv_sequence v"]
  have seq: "distinct (tv_sequence v)" "set (tv_sequence v) = {0..<length specs}"
    using assms by (simp_all add: table_view_ok_def)
  show "arrange (length specs) (cl_order (view_columns specs v)) = tv_sequence v"
    and perm: "layout_order_is_permutation (length specs) (cl_order (view_columns specs v))"
    using arr seq by (simp_all add: view_columns_def)
  show "columns_ok specs least (view_columns specs v)"
    using assms arr(3) [OF seq] permutation_range [OF perm]
    by (simp add: columns_ok_def view_columns_def table_view_ok_def)
qed

definition details_reserved :: "string list" where
  "details_reserved = [''layout_version'', ''tree'', ''scope'', ''heatmap'', ''sort_column'', ''sort_order'']"

lemma details_entry_column:
  "k \<notin> set details_reserved \<Longrightarrow> details_entry c (k, v) l =
     l\<lparr>dl_columns := column_entry c cs_minimum_width (length lsm_details_column_specs) 0
       lsm_details_column_specs (k, v) (dl_columns l)\<rparr>"
  by (simp add: details_entry_def details_reserved_def Let_def)

lemma details_apply_columns:
  "\<forall>(k, v) \<in> set es. k \<notin> set details_reserved \<Longrightarrow> apply_entries (details_entry c) es l =
     l\<lparr>dl_columns := apply_entries (column_entry c cs_minimum_width (length lsm_details_column_specs) 0
       lsm_details_column_specs) es (dl_columns l)\<rparr>"
  by (induction es arbitrary: l) (auto simp: details_entry_column)

lemma details_columns_unreserved:
  "\<forall>(k, v) \<in> set (column_entries lsm_details_column_specs visible widths order). k \<notin> set details_reserved"
proof -
  have keys: "\<forall>spec \<in> set lsm_details_column_specs. cs_key spec \<notin> set details_reserved"
    by (simp add: lsm_details_column_specs_def column_spec.defs details_reserved_def)
  have "''width.'' @ k \<notin> set details_reserved" "''order.'' @ k \<notin> set details_reserved" for k
    by (simp_all add: details_reserved_def)
  then show ?thesis using keys details.column_entry_keys by blast
qed

lemma details_apply_sort:
  assumes "common_signed_range_ok c"
    and "\<forall>column descending. sorting = Some (column, descending) \<longrightarrow>
      column \<in> {0..int (length lsm_details_column_specs) - 1}"
    and "dl_sort_column l = - 1" and "\<not> dl_descending l"
  shows "apply_entries (details_entry c) (sort_entries sorting) l =
    (case sorting of None \<Rightarrow> l | Some (column, descending) \<Rightarrow>
       l\<lparr>dl_sort_column := column, dl_descending := descending\<rparr>)"
proof (cases sorting)
  case (Some s)
  obtain column descending where s: "s = (column, descending)" by (cases s)
  have "layout_integer c (int_text column) 0 (int 36 - 1) f = column" for f
    using assms(2) Some s by (intro layout_integer_text [OF assms(1)]) (simp_all add: length_details_specs)
  then show ?thesis
    using Some s by (simp add: sort_entries_def details_entry_def sort_order_def Let_def length_details_specs)
qed (simp add: sort_entries_def)

lemma details_roundtrip:
  assumes c: "common_signed_range_ok c" "common_config_ok c" and v: "details_view_ok v"
  shows "lsm_details_layout_load c (Some (lsm_details_save_layout v)) = v"
proof -
  let ?n = "length lsm_details_column_specs"
  let ?order = "view_order 0 (tv_sequence v) (layout_identity_order ?n)"
  define target where "target = view_columns lsm_details_column_specs v"
  let ?header = "[(''layout_version'', int_text LSM_DETAILS_LAYOUT_VERSION),
    (''tree'', bool_text (tv_tree_mode v)), (''scope'', int_text (tv_scope v)),
    (''heatmap'', bool_text (tv_heatmap v))]"
  let ?columns = "column_entries lsm_details_column_specs (tv_visible v) (tv_widths v) ?order"
  have view: "table_view_ok lsm_details_column_specs cs_minimum_width v" "tv_visible v ! 0" "tv_scope v \<in> {0..2}"
    using v by (simp_all add: details_view_ok_def)
  have target: "columns_ok lsm_details_column_specs cs_minimum_width target"
    and arr: "arrange ?n (cl_order target) = tv_sequence v" "layout_order_is_permutation ?n (cl_order target)"
    using view_columns_ok [OF view(1)] by (simp_all add: target_def)
  have header: "apply_entries (details_entry c) ?header initial_layout =
      initial_layout\<lparr>dl_version := 5, dl_tree_mode := tv_tree_mode v, dl_scope := tv_scope v,
        dl_heatmap := tv_heatmap v\<rparr>"
    using layout_integer_text [OF c(1), of 5 0 "2 ^ 31 - 1"] layout_integer_text [OF c(1) view(3)]
    by (simp add: details_entry_def Let_def layout_boolean_text [OF c(2)] LSM_DETAILS_LAYOUT_VERSION_def)
  have columns: "apply_entries (details_entry c) ?columns l = l\<lparr>dl_columns := target\<rparr>"
    if "dl_columns l = default_columns lsm_details_column_specs" for l
    using details.columns_restored [OF c details.default_ok target] that
    by (simp add: details_apply_columns [OF details_columns_unreserved] target_def view_columns_def)
  have "config_word ''layout_version''" "config_word ''tree''" "config_word ''scope''" "config_word ''heatmap''"
    by (simp_all add: config_word_def config_char_def)
  then have words: "entries_ok (?header @ ?columns @ sort_entries (tv_sort v))"
    using details.column_entries_ok sort_entries_ok
    by (simp add: config_word_int_text config_word_bool_text)
  define l where "l = initial_layout\<lparr>dl_version := 5, dl_tree_mode := tv_tree_mode v, dl_scope := tv_scope v,
    dl_heatmap := tv_heatmap v, dl_columns := target\<rparr>"
  define l' where "l' = (case tv_sort v of None \<Rightarrow> l
    | Some (column, descending) \<Rightarrow> l\<lparr>dl_sort_column := column, dl_descending := descending\<rparr>)"
  have "apply_entries (details_entry c) (?header @ ?columns @ sort_entries (tv_sort v)) initial_layout = l'"
    unfolding apply_entries_append header
    using columns [of "initial_layout\<lparr>dl_version := 5, dl_tree_mode := tv_tree_mode v, dl_scope := tv_scope v,
        dl_heatmap := tv_heatmap v\<rparr>"] details_apply_sort [OF c(1), of "tv_sort v" l] view(1)
    by (simp add: initial_layout_def l_def l'_def table_view_ok_def)
  then have loaded: "config_fold c (details_entry c) (c_str (lsm_details_save_layout v)) initial_layout = l'"
    using config_fold_entries [OF c(2) words, of "details_entry c" initial_layout] c_str_config [OF words]
    by (simp add: lsm_details_save_layout_def Let_def)
  have "dl_columns l' = target" "dl_version l' = 5"
    by (auto simp: l'_def l_def split: option.split)
  then have "migrate_layout l' = l'"
    using arr(2) by (simp add: migrate_layout_def Let_def LSM_DETAILS_LAYOUT_VERSION_def)
  moreover have "(tv_visible v)[0 := True] = tv_visible v"
    using view(2) list_update_id [of "tv_visible v" 0] by simp
  moreover have "(if 0 \<le> dl_sort_column l' then Some (dl_sort_column l', dl_descending l') else None) = tv_sort v"
    using view(1) by (auto simp: l'_def l_def initial_layout_def table_view_ok_def split: option.split)
  moreover have "dl_tree_mode l' = tv_tree_mode v" "dl_scope l' = tv_scope v" "dl_heatmap l' = tv_heatmap v"
    by (auto simp: l'_def l_def split: option.split)
  ultimately show ?thesis
    unfolding lsm_details_layout_load_def initial_layout_def [symmetric] option.case loaded Let_def
    using arr(1) \<open>dl_columns l' = target\<close>
    by (cases v) (auto simp: target_def view_columns_def split: if_splits)
qed

text \<open>The File Systems table, in the same way.\<close>

lemma filesystem_apply_columns:
  "\<forall>(k, v) \<in> set es. k \<noteq> ''sort_column'' \<and> k \<noteq> ''sort_order'' \<Longrightarrow> apply_entries (filesystem_entry c) es l =
     l\<lparr>fl_columns := apply_entries (column_entry c (\<lambda>_. 40) (length filesystem_column_specs) 0
       filesystem_column_specs) es (fl_columns l)\<rparr>"
  by (induction es arbitrary: l) (auto simp: filesystem_entry_def Let_def)

lemma filesystem_columns_unreserved:
  "\<forall>(k, v) \<in> set (column_entries filesystem_column_specs visible widths order).
     k \<noteq> ''sort_column'' \<and> k \<noteq> ''sort_order''"
proof -
  have "\<forall>spec \<in> set filesystem_column_specs. cs_key spec \<noteq> ''sort_column'' \<and> cs_key spec \<noteq> ''sort_order''"
    by (simp add: filesystem_column_specs_def column_spec.defs)
  then show ?thesis using filesystem.column_entry_keys by fastforce
qed

lemma filesystem_apply_sort:
  assumes "common_signed_range_ok c"
    and "\<forall>column descending. sorting = Some (column, descending) \<longrightarrow>
      column \<in> {0..int (length filesystem_column_specs) - 1}"
  shows "apply_entries (filesystem_entry c) (sort_entries sorting) l =
    (case sorting of None \<Rightarrow> l | Some (column, descending) \<Rightarrow>
       l\<lparr>fl_sort_column := column, fl_descending := descending\<rparr>)"
proof (cases sorting)
  case (Some s)
  obtain column descending where s: "s = (column, descending)" by (cases s)
  have "layout_integer c (int_text column) 0 (int (length filesystem_column_specs) - 1) f = column" for f
    using assms(2) Some s
    by (intro layout_integer_text [OF assms(1)]) (simp_all add: filesystem_column_specs_def)
  then show ?thesis
    using Some s by (simp add: sort_entries_def filesystem_entry_def sort_order_def Let_def)
qed (simp add: sort_entries_def)

lemma filesystem_roundtrip:
  assumes c: "common_signed_range_ok c" "common_config_ok c"
    and v: "table_view_ok filesystem_column_specs (\<lambda>_. 40) v"
  shows "filesystem_columns_load c (Some (filesystem_columns_save v)) = v"
proof -
  let ?specs = filesystem_column_specs
  define target where "target = view_columns ?specs v"
  define l where "l = \<lparr>fl_sort_column = - 1, fl_descending = False, fl_columns = default_columns ?specs\<rparr>"
  let ?columns = "column_entries ?specs (tv_visible v) (tv_widths v)
    (view_order 0 (tv_sequence v) (layout_identity_order (length ?specs)))"
  let ?entries = "[(''layout_version'', ''1'')] @ ?columns @ sort_entries (tv_sort v)"
  have target: "columns_ok ?specs (\<lambda>_. 40) target" "arrange (length ?specs) (cl_order target) = tv_sequence v"
    using view_columns_ok [OF v] by (simp_all add: target_def)
  have version: "filesystem_entry c (''layout_version'', ''1'') l = l"
    by (simp add: filesystem_entry_def Let_def filesystem_column_specs_def column_spec.defs)
  have columns: "apply_entries (filesystem_entry c) ?columns l = l\<lparr>fl_columns := target\<rparr>"
    using filesystem.columns_restored [OF c filesystem.default_ok target(1)]
    by (simp add: filesystem_apply_columns [OF filesystem_columns_unreserved] target_def view_columns_def l_def)
  have "config_word ''layout_version''" "config_word ''1''"
    by (simp_all add: config_word_def config_char_def ascii_digit_def)
  then have words: "entries_ok ?entries"
    using filesystem.column_entries_ok sort_entries_ok by simp
  have "apply_entries (filesystem_entry c) ?entries l = (case tv_sort v of None \<Rightarrow> l\<lparr>fl_columns := target\<rparr>
    | Some (column, descending) \<Rightarrow>
        l\<lparr>fl_columns := target, fl_sort_column := column, fl_descending := descending\<rparr>)"
    unfolding apply_entries_append apply_entries_Cons apply_entries_Nil version columns
    using filesystem_apply_sort [OF c(1), of "tv_sort v"] v
    by (auto simp: table_view_ok_def l_def split: option.split)
  then have "config_fold c (filesystem_entry c) (c_str (filesystem_columns_save v)) l =
      (case tv_sort v of None \<Rightarrow> l\<lparr>fl_columns := target\<rparr>
       | Some (column, descending) \<Rightarrow>
           l\<lparr>fl_columns := target, fl_sort_column := column, fl_descending := descending\<rparr>)"
    using config_fold_entries [OF c(2) words, of "filesystem_entry c" l] c_str_config [OF words]
    by (simp add: filesystem_columns_save_def Let_def)
  then show ?thesis
    unfolding filesystem_columns_load_def l_def [symmetric] option.case Let_def
    using target(2) v by (auto simp: l_def target_def view_columns_def table_view_ok_def split: option.split)
qed

text \<open>
  C24. Both table layouts survive a restart: loading what was saved from a well-formed view gives the
  same visibility, widths, column sequence, sort order and modes.
\<close>

theorem layouts_roundtrip:
  assumes "common_signed_range_ok c" and "common_config_ok c"
    and "details_view_ok v" and "table_view_ok filesystem_column_specs (\<lambda>_. 40) w"
  shows "lsm_details_layout_load c (Some (lsm_details_save_layout v)) = v \<and>
    filesystem_columns_load c (Some (filesystem_columns_save w)) = w"
  using assms details_roundtrip filesystem_roundtrip by blast

text \<open>The views of a first start.\<close>

theorem layouts_roundtrip_witness:
  "lsm_details_layout_load ref_common (Some (lsm_details_save_layout (lsm_details_layout_load ref_common None))) =
     lsm_details_layout_load ref_common None \<and>
   filesystem_columns_load ref_common (Some (filesystem_columns_save (filesystem_columns_load ref_common None))) =
     filesystem_columns_load ref_common None"
proof -
  let ?n = "length filesystem_column_specs"
  have perm: "layout_order_is_permutation ?n (layout_identity_order ?n)" by (rule identity_permutation)
  have "length (layout_identity_order ?n) = ?n" by (simp add: layout_identity_order_def)
  from arrange_permutation [OF this perm] filesystem.default_ok
  have fs: "table_view_ok filesystem_column_specs (\<lambda>_. 40) (filesystem_columns_load ref_common None)"
    by (simp add: filesystem_columns_load_def table_view_ok_def columns_ok_def default_columns_def)
  have details: "details_view_ok (lsm_details_layout_load ref_common None)"
  proof -
    let ?m = "length lsm_details_column_specs"
    have len: "length (layout_identity_order ?m) = ?m" by (simp add: layout_identity_order_def)
    have "details_inv (migrate_layout initial_layout) \<and>
        layout_order_is_permutation ?m (cl_order (dl_columns (migrate_layout initial_layout)))"
      by (rule migrate_inv [OF initial_layout_inv])
    then show ?thesis
      using arrange_permutation [of "cl_order (dl_columns (migrate_layout initial_layout))" ?m]
      unfolding lsm_details_layout_load_def initial_layout_def [symmetric] option.case Let_def
      by (auto simp: details_view_ok_def table_view_ok_def details_inv_def columns_ok_def length_details_specs)
  qed
  show ?thesis
    using layouts_roundtrip [OF ref_common_signed_range_ok ref_common_config_ok details fs] .
qed

end
