(* ===== verification/Bluetooth_Traffic.thy ===== *)
theory Bluetooth_Traffic
  imports Counter_Stream "HOL-Library.Monad_Syntax"
begin

text \<open>
  Per-device Bluetooth traffic (\<^verbatim>\<open>src/bluetooth_traffic.c\<close>): the decoder of HCI monitor datagrams,
  the table of link counters, its binding to remote addresses and the counters of a device. The
  sections of the reader thread and of the callers that hold the mutex are steps; sockets, the ioctl
  and thread creation are their outcomes. The decoder reads through bounded reads, so that leaving
  the datagram would be visible as \<open>None\<close>.
\<close>

definition LSM_HCI_MON_HEADER_SIZE :: nat where "LSM_HCI_MON_HEADER_SIZE = 6"

definition LSM_HCI_HANDLE_MASK :: u16 where "LSM_HCI_HANDLE_MASK = 0x0fff"

definition LSM_HCI_ISO_LENGTH_MASK :: u16 where "LSM_HCI_ISO_LENGTH_MASK = 0x3fff"

definition LSM_HCI_LINK_SLOTS :: nat where "LSM_HCI_LINK_SLOTS = 128"

record monitor_packet =
  mp_controller_index :: u16
  mp_handle :: u16
  mp_payload_bytes :: u64
  mp_receive :: bool

record link_counter =
  lc_controller_index :: u16
  lc_handle :: u16
  lc_address :: string
  lc_rx_bytes :: u64
  lc_tx_bytes :: u64
  lc_active :: bool
  lc_used :: bool

definition blank_link :: link_counter where
  "blank_link = \<lparr>lc_controller_index = 0, lc_handle = 0, lc_address = [], lc_rx_bytes = 0,
     lc_tx_bytes = 0, lc_active = False, lc_used = False\<rparr>"

record capture_state =
  ca_descriptor :: "int option" \<comment> \<open>\<^verbatim>\<open>monitor_fd\<close>, \<open>None\<close> for a negative one\<close>
  ca_thread_started :: bool
  ca_stop_requested :: bool
  ca_available :: bool
  ca_links :: "link_counter list"

subsection \<open>Decoding\<close>

definition controller_index :: "common \<Rightarrow> string \<Rightarrow> u16 option" where
  "controller_index c controller =
     (if \<not> infiltratr_string_starts_with c controller ''hci'' \<or> drop 3 controller = [] then None
      else map_option ucast (infiltratr_parse_u64_range c (drop 3 controller) 10 0 0xffff))"

definition hex_digit :: "nat \<Rightarrow> char" where
  "hex_digit d = (if d < 10 then char_of (48 + d) else char_of (55 + d))"

definition hex_byte :: "u8 \<Rightarrow> string" where
  "hex_byte b = [hex_digit (unat b div 16), hex_digit (unat b mod 16)]"

definition address_string :: "u8 list \<Rightarrow> string" where
  "address_string bytes = tl (concat (map (\<lambda>b. CHR '':'' # hex_byte b) (rev bytes)))"

text \<open>The payload's header size, data length and direction by opcode; \<open>Some None\<close> rejects.\<close>

definition payload_layout :: "common \<Rightarrow> u8 list \<Rightarrow> u16 \<Rightarrow> u16 \<Rightarrow> (nat \<times> u64 \<times> bool) option option" where
  "payload_layout c bytes opcode payload_length =
     (let payload = LSM_HCI_MON_HEADER_SIZE
      in if opcode = 4 \<or> opcode = 5 then
           if payload_length < 4 then Some None
           else do { len \<leftarrow> get16 c bytes (payload + 2); Some (Some (4, ucast len, opcode = 5)) }
         else if opcode = 6 \<or> opcode = 7 then
           if payload_length < 3 then Some None
           else do { len \<leftarrow> get bytes (payload + 2); Some (Some (3, ucast len, opcode = 7)) }
         else if opcode = 18 \<or> opcode = 19 then
           if payload_length < 4 then Some None
           else do {
             len \<leftarrow> get16 c bytes (payload + 2);
             Some (Some (4, ucast (len AND LSM_HCI_ISO_LENGTH_MASK), opcode = 19)) }
         else Some None)"

definition lsm_bluetooth_traffic_parse_monitor :: "common \<Rightarrow> u8 list \<Rightarrow> monitor_packet option option" where
  "lsm_bluetooth_traffic_parse_monitor c bytes =
     (if length bytes < LSM_HCI_MON_HEADER_SIZE then Some None
      else do {
        opcode \<leftarrow> get16 c bytes 0;
        index \<leftarrow> get16 c bytes 2;
        payload_length \<leftarrow> get16 c bytes 4;
        if length bytes - LSM_HCI_MON_HEADER_SIZE < unat payload_length then Some None
        else do {
          layout \<leftarrow> payload_layout c bytes opcode payload_length;
          case layout of
            None \<Rightarrow> Some None
          | Some (header_size, data_length, receive) \<Rightarrow>
              if unat payload_length - header_size < unat data_length then Some None
              else do {
                handle \<leftarrow> get16 c bytes LSM_HCI_MON_HEADER_SIZE;
                Some (Some \<lparr>mp_controller_index = index, mp_handle = handle AND LSM_HCI_HANDLE_MASK,
                  mp_payload_bytes = data_length, mp_receive = receive\<rparr>) } } })"

subsection \<open>The table of links\<close>

definition link_key :: "link_counter \<Rightarrow> u16 \<times> u16" where
  "link_key slot = (lc_controller_index slot, lc_handle slot)"

definition first_slot :: "('a \<Rightarrow> bool) \<Rightarrow> 'a list \<Rightarrow> nat option" where
  "first_slot P xs = find (\<lambda>i. P (xs ! i)) [0..<length xs]"

text \<open>The slot of a handle, taken over from a free or else an inactive one when there is none.\<close>

definition link_for_handle_locked :: "u16 \<Rightarrow> u16 \<Rightarrow> link_counter list \<Rightarrow> nat option \<times> link_counter list" where
  "link_for_handle_locked controller handle links =
     (case first_slot (\<lambda>slot. lc_used slot \<and> link_key slot = (controller, handle)) links of
        Some i \<Rightarrow> (Some i, links)
      | None \<Rightarrow>
          (case (case first_slot (\<lambda>slot. \<not> lc_used slot) links of
                   Some i \<Rightarrow> Some i | None \<Rightarrow> first_slot (\<lambda>slot. \<not> lc_active slot) links) of
             None \<Rightarrow> (None, links)
           | Some i \<Rightarrow> (Some i, links[i := blank_link\<lparr>lc_used := True, lc_controller_index := controller,
               lc_handle := handle\<rparr>])))"

definition add_bytes :: "common \<Rightarrow> monitor_packet \<Rightarrow> link_counter \<Rightarrow> link_counter" where
  "add_bytes c packet slot =
     (if mp_receive packet
      then slot\<lparr>lc_rx_bytes := infiltratr_u64_add_saturating c (lc_rx_bytes slot) (mp_payload_bytes packet)\<rparr>
      else slot\<lparr>lc_tx_bytes := infiltratr_u64_add_saturating c (lc_tx_bytes slot) (mp_payload_bytes packet)\<rparr>)"

definition account_packet :: "common \<Rightarrow> monitor_packet \<Rightarrow> link_counter list \<Rightarrow> link_counter list" where
  "account_packet c packet links =
     (if mp_payload_bytes packet = 0 then links
      else case link_for_handle_locked (mp_controller_index packet) (mp_handle packet) links of
          (None, links) \<Rightarrow> links
        | (Some i, links) \<Rightarrow> links[i := add_bytes c packet (links ! i)])"

text \<open>What the reader does with one datagram.\<close>

definition reader_datagram :: "common \<Rightarrow> u8 list \<Rightarrow> link_counter list \<Rightarrow> link_counter list option" where
  "reader_datagram c bytes links =
     map_option (\<lambda>packet. case packet of None \<Rightarrow> links | Some packet \<Rightarrow> account_packet c packet links)
       (lsm_bluetooth_traffic_parse_monitor c bytes)"

text \<open>The connection list of a controller: handles and addresses.\<close>

definition bind_connection :: "common \<Rightarrow> u16 \<Rightarrow> link_counter list \<Rightarrow> u16 \<times> u8 list \<Rightarrow> link_counter list" where
  "bind_connection c index links info =
     (case link_for_handle_locked index (fst info) links of
        (None, links) \<Rightarrow> links
      | (Some i, links) \<Rightarrow>
          let slot = links ! i; remote = address_string (snd info);
              slot = (if lc_address slot \<noteq> [] \<and> \<not> infiltratr_ascii_equal_ci c (lc_address slot) remote
                then slot\<lparr>lc_rx_bytes := 0, lc_tx_bytes := 0\<rparr> else slot)
          in links[i := slot\<lparr>lc_address := infiltratr_copy_string c 32 remote, lc_active := True\<rparr>])"

definition deactivate :: "u16 \<Rightarrow> link_counter list \<Rightarrow> link_counter list" where
  "deactivate index links =
     map (\<lambda>slot. if lc_used slot \<and> lc_controller_index slot = index then slot\<lparr>lc_active := False\<rparr> else slot) links"

definition lsm_bluetooth_traffic_refresh_connections ::
    "common \<Rightarrow> string \<Rightarrow> (u16 \<times> u8 list) list option \<Rightarrow> link_counter list \<Rightarrow> bool \<times> link_counter list" where
  "lsm_bluetooth_traffic_refresh_connections c controller connections links =
     (case controller_index c controller of
        None \<Rightarrow> (False, links)
      | Some index \<Rightarrow>
          (case connections of
             None \<Rightarrow> (False, links)
           | Some infos \<Rightarrow> (True, foldl (bind_connection c index) (deactivate index links) infos)))"

subsection \<open>The counters of a device\<close>

record traffic_counters =
  tc_rx_bytes :: u64
  tc_tx_bytes :: u64
  tc_link_count :: u32

definition device_slot :: "common \<Rightarrow> u16 \<Rightarrow> string \<Rightarrow> link_counter \<Rightarrow> bool" where
  "device_slot c index address slot \<longleftrightarrow>
     lc_used slot \<and> lc_controller_index slot = index \<and> lc_address slot \<noteq> [] \<and>
     infiltratr_ascii_equal_ci c (lc_address slot) address"

definition count_slot :: "common \<Rightarrow> traffic_counters \<Rightarrow> link_counter \<Rightarrow> traffic_counters" where
  "count_slot c counters slot =
     \<lparr>tc_rx_bytes = infiltratr_u64_add_saturating c (tc_rx_bytes counters) (lc_rx_bytes slot),
      tc_tx_bytes = infiltratr_u64_add_saturating c (tc_tx_bytes counters) (lc_tx_bytes slot),
      tc_link_count = (if lc_active slot \<and> tc_link_count counters < UINT_MAX
        then tc_link_count counters + 1 else tc_link_count counters)\<rparr>"

definition lsm_bluetooth_traffic_read_device ::
    "common \<Rightarrow> string \<Rightarrow> string \<Rightarrow> capture_state \<Rightarrow> bool \<times> traffic_counters" where
  "lsm_bluetooth_traffic_read_device c controller address s =
     (let zero = \<lparr>tc_rx_bytes = 0, tc_tx_bytes = 0, tc_link_count = 0\<rparr>
      in if address = [] then (False, zero)
         else case controller_index c controller of
           None \<Rightarrow> (False, zero)
         | Some index \<Rightarrow>
             let counters = (if ca_available s
                   then foldl (count_slot c) zero (filter (device_slot c index address) (ca_links s)) else zero)
             in (ca_available s \<and> 0 < tc_link_count counters, counters))"

subsection \<open>The reader thread's life\<close>

definition start_reset :: "capture_state \<Rightarrow> capture_state" where
  "start_reset s = s\<lparr>ca_stop_requested := False, ca_available := False,
     ca_links := replicate LSM_HCI_LINK_SLOTS blank_link\<rparr>"

text \<open>
  \<open>opened\<close> is the bound descriptor, \<open>dropped\<close> whether the capabilities are gone, \<open>created\<close> whether the
  thread could be started.
\<close>

datatype start_result = Security_Failure | Unavailable | Started

definition lsm_bluetooth_traffic_start ::
    "int option \<Rightarrow> bool \<Rightarrow> bool \<Rightarrow> capture_state \<Rightarrow> start_result \<times> capture_state" where
  "lsm_bluetooth_traffic_start opened dropped created s =
     (if ca_thread_started s then (Started, s)
      else
        let s = start_reset s
        in if \<not> dropped then (Security_Failure, s)
           else case opened of
             None \<Rightarrow> (Unavailable, s)
           | Some descriptor \<Rightarrow>
               if \<not> created then (Unavailable, s\<lparr>ca_descriptor := None, ca_available := False\<rparr>)
               else (Started, s\<lparr>ca_descriptor := Some descriptor, ca_available := True,
                 ca_thread_started := True\<rparr>))"

definition capture_stop_request :: "capture_state \<Rightarrow> capture_state" where
  "capture_stop_request s =
     (if \<not> ca_thread_started s then s\<lparr>ca_descriptor := None, ca_available := False\<rparr>
      else s\<lparr>ca_stop_requested := True\<rparr>)"

definition capture_stop_joined :: "capture_state \<Rightarrow> capture_state" where
  "capture_stop_joined s = s\<lparr>ca_thread_started := False, ca_descriptor := None, ca_available := False,
     ca_stop_requested := False, ca_links := replicate LSM_HCI_LINK_SLOTS blank_link\<rparr>"

text \<open>One turn of the reader: its stop test and what \<^verbatim>\<open>recv\<close> gave.\<close>

datatype receive_outcome = Retry | Failed | Received "u8 list"

definition reader_stops :: "capture_state \<Rightarrow> bool" where
  "reader_stops s \<longleftrightarrow> ca_stop_requested s \<or> ca_descriptor s = None"

definition monitor_reader :: "common \<Rightarrow> receive_outcome \<Rightarrow> capture_state \<Rightarrow> capture_state option" where
  "monitor_reader c outcome s =
     (case outcome of
        Retry \<Rightarrow> Some s
      | Failed \<Rightarrow> Some (s\<lparr>ca_available := False\<rparr>)
      | Received bytes \<Rightarrow>
          if bytes = [] then Some s
          else map_option (\<lambda>links. s\<lparr>ca_links := links\<rparr>) (reader_datagram c bytes (ca_links s)))"

subsection \<open>Publishing a device's rates\<close>

record device_traffic = \<comment> \<open>the traffic members of \<^verbatim>\<open>LsmBluetoothDeviceInfo\<close>\<close>
  dt_rx_bytes_total :: u64
  dt_tx_bytes_total :: u64
  dt_rx_bytes_per_sec :: double
  dt_tx_bytes_per_sec :: double
  dt_link_count :: u32
  dt_traffic_available :: bool

record traffic_state =
  ts_previous_rx :: u64
  ts_previous_tx :: u64
  ts_initialized :: bool

definition lsm_bluetooth_traffic_apply_device ::
    "common \<Rightarrow> device_traffic \<Rightarrow> traffic_state \<Rightarrow> traffic_counters \<Rightarrow> double \<Rightarrow> device_traffic \<times> traffic_state" where
  "lsm_bluetooth_traffic_apply_device c device state counters elapsed =
     (let device = device\<lparr>dt_traffic_available := True, dt_link_count := tc_link_count counters,
            dt_rx_bytes_total := tc_rx_bytes counters, dt_tx_bytes_total := tc_tx_bytes counters,
            dt_rx_bytes_per_sec := Fin 0, dt_tx_bytes_per_sec := Fin 0\<rparr>;
          device = (if ts_initialized state
            then device\<lparr>
              dt_rx_bytes_per_sec := snd (infiltratr_u64_counter_rate c (tc_rx_bytes counters)
                (ts_previous_rx state) (Fin 1) elapsed),
              dt_tx_bytes_per_sec := snd (infiltratr_u64_counter_rate c (tc_tx_bytes counters)
                (ts_previous_tx state) (Fin 1) elapsed)\<rparr>
            else device)
      in (device, \<lparr>ts_previous_rx = tc_rx_bytes counters, ts_previous_tx = tc_tx_bytes counters,
            ts_initialized = True\<rparr>))"

definition lsm_bluetooth_traffic_mark_device_unavailable ::
    "device_traffic \<Rightarrow> traffic_state \<Rightarrow> device_traffic \<times> traffic_state" where
  "lsm_bluetooth_traffic_mark_device_unavailable device state =
     (device\<lparr>dt_traffic_available := False, dt_link_count := 0, dt_rx_bytes_per_sec := Fin 0,
        dt_tx_bytes_per_sec := Fin 0\<rparr>, state\<lparr>ts_initialized := False\<rparr>)"

subsection \<open>The decoder stays inside the datagram\<close>

lemma payload_layout_total:
  assumes "LSM_HCI_MON_HEADER_SIZE + unat payload_length \<le> length bytes"
  shows "\<exists>layout. payload_layout c bytes opcode payload_length = Some layout"
  using assms
  by (auto simp: payload_layout_def Let_def get_def get16_def word_less_nat_alt not_less LSM_HCI_MON_HEADER_SIZE_def)

lemma payload_layout_header:
  "payload_layout c bytes opcode payload_length = Some (Some (header, len, receive)) \<Longrightarrow>
   3 \<le> header \<and> header \<le> unat payload_length"
  by (auto simp: payload_layout_def Let_def bind_eq_Some_conv word_less_nat_alt not_less split: if_splits)

lemma parse_monitor_total: "\<exists>packet. lsm_bluetooth_traffic_parse_monitor c bytes = Some packet"
proof (cases "length bytes < LSM_HCI_MON_HEADER_SIZE")
  case False
  then have "\<exists>w. get16 c bytes i = Some w" if "i \<le> 4" for i
    using that by (simp add: get16_def LSM_HCI_MON_HEADER_SIZE_def)
  then obtain opcode index payload_length where loads: "get16 c bytes 0 = Some opcode"
    "get16 c bytes 2 = Some index" "get16 c bytes 4 = Some payload_length" by force
  show ?thesis
  proof (cases "length bytes - LSM_HCI_MON_HEADER_SIZE < unat payload_length")
    case fits: False
    obtain layout where l: "payload_layout c bytes opcode payload_length = Some layout"
      using payload_layout_total [of payload_length bytes] False fits by fastforce
    have "get16 c bytes LSM_HCI_MON_HEADER_SIZE \<noteq> None" if "layout = Some (header, len, receive)" for header len receive
      using payload_layout_header [of c bytes opcode payload_length header len receive] l that fits
      by (auto simp: get16_def LSM_HCI_MON_HEADER_SIZE_def)
    then show ?thesis
      using False fits loads l
      by (cases layout) (auto simp: lsm_bluetooth_traffic_parse_monitor_def split: prod.split option.split)
  qed (use False loads in \<open>simp add: lsm_bluetooth_traffic_parse_monitor_def\<close>)
qed (simp add: lsm_bluetooth_traffic_parse_monitor_def)

subsection \<open>The table as a map from links to counters\<close>

definition links_ok :: "link_counter list \<Rightarrow> bool" where
  "links_ok links \<longleftrightarrow> length links = LSM_HCI_LINK_SLOTS \<and>
     (\<forall>i<length links. \<forall>j<length links. lc_used (links ! i) \<and> lc_used (links ! j) \<and>
        link_key (links ! i) = link_key (links ! j) \<longrightarrow> i = j)"

definition slot_of :: "link_counter list \<Rightarrow> u16 \<times> u16 \<rightharpoonup> link_counter" where
  "slot_of links k = find (\<lambda>slot. lc_used slot \<and> link_key slot = k) links"

lemma first_slot_Some:
  "first_slot P xs = Some i \<Longrightarrow> i < length xs \<and> P (xs ! i)"
  by (auto simp: first_slot_def find_Some_iff)

lemma first_slot_None: "first_slot P xs = None \<longleftrightarrow> (\<forall>i<length xs. \<not> P (xs ! i))"
  by (auto simp: first_slot_def find_None_iff)

lemma links_okD:
  "links_ok links \<Longrightarrow> i < length links \<Longrightarrow> j < length links \<Longrightarrow> lc_used (links ! i) \<Longrightarrow> lc_used (links ! j) \<Longrightarrow>
   link_key (links ! i) = link_key (links ! j) \<Longrightarrow> i = j"
  by (simp add: links_ok_def)

lemma slot_of_nth:
  assumes "links_ok links" "i < length links" "lc_used (links ! i)" "link_key (links ! i) = k"
  shows "slot_of links k = Some (links ! i)"
proof (cases "slot_of links k")
  case None
  then show ?thesis using assms(2-4) by (auto simp: slot_of_def find_None_iff)
next
  case (Some slot)
  then obtain j where "j < length links" "slot = links ! j" "lc_used slot" "link_key slot = k"
    by (auto simp: slot_of_def find_Some_iff)
  then show ?thesis using links_okD [OF assms(1) assms(2), of j] assms(3,4) Some by auto
qed

lemma slot_of_SomeE:
  assumes "slot_of links k = Some slot"
  obtains i where "i < length links" "links ! i = slot" "lc_used slot" "link_key slot = k"
  using assms by (auto simp: slot_of_def find_Some_iff)

lemma slot_of_None:
  "slot_of links k = None \<longleftrightarrow> (\<forall>i<length links. lc_used (links ! i) \<longrightarrow> link_key (links ! i) \<noteq> k)"
  by (simp add: slot_of_def find_None_iff) (metis in_set_conv_nth)

lemma links_ok_update:
  assumes "links_ok links" "i < length links"
    and "\<forall>j<length links. j \<noteq> i \<longrightarrow> lc_used (links ! j) \<longrightarrow> link_key (links ! j) \<noteq> link_key slot"
  shows "links_ok (links[i := slot])"
  using assms by (auto simp: links_ok_def nth_list_update)

lemma slot_of_update:
  assumes ok: "links_ok links" and i: "i < length links" and used: "lc_used slot"
    and fresh: "\<forall>j<length links. j \<noteq> i \<longrightarrow> lc_used (links ! j) \<longrightarrow> link_key (links ! j) \<noteq> link_key slot"
  shows "slot_of (links[i := slot]) k =
    (if k = link_key slot then Some slot
     else if lc_used (links ! i) \<and> link_key (links ! i) = k then None else slot_of links k)"
proof -
  note ok' = links_ok_update [OF ok i fresh]
  have own: "slot_of (links[i := slot]) (link_key slot) = Some slot"
    using slot_of_nth [OF ok', of i] i used by simp
  have gone: "slot_of (links[i := slot]) k = None" if "k \<noteq> link_key slot" "lc_used (links ! i)" "link_key (links ! i) = k"
    unfolding slot_of_None
    using that links_okD [OF ok i] i by (metis length_list_update nth_list_update_eq nth_list_update_neq)
  have kept: "slot_of (links[i := slot]) k = slot_of links k"
    if "k \<noteq> link_key slot" "\<not> (lc_used (links ! i) \<and> link_key (links ! i) = k)"
  proof (cases "slot_of links k")
    case None
    then have "slot_of (links[i := slot]) k = None"
      unfolding slot_of_None using that i
      by (metis length_list_update nth_list_update_eq nth_list_update_neq)
    then show ?thesis using None by simp
  next
    case (Some found)
    then obtain j where j: "j < length links" "links ! j = found" "lc_used found" "link_key found = k"
      by (rule slot_of_SomeE)
    with that have "j \<noteq> i" by auto
    then show ?thesis using slot_of_nth [OF ok', of j k] j Some by simp
  qed
  from own gone kept show ?thesis by simp
qed

text \<open>What taking a slot does: the handle's own slot, a free one, an inactive one, or none.\<close>

definition fresh_link :: "u16 \<times> u16 \<Rightarrow> link_counter" where
  "fresh_link k = blank_link\<lparr>lc_used := True, lc_controller_index := fst k, lc_handle := snd k\<rparr>"

lemma fresh_link_simps [simp]: "lc_used (fresh_link k)" "link_key (fresh_link k) = k"
  by (simp_all add: fresh_link_def link_key_def)

lemma link_for_handle_cases:
  assumes ok: "links_ok links"
  obtains
    (own) i where "link_for_handle_locked controller handle links = (Some i, links)" "i < length links"
      "lc_used (links ! i)" "link_key (links ! i) = (controller, handle)"
  | (taken) i where "slot_of links (controller, handle) = None" "i < length links"
      "link_for_handle_locked controller handle links = (Some i, links[i := fresh_link (controller, handle)])"
      "lc_used (links ! i) \<longrightarrow> \<not> lc_active (links ! i) \<and> (\<forall>j<length links. lc_used (links ! j))"
  | (full) "slot_of links (controller, handle) = None" "link_for_handle_locked controller handle links = (None, links)"
      "\<forall>i<length links. lc_used (links ! i) \<and> lc_active (links ! i)"
proof (cases "first_slot (\<lambda>slot. lc_used slot \<and> link_key slot = (controller, handle)) links")
  case (Some i)
  then show ?thesis using first_slot_Some [OF Some] by (intro own [of i]) (auto simp: link_for_handle_locked_def)
next
  case None
  then have absent: "slot_of links (controller, handle) = None" by (auto simp: first_slot_None slot_of_None)
  show ?thesis
  proof (cases "first_slot (\<lambda>slot. \<not> lc_used slot) links")
    case unused: (Some i)
    then show ?thesis using first_slot_Some [OF unused] absent None
      by (intro taken [of i]) (simp_all add: link_for_handle_locked_def fresh_link_def)
  next
    case all_used: None
    show ?thesis
    proof (cases "first_slot (\<lambda>slot. \<not> lc_active slot) links")
      case inactive: (Some i)
      then show ?thesis using first_slot_Some [OF inactive] absent None all_used all_used [unfolded first_slot_None]
        by (intro taken [of i]) (simp_all add: link_for_handle_locked_def fresh_link_def)
    next
      case active: None
      then show ?thesis
        using absent None all_used all_used [unfolded first_slot_None] active [unfolded first_slot_None]
        by (intro full) (simp_all add: link_for_handle_locked_def)
    qed
  qed
qed

lemma account_packet_cases:
  assumes ok: "links_ok links" and payload: "mp_payload_bytes packet \<noteq> 0"
    and key: "k = (mp_controller_index packet, mp_handle packet)"
  obtains
    (counted) "links_ok (account_packet c packet links)"
      "\<And>k'. k' \<noteq> k \<Longrightarrow> slot_of (account_packet c packet links) k' = slot_of links k' \<or>
         (slot_of links k = None \<and> (\<forall>i<length links. lc_used (links ! i)) \<and>
          (\<exists>slot. slot_of links k' = Some slot \<and> \<not> lc_active slot) \<and> slot_of (account_packet c packet links) k' = None)"
      "slot_of (account_packet c packet links) k =
         Some (add_bytes c packet (case slot_of links k of None \<Rightarrow> fresh_link k | Some slot \<Rightarrow> slot))"
  | (full) "account_packet c packet links = links" "slot_of links k = None"
      "\<forall>i<length links. lc_used (links ! i) \<and> lc_active (links ! i)"
proof -
  have added: "lc_used (add_bytes c packet slot) = lc_used slot" "link_key (add_bytes c packet slot) = link_key slot" for slot
    by (simp_all add: add_bytes_def link_key_def)
  show thesis
  using ok proof (cases rule: link_for_handle_cases [where controller = "mp_controller_index packet" and handle = "mp_handle packet"])
    case (own i)
    then have eq: "account_packet c packet links = links[i := add_bytes c packet (links ! i)]"
      using payload by (simp add: account_packet_def)
    have fresh: "\<forall>j<length links. j \<noteq> i \<longrightarrow> lc_used (links ! j) \<longrightarrow>
        link_key (links ! j) \<noteq> link_key (add_bytes c packet (links ! i))"
      using own links_okD [OF ok own(2)] added by metis
    show thesis
      using own key slot_of_nth [OF ok own(2-4)]
      by (intro counted)
         (simp_all add: eq added links_ok_update [OF ok own(2) fresh] slot_of_update [OF ok own(2) _ fresh])
  next
    case (taken i)
    let ?new = "add_bytes c packet (fresh_link k)"
    have eq: "account_packet c packet links = links[i := ?new]"
      using payload taken key by (simp add: account_packet_def)
    have fresh: "\<forall>j<length links. j \<noteq> i \<longrightarrow> lc_used (links ! j) \<longrightarrow> link_key (links ! j) \<noteq> link_key ?new"
      using taken(1) key by (simp add: slot_of_None added)
    have absent: "slot_of links k = None" using taken(1) key by simp
    have upd: "slot_of (links[i := ?new]) k' = (if k' = k then Some ?new
        else if lc_used (links ! i) \<and> link_key (links ! i) = k' then None else slot_of links k')" for k'
      using slot_of_update [OF ok taken(2) _ fresh] by (simp add: added)
    show thesis
    proof (intro counted)
      show "links_ok (account_packet c packet links)" unfolding eq by (rule links_ok_update [OF ok taken(2) fresh])
      show "slot_of (account_packet c packet links) k =
          Some (add_bytes c packet (case slot_of links k of None \<Rightarrow> fresh_link k | Some slot \<Rightarrow> slot))"
        by (simp add: eq upd absent)
    qed (use taken(4) absent slot_of_nth [OF ok taken(2)] in \<open>simp add: eq upd\<close>)
  next
    case full': full
    then show thesis using payload key by (intro full) (simp_all add: account_packet_def)
  qed
qed

subsection \<open>The totals of the links\<close>

definition packet_key :: "monitor_packet \<Rightarrow> u16 \<times> u16" where
  "packet_key packet = (mp_controller_index packet, mp_handle packet)"

definition data_packets :: "common \<Rightarrow> u8 list \<Rightarrow> monitor_packet list" where
  "data_packets c bytes =
     (case lsm_bluetooth_traffic_parse_monitor c bytes of
        Some (Some packet) \<Rightarrow> if mp_payload_bytes packet = 0 then [] else [packet]
      | _ \<Rightarrow> [])"

definition carried :: "bool \<Rightarrow> u16 \<times> u16 \<Rightarrow> monitor_packet list \<Rightarrow> nat" where
  "carried receive k packets =
     sum_list (map (\<lambda>packet. unat (mp_payload_bytes packet))
       (filter (\<lambda>packet. mp_receive packet = receive \<and> packet_key packet = k) packets))"

definition counted_bytes :: "bool \<Rightarrow> link_counter list \<Rightarrow> u16 \<times> u16 \<Rightarrow> nat" where
  "counted_bytes receive links k =
     (case slot_of links k of
        None \<Rightarrow> 0 | Some slot \<Rightarrow> unat (if receive then lc_rx_bytes slot else lc_tx_bytes slot))"

definition accounted :: "monitor_packet list \<Rightarrow> link_counter list \<Rightarrow> bool" where
  "accounted packets links \<longleftrightarrow> links_ok links \<and> dom (slot_of links) = packet_key ` set packets \<and>
     (\<forall>receive k. counted_bytes receive links k = min (carried receive k packets) (2 ^ 64 - 1))"

lemma accounted_start: "accounted [] (replicate LSM_HCI_LINK_SLOTS blank_link)"
proof -
  have none: "slot_of (replicate LSM_HCI_LINK_SLOTS blank_link) k = None" for k
    by (simp add: slot_of_None blank_link_def)
  then have "dom (slot_of (replicate LSM_HCI_LINK_SLOTS blank_link)) = {}" by (simp add: dom_def)
  then show ?thesis
    by (simp add: accounted_def links_ok_def counted_bytes_def carried_def none) (simp add: blank_link_def)
qed

lemma unused_slot:
  assumes ok: "links_ok links" and few: "card (dom (slot_of links)) < LSM_HCI_LINK_SLOTS"
  shows "\<exists>i<length links. \<not> lc_used (links ! i)"
proof (rule ccontr)
  assume "\<not> ?thesis"
  then have used: "\<And>i. i < length links \<Longrightarrow> lc_used (links ! i)" by blast
  have "inj_on (\<lambda>i. link_key (links ! i)) {..<length links}"
    using links_okD [OF ok] used by (auto intro: inj_onI)
  then have "card ((\<lambda>i. link_key (links ! i)) ` {..<length links}) = LSM_HCI_LINK_SLOTS"
    using ok by (simp add: card_image links_ok_def)
  moreover have "(\<lambda>i. link_key (links ! i)) ` {..<length links} \<subseteq> dom (slot_of links)"
    using slot_of_nth [OF ok _ used refl] by (auto simp: dom_def)
  moreover have "dom (slot_of links) \<subseteq> link_key ` set links"
  proof
    fix k
    assume "k \<in> dom (slot_of links)"
    then obtain slot where "slot_of links k = Some slot" by blast
    then show "k \<in> link_key ` set links" by (rule slot_of_SomeE) (metis imageI nth_mem)
  qed
  then have fin: "finite (dom (slot_of links))" by (rule finite_subset) simp
  ultimately have "LSM_HCI_LINK_SLOTS \<le> card (dom (slot_of links))" using card_mono [OF fin] by metis
  then show False using few by simp
qed

lemma add_bytes_counted:
  assumes "common_arith_ok c"
  shows "unat (lc_rx_bytes (add_bytes c packet slot)) =
      (if mp_receive packet then min (unat (lc_rx_bytes slot) + unat (mp_payload_bytes packet)) (2 ^ 64 - 1)
       else unat (lc_rx_bytes slot))"
    and "unat (lc_tx_bytes (add_bytes c packet slot)) =
      (if mp_receive packet then unat (lc_tx_bytes slot)
       else min (unat (lc_tx_bytes slot) + unat (mp_payload_bytes packet)) (2 ^ 64 - 1))"
  using assms by (simp_all add: add_bytes_def common_arith_ok_def unat_saturating_add)

lemma carried_snoc:
  "carried receive k (packets @ [packet]) = carried receive k packets +
     (if mp_receive packet = receive \<and> packet_key packet = k then unat (mp_payload_bytes packet) else 0)"
  by (simp add: carried_def)

lemma accounted_packet:
  assumes c: "common_arith_ok c" and acc: "accounted packets links" and payload: "mp_payload_bytes packet \<noteq> 0"
    and few: "card (packet_key ` set (packets @ [packet])) \<le> LSM_HCI_LINK_SLOTS"
  shows "accounted (packets @ [packet]) (account_packet c packet links)"
proof -
  let ?k = "packet_key packet" and ?links = "account_packet c packet links"
  have ok: "links_ok links" and seen: "dom (slot_of links) = packet_key ` set packets"
    and counted: "\<And>receive k. counted_bytes receive links k = min (carried receive k packets) (2 ^ 64 - 1)"
    using acc unfolding accounted_def by blast+
  have room: "\<exists>i<length links. \<not> lc_used (links ! i)" if "slot_of links ?k = None"
  proof (rule unused_slot [OF ok])
    have "?k \<notin> packet_key ` set packets" using that seen by blast
    then show "card (dom (slot_of links)) < LSM_HCI_LINK_SLOTS" using few by (simp add: seen)
  qed
  have key: "?k = (mp_controller_index packet, mp_handle packet)" by (simp add: packet_key_def)
  show ?thesis
  using ok payload key proof (cases rule: account_packet_cases [where c = c])
    case counted': counted
    have others: "slot_of ?links k = slot_of links k" if "k \<noteq> ?k" for k
      using counted'(2) [OF that] room by blast
    have "dom (slot_of ?links) = insert ?k (dom (slot_of links))"
      using others counted'(3) by (auto simp: dom_def) (metis option.discI option.inject)+
    moreover have "counted_bytes receive ?links k = min (carried receive k (packets @ [packet])) (2 ^ 64 - 1)" for receive k
      using counted [of receive k] others [of k] counted'(3)
      by (cases "k = ?k")
         (auto simp: counted_bytes_def carried_snoc add_bytes_counted [OF c] fresh_link_def blank_link_def split: option.splits)
    ultimately show ?thesis using counted'(1) seen by (simp add: accounted_def)
  next
    case full
    then show ?thesis using room by blast
  qed
qed

lemma reader_datagram_packets:
  "\<exists>links'. reader_datagram c bytes links = Some links' \<and>
     links' = foldl (\<lambda>links packet. account_packet c packet links) links (data_packets c bytes)"
  using parse_monitor_total [of c bytes]
  by (auto simp: reader_datagram_def data_packets_def account_packet_def split: option.split)

definition read_datagrams :: "common \<Rightarrow> u8 list list \<Rightarrow> link_counter list \<Rightarrow> link_counter list option" where
  "read_datagrams c datagrams links = foldM (\<lambda>links bytes. reader_datagram c bytes links) links datagrams"

lemma accounted_datagrams:
  assumes c: "common_arith_ok c"
    and few: "card (packet_key ` set (concat (map (data_packets c) datagrams))) \<le> LSM_HCI_LINK_SLOTS"
  shows "\<exists>links. read_datagrams c datagrams (replicate LSM_HCI_LINK_SLOTS blank_link) = Some links \<and>
    accounted (concat (map (data_packets c) datagrams)) links"
  using few
proof (induction datagrams rule: rev_induct)
  case Nil
  then show ?case using accounted_start by (simp add: read_datagrams_def)
next
  case (snoc bytes datagrams)
  let ?before = "concat (map (data_packets c) datagrams)"
  have "card (packet_key ` set ?before) \<le> LSM_HCI_LINK_SLOTS"
    using snoc.prems by (rule order_trans [OF card_mono, rotated 2]) auto
  then obtain links where links: "read_datagrams c datagrams (replicate LSM_HCI_LINK_SLOTS blank_link) = Some links"
    "accounted ?before links" using snoc.IH by blast
  have "accounted (?before @ data_packets c bytes)
      (foldl (\<lambda>links packet. account_packet c packet links) links (data_packets c bytes))"
  proof (cases "data_packets c bytes")
    case (Cons packet rest)
    then have only: "data_packets c bytes = [packet]" "mp_payload_bytes packet \<noteq> 0"
      by (auto simp: data_packets_def split: option.splits if_splits)
    then show ?thesis using snoc.prems accounted_packet [OF c links(2), of packet] by simp
  qed (use links(2) in simp)
  then show ?case
    using links(1) reader_datagram_packets [of c bytes links] by (auto simp: read_datagrams_def foldM_append)
qed

subsection \<open>Every operation keeps the table\<close>

lemma link_for_handle_ok:
  assumes ok: "links_ok links" and found: "link_for_handle_locked controller handle links = (Some i, links')"
  shows "links_ok links' \<and> i < length links' \<and> lc_used (links' ! i) \<and> link_key (links' ! i) = (controller, handle)"
  using ok
proof (cases rule: link_for_handle_cases [where controller = controller and handle = handle])
  case (taken j)
  then have "\<forall>n<length links. n \<noteq> j \<longrightarrow> lc_used (links ! n) \<longrightarrow> link_key (links ! n) \<noteq> link_key (fresh_link (controller, handle))"
    by (simp add: slot_of_None)
  from links_ok_update [OF ok taken(2) this] show ?thesis using taken found by auto
qed (use ok found in auto)

lemma link_for_handle_none:
  "links_ok links \<Longrightarrow> link_for_handle_locked controller handle links = (None, links') \<Longrightarrow> links' = links"
  by (erule link_for_handle_cases [where controller = controller and handle = handle]) auto

lemma links_ok_same_key:
  assumes "links_ok links" "i < length links" "lc_used (links ! i)" "link_key slot = link_key (links ! i)"
  shows "links_ok (links[i := slot])"
  using assms(2,3,4) links_okD [OF assms(1) assms(2)] by (intro links_ok_update [OF assms(1,2)]) metis

lemma links_ok_account:
  assumes ok: "links_ok links" shows "links_ok (account_packet c packet links)"
proof (cases "mp_payload_bytes packet = 0")
  case True
  then show ?thesis using ok by (simp add: account_packet_def)
next
  case False
  with ok show ?thesis by (cases rule: account_packet_cases [OF _ _ refl, where c = c]) (use ok in auto)
qed

lemma links_ok_reader: "links_ok links \<Longrightarrow> reader_datagram c bytes links = Some links' \<Longrightarrow> links_ok links'"
  by (auto simp: reader_datagram_def links_ok_account split: option.splits)

lemma links_ok_bind:
  assumes ok: "links_ok links" shows "links_ok (bind_connection c index links info)"
proof (cases "link_for_handle_locked index (fst info) links")
  case (Pair found links')
  show ?thesis
  proof (cases found)
    case None
    then show ?thesis using ok Pair link_for_handle_none [OF ok] by (auto simp: bind_connection_def)
  next
    case (Some i)
    note found = link_for_handle_ok [OF ok, of index "fst info" i links']
    show ?thesis using found Pair Some
      by (auto simp: bind_connection_def Let_def link_key_def intro!: links_ok_same_key)
  qed
qed

lemma links_ok_deactivate: "links_ok links \<Longrightarrow> links_ok (deactivate index links)"
  by (auto simp: links_ok_def deactivate_def link_key_def split: if_splits)

lemma links_ok_refresh:
  "links_ok links \<Longrightarrow> links_ok (snd (lsm_bluetooth_traffic_refresh_connections c controller connections links))"
proof -
  have "links_ok (foldl (bind_connection c index) links infos)" if "links_ok links" for index infos links
    using that by (induction infos arbitrary: links) (auto intro: links_ok_bind)
  then show "links_ok links \<Longrightarrow> ?thesis"
    by (auto simp: lsm_bluetooth_traffic_refresh_connections_def links_ok_deactivate split: option.split)
qed

text \<open>The capture as a transition system: callers and the reader take turns at the mutex.\<close>

inductive capture_step :: "common \<Rightarrow> capture_state \<Rightarrow> capture_state \<Rightarrow> bool" for c where
  start: "capture_step c s (snd (lsm_bluetooth_traffic_start opened dropped created s))"
| stop: "capture_step c s (capture_stop_request s)"
| join: "ca_thread_started s \<Longrightarrow> ca_stop_requested s \<Longrightarrow> capture_step c s (capture_stop_joined s)"
| reader: "ca_thread_started s \<Longrightarrow> monitor_reader c outcome s = Some s' \<Longrightarrow> capture_step c s s'"
| refresh: "capture_step c s
    (s\<lparr>ca_links := snd (lsm_bluetooth_traffic_refresh_connections c controller connections (ca_links s))\<rparr>)"

definition capture_initial :: capture_state where
  "capture_initial = \<lparr>ca_descriptor = None, ca_thread_started = False, ca_stop_requested = False,
     ca_available = False, ca_links = replicate LSM_HCI_LINK_SLOTS blank_link\<rparr>"

definition capture_ok :: "capture_state \<Rightarrow> bool" where
  "capture_ok s \<longleftrightarrow> links_ok (ca_links s) \<and> (ca_thread_started s \<longleftrightarrow> ca_descriptor s \<noteq> None) \<and>
     (ca_available s \<longrightarrow> ca_thread_started s)"

lemma links_ok_blank: "links_ok (replicate LSM_HCI_LINK_SLOTS blank_link)"
  using accounted_start by (simp add: accounted_def)

lemma capture_ok_initial: "capture_ok capture_initial"
  by (simp add: capture_ok_def capture_initial_def links_ok_blank)

lemma capture_ok_reader: "capture_ok s \<Longrightarrow> monitor_reader c outcome s = Some s' \<Longrightarrow> capture_ok s'"
  by (auto simp: capture_ok_def monitor_reader_def intro: links_ok_reader split: receive_outcome.splits if_splits)

lemma capture_ok_step: "capture_step c s s' \<Longrightarrow> capture_ok s \<Longrightarrow> capture_ok s'"
proof (induction rule: capture_step.induct)
  case (start s opened dropped created)
  then show ?case
    by (simp add: capture_ok_def lsm_bluetooth_traffic_start_def start_reset_def links_ok_blank Let_def split: option.split)
next
  case (stop s)
  then show ?case by (auto simp: capture_ok_def capture_stop_request_def)
next
  case (join s)
  then show ?case by (simp add: capture_ok_def capture_stop_joined_def links_ok_blank)
next
  case (reader s outcome s')
  then show ?case using capture_ok_reader by blast
next
  case (refresh s controller connections)
  then show ?case by (auto simp: capture_ok_def links_ok_refresh)
qed

lemma capture_reachable: "(capture_step c)\<^sup>*\<^sup>* capture_initial s \<Longrightarrow> capture_ok s"
  by (induction rule: rtranclp_induct) (auto intro: capture_ok_initial capture_ok_step)

subsection \<open>Rates of a device\<close>

definition device_update ::
    "common \<Rightarrow> device_traffic \<Rightarrow> traffic_state \<Rightarrow> (traffic_counters \<times> double) option \<Rightarrow> device_traffic \<times> traffic_state" where
  "device_update c device state ob =
     (case ob of
        None \<Rightarrow> lsm_bluetooth_traffic_mark_device_unavailable device state
      | Some (counters, elapsed) \<Rightarrow> lsm_bluetooth_traffic_apply_device c device state counters elapsed)"

definition traffic_baseline :: "traffic_state \<Rightarrow> (u64 \<times> u64) option" where
  "traffic_baseline state = (if ts_initialized state then Some (ts_previous_rx state, ts_previous_tx state) else None)"

definition traffic_view :: "device_traffic \<Rightarrow> bool \<times> u32 \<times> double \<times> double" where
  "traffic_view device = (dt_traffic_available device, dt_link_count device, dt_rx_bytes_per_sec device,
     dt_tx_bytes_per_sec device)"

definition traffic_rates ::
    "common \<Rightarrow> (u64 \<times> u64) option \<Rightarrow> (traffic_counters \<times> double) option \<Rightarrow> bool \<times> u32 \<times> double \<times> double" where
  "traffic_rates c base ob =
     (case ob of
        None \<Rightarrow> (False, 0, Fin 0, Fin 0)
      | Some (counters, elapsed) \<Rightarrow>
          (True, tc_link_count counters,
           (case base of None \<Rightarrow> Fin 0 | Some (rx, _) \<Rightarrow> snd (infiltratr_u64_counter_rate c (tc_rx_bytes counters) rx (Fin 1) elapsed)),
           (case base of None \<Rightarrow> Fin 0 | Some (_, tx) \<Rightarrow> snd (infiltratr_u64_counter_rate c (tc_tx_bytes counters) tx (Fin 1) elapsed))))"

interpretation bluetooth_stream: counter_stream "device_update c" traffic_baseline
  "map_option (\<lambda>ob. (tc_rx_bytes (fst ob), tc_tx_bytes (fst ob)))" traffic_view "traffic_rates c"
  "\<lambda>_. True" "\<lambda>_. True" for c
  by unfold_locales
     (auto simp: device_update_def lsm_bluetooth_traffic_mark_device_unavailable_def Let_def
       lsm_bluetooth_traffic_apply_device_def traffic_baseline_def traffic_view_def traffic_rates_def split: option.split)

text \<open>A counter that fell shows as no traffic, never as a spike.\<close>

lemma device_rate_after_reset:
  assumes "common_rates_ok c" "tc_rx_bytes now < tc_rx_bytes before"
  shows "fst (snd (snd (traffic_view (fst (bluetooth_stream.run c s (obs @ [Some (before, t), Some (now, dt)])))))) = Fin 0"
  using assms bluetooth_stream.view_last_two [where c = c and s = s and obs = obs and a = "Some (before, t)" and b = "Some (now, dt)"]
  by (simp add: traffic_rates_def counter_rate_rollback)

subsection \<open>The data frames of the HCI monitor\<close>

text \<open>
  What a datagram of the monitor channel carries, over plain numbers: three little-endian 16-bit fields
  (kind of record, controller, length of what follows), then for a data frame the 12-bit connection
  handle, the length of the data (16 bits for ACL, 8 for SCO, 14 for ISO) and the data. \<open>hci_data\<close> is
  the link, whether the data was received, and its length.
\<close>

datatype hci_kind = Hci_Acl | Hci_Sco | Hci_Iso

fun hci_record :: "nat \<Rightarrow> (hci_kind \<times> bool) option" where
  "hci_record code = map_of
     [(4, Hci_Acl, False), (5, Hci_Acl, True), (6, Hci_Sco, False), (7, Hci_Sco, True),
      (18, Hci_Iso, False), (19, Hci_Iso, True)] code"

definition le16 :: "u8 \<Rightarrow> u8 \<Rightarrow> nat" where
  "le16 low high = unat low + 256 * unat high"

fun hci_length :: "hci_kind \<Rightarrow> u8 list \<Rightarrow> (nat \<times> u8 list) option" where
  "hci_length Hci_Acl (l # h # carried_data) = Some (le16 l h, carried_data)"
| "hci_length Hci_Sco (l # carried_data) = Some (unat l, carried_data)"
| "hci_length Hci_Iso (l # h # carried_data) = Some (le16 l h mod 2 ^ 14, carried_data)"
| "hci_length _ _ = None"

definition hci_frame :: "hci_kind \<times> bool \<Rightarrow> nat \<Rightarrow> u8 list \<Rightarrow> ((nat \<times> nat) \<times> bool \<times> nat) option" where
  "hci_frame kind controller frame =
     (case frame of
        h0 # h1 # rest \<Rightarrow>
          (case hci_length (fst kind) rest of
             Some (n, carried_data) \<Rightarrow>
               if n \<le> length carried_data then Some ((controller, le16 h0 h1 mod 2 ^ 12), snd kind, n) else None
           | None \<Rightarrow> None)
      | _ \<Rightarrow> None)"

fun hci_data :: "u8 list \<Rightarrow> ((nat \<times> nat) \<times> bool \<times> nat) option" where
  "hci_data (o0 # o1 # i0 # i1 # n0 # n1 # rest) =
     (if length rest < le16 n0 n1 then None
      else Option.bind (hci_record (le16 o0 o1)) (\<lambda>kind. hci_frame kind (le16 i0 i1) (take (le16 n0 n1) rest)))"
| "hci_data _ = None"

definition packet_data :: "monitor_packet \<Rightarrow> (nat \<times> nat) \<times> bool \<times> nat" where
  "packet_data packet = ((unat (mp_controller_index packet), unat (mp_handle packet)), mp_receive packet,
     unat (mp_payload_bytes packet))"

lemma unat_le16: "unat (ucast (a :: u8) + 256 * ucast b :: u16) = le16 a b"
proof -
  have "unat a < 256" "unat b < 256" using unsigned_less [of a, where ?'a = nat] unsigned_less [of b, where ?'a = nat] by simp_all
  then show ?thesis by (simp add: le16_def unat_word_ariths unsigned_ucast_eq take_bit_nat_eq_self)
qed

lemma get16_le16:
  assumes "common_endian_ok c" "i + 1 < length bytes"
  shows "\<exists>w. get16 c bytes i = Some w \<and> unat w = le16 (bytes ! i) (bytes ! (i + 1))"
proof -
  have "drop i bytes = bytes ! i # bytes ! (i + 1) # drop (i + 2) bytes"
    using assms(2) by (metis Cons_nth_drop_Suc Suc_eq_plus1 add_2_eq_Suc' add_lessD1)
  then show ?thesis using assms by (simp add: get16_def common_endian_ok_def unat_le16)
qed

lemma masked:
  fixes w :: u16
  shows "unat (w AND LSM_HCI_HANDLE_MASK) = unat w mod 2 ^ 12" "unat (w AND LSM_HCI_ISO_LENGTH_MASK) = unat w mod 2 ^ 14"
proof -
  have "LSM_HCI_HANDLE_MASK = mask 12" "LSM_HCI_ISO_LENGTH_MASK = mask 14"
    by (simp_all add: LSM_HCI_HANDLE_MASK_def LSM_HCI_ISO_LENGTH_MASK_def mask_eq_exp_minus_1)
  note masks = this
  show "unat (w AND LSM_HCI_HANDLE_MASK) = unat w mod 2 ^ 12" "unat (w AND LSM_HCI_ISO_LENGTH_MASK) = unat w mod 2 ^ 14"
    unfolding masks take_bit_eq_mask [symmetric] 
    by (simp_all only: unsigned_take_bit_eq) (simp_all only: take_bit_eq_mod)
qed

lemma hci_length_short: "length frame < (if kind = Hci_Sco then 1 else 2) \<Longrightarrow> hci_length kind frame = None"
  by (cases "(kind, frame)" rule: hci_length.cases) simp_all

lemma hci_frame_short:
  "length frame < (if fst kind = Hci_Sco then 3 else 4) \<Longrightarrow> hci_frame kind controller frame = None"
  by (auto simp: hci_frame_def hci_length_short split: list.split if_splits)

lemma hci_record_code:
  fixes opcode :: u16
  shows "hci_record (unat opcode) =
    (if opcode = 4 \<or> opcode = 5 then Some (Hci_Acl, opcode = 5)
     else if opcode = 6 \<or> opcode = 7 then Some (Hci_Sco, opcode = 7)
     else if opcode = 18 \<or> opcode = 19 then Some (Hci_Iso, opcode = 19) else None)"
  by (auto simp: word_unat_eq_iff)

lemma parse_monitor_data:
  assumes endian: "common_endian_ok c"
  shows "hci_data bytes =
    (case lsm_bluetooth_traffic_parse_monitor c bytes of Some (Some packet) \<Rightarrow> Some (packet_data packet) | _ \<Rightarrow> None)"
proof (cases "length bytes < LSM_HCI_MON_HEADER_SIZE")
  case True
  then have "hci_data bytes = None" by (cases bytes rule: hci_data.cases) (simp_all add: LSM_HCI_MON_HEADER_SIZE_def)
  then show ?thesis using True by (simp add: lsm_bluetooth_traffic_parse_monitor_def)
next
  case False
  then obtain o0 o1 i0 i1 n0 n1 rest where bytes: "bytes = o0 # o1 # i0 # i1 # n0 # n1 # rest"
    by (cases bytes rule: hci_data.cases) (simp_all add: LSM_HCI_MON_HEADER_SIZE_def)
  then have long: "length bytes = 6 + length rest" by simp
  have load: "\<exists>w. get16 c bytes i = Some w \<and> unat w = le16 (bytes ! i) (bytes ! (i + 1))" if "i + 1 < 6 + length rest" for i
    using get16_le16 [OF endian, of i bytes] that by (simp add: bytes)
  obtain opcode index len where loads: "get16 c bytes 0 = Some opcode" "unat opcode = le16 o0 o1"
    "get16 c bytes 2 = Some index" "unat index = le16 i0 i1" "get16 c bytes 4 = Some len" "unat len = le16 n0 n1"
    using load [of 0] load [of 2] load [of 4] by (auto simp: bytes)
  let ?n = "unat len"
  show ?thesis
  proof (cases "length rest < ?n")
    case True
    then have "lsm_bluetooth_traffic_parse_monitor c bytes = Some None"
      using False long by (simp add: lsm_bluetooth_traffic_parse_monitor_def loads LSM_HCI_MON_HEADER_SIZE_def)
    moreover have "hci_data bytes = None" using True loads(6) by (simp add: bytes)
    ultimately show ?thesis by simp
  next
    case fits: False
    have parse: "lsm_bluetooth_traffic_parse_monitor c bytes = do {
        layout \<leftarrow> payload_layout c bytes opcode len;
        case layout of
          None \<Rightarrow> Some None
        | Some (header, n, receive) \<Rightarrow>
            if ?n - header < unat n then Some None
            else do {
              handle \<leftarrow> get16 c bytes LSM_HCI_MON_HEADER_SIZE;
              Some (Some \<lparr>mp_controller_index = index, mp_handle = handle AND LSM_HCI_HANDLE_MASK,
                mp_payload_bytes = n, mp_receive = receive\<rparr>) } }"
      using False fits long by (simp add: lsm_bluetooth_traffic_parse_monitor_def loads LSM_HCI_MON_HEADER_SIZE_def)
    have data: "hci_data bytes = Option.bind (hci_record (unat opcode)) (\<lambda>kind. hci_frame kind (unat index) (take ?n rest))"
      using fits loads by (simp add: bytes del: hci_record.simps)
    have up: "unat (ucast (w :: u16) :: u64) = unat w" "unat (ucast (b :: u8) :: u64) = unat b" for w b
      using unsigned_less [of w, where ?'a = nat] unsigned_less [of b, where ?'a = nat]
      by (simp_all add: unsigned_ucast_eq take_bit_nat_eq_self)
    have small: "len < 4 \<longleftrightarrow> ?n < 4" "len < 3 \<longleftrightarrow> ?n < 3" by (simp_all add: word_less_nat_alt)
    have frame: "length (take ?n rest) = ?n" using fits by simp
    note short = hci_frame_short [of "take ?n rest", unfolded frame]
    have two: "\<exists>handle l h0 h1 l0 l1 carried_data. rest = h0 # h1 # l0 # l1 # carried_data \<and>
        get16 c bytes LSM_HCI_MON_HEADER_SIZE = Some handle \<and> unat handle = le16 h0 h1 \<and>
        get16 c bytes (LSM_HCI_MON_HEADER_SIZE + 2) = Some l \<and> unat l = le16 l0 l1" if "4 \<le> ?n"
    proof -
      have "4 \<le> length rest" using that fits by simp
      then obtain h0 h1 l0 l1 carried_data where rest: "rest = h0 # h1 # l0 # l1 # carried_data"
        by (auto simp: numeral_eq_Suc Suc_le_length_iff)
      show ?thesis using load [of 6] load [of 8] unfolding rest by (auto simp: bytes LSM_HCI_MON_HEADER_SIZE_def rest)
    qed
    have one: "\<exists>handle h0 h1 l carried_data. rest = h0 # h1 # l # carried_data \<and>
        get16 c bytes LSM_HCI_MON_HEADER_SIZE = Some handle \<and> unat handle = le16 h0 h1 \<and>
        get bytes (LSM_HCI_MON_HEADER_SIZE + 2) = Some l" if "3 \<le> ?n"
    proof -
      have "3 \<le> length rest" using that fits by simp
      then obtain h0 h1 l carried_data where rest: "rest = h0 # h1 # l # carried_data"
        by (auto simp: numeral_eq_Suc Suc_le_length_iff)
      show ?thesis using load [of 6] unfolding rest by (auto simp: bytes LSM_HCI_MON_HEADER_SIZE_def rest get_def)
    qed
    consider (acl) "opcode = 4 \<or> opcode = 5" | (sco) "opcode = 6 \<or> opcode = 7" | (iso) "opcode = 18 \<or> opcode = 19"
      | (other) "opcode \<notin> {4, 5, 6, 7, 18, 19}" by blast
    then show ?thesis
    proof cases
      case acl
      then have layout: "payload_layout c bytes opcode len = (if ?n < 4 then Some None
          else do { l \<leftarrow> get16 c bytes (LSM_HCI_MON_HEADER_SIZE + 2); Some (Some (4, ucast l, opcode = 5)) })"
        by (simp add: payload_layout_def small)
      have kind: "hci_record (unat opcode) = Some (Hci_Acl, opcode = 5)" using acl unfolding hci_record_code by auto
      show ?thesis
      proof (cases "?n < 4")
        case True
        then show ?thesis unfolding parse data kind using short [of "(Hci_Acl, opcode = 5)"] by (simp add: layout)
      next
        case False
        then show ?thesis using two fits unfolding parse data kind layout
          by (auto simp: hci_frame_def take_Cons' up packet_data_def masked not_less)
      qed
    next
      case sco
      then have layout: "payload_layout c bytes opcode len = (if ?n < 3 then Some None
          else do { l \<leftarrow> get bytes (LSM_HCI_MON_HEADER_SIZE + 2); Some (Some (3, ucast l, opcode = 7)) })"
        by (auto simp: payload_layout_def small)
      have kind: "hci_record (unat opcode) = Some (Hci_Sco, opcode = 7)" using sco unfolding hci_record_code by auto
      show ?thesis
      proof (cases "?n < 3")
        case True
        then show ?thesis unfolding parse data kind using short [of "(Hci_Sco, opcode = 7)"] by (simp add: layout)
      next
        case False
        then show ?thesis using one fits unfolding parse data kind layout
          by (auto simp: hci_frame_def take_Cons' up packet_data_def masked not_less)
      qed
    next
      case iso
      then have layout: "payload_layout c bytes opcode len = (if ?n < 4 then Some None
          else do { l \<leftarrow> get16 c bytes (LSM_HCI_MON_HEADER_SIZE + 2);
            Some (Some (4, ucast (l AND LSM_HCI_ISO_LENGTH_MASK), opcode = 19)) })"
        by (auto simp: payload_layout_def small)
      have kind: "hci_record (unat opcode) = Some (Hci_Iso, opcode = 19)" using iso unfolding hci_record_code by auto
      show ?thesis
      proof (cases "?n < 4")
        case True
        then show ?thesis unfolding parse data kind using short [of "(Hci_Iso, opcode = 19)"] by (simp add: layout)
      next
        case False
        then show ?thesis using two fits unfolding parse data kind layout
          by (auto simp: hci_frame_def take_Cons' up packet_data_def masked not_less)
      qed
    next
      case other
      then have "payload_layout c bytes opcode len = Some None" by (simp add: payload_layout_def)
      moreover have "hci_record (unat opcode) = None" using other unfolding hci_record_code by auto
      ultimately show ?thesis unfolding parse data by simp
    qed
  qed
qed

text \<open>The links that carry data, and what one of them carried in one direction.\<close>

definition hci_links :: "u8 list list \<Rightarrow> (nat \<times> nat) set" where
  "hci_links datagrams = {link. \<exists>bytes\<in>set datagrams. \<exists>received n. hci_data bytes = Some (link, received, n) \<and> 0 < n}"

definition hci_traffic :: "bool \<Rightarrow> nat \<times> nat \<Rightarrow> u8 list list \<Rightarrow> nat" where
  "hci_traffic receive link datagrams =
     (\<Sum>bytes\<leftarrow>datagrams. case hci_data bytes of
        Some (l, received, n) \<Rightarrow> if l = link \<and> received = receive then n else 0 | None \<Rightarrow> 0)"

lemma data_packets_hci:
  assumes "common_endian_ok c"
  shows "map packet_data (data_packets c bytes) =
    (case hci_data bytes of Some (l, received, n) \<Rightarrow> if 0 < n then [(l, received, n)] else [] | None \<Rightarrow> [])"
  using parse_monitor_data [OF assms, of bytes]
  by (auto simp: data_packets_def packet_data_def unat_gt_0 split: option.splits)

lemma carried_hci:
  assumes "common_endian_ok c"
  shows "carried receive (controller, handle) (concat (map (data_packets c) datagrams)) =
    hci_traffic receive (unat controller, unat handle) datagrams"
proof -
  have key: "packet_key packet = (controller, handle) \<longleftrightarrow> fst (packet_data packet) = (unat controller, unat handle)" for packet
    by (auto simp: packet_key_def packet_data_def word_unat_eq_iff)
  have carried: "carried receive (controller, handle) packets =
      (\<Sum>(l, received, n)\<leftarrow>map packet_data packets. if l = (unat controller, unat handle) \<and> received = receive then n else 0)" for packets
    by (induction packets) (simp_all add: carried_def key, auto simp: packet_data_def)
  show ?thesis unfolding carried
    by (induction datagrams) (auto simp: hci_traffic_def data_packets_hci [OF assms] split: option.splits)
qed

lemma packet_links:
  assumes "common_endian_ok c"
  shows "card (packet_key ` set (concat (map (data_packets c) datagrams))) \<le> card (hci_links datagrams)"
proof -
  let ?nat = "\<lambda>(a :: u16, b :: u16). (unat a, unat b)"
  have "?nat ` packet_key ` set (data_packets c bytes) \<subseteq> hci_links datagrams" if "bytes \<in> set datagrams" for bytes
  proof -
    have "?nat ` packet_key ` set (data_packets c bytes) = fst ` set (map packet_data (data_packets c bytes))"
      by (force simp: packet_key_def packet_data_def image_iff)
    moreover have "fst ` set (map packet_data (data_packets c bytes)) \<subseteq> hci_links datagrams"
      using that unfolding data_packets_hci [OF assms]
      by (cases "hci_data bytes") (force simp: hci_links_def split: if_splits)+
    ultimately show ?thesis by simp
  qed
  then have "?nat ` packet_key ` set (concat (map (data_packets c) datagrams)) \<subseteq> hci_links datagrams" by auto
  moreover have "hci_links datagrams \<subseteq> (\<lambda>bytes. fst (the (hci_data bytes))) ` set datagrams"
    by (force simp: hci_links_def)
  then have "finite (hci_links datagrams)" using finite_surj by blast
  ultimately have "card (?nat ` packet_key ` set (concat (map (data_packets c) datagrams))) \<le> card (hci_links datagrams)"
    by (rule card_mono [rotated])
  moreover have "inj ?nat" by (auto simp: inj_def word_unat_eq_iff)
  ultimately show ?thesis by (simp add: card_image inj_on_subset)
qed

subsection \<open>Properties\<close>

text \<open>
  C26. The reader never reads outside a datagram, and its counters are exact: from a cleared table,
  whatever datagrams arrive, as long as their data frames belong to at most 128 distinct links, the
  table ends well formed (128 slots, at most one per link) and holds for every link and direction the
  sum, capped at 64 bits, of the lengths of the data that the frames of the monitor channel carry by the
  HCI format: ACL, SCO and ISO records with their direction, 12-bit handle and length field, those
  whose data is cut off not counted.
\<close>

theorem bluetooth_totals_exact:
  assumes "common_arith_ok c" "common_endian_ok c" "card (hci_links datagrams) \<le> 128"
  shows "\<exists>links. read_datagrams c datagrams (replicate LSM_HCI_LINK_SLOTS blank_link) = Some links \<and>
    links_ok links \<and>
    (\<forall>receive controller handle. counted_bytes receive links (controller, handle) =
       min (hci_traffic receive (unat controller, unat handle) datagrams) (2 ^ 64 - 1))"
proof -
  have "card (packet_key ` set (concat (map (data_packets c) datagrams))) \<le> LSM_HCI_LINK_SLOTS"
    using packet_links [OF assms(2), of datagrams] assms(3) by (simp add: LSM_HCI_LINK_SLOTS_def)
  from accounted_datagrams [OF assms(1) this] obtain links where
    "read_datagrams c datagrams (replicate LSM_HCI_LINK_SLOTS blank_link) = Some links" "links_ok links"
    "\<And>receive k. counted_bytes receive links k = min (carried receive k (concat (map (data_packets c) datagrams))) (2 ^ 64 - 1)"
    unfolding accounted_def by blast
  then show ?thesis by (intro exI [of _ links]) (simp only: carried_hci [OF assms(2)] simp_thms)
qed

text \<open>An ACL frame received on handle 1 of controller 0 with two bytes of data, twice, a sent ISO frame
  on handle 2 whose length field has its two upper bits set, and a record that carries no data.\<close>

definition acl_datagram :: "u8 list" where
  "acl_datagram = [5, 0, 0, 0, 6, 0, 1, 32, 2, 0, 0xAA, 0xBB]"

definition iso_datagram :: "u8 list" where
  "iso_datagram = [18, 0, 0, 0, 5, 0, 2, 32, 1, 0xC0, 0xAA]"

theorem bluetooth_totals_exact_witness:
  "\<exists>links. read_datagrams ref_common [acl_datagram, [0, 0, 0, 0, 0, 0], iso_datagram, acl_datagram]
     (replicate LSM_HCI_LINK_SLOTS blank_link) = Some links \<and>
   counted_bytes True links (0, 1) = 4 \<and> counted_bytes False links (0, 1) = 0 \<and> counted_bytes False links (0, 2) = 1"
proof -
  let ?datagrams = "[acl_datagram, [0, 0, 0, 0, 0, 0], iso_datagram, acl_datagram]"
  have frames: "hci_data acl_datagram = Some ((0, 1), True, 2)" "hci_data [0, 0, 0, 0, 0, 0] = None"
    "hci_data iso_datagram = Some ((0, 2), False, 1)"
    by (simp_all add: acl_datagram_def iso_datagram_def le16_def hci_frame_def)
  have "hci_links ?datagrams \<subseteq> {(0, 1), (0, 2)}" by (auto simp: hci_links_def frames)
  then have "card (hci_links ?datagrams) \<le> card {(0 :: nat, 1 :: nat), (0, 2)}" by (rule card_mono [rotated]) simp
  then have "card (hci_links ?datagrams) \<le> 128" by simp
  from bluetooth_totals_exact [OF ref_common_ok(2,4) this]
  obtain links where links: "read_datagrams ref_common ?datagrams (replicate LSM_HCI_LINK_SLOTS blank_link) = Some links"
    "\<And>receive controller handle. counted_bytes receive links (controller, handle) =
       min (hci_traffic receive (unat controller, unat handle) ?datagrams) (2 ^ 64 - 1)" by blast
  have "hci_traffic True (0, 1) ?datagrams = 4" "hci_traffic False (0, 1) ?datagrams = 0" "hci_traffic False (0, 2) ?datagrams = 1"
    by (simp_all add: hci_traffic_def frames)
  then show ?thesis using links(1) links(2) [of True 0 1] links(2) [of False 0 1] links(2) [of False 0 2] by auto
qed

end
