(* ===== verification/Startup_Backend.thy ===== *)
theory Startup_Backend
  imports Common_Library Monitor_Types
begin

text \<open>
  Start-up applications (\<^verbatim>\<open>src/startup_backend_linux.c\<close>): the effective inventory of the XDG
  autostart directories and the reversible override written for an entry. GLib's key files, the path
  functions of Common and the environment are parameters (\<open>platform\<close>); directories and files are the
  state (\<open>disk\<close>). The inventory is proved to be the first-directory-wins reading of the directories,
  and an override to take effect in the next inventory and to touch nothing else.
\<close>

record 'f platform =
  infiltratr_path_join :: "nat \<Rightarrow> string \<Rightarrow> string \<Rightarrow> string option"
  infiltratr_path_basename :: "string \<Rightarrow> string"
  infiltratr_string_ends_with :: "string \<Rightarrow> string \<Rightarrow> bool"
  infiltratr_xdg_config_home :: "nat \<Rightarrow> string option"
  g_key_file_load :: "bool \<Rightarrow> string \<Rightarrow> 'f option" \<comment> \<open>comments kept or not\<close>
  g_key_file_get_boolean :: "'f \<Rightarrow> string \<Rightarrow> bool option"
  g_key_file_get_locale_string :: "'f \<Rightarrow> string \<Rightarrow> string option"
  g_key_file_set_boolean :: "'f \<Rightarrow> string \<Rightarrow> bool \<Rightarrow> 'f"
  g_key_file_to_data :: "'f \<Rightarrow> string option"
  getenv :: "string \<Rightarrow> string option"
  is_regular :: "string \<Rightarrow> bool"
  may_execute :: "string \<Rightarrow> bool"

text \<open>What a directory yields: its names, and whether reading them to the end and closing worked.\<close>

datatype listing = Dir_Missing | Dir_Unreadable | Dir "string list" bool

record disk =
  dk_files :: "string \<rightharpoonup> string"
  dk_dirs :: "string \<Rightarrow> listing"

record startup_entry =
  se_id :: string
  se_source_identity :: string
  se_origin_identity :: string
  se_name :: string
  se_command :: string
  se_description :: string
  se_user_entry :: bool
  se_enabled :: bool

subsection \<open>Desktop files\<close>

definition desktop_boolean :: "'f platform \<Rightarrow> 'f \<Rightarrow> string \<Rightarrow> bool \<Rightarrow> bool" where
  "desktop_boolean p file key fallback =
     (case g_key_file_get_boolean p file key of None \<Rightarrow> fallback | Some value \<Rightarrow> value)"

definition desktop_string :: "'f platform \<Rightarrow> 'f \<Rightarrow> string \<Rightarrow> string" where
  "desktop_string p file key =
     (case g_key_file_get_locale_string p file key of None \<Rightarrow> [] | Some value \<Rightarrow> value)"

text \<open>\<^verbatim>\<open>g_strsplit\<close> without a limit: empty pieces are kept, an empty text has none.\<close>

fun split_on :: "char \<Rightarrow> string \<Rightarrow> string list" where
  "split_on d [] = [[]]"
| "split_on d (x # s) =
     (if x = d then [] # split_on d s
      else case split_on d s of [] \<Rightarrow> [[x]] | piece # pieces \<Rightarrow> (x # piece) # pieces)"

definition g_strsplit :: "char \<Rightarrow> string \<Rightarrow> string list" where
  "g_strsplit d s = (if s = [] then [] else split_on d s)"

definition current_desktop_matches :: "'f platform \<Rightarrow> string \<Rightarrow> bool" where
  "current_desktop_matches p candidate =
     (if candidate = [] then False
      else case getenv p ''XDG_CURRENT_DESKTOP'' of
          None \<Rightarrow> False
        | Some current \<Rightarrow> if current = [] then False else list_ex (\<lambda>item. item = candidate) (g_strsplit CHR '':'' current))"

definition desktop_environment_allows :: "'f platform \<Rightarrow> 'f \<Rightarrow> bool" where
  "desktop_environment_allows p file =
     (let only = desktop_string p file ''OnlyShowIn''; not_show = desktop_string p file ''NotShowIn'';
          named = list_ex (\<lambda>item. item \<noteq> [] \<and> current_desktop_matches p item)
      in if only \<noteq> [] \<and> \<not> named (g_strsplit CHR '';'' only) then False
         else if not_show \<noteq> [] \<and> named (g_strsplit CHR '';'' not_show) then False
         else True)"

definition executable_file :: "'f platform \<Rightarrow> string \<Rightarrow> bool" where
  "executable_file p path = (is_regular p path \<and> may_execute p path)"

definition executable_in_path :: "'f platform \<Rightarrow> string \<Rightarrow> bool" where
  "executable_in_path p name =
     (if name = [] then False
      else if CHR ''/'' \<in> set name then executable_file p name
      else case getenv p ''PATH'' of
          None \<Rightarrow> False
        | Some path \<Rightarrow>
            if path = [] then executable_file p name
            else list_ex (\<lambda>item.
                case infiltratr_path_join p LSM_PATH_LEN (if item \<noteq> [] then item else ''.'') name of
                  None \<Rightarrow> False | Some candidate \<Rightarrow> executable_file p candidate)
              (g_strsplit CHR '':'' path))"

definition try_exec_available :: "'f platform \<Rightarrow> 'f \<Rightarrow> bool" where
  "try_exec_available p file =
     (let try_exec = desktop_string p file ''TryExec'' in try_exec = [] \<or> executable_in_path p try_exec)"

definition load_file :: "'f platform \<Rightarrow> bool \<Rightarrow> disk \<Rightarrow> string \<Rightarrow> 'f option" where
  "load_file p keep dk path = Option.bind (dk_files dk path) (g_key_file_load p keep)"

definition read_startup_entry :: "'f platform \<Rightarrow> common \<Rightarrow> 'f \<Rightarrow> string \<Rightarrow> string \<Rightarrow> bool \<Rightarrow> startup_entry option" where
  "read_startup_entry p c file path ident user_entry =
     (let kind = desktop_string p file ''Type'' in
      if kind \<noteq> [] \<and> kind \<noteq> ''Application'' then None
      else
        let name = desktop_string p file ''Name'';
            command = desktop_string p file ''Exec'';
            description = desktop_string p file ''Comment'';
            hidden = desktop_boolean p file ''Hidden'' False;
            gnome_enabled = desktop_boolean p file ''X-GNOME-Autostart-enabled'' True
        in Some
          \<lparr>se_id = infiltratr_copy_string c LSM_NAME_LEN ident,
           se_source_identity = infiltratr_copy_string c LSM_PATH_LEN path,
           se_origin_identity = infiltratr_copy_string c LSM_PATH_LEN path,
           se_name = infiltratr_copy_string c LSM_NAME_LEN (if name \<noteq> [] then name else ident),
           se_command = infiltratr_copy_string c 1024 command,
           se_description = infiltratr_copy_string c 512 description,
           se_user_entry = user_entry,
           se_enabled = (\<not> hidden \<and> gnome_enabled \<and> desktop_environment_allows p file \<and> try_exec_available p file)\<rparr>)"

definition load_startup_entry :: "'f platform \<Rightarrow> common \<Rightarrow> disk \<Rightarrow> string \<Rightarrow> string \<Rightarrow> bool \<Rightarrow> startup_entry option" where
  "load_startup_entry p c dk path ident user_entry =
     (case load_file p False dk path of None \<Rightarrow> None | Some file \<Rightarrow> read_startup_entry p c file path ident user_entry)"

subsection \<open>The inventory\<close>

type_synonym scan = "string list \<times> startup_entry list" \<comment> \<open>names claimed, entries found\<close>

definition desktop_name :: "'f platform \<Rightarrow> string \<Rightarrow> bool" where
  "desktop_name p name \<longleftrightarrow> length ''.desktop'' < length name \<and> infiltratr_string_ends_with p name ''.desktop''"

definition scan_item :: "'f platform \<Rightarrow> common \<Rightarrow> disk \<Rightarrow> string \<times> bool \<Rightarrow> scan \<Rightarrow> string \<Rightarrow> scan option" where
  "scan_item p c dk directory found name =
     (if \<not> desktop_name p name \<or> name \<in> set (fst found) then Some found
      else case infiltratr_path_join p LSM_PATH_LEN (fst directory) name of
          None \<Rightarrow> None
        | Some path \<Rightarrow>
            Some (name # fst found,
              case load_startup_entry p c dk path name (snd directory) of
                None \<Rightarrow> snd found | Some entry \<Rightarrow> snd found @ [entry]))"

definition scan_directory :: "'f platform \<Rightarrow> common \<Rightarrow> disk \<Rightarrow> scan \<Rightarrow> string \<times> bool \<Rightarrow> scan option" where
  "scan_directory p c dk found directory =
     (case dk_dirs dk (fst directory) of
        Dir_Missing \<Rightarrow> Some found
      | Dir_Unreadable \<Rightarrow> None
      | Dir names whole \<Rightarrow>
          (case foldM (scan_item p c dk directory) found names of
             None \<Rightarrow> None | Some found \<Rightarrow> if whole then Some found else None))"

definition user_directory :: "'f platform \<Rightarrow> string option" where
  "user_directory p =
     (case infiltratr_xdg_config_home p LSM_PATH_LEN of
        None \<Rightarrow> None | Some config_home \<Rightarrow> infiltratr_path_join p LSM_PATH_LEN config_home ''autostart'')"

definition config_directories :: "'f platform \<Rightarrow> string list" where
  "config_directories p =
     (let dirs = (case getenv p ''XDG_CONFIG_DIRS'' of None \<Rightarrow> [] | Some dirs \<Rightarrow> dirs)
      in strtok (\<lambda>x. x = CHR '':'') (if dirs = [] then ''/etc/xdg'' else dirs))"

definition scan_system :: "'f platform \<Rightarrow> common \<Rightarrow> disk \<Rightarrow> scan \<Rightarrow> string \<Rightarrow> scan option" where
  "scan_system p c dk found dir =
     (case infiltratr_path_join p LSM_PATH_LEN dir ''autostart'' of
        None \<Rightarrow> None | Some path \<Rightarrow> scan_directory p c dk found (path, False))"

definition lsm_startup_backend_collect :: "'f platform \<Rightarrow> common \<Rightarrow> disk \<Rightarrow> startup_entry list option" where
  "lsm_startup_backend_collect p c dk =
     (case user_directory p of
        None \<Rightarrow> None
      | Some directory \<Rightarrow>
          (case scan_directory p c dk ([], []) (directory, True) of
             None \<Rightarrow> None
           | Some found \<Rightarrow> map_option snd (foldM (scan_system p c dk) found (config_directories p))))"

subsection \<open>Overrides\<close>

datatype startup_error = Invalid_Identity | Load_Failed | Serialise_Failed | Configuration_Path_Too_Long
  | Mkdir_Failed int | Override_Path_Too_Long | Write_Failed int

definition make_directory :: "string \<Rightarrow> disk \<Rightarrow> disk" where
  "make_directory directory dk =
     (case dk_dirs dk directory of
        Dir_Missing \<Rightarrow> dk\<lparr>dk_dirs := (dk_dirs dk)(directory := Dir [] True)\<rparr>
      | _ \<Rightarrow> dk)"

text \<open>A durable write of a file: its bytes, and its name in the directory when it is new.\<close>

definition put_file :: "string \<Rightarrow> string \<Rightarrow> string \<Rightarrow> string \<Rightarrow> disk \<Rightarrow> disk" where
  "put_file directory name path data dk =
     dk\<lparr>dk_files := (dk_files dk)(path \<mapsto> data),
       dk_dirs := (dk_dirs dk)(directory :=
         (case dk_dirs dk directory of
            Dir names whole \<Rightarrow> Dir (if name \<in> set names then names else names @ [name]) whole
          | other \<Rightarrow> other))\<rparr>"

definition override_file :: "'f platform \<Rightarrow> bool \<Rightarrow> 'f \<Rightarrow> 'f" where
  "override_file p enable file =
     g_key_file_set_boolean p (g_key_file_set_boolean p file ''Hidden'' (\<not> enable)) ''X-GNOME-Autostart-enabled'' enable"

text \<open>\<open>made\<close> and \<open>written\<close> are the results of creating the directory and of writing the file.\<close>

definition write_startup_override ::
    "'f platform \<Rightarrow> int \<Rightarrow> int \<Rightarrow> string \<Rightarrow> string \<Rightarrow> bool \<Rightarrow> disk \<Rightarrow> startup_error option \<times> disk" where
  "write_startup_override p made written source_path desktop_id enable dk =
     (case load_file p True dk source_path of
        None \<Rightarrow> (Some Load_Failed, dk)
      | Some file \<Rightarrow>
          (case g_key_file_to_data p (override_file p enable file) of
             None \<Rightarrow> (Some Serialise_Failed, dk)
           | Some data \<Rightarrow>
               (case user_directory p of
                  None \<Rightarrow> (Some Configuration_Path_Too_Long, dk)
                | Some directory \<Rightarrow>
                    if made \<noteq> 0 then (Some (Mkdir_Failed made), dk)
                    else
                      let dk = make_directory directory dk
                      in (case infiltratr_path_join p LSM_PATH_LEN directory desktop_id of
                            None \<Rightarrow> (Some Override_Path_Too_Long, dk)
                          | Some target \<Rightarrow>
                              if written \<noteq> 0 then (Some (Write_Failed written), dk)
                              else (None, put_file directory desktop_id target data dk)))))"

definition lsm_startup_backend_set_enabled ::
    "'f platform \<Rightarrow> int \<Rightarrow> int \<Rightarrow> string \<Rightarrow> string \<Rightarrow> string \<Rightarrow> bool \<Rightarrow> disk \<Rightarrow> startup_error option \<times> disk" where
  "lsm_startup_backend_set_enabled p made written ident source_identity origin_identity enabled dk =
     (let source = (if origin_identity \<noteq> [] then origin_identity else source_identity)
      in if ident = [] \<or> LSM_NAME_LEN \<le> length ident \<or> \<not> desktop_name p ident \<or> CHR ''/'' \<in> set ident \<or> CHR 0x5C \<in> set ident \<or>
            source_identity = [] \<or> source = [] \<or>
            infiltratr_path_basename p source_identity \<noteq> ident \<or> infiltratr_path_basename p source \<noteq> ident
         then (Some Invalid_Identity, dk)
         else write_startup_override p made written source ident enabled dk)"

subsection \<open>The first directory that has a name wins\<close>

definition listed :: "'f platform \<Rightarrow> disk \<Rightarrow> string \<Rightarrow> string list" where
  "listed p dk d = (case dk_dirs dk d of Dir names _ \<Rightarrow> filter (desktop_name p) names | _ \<Rightarrow> [])"

definition readable :: "disk \<Rightarrow> string \<Rightarrow> bool" where
  "readable dk d = (case dk_dirs dk d of Dir_Missing \<Rightarrow> True | Dir_Unreadable \<Rightarrow> False | Dir _ whole \<Rightarrow> whole)"

definition entry_at :: "'f platform \<Rightarrow> common \<Rightarrow> disk \<Rightarrow> string \<times> bool \<Rightarrow> string \<Rightarrow> startup_entry option" where
  "entry_at p c dk directory name =
     Option.bind (infiltratr_path_join p LSM_PATH_LEN (fst directory) name)
       (\<lambda>path. load_startup_entry p c dk path name (snd directory))"

definition unclaimed :: "'f platform \<Rightarrow> disk \<Rightarrow> string set \<Rightarrow> string \<times> bool \<Rightarrow> string list" where
  "unclaimed p dk claimed directory = filter (\<lambda>name. name \<notin> claimed) (listed p dk (fst directory))"

definition scannable :: "'f platform \<Rightarrow> disk \<Rightarrow> string set \<Rightarrow> string \<times> bool \<Rightarrow> bool" where
  "scannable p dk claimed directory \<longleftrightarrow> readable dk (fst directory) \<and>
     list_all (\<lambda>name. infiltratr_path_join p LSM_PATH_LEN (fst directory) name \<noteq> None) (unclaimed p dk claimed directory)"

fun accessible :: "'f platform \<Rightarrow> disk \<Rightarrow> string set \<Rightarrow> (string \<times> bool) list \<Rightarrow> bool" where
  "accessible p dk claimed [] \<longleftrightarrow> True"
| "accessible p dk claimed (d # ds) \<longleftrightarrow>
     scannable p dk claimed d \<and> accessible p dk (claimed \<union> set (listed p dk (fst d))) ds"

fun effective :: "'f platform \<Rightarrow> common \<Rightarrow> disk \<Rightarrow> string set \<Rightarrow> (string \<times> bool) list \<Rightarrow> startup_entry list" where
  "effective p c dk claimed [] = []"
| "effective p c dk claimed (d # ds) =
     List.map_filter (entry_at p c dk d) (unclaimed p dk claimed d) @
     effective p c dk (claimed \<union> set (listed p dk (fst d))) ds"

definition startup_directories :: "'f platform \<Rightarrow> (string \<times> bool) list option" where
  "startup_directories p =
     (case user_directory p of
        None \<Rightarrow> None
      | Some directory \<Rightarrow>
          map_option (\<lambda>dirs. (directory, True) # map (\<lambda>dir. (dir, False)) dirs)
            (those (map (\<lambda>dir. infiltratr_path_join p LSM_PATH_LEN dir ''autostart'') (config_directories p))))"

text \<open>What the kernel promises of directories: distinct names that hold no slash.\<close>

definition disk_ok :: "disk \<Rightarrow> bool" where
  "disk_ok dk \<longleftrightarrow> (\<forall>d names whole. dk_dirs dk d = Dir names whole \<longrightarrow>
     distinct names \<and> (\<forall>name\<in>set names. CHR ''/'' \<notin> set name))"

lemma scan_names:
  assumes "distinct names"
  shows "foldM (scan_item p c dk d) (seen, entries) names =
    (let new = filter (\<lambda>name. name \<notin> set seen) (filter (desktop_name p) names) in
     if list_all (\<lambda>name. infiltratr_path_join p LSM_PATH_LEN (fst d) name \<noteq> None) new
     then Some (rev new @ seen, entries @ List.map_filter (entry_at p c dk d) new) else None)"
  using assms
proof (induction names arbitrary: seen entries)
  case (Cons name names)
  have skip: "filter (\<lambda>x. desktop_name p x \<and> x \<noteq> name \<and> x \<notin> set seen) names =
      filter (\<lambda>x. desktop_name p x \<and> x \<notin> set seen) names"
    using Cons.prems by (intro filter_cong) auto
  have item: "scan_item p c dk d (seen, entries) name =
      (if desktop_name p name \<and> name \<notin> set seen
       then case infiltratr_path_join p LSM_PATH_LEN (fst d) name of
           None \<Rightarrow> None
         | Some path \<Rightarrow> Some (name # seen,
             entries @ (case entry_at p c dk d name of None \<Rightarrow> [] | Some entry \<Rightarrow> [entry]))
       else Some (seen, entries))"
    by (simp add: scan_item_def entry_at_def split: option.split)
  have "distinct names" using Cons.prems by simp
  note rest = Cons.IH [OF this]
  show ?case
  proof (cases "desktop_name p name \<and> name \<notin> set seen")
    case True
    then show ?thesis
      by (cases "infiltratr_path_join p LSM_PATH_LEN (fst d) name"; cases "entry_at p c dk d name")
         (simp_all add: item rest map_filter_simps skip Let_def)
  next
    case False
    then show ?thesis by (auto simp: item rest)
  qed
qed (simp add: map_filter_simps)

lemma scan_directory_eq:
  assumes "disk_ok dk"
  shows "scan_directory p c dk (seen, entries) d =
    (if scannable p dk (set seen) d
     then Some (rev (unclaimed p dk (set seen) d) @ seen,
       entries @ List.map_filter (entry_at p c dk d) (unclaimed p dk (set seen) d)) else None)"
proof (cases "dk_dirs dk (fst d)")
  case (Dir names whole)
  then have "distinct names" using assms by (auto simp: disk_ok_def)
  from scan_names [OF this, of p c dk d seen entries] show ?thesis
    by (simp add: scan_directory_def Dir scannable_def readable_def unclaimed_def listed_def Let_def)
qed (simp_all add: scan_directory_def scannable_def readable_def unclaimed_def listed_def map_filter_simps)

lemma claimed_after: "set (rev (unclaimed p dk (set seen) d) @ seen) = set seen \<union> set (listed p dk (fst d))"
  by (auto simp: unclaimed_def)

lemma scan_directories_eq:
  assumes "disk_ok dk"
  shows "map_option snd (foldM (scan_directory p c dk) (seen, entries) dirs) =
    (if accessible p dk (set seen) dirs then Some (entries @ effective p c dk (set seen) dirs) else None)"
proof (induction dirs arbitrary: seen entries)
  case (Cons d dirs)
  note rest = Cons.IH [of "rev (unclaimed p dk (set seen) d) @ seen", unfolded claimed_after]
  show ?case
    by (cases "scannable p dk (set seen) d") (simp_all add: scan_directory_eq [OF assms] rest)
qed simp

lemma scan_system_eq:
  "foldM (scan_system p c dk) found names =
    (case those (map (\<lambda>dir. infiltratr_path_join p LSM_PATH_LEN dir ''autostart'') names) of
       None \<Rightarrow> None | Some dirs \<Rightarrow> foldM (scan_directory p c dk) found (map (\<lambda>dir. (dir, False)) dirs))"
  by (induction names arbitrary: found) (auto simp: scan_system_def split: option.split)

lemma collect_eq:
  assumes "disk_ok dk"
  shows "lsm_startup_backend_collect p c dk =
    (case startup_directories p of
       None \<Rightarrow> None
     | Some dirs \<Rightarrow> if accessible p dk {} dirs then Some (effective p c dk {} dirs) else None)"
proof (cases "user_directory p")
  case (Some directory)
  show ?thesis
  proof (cases "those (map (\<lambda>dir. infiltratr_path_join p LSM_PATH_LEN dir ''autostart'') (config_directories p))")
    case dirs: (Some dirs)
    let ?dirs = "(directory, True) # map (\<lambda>dir. (dir, False)) dirs"
    have "lsm_startup_backend_collect p c dk = map_option snd (foldM (scan_directory p c dk) ([], []) ?dirs)"
      by (simp add: lsm_startup_backend_collect_def Some dirs scan_system_eq split: option.split)
    also have "\<dots> = (if accessible p dk {} ?dirs then Some (effective p c dk {} ?dirs) else None)"
      by (simp only: scan_directories_eq [OF assms] list.set append.simps)
    finally show ?thesis by (simp only: startup_directories_def Some dirs option.simps)
  qed (simp add: lsm_startup_backend_collect_def startup_directories_def Some scan_system_eq split: option.split)
qed (simp add: lsm_startup_backend_collect_def startup_directories_def)

lemma split_Cons_ex:
  "(\<exists>before d after. x # xs = before @ d # after \<and> Q before d) \<longleftrightarrow>
   Q [] x \<or> (\<exists>before d after. xs = before @ d # after \<and> Q (x # before) d)" (is "?l \<longleftrightarrow> ?r")
proof
  assume ?l
  then obtain before d after where "x # xs = before @ d # after" "Q before d" by blast
  then show ?r by (cases before) auto
next
  assume ?r
  then show ?l by (metis append_Cons append_Nil)
qed

lemma effective_iff:
  "entry \<in> set (effective p c dk claimed dirs) \<longleftrightarrow>
   (\<exists>before d after. dirs = before @ d # after \<and> (\<exists>name. name \<in> set (listed p dk (fst d)) \<and> name \<notin> claimed \<and>
      (\<forall>d'\<in>set before. name \<notin> set (listed p dk (fst d'))) \<and> entry_at p c dk d name = Some entry))"
proof (induction dirs arbitrary: claimed)
  case (Cons d dirs)
  have own: "entry \<in> set (List.map_filter (entry_at p c dk d) (unclaimed p dk claimed d)) \<longleftrightarrow>
      (\<exists>name. name \<in> set (listed p dk (fst d)) \<and> name \<notin> claimed \<and> entry_at p c dk d name = Some entry)"
    by (auto simp: map_filter_def unclaimed_def image_iff)
  show ?case
    unfolding split_Cons_ex effective.simps set_append Un_iff own Cons.IH by simp
qed simp

subsection \<open>What an override changes\<close>

text \<open>
  The documented behaviour relied on: a joined path ends in its last component and fits its buffer;
  a key file written and read again has the same entries; setting a boolean sets that entry only.
\<close>

definition paths_ok :: "'f platform \<Rightarrow> bool" where
  "paths_ok p \<longleftrightarrow> (\<forall>cap d name path. infiltratr_path_join p cap d name = Some path \<longrightarrow> CHR ''/'' \<notin> set name \<longrightarrow>
     infiltratr_path_basename p path = name \<and> length path < cap)"

definition key_files_ok :: "'f platform \<Rightarrow> bool" where
  "key_files_ok p \<longleftrightarrow>
     (\<forall>f data. g_key_file_to_data p f = Some data \<longrightarrow>
        (\<exists>g. g_key_file_load p False data = Some g \<and>
           g_key_file_get_boolean p g = g_key_file_get_boolean p f \<and>
           g_key_file_get_locale_string p g = g_key_file_get_locale_string p f)) \<and>
     (\<forall>f v. \<forall>k\<in>{''Hidden'', ''X-GNOME-Autostart-enabled''}. g_key_file_get_boolean p (g_key_file_set_boolean p f k v) = (g_key_file_get_boolean p f)(k \<mapsto> v)) \<and>
     (\<forall>f k v k'. k' \<noteq> k \<longrightarrow> g_key_file_get_locale_string p (g_key_file_set_boolean p f k v) k' =
        g_key_file_get_locale_string p f k')"

definition overridden :: "'f platform \<Rightarrow> common \<Rightarrow> 'f \<Rightarrow> string \<Rightarrow> string \<Rightarrow> bool \<Rightarrow> startup_entry option" where
  "overridden p c file target ident enabled =
     map_option (\<lambda>entry. entry\<lparr>se_enabled := enabled \<and> desktop_environment_allows p file \<and> try_exec_available p file\<rparr>)
       (read_startup_entry p c file target ident True)"

lemma read_override:
  assumes "key_files_ok p" "g_key_file_to_data p (override_file p enabled file) = Some data"
  obtains g where "g_key_file_load p False data = Some g"
    "read_startup_entry p c g target ident True = overridden p c file target ident enabled"
proof -
  obtain g where g: "g_key_file_load p False data = Some g"
    "g_key_file_get_boolean p g = g_key_file_get_boolean p (override_file p enabled file)"
    "g_key_file_get_locale_string p g = g_key_file_get_locale_string p (override_file p enabled file)"
    using assms unfolding key_files_ok_def by blast
  have str: "desktop_string p g k = desktop_string p file k" if "k \<noteq> ''Hidden''" "k \<noteq> ''X-GNOME-Autostart-enabled''" for k
    using assms(1) that by (simp add: desktop_string_def g override_file_def key_files_ok_def)
  have bools: "desktop_boolean p g ''Hidden'' x = (\<not> enabled)"
    "desktop_boolean p g ''X-GNOME-Autostart-enabled'' x = enabled" for x
    using assms(1) by (simp_all add: desktop_boolean_def g override_file_def key_files_ok_def)
  have "read_startup_entry p c g target ident True = overridden p c file target ident enabled"
    by (simp add: read_startup_entry_def overridden_def str bools desktop_environment_allows_def try_exec_available_def
        Let_def)
  then show thesis by (rule that [OF g(1)])
qed

lemma set_enabled_success:
  assumes "lsm_startup_backend_set_enabled p made written ident source origin enabled dk = (None, dk')"
  obtains f data directory target where
    "load_file p True dk (if origin \<noteq> [] then origin else source) = Some f"
    "g_key_file_to_data p (override_file p enabled f) = Some data"
    "user_directory p = Some directory" "infiltratr_path_join p LSM_PATH_LEN directory ident = Some target"
    "dk' = put_file directory ident target data (make_directory directory dk)"
    "desktop_name p ident" "CHR ''/'' \<notin> set ident"
  using assms
  by (auto simp: lsm_startup_backend_set_enabled_def write_startup_override_def Let_def
      split: if_split_asm option.split_asm)

lemma listed_override:
  assumes "readable dk directory" "desktop_name p ident"
  shows "filter (\<lambda>name. name \<noteq> ident) (listed p (put_file directory ident target data (make_directory directory dk)) d) =
      filter (\<lambda>name. name \<noteq> ident) (listed p dk d)"
    and "set (listed p (put_file directory ident target data (make_directory directory dk)) d) =
      set (listed p dk d) \<union> (if d = directory then {ident} else {})"
    and "readable (put_file directory ident target data (make_directory directory dk)) d = readable dk d"
  using assms
  by (auto simp: listed_def put_file_def make_directory_def readable_def split: listing.splits)

lemma entry_at_override:
  assumes p: "paths_ok p" and target: "infiltratr_path_join p LSM_PATH_LEN directory ident = Some target"
    and "CHR ''/'' \<notin> set ident" "CHR ''/'' \<notin> set name" "name \<noteq> ident"
  shows "entry_at p c (put_file directory ident target data (make_directory directory dk)) d name = entry_at p c dk d name"
proof (cases "infiltratr_path_join p LSM_PATH_LEN (fst d) name")
  case (Some path)
  have "path \<noteq> target" using p target Some assms(3-5) unfolding paths_ok_def by metis
  then show ?thesis
    by (simp add: entry_at_def Some load_startup_entry_def load_file_def put_file_def make_directory_def split: listing.split)
qed (simp add: entry_at_def)

lemma entry_at_source:
  assumes "paths_ok p" "common_text_ok c" "CHR ''/'' \<notin> set name" "entry_at p c dk d name = Some entry"
  shows "infiltratr_path_basename p (se_source_identity entry) = name"
proof -
  from assms(4) obtain path f where path: "infiltratr_path_join p LSM_PATH_LEN (fst d) name = Some path"
    and entry: "read_startup_entry p c f path name (snd d) = Some entry"
    by (auto simp: entry_at_def load_startup_entry_def bind_eq_Some_conv split: option.split_asm)
  from path assms(1,3) have "infiltratr_path_basename p path = name" "length path < LSM_PATH_LEN"
    unfolding paths_ok_def by blast+
  then show ?thesis
    using entry assms(2) by (auto simp: read_startup_entry_def common_text_ok_def Let_def split: if_split_asm)
qed

definition overrides :: "'f platform \<Rightarrow> string \<Rightarrow> string \<Rightarrow> string \<Rightarrow> string \<Rightarrow> disk \<Rightarrow> disk \<Rightarrow> bool" where
  "overrides p directory ident target data dk dk' \<longleftrightarrow> paths_ok p \<and> disk_ok dk \<and> readable dk directory \<and>
     desktop_name p ident \<and> CHR ''/'' \<notin> set ident \<and>
     infiltratr_path_join p LSM_PATH_LEN directory ident = Some target \<and>
     dk' = put_file directory ident target data (make_directory directory dk)"

lemma overrides_disk_ok: "overrides p directory ident target data dk dk' \<Longrightarrow> disk_ok dk'"
  by (auto simp: overrides_def disk_ok_def put_file_def make_directory_def split: listing.split_asm if_split_asm)

lemma listed_no_slash: "disk_ok dk \<Longrightarrow> name \<in> set (listed p dk d) \<Longrightarrow> CHR ''/'' \<notin> set name"
  by (cases "dk_dirs dk d") (auto simp: disk_ok_def listed_def)

lemma overrides_unclaimed:
  assumes "overrides p directory ident target data dk dk'"
  shows "unclaimed p dk' (insert ident C) d = filter (\<lambda>name. name \<noteq> ident) (unclaimed p dk C d)"
    and "insert ident C \<union> set (listed p dk' (fst d)) = insert ident (C \<union> set (listed p dk (fst d)))"
    and "readable dk' d' = readable dk d'"
proof -
  note l = listed_override [of dk directory p ident target data]
  have swap: "filter (\<lambda>name. name \<notin> insert ident C) xs = filter (\<lambda>name. name \<notin> C) (filter (\<lambda>name. name \<noteq> ident) xs)" for xs
    by (simp add: conj_commute)
  have "filter (\<lambda>name. name \<noteq> ident) (listed p dk' (fst d)) = filter (\<lambda>name. name \<noteq> ident) (listed p dk (fst d))"
    using assms l(1) [of "fst d"] unfolding overrides_def by blast
  then show "unclaimed p dk' (insert ident C) d = filter (\<lambda>name. name \<noteq> ident) (unclaimed p dk C d)"
    unfolding unclaimed_def swap by (simp only: filter_filter conj_commute)
  show "insert ident C \<union> set (listed p dk' (fst d)) = insert ident (C \<union> set (listed p dk (fst d)))"
    using assms l(2) [of "fst d"] unfolding overrides_def by auto
  show "readable dk' d' = readable dk d'" using assms l(3) unfolding overrides_def by blast
qed

lemma overrides_accessible:
  assumes "overrides p directory ident target data dk dk'" "accessible p dk C dirs"
  shows "accessible p dk' (insert ident C) dirs"
  using assms(2)
proof (induction dirs arbitrary: C)
  case (Cons d dirs)
  then show ?case
    using overrides_unclaimed(1,2) [OF assms(1), of C d] overrides_unclaimed(3) [OF assms(1), of "fst d"]
    by (simp add: scannable_def list_all_iff)
qed simp

lemma overrides_entries:
  assumes o: "overrides p directory ident target data dk dk'" and c: "common_text_ok c"
    and names: "set names \<subseteq> set (listed p dk (fst d))"
  shows "set (List.map_filter (entry_at p c dk' d) (filter (\<lambda>name. name \<noteq> ident) names)) =
    {entry \<in> set (List.map_filter (entry_at p c dk d) names). infiltratr_path_basename p (se_source_identity entry) \<noteq> ident}"
proof -
  have ok: "paths_ok p" "disk_ok dk" using o by (simp_all add: overrides_def)
  have same: "entry_at p c dk' d name = entry_at p c dk d name" if "name \<in> set names" "name \<noteq> ident" for name
    using o that names listed_no_slash [OF ok(2)] entry_at_override [OF ok(1), of directory ident target name c data dk d]
    by (auto simp: overrides_def)
  have source: "infiltratr_path_basename p (se_source_identity entry) = name"
    if "name \<in> set names" "entry_at p c dk d name = Some entry" for name entry
    using that names listed_no_slash [OF ok(2)] entry_at_source [OF ok(1) c] by blast
  have members: "entry \<in> set (List.map_filter f xs) \<longleftrightarrow> (\<exists>x\<in>set xs. f x = Some entry)" for f :: "string \<Rightarrow> startup_entry option" and xs entry
    by (auto simp: map_filter_def image_iff)
  show ?thesis using same source by (auto simp: members)
qed

lemma overrides_effective:
  assumes o: "overrides p directory ident target data dk dk'" and c: "common_text_ok c"
  shows "set (effective p c dk' (insert ident C) dirs) =
    {entry \<in> set (effective p c dk C dirs). infiltratr_path_basename p (se_source_identity entry) \<noteq> ident}"
proof (induction dirs arbitrary: C)
  case (Cons d dirs)
  have sub: "set (unclaimed p dk C d) \<subseteq> set (listed p dk (fst d))" by (auto simp: unclaimed_def)
  show ?case
    using overrides_entries [OF o c sub]
    by (simp only: effective.simps overrides_unclaimed [OF o] set_append Cons.IH) blast
qed simp

lemma set_map_filter: "set (List.map_filter f xs) = {y. \<exists>x\<in>set xs. f x = Some y}"
  by (induction xs) (auto simp: map_filter_simps split: option.split)

lemma entry_at_overridden:
  assumes k: "key_files_ok p" and o: "overrides p directory ident target data dk dk'"
    and "g_key_file_to_data p (override_file p enabled f) = Some data"
  shows "entry_at p c dk' (directory, True) ident = overridden p c f target ident enabled"
proof -
  obtain g where "g_key_file_load p False data = Some g"
    "read_startup_entry p c g target ident True = overridden p c f target ident enabled"
    using read_override [OF k assms(3), of c target ident] by blast
  then show ?thesis using o
    by (simp add: overrides_def entry_at_def load_startup_entry_def load_file_def put_file_def)
qed

lemma effective_overridden:
  assumes k: "key_files_ok p" and o: "overrides p directory ident target data dk dk'" and c: "common_text_ok c"
    and data: "g_key_file_to_data p (override_file p enabled f) = Some data"
  shows "set (effective p c dk' {} ((directory, True) # dirs)) =
    {entry \<in> set (effective p c dk {} ((directory, True) # dirs)).
       infiltratr_path_basename p (se_source_identity entry) \<noteq> ident} \<union>
    set_option (overridden p c f target ident enabled)"
proof -
  let ?d = "(directory, True)" and ?old = "set (listed p dk directory)"
  have listed': "set (listed p dk' directory) = insert ident ?old"
    using overrides_unclaimed(2) [OF o, of "{}" ?d] o listed_override(2) [of dk directory p ident target data directory]
    by (simp add: overrides_def)
  have "set (List.map_filter (entry_at p c dk' ?d) (unclaimed p dk' {} ?d)) =
      set (List.map_filter (entry_at p c dk' ?d) (filter (\<lambda>name. name \<noteq> ident) (unclaimed p dk {} ?d))) \<union>
      set_option (entry_at p c dk' ?d ident)"
    by (auto simp: set_map_filter unclaimed_def listed')
  also have "\<dots> = {entry \<in> set (List.map_filter (entry_at p c dk ?d) (unclaimed p dk {} ?d)).
      infiltratr_path_basename p (se_source_identity entry) \<noteq> ident} \<union> set_option (overridden p c f target ident enabled)"
    using overrides_entries [OF o c, of "unclaimed p dk {} ?d" ?d] entry_at_overridden [OF k o data]
    by (simp add: unclaimed_def)
  finally have user: "set (List.map_filter (entry_at p c dk' ?d) (unclaimed p dk' {} ?d)) = \<dots>" .
  show ?thesis
    using overrides_effective [OF o c, of ?old dirs] by (simp add: user listed') blast
qed

lemma accessible_overridden:
  assumes o: "overrides p directory ident target data dk dk'" and a: "accessible p dk {} ((directory, True) # dirs)"
  shows "accessible p dk' {} ((directory, True) # dirs)"
proof -
  have listed': "set (listed p dk' directory) = insert ident (set (listed p dk directory))"
    using o listed_override(2) [of dk directory p ident target data directory] by (simp add: overrides_def)
  have "infiltratr_path_join p LSM_PATH_LEN directory ident \<noteq> None" using o by (simp add: overrides_def)
  then have "scannable p dk' {} (directory, True)"
    using a overrides_unclaimed(3) [OF o, of directory]
    by (auto simp: scannable_def unclaimed_def list_all_iff listed')
  then show ?thesis using overrides_accessible [OF o, of "set (listed p dk directory)" dirs] a by (simp add: listed')
qed

lemma set_enabled_failure:
  "lsm_startup_backend_set_enabled p made written ident source origin enabled dk = (Some failure, dk') \<Longrightarrow>
   dk_files dk' = dk_files dk"
  by (auto simp: lsm_startup_backend_set_enabled_def write_startup_override_def make_directory_def Let_def
      split: if_split_asm option.split_asm listing.split_asm)

lemma effective_distinct:
  assumes p: "paths_ok p" and c: "common_text_ok c" and dk: "disk_ok dk"
  shows "distinct (map (\<lambda>entry. infiltratr_path_basename p (se_source_identity entry)) (effective p c dk claimed dirs)) \<and>
    (\<forall>entry\<in>set (effective p c dk claimed dirs). infiltratr_path_basename p (se_source_identity entry) \<notin> claimed)"
proof (induction dirs arbitrary: claimed)
  case (Cons d dirs)
  let ?source = "\<lambda>entry. infiltratr_path_basename p (se_source_identity entry)"
  have own: "map ?source (List.map_filter (entry_at p c dk d) names) = filter (\<lambda>name. entry_at p c dk d name \<noteq> None) names"
    if "set names \<subseteq> set (listed p dk (fst d))" for names
    using that
  proof (induction names)
    case (Cons name names)
    then have "CHR ''/'' \<notin> set name" using listed_no_slash [OF dk, of name p "fst d"] by simp
    then show ?case using Cons entry_at_source [OF p c, of name dk d] by (auto simp: map_filter_simps split: option.split)
  qed (simp add: map_filter_simps)
  have sub: "set (unclaimed p dk claimed d) \<subseteq> set (listed p dk (fst d)) - claimed" by (auto simp: unclaimed_def)
  have "distinct (listed p dk (fst d))"
    using dk by (cases "dk_dirs dk (fst d)") (simp_all add: listed_def disk_ok_def, blast intro: distinct_filter)
  then have dist: "distinct (unclaimed p dk claimed d)" by (simp add: unclaimed_def)
  let ?head = "List.map_filter (entry_at p c dk d) (unclaimed p dk claimed d)"
  have head: "map ?source ?head = filter (\<lambda>name. entry_at p c dk d name \<noteq> None) (unclaimed p dk claimed d)"
    using sub by (intro own) blast
  have "?source ` set ?head \<subseteq> set (listed p dk (fst d)) - claimed"
    using arg_cong [OF head, of set] sub by auto
  then show ?case
    using Cons.IH [of "claimed \<union> set (listed p dk (fst d))"] dist arg_cong [OF head, of distinct] by auto
qed simp

subsection \<open>Properties\<close>

text \<open>
  C14. The inventory is the first-directory-wins reading of the autostart directories, the user's
  first: it is collected exactly when every path fits and every directory can be read to its end or
  is missing; then an entry is in it exactly when some directory lists its file name, no earlier
  directory lists the same name (not even a broken file) and the file there loads; and no two entries
  have the same file name.
\<close>

theorem startup_first_directory_wins:
  assumes "paths_ok p" "common_text_ok c" "disk_ok dk"
  shows "(lsm_startup_backend_collect p c dk \<noteq> None \<longleftrightarrow>
      (\<exists>dirs. startup_directories p = Some dirs \<and> accessible p dk {} dirs)) \<and>
    (\<forall>entries. lsm_startup_backend_collect p c dk = Some entries \<longrightarrow>
      distinct (map (\<lambda>entry. infiltratr_path_basename p (se_source_identity entry)) entries) \<and>
      (\<forall>entry. entry \<in> set entries \<longleftrightarrow>
        (\<exists>before d after. startup_directories p = Some (before @ d # after) \<and>
          (\<exists>name\<in>set (listed p dk (fst d)). (\<forall>d'\<in>set before. name \<notin> set (listed p dk (fst d'))) \<and>
             entry_at p c dk d name = Some entry))))"
proof (cases "startup_directories p")
  case (Some dirs)
  have "entry \<in> set (effective p c dk {} dirs) \<longleftrightarrow>
      (\<exists>before d after. dirs = before @ d # after \<and>
        (\<exists>name\<in>set (listed p dk (fst d)). (\<forall>d'\<in>set before. name \<notin> set (listed p dk (fst d'))) \<and>
           entry_at p c dk d name = Some entry))" for entry
    unfolding effective_iff by blast
  then show ?thesis
    using collect_eq [OF assms(3), of p c] effective_distinct [OF assms, of "{}" dirs]
    by (simp only: Some option.simps) (auto split: if_split_asm)
qed (simp add: collect_eq [OF assms(3)])

text \<open>
  C15. Enabling or disabling an entry works and is contained: after a successful override the next
  inventory is the old one with the entries of that file name replaced by the user's copy of the
  source file, which is enabled exactly when that was asked for and the desktop environment and the
  program it needs allow it; only the one file in the user's autostart directory was written.
\<close>

theorem startup_override_effective:
  assumes "paths_ok p" "key_files_ok p" "common_text_ok c" "disk_ok dk"
    and "lsm_startup_backend_set_enabled p made written ident source origin enabled dk = (None, dk')"
    and "lsm_startup_backend_collect p c dk = Some entries"
  shows "\<exists>f directory target entries'. load_file p True dk (if origin \<noteq> [] then origin else source) = Some f \<and>
    user_directory p = Some directory \<and> infiltratr_path_join p LSM_PATH_LEN directory ident = Some target \<and>
    (\<forall>path. path \<noteq> target \<longrightarrow> dk_files dk' path = dk_files dk path) \<and>
    lsm_startup_backend_collect p c dk' = Some entries' \<and>
    set entries' = {entry \<in> set entries. infiltratr_path_basename p (se_source_identity entry) \<noteq> ident} \<union>
      set_option (overridden p c f target ident enabled)"
proof -
  obtain f data directory target where f: "load_file p True dk (if origin \<noteq> [] then origin else source) = Some f"
      "g_key_file_to_data p (override_file p enabled f) = Some data"
    and d: "user_directory p = Some directory" "infiltratr_path_join p LSM_PATH_LEN directory ident = Some target"
    and dk': "dk' = put_file directory ident target data (make_directory directory dk)"
    and name: "desktop_name p ident" "CHR ''/'' \<notin> set ident"
    using set_enabled_success [OF assms(5)] by metis
  obtain dirs where dirs: "startup_directories p = Some ((directory, True) # dirs)"
    and a: "accessible p dk {} ((directory, True) # dirs)" and entries: "entries = effective p c dk {} ((directory, True) # dirs)"
    using assms(6) by (auto simp: collect_eq [OF assms(4)] startup_directories_def d split: option.split_asm if_split_asm)
  have o: "overrides p directory ident target data dk dk'"
    using assms(1,4) a d(2) dk' name by (simp add: overrides_def scannable_def)
  have "dk_files dk' path = dk_files dk path" if "path \<noteq> target" for path
    using that by (simp add: dk' put_file_def make_directory_def split: listing.split)
  moreover have "lsm_startup_backend_collect p c dk' = Some (effective p c dk' {} ((directory, True) # dirs))"
    by (simp only: collect_eq [OF overrides_disk_ok [OF o]] dirs option.simps accessible_overridden [OF o a] if_True)
  ultimately show ?thesis
    using f(1) d effective_overridden [OF assms(2) o assms(3) f(2), of dirs] unfolding entries by blast
qed

text \<open>A platform whose key files hold the two switches, and a disk with one system entry.\<close>

definition switch_char :: "bool option \<Rightarrow> char" where
  "switch_char b = (case b of None \<Rightarrow> CHR ''-'' | Some True \<Rightarrow> CHR ''1'' | Some False \<Rightarrow> CHR ''0'')"

definition char_switch :: "char \<Rightarrow> bool option" where
  "char_switch x = (if x = CHR ''1'' then Some True else if x = CHR ''0'' then Some False else None)"

definition ref_platform :: "(bool option \<times> bool option) platform" where
  "ref_platform =
     \<lparr>infiltratr_path_join = (\<lambda>cap d name. let path = d @ CHR ''/'' # name in if length path < cap then Some path else None),
      infiltratr_path_basename = (\<lambda>s. rev (takeWhile (\<lambda>x. x \<noteq> CHR ''/'') (rev s))),
      infiltratr_string_ends_with = (\<lambda>s t. drop (length s - length t) s = t),
      infiltratr_xdg_config_home = (\<lambda>_. Some ''/h''),
      g_key_file_load = (\<lambda>_ data. case data of [a, b] \<Rightarrow> Some (char_switch a, char_switch b) | _ \<Rightarrow> None),
      g_key_file_get_boolean = (\<lambda>f k. if k = ''Hidden'' then fst f
        else if k = ''X-GNOME-Autostart-enabled'' then snd f else None),
      g_key_file_get_locale_string = (\<lambda>_ _. None),
      g_key_file_set_boolean = (\<lambda>f k v. if k = ''Hidden'' then (Some v, snd f)
        else if k = ''X-GNOME-Autostart-enabled'' then (fst f, Some v) else f),
      g_key_file_to_data = (\<lambda>f. Some [switch_char (fst f), switch_char (snd f)]),
      getenv = (\<lambda>_. None), is_regular = (\<lambda>_. False), may_execute = (\<lambda>_. False)\<rparr>"

definition sample_disk :: disk where
  "sample_disk = \<lparr>dk_files = [''/etc/xdg/autostart/a.desktop'' \<mapsto> ''--''],
     dk_dirs = (\<lambda>_. Dir_Missing)(''/etc/xdg/autostart'' := Dir [''a.desktop''] True)\<rparr>"

lemma ref_platform_ok: "paths_ok ref_platform" "key_files_ok ref_platform"
proof -
  have "takeWhile (\<lambda>x. x \<noteq> CHR ''/'') (rev name @ CHR ''/'' # s) = rev name" if "CHR ''/'' \<notin> set name" for name s
    using that by (induction name rule: rev_induct) auto
  then show "paths_ok ref_platform"
    by (auto simp: paths_ok_def ref_platform_def Let_def split: if_split_asm)
  have "char_switch (switch_char b) = b" for b
    by (cases b) (auto simp: switch_char_def char_switch_def split: bool.split)
  then show "key_files_ok ref_platform" by (auto simp: key_files_ok_def ref_platform_def)
qed

lemma sample_disk_ok: "disk_ok sample_disk"
  by (simp add: disk_ok_def sample_disk_def)

lemma sample_startup_directories:
  "startup_directories ref_platform = Some [(''/h/autostart'', True), (''/etc/xdg/autostart'', False)]"
  by code_simp

lemma sample_collect:
  "lsm_startup_backend_collect ref_platform ref_common sample_disk =
     Some [\<lparr>se_id = ''a.desktop'', se_source_identity = ''/etc/xdg/autostart/a.desktop'',
       se_origin_identity = ''/etc/xdg/autostart/a.desktop'', se_name = ''a.desktop'', se_command = [],
       se_description = [], se_user_entry = False, se_enabled = True\<rparr>]"
  by code_simp

lemma sample_set_enabled:
  "fst (lsm_startup_backend_set_enabled ref_platform 0 0 ''a.desktop'' ''/etc/xdg/autostart/a.desktop'' [] False sample_disk) = None"
  by code_simp

theorem startup_first_directory_wins_witness:
  "lsm_startup_backend_collect ref_platform ref_common sample_disk \<noteq> None \<and>
   (\<exists>dirs. startup_directories ref_platform = Some dirs \<and> accessible ref_platform sample_disk {} dirs)"
  using startup_first_directory_wins [OF ref_platform_ok(1) ref_common_ok(1) sample_disk_ok]
  by (simp add: sample_collect)

theorem startup_override_effective_witness:
  "\<exists>dk' entries'. lsm_startup_backend_set_enabled ref_platform 0 0 ''a.desktop'' ''/etc/xdg/autostart/a.desktop'' []
       False sample_disk = (None, dk') \<and>
     lsm_startup_backend_collect ref_platform ref_common dk' = Some entries' \<and>
     filter se_enabled entries' = []"
proof -
  obtain dk' where set: "lsm_startup_backend_set_enabled ref_platform 0 0 ''a.desktop'' ''/etc/xdg/autostart/a.desktop'' []
      False sample_disk = (None, dk')"
    using sample_set_enabled by (metis prod.collapse)
  have "infiltratr_path_basename ref_platform ''/etc/xdg/autostart/a.desktop'' = ''a.desktop''" by code_simp
  then show ?thesis
    using startup_override_effective [OF ref_platform_ok ref_common_ok(1) sample_disk_ok set sample_collect] set
    by (fastforce simp: overridden_def filter_empty_conv)
qed

end
