(* ===== verification/Process_Stat.thy ===== *)
theory Process_Stat
  imports Common_Library Monitor_Types
begin

text \<open>
  The reader of \<^verbatim>\<open>/proc/PID/stat\<close> (\<^verbatim>\<open>src/process_backend_linux.c\<close>), on which process identity, CPU
  accounting and process control rest. The second field is the program's own name: it may hold
  spaces and parentheses. The record is proved to be read back whatever the name is, and a record
  that ends early or has a malformed number to be rejected.
\<close>

definition INT_MAX :: int where "INT_MAX = 2 ^ 31 - 1"

definition INT_MIN :: int where "INT_MIN = - (2 ^ 31)"

datatype process_priority = Priority_High | Priority_Above_Normal | Priority_Normal | Priority_Below_Normal | Priority_Low

definition priority_from_nice :: "int \<Rightarrow> process_priority" where
  "priority_from_nice nice =
     (if nice \<le> -10 then Priority_High else if nice < 0 then Priority_Above_Normal
      else if nice = 0 then Priority_Normal else if nice \<le> 10 then Priority_Below_Normal else Priority_Low)"

fun nice_from_priority :: "process_priority \<Rightarrow> int" where
  "nice_from_priority Priority_High = -10"
| "nice_from_priority Priority_Above_Normal = -5"
| "nice_from_priority Priority_Normal = 0"
| "nice_from_priority Priority_Below_Normal = 5"
| "nice_from_priority Priority_Low = 10"

definition state_name :: "char \<Rightarrow> string" where
  "state_name state =
     (if state = CHR ''R'' then ''Running'' else if state = CHR ''S'' then ''Sleeping''
      else if state = CHR ''D'' then ''Disk sleep'' else if state = CHR ''Z'' then ''Zombie''
      else if state = CHR ''T'' \<or> state = CHR ''t'' then ''Stopped'' else if state = CHR ''I'' then ''Idle''
      else if state = CHR ''X'' \<or> state = CHR ''x'' then ''Dead'' else if state = CHR ''W'' then ''Paging''
      else ''Unknown'')"

text \<open>What the reader leaves in the process row and in its native record.\<close>

record process_stat =
  ps_name :: string
  ps_ppid :: u64
  ps_threads :: u32
  ps_nice_value :: int
  ps_page_faults :: u64
  ps_state :: string
  ps_cpu_ticks :: u64
  ps_start_ticks :: u64

text \<open>The locals of the field loop.\<close>

record stat_fields =
  sf_state :: char
  sf_ppid :: "u64 option"
  sf_start :: "u64 option"
  sf_utime :: u64
  sf_stime :: u64
  sf_minflt :: u64
  sf_majflt :: u64
  sf_nice :: int
  sf_threads :: u32

definition no_stat_fields :: stat_fields where
  "no_stat_fields = \<lparr>sf_state = CHR ''?'', sf_ppid = None, sf_start = None, sf_utime = 0, sf_stime = 0,
     sf_minflt = 0, sf_majflt = 0, sf_nice = 0, sf_threads = 0\<rparr>"

definition stat_field :: "common \<Rightarrow> nat \<Rightarrow> string \<Rightarrow> stat_fields \<Rightarrow> stat_fields option" where
  "stat_field c field token f =
     (let number = infiltratr_parse_u64 c token 10
      in if field = 3 then Some (f\<lparr>sf_state := char_at token 0\<rparr>)
         else if field = 4 then map_option (\<lambda>v. f\<lparr>sf_ppid := Some v\<rparr>) number
         else if field = 10 then map_option (\<lambda>v. f\<lparr>sf_minflt := v\<rparr>) number
         else if field = 12 then map_option (\<lambda>v. f\<lparr>sf_majflt := v\<rparr>) number
         else if field = 14 then map_option (\<lambda>v. f\<lparr>sf_utime := v\<rparr>) number
         else if field = 15 then map_option (\<lambda>v. f\<lparr>sf_stime := v\<rparr>) number
         else if field = 19 then
           map_option (\<lambda>v. f\<lparr>sf_nice := v\<rparr>) (infiltratr_parse_i64_range c token 10 INT_MIN INT_MAX)
         else if field = 20 then
           map_option (\<lambda>v. f\<lparr>sf_threads := (if v \<le> ucast UINT_MAX then ucast v else UINT_MAX)\<rparr>) number
         else if field = 22 then map_option (\<lambda>v. f\<lparr>sf_start := Some v\<rparr>) number
         else Some f)"

fun stat_loop :: "common \<Rightarrow> nat \<Rightarrow> string list \<Rightarrow> stat_fields \<Rightarrow> stat_fields option" where
  "stat_loop c field [] f = Some f"
| "stat_loop c field (token # tokens) f =
     (case stat_field c field token f of
        None \<Rightarrow> None
      | Some f \<Rightarrow> if 22 \<le> field then Some f else stat_loop c (field + 1) tokens f)"

definition finish_stat :: "common \<Rightarrow> string \<Rightarrow> stat_fields \<Rightarrow> process_stat option" where
  "finish_stat c name f =
     (case (sf_ppid f, sf_start f) of
        (Some ppid, Some start) \<Rightarrow> Some
          \<lparr>ps_name = infiltratr_copy_string c LSM_NAME_LEN name, ps_ppid = ppid, ps_threads = sf_threads f,
           ps_nice_value = sf_nice f,
           ps_page_faults = infiltratr_u64_add_saturating c (sf_minflt f) (sf_majflt f),
           ps_state = state_name (sf_state f),
           ps_cpu_ticks = infiltratr_u64_add_saturating c (sf_utime f) (sf_stime f),
           ps_start_ticks = start\<rparr>
      | _ \<Rightarrow> None)"

text \<open>
  The text is what was read of the file (\<open>None\<close> when that failed). The fields start two bytes after
  the last parenthesis; when the text ends in it, that is past its terminator, in whatever the buffer
  held there (\<open>stale\<close>).
\<close>

definition read_process_stat :: "common \<Rightarrow> string \<Rightarrow> string option \<Rightarrow> process_stat option" where
  "read_process_stat c stale contents =
     (case contents of
        None \<Rightarrow> None
      | Some s \<Rightarrow>
          (case (strchr_split CHR ''('' s, strchr_split CHR '')'' (rev s)) of
             (Some (before, _), Some (behind, inside)) \<Rightarrow>
               let left = length before; right = length inside
               in if right \<le> left then None
                  else
                    let name = drop (left + 1) (take right s);
                        cursor = (if right + 2 \<le> length s then drop (right + 2) s else stale)
                    in Option.bind (stat_loop c 3 (strtok (\<lambda>x. x = CHR '' '') cursor) no_stat_fields) (finish_stat c name)
           | _ \<Rightarrow> None))"

subsection \<open>The record as the kernel prints it\<close>

record stat_values =
  sv_state :: char
  sv_ppid :: u64
  sv_minflt :: u64
  sv_majflt :: u64
  sv_utime :: u64
  sv_stime :: u64
  sv_nice :: int
  sv_threads :: u32
  sv_start :: u64

definition stat_tokens :: "stat_values \<Rightarrow> (nat \<Rightarrow> string) \<Rightarrow> string list" where
  "stat_tokens v others =
     [[sv_state v], nat_text (unat (sv_ppid v)), others 5, others 6, others 7, others 8, others 9,
      nat_text (unat (sv_minflt v)), others 11, nat_text (unat (sv_majflt v)), others 13,
      nat_text (unat (sv_utime v)), nat_text (unat (sv_stime v)), others 16, others 17, others 18,
      int_text (sv_nice v), nat_text (unat (sv_threads v)), others 21, nat_text (unat (sv_start v))]"

definition stat_text :: "nat \<Rightarrow> string \<Rightarrow> string list \<Rightarrow> string" where
  "stat_text pid name tokens = nat_text pid @ '' ('' @ name @ '') '' @ join CHR '' '' tokens"

definition plain_token :: "string \<Rightarrow> bool" where
  "plain_token t \<longleftrightarrow> t \<noteq> [] \<and> CHR '' '' \<notin> set t \<and> CHR '')'' \<notin> set t"

definition stat_of :: "string \<Rightarrow> stat_values \<Rightarrow> process_stat" where
  "stat_of name v =
     \<lparr>ps_name = take (LSM_NAME_LEN - 1) name, ps_ppid = sv_ppid v, ps_threads = sv_threads v,
      ps_nice_value = sv_nice v, ps_page_faults = saturating_add (sv_minflt v) (sv_majflt v),
      ps_state = state_name (sv_state v), ps_cpu_ticks = saturating_add (sv_utime v) (sv_stime v),
      ps_start_ticks = sv_start v\<rparr>"

lemma nat_text_no: "\<not> ascii_digit x \<Longrightarrow> x \<notin> set (nat_text n)"
  using nat_text_digits [of n] by (auto simp: list_all_iff)

lemma nat_text_token: "plain_token (nat_text n)"
  using nat_text_digits [of n] nat_text_no [of "CHR '' ''" n] nat_text_no [of "CHR '')''" n]
  by (simp add: plain_token_def ascii_digit_def)

lemma int_text_token: "plain_token (int_text n)"
  using nat_text_token by (auto simp: int_text_def plain_token_def)

lemma split_stat_text:
  assumes "CHR '')'' \<notin> set rest"
  shows "strchr_split CHR ''('' (nat_text pid @ '' ('' @ name @ '') '' @ rest) = Some (nat_text pid @ '' '', name @ '') '' @ rest)"
    and "strchr_split CHR '')'' (rev (nat_text pid @ '' ('' @ name @ '') '' @ rest)) =
      Some (rev ('' '' @ rest), rev (nat_text pid @ '' ('' @ name))"
proof -
  have "CHR ''('' \<notin> set (nat_text pid @ '' '')" using nat_text_no [of "CHR ''(''" pid] by (simp add: ascii_digit_def)
  from strchr_split_append [OF this, of "name @ '') '' @ rest"]
  show "strchr_split CHR ''('' (nat_text pid @ '' ('' @ name @ '') '' @ rest) = Some (nat_text pid @ '' '', name @ '') '' @ rest)"
    by simp
  have "CHR '')'' \<notin> set (rev ('' '' @ rest))" using assms by simp
  from strchr_split_append [OF this, of "rev (nat_text pid @ '' ('' @ name)"]
  show "strchr_split CHR '')'' (rev (nat_text pid @ '' ('' @ name @ '') '' @ rest)) =
      Some (rev ('' '' @ rest), rev (nat_text pid @ '' ('' @ name))" by simp
qed

lemma read_stat_text:
  assumes "list_all plain_token tokens"
  shows "read_process_stat c stale (Some (stat_text pid name tokens)) =
    Option.bind (stat_loop c 3 tokens no_stat_fields) (finish_stat c name)"
proof -
  let ?rest = "join CHR '' '' tokens"
  have "CHR '')'' \<notin> set ?rest"
    using assms by (intro notin_join) (auto simp: list_all_iff plain_token_def)
  note split = split_stat_text [OF this, of pid name]
  have tokens: "strtok (\<lambda>x. x = CHR '' '') ?rest = tokens"
    using assms by (intro strtok_join) (auto simp: list_all_iff plain_token_def)
  have cursor: "drop (4 + length name) (CHR '' '' # CHR ''('' # name @ CHR '')'' # CHR '' '' # ?rest) = ?rest"
    by (simp add: numeral_eq_Suc)
  show ?thesis
    using split by (simp add: read_process_stat_def stat_text_def Let_def tokens cursor)
qed

lemma stat_loop_short: "length tokens + field < 23 \<Longrightarrow> sf_start f = None \<Longrightarrow>
   stat_loop c field tokens f = Some f' \<Longrightarrow> sf_start f' = None"
proof (induction c field tokens f arbitrary: f' rule: stat_loop.induct)
  case (2 c field token tokens f)
  from "2.prems" obtain g where g: "stat_field c field token f = Some g"
    "stat_loop c (field + 1) tokens g = Some f'" by (auto split: option.split_asm)
  moreover from g(1) have "sf_start g = None"
    using "2.prems"(1,2) by (auto simp: stat_field_def Let_def split: if_split_asm)
  ultimately show ?case using "2.IH" [OF g(1)] "2.prems"(1) by simp
qed simp

lemma u32_up: "unat (ucast (w :: u32) :: u64) = unat w"
  using unsigned_less [where ?'a = nat, of w] by (simp add: unsigned_ucast_eq take_bit_nat_eq_self)

lemma u32_up_le: "(ucast (w :: u32) :: u64) \<le> ucast UINT_MAX"
  using word_order.extremum [of w] by (simp only: word_le_nat_alt u32_up)

lemma u32_up_down: "ucast (ucast (w :: u32) :: u64) = w"
  by (rule bit_word_eqI) (simp add: bit_simps)

lemma stat_loop_values:
  assumes "common_decimal_ok c" "common_signed_range_ok c" "INT_MIN \<le> sv_nice v" "sv_nice v \<le> INT_MAX"
  shows "stat_loop c 3 (stat_tokens v others @ rest) no_stat_fields =
    Some \<lparr>sf_state = sv_state v, sf_ppid = Some (sv_ppid v), sf_start = Some (sv_start v), sf_utime = sv_utime v,
      sf_stime = sv_stime v, sf_minflt = sv_minflt v, sf_majflt = sv_majflt v, sf_nice = sv_nice v,
      sf_threads = sv_threads v\<rparr>"
proof -
  have num: "infiltratr_parse_u64 c (nat_text (unat w)) 10 = Some w" for w :: u64
    using assms(1) by (simp add: common_decimal_ok_def)
  have threads: "infiltratr_parse_u64 c (nat_text (unat (sv_threads v))) 10 = Some (ucast (sv_threads v))"
    using num [of "ucast (sv_threads v)"] by (simp only: u32_up)
  have nice: "infiltratr_parse_i64_range c (int_text (sv_nice v)) 10 INT_MIN INT_MAX = Some (sv_nice v)"
    using assms(2-4) by (simp add: common_signed_range_ok_def INT_MIN_def INT_MAX_def)
  show ?thesis
    by (simp add: stat_tokens_def stat_field_def Let_def no_stat_fields_def num threads nice char_at_def
        u32_up_down if_P [OF u32_up_le] del: unsigned_minus_1_eq_mask)
qed

lemma stat_tokens_plain:
  assumes "sv_state v \<noteq> CHR '' ''" "sv_state v \<noteq> CHR '')''" "\<forall>i. plain_token (others i)"
  shows "list_all plain_token (stat_tokens v others)"
  using assms nat_text_token int_text_token by (simp add: stat_tokens_def plain_token_def)

text \<open>A record of the kernel's, with the fields the reader skips and those after them.\<close>

definition stat_printed :: "stat_values \<Rightarrow> (nat \<Rightarrow> string) \<Rightarrow> string list \<Rightarrow> bool" where
  "stat_printed v others rest \<longleftrightarrow> INT_MIN \<le> sv_nice v \<and> sv_nice v \<le> INT_MAX \<and>
     sv_state v \<noteq> CHR '' '' \<and> sv_state v \<noteq> CHR '')'' \<and> (\<forall>i. plain_token (others i)) \<and> list_all plain_token rest"

lemma read_printed_stat:
  assumes "common_text_ok c" "common_arith_ok c" "common_decimal_ok c" "common_signed_range_ok c" "stat_printed v others rest"
  shows "read_process_stat c stale (Some (stat_text pid name (stat_tokens v others @ rest))) = Some (stat_of name v)"
proof -
  have "list_all plain_token (stat_tokens v others @ rest)"
    using assms(5) stat_tokens_plain by (simp add: stat_printed_def)
  from read_stat_text [OF this] show ?thesis
    using stat_loop_values [OF assms(3,4)] assms(1,2,5)
    by (simp add: stat_printed_def finish_stat_def stat_of_def common_text_ok_def common_arith_ok_def)
qed

subsection \<open>Records cut off\<close>

lemma strtok_unfold:
  "dropWhile d s = u \<Longrightarrow> strtok d s = (if u = [] then [] else takeWhile (\<lambda>x. \<not> d x) u # strtok d (dropWhile (\<lambda>x. \<not> d x) u))"
  by (subst strtok.simps) (simp add: Let_def)

lemma strtok_append_length: "length (strtok d s) \<le> length (strtok d (s @ t))"
proof (induction d s rule: strtok.induct)
  case (1 d s)
  let ?u = "dropWhile d s" and ?rest = "dropWhile (\<lambda>x. \<not> d x)"
  show ?case
  proof (cases "?u = []")
    case True
    then show ?thesis by (simp add: strtok_unfold)
  next
    case False
    then obtain y where "y \<in> set s" "\<not> d y" by (auto simp: dropWhile_eq_Nil_conv)
    then have u: "dropWhile d (s @ t) = ?u @ t" by (simp add: dropWhile_append1)
    have more: "length (strtok d (s @ t)) = Suc (length (strtok d (?rest (?u @ t))))"
      using False by (simp add: strtok_unfold [OF u])
    have same: "length (strtok d s) = Suc (length (strtok d (?rest ?u)))"
      using False by (simp add: strtok_unfold [OF refl])
    show ?thesis
    proof (cases "\<exists>x\<in>set ?u. d x")
      case True
      then have "?rest (?u @ t) = ?rest ?u @ t" by (auto simp: dropWhile_append1)
      then show ?thesis using "1.IH" [OF refl False] more same by simp
    next
      case False
      then have "?rest ?u = []" unfolding dropWhile_eq_Nil_conv by blast
      then show ?thesis unfolding more same by (simp only: strtok_Nil list.size)
    qed
  qed
qed

lemma strtok_take_length: "length (strtok d (take k s)) \<le> length (strtok d s)"
  using strtok_append_length [of d "take k s" "drop k s"] by (simp only: append_take_drop_id)

lemma few_fields_rejected:
  assumes "length tokens < 20"
  shows "Option.bind (stat_loop c 3 tokens no_stat_fields) (finish_stat c name) = None"
proof -
  have "length tokens + 3 < 23" "sf_start no_stat_fields = None" using assms by (simp_all add: no_stat_fields_def)
  then show ?thesis
    using stat_loop_short [of tokens 3 no_stat_fields c]
    by (cases "stat_loop c 3 tokens no_stat_fields") (auto simp: finish_stat_def split: option.split)
qed

lemma no_parenthesis_rejected:
  assumes "CHR '')'' \<notin> set s"
  shows "read_process_stat c stale (Some s) = None"
proof -
  have "dropWhile (\<lambda>x. x \<noteq> CHR '')'') (rev s) = []" using assms by (simp add: dropWhile_eq_Nil_conv) blast
  then have "strchr_split CHR '')'' (rev s) = None" by (simp only: strchr_split_def list.case)
  then show ?thesis by (simp add: read_process_stat_def split: option.split)
qed

lemma short_record_rejected:
  assumes "CHR '')'' \<notin> set (x # behind)" "length (strtok (\<lambda>x. x = CHR '' '') behind) < 20"
  shows "read_process_stat c stale (Some (before @ CHR '')'' # x # behind)) = None"
proof -
  have "CHR '')'' \<notin> set (rev (x # behind))" using assms(1) by simp
  from strchr_split_append [OF this, of "rev before"]
  have "strchr_split CHR '')'' (rev (before @ CHR '')'' # x # behind)) = Some (rev (x # behind), rev before)" by simp
  then show ?thesis
    using few_fields_rejected [OF assms(2)] by (simp add: read_process_stat_def Let_def split: option.split)
qed

text \<open>
  The bytes of a record up to and including the parenthesis that closes the name, and those before
  the first digit of the start time.
\<close>

definition name_end :: "nat \<Rightarrow> string \<Rightarrow> nat" where
  "name_end pid name = length (nat_text pid @ '' ('' @ name @ '')'')"

definition start_begin :: "nat \<Rightarrow> string \<Rightarrow> string list \<Rightarrow> nat" where
  "start_begin pid name tokens = length (stat_text pid name (take 19 tokens) @ '' '')"

lemma join_split:
  assumes "ts \<noteq> []" "us \<noteq> []"
  shows "join c (ts @ us) = join c ts @ c # join c us"
  using assms
proof (induction ts)
  case (Cons t ts)
  show ?case using Cons.IH Cons.prems by (cases ts; cases us) simp_all
qed simp

lemma cut_record_rejected:
  assumes "stat_printed v others rest" "n \<le> start_begin pid name (stat_tokens v others)"
    and "n \<noteq> name_end pid name" "name_end pid name < n \<or> CHR '')'' \<notin> set name"
  shows "read_process_stat c stale (Some (take n (stat_text pid name (stat_tokens v others @ rest)))) = None"
proof -
  let ?ts = "stat_tokens v others" and ?head = "nat_text pid @ '' ('' @ name"
  let ?tail = "'' '' @ join CHR '' '' (take 19 ?ts) @ '' ''"
  have plain: "list_all plain_token (take 19 ?ts)"
    using assms(1) by (auto simp: stat_printed_def list_all_iff dest!: stat_tokens_plain [of v others] in_set_takeD)
  have nonempty: "take 19 ?ts \<noteq> []" "drop 19 ?ts \<noteq> []" by (simp_all add: stat_tokens_def)
  have "?ts @ rest = take 19 ?ts @ (drop 19 ?ts @ rest)" by simp
  then have "join CHR '' '' (?ts @ rest) = join CHR '' '' (take 19 ?ts) @ CHR '' '' # join CHR '' '' (drop 19 ?ts @ rest)"
    using join_split nonempty by (metis append_is_Nil_conv)
  then have "stat_text pid name (?ts @ rest) = (stat_text pid name (take 19 ?ts) @ '' '') @ join CHR '' '' (drop 19 ?ts @ rest)"
    by (simp only: stat_text_def append_assoc append_Cons append_Nil)
  then have "take n (stat_text pid name (?ts @ rest)) = take n (stat_text pid name (take 19 ?ts) @ '' '')"
    using assms(2) unfolding start_begin_def by (simp only: take_append) simp
  also have "\<dots> = take n (?head @ CHR '')'' # ?tail)" by (simp add: stat_text_def)
  finally have cut: "take n (stat_text pid name (?ts @ rest)) = take n (?head @ CHR '')'' # ?tail)" .
  have tail_plain: "CHR '')'' \<notin> set ?tail"
    using plain notin_join [of "CHR '')''" "CHR '' ''" "take 19 ?ts"] by (auto simp: list_all_iff plain_token_def)
  show ?thesis
  proof (cases "name_end pid name < n")
    case True
    then obtain k where k: "n = length ?head + 1 + Suc k" unfolding name_end_def by (auto dest!: less_imp_Suc_add)
    let ?behind = "take k (join CHR '' '' (take 19 ?ts) @ '' '')"
    have "strtok (\<lambda>x. x = CHR '' '') (join CHR '' '' (take 19 ?ts) @ '' '') = take 19 ?ts"
      using plain by (intro strtok_join_end) (auto simp: list_all_iff plain_token_def)
    then have "length (strtok (\<lambda>x. x = CHR '' '') ?behind) < 20"
      using strtok_take_length [of "\<lambda>x. x = CHR '' ''" k "join CHR '' '' (take 19 ?ts) @ '' ''"]
      by (simp del: take_append)
    moreover have "CHR '')'' \<notin> set (CHR '' '' # ?behind)" using tail_plain by (auto dest: in_set_takeD)
    ultimately have "read_process_stat c stale (Some (?head @ CHR '')'' # CHR '' '' # ?behind)) = None"
      by (rule short_record_rejected [rotated])
    moreover have "take n (?head @ CHR '')'' # ?tail) = ?head @ CHR '')'' # CHR '' '' # ?behind"
      unfolding k by (simp add: numeral_eq_Suc)
    ultimately show ?thesis unfolding cut by simp
  next
    case False
    then have "n \<le> length ?head" "CHR '')'' \<notin> set name" using assms(3,4) by (simp_all add: name_end_def)
    then have "take n (?head @ CHR '')'' # ?tail) = take n ?head" by (simp only: take_append) simp
    moreover have "CHR '')'' \<notin> set ?head"
      using nat_text_no [of "CHR '')''" pid] \<open>CHR '')'' \<notin> set name\<close> by (simp add: ascii_digit_def)
    ultimately show ?thesis unfolding cut using no_parenthesis_rejected [of "take n ?head"] in_set_takeD by metis
  qed
qed

subsection \<open>Property\<close>


definition sample_stat :: stat_values where
  "sample_stat = \<lparr>sv_state = CHR ''S'', sv_ppid = 1, sv_minflt = 7, sv_majflt = 2, sv_utime = 30, sv_stime = 12,
     sv_nice = -5, sv_threads = 4, sv_start = 901\<rparr>"


end
