(* ===== verification/Process_Control.thy ===== *)
theory Process_Control
  imports Process_Stat Sorted_Arrays "HOL-Library.Multiset" "HOL-Library.Product_Lexorder"
begin

text \<open>
  Acting on processes (\<^verbatim>\<open>src/process_backend_linux.c\<close>): the identity check that guards every action,
  signalling through a pidfd with the numeric fallback, and signalling a whole process tree. The
  kernel is a table of live tasks that changes between any two system calls; process numbers are
  reused. The pidfd route is proved to reach the identified process or nobody, and the tree route to
  signal exactly the descendants, children before parents, and the root last.
\<close>

datatype errno = E_INVAL | E_SRCH | E_NOENT | E_NOSYS | E_NOSPC | E_NOMEM | E_IO | E_OVERFLOW | E_NAMETOOLONG | E_OTHER int

datatype process_control = Control_Terminate | Control_Suspend | Control_Resume | Control_Force_Terminate

fun signal_from_control :: "process_control \<Rightarrow> int" where
  "signal_from_control Control_Terminate = 15"
| "signal_from_control Control_Suspend = 19"
| "signal_from_control Control_Resume = 18"
| "signal_from_control Control_Force_Terminate = 9"

definition native_pid :: "u64 \<Rightarrow> int option" where
  "native_pid ident = (if ident = 0 \<or> INT_MAX < uint ident then None else Some (uint ident))"

subsection \<open>The kernel between two calls\<close>

record task =
  tk_serial :: nat \<comment> \<open>which task it is, over the kernel's life\<close>
  tk_pid :: int
  tk_start :: u64

record kernel =
  kn_live :: "int \<rightharpoonup> task"
  kn_used :: "task set" \<comment> \<open>the tasks there have been\<close>
  kn_stat :: "int \<Rightarrow> string option" \<comment> \<open>\<^verbatim>\<open>/proc/PID/stat\<close> as it reads now\<close>
  kn_read_errno :: "int \<Rightarrow> errno option" \<comment> \<open>what a failing read leaves in \<^verbatim>\<open>errno\<close>\<close>

inductive kernel_step :: "kernel \<Rightarrow> kernel \<Rightarrow> bool" where
  exit: "kn_live k pid = Some t \<Longrightarrow>
    kernel_step k (k\<lparr>kn_live := (kn_live k)(pid := None), kn_stat := stat, kn_read_errno := errors\<rparr>)"
| spawn: "kn_live k (tk_pid t) = None \<Longrightarrow> t \<notin> kn_used k \<Longrightarrow>
    kernel_step k (k\<lparr>kn_live := (kn_live k)(tk_pid t \<mapsto> t), kn_used := insert t (kn_used k), kn_stat := stat,
      kn_read_errno := errors\<rparr>)"
| run: "kernel_step k (k\<lparr>kn_stat := stat, kn_read_errno := errors\<rparr>)"

inductive_cases kernel_stepE: "kernel_step k k'"

definition kernel_ok :: "kernel \<Rightarrow> bool" where
  "kernel_ok k \<longleftrightarrow> (\<forall>pid t. kn_live k pid = Some t \<longrightarrow> tk_pid t = pid \<and> t \<in> kn_used k)"

subsection \<open>Identity\<close>

definition process_identity_pid :: "common \<Rightarrow> string \<Rightarrow> kernel \<Rightarrow> u64 \<Rightarrow> u64 \<Rightarrow> errno + int" where
  "process_identity_pid c stale k process_id instance_id =
     (case native_pid process_id of
        None \<Rightarrow> Inl E_INVAL
      | Some pid \<Rightarrow>
          if instance_id = 0 then Inl E_INVAL
          else case read_process_stat c stale (kn_stat k pid) of
              None \<Rightarrow> Inl (case kn_read_errno k pid of None \<Rightarrow> E_SRCH | Some E_NOENT \<Rightarrow> E_SRCH | Some e \<Rightarrow> e)
            | Some stat \<Rightarrow> if ps_start_ticks stat \<noteq> instance_id then Inl E_SRCH else Inr pid)"

definition lsm_process_identity_matches :: "common \<Rightarrow> string \<Rightarrow> kernel \<Rightarrow> u64 \<Rightarrow> u64 \<Rightarrow> bool" where
  "lsm_process_identity_matches c stale k process_id instance_id =
     (case process_identity_pid c stale k process_id instance_id of Inl _ \<Rightarrow> False | Inr _ \<Rightarrow> True)"

subsection \<open>Signals\<close>

text \<open>
  The system calls: \<open>refused\<close> is an error for a reason of the caller's (permissions, an old kernel).
  A pidfd denotes the task it was opened on; a signal reaches it while it lives. \<^verbatim>\<open>kill\<close> reaches
  whoever has the number.
\<close>

definition pidfd_open :: "errno option \<Rightarrow> kernel \<Rightarrow> int \<Rightarrow> errno + task" where
  "pidfd_open refused k pid =
     (case refused of
        Some e \<Rightarrow> Inl e
      | None \<Rightarrow> (case kn_live k pid of None \<Rightarrow> Inl E_SRCH | Some t \<Rightarrow> Inr t))"

definition pidfd_send_signal :: "errno option \<Rightarrow> kernel \<Rightarrow> task \<Rightarrow> errno + task" where
  "pidfd_send_signal refused k t =
     (case refused of
        Some e \<Rightarrow> Inl e
      | None \<Rightarrow> if kn_live k (tk_pid t) = Some t then Inr t else Inl E_SRCH)"

record refusals =
  rf_open :: "errno option"
  rf_send :: "errno option"
  rf_kill :: "errno option"

text \<open>The kernel at each of the calls, in their order.\<close>

record moments =
  mo_check :: kernel
  mo_open :: kernel
  mo_recheck :: kernel
  mo_send :: kernel
  mo_fallback_check :: kernel
  mo_kill :: kernel

definition signal_with_pidfd ::
    "common \<Rightarrow> string \<Rightarrow> refusals \<Rightarrow> moments \<Rightarrow> u64 \<Rightarrow> u64 \<Rightarrow> int \<Rightarrow> (errno + task) \<times> bool" where
  "signal_with_pidfd c stale refused m process_id instance_id signal_number =
     (case process_identity_pid c stale (mo_check m) process_id instance_id of
        Inl e \<Rightarrow> (Inl e, False)
      | Inr pid \<Rightarrow>
          if pid \<le> 1 \<or> signal_number \<le> 0 then (Inl E_INVAL, False)
          else case pidfd_open (rf_open refused) (mo_open m) pid of
              Inl e \<Rightarrow> (Inl e, e = E_NOSYS)
            | Inr pidfd \<Rightarrow>
                (case process_identity_pid c stale (mo_recheck m) process_id instance_id of
                   Inl e \<Rightarrow> (Inl e, False)
                 | Inr _ \<Rightarrow>
                     (case pidfd_send_signal (rf_send refused) (mo_send m) pidfd of
                        Inr t \<Rightarrow> (Inr t, False)
                      | Inl e \<Rightarrow> (Inl e, e = E_NOSYS))))"

definition lsm_process_control ::
    "common \<Rightarrow> string \<Rightarrow> refusals \<Rightarrow> moments \<Rightarrow> u64 \<Rightarrow> u64 \<Rightarrow> process_control \<Rightarrow> errno + task" where
  "lsm_process_control c stale refused m process_id instance_id action =
     (let signal_number = signal_from_control action
      in if signal_number \<le> 0 then Inl E_INVAL
         else case signal_with_pidfd c stale refused m process_id instance_id signal_number of
             (Inr t, _) \<Rightarrow> Inr t
           | (Inl e, False) \<Rightarrow> Inl e
           | (Inl e, True) \<Rightarrow>
               (case process_identity_pid c stale (mo_fallback_check m) process_id instance_id of
                  Inl e \<Rightarrow> Inl e
                | Inr pid \<Rightarrow>
                    if pid \<le> 1 then Inl E_INVAL
                    else case rf_kill refused of
                        Some e \<Rightarrow> Inl e
                      | None \<Rightarrow> (case kn_live (mo_kill m) pid of None \<Rightarrow> Inl E_SRCH | Some t \<Rightarrow> Inr t)))"

subsection \<open>Priorities\<close>

text \<open>The nice value asked of \<^verbatim>\<open>setpriority\<close>, or the error before it.\<close>

definition lsm_process_set_priority :: "common \<Rightarrow> string \<Rightarrow> kernel \<Rightarrow> u64 \<Rightarrow> u64 \<Rightarrow> process_priority \<Rightarrow> errno + (int \<times> int)" where
  "lsm_process_set_priority c stale k process_id instance_id priority =
     (case process_identity_pid c stale k process_id instance_id of
        Inl e \<Rightarrow> Inl e
      | Inr pid \<Rightarrow> if pid \<le> 1 then Inl E_INVAL else Inr (pid, nice_from_priority priority))"

definition lsm_process_set_nice :: "common \<Rightarrow> string \<Rightarrow> kernel \<Rightarrow> u64 \<Rightarrow> u64 \<Rightarrow> int \<Rightarrow> errno + (int \<times> int)" where
  "lsm_process_set_nice c stale k process_id instance_id nice =
     (if nice < -20 \<or> 19 < nice then Inl E_INVAL
      else case process_identity_pid c stale k process_id instance_id of
          Inl e \<Rightarrow> Inl e
        | Inr pid \<Rightarrow> if pid \<le> 1 then Inl E_INVAL else Inr (pid, nice))"

subsection \<open>Process trees\<close>

record pid_parent =
  pp_pid :: int
  pp_ppid :: int
  pp_instance_id :: u64
  pp_depth :: nat

definition parse_proc_pid :: "common \<Rightarrow> string \<Rightarrow> int option" where
  "parse_proc_pid c name = map_option uint (infiltratr_parse_u64_range c name 10 1 (word_of_int INT_MAX))"

definition read_pid_parent :: "common \<Rightarrow> string \<Rightarrow> (int \<Rightarrow> string option) \<Rightarrow> int \<Rightarrow> pid_parent option" where
  "read_pid_parent c stale stat pid =
     map_option (\<lambda>s. \<lparr>pp_pid = pid, pp_ppid = (if uint (ps_ppid s) \<le> INT_MAX then uint (ps_ppid s) else 0),
         pp_instance_id = ps_start_ticks s, pp_depth = 0\<rparr>)
       (read_process_stat c stale (stat pid))"

definition enumerate_processes :: "common \<Rightarrow> string \<Rightarrow> (int \<Rightarrow> string option) \<Rightarrow> string list \<Rightarrow> pid_parent list" where
  "enumerate_processes c stale stat names =
     List.map_filter (\<lambda>name. case parse_proc_pid c name of
         None \<Rightarrow> None | Some pid \<Rightarrow> if pid \<le> 1 then None else read_pid_parent c stale stat pid) names"

definition compare_pid_parent_pid :: "pid_parent \<Rightarrow> pid_parent \<Rightarrow> int" where
  "compare_pid_parent_pid a b = (if pp_pid b < pp_pid a then 1 else if pp_pid a < pp_pid b then -1 else 0)"

definition find_pid_parent :: "pid_parent list \<Rightarrow> int \<Rightarrow> pid_parent option" where
  "find_pid_parent items pid =
     (let low = lower_bound (map pp_pid items) pid 0 (length items)
      in if low < length items \<and> pp_pid (items ! low) = pid then Some (items ! low) else None)"

fun depth_loop :: "pid_parent list \<Rightarrow> int \<Rightarrow> nat \<Rightarrow> int \<Rightarrow> nat \<Rightarrow> nat" where
  "depth_loop items root_pid 0 current depth = (if current = root_pid then depth else 0)"
| "depth_loop items root_pid (Suc guard) current depth =
     (if current = root_pid then depth
      else case find_pid_parent items current of
          None \<Rightarrow> 0
        | Some item \<Rightarrow> depth_loop items root_pid guard (pp_ppid item) (depth + 1))"

definition process_depth :: "pid_parent list \<Rightarrow> int \<Rightarrow> pid_parent \<Rightarrow> nat" where
  "process_depth items root_pid item = depth_loop items root_pid (length items) (pp_pid item) 0"

definition compare_depth_descending :: "pid_parent \<Rightarrow> pid_parent \<Rightarrow> int" where
  "compare_depth_descending a b =
     (if pp_depth a < pp_depth b then 1 else if pp_depth b < pp_depth a then -1
      else if pp_pid b < pp_pid a then -1 else if pp_pid a < pp_pid b then 1 else 0)"

definition descendants :: "pid_parent list \<Rightarrow> int \<Rightarrow> pid_parent list" where
  "descendants items root_pid =
     (let items = qsort compare_pid_parent_pid items
      in qsort compare_depth_descending
           (map (\<lambda>item. item\<lparr>pp_depth := process_depth items root_pid item\<rparr>)
             (filter (\<lambda>item. 0 < process_depth items root_pid item) items)))"

text \<open>
  \<open>outcome\<close> is what controlling one process gives; the result is the processes signalled, in order,
  and the first error that is not a vanished process.
\<close>

definition tree_result :: "(int \<times> u64 \<Rightarrow> errno option) \<Rightarrow> (int \<times> u64) list \<Rightarrow> errno option" where
  "tree_result outcome targets =
     Option.bind (find (\<lambda>t. outcome t \<noteq> None \<and> outcome t \<noteq> Some E_SRCH) targets) outcome"

definition lsm_process_control_tree ::
    "common \<Rightarrow> string \<Rightarrow> kernel \<Rightarrow> kernel \<Rightarrow> errno + string list \<Rightarrow> (int \<Rightarrow> string option) \<Rightarrow> (int \<times> u64 \<Rightarrow> errno option) \<Rightarrow> u64 \<Rightarrow> u64 \<Rightarrow>
     process_control \<Rightarrow> (errno option \<times> (int \<times> u64) list)" where
  "lsm_process_control_tree c stale k k' enumerated stat outcome root_id root_instance action =
     (case process_identity_pid c stale k root_id root_instance of
        Inl e \<Rightarrow> (Some e, [])
      | Inr root_pid \<Rightarrow>
          if root_pid \<le> 1 \<or> signal_from_control action \<le> 0 then (Some E_INVAL, [])
          else case enumerated of
              Inl e \<Rightarrow> (Some e, [])
            | Inr names \<Rightarrow>
                (case process_identity_pid c stale k' root_id root_instance of
                   Inl e \<Rightarrow> (Some e, [])
                 | Inr root_pid \<Rightarrow>
                     let items = enumerate_processes c stale stat names;
                         targets = map (\<lambda>item. (pp_pid item, pp_instance_id item)) (descendants items root_pid)
                           @ [(uint root_id, root_instance)]
                     in (tree_result outcome targets, targets)))"

subsection \<open>Who is signalled\<close>

lemma kernel_ok_step: "kernel_step k k' \<Longrightarrow> kernel_ok k \<Longrightarrow> kernel_ok k'"
  by (auto simp: kernel_ok_def elim!: kernel_stepE split: if_split_asm)

lemma kernel_ok_steps: "kernel_step\<^sup>*\<^sup>* k k' \<Longrightarrow> kernel_ok k \<Longrightarrow> kernel_ok k'"
  by (induction rule: rtranclp_induct) (auto intro: kernel_ok_step)

lemma dead_task_step:
  assumes "kernel_step k k'" "t \<in> kn_used k" "kn_live k (tk_pid t) \<noteq> Some t"
  shows "t \<in> kn_used k' \<and> kn_live k' (tk_pid t) \<noteq> Some t"
  using assms(1)
proof cases
  case (exit pid t')
  then show ?thesis using assms(2,3) by (cases "tk_pid t = pid") simp_all
next
  case (spawn t')
  then have "t' \<noteq> t" using assms(2) by blast
  then show ?thesis using spawn assms(2,3) by (cases "tk_pid t = tk_pid t'") simp_all
next
  case run
  then show ?thesis using assms(2,3) by simp
qed

lemma used_step: "kernel_step k k' \<Longrightarrow> t \<in> kn_used k \<Longrightarrow> t \<in> kn_used k'"
  by (auto elim!: kernel_stepE)

lemma used_steps: "kernel_step\<^sup>*\<^sup>* k k' \<Longrightarrow> t \<in> kn_used k \<Longrightarrow> t \<in> kn_used k'"
  by (induction rule: rtranclp_induct) (auto intro: used_step)

lemma dead_task_steps:
  "kernel_step\<^sup>*\<^sup>* k k' \<Longrightarrow> t \<in> kn_used k \<Longrightarrow> kn_live k (tk_pid t) \<noteq> Some t \<Longrightarrow> kn_live k' (tk_pid t) \<noteq> Some t"
  by (induction rule: rtranclp_induct) (blast dest: dead_task_step used_steps)+

text \<open>A task that lives at two moments has had its number all the time between.\<close>

lemma lives_between:
  assumes "kernel_ok k" "kn_live k (tk_pid t) = Some t" "kernel_step\<^sup>*\<^sup>* k k'" "kernel_step\<^sup>*\<^sup>* k' k''"
    and "kn_live k'' (tk_pid t) = Some t"
  shows "kn_live k' (tk_pid t) = Some t"
proof (rule ccontr)
  assume dead: "kn_live k' (tk_pid t) \<noteq> Some t"
  have "t \<in> kn_used k'" using assms(1-3) used_steps by (auto simp: kernel_ok_def)
  with dead_task_steps [OF assms(4) _ dead] assms(5) show False by blast
qed

text \<open>What the kernel promises of \<^verbatim>\<open>/proc\<close>: the record of the task that has the number, or nothing.\<close>

definition proc_ok :: "kernel \<Rightarrow> bool" where
  "proc_ok k \<longleftrightarrow> (\<forall>pid.
     case kn_live k pid of
       None \<Rightarrow> kn_stat k pid = None
     | Some t \<Rightarrow> (\<exists>name v others rest. stat_printed v others rest \<and> sv_start v = tk_start t \<and>
         kn_stat k pid = Some (stat_text (nat pid) name (stat_tokens v others @ rest))))"

definition common_stat_ok :: "common \<Rightarrow> bool" where
  "common_stat_ok c \<longleftrightarrow> common_text_ok c \<and> common_arith_ok c \<and> common_decimal_ok c \<and> common_signed_range_ok c"

lemma identity_stat:
  "process_identity_pid c stale k process_id instance_id = Inr pid \<longleftrightarrow>
   native_pid process_id = Some pid \<and> instance_id \<noteq> 0 \<and>
   (\<exists>stat. read_process_stat c stale (kn_stat k pid) = Some stat \<and> ps_start_ticks stat = instance_id)"
  by (cases "native_pid process_id"; cases "read_process_stat c stale (kn_stat k (the (native_pid process_id)))")
     (auto simp: process_identity_pid_def)

lemma proc_ok_read:
  assumes "common_stat_ok c" "proc_ok k"
  shows "(\<exists>stat. read_process_stat c stale (kn_stat k pid) = Some stat \<and> ps_start_ticks stat = start) \<longleftrightarrow>
    (\<exists>t. kn_live k pid = Some t \<and> tk_start t = start)"
proof (cases "kn_live k pid")
  case None
  then have "kn_stat k pid = None" using spec [OF assms(2) [unfolded proc_ok_def], of pid] by simp
  then show ?thesis using None by (simp add: read_process_stat_def)
next
  case (Some t)
  then obtain name v others rest where printed: "stat_printed v others rest" "sv_start v = tk_start t"
    and stat: "kn_stat k pid = Some (stat_text (nat pid) name (stat_tokens v others @ rest))"
    using spec [OF assms(2) [unfolded proc_ok_def], of pid] by auto
  have "read_process_stat c stale (kn_stat k pid) = Some (stat_of name v)"
    unfolding stat using assms(1) printed(1) by (intro read_printed_stat) (simp_all only: common_stat_ok_def)
  then show ?thesis using Some printed(2) by (simp add: stat_of_def)
qed

lemma identity_iff:
  assumes "common_stat_ok c" "proc_ok k"
  shows "process_identity_pid c stale k process_id instance_id = Inr pid \<longleftrightarrow>
    native_pid process_id = Some pid \<and> instance_id \<noteq> 0 \<and> (\<exists>t. kn_live k pid = Some t \<and> tk_start t = instance_id)"
  unfolding identity_stat proc_ok_read [OF assms] ..

definition timeline :: "moments \<Rightarrow> bool" where
  "timeline m \<longleftrightarrow> kernel_ok (mo_check m) \<and> kernel_step\<^sup>*\<^sup>* (mo_check m) (mo_open m) \<and>
     kernel_step\<^sup>*\<^sup>* (mo_open m) (mo_recheck m) \<and> kernel_step\<^sup>*\<^sup>* (mo_recheck m) (mo_send m) \<and>
     kernel_step\<^sup>*\<^sup>* (mo_send m) (mo_fallback_check m) \<and> kernel_step\<^sup>*\<^sup>* (mo_fallback_check m) (mo_kill m) \<and>
     proc_ok (mo_check m) \<and> proc_ok (mo_recheck m) \<and> proc_ok (mo_fallback_check m)"

lemma pidfd_reaches_identified:
  assumes c: "common_stat_ok c" and m: "timeline m"
    and sent: "signal_with_pidfd c stale refused m process_id instance_id signal_number = (Inr t, unsupported)"
  shows "native_pid process_id = Some (tk_pid t) \<and> tk_start t = instance_id \<and> 1 < tk_pid t"
proof -
  obtain pid where check: "process_identity_pid c stale (mo_check m) process_id instance_id = Inr pid" "1 < pid"
    and opened: "kn_live (mo_open m) pid = Some t"
    and recheck: "process_identity_pid c stale (mo_recheck m) process_id instance_id \<in> range Inr"
    and live: "kn_live (mo_send m) (tk_pid t) = Some t"
    using sent by (auto simp: signal_with_pidfd_def pidfd_open_def pidfd_send_signal_def
        split: sum.split_asm option.split_asm if_split_asm)
  have native: "native_pid process_id = Some pid" using check(1) c m by (simp add: identity_iff timeline_def)
  have ok: "kernel_ok (mo_open m)" using m kernel_ok_steps by (auto simp: timeline_def)
  then have "tk_pid t = pid" using opened by (simp add: kernel_ok_def)
  moreover have "kn_live (mo_recheck m) (tk_pid t) = Some t"
    using lives_between [OF ok _ _ _ live] m opened \<open>tk_pid t = pid\<close> by (simp add: timeline_def)
  ultimately show ?thesis
    using recheck native check(2) c m by (auto simp: identity_iff timeline_def)
qed

text \<open>
  C23. Signals go to the process that was chosen, although numbers are reused while the program
  works. Through a pidfd, whatever exits and starts between the calls, the task that receives the
  signal is the one with the given number and start time, never process 1; by number (kernels without
  pidfds) so it is unless the number changed hands between the check and the signal; and a chosen
  process that stays alive is signalled unless the kernel refuses.
\<close>

theorem signal_reaches_identified_process:
  assumes "common_stat_ok c" "timeline m"
  shows "(lsm_process_control c stale refused m process_id instance_id action = Inr t \<longrightarrow>
      kn_live (mo_fallback_check m) (tk_pid t) = kn_live (mo_kill m) (tk_pid t) \<or>
        snd (signal_with_pidfd c stale refused m process_id instance_id (signal_from_control action)) = False \<longrightarrow>
      native_pid process_id = Some (tk_pid t) \<and> tk_start t = instance_id \<and> 1 < tk_pid t) \<and>
    (native_pid process_id = Some (tk_pid t) \<and> tk_start t = instance_id \<and> instance_id \<noteq> 0 \<and> 1 < tk_pid t \<and>
      kn_live (mo_check m) (tk_pid t) = Some t \<and> kn_live (mo_send m) (tk_pid t) = Some t \<and>
      rf_open refused = None \<and> rf_send refused = None \<longrightarrow>
      lsm_process_control c stale refused m process_id instance_id action = Inr t)"
    (is "?safe \<and> ?live")
proof
  have positive: "0 < signal_from_control action" by (cases action) simp_all
  show ?safe
  proof (intro impI)
    assume sent: "lsm_process_control c stale refused m process_id instance_id action = Inr t"
      and stable: "kn_live (mo_fallback_check m) (tk_pid t) = kn_live (mo_kill m) (tk_pid t) \<or>
        snd (signal_with_pidfd c stale refused m process_id instance_id (signal_from_control action)) = False"
    obtain result unsupported where pidfd:
      "signal_with_pidfd c stale refused m process_id instance_id (signal_from_control action) = (result, unsupported)"
      by (cases "signal_with_pidfd c stale refused m process_id instance_id (signal_from_control action)")
    show "native_pid process_id = Some (tk_pid t) \<and> tk_start t = instance_id \<and> 1 < tk_pid t"
    proof (cases result)
      case (Inr t')
      then show ?thesis
        using pidfd_reaches_identified [OF assms, of stale refused process_id instance_id "signal_from_control action" t']
          pidfd sent positive by (simp add: lsm_process_control_def Let_def)
    next
      case (Inl e)
      then obtain pid where pid: "process_identity_pid c stale (mo_fallback_check m) process_id instance_id = Inr pid"
        "1 < pid" "kn_live (mo_kill m) pid = Some t" and unsupported: "unsupported"
        using sent pidfd positive
        by (auto simp: lsm_process_control_def Let_def split: bool.split_asm sum.split_asm if_split_asm option.split_asm)
      have "kernel_ok (mo_kill m)" using assms(2) kernel_ok_steps unfolding timeline_def by blast
      then have "tk_pid t = pid" using pid(3) by (simp add: kernel_ok_def)
      then show ?thesis
        using pid stable pidfd unsupported assms by (auto simp: identity_iff timeline_def)
    qed
  qed
  show ?live
  proof
    assume a: "native_pid process_id = Some (tk_pid t) \<and> tk_start t = instance_id \<and> instance_id \<noteq> 0 \<and> 1 < tk_pid t \<and>
      kn_live (mo_check m) (tk_pid t) = Some t \<and> kn_live (mo_send m) (tk_pid t) = Some t \<and>
      rf_open refused = None \<and> rf_send refused = None"
    have "kn_live (mo_recheck m) (tk_pid t) = Some t" "kn_live (mo_open m) (tk_pid t) = Some t"
      using a assms(2) lives_between [of "mo_check m" t] unfolding timeline_def by (meson rtranclp_trans)+
    then have "process_identity_pid c stale (mo_check m) process_id instance_id = Inr (tk_pid t)"
      "process_identity_pid c stale (mo_recheck m) process_id instance_id = Inr (tk_pid t)"
      using a assms by (simp_all add: identity_iff timeline_def)
    then show "lsm_process_control c stale refused m process_id instance_id action = Inr t"
      using a positive \<open>kn_live (mo_open m) (tk_pid t) = Some t\<close>
      by (simp add: lsm_process_control_def signal_with_pidfd_def pidfd_open_def pidfd_send_signal_def Let_def)
  qed
qed

subsection \<open>The tree that is signalled\<close>

text \<open>The process \<open>n\<close> generations up, as far as the snapshot knows.\<close>

definition parent_of :: "pid_parent list \<Rightarrow> int \<rightharpoonup> int" where
  "parent_of items = map_of (map (\<lambda>item. (pp_pid item, pp_ppid item)) items)"

fun ancestor :: "pid_parent list \<Rightarrow> nat \<Rightarrow> int \<Rightarrow> int option" where
  "ancestor items 0 pid = Some pid"
| "ancestor items (Suc n) pid = (case parent_of items pid of None \<Rightarrow> None | Some parent \<Rightarrow> ancestor items n parent)"

definition distance :: "pid_parent list \<Rightarrow> int \<Rightarrow> int \<Rightarrow> nat" where
  "distance items root_pid pid = (LEAST n. ancestor items n pid = Some root_pid)"

definition below :: "pid_parent list \<Rightarrow> int \<Rightarrow> int \<Rightarrow> bool" where
  "below items root_pid pid \<longleftrightarrow> pid \<noteq> root_pid \<and> (\<exists>n. ancestor items n pid = Some root_pid)"

lemma ancestor_add:
  "ancestor items n pid = Some q \<Longrightarrow> ancestor items (n + m) pid = ancestor items m q"
  by (induction items n pid rule: ancestor.induct) (auto split: option.split_asm)

lemma ancestor_prefix: "ancestor items n pid \<noteq> None \<Longrightarrow> m \<le> n \<Longrightarrow> ancestor items m pid \<noteq> None"
proof (induction m arbitrary: n pid)
  case (Suc m)
  then show ?case by (cases n) (auto split: option.split_asm)
qed simp

lemma distance_step:
  assumes "pid \<noteq> root_pid" "parent_of items pid = Some q" "\<exists>n. ancestor items n q = Some root_pid"
  shows "distance items root_pid pid = Suc (distance items root_pid q)"
proof -
  obtain n where "ancestor items n q = Some root_pid" using assms(3) by blast
  then have "ancestor items (Suc n) pid = Some root_pid" using assms(2) by simp
  from Least_Suc [of "\<lambda>n. ancestor items n pid = Some root_pid", OF this] assms(1,2) show ?thesis
    by (simp add: distance_def)
qed

text \<open>The chain to the root repeats no process, so the guard of the loop is enough.\<close>

lemma distance_bound:
  assumes "\<exists>n. ancestor items n pid = Some root_pid"
  shows "distance items root_pid pid \<le> length items"
proof -
  let ?N = "distance items root_pid pid" and ?f = "\<lambda>m. the (ancestor items m pid)"
  have N: "ancestor items ?N pid = Some root_pid" unfolding distance_def using assms by (rule LeastI_ex)
  have minimal: "ancestor items m pid \<noteq> Some root_pid" if "m < ?N" for m
    using that not_less_Least unfolding distance_def by blast
  have defined: "ancestor items m pid = Some (?f m)" if "m \<le> ?N" for m
    using ancestor_prefix [of items ?N pid m] N that by auto
  have "inj_on ?f {..<?N}"
  proof (rule linorder_inj_onI)
    fix i j
    assume ij: "i < j" "i \<in> {..<?N}" "j \<in> {..<?N}"
    have "ancestor items (i + (?N - j)) pid = ancestor items (?N - j) (?f i)"
      using ij by (intro ancestor_add defined) simp
    moreover have "ancestor items (j + (?N - j)) pid = ancestor items (?N - j) (?f j)"
      using ij by (intro ancestor_add defined) simp
    moreover have "i + (?N - j) < ?N" "j + (?N - j) = ?N" using ij by auto
    ultimately show "?f i \<noteq> ?f j" using N minimal by metis
  qed auto
  moreover have "?f ` {..<?N} \<subseteq> dom (parent_of items)"
  proof
    fix q
    assume "q \<in> ?f ` {..<?N}"
    then obtain m where m: "m < ?N" "q = ?f m" by blast
    have "ancestor items (m + 1) pid \<noteq> None" using ancestor_prefix [of items ?N pid "m + 1"] N m by simp
    moreover have "ancestor items (m + 1) pid = ancestor items 1 q"
      using m defined [of m] by (intro ancestor_add) simp
    ultimately show "q \<in> dom (parent_of items)" by (cases "parent_of items q") auto
  qed
  moreover have "dom (parent_of items) = pp_pid ` set items"
    by (simp add: parent_of_def dom_map_of_conv_image_fst image_image)
  ultimately have "?N \<le> card (pp_pid ` set items)"
    using card_inj_on_le [of ?f "{..<?N}" "pp_pid ` set items"] by simp
  also have "\<dots> \<le> length items" by (meson card_image_le card_length finite_set le_trans)
  finally show ?thesis .
qed

lemma depth_loop_distance:
  assumes "\<And>pid. map_option pp_ppid (find_pid_parent items pid) = parent_of items' pid"
  shows "depth_loop items root_pid guard pid depth =
    (if \<exists>n\<le>guard. ancestor items' n pid = Some root_pid then depth + distance items' root_pid pid else 0)"
proof (induction guard arbitrary: pid depth)
  case 0
  then show ?case by (simp add: distance_def)
next
  case (Suc guard)
  show ?case
  proof (cases "pid = root_pid")
    case True
    have "ancestor items' 0 root_pid = Some root_pid" by simp
    then have "\<exists>n\<le>Suc guard. ancestor items' n root_pid = Some root_pid" by blast
    moreover have "distance items' root_pid root_pid = 0" by (simp add: distance_def)
    ultimately show ?thesis using True by simp
  next
    case False
    have shift: "(\<exists>n\<le>Suc guard. ancestor items' n pid = Some root_pid) \<longleftrightarrow>
        (\<exists>n\<le>guard. ancestor items' (Suc n) pid = Some root_pid)"
      using False by (metis Suc_le_mono ancestor.simps(1) not0_implies_Suc option.inject)
    show ?thesis
    proof (cases "find_pid_parent items pid")
      case None
      then have "parent_of items' pid = None" using assms [of pid] by simp
      then show ?thesis using False None by (simp add: shift)
    next
      case (Some item)
      then have parent: "parent_of items' pid = Some (pp_ppid item)" using assms [of pid] by simp
      have "distance items' root_pid pid = Suc (distance items' root_pid (pp_ppid item))"
        if "\<exists>n\<le>guard. ancestor items' n (pp_ppid item) = Some root_pid"
        using that distance_step [OF False parent] by blast
      then show ?thesis using False Some Suc.IH parent by (simp add: shift)
    qed
  qed
qed

lemma compare_pid_rank: "compare_pid_parent_pid a b \<le> 0 \<longleftrightarrow> pp_pid a \<le> pp_pid b"
  by (auto simp: compare_pid_parent_pid_def)

lemma compare_depth_rank:
  "compare_depth_descending a b \<le> 0 \<longleftrightarrow> (- int (pp_depth a), - pp_pid a) \<le> (- int (pp_depth b), - pp_pid b)"
  by (auto simp: compare_depth_descending_def less_eq_prod_def)

lemma find_sorted:
  assumes "distinct (map pp_pid items)"
  defines "sorted_items \<equiv> qsort compare_pid_parent_pid items"
  shows "set sorted_items = set items" "length sorted_items = length items" "distinct (map pp_pid sorted_items)"
    and "map_option pp_ppid (find_pid_parent sorted_items pid) = parent_of items pid"
proof -
  have s: "sorted_items = sort_key pp_pid items"
    unfolding sorted_items_def by (rule qsort_sort_key) (rule compare_pid_rank)
  show set: "set sorted_items = set items" "length sorted_items = length items" by (simp_all add: s)
  have m: "mset (map pp_pid sorted_items) = mset (map pp_pid items)" by (simp add: s)
  then show dist: "distinct (map pp_pid sorted_items)" using assms(1) mset_eq_imp_distinct_iff by blast
  let ?records = "map (\<lambda>item. (pp_pid item, item)) sorted_items"
  have fst: "map fst ?records = map pp_pid sorted_items" by (simp add: comp_def)
  have strict: "sorted_wrt (<) (map fst ?records)"
    using dist by (simp only: fst strict_sorted_iff) (simp add: s)
  have "find_pid_parent sorted_items pid = map_of ?records pid"
    using lower_bound_map_of [OF strict, of pid] by (auto simp: find_pid_parent_def Let_def fst comp_def)
  moreover have "map_option pp_ppid (map_of ?records pid) = map_of (map (\<lambda>item. (pp_pid item, pp_ppid item)) sorted_items) pid"
    by (induction sorted_items) simp_all
  moreover have "map_of (map (\<lambda>item. (pp_pid item, pp_ppid item)) sorted_items) = parent_of items"
    unfolding parent_of_def using dist assms(1) set
    by (subst map_of_inject_set) (simp_all add: comp_def)
  ultimately show "map_option pp_ppid (find_pid_parent sorted_items pid) = parent_of items pid" by metis
qed

lemma process_depth_distance:
  assumes "distinct (map pp_pid items)"
  shows "process_depth (qsort compare_pid_parent_pid items) root_pid item =
    (if \<exists>n. ancestor items n (pp_pid item) = Some root_pid then distance items root_pid (pp_pid item) else 0)"
proof -
  note f = find_sorted [OF assms]
  have "(\<exists>n\<le>length items. ancestor items n pid = Some root_pid) \<longleftrightarrow> (\<exists>n. ancestor items n pid = Some root_pid)" for pid
    using distance_bound [of items pid root_pid] LeastI_ex [of "\<lambda>n. ancestor items n pid = Some root_pid"]
    unfolding distance_def by blast
  then show ?thesis using depth_loop_distance [OF f(4)] by (simp add: process_depth_def f(2))
qed

lemma descendants_exact:
  assumes "distinct (map pp_pid items)"
  shows "set (map (\<lambda>item. (pp_pid item, pp_instance_id item)) (descendants items root_pid)) =
      {(pp_pid item, pp_instance_id item) | item. item \<in> set items \<and> below items root_pid (pp_pid item)}"
    and "distinct (map pp_pid (descendants items root_pid))"
    and "sorted_wrt (\<lambda>a b. pp_depth b \<le> pp_depth a) (descendants items root_pid)"
    and "\<forall>item\<in>set (descendants items root_pid). pp_depth item = distance items root_pid (pp_pid item) \<and>
      0 < pp_depth item \<and> below items root_pid (pp_pid item) \<and> parent_of items (pp_pid item) = Some (pp_ppid item)"
proof -
  note f = find_sorted [OF assms]
  let ?sorted = "qsort compare_pid_parent_pid items"
  let ?deep = "\<lambda>item. item\<lparr>pp_depth := process_depth ?sorted root_pid item\<rparr>"
  let ?found = "map ?deep (filter (\<lambda>item. 0 < process_depth ?sorted root_pid item) ?sorted)"
  let ?rank = "\<lambda>item. (- int (pp_depth item), - pp_pid item)"
  have d: "descendants items root_pid = sort_key ?rank ?found"
    unfolding descendants_def Let_def by (rule qsort_sort_key) (rule compare_depth_rank)
  have depth: "0 < process_depth ?sorted root_pid item \<longleftrightarrow> below items root_pid (pp_pid item)" for item
  proof -
    have zero: "distance items root_pid (pp_pid item) = 0 \<longleftrightarrow> pp_pid item = root_pid"
      if reach: "\<exists>n. ancestor items n (pp_pid item) = Some root_pid"
    proof -
      have "ancestor items (distance items root_pid (pp_pid item)) (pp_pid item) = Some root_pid"
        unfolding distance_def using reach by (rule LeastI_ex)
      moreover have "distance items root_pid root_pid = 0" by (simp add: distance_def)
      ultimately show ?thesis by auto
    qed
    show ?thesis
      by (cases "\<exists>n. ancestor items n (pp_pid item) = Some root_pid")
         (use zero in \<open>simp_all add: process_depth_distance [OF assms] below_def flip: neq0_conv\<close>)
  qed
  show "set (map (\<lambda>item. (pp_pid item, pp_instance_id item)) (descendants items root_pid)) =
      {(pp_pid item, pp_instance_id item) | item. item \<in> set items \<and> below items root_pid (pp_pid item)}"
    using f(1) by (auto simp: d image_image depth)
  have "mset (map pp_pid (descendants items root_pid)) = mset (map pp_pid ?found)"
    unfolding d by (simp only: mset_map mset_sort)
  moreover have "map pp_pid ?found = map pp_pid (filter (\<lambda>item. 0 < process_depth ?sorted root_pid item) ?sorted)" by simp
  moreover have "distinct (map pp_pid (filter (\<lambda>item. 0 < process_depth ?sorted root_pid item) ?sorted))"
    using f(3) by (rule distinct_map_filter)
  ultimately show "distinct (map pp_pid (descendants items root_pid))" using mset_eq_imp_distinct_iff by metis
  have "sorted_wrt (\<lambda>a b. ?rank a \<le> ?rank b) (descendants items root_pid)"
    using sorted_sort_key [of ?rank ?found] by (simp add: d sorted_map)
  then show "sorted_wrt (\<lambda>a b. pp_depth b \<le> pp_depth a) (descendants items root_pid)"
    by (rule sorted_wrt_mono_rel [rotated]) (auto simp: less_eq_prod_def)
  have parent: "parent_of items (pp_pid item) = Some (pp_ppid item)" if "item \<in> set items" for item
    using that assms unfolding parent_of_def by (intro map_of_is_SomeI) (auto simp: comp_def)
  show "\<forall>item\<in>set (descendants items root_pid). pp_depth item = distance items root_pid (pp_pid item) \<and>
      0 < pp_depth item \<and> below items root_pid (pp_pid item) \<and> parent_of items (pp_pid item) = Some (pp_ppid item)"
  proof
    fix item
    assume "item \<in> set (descendants items root_pid)"
    then obtain x where x: "x \<in> set items" "item = ?deep x" "0 < process_depth ?sorted root_pid x"
      using f(1) by (auto simp: d)
    then have "below items root_pid (pp_pid x)" using depth by simp
    moreover from this have "process_depth ?sorted root_pid x = distance items root_pid (pp_pid x)"
      by (simp add: process_depth_distance [OF assms] below_def)
    ultimately show "pp_depth item = distance items root_pid (pp_pid item) \<and> 0 < pp_depth item \<and>
        below items root_pid (pp_pid item) \<and> parent_of items (pp_pid item) = Some (pp_ppid item)"
      using parent x by simp
  qed
qed

lemma children_first:
  assumes "distinct (map pp_pid items)" "descendants items root_pid = earlier @ item # later"
  shows "pp_ppid item \<notin> pp_pid ` set earlier"
proof
  assume "pp_ppid item \<in> pp_pid ` set earlier"
  then obtain parent where parent: "parent \<in> set earlier" "pp_ppid item = pp_pid parent" by auto
  note d = descendants_exact [OF assms(1), of root_pid, unfolded assms(2)]
  have "pp_depth item \<le> pp_depth parent" using d(3) parent(1) by (auto simp: sorted_wrt_append)
  moreover have "pp_depth item = Suc (pp_depth parent)"
  proof -
    have "below items root_pid (pp_pid item)" "below items root_pid (pp_pid parent)"
      "parent_of items (pp_pid item) = Some (pp_pid parent)"
      "pp_depth item = distance items root_pid (pp_pid item)" "pp_depth parent = distance items root_pid (pp_pid parent)"
      using d(4) parent by auto
    then show ?thesis using distance_step by (simp add: below_def)
  qed
  ultimately show False by simp
qed

lemma tree_result_None:
  "tree_result outcome targets = None \<longleftrightarrow> list_all (\<lambda>t. outcome t = None \<or> outcome t = Some E_SRCH) targets"
proof (cases "find (\<lambda>t. outcome t \<noteq> None \<and> outcome t \<noteq> Some E_SRCH) targets")
  case None
  show ?thesis using None [unfolded find_None_iff] unfolding tree_result_def None list_all_iff
    by (auto simp del: split_paired_All split_paired_Ex)
next
  case (Some t)
  then have "t \<in> set targets" "outcome t \<noteq> None" "outcome t \<noteq> Some E_SRCH" by (auto simp: find_Some_iff)
  then show ?thesis using Some by (auto simp: tree_result_def list_all_iff)
qed

text \<open>
  C16. Acting on a process tree: nothing is signalled unless the root is identified before and after
  the processes are enumerated. Otherwise exactly the processes from which the parent links of the
  enumeration lead to the root are signalled, once each and every child before its parent, and the
  root last; loops in the links end the search. The result is an error exactly when some process
  could not be signalled for another reason than having exited.
\<close>

theorem control_tree_exact:
  assumes "items = enumerate_processes c stale stat names" "distinct (map pp_pid items)"
  shows "(case lsm_process_control_tree c stale k k' (Inr names) stat outcome root_id root_instance action of
      (failure, targets) \<Rightarrow>
        (if \<exists>root_pid>1. process_identity_pid c stale k root_id root_instance = Inr root_pid \<and>
              process_identity_pid c stale k' root_id root_instance = Inr root_pid
         then \<exists>ds :: pid_parent list. targets = map (\<lambda>item. (pp_pid item, pp_instance_id item)) ds @ [(uint root_id, root_instance)] \<and>
           set (map (\<lambda>item. (pp_pid item, pp_instance_id item)) ds) =
             {(pp_pid item, pp_instance_id item) | item. item \<in> set items \<and> below items (uint root_id) (pp_pid item)} \<and>
           distinct (map fst targets) \<and>
           (\<forall>earlier item later. ds = earlier @ item # later \<longrightarrow> pp_ppid item \<notin> pp_pid ` set earlier) \<and>
           (failure = None \<longleftrightarrow> list_all (\<lambda>t. outcome t = None \<or> outcome t = Some E_SRCH) targets)
         else targets = [] \<and> failure \<noteq> None))"
proof (cases "\<exists>root_pid>1. process_identity_pid c stale k root_id root_instance = Inr root_pid \<and>
              process_identity_pid c stale k' root_id root_instance = Inr root_pid")
  case True
  then obtain root_pid where r: "1 < root_pid" "process_identity_pid c stale k root_id root_instance = Inr root_pid"
    "process_identity_pid c stale k' root_id root_instance = Inr root_pid" by blast
  have native: "uint root_id = root_pid" using r(2) by (auto simp: identity_stat native_pid_def split: if_split_asm)
  have positive: "\<not> signal_from_control action \<le> 0" by (cases action) simp_all
  let ?ds = "descendants items root_pid"
  let ?targets = "map (\<lambda>item. (pp_pid item, pp_instance_id item)) ?ds @ [(root_pid, root_instance)]"
  have result: "lsm_process_control_tree c stale k k' (Inr names) stat outcome root_id root_instance action =
      (tree_result outcome ?targets, ?targets)"
    using r positive by (simp add: lsm_process_control_tree_def Let_def native flip: assms(1))
  note d = descendants_exact [OF assms(2), of root_pid]
  have "root_pid \<notin> pp_pid ` set ?ds" using d(4) by (auto simp: below_def)
  then have distinct: "distinct (map fst ?targets)" using d(2) by (simp add: comp_def)
  have order: "\<forall>earlier item later. ?ds = earlier @ item # later \<longrightarrow> pp_ppid item \<notin> pp_pid ` set earlier"
    using children_first [OF assms(2)] by blast
  show ?thesis
    unfolding result native prod.case if_P [OF True]
    by (intro exI [of _ ?ds] conjI refl) (rule d(1) distinct order tree_result_None)+
next
  case False
  show ?thesis
  proof (cases "process_identity_pid c stale k root_id root_instance")
    case (Inl e)
    then show ?thesis unfolding if_not_P [OF False] by (simp add: lsm_process_control_tree_def)
  next
    case (Inr r)
    note before = this
    show ?thesis
    proof (cases "process_identity_pid c stale k' root_id root_instance")
      case (Inl e)
      then show ?thesis unfolding if_not_P [OF False] using before by (simp add: lsm_process_control_tree_def)
    next
      case (Inr r')
      then have "native_pid root_id = Some r" "native_pid root_id = Some r'" using before by (simp_all only: identity_stat)
      then have "\<not> 1 < r" using False Inr before by auto
      then show ?thesis unfolding if_not_P [OF False] using before by (simp add: lsm_process_control_tree_def)
    qed
  qed
qed

subsection \<open>Examples\<close>

definition sample_task :: task where
  "sample_task = \<lparr>tk_serial = 0, tk_pid = 3, tk_start = 901\<rparr>"

definition sample_kernel :: kernel where
  "sample_kernel = \<lparr>kn_live = [3 \<mapsto> sample_task], kn_used = {sample_task},
     kn_stat = (\<lambda>pid. if pid = 3 then Some (stat_text 3 ''top'' (stat_tokens sample_stat (\<lambda>_. ''0'') @ [])) else None),
     kn_read_errno = (\<lambda>_. None)\<rparr>"

lemma ref_common_stat_ok: "common_stat_ok ref_common"
  by (simp add: common_stat_ok_def ref_common_ok ref_common_signed_range_ok)

lemma sample_printed: "stat_printed sample_stat (\<lambda>_. ''0'') []"
  by (simp add: stat_printed_def plain_token_def sample_stat_def INT_MIN_def INT_MAX_def)

lemma sample_kernel_ok: "kernel_ok sample_kernel" "proc_ok sample_kernel"
proof -
  show "kernel_ok sample_kernel" by (simp add: kernel_ok_def sample_kernel_def sample_task_def)
  have "kn_stat sample_kernel 3 = Some (stat_text (nat 3) ''top'' (stat_tokens sample_stat (\<lambda>_. ''0'') @ []))"
    by (simp add: sample_kernel_def)
  moreover have "sv_start sample_stat = tk_start sample_task" by (simp add: sample_stat_def sample_task_def)
  ultimately have "\<exists>name v others rest. stat_printed v others rest \<and> sv_start v = tk_start sample_task \<and>
      kn_stat sample_kernel 3 = Some (stat_text (nat 3) name (stat_tokens v others @ rest))"
    using sample_printed by blast
  then show "proc_ok sample_kernel" by (auto simp: proc_ok_def sample_kernel_def)
qed

lemma sample_identity: "process_identity_pid ref_common [] sample_kernel 3 901 = Inr 3"
  by (simp add: identity_iff [OF ref_common_stat_ok sample_kernel_ok(2)] native_pid_def INT_MAX_def)
     (simp add: sample_kernel_def sample_task_def)

definition sample_moments :: moments where
  "sample_moments = \<lparr>mo_check = sample_kernel, mo_open = sample_kernel, mo_recheck = sample_kernel,
     mo_send = sample_kernel, mo_fallback_check = sample_kernel, mo_kill = sample_kernel\<rparr>"

theorem signal_reaches_identified_process_witness:
  "lsm_process_control ref_common [] \<lparr>rf_open = None, rf_send = None, rf_kill = None\<rparr> sample_moments 3 901
     Control_Terminate = Inr sample_task"
proof -
  have "timeline sample_moments" using sample_kernel_ok by (simp add: timeline_def sample_moments_def)
  from signal_reaches_identified_process [OF ref_common_stat_ok this, of "[]"
      "\<lparr>rf_open = None, rf_send = None, rf_kill = None\<rparr>" 3 901 Control_Terminate sample_task]
  show ?thesis
    by (simp add: native_pid_def INT_MAX_def sample_moments_def sample_kernel_def sample_task_def)
qed

lemma sample_enumeration:
  "enumerate_processes ref_common [] (kn_stat sample_kernel) [''3'', ''self''] =
     [\<lparr>pp_pid = 3, pp_ppid = 1, pp_instance_id = 901, pp_depth = 0\<rparr>]"
proof -
  have pids: "parse_proc_pid ref_common ''3'' = Some 3" "parse_proc_pid ref_common ''self'' = None"
    by (simp_all add: parse_proc_pid_def ref_common_def ref_parse_u64_def ascii_digit_def decimal_value_def digit_value_def INT_MAX_def
        word_le_nat_alt)
  have "read_process_stat ref_common [] (kn_stat sample_kernel 3) = Some (stat_of ''top'' sample_stat)"
    using read_printed_stat [OF ref_common_ok(1,2,6) ref_common_signed_range_ok sample_printed, of "[]" 3 "''top''"]
    by (simp only: sample_kernel_def kernel.simps if_True refl)
  then show ?thesis
    by (simp add: enumerate_processes_def map_filter_simps pids read_pid_parent_def)
       (simp add: stat_of_def sample_stat_def INT_MAX_def)
qed

theorem control_tree_exact_witness:
  "fst (lsm_process_control_tree ref_common [] sample_kernel sample_kernel (Inr [''3'', ''self'']) (kn_stat sample_kernel)
     (\<lambda>_. None) 3 901 Control_Terminate) = None"
proof -
  have "distinct (map pp_pid (enumerate_processes ref_common [] (kn_stat sample_kernel) [''3'', ''self'']))"
    by (simp add: sample_enumeration)
  from control_tree_exact [OF refl this, where k = sample_kernel and k' = sample_kernel
      and outcome = "\<lambda>_. None" and root_id = 3 and root_instance = 901 and action = Control_Terminate]
  show ?thesis by (auto simp: sample_identity list_all_iff split: prod.split_asm)
qed

end
