(* ===== verification/Process_Scan.thy ===== *)
theory Process_Scan
  imports Process_Stat Sorted_Arrays "HOL-Library.Multiset"
begin

text \<open>
  One scan of the process backend (\<^verbatim>\<open>lsm_process_scan\<close> of \<^verbatim>\<open>src/process_backend_linux.c\<close>): the retained
  sample of each process, the row computed from it and from what \<^verbatim>\<open>/proc\<close> holds now, and the
  transaction around them. What the readers of \<^verbatim>\<open>/proc\<close> return for a process is its \<open>observation\<close>; the
  graphics counters and their arithmetic (\<^verbatim>\<open>src/process_gpu.c\<close>) are a parameter. Of a row the
  members that depend on the retained sample are kept, with the CPU time; those copied from the
  readers are left out. A failed scan is proved to leave no trace; after a successful one the retained
  samples are exactly the observed processes, in order, and every row is a function of the
  observation and of the sample the previous complete scan retained for the same process.
\<close>

definition LSM_PROCESS_METADATA_REFRESH_SECONDS :: double where "LSM_PROCESS_METADATA_REFRESH_SECONDS = Fin 5"

definition LSM_PROCESS_GPU_REFRESH_SECONDS :: double where "LSM_PROCESS_GPU_REFRESH_SECONDS = Fin 2"

definition LSM_PROCESS_GPU_NEGATIVE_REFRESH_SECONDS :: double where "LSM_PROCESS_GPU_NEGATIVE_REFRESH_SECONDS = Fin 10"

record 'g process_sample =
  sa_pid :: int
  sa_start_ticks :: u64
  sa_cpu_ticks :: u64
  sa_read_bytes :: u64
  sa_write_bytes :: u64
  sa_io_available :: bool
  sa_sampled_at :: double
  sa_gpu_sampled_at :: double
  sa_gpu :: "'g option" \<comment> \<open>\<open>None\<close> unless \<^verbatim>\<open>gpu_snapshot_valid\<close>\<close>
  sa_gpu_percent :: double
  sa_gpu_memory_bytes :: u64
  sa_gpu_engine :: string
  sa_command :: "string option"
  sa_executable :: "string option"
  sa_cgroup_path :: "string option"
  sa_command_sampled_at :: double
  sa_executable_sampled_at :: double
  sa_cgroup_sampled_at :: double
  sa_gpu_available :: bool
  sa_gpu_memory_available :: bool
  sa_cgroup_v2 :: bool
  sa_generation :: u32

definition new_sample :: "int \<Rightarrow> 'g process_sample" where
  "new_sample pid =
     \<lparr>sa_pid = pid, sa_start_ticks = 0, sa_cpu_ticks = 0, sa_read_bytes = 0, sa_write_bytes = 0, sa_io_available = False,
      sa_sampled_at = Fin 0, sa_gpu_sampled_at = Fin 0, sa_gpu = None, sa_gpu_percent = Fin 0, sa_gpu_memory_bytes = 0,
      sa_gpu_engine = [], sa_command = None, sa_executable = None, sa_cgroup_path = None,
      sa_command_sampled_at = Fin 0, sa_executable_sampled_at = Fin 0, sa_cgroup_sampled_at = Fin 0,
      sa_gpu_available = False, sa_gpu_memory_available = False, sa_cgroup_v2 = False, sa_generation = 0\<rparr>"

record 'g observation =
  ob_pid :: int
  ob_stat :: process_stat
  ob_rss_bytes :: u64
  ob_command :: string
  ob_executable :: string
  ob_io_available :: bool
  ob_read_bytes :: u64
  ob_write_bytes :: u64
  ob_enrich :: "bool \<Rightarrow> string \<times> bool \<Rightarrow> string \<times> bool" \<comment> \<open>the control group after enriching, asked for it or not\<close>
  ob_gpu :: "('g \<times> u64 option) option" \<comment> \<open>counters and memory\<close>

record 'g gpu_ops =
  gpu_normalise :: "'g \<Rightarrow> 'g \<Rightarrow> 'g"
  gpu_calculate_engine :: "'g \<Rightarrow> 'g \<Rightarrow> double \<Rightarrow> (double \<times> string) option"

record process_row =
  rw_pid :: int
  rw_instance_id :: u64
  rw_priority :: process_priority
  rw_efficiency_mode :: bool
  rw_command :: string
  rw_executable :: string
  rw_cgroup_path :: string
  rw_cgroup_v2 :: bool
  rw_memory_percent :: double
  rw_cpu_time_seconds :: u64
  rw_cpu_percent :: double
  rw_io_totals_available :: bool
  rw_read_bytes :: u64
  rw_write_bytes :: u64
  rw_io_rate_available :: bool
  rw_read_bytes_per_sec :: double
  rw_write_bytes_per_sec :: double
  rw_gpu_available :: bool
  rw_gpu_percent :: double
  rw_gpu_engine :: string
  rw_gpu_memory_available :: bool
  rw_gpu_memory_bytes :: u64

record scan_request =
  rq_executable :: bool
  rq_gpu :: bool
  rq_cgroup :: bool
  rq_sampled_at :: double
  rq_total_delta :: u64
  rq_total_memory :: u64
  rq_ticks_per_second :: int
  rq_generation :: u32

subsection \<open>One process\<close>

definition new_row :: "'g observation \<Rightarrow> process_row" where
  "new_row ob =
     \<lparr>rw_pid = ob_pid ob, rw_instance_id = ps_start_ticks (ob_stat ob),
      rw_priority = priority_from_nice (ps_nice_value (ob_stat ob)), rw_efficiency_mode = (10 \<le> ps_nice_value (ob_stat ob)),
      rw_command = [], rw_executable = [], rw_cgroup_path = [], rw_cgroup_v2 = False, rw_memory_percent = Fin 0,
      rw_cpu_time_seconds = 0, rw_cpu_percent = Fin 0, rw_io_totals_available = ob_io_available ob,
      rw_read_bytes = ob_read_bytes ob, rw_write_bytes = ob_write_bytes ob, rw_io_rate_available = False,
      rw_read_bytes_per_sec = Fin 0, rw_write_bytes_per_sec = Fin 0, rw_gpu_available = False, rw_gpu_percent = Fin 0,
      rw_gpu_engine = [], rw_gpu_memory_available = False, rw_gpu_memory_bytes = 0\<rparr>"

definition same_process :: "'g observation \<Rightarrow> 'g process_sample \<Rightarrow> bool" where
  "same_process ob sample \<longleftrightarrow> sa_start_ticks sample = ps_start_ticks (ob_stat ob) \<and> sa_start_ticks sample \<noteq> 0"

definition metadata_fresh :: "double \<Rightarrow> double \<Rightarrow> bool" where
  "metadata_fresh sampled_at retained_at \<longleftrightarrow>
     (let age = dsub sampled_at retained_at in dle (Fin 0) age \<and> dless age LSM_PROCESS_METADATA_REFRESH_SECONDS)"

definition scan_command :: "scan_request \<Rightarrow> 'g observation \<Rightarrow> process_row \<times> 'g process_sample \<Rightarrow> process_row \<times> 'g process_sample" where
  "scan_command rq ob = (\<lambda>(row, sample).
     case sa_command sample of
       Some command \<Rightarrow>
         if same_process ob sample \<and> metadata_fresh (rq_sampled_at rq) (sa_command_sampled_at sample)
         then (row\<lparr>rw_command := command\<rparr>, sample)
         else (row\<lparr>rw_command := ob_command ob\<rparr>,
           sample\<lparr>sa_command := Some (ob_command ob), sa_command_sampled_at := rq_sampled_at rq\<rparr>)
     | None \<Rightarrow> (row\<lparr>rw_command := ob_command ob\<rparr>,
         sample\<lparr>sa_command := Some (ob_command ob), sa_command_sampled_at := rq_sampled_at rq\<rparr>))"

definition scan_executable :: "scan_request \<Rightarrow> 'g observation \<Rightarrow> process_row \<times> 'g process_sample \<Rightarrow> process_row \<times> 'g process_sample" where
  "scan_executable rq ob = (\<lambda>(row, sample).
     if \<not> rq_executable rq then (row, sample)
     else
       let fresh = (row\<lparr>rw_executable := ob_executable ob\<rparr>,
             sample\<lparr>sa_executable := Some (ob_executable ob), sa_executable_sampled_at := rq_sampled_at rq\<rparr>)
       in case sa_executable sample of
            Some executable \<Rightarrow>
              if same_process ob sample \<and> metadata_fresh (rq_sampled_at rq) (sa_executable_sampled_at sample)
              then (row\<lparr>rw_executable := executable\<rparr>, sample) else fresh
          | None \<Rightarrow> fresh)"

definition scan_cgroup :: "scan_request \<Rightarrow> 'g observation \<Rightarrow> process_row \<times> 'g process_sample \<Rightarrow> process_row \<times> 'g process_sample" where
  "scan_cgroup rq ob = (\<lambda>(row, sample).
     let retained = (if rq_cgroup rq \<and> same_process ob sample \<and>
             metadata_fresh (rq_sampled_at rq) (sa_cgroup_sampled_at sample) then sa_cgroup_path sample else None);
         before = (case retained of None \<Rightarrow> ([], False) | Some path \<Rightarrow> (path, sa_cgroup_v2 sample));
         asked = (rq_cgroup rq \<and> retained = None);
         after = ob_enrich ob asked before;
         row = row\<lparr>rw_cgroup_path := fst after, rw_cgroup_v2 := snd after\<rparr>
     in if asked
        then (row, sample\<lparr>sa_cgroup_path := Some (fst after), sa_cgroup_v2 := snd after,
          sa_cgroup_sampled_at := rq_sampled_at rq\<rparr>)
        else (row, sample))"

definition scan_times :: "common \<Rightarrow> scan_request \<Rightarrow> 'g observation \<Rightarrow> process_row \<times> 'g process_sample \<Rightarrow> process_row \<times> 'g process_sample" where
  "scan_times c rq ob = (\<lambda>(row, sample).
     (row\<lparr>rw_memory_percent := infiltratr_percent_u64 c (ob_rss_bytes ob) (rq_total_memory rq),
        rw_cpu_time_seconds := (if 0 < rq_ticks_per_second rq
          then ps_cpu_ticks (ob_stat ob) div word_of_int (rq_ticks_per_second rq) else 0)\<rparr>, sample))"

definition lsm_process_cpu_total_percent :: "common \<Rightarrow> u64 \<Rightarrow> u64 \<Rightarrow> double" where
  "lsm_process_cpu_total_percent c process_delta system_delta = infiltratr_percent_u64 c process_delta system_delta"

definition scan_cpu :: "common \<Rightarrow> scan_request \<Rightarrow> 'g observation \<Rightarrow> process_row \<times> 'g process_sample \<Rightarrow> process_row \<times> 'g process_sample" where
  "scan_cpu c rq ob = (\<lambda>(row, sample).
     if same_process ob sample \<and> 0 < rq_total_delta rq
     then case infiltratr_u64_counter_delta c (ps_cpu_ticks (ob_stat ob)) (sa_cpu_ticks sample) of
         None \<Rightarrow> (row, sample)
       | Some delta \<Rightarrow> (row\<lparr>rw_cpu_percent := lsm_process_cpu_total_percent c delta (rq_total_delta rq)\<rparr>, sample)
     else (row, sample))"

definition scan_io :: "common \<Rightarrow> scan_request \<Rightarrow> 'g observation \<Rightarrow> process_row \<times> 'g process_sample \<Rightarrow> process_row \<times> 'g process_sample" where
  "scan_io c rq ob = (\<lambda>(row, sample).
     let interval = dsub (rq_sampled_at rq) (sa_sampled_at sample)
     in if same_process ob sample \<and> ob_io_available ob \<and> sa_io_available sample \<and>
           dless (Fin 0) (sa_sampled_at sample) \<and> dless (Fin 0) interval
        then
          let (read_ok, read_rate) = infiltratr_u64_counter_rate c (ob_read_bytes ob) (sa_read_bytes sample) (Fin 1) interval;
              (write_ok, write_rate) = infiltratr_u64_counter_rate c (ob_write_bytes ob) (sa_write_bytes sample) (Fin 1) interval
          in (row\<lparr>rw_read_bytes_per_sec := read_rate, rw_write_bytes_per_sec := write_rate,
                rw_io_rate_available := read_ok \<and> write_ok\<rparr>, sample)
        else (row, sample))"

definition gpu_due :: "scan_request \<Rightarrow> 'g observation \<Rightarrow> 'g process_sample \<Rightarrow> bool" where
  "gpu_due rq ob sample \<longleftrightarrow>
     (let interval = dsub (rq_sampled_at rq) (sa_gpu_sampled_at sample);
          refresh = (if same_process ob sample \<and> sa_gpu sample = None
            then LSM_PROCESS_GPU_NEGATIVE_REFRESH_SECONDS else LSM_PROCESS_GPU_REFRESH_SECONDS)
      in \<not> same_process ob sample \<or> dle (sa_gpu_sampled_at sample) (Fin 0) \<or> dless interval (Fin 0) \<or> dle refresh interval)"

definition gpu_row :: "'g gpu_ops \<Rightarrow> scan_request \<Rightarrow> 'g observation \<Rightarrow> process_row \<Rightarrow> 'g process_sample \<Rightarrow> process_row \<times> 'g option" where
  "gpu_row ops rq ob row sample =
     (case ob_gpu ob of
        None \<Rightarrow> (row\<lparr>rw_gpu_available := False, rw_gpu_memory_available := False\<rparr>, None)
      | Some (gpu, memory) \<Rightarrow>
          let row = row\<lparr>rw_gpu_memory_bytes := (case memory of None \<Rightarrow> 0 | Some bytes \<Rightarrow> bytes),
                rw_gpu_memory_available := memory \<noteq> None\<rparr>
          in if \<not> same_process ob sample then (row\<lparr>rw_gpu_available := False\<rparr>, Some gpu)
             else case sa_gpu sample of
                 None \<Rightarrow> (row\<lparr>rw_gpu_available := False\<rparr>, Some gpu)
               | Some previous \<Rightarrow>
                   let gpu = gpu_normalise ops gpu previous
                   in case gpu_calculate_engine ops gpu previous (dsub (rq_sampled_at rq) (sa_gpu_sampled_at sample)) of
                        None \<Rightarrow> (row\<lparr>rw_gpu_available := False\<rparr>, Some gpu)
                      | Some (percent, engine) \<Rightarrow>
                          (row\<lparr>rw_gpu_available := True, rw_gpu_percent := percent, rw_gpu_engine := engine\<rparr>, Some gpu))"

definition scan_gpu :: "'g gpu_ops \<Rightarrow> scan_request \<Rightarrow> 'g observation \<Rightarrow> process_row \<times> 'g process_sample \<Rightarrow> process_row \<times> 'g process_sample" where
  "scan_gpu ops rq ob = (\<lambda>(row, sample).
     if \<not> rq_gpu rq then (row, sample)
     else if gpu_due rq ob sample then
       let (row, gpu) = gpu_row ops rq ob row sample
       in (row, sample\<lparr>sa_gpu := gpu, sa_gpu_percent := rw_gpu_percent row, sa_gpu_memory_bytes := rw_gpu_memory_bytes row,
             sa_gpu_engine := rw_gpu_engine row, sa_gpu_available := rw_gpu_available row,
             sa_gpu_memory_available := rw_gpu_memory_available row, sa_gpu_sampled_at := rq_sampled_at rq\<rparr>)
     else (row\<lparr>rw_gpu_percent := sa_gpu_percent sample, rw_gpu_memory_bytes := sa_gpu_memory_bytes sample,
         rw_gpu_engine := sa_gpu_engine sample, rw_gpu_available := sa_gpu_available sample,
         rw_gpu_memory_available := sa_gpu_memory_available sample\<rparr>, sample))"

definition retain_sample :: "scan_request \<Rightarrow> 'g observation \<Rightarrow> process_row \<times> 'g process_sample \<Rightarrow> process_row \<times> 'g process_sample" where
  "retain_sample rq ob = (\<lambda>(row, sample).
     (row, sample\<lparr>sa_start_ticks := ps_start_ticks (ob_stat ob), sa_cpu_ticks := ps_cpu_ticks (ob_stat ob),
        sa_read_bytes := (if ob_io_available ob then ob_read_bytes ob else sa_read_bytes sample),
        sa_write_bytes := (if ob_io_available ob then ob_write_bytes ob else sa_write_bytes sample),
        sa_io_available := ob_io_available ob, sa_sampled_at := rq_sampled_at rq, sa_generation := rq_generation rq\<rparr>))"

definition scan_process :: "common \<Rightarrow> 'g gpu_ops \<Rightarrow> scan_request \<Rightarrow> 'g observation \<Rightarrow> 'g process_sample \<Rightarrow> process_row \<times> 'g process_sample" where
  "scan_process c ops rq ob sample =
     retain_sample rq ob (scan_gpu ops rq ob (scan_io c rq ob (scan_cpu c rq ob (scan_times c rq ob
       (scan_cgroup rq ob (scan_executable rq ob (scan_command rq ob (new_row ob, sample))))))))"

subsection \<open>The table of samples\<close>

record 'g process_backend =
  be_samples :: "'g process_sample list"
  be_generation :: u32
  be_previous_total_cpu_ticks :: u64
  be_total_memory_bytes :: u64
  be_ticks_per_second :: int

definition compare_sample_pid :: "'g process_sample \<Rightarrow> 'g process_sample \<Rightarrow> int" where
  "compare_sample_pid a b = (if sa_pid b < sa_pid a then 1 else if sa_pid a < sa_pid b then -1 else 0)"

definition find_or_create_sample :: "nat \<Rightarrow> int \<Rightarrow> 'g process_sample list \<Rightarrow> nat \<times> 'g process_sample list" where
  "find_or_create_sample searchable pid samples =
     (let low = lower_bound (map sa_pid (take searchable samples)) pid 0 searchable
      in if low < searchable \<and> sa_pid (samples ! low) = pid then (low, samples)
         else (length samples, samples @ [new_sample pid]))"

record 'g scan_state =
  ss_samples :: "'g process_sample list"
  ss_mutations :: "(nat \<times> 'g process_sample) list" \<comment> \<open>newest first\<close>
  ss_rows :: "process_row list"

definition scan_entry :: "common \<Rightarrow> 'g gpu_ops \<Rightarrow> scan_request \<Rightarrow> nat \<Rightarrow> 'g scan_state \<Rightarrow> 'g observation \<Rightarrow> 'g scan_state" where
  "scan_entry c ops rq searchable s ob =
     (let (index, samples) = find_or_create_sample searchable (ob_pid ob) (ss_samples s);
          before = samples ! index;
          (row, sample) = scan_process c ops rq ob before
      in \<lparr>ss_samples = samples[index := sample],
          ss_mutations = (if index < searchable then (index, before) # ss_mutations s else ss_mutations s),
          ss_rows = ss_rows s @ [row]\<rparr>)"

text \<open>Newest first: the saved samples go back in the reverse order of their saving.\<close>

definition rollback_sample_mutations ::
    "(nat \<times> 'g process_sample) list \<Rightarrow> nat \<Rightarrow> u32 \<Rightarrow> 'g process_backend \<Rightarrow> 'g process_backend" where
  "rollback_sample_mutations mutations original_count original_generation b =
     b\<lparr>be_samples := take original_count (foldl (\<lambda>samples (index, before).
          if index < length samples then samples[index := before] else samples) (be_samples b) mutations),
       be_generation := original_generation\<rparr>"

definition compact_samples :: "nat \<Rightarrow> u32 \<Rightarrow> 'g process_sample list \<Rightarrow> 'g process_sample list" where
  "compact_samples searchable generation samples =
     (let kept = filter (\<lambda>sample. sa_generation sample = generation) samples
      in if searchable < length samples \<and> 1 < length kept then qsort compare_sample_pid kept else kept)"

definition next_generation :: "u32 \<Rightarrow> u32" where
  "next_generation g = (if g + 1 = 0 then 1 else g + 1)"

definition scan_request_of :: "common \<Rightarrow> scan_request \<Rightarrow> u64 \<Rightarrow> 'g process_backend \<Rightarrow> scan_request" where
  "scan_request_of c rq cpu_total b = rq\<lparr>
     rq_total_delta := (case infiltratr_u64_counter_delta c cpu_total (be_previous_total_cpu_ticks b) of None \<Rightarrow> 0 | Some d \<Rightarrow> d),
     rq_total_memory := be_total_memory_bytes b, rq_ticks_per_second := be_ticks_per_second b,
     rq_generation := next_generation (be_generation b)\<rparr>"

text \<open>
  \<open>cpu_total\<close> is the system's CPU time (\<open>None\<close> when it could not be read), \<open>processes\<close> the processes met in
  the directory whose records could be read (\<open>None\<close> when it could not be opened), and \<open>failed\<close> whether
  the enumeration broke off after them.
\<close>

definition lsm_process_scan ::
    "common \<Rightarrow> 'g gpu_ops \<Rightarrow> scan_request \<Rightarrow> u64 option \<Rightarrow> 'g observation list option \<Rightarrow> bool \<Rightarrow> 'g process_backend \<Rightarrow>
     process_row list option \<times> 'g process_backend" where
  "lsm_process_scan c ops rq cpu_total processes failed b =
     (case (cpu_total, processes) of
        (Some cpu_total, Some obs) \<Rightarrow>
          let searchable = length (be_samples b);
              rq = scan_request_of c rq cpu_total b;
              s = foldl (scan_entry c ops rq searchable) \<lparr>ss_samples = be_samples b, ss_mutations = [], ss_rows = []\<rparr> obs;
              scanned = b\<lparr>be_samples := ss_samples s, be_generation := rq_generation rq\<rparr>
          in if failed then (None, rollback_sample_mutations (ss_mutations s) searchable (be_generation b) scanned)
             else (Some (ss_rows s), scanned\<lparr>be_previous_total_cpu_ticks := cpu_total,
                be_samples := compact_samples searchable (rq_generation rq) (ss_samples s)\<rparr>)
      | _ \<Rightarrow> (None, b))"

subsection \<open>A scan as a function of the previous samples\<close>

definition backend_ok :: "'g process_backend \<Rightarrow> bool" where
  "backend_ok b \<longleftrightarrow> sorted_wrt (<) (map sa_pid (be_samples b)) \<and>
     list_all (\<lambda>sample. sa_generation sample = be_generation b) (be_samples b)"

definition sample_of :: "'g process_sample list \<Rightarrow> int \<rightharpoonup> 'g process_sample" where
  "sample_of samples = map_of (map (\<lambda>sample. (sa_pid sample, sample)) samples)"

definition previous_sample :: "'g process_sample list \<Rightarrow> int \<Rightarrow> 'g process_sample" where
  "previous_sample samples pid = (case sample_of samples pid of None \<Rightarrow> new_sample pid | Some sample \<Rightarrow> sample)"

lemmas scan_stages = scan_command_def scan_executable_def scan_cgroup_def scan_times_def scan_cpu_def scan_io_def
  scan_gpu_def

lemma stages_keep:
  "sa_pid (snd (scan_command rq ob x)) = sa_pid (snd x)" "sa_pid (snd (scan_executable rq ob x)) = sa_pid (snd x)"
  "sa_pid (snd (scan_cgroup rq ob x)) = sa_pid (snd x)" "sa_pid (snd (scan_times c rq ob x)) = sa_pid (snd x)"
  "sa_pid (snd (scan_cpu c rq ob x)) = sa_pid (snd x)" "sa_pid (snd (scan_io c rq ob x)) = sa_pid (snd x)"
  "sa_pid (snd (scan_gpu ops rq ob x)) = sa_pid (snd x)" "sa_pid (snd (retain_sample rq ob x)) = sa_pid (snd x)"
  by (auto simp: scan_stages retain_sample_def Let_def case_prod_unfold split: option.split)

lemma scan_process_pid [simp]: "sa_pid (snd (scan_process c ops rq ob sample)) = sa_pid sample"
  by (simp add: scan_process_def stages_keep)

lemma scan_process_generation [simp]: "sa_generation (snd (scan_process c ops rq ob sample)) = rq_generation rq"
  by (simp add: scan_process_def retain_sample_def case_prod_unfold)

lemma next_generation_differs: "next_generation g \<noteq> g"
  by (auto simp: next_generation_def)

lemma map_change_one:
  assumes "i < length xs" "\<And>j. j < length xs \<Longrightarrow> j \<noteq> i \<Longrightarrow> g (xs ! j) = f (xs ! j)"
  shows "map g xs = (map f xs)[i := g (xs ! i)]"
  using assms by (intro nth_equalityI) (auto simp: nth_list_update)

lemma sample_of_Some: "sample_of samples pid = Some sample \<Longrightarrow> sample \<in> set samples \<and> sa_pid sample = pid"
  unfolding sample_of_def by (auto dest!: map_of_SomeD)

lemma sample_of_None: "sample_of samples pid = None \<longleftrightarrow> pid \<notin> sa_pid ` set samples"
  unfolding sample_of_def map_of_eq_None_iff by force

lemma sample_of_set:
  assumes "distinct (map sa_pid samples)" "sample \<in> set samples"
  shows "sample_of samples (sa_pid sample) = Some sample"
  using assms unfolding sample_of_def by (intro map_of_is_SomeI) (auto simp: comp_def)

lemma find_or_create_cases:
  assumes "sorted_wrt (<) (map sa_pid original)" "map sa_pid (take (length original) samples) = map sa_pid original"
    and "length original \<le> length samples"
  obtains
    (found) i where "find_or_create_sample (length original) pid samples = (i, samples)" "i < length original"
      "sa_pid (original ! i) = pid" "sample_of original pid = Some (original ! i)"
  | (created) "find_or_create_sample (length original) pid samples = (length samples, samples @ [new_sample pid])"
      "sample_of original pid = None"
proof -
  let ?records = "map (\<lambda>sample. (sa_pid sample, sample)) original"
  let ?low = "lower_bound (map sa_pid original) pid 0 (length original)"
  have fst: "map fst ?records = map sa_pid original" by (simp add: comp_def)
  have pids: "sa_pid (samples ! i) = sa_pid (original ! i)" if "i < length original" for i
    using arg_cong [OF assms(2), of "\<lambda>xs. xs ! i"] that assms(3) by simp
  have lookup: "sample_of original pid =
      (if length original \<le> ?low \<or> sa_pid (original ! ?low) \<noteq> pid then None else Some (original ! ?low))"
    using lower_bound_map_of [of ?records pid] assms(1) unfolding sample_of_def fst by (auto simp: not_le)
  show thesis
  proof (cases "?low < length original \<and> sa_pid (original ! ?low) = pid")
    case True
    then show thesis
      using lookup pids by (intro found [of ?low]) (simp_all add: find_or_create_sample_def assms(2))
  next
    case False
    then show thesis
      using lookup pids by (intro created) (auto simp: find_or_create_sample_def assms(2) Let_def)
  qed
qed

text \<open>What the loop has made of the samples after some processes.\<close>

definition observed :: "'g observation list \<Rightarrow> int \<rightharpoonup> 'g observation" where
  "observed obs = map_of (map (\<lambda>ob. (ob_pid ob, ob)) obs)"

definition updated :: "common \<Rightarrow> 'g gpu_ops \<Rightarrow> scan_request \<Rightarrow> 'g observation list \<Rightarrow> 'g process_sample \<Rightarrow> 'g process_sample" where
  "updated c ops rq obs sample =
     (case observed obs (sa_pid sample) of None \<Rightarrow> sample | Some ob \<Rightarrow> snd (scan_process c ops rq ob sample))"

definition appended :: "common \<Rightarrow> 'g gpu_ops \<Rightarrow> scan_request \<Rightarrow> 'g process_sample list \<Rightarrow> 'g observation list \<Rightarrow> 'g process_sample list" where
  "appended c ops rq original obs =
     map (\<lambda>ob. snd (scan_process c ops rq ob (new_sample (ob_pid ob))))
       (filter (\<lambda>ob. sample_of original (ob_pid ob) = None) obs)"

definition scanned :: "common \<Rightarrow> 'g gpu_ops \<Rightarrow> scan_request \<Rightarrow> 'g process_sample list \<Rightarrow> 'g observation list \<Rightarrow> 'g scan_state \<Rightarrow> bool" where
  "scanned c ops rq original obs s \<longleftrightarrow>
     ss_samples s = map (updated c ops rq obs) original @ appended c ops rq original obs \<and>
     ss_rows s = map (\<lambda>ob. fst (scan_process c ops rq ob (previous_sample original (ob_pid ob)))) obs \<and>
     (\<forall>(i, before)\<in>set (ss_mutations s). i < length original \<and> before = original ! i) \<and>
     (\<forall>i<length original. i \<notin> fst ` set (ss_mutations s) \<longrightarrow> ss_samples s ! i = original ! i)"

lemma updated_pid [simp]: "sa_pid (updated c ops rq obs sample) = sa_pid sample"
  by (simp add: updated_def split: option.split)

lemma new_sample_pid [simp]: "sa_pid (new_sample pid) = pid"
  by (simp add: new_sample_def)

lemma observed_snoc:
  "ob_pid ob \<notin> ob_pid ` set obs \<Longrightarrow> observed (obs @ [ob]) = (observed obs)(ob_pid ob \<mapsto> ob)"
  by (auto simp: observed_def map_add_def fun_eq_iff dest!: map_of_SomeD split: option.split)

lemma observed_None: "observed obs pid = None \<longleftrightarrow> pid \<notin> ob_pid ` set obs"
  unfolding observed_def map_of_eq_None_iff by force

lemma scanned_entry:
  assumes sorted: "sorted_wrt (<) (map sa_pid original)" and s: "scanned c ops rq original obs s"
    and new: "ob_pid ob \<notin> ob_pid ` set obs"
  shows "scanned c ops rq original (obs @ [ob]) (scan_entry c ops rq (length original) s ob)"
proof -
  let ?upd = "\<lambda>sample. snd (scan_process c ops rq ob sample)"
  have dist: "distinct (map sa_pid original)" using sorted by (simp add: strict_sorted_iff)
  have ss: "ss_samples s = map (updated c ops rq obs) original @ appended c ops rq original obs"
    and rows: "ss_rows s = map (\<lambda>ob. fst (scan_process c ops rq ob (previous_sample original (ob_pid ob)))) obs"
    and muts: "\<forall>(i, before)\<in>set (ss_mutations s). i < length original \<and> before = original ! i"
      "\<forall>i<length original. i \<notin> fst ` set (ss_mutations s) \<longrightarrow> ss_samples s ! i = original ! i"
    using s unfolding scanned_def by blast+
  have prefix: "map sa_pid (take (length original) (ss_samples s)) = map sa_pid original"
    "length original \<le> length (ss_samples s)" by (simp_all add: ss comp_def)
  have others: "updated c ops rq (obs @ [ob]) sample = updated c ops rq obs sample" if "sa_pid sample \<noteq> ob_pid ob" for sample
    using that by (simp add: updated_def observed_snoc [OF new])
  show ?thesis
  using sorted prefix proof (cases rule: find_or_create_cases [where pid = "ob_pid ob"])
    case (found i)
    have before: "ss_samples s ! i = original ! i"
      using found(2,3) new by (simp add: ss nth_append updated_def observed_None [THEN iffD2])
    have change: "map (updated c ops rq (obs @ [ob])) original = (map (updated c ops rq obs) original)[i := ?upd (original ! i)]"
    proof -
      have "sa_pid (original ! j) \<noteq> ob_pid ob" if "j < length original" "j \<noteq> i" for j
        using that found(2,3) nth_eq_iff_index_eq [OF dist, of j i] by auto
      from map_change_one [of i original "updated c ops rq (obs @ [ob])" "updated c ops rq obs", OF found(2) others [OF this]]
      show ?thesis using found(3) by (simp add: updated_def observed_snoc [OF new])
    qed
    have app: "appended c ops rq original (obs @ [ob]) = appended c ops rq original obs"
      using found(4) by (simp add: appended_def)
    have row: "previous_sample original (ob_pid ob) = original ! i" using found(4) by (simp add: previous_sample_def)
    show ?thesis
      unfolding scanned_def
      using found(1,2) before change app rows muts
      by (auto simp: scan_entry_def Let_def case_prod_unfold ss row list_update_append1 nth_list_update nth_append)
  next
    case created
    have same: "map (updated c ops rq (obs @ [ob])) original = map (updated c ops rq obs) original"
    proof (rule map_cong [OF refl])
      fix sample
      assume "sample \<in> set original"
      then have "sa_pid sample \<noteq> ob_pid ob" using created(2) by (auto simp: sample_of_None image_iff)
      then show "updated c ops rq (obs @ [ob]) sample = updated c ops rq obs sample" by (rule others)
    qed
    have app: "appended c ops rq original (obs @ [ob]) = appended c ops rq original obs @ [?upd (new_sample (ob_pid ob))]"
      using created(2) by (simp add: appended_def)
    have row: "previous_sample original (ob_pid ob) = new_sample (ob_pid ob)" using created(2) by (simp add: previous_sample_def)
    have entry: "scan_entry c ops rq (length original) s ob =
        \<lparr>ss_samples = ss_samples s @ [?upd (new_sample (ob_pid ob))], ss_mutations = ss_mutations s,
         ss_rows = ss_rows s @ [fst (scan_process c ops rq ob (new_sample (ob_pid ob)))]\<rparr>"
      using created(1) prefix(2) by (simp add: scan_entry_def Let_def case_prod_unfold)
    have "(ss_samples s @ [x]) ! i = ss_samples s ! i" if "i < length original" for x i
      using that prefix(2) by (simp add: nth_append)
    then show ?thesis
      unfolding scanned_def entry using same app rows muts row ss by simp
  qed
qed

lemma scanned_all:
  assumes "sorted_wrt (<) (map sa_pid original)" "distinct (map ob_pid obs)"
  shows "scanned c ops rq original obs (foldl (scan_entry c ops rq (length original))
    \<lparr>ss_samples = original, ss_mutations = [], ss_rows = []\<rparr> obs)"
  using assms(2)
proof (induction obs rule: rev_induct)
  case Nil
  have "updated c ops rq [] = (\<lambda>sample. sample)" by (simp add: updated_def observed_def fun_eq_iff)
  then show ?case by (simp add: scanned_def appended_def)
next
  case (snoc ob obs)
  then show ?case using scanned_entry [OF assms(1)] by simp
qed

lemma rollback_restores:
  assumes "\<forall>(i, before)\<in>set mutations. i < length original \<and> before = original ! i"
    and "\<forall>i<length original. i \<notin> fst ` set mutations \<longrightarrow> samples ! i = original ! i"
    and "length original \<le> length samples"
  shows "take (length original) (foldl (\<lambda>samples (index, before).
    if index < length samples then samples[index := before] else samples) samples mutations) = original"
  using assms
proof (induction mutations arbitrary: samples)
  case Nil
  then show ?case by (intro nth_equalityI) simp_all
next
  case (Cons m mutations)
  obtain i before where m: "m = (i, before)" by (cases m)
  then have i: "i < length original" "before = original ! i" using Cons.prems(1) by simp_all
  have "samples[i := before] ! j = original ! j" if "j < length original" "j \<notin> fst ` set mutations" for j
    using Cons.prems(2,3) that i m by (cases "j = i") simp_all
  then show ?case
    using Cons.IH [of "samples[i := before]"] Cons.prems(1,3) i m by simp
qed

lemma compact_sorted:
  assumes dist: "distinct (map sa_pid samples)"
    and sorted: "\<not> searchable < length samples \<Longrightarrow> sorted_wrt (<) (map sa_pid samples)"
  shows "sorted_wrt (<) (map sa_pid (compact_samples searchable generation samples)) \<and>
    set (compact_samples searchable generation samples) = {sample \<in> set samples. sa_generation sample = generation}"
proof -
  let ?kept = "filter (\<lambda>sample. sa_generation sample = generation) samples"
  have dk: "distinct (map sa_pid ?kept)" using dist by (rule distinct_map_filter)
  show ?thesis
  proof (cases "searchable < length samples \<and> 1 < length ?kept")
    case True
    have "qsort compare_sample_pid ?kept = sort_key sa_pid ?kept"
      by (rule qsort_sort_key) (auto simp: compare_sample_pid_def)
    then have k: "compact_samples searchable generation samples = sort_key sa_pid ?kept"
      using True by (simp add: compact_samples_def Let_def)
    have "mset (map sa_pid (sort_key sa_pid ?kept)) = mset (map sa_pid ?kept)" by (simp only: mset_map mset_sort)
    then have "distinct (map sa_pid (sort_key sa_pid ?kept))" using dk mset_eq_imp_distinct_iff by blast
    then show ?thesis unfolding k by (auto simp: strict_sorted_iff)
  next
    case False
    then have k: "compact_samples searchable generation samples = ?kept" by (simp only: compact_samples_def Let_def if_False)
    show ?thesis
    proof (cases "searchable < length samples")
      case True
      then have "length ?kept = 0 \<or> length ?kept = 1" using False by arith
      then have "sorted_wrt (<) (map sa_pid ?kept)" by (auto simp: length_Suc_conv)
      then show ?thesis unfolding k by auto
    next
      case whole: False
      then show ?thesis using sorted unfolding k by (auto simp: sorted_wrt_map intro: sorted_wrt_filter)
    qed
  qed
qed

lemma scanned_samples:
  assumes sorted: "sorted_wrt (<) (map sa_pid original)" and dist: "distinct (map ob_pid obs)"
    and old: "\<forall>sample\<in>set original. sa_generation sample \<noteq> rq_generation rq"
  shows "distinct (map sa_pid (map (updated c ops rq obs) original @ appended c ops rq original obs))"
    and "appended c ops rq original obs = [] \<Longrightarrow>
      sorted_wrt (<) (map sa_pid (map (updated c ops rq obs) original @ appended c ops rq original obs))"
    and "{sample \<in> set (map (updated c ops rq obs) original @ appended c ops rq original obs). sa_generation sample = rq_generation rq} =
      {snd (scan_process c ops rq ob (previous_sample original (ob_pid ob))) | ob. ob \<in> set obs}" (is "?kept = ?new")
proof -
  have d: "distinct (map sa_pid original)" using sorted by (simp add: strict_sorted_iff)
  have pids: "map sa_pid (map (updated c ops rq obs) original) = map sa_pid original" by simp
  have app: "map sa_pid (appended c ops rq original obs) = map ob_pid (filter (\<lambda>ob. sample_of original (ob_pid ob) = None) obs)"
    by (simp add: appended_def comp_def)
  have "set (map sa_pid original) \<inter> set (map ob_pid (filter (\<lambda>ob. sample_of original (ob_pid ob) = None) obs)) = {}"
    by (auto simp: sample_of_None) (metis imageI)
  then show "distinct (map sa_pid (map (updated c ops rq obs) original @ appended c ops rq original obs))"
    unfolding map_append pids app using d distinct_map_filter [OF dist] by (simp only: distinct_append simp_thms)
  show "appended c ops rq original obs = [] \<Longrightarrow>
      sorted_wrt (<) (map sa_pid (map (updated c ops rq obs) original @ appended c ops rq original obs))"
    unfolding map_append pids using sorted by simp
  have ob: "observed obs (ob_pid ob) = Some ob" if "ob \<in> set obs" for ob
    using that dist unfolding observed_def by (intro map_of_is_SomeI) (auto simp: comp_def)
  show "?kept = ?new"
  proof (intro set_eqI iffI)
    fix x
    assume "x \<in> ?kept"
    then consider (old) sample where "sample \<in> set original" "x = updated c ops rq obs sample"
        "sa_generation x = rq_generation rq" | (fresh) "x \<in> set (appended c ops rq original obs)" by auto
    then show "x \<in> ?new"
    proof cases
      case (old sample)
      then obtain ob where o: "observed obs (sa_pid sample) = Some ob"
        using assms(3) by (auto simp: updated_def split: option.split_asm)
      then have "ob \<in> set obs" "ob_pid ob = sa_pid sample" unfolding observed_def by (auto dest!: map_of_SomeD)
      then show ?thesis
        using old o sample_of_set [OF d old(1)] by (auto simp: updated_def previous_sample_def intro!: exI [of _ ob])
    next
      case fresh
      then obtain ob where "x = snd (scan_process c ops rq ob (new_sample (ob_pid ob)))" "ob \<in> set obs"
        "sample_of original (ob_pid ob) = None" by (auto simp: appended_def)
      then show ?thesis by (auto simp: previous_sample_def intro!: exI [of _ ob])
    qed
  next
    fix x
    assume "x \<in> ?new"
    then obtain ob where x: "ob \<in> set obs" "x = snd (scan_process c ops rq ob (previous_sample original (ob_pid ob)))" by blast
    show "x \<in> ?kept"
    proof (cases "sample_of original (ob_pid ob)")
      case None
      then show ?thesis using x by (auto simp: appended_def previous_sample_def)
    next
      case (Some sample)
      then have "sample \<in> set original" "sa_pid sample = ob_pid ob" by (auto dest: sample_of_Some)
      then have "x = updated c ops rq obs sample" using Some x ob by (simp add: updated_def previous_sample_def)
      moreover have "sa_generation x = rq_generation rq" using x(2) by simp
      ultimately show ?thesis using \<open>sample \<in> set original\<close> by simp
    qed
  qed
qed

text \<open>
  A consequence of keeping the sample of a number that is reused: a path retained for the previous
  owner is shown for the new one, when a scan without paths came between.
\<close>

lemma reused_number_shows_old_executable:
  assumes "\<not> rq_executable rq" "rq_executable rq'" "ps_start_ticks (ob_stat ob) \<noteq> 0" "sa_executable sample = Some path"
    and "metadata_fresh (rq_sampled_at rq') (sa_executable_sampled_at sample)"
  shows "rw_executable (fst (scan_process c ops rq' ob (snd (scan_process c ops rq ob sample)))) = path"
proof -
  have exe: "sa_executable (snd (f x)) = sa_executable (snd x) \<and>
      sa_executable_sampled_at (snd (f x)) = sa_executable_sampled_at (snd x)"
    if "f \<in> {scan_command r ob, scan_cgroup r ob, scan_times c r ob, scan_cpu c r ob, scan_io c r ob, scan_gpu ops r ob,
      retain_sample r ob}" for f r x
    using that by (auto simp: scan_stages retain_sample_def Let_def case_prod_unfold split: option.split)
  let ?first = "snd (scan_process c ops rq ob sample)"
  have skip: "scan_executable rq ob x = x" for x using assms(1) by (simp add: scan_executable_def case_prod_unfold)
  have first: "sa_executable ?first = Some path" "sa_executable_sampled_at ?first = sa_executable_sampled_at sample"
    using assms(4) by (simp_all add: scan_process_def skip exe [of "scan_command rq ob" rq] exe [of "scan_cgroup rq ob" rq]
        exe [of "scan_times c rq ob" rq] exe [of "scan_cpu c rq ob" rq] exe [of "scan_io c rq ob" rq]
        exe [of "scan_gpu ops rq ob" rq] exe [of "retain_sample rq ob" rq])
  have start: "sa_start_ticks ?first = ps_start_ticks (ob_stat ob)"
    by (simp add: scan_process_def retain_sample_def case_prod_unfold)
  let ?x = "scan_command rq' ob (new_row ob, ?first)"
  have "sa_executable (snd ?x) = Some path" "sa_executable_sampled_at (snd ?x) = sa_executable_sampled_at sample"
    using exe [of "scan_command rq' ob" rq'] first by simp_all
  moreover have "sa_start_ticks (snd ?x) = ps_start_ticks (ob_stat ob)"
    using start by (simp add: scan_command_def split: option.split)
  ultimately have "rw_executable (fst (scan_executable rq' ob ?x)) = path"
    using assms(2,3,5) by (simp add: scan_executable_def same_process_def case_prod_unfold)
  moreover have "rw_executable (fst (scan_cgroup rq' ob y)) = rw_executable (fst y)"
    "rw_executable (fst (scan_times c rq' ob y)) = rw_executable (fst y)" "rw_executable (fst (scan_cpu c rq' ob y)) = rw_executable (fst y)"
    "rw_executable (fst (scan_io c rq' ob y)) = rw_executable (fst y)" "rw_executable (fst (retain_sample rq' ob y)) = rw_executable (fst y)" for y
    by (auto simp: scan_stages retain_sample_def Let_def case_prod_unfold split: option.split)
  moreover have "rw_executable (fst (scan_gpu ops rq' ob y)) = rw_executable (fst y)" for y
    by (auto simp: scan_gpu_def gpu_row_def Let_def case_prod_unfold split: option.split)
  ultimately show ?thesis by (simp add: scan_process_def [of c ops rq'])
qed

subsection \<open>Property\<close>

lemma scan_cpu_share:
  "rw_cpu_percent (fst (scan_process c ops rq ob sample)) =
     (if same_process ob sample \<and> 0 < rq_total_delta rq
      then case infiltratr_u64_counter_delta c (ps_cpu_ticks (ob_stat ob)) (sa_cpu_ticks sample) of
          None \<Rightarrow> Fin 0 | Some delta \<Rightarrow> infiltratr_percent_u64 c delta (rq_total_delta rq)
      else Fin 0)"
proof -
  have before: "rw_cpu_percent (fst (scan_command rq ob x)) = rw_cpu_percent (fst x)"
    "rw_cpu_percent (fst (scan_executable rq ob x)) = rw_cpu_percent (fst x)"
    "rw_cpu_percent (fst (scan_cgroup rq ob x)) = rw_cpu_percent (fst x)"
    "rw_cpu_percent (fst (scan_times c rq ob x)) = rw_cpu_percent (fst x)"
    "rw_cpu_percent (fst (scan_io c rq ob x)) = rw_cpu_percent (fst x)"
    "rw_cpu_percent (fst (retain_sample rq ob x)) = rw_cpu_percent (fst x)" for x
    by (auto simp: scan_stages retain_sample_def Let_def case_prod_unfold split: option.split)
  have gpu: "rw_cpu_percent (fst (scan_gpu ops rq ob x)) = rw_cpu_percent (fst x)" for x
    by (auto simp: scan_gpu_def gpu_row_def Let_def case_prod_unfold split: option.split)
  have kept: "sa_start_ticks (snd (f x)) = sa_start_ticks (snd x) \<and> sa_cpu_ticks (snd (f x)) = sa_cpu_ticks (snd x)"
    if "f \<in> {scan_command rq ob, scan_executable rq ob, scan_cgroup rq ob, scan_times c rq ob}" for f x
    using that by (auto simp: scan_stages Let_def case_prod_unfold split: option.split)
  let ?x = "scan_times c rq ob (scan_cgroup rq ob (scan_executable rq ob (scan_command rq ob (new_row ob, sample))))"
  have "sa_start_ticks (snd ?x) = sa_start_ticks sample" "sa_cpu_ticks (snd ?x) = sa_cpu_ticks sample"
    using kept by simp_all
  moreover have "rw_cpu_percent (fst ?x) = Fin 0" by (simp add: before new_row_def)
  ultimately have "rw_cpu_percent (fst (scan_cpu c rq ob ?x)) =
      (if same_process ob sample \<and> 0 < rq_total_delta rq
       then case infiltratr_u64_counter_delta c (ps_cpu_ticks (ob_stat ob)) (sa_cpu_ticks sample) of
          None \<Rightarrow> Fin 0 | Some delta \<Rightarrow> infiltratr_percent_u64 c delta (rq_total_delta rq)
       else Fin 0)"
    by (auto simp: scan_cpu_def lsm_process_cpu_total_percent_def same_process_def case_prod_unfold split: option.split)
  then show ?thesis by (simp add: scan_process_def before gpu)
qed

text \<open>
  C19. A scan of the processes is a transaction. When it fails, at whatever process, the retained
  state is exactly what it was. When it succeeds it yields one row per observed process, in order; the
  retained samples are then those of the observed processes and no other, strictly ordered by
  number, each taken from the observation; and a row's CPU share is that of the ticks the same
  process instance used since the last complete scan, and zero for a new or reused number, after a
  counter went back, or when no system time passed.
\<close>

theorem process_scan_transactional:
  assumes "backend_ok b" "distinct (map ob_pid obs)"
  shows "lsm_process_scan c ops rq (Some ticks) (Some obs) True b = (None, b) \<and>
    (case lsm_process_scan c ops rq (Some ticks) (Some obs) False b of
       (result, b') \<Rightarrow> backend_ok b' \<and> be_previous_total_cpu_ticks b' = ticks \<and>
         sa_pid ` set (be_samples b') = ob_pid ` set obs \<and>
         (\<exists>rows. result = Some rows \<and> list_all2 (\<lambda>ob row.
            (\<exists>sample. sample_of (be_samples b') (ob_pid ob) = Some sample \<and>
               sa_start_ticks sample = ps_start_ticks (ob_stat ob) \<and> sa_cpu_ticks sample = ps_cpu_ticks (ob_stat ob)) \<and>
            rw_cpu_percent row =
              (case (sample_of (be_samples b) (ob_pid ob), infiltratr_u64_counter_delta c ticks (be_previous_total_cpu_ticks b)) of
                 (Some before, Some system) \<Rightarrow>
                   (if sa_start_ticks before = ps_start_ticks (ob_stat ob) \<and> sa_start_ticks before \<noteq> 0 \<and> 0 < system
                    then case infiltratr_u64_counter_delta c (ps_cpu_ticks (ob_stat ob)) (sa_cpu_ticks before) of
                        None \<Rightarrow> Fin 0 | Some delta \<Rightarrow> infiltratr_percent_u64 c delta system
                    else Fin 0)
               | _ \<Rightarrow> Fin 0)) obs rows))"
proof -
  let ?rq = "scan_request_of c rq ticks b" and ?old = "be_samples b"
  let ?s = "foldl (scan_entry c ops ?rq (length ?old)) \<lparr>ss_samples = ?old, ss_mutations = [], ss_rows = []\<rparr> obs"
  let ?all = "map (updated c ops ?rq obs) ?old @ appended c ops ?rq ?old obs"
  let ?kept = "compact_samples (length ?old) (rq_generation ?rq) ?all"
  have sorted: "sorted_wrt (<) (map sa_pid ?old)" using assms(1) by (simp add: backend_ok_def)
  have gen: "rq_generation ?rq = next_generation (be_generation b)" by (simp add: scan_request_of_def)
  have old: "\<forall>sample\<in>set ?old. sa_generation sample \<noteq> rq_generation ?rq"
    using assms(1) next_generation_differs [of "be_generation b"] by (auto simp: backend_ok_def list_all_iff gen)
  have s: "scanned c ops ?rq ?old obs ?s" by (rule scanned_all [OF sorted assms(2)])
  have m: "ss_samples ?s = ?all" "\<forall>(i, before)\<in>set (ss_mutations ?s). i < length ?old \<and> before = ?old ! i"
    "\<forall>i<length ?old. i \<notin> fst ` set (ss_mutations ?s) \<longrightarrow> ss_samples ?s ! i = ?old ! i"
    using s unfolding scanned_def by blast+
  have "take (length ?old) (foldl (\<lambda>samples (index, before).
      if index < length samples then samples[index := before] else samples) (ss_samples ?s) (ss_mutations ?s)) = ?old"
    by (rule rollback_restores [OF m(2,3)]) (simp add: m(1))
  then have fail: "lsm_process_scan c ops rq (Some ticks) (Some obs) True b = (None, b)"
    by (simp add: lsm_process_scan_def rollback_sample_mutations_def Let_def)
  let ?b' = "b\<lparr>be_samples := ?kept, be_generation := rq_generation ?rq, be_previous_total_cpu_ticks := ticks\<rparr>"
  have success: "lsm_process_scan c ops rq (Some ticks) (Some obs) False b =
      (Some (map (\<lambda>ob. fst (scan_process c ops ?rq ob (previous_sample ?old (ob_pid ob)))) obs), ?b')"
    using s by (simp add: lsm_process_scan_def scanned_def Let_def)
  have kept: "sorted_wrt (<) (map sa_pid ?kept)"
    "set ?kept = {snd (scan_process c ops ?rq ob (previous_sample ?old (ob_pid ob))) | ob. ob \<in> set obs}"
  proof -
    have compact: "sorted_wrt (<) (map sa_pid ?kept) \<and>
        set ?kept = {sample \<in> set ?all. sa_generation sample = rq_generation ?rq}"
      by (rule compact_sorted [OF scanned_samples(1) [OF sorted assms(2) old]],
          rule scanned_samples(2) [OF sorted assms(2) old]) simp
    show "sorted_wrt (<) (map sa_pid ?kept)" using compact by blast
    show "set ?kept = {snd (scan_process c ops ?rq ob (previous_sample ?old (ob_pid ob))) | ob. ob \<in> set obs}"
      using conjunct2 [OF compact] scanned_samples(3) [OF sorted assms(2) old] by (rule trans)
  qed
  have pid: "sa_pid (previous_sample ?old pid) = pid" for pid
    by (auto simp: previous_sample_def dest: sample_of_Some split: option.split)
  have ok: "backend_ok ?b'" using kept by (auto simp: backend_ok_def list_all_iff)
  have pids: "sa_pid ` set ?kept = ob_pid ` set obs" unfolding kept(2) by (auto simp: pid image_iff) (metis pid scan_process_pid)
  have dist: "distinct (map sa_pid ?kept)" using kept(1) by (simp add: strict_sorted_iff)
  have retained: "\<exists>sample. sample_of ?kept (ob_pid ob) = Some sample \<and>
      sa_start_ticks sample = ps_start_ticks (ob_stat ob) \<and> sa_cpu_ticks sample = ps_cpu_ticks (ob_stat ob)"
    if "ob \<in> set obs" for ob
  proof -
    let ?new = "snd (scan_process c ops ?rq ob (previous_sample ?old (ob_pid ob)))"
    have "?new \<in> set ?kept" unfolding kept(2) using that by blast
    from sample_of_set [OF dist this] show ?thesis
      by (simp add: pid) (simp add: scan_process_def retain_sample_def case_prod_unfold)
  qed
  have share: "rw_cpu_percent (fst (scan_process c ops ?rq ob (previous_sample ?old (ob_pid ob)))) =
      (case (sample_of ?old (ob_pid ob), infiltratr_u64_counter_delta c ticks (be_previous_total_cpu_ticks b)) of
         (Some before, Some system) \<Rightarrow>
           (if sa_start_ticks before = ps_start_ticks (ob_stat ob) \<and> sa_start_ticks before \<noteq> 0 \<and> 0 < system
            then case infiltratr_u64_counter_delta c (ps_cpu_ticks (ob_stat ob)) (sa_cpu_ticks before) of
                None \<Rightarrow> Fin 0 | Some delta \<Rightarrow> infiltratr_percent_u64 c delta system
            else Fin 0)
       | _ \<Rightarrow> Fin 0)" for ob
    by (auto simp: scan_cpu_share previous_sample_def same_process_def scan_request_of_def new_sample_def split: option.split)
  show ?thesis
    unfolding fail success using ok pids retained share
    by (auto simp: list_all2_map2 list_all2_same intro!: list.rel_refl_strong)
qed

definition sample_observation :: "int \<Rightarrow> u64 \<Rightarrow> u64 \<Rightarrow> unit observation" where
  "sample_observation pid start ticks =
     \<lparr>ob_pid = pid, ob_stat = (stat_of ''init'' sample_stat)\<lparr>ps_start_ticks := start, ps_cpu_ticks := ticks\<rparr>, ob_rss_bytes = 0,
      ob_command = ''init'', ob_executable = [], ob_io_available = False, ob_read_bytes = 0, ob_write_bytes = 0,
      ob_enrich = (\<lambda>_ x. x), ob_gpu = None\<rparr>"

definition sample_backend :: "unit process_backend" where
  "sample_backend = \<lparr>be_samples = [(new_sample 7)\<lparr>sa_start_ticks := 5, sa_cpu_ticks := 10, sa_generation := 3\<rparr>],
     be_generation = 3, be_previous_total_cpu_ticks = 100, be_total_memory_bytes = 1, be_ticks_per_second = 100\<rparr>"

theorem process_scan_transactional_witness:
  "lsm_process_scan ref_common \<lparr>gpu_normalise = (\<lambda>x _. x), gpu_calculate_engine = (\<lambda>_ _ _. None)\<rparr>
     \<lparr>rq_executable = False, rq_gpu = False, rq_cgroup = False, rq_sampled_at = Fin 1, rq_total_delta = 0,
      rq_total_memory = 0, rq_ticks_per_second = 0, rq_generation = 0\<rparr>
     (Some 200) (Some [sample_observation 9 6 1, sample_observation 7 5 20]) True sample_backend = (None, sample_backend)"
proof -
  have "backend_ok sample_backend" by (simp add: backend_ok_def sample_backend_def)
  moreover have "distinct (map ob_pid [sample_observation 9 6 1, sample_observation 7 5 20])"
    by (simp add: sample_observation_def)
  ultimately show ?thesis using process_scan_transactional by blast
qed

end
