(* ===== verification/Process_Gpu.thy ===== *)
theory Process_Gpu
  imports Process_Scan
begin

text \<open>
  Graphics accounting of one process (\<^verbatim>\<open>src/process_gpu.c\<close>): the reader of the DRM client records
  under \<^verbatim>\<open>/proc/PID/fdinfo\<close>, which counts a client once however many descriptors share it, and the
  utilisation of the busiest engine between two snapshots. Opening the directory and its files are
  parameters; a directory is the list of its entries with what each file holds, and whether its
  enumeration or closing failed. \<^verbatim>\<open>long double\<close> arithmetic rounds with the parameter \<open>ld\<close>, whose range
  covers every value met here.
\<close>

definition LSM_PROCESS_GPU_MAX_ENGINES :: nat where
  "LSM_PROCESS_GPU_MAX_ENGINES = 32"

definition LSM_PROCESS_GPU_MAX_CLIENTS :: nat where
  "LSM_PROCESS_GPU_MAX_CLIENTS = 128"

definition LSM_PROCESS_GPU_MAX_REGIONS :: nat where
  "LSM_PROCESS_GPU_MAX_REGIONS = 32"

record gpu_engine =
  ge_name :: string
  ge_time_ns :: u64
  ge_capacity :: u32
  ge_time_available :: bool

record gpu_snapshot =
  gs_engines :: "gpu_engine list"
  gs_memory_bytes :: u64
  gs_engine_counters_available :: bool
  gs_memory_available :: bool

record memory_region =
  mr_name :: string
  mr_bytes :: u64
  mr_resident_preferred :: bool

record drm_client =
  dc_key :: string
  dc_device_key :: string
  dc_engines :: "gpu_engine list"
  dc_regions :: "memory_region list"
  dc_memory_available :: bool

subsection \<open>One client\<close>

text \<open>The first entry that satisfies \<open>P\<close>, rewritten.\<close>

fun update_first :: "('a \<Rightarrow> bool) \<Rightarrow> ('a \<Rightarrow> 'a) \<Rightarrow> 'a list \<Rightarrow> 'a list option" where
  "update_first P f [] = None"
| "update_first P f (x # xs) = (if P x then Some (f x # xs) else map_option ((#) x) (update_first P f xs))"

definition add_engine :: "common \<Rightarrow> gpu_engine list \<Rightarrow> string \<Rightarrow> u64 \<Rightarrow> u32 \<Rightarrow> bool \<Rightarrow> gpu_engine list option" where
  "add_engine c engines name time_ns capacity have_time =
     (if name = [] then None
      else case update_first (\<lambda>e. ge_name e = name)
          (\<lambda>e. let e = (if have_time
                  then e\<lparr>ge_time_ns := infiltratr_u64_add_saturating c (ge_time_ns e) time_ns, ge_time_available := True\<rparr>
                  else e)
               in if ge_capacity e < capacity then e\<lparr>ge_capacity := capacity\<rparr> else e) engines of
        Some engines \<Rightarrow> Some engines
      | None \<Rightarrow>
          if LSM_PROCESS_GPU_MAX_ENGINES \<le> length engines then None
          else Some (engines @ [\<lparr>ge_name = infiltratr_copy_string c 256 name, ge_time_ns = time_ns,
            ge_capacity = (if 0 < capacity then capacity else 1), ge_time_available = have_time\<rparr>]))"

definition set_memory_region :: "common \<Rightarrow> memory_region list \<Rightarrow> string \<Rightarrow> u64 \<Rightarrow> bool \<Rightarrow> memory_region list option" where
  "set_memory_region c regions name bytes resident =
     (if name = [] then None
      else case update_first (\<lambda>r. mr_name r = name)
          (\<lambda>r. let r = (if resident \<or> \<not> mr_resident_preferred r then r\<lparr>mr_bytes := bytes\<rparr> else r)
               in r\<lparr>mr_resident_preferred := mr_resident_preferred r \<or> resident\<rparr>) regions of
        Some regions \<Rightarrow> Some regions
      | None \<Rightarrow>
          if LSM_PROCESS_GPU_MAX_REGIONS \<le> length regions then None
          else Some (regions @ [\<lparr>mr_name = infiltratr_copy_string c 96 name, mr_bytes = bytes,
            mr_resident_preferred = resident\<rparr>]))"

definition field_value :: "common \<Rightarrow> string \<Rightarrow> string option" where
  "field_value c line = map_option (\<lambda>(_, value). infiltratr_trim c value) (strchr_split CHR '':'' line)"

record client_file =
  cf_driver :: string
  cf_device :: string
  cf_client_id :: "u64 option" \<comment> \<open>\<open>Some\<close> when \<^verbatim>\<open>have_client_id\<close>\<close>
  cf_recognised :: bool
  cf_complete :: bool
  cf_engines :: "gpu_engine list"
  cf_regions :: "memory_region list"
  cf_memory_available :: bool

definition empty_client_file :: client_file where
  "empty_client_file = \<lparr>cf_driver = [], cf_device = [], cf_client_id = None, cf_recognised = False, cf_complete = True,
     cf_engines = [], cf_regions = [], cf_memory_available = False\<rparr>"

text \<open>The number after the colon, and the name before it without its prefix.\<close>

definition number_field :: "common \<Rightarrow> nat \<Rightarrow> string \<Rightarrow> (string \<times> u64) option" where
  "number_field c prefix line =
     (case strchr_split CHR '':'' line of
        None \<Rightarrow> None
      | Some (before, after) \<Rightarrow>
          map_option (\<lambda>(v, _). (drop prefix before, v)) (infiltratr_parse_u64_token c after 10))"

definition client_line :: "common \<Rightarrow> string \<Rightarrow> client_file \<Rightarrow> client_file" where
  "client_line c line f =
     (let starts = infiltratr_string_starts_with c line
      in if starts ''drm-driver:'' then
           (case field_value c line of None \<Rightarrow> f | Some v \<Rightarrow> f\<lparr>cf_driver := infiltratr_copy_string c 64 v\<rparr>)
         else if starts ''drm-pdev:'' then
           (case field_value c line of None \<Rightarrow> f | Some v \<Rightarrow> f\<lparr>cf_device := infiltratr_copy_string c 96 v\<rparr>)
         else if starts ''drm-minor:'' \<and> cf_device f = [] then
           (case field_value c line of None \<Rightarrow> f | Some v \<Rightarrow> f\<lparr>cf_device := take 95 (''minor-'' @ v)\<rparr>)
         else if starts ''drm-client-id:'' then
           f\<lparr>cf_client_id := Option.bind (field_value c line) (\<lambda>v. map_option fst (infiltratr_parse_u64_token c v 10))\<rparr>
         else if starts ''drm-engine-capacity-'' then
           (case number_field c 20 line of
              None \<Rightarrow> f
            | Some (name, capacity) \<Rightarrow>
                if capacity = 0 then f
                else case add_engine c (cf_engines f) name 0
                    (if 2 ^ 32 - 1 < capacity then 2 ^ 32 - 1 else ucast capacity) False of
                    None \<Rightarrow> f\<lparr>cf_complete := False\<rparr>
                  | Some engines \<Rightarrow> f\<lparr>cf_engines := engines\<rparr>)
         else if starts ''drm-engine-'' then
           (case number_field c 11 line of
              None \<Rightarrow> f
            | Some (name, time_ns) \<Rightarrow>
                (case add_engine c (cf_engines f) name time_ns 1 True of
                    None \<Rightarrow> f\<lparr>cf_complete := False, cf_recognised := True\<rparr>
                  | Some engines \<Rightarrow> f\<lparr>cf_engines := engines, cf_recognised := True\<rparr>))
         else if starts ''drm-resident-'' \<or> starts ''drm-memory-'' then
           (let resident = starts ''drm-resident-'';
                prefix = (if resident then 13 else 11)
            in case (strchr_split CHR '':'' line, Option.bind (field_value c line) (infiltratr_parse_binary_quantity_u64 c)) of
                 (Some (before, _), Some bytes) \<Rightarrow>
                   (case set_memory_region c (cf_regions f) (drop prefix before) bytes resident of
                       None \<Rightarrow> f\<lparr>cf_complete := False, cf_memory_available := True, cf_recognised := True\<rparr>
                     | Some regions \<Rightarrow> f\<lparr>cf_regions := regions, cf_memory_available := True, cf_recognised := True\<rparr>)
               | _ \<Rightarrow> f)
         else f)"

definition without_newline :: "string \<Rightarrow> string" where
  "without_newline line = (case strchr_split LF line of None \<Rightarrow> line | Some (before, _) \<Rightarrow> before)"

text \<open>
  A file is its text and whether reading or closing it failed; \<open>None\<close> when it cannot be opened. The
  result is whether the record was read completely, and the client when it is one.
\<close>

type_synonym fdinfo = "(string \<times> bool) option"

definition read_client_file :: "common \<Rightarrow> string \<Rightarrow> fdinfo \<Rightarrow> bool \<times> drm_client option" where
  "read_client_file c basename content =
     (case content of
        None \<Rightarrow> (True, None)
      | Some (text, failed) \<Rightarrow>
          let f = fold (client_line c) (map (without_newline \<circ> c_str) (fgets_chunks 512 text)) empty_client_file;
              whole = (cf_complete f \<and> \<not> failed)
          in if \<not> cf_recognised f then (whole, None)
             else (whole, Some \<lparr>dc_key = take 191 (case cf_client_id f of
                     Some ident \<Rightarrow> cf_driver f @ '':'' @ cf_device f @ '':'' @ nat_text (unat ident)
                   | None \<Rightarrow> ''fd:'' @ take 180 basename),
                 dc_device_key = take 191 (cf_driver f @ '':'' @ cf_device f),
                 dc_engines = cf_engines f, dc_regions = cf_regions f, dc_memory_available = cf_memory_available f\<rparr>))"

subsection \<open>The snapshot of a process\<close>

definition engine_key :: "string \<Rightarrow> string \<Rightarrow> string" where
  "engine_key device_key name = take 255 (take 120 device_key @ '':'' @ take 120 name)"

definition add_client_engine :: "common \<Rightarrow> string \<Rightarrow> gpu_engine list \<Rightarrow> gpu_engine \<Rightarrow> gpu_engine list option" where
  "add_client_engine c device_key engines e =
     (if ge_time_available e then add_engine c engines (engine_key device_key (ge_name e)) (ge_time_ns e) (ge_capacity e) True
      else Some engines)"

definition empty_snapshot :: gpu_snapshot where
  "empty_snapshot = \<lparr>gs_engines = [], gs_memory_bytes = 0, gs_engine_counters_available = False,
     gs_memory_available = False\<rparr>"

text \<open>One directory entry; \<open>None\<close> breaks the enumeration off.\<close>

definition gpu_entry ::
    "common \<Rightarrow> string list \<times> gpu_snapshot \<Rightarrow> string \<times> fdinfo \<Rightarrow> (string list \<times> gpu_snapshot) option" where
  "gpu_entry c = (\<lambda>(seen, snapshot) (name, content).
     if infiltratr_parse_u64_range c name 10 0 (word_of_int INT_MAX) = None then Some (seen, snapshot)
     else case read_client_file c name content of
         (whole, found) \<Rightarrow>
           if \<not> whole then None
           else case found of
               None \<Rightarrow> Some (seen, snapshot)
             | Some client \<Rightarrow>
                 if dc_key client \<in> set seen then Some (seen, snapshot)
                 else if LSM_PROCESS_GPU_MAX_CLIENTS \<le> length seen then None
                 else map_option (\<lambda>engines. (seen @ [infiltratr_copy_string c 192 (dc_key client)],
                     snapshot\<lparr>gs_engines := engines,
                       gs_memory_bytes := foldl (\<lambda>n r. infiltratr_u64_add_saturating c n (mr_bytes r))
                         (gs_memory_bytes snapshot) (dc_regions client),
                       gs_memory_available := gs_memory_available snapshot \<or> dc_memory_available client\<rparr>))
                   (foldM (add_client_engine c (dc_device_key client)) (gs_engines snapshot) (dc_engines client)))"

record fd_directory =
  fd_entries :: "(string \<times> fdinfo) list"
  fd_failed :: bool

definition lsm_process_gpu_read :: "common \<Rightarrow> (string \<Rightarrow> fd_directory option) \<Rightarrow> string \<Rightarrow> u64 \<Rightarrow> bool \<times> gpu_snapshot" where
  "lsm_process_gpu_read c opendir proc_root pid =
     (let path = proc_root @ ''/'' @ nat_text (unat pid) @ ''/fdinfo''
      in if proc_root = [] \<or> pid = 0 \<or> 512 \<le> length path then (False, empty_snapshot)
         else case opendir path of
             None \<Rightarrow> (False, empty_snapshot)
           | Some directory \<Rightarrow>
               (case foldM (gpu_entry c) ([], empty_snapshot) (fd_entries directory) of
                  None \<Rightarrow> (False, empty_snapshot)
                | Some (_, snapshot) \<Rightarrow>
                    if fd_failed directory then (False, empty_snapshot)
                    else
                      let snapshot = snapshot\<lparr>gs_engine_counters_available := gs_engines snapshot \<noteq> []\<rparr>
                      in (gs_engine_counters_available snapshot \<or> gs_memory_available snapshot, snapshot)))"

subsection \<open>Utilisation between two snapshots\<close>

definition find_engine :: "gpu_snapshot \<Rightarrow> string \<Rightarrow> gpu_engine option" where
  "find_engine snapshot name = find (\<lambda>e. ge_name e = name) (gs_engines snapshot)"

definition lsm_process_gpu_normalise :: "gpu_snapshot \<Rightarrow> gpu_snapshot \<Rightarrow> gpu_snapshot" where
  "lsm_process_gpu_normalise current previous =
     current\<lparr>gs_engines := map (\<lambda>e. case find_engine previous (ge_name e) of
        None \<Rightarrow> e
      | Some old \<Rightarrow> if ge_time_ns e < ge_time_ns old then e\<lparr>ge_time_ns := ge_time_ns old\<rparr> else e) (gs_engines current)\<rparr>"

definition engine_percent :: "(rat \<Rightarrow> rat) \<Rightarrow> rat \<Rightarrow> gpu_engine \<Rightarrow> gpu_engine \<Rightarrow> rat" where
  "engine_percent ld interval_ns old e =
     (let delta = ge_time_ns e - ge_time_ns old;
          capacity = (if 0 < ge_capacity e then ge_capacity e else 1)
      in ld (ld (of_nat (unat delta) * 100) / ld (interval_ns * of_nat (unat capacity))))"

definition peak_step ::
    "(rat \<Rightarrow> rat) \<Rightarrow> rat \<Rightarrow> gpu_snapshot \<Rightarrow> (rat \<times> string) option \<Rightarrow> gpu_engine \<Rightarrow> (rat \<times> string) option" where
  "peak_step ld interval_ns previous peak e =
     (case find_engine previous (ge_name e) of
        None \<Rightarrow> peak
      | Some old \<Rightarrow>
          if ge_time_ns e < ge_time_ns old then peak
          else let v = engine_percent ld interval_ns old e
            in case peak of
                 None \<Rightarrow> Some (v, ge_name e)
               | Some (p, _) \<Rightarrow> if p < v then Some (v, ge_name e) else peak)"

definition display_name :: "string \<Rightarrow> string" where
  "display_name engine =
     (case strchr_split CHR '':'' (rev engine) of None \<Rightarrow> engine | Some (after, _) \<Rightarrow> rev after)"

definition clamp_percent :: "rat \<Rightarrow> rat" where
  "clamp_percent v = (let v = (if v < 0 then 0 else v) in if 100 < v then 100 else v)"

definition lsm_process_gpu_calculate_engine ::
    "common \<Rightarrow> (rat \<Rightarrow> rat) \<Rightarrow> nat \<Rightarrow> gpu_snapshot \<Rightarrow> gpu_snapshot \<Rightarrow> double \<Rightarrow> (double \<times> string) option" where
  "lsm_process_gpu_calculate_engine c ld engine_size current previous elapsed_seconds =
     (case elapsed_seconds of
        Fin elapsed \<Rightarrow>
          if elapsed \<le> 0 \<or> \<not> gs_engine_counters_available current \<or> \<not> gs_engine_counters_available previous then None
          else map_option (\<lambda>(v, engine).
              (fl (clamp_percent v), infiltratr_copy_string c engine_size (display_name engine)))
            (foldl (peak_step ld (ld (elapsed * 1000000000)) previous) None (gs_engines current))
      | _ \<Rightarrow> None)"

subsection \<open>Reference: every client once\<close>

text \<open>The first of the clients with each key, and what their engines amount to.\<close>

fun first_by :: "('a \<Rightarrow> 'k) \<Rightarrow> 'a list \<Rightarrow> 'a list" where
  "first_by key [] = []"
| "first_by key (x # xs) = x # filter (\<lambda>y. key y \<noteq> key x) (first_by key xs)"

definition recognised_clients :: "common \<Rightarrow> (string \<times> fdinfo) list \<Rightarrow> drm_client list" where
  "recognised_clients c entries =
     List.map_filter (\<lambda>(name, content). if infiltratr_parse_u64_range c name 10 0 (word_of_int INT_MAX) = None then None
       else snd (read_client_file c name content)) entries"

definition client_times :: "drm_client \<Rightarrow> (string \<times> u64) list" where
  "client_times client = map (\<lambda>e. (engine_key (dc_device_key client) (ge_name e), ge_time_ns e))
     (filter ge_time_available (dc_engines client))"

definition time_total :: "(string \<times> u64) list \<Rightarrow> string \<Rightarrow> nat" where
  "time_total ts name = (\<Sum>(n, t)\<leftarrow>ts. if n = name then unat t else 0)"

definition sums_engines :: "gpu_engine list \<Rightarrow> (string \<times> u64) list \<Rightarrow> bool" where
  "sums_engines engines ts \<longleftrightarrow>
     length engines \<le> LSM_PROCESS_GPU_MAX_ENGINES \<and> distinct (map ge_name engines) \<and>
     set (map ge_name engines) = fst ` set ts \<and>
     (\<forall>e\<in>set engines. unat (ge_time_ns e) = min (time_total ts (ge_name e)) (2 ^ 64 - 1))"

lemma first_by_snoc:
  "first_by key (xs @ [x]) = (if key x \<in> key ` set xs then first_by key xs else first_by key xs @ [x])"
  by (induction xs) auto

lemma first_by_keys: "key ` set (first_by key xs) = key ` set xs"
proof (induction xs)
  case (Cons x xs)
  have "key ` set (filter (\<lambda>y. key y \<noteq> key x) (first_by key xs)) = key ` set (first_by key xs) - {key x}" by auto
  then show ?case using Cons by auto
qed simp

lemma update_first_None: "update_first P f xs = None \<longleftrightarrow> (\<forall>x\<in>set xs. \<not> P x)"
  by (induction xs) auto

lemma update_first_Some:
  "update_first P f xs = Some ys \<longleftrightarrow> (\<exists>before x after. xs = before @ x # after \<and> P x \<and> (\<forall>y\<in>set before. \<not> P y) \<and>
     ys = before @ f x # after)"
proof (induction xs arbitrary: ys)
  case (Cons x xs)
  show ?case
  proof (cases "P x")
    case True
    show ?thesis
    proof
      assume "update_first P f (x # xs) = Some ys"
      then have "x # xs = [] @ x # xs \<and> P x \<and> (\<forall>y\<in>set []. \<not> P y) \<and> ys = [] @ f x # xs" using True by simp
      then show "\<exists>before z after. x # xs = before @ z # after \<and> P z \<and> (\<forall>y\<in>set before. \<not> P y) \<and> ys = before @ f z # after" by blast
    next
      assume "\<exists>before z after. x # xs = before @ z # after \<and> P z \<and> (\<forall>y\<in>set before. \<not> P y) \<and> ys = before @ f z # after"
      then show "update_first P f (x # xs) = Some ys" using True by (auto simp: Cons_eq_append_conv)
    qed
  next
    case False
    show ?thesis
    proof
      assume "update_first P f (x # xs) = Some ys"
      then obtain zs where zs: "update_first P f xs = Some zs" "ys = x # zs" using False by auto
      then obtain before z after where "xs = before @ z # after" "P z" "\<forall>y\<in>set before. \<not> P y" "zs = before @ f z # after"
        using Cons.IH by blast
      then have "x # xs = (x # before) @ z # after \<and> P z \<and> (\<forall>y\<in>set (x # before). \<not> P y) \<and> ys = (x # before) @ f z # after"
        using False zs by simp
      then show "\<exists>before z after. x # xs = before @ z # after \<and> P z \<and> (\<forall>y\<in>set before. \<not> P y) \<and> ys = before @ f z # after" by blast
    next
      assume "\<exists>before z after. x # xs = before @ z # after \<and> P z \<and> (\<forall>y\<in>set before. \<not> P y) \<and> ys = before @ f z # after"
      then obtain before z after where split: "x # xs = before @ z # after" "P z" "\<forall>y\<in>set before. \<not> P y" "ys = before @ f z # after" by blast
      then obtain rest where "before = x # rest" "xs = rest @ z # after" using False by (auto simp: Cons_eq_append_conv)
      then have "update_first P f xs = Some (rest @ f z # after)" using split Cons.IH by auto
      then show "update_first P f (x # xs) = Some ys" using False split \<open>before = x # rest\<close> by simp
    qed
  qed
qed simp

lemma time_total_snoc: "time_total (ts @ [(n, t)]) name = time_total ts name + (if n = name then unat t else 0)"
  by (simp add: time_total_def)

lemma time_total_absent: "name \<notin> fst ` set ts \<Longrightarrow> time_total ts name = 0"
  by (induction ts) (auto simp: time_total_def)

lemma sums_engines_step:
  assumes "common_text_ok c" "common_arith_ok c" "sums_engines engines ts" "length name < 256"
    and "add_engine c engines name t capacity True = Some engines'"
  shows "sums_engines engines' (ts @ [(name, t)])"
proof (cases "name \<in> set (map ge_name engines)")
  case True
  let ?f = "\<lambda>e. let e = e\<lparr>ge_time_ns := infiltratr_u64_add_saturating c (ge_time_ns e) t, ge_time_available := True\<rparr>
    in if ge_capacity e < capacity then e\<lparr>ge_capacity := capacity\<rparr> else e"
  have "update_first (\<lambda>e. ge_name e = name) ?f engines \<noteq> None" using True by (auto simp: update_first_None)
  then have "update_first (\<lambda>e. ge_name e = name) ?f engines = Some engines'"
    using assms(5) by (auto simp: add_engine_def split: if_splits)
  then obtain before e after where e: "engines = before @ e # after" "ge_name e = name" "\<forall>y\<in>set before. ge_name y \<noteq> name"
      "engines' = before @ ?f e # after"
    unfolding update_first_Some by blast
  have after: "\<forall>y\<in>set after. ge_name y \<noteq> name"
    using assms(3) e(1,2) by (auto simp: sums_engines_def) (metis imageI)
  have same: "map ge_name engines' = map ge_name engines" using e by (simp add: Let_def)
  have "unat (ge_time_ns (?f e)) = min (unat (ge_time_ns e) + unat t) (2 ^ 64 - 1)"
    using assms(2) by (simp add: Let_def common_arith_ok_def unat_saturating_add)
  moreover have "unat (ge_time_ns e) = min (time_total ts name) (2 ^ 64 - 1)"
    using assms(3) e(1,2) by (auto simp: sums_engines_def)
  ultimately have new: "unat (ge_time_ns (?f e)) = min (time_total ts name + unat t) (2 ^ 64 - 1)" by simp
  have "unat (ge_time_ns y) = min (time_total (ts @ [(name, t)]) (ge_name y)) (2 ^ 64 - 1)" if "y \<in> set engines'" for y
  proof (cases "y = ?f e")
    case True
    have "ge_name y = name" "ge_time_ns y = ge_time_ns (?f e)" using e(2) True by (simp_all add: Let_def)
    then show ?thesis using new by (simp only: time_total_snoc if_True refl)
  next
    case False
    then have "y \<in> set before \<union> set after" using that e(4) by auto
    then show ?thesis using e(1,3) after assms(3) by (auto simp: time_total_snoc sums_engines_def)
  qed
  moreover have "set (map ge_name engines') = fst ` set (ts @ [(name, t)])"
    using True assms(3) unfolding same sums_engines_def by auto
  moreover have "length engines' = length engines" using same map_eq_imp_length_eq by blast
  ultimately show ?thesis using assms(3) same unfolding sums_engines_def by simp
next
  case False
  then have "update_first (\<lambda>e. ge_name e = name) f engines = None" for f by (auto simp: update_first_None)
  then have new: "engines' = engines @ [\<lparr>ge_name = name, ge_time_ns = t, ge_capacity = (if 0 < capacity then capacity else 1),
      ge_time_available = True\<rparr>]" "length engines < LSM_PROCESS_GPU_MAX_ENGINES"
    using assms(1,4,5) by (auto simp: add_engine_def common_text_ok_def split: if_splits)
  have "time_total ts name = 0" using False assms(3) by (intro time_total_absent) (simp add: sums_engines_def)
  moreover have "unat t \<le> 2 ^ 64 - 1" using unsigned_less [of t, where ?'a = nat] by simp
  ultimately show ?thesis
    using new False assms(3) by (auto simp: sums_engines_def time_total_snoc)
qed

lemma sums_engines_client:
  assumes "common_text_ok c" "common_arith_ok c" "sums_engines engines ts"
    and "foldM (add_client_engine c device_key) engines xs = Some engines'"
  shows "sums_engines engines' (ts @ map (\<lambda>e. (engine_key device_key (ge_name e), ge_time_ns e)) (filter ge_time_available xs))"
  using assms(3,4)
proof (induction xs arbitrary: engines ts)
  case (Cons e xs)
  obtain next_engines where step: "add_client_engine c device_key engines e = Some next_engines"
    "foldM (add_client_engine c device_key) next_engines xs = Some engines'"
    using Cons.prems(2) by (auto split: option.splits)
  show ?case
  proof (cases "ge_time_available e")
    case True
    have "length (engine_key device_key (ge_name e)) < 256" by (simp add: engine_key_def)
    then have "sums_engines next_engines (ts @ [(engine_key device_key (ge_name e), ge_time_ns e)])"
      using sums_engines_step [OF assms(1,2) Cons.prems(1)] step(1) True by (simp add: add_client_engine_def)
    from Cons.IH [OF this step(2)] show ?thesis using True by simp
  next
    case False
    then have "next_engines = engines" using step(1) by (simp add: add_client_engine_def)
    then show ?thesis using False Cons.IH [OF Cons.prems(1)] step(2) by simp
  qed
qed simp

lemma regions_sum:
  assumes "common_arith_ok c"
  shows "unat (foldl (\<lambda>n r. infiltratr_u64_add_saturating c n (mr_bytes r)) n regions) =
     min (unat n + (\<Sum>r\<leftarrow>regions. unat (mr_bytes r))) (2 ^ 64 - 1)"
proof (induction regions arbitrary: n)
  case Nil
  then show ?case using unsigned_less [of n, where ?'a = nat] by simp
next
  case (Cons r regions)
  then show ?case using assms by (simp add: common_arith_ok_def unat_saturating_add)
qed

definition client_bytes :: "drm_client \<Rightarrow> nat" where
  "client_bytes client = (\<Sum>r\<leftarrow>dc_regions client. unat (mr_bytes r))"

definition descriptors_complete :: "common \<Rightarrow> (string \<times> fdinfo) list \<Rightarrow> bool" where
  "descriptors_complete c entries \<longleftrightarrow> list_all (\<lambda>(name, content).
     infiltratr_parse_u64_range c name 10 0 (word_of_int INT_MAX) \<noteq> None \<longrightarrow> fst (read_client_file c name content)) entries"

definition accounts_clients :: "common \<Rightarrow> (string \<times> fdinfo) list \<Rightarrow> string list \<times> gpu_snapshot \<Rightarrow> bool" where
  "accounts_clients c entries = (\<lambda>(seen, snapshot). let clients = first_by dc_key (recognised_clients c entries) in
     descriptors_complete c entries \<and> seen = map dc_key clients \<and> length clients \<le> LSM_PROCESS_GPU_MAX_CLIENTS \<and>
     sums_engines (gs_engines snapshot) (concat (map client_times clients)) \<and>
     unat (gs_memory_bytes snapshot) = min (\<Sum>client\<leftarrow>clients. client_bytes client) (2 ^ 64 - 1) \<and>
     gs_memory_available snapshot = list_ex dc_memory_available clients)"

lemma key_length: "snd (read_client_file c name content) = Some client \<Longrightarrow> length (dc_key client) \<le> 191"
  by (auto simp: read_client_file_def Let_def split: option.splits if_splits)

lemma recognised_snoc:
  "recognised_clients c (entries @ [(name, content)]) = recognised_clients c entries @
     (if infiltratr_parse_u64_range c name 10 0 (word_of_int INT_MAX) = None then []
      else case snd (read_client_file c name content) of None \<Rightarrow> [] | Some client \<Rightarrow> [client])"
  by (simp add: recognised_clients_def map_filter_def split: option.split)

lemma entry_accounts:
  assumes "common_text_ok c" "common_arith_ok c" "accounts_clients c entries s" "gpu_entry c s entry = Some s'"
  shows "accounts_clients c (entries @ [entry]) s'"
proof -
  obtain seen snapshot where s: "s = (seen, snapshot)" by (cases s)
  obtain name content where entry: "entry = (name, content)" by (cases entry)
  let ?clients = "first_by dc_key (recognised_clients c entries)"
  have before: "descriptors_complete c entries" "seen = map dc_key ?clients" "length ?clients \<le> LSM_PROCESS_GPU_MAX_CLIENTS"
    "sums_engines (gs_engines snapshot) (concat (map client_times ?clients))"
    "unat (gs_memory_bytes snapshot) = min (\<Sum>client\<leftarrow>?clients. client_bytes client) (2 ^ 64 - 1)"
    "gs_memory_available snapshot = list_ex dc_memory_available ?clients"
    using assms(3) unfolding accounts_clients_def s by (simp_all add: Let_def)
  have keys: "set seen = dc_key ` set (recognised_clients c entries)" using before(2) by (simp add: first_by_keys)
  show ?thesis
  proof (cases "infiltratr_parse_u64_range c name 10 0 (word_of_int INT_MAX) = None")
    case True
    then have "s' = s" using assms(4) by (simp add: entry s gpu_entry_def)
    moreover have "recognised_clients c (entries @ [entry]) = recognised_clients c entries" using True by (simp add: entry recognised_snoc)
    moreover have "descriptors_complete c (entries @ [entry])" using True before(1) by (simp add: entry descriptors_complete_def)
    ultimately show ?thesis using before by (simp add: s accounts_clients_def)
  next
    case parsed: False
    obtain whole found where client_file: "read_client_file c name content = (whole, found)" by (cases "read_client_file c name content")
    have whole: whole using assms(4) parsed client_file by (simp add: entry s gpu_entry_def split: if_splits)
    have complete: "descriptors_complete c (entries @ [entry])"
      using before(1) whole client_file by (simp add: descriptors_complete_def entry)
    show ?thesis
    proof (cases found)
      case None
      then have "s' = s" using assms(4) parsed client_file whole by (simp add: entry s gpu_entry_def)
      moreover have "recognised_clients c (entries @ [entry]) = recognised_clients c entries"
        using None client_file by (simp add: entry recognised_snoc)
      ultimately show ?thesis using before complete by (simp add: s accounts_clients_def)
    next
      case (Some client)
      have clients: "recognised_clients c (entries @ [entry]) = recognised_clients c entries @ [client]"
        using parsed client_file Some by (simp add: entry recognised_snoc)
      show ?thesis
      proof (cases "dc_key client \<in> set seen")
        case True
        then have "s' = s" using assms(4) parsed client_file whole Some by (simp add: entry s gpu_entry_def)
        then show ?thesis using before complete True keys clients by (simp add: s accounts_clients_def first_by_snoc)
      next
        case False
        have copied: "infiltratr_copy_string c 192 (dc_key client) = dc_key client"
          using assms(1) key_length [of c name content client] client_file Some by (simp add: common_text_ok_def)
        obtain engines where engines: "length seen < LSM_PROCESS_GPU_MAX_CLIENTS"
          "foldM (add_client_engine c (dc_device_key client)) (gs_engines snapshot) (dc_engines client) = Some engines"
          "s' = (seen @ [dc_key client], snapshot\<lparr>gs_engines := engines,
             gs_memory_bytes := foldl (\<lambda>n r. infiltratr_u64_add_saturating c n (mr_bytes r)) (gs_memory_bytes snapshot) (dc_regions client),
             gs_memory_available := gs_memory_available snapshot \<or> dc_memory_available client\<rparr>)"
          using assms(4) parsed client_file whole Some False copied by (auto simp: entry s gpu_entry_def split: if_splits)
        have new: "first_by dc_key (recognised_clients c (entries @ [entry])) = ?clients @ [client]"
          using False keys clients by (simp add: first_by_snoc)
        have "sums_engines engines (concat (map client_times ?clients) @ client_times client)"
          using sums_engines_client [OF assms(1,2) before(4) engines(2)] by (simp add: client_times_def)
        moreover have "unat (foldl (\<lambda>n r. infiltratr_u64_add_saturating c n (mr_bytes r)) (gs_memory_bytes snapshot) (dc_regions client)) =
            min ((\<Sum>client\<leftarrow>?clients. client_bytes client) + client_bytes client) (2 ^ 64 - 1)"
          unfolding regions_sum [OF assms(2)] before(5) client_bytes_def by simp
        ultimately show ?thesis
          using engines before complete new by (simp add: accounts_clients_def Let_def)
      qed
    qed
  qed
qed

lemma entries_account:
  assumes "common_text_ok c" "common_arith_ok c" "foldM (gpu_entry c) ([], empty_snapshot) entries = Some s"
  shows "accounts_clients c entries s"
  using assms(3)
proof (induction entries arbitrary: s rule: rev_induct)
  case Nil
  then show ?case
    by (auto simp: accounts_clients_def recognised_clients_def empty_snapshot_def sums_engines_def descriptors_complete_def
        map_filter_def)
next
  case (snoc entry entries)
  then show ?case using entry_accounts [OF assms(1,2)] by (auto simp: foldM_append split: option.splits)
qed

subsection \<open>Peak utilisation\<close>

definition matched :: "gpu_snapshot \<Rightarrow> gpu_engine \<Rightarrow> gpu_engine \<Rightarrow> bool" where
  "matched previous e old \<longleftrightarrow> find_engine previous (ge_name e) = Some old \<and> ge_time_ns old \<le> ge_time_ns e"

lemma peak_step_unmatched: "\<not> (\<exists>old. matched previous e old) \<Longrightarrow> peak_step ld interval previous peak e = peak"
  by (auto simp: peak_step_def matched_def Let_def split: option.split)

lemma peak_step_matched:
  "matched previous e old \<Longrightarrow> peak_step ld interval previous peak e =
     (case peak of None \<Rightarrow> Some (engine_percent ld interval old e, ge_name e)
      | Some (p, _) \<Rightarrow> if p < engine_percent ld interval old e then Some (engine_percent ld interval old e, ge_name e) else peak)"
  by (auto simp: peak_step_def matched_def Let_def split: option.split)

lemma peak_fold:
  "case foldl (peak_step ld interval previous) None engines of
     None \<Rightarrow> \<forall>e\<in>set engines. \<forall>old. \<not> matched previous e old
   | Some (v, name) \<Rightarrow>
       (\<exists>e\<in>set engines. \<exists>old. matched previous e old \<and> name = ge_name e \<and> v = engine_percent ld interval old e) \<and>
       (\<forall>e\<in>set engines. \<forall>old. matched previous e old \<longrightarrow> engine_percent ld interval old e \<le> v)"
proof (induction engines rule: rev_induct)
  case (snoc e engines)
  let ?peak = "foldl (peak_step ld interval previous) None engines"
  show ?case
  proof (cases "\<exists>old. matched previous e old")
    case False
    then show ?thesis using snoc by (auto simp: peak_step_unmatched [OF False] split: option.splits)
  next
    case True
    then obtain old where old: "matched previous e old" by blast
    have only: "matched previous e x \<longleftrightarrow> x = old" for x using old by (auto simp: matched_def)
    have step: "foldl (peak_step ld interval previous) None (engines @ [e]) =
      (case ?peak of None \<Rightarrow> Some (engine_percent ld interval old e, ge_name e)
       | Some (p, _) \<Rightarrow> if p < engine_percent ld interval old e then Some (engine_percent ld interval old e, ge_name e) else ?peak)"
      using peak_step_matched [OF old, of ld interval ?peak] by simp
    show ?thesis
    proof (cases ?peak)
      case None
      then show ?thesis using snoc only unfolding step by auto
    next
      case (Some best)
      obtain p name where best: "best = (p, name)" by (cases best)
      note earlier = snoc [unfolded Some best option.case prod.case]
      show ?thesis
      proof (cases "p < engine_percent ld interval old e")
        case True
        have "\<forall>x\<in>set engines. \<forall>y. matched previous x y \<longrightarrow> engine_percent ld interval y x \<le> engine_percent ld interval old e"
          using earlier True by fastforce
        then show ?thesis unfolding step Some best using True only by auto
      next
        case False
        then show ?thesis unfolding step Some best using earlier only by auto
      qed
    qed
  qed
qed simp

lemma normalised_matched:
  assumes "e \<in> set (gs_engines (lsm_process_gpu_normalise current previous))"
  shows "matched previous e old \<longleftrightarrow> find_engine previous (ge_name e) = Some old"
  using assms by (auto simp: lsm_process_gpu_normalise_def matched_def split: option.splits if_splits)

lemma percent_clamped: "is_percent (fl (clamp_percent v))"
proof -
  have "rnd 100 = 100" using rnd_dyadic [of 25 2] by simp
  moreover have "0 \<le> clamp_percent v" "clamp_percent v \<le> 100" by (simp_all add: clamp_percent_def Let_def)
  ultimately show ?thesis using fl_between [of 0 100 "clamp_percent v"] by auto
qed

subsection \<open>Properties\<close>

lemma complete_descriptors_read:
  assumes "descriptors_complete c entries"
  shows "\<forall>(name, content)\<in>set entries. infiltratr_parse_u64_range c name 10 0 (word_of_int INT_MAX) \<noteq> None \<longrightarrow>
     (\<forall>lines failed. content = Some (lines, failed) \<longrightarrow> \<not> failed)"
proof -
  have "\<not> failed" if "fst (read_client_file c name (Some (lines, failed)))" for name lines failed
    using that by (auto simp: read_client_file_def Let_def split: if_splits)
  moreover have "fst (read_client_file c name content)"
    if "(name, content) \<in> set entries" "infiltratr_parse_u64_range c name 10 0 (word_of_int INT_MAX) \<noteq> None" for name content
    using assms that by (auto simp: descriptors_complete_def list_all_iff)
  ultimately show ?thesis by fast
qed


text \<open>
  The utilisation shown for a process is that of its busiest engine: after normalisation it is
  unavailable exactly when no engine occurs in both snapshots, and otherwise a percentage, the
  clamped utilisation of an engine that no other common engine exceeds; a counter that fell between
  the snapshots does not hide an engine.
\<close>

theorem gpu_busiest_engine:
  assumes "0 < elapsed" "gs_engine_counters_available current" "gs_engine_counters_available previous"
  shows "let now = lsm_process_gpu_normalise current previous;
      usage = (\<lambda>e old. engine_percent ld (ld (elapsed * 1000000000)) old e);
      common_engine = (\<lambda>e old. e \<in> set (gs_engines now) \<and> find_engine previous (ge_name e) = Some old)
    in case lsm_process_gpu_calculate_engine c ld engine_size now previous (Fin elapsed) of
         None \<Rightarrow> \<forall>e\<in>set (gs_engines current). find_engine previous (ge_name e) = None
       | Some (percent, name) \<Rightarrow> is_percent percent \<and>
           (\<exists>e old. common_engine e old \<and> name = infiltratr_copy_string c engine_size (display_name (ge_name e)) \<and>
              percent = fl (max 0 (min 100 (usage e old))) \<and>
              (\<forall>e' old'. common_engine e' old' \<longrightarrow> usage e' old' \<le> usage e old))"
proof -
  let ?now = "lsm_process_gpu_normalise current previous" and ?i = "ld (elapsed * 1000000000)"
  note fold = peak_fold [where ld = ld and interval = ?i and previous = previous and engines = "gs_engines ?now"]
  have available: "gs_engine_counters_available ?now" using assms(2) by (simp add: lsm_process_gpu_normalise_def)
  have names: "ge_name ` set (gs_engines ?now) = ge_name ` set (gs_engines current)"
    by (force simp: lsm_process_gpu_normalise_def image_iff split: option.split)
  show ?thesis
  proof (cases "foldl (peak_step ld ?i previous) None (gs_engines ?now)")
    case None
    have "find_engine previous name = None" if "name \<in> ge_name ` set (gs_engines ?now)" for name
      using fold None that normalised_matched [of _ current previous] by fastforce
    then have "\<forall>e\<in>set (gs_engines current). find_engine previous (ge_name e) = None" unfolding names by blast
    then show ?thesis using None assms available by (simp add: lsm_process_gpu_calculate_engine_def Let_def)
  next
    case (Some best)
    obtain v name where best: "best = (v, name)" by (cases best)
    have clamp: "clamp_percent v = max 0 (min 100 v)"
      by (auto simp: clamp_percent_def Let_def)
    have result: "lsm_process_gpu_calculate_engine c ld engine_size ?now previous (Fin elapsed) =
        Some (fl (max 0 (min 100 v)), infiltratr_copy_string c engine_size (display_name name))"
      using Some best assms available clamp by (simp add: lsm_process_gpu_calculate_engine_def)
    obtain e old where e: "e \<in> set (gs_engines ?now)" "matched previous e old" "name = ge_name e" "v = engine_percent ld ?i old e"
      using fold Some best by auto
    have greatest: "engine_percent ld ?i old' e' \<le> v" if "e' \<in> set (gs_engines ?now)" "find_engine previous (ge_name e') = Some old'" for e' old'
      using fold Some best that normalised_matched [OF that(1)] by auto
    have "is_percent (fl (max 0 (min 100 v)))" using percent_clamped [of v] unfolding clamp .
    then show ?thesis unfolding result Let_def option.case prod.case
      using e greatest normalised_matched [OF e(1)] by (intro conjI exI [of _ e] exI [of _ old]) auto
  qed
qed

subsection \<open>In the scan\<close>

text \<open>The operations the scan of \<open>Process_Scan\<close> uses.\<close>

definition process_gpu_ops :: "common \<Rightarrow> (rat \<Rightarrow> rat) \<Rightarrow> gpu_snapshot gpu_ops" where
  "process_gpu_ops c ld = \<lparr>gpu_normalise = lsm_process_gpu_normalise,
     gpu_calculate_engine = lsm_process_gpu_calculate_engine c ld 256\<rparr>"

lemma calculated_percent:
  "lsm_process_gpu_calculate_engine c ld engine_size current previous elapsed = Some (percent, name) \<Longrightarrow> is_percent percent"
  using percent_clamped by (auto simp: lsm_process_gpu_calculate_engine_def split: double.splits if_splits)

lemma scan_process_percent:
  assumes "is_percent (sa_gpu_percent sample)"
  shows "is_percent (rw_gpu_percent (fst (scan_process c (process_gpu_ops c ld) rq ob sample))) \<and>
    is_percent (sa_gpu_percent (snd (scan_process c (process_gpu_ops c ld) rq ob sample)))"
proof -
  let ?ok = "\<lambda>x. is_percent (rw_gpu_percent (fst x)) \<and> is_percent (sa_gpu_percent (snd x))"
  have command: "?ok (scan_command rq ob x)" "?ok (scan_executable rq ob x)" "?ok (scan_cgroup rq ob x)" "?ok (scan_times c rq ob x)"
    "?ok (scan_cpu c rq ob x)" "?ok (scan_io c rq ob x)" "?ok (retain_sample rq ob x)" if "?ok x" for x :: "process_row \<times> gpu_snapshot process_sample"
    using that by (auto simp: scan_command_def scan_executable_def scan_cgroup_def scan_times_def scan_cpu_def scan_io_def
        retain_sample_def Let_def case_prod_unfold split: option.split)
  have row: "is_percent (rw_gpu_percent (fst (gpu_row (process_gpu_ops c ld) rq ob row old)))" if "is_percent (rw_gpu_percent row)" for row old
    using that calculated_percent
    by (auto simp: gpu_row_def process_gpu_ops_def Let_def split: option.split)
  have gpu: "?ok (scan_gpu (process_gpu_ops c ld) rq ob x)" if "?ok x" for x
    using that row by (auto simp: scan_gpu_def Let_def case_prod_unfold)
  show ?thesis unfolding scan_process_def
    by (intro command gpu conjI) (simp_all add: assms new_row_def)
qed

definition percent_samples :: "'g process_sample list \<Rightarrow> bool" where
  "percent_samples samples \<longleftrightarrow> (\<forall>sample\<in>set samples. is_percent (sa_gpu_percent sample))"

lemma find_or_create_percent:
  assumes "percent_samples samples" "find_or_create_sample searchable pid samples = (index, samples')" "searchable \<le> length samples"
  shows "percent_samples samples' \<and> index < length samples' \<and> searchable \<le> length samples'"
  using assms by (auto simp: find_or_create_sample_def percent_samples_def new_sample_def Let_def split: if_splits)

lemma scan_percent:
  assumes "percent_samples (be_samples b)" "lsm_process_scan c (process_gpu_ops c ld) rq cpu_total processes failed b = (Some rows, b')"
  shows "percent_samples (be_samples b') \<and> (\<forall>row\<in>set rows. is_percent (rw_gpu_percent row))"
proof -
  obtain cpu obs where some: "cpu_total = Some cpu" "processes = Some obs" "\<not> failed"
    using assms(2) by (auto simp: lsm_process_scan_def Let_def split: option.splits if_splits)
  let ?rq = "scan_request_of c rq cpu b" and ?n = "length (be_samples b)"
  let ?ok = "\<lambda>s. percent_samples (ss_samples s) \<and> ?n \<le> length (ss_samples s) \<and> (\<forall>row\<in>set (ss_rows s). is_percent (rw_gpu_percent row))"
  have entry: "?ok (scan_entry c (process_gpu_ops c ld) ?rq ?n s ob)" if "?ok s" for s ob
  proof -
    obtain index samples where found: "find_or_create_sample ?n (ob_pid ob) (ss_samples s) = (index, samples)"
      by (cases "find_or_create_sample ?n (ob_pid ob) (ss_samples s)")
    have ok: "percent_samples samples" "index < length samples" "?n \<le> length samples"
      using find_or_create_percent [of "ss_samples s" ?n "ob_pid ob" index samples] that found by auto
    have "is_percent (sa_gpu_percent (samples ! index))" using ok(1,2) by (auto simp: percent_samples_def)
    from scan_process_percent [OF this, of c ld ?rq ob] show ?thesis
      using that found ok by (auto simp: scan_entry_def percent_samples_def Let_def case_prod_unfold dest!: set_update_subset_insert [THEN subsetD])
  qed
  let ?s = "foldl (scan_entry c (process_gpu_ops c ld) ?rq ?n) \<lparr>ss_samples = be_samples b, ss_mutations = [], ss_rows = []\<rparr> obs"
  have all: "?ok ?s" using assms(1) entry by (induction obs rule: rev_induct) auto
  have compact: "sample \<in> set xs" if "sample \<in> set (compact_samples ?n g xs)" for g sample and xs :: "gpu_snapshot process_sample list"
    using that by (auto simp: compact_samples_def Let_def set_qsort split: if_splits)
  show ?thesis using assms(2) some all
    by (auto simp: lsm_process_scan_def percent_samples_def Let_def dest!: compact)
qed

subsection \<open>Examples\<close>

definition sample_snapshot :: "u64 \<Rightarrow> gpu_snapshot" where
  "sample_snapshot t = \<lparr>gs_engines = [\<lparr>ge_name = ''d:render'', ge_time_ns = t, ge_capacity = 1, ge_time_available = True\<rparr>],
     gs_memory_bytes = 0, gs_engine_counters_available = True, gs_memory_available = False\<rparr>"

theorem gpu_busiest_engine_witness:
  "\<exists>percent name. lsm_process_gpu_calculate_engine ref_common (\<lambda>x. x) 256
     (lsm_process_gpu_normalise (sample_snapshot 1000) (sample_snapshot 0)) (sample_snapshot 0) (Fin 2) = Some (percent, name) \<and>
     is_percent percent"
proof -
  have "gs_engine_counters_available (sample_snapshot 1000)" "gs_engine_counters_available (sample_snapshot 0)"
    "find_engine (sample_snapshot 0) ''d:render'' \<noteq> None" "\<exists>e\<in>set (gs_engines (sample_snapshot 1000)). ge_name e = ''d:render''"
    by (simp_all add: sample_snapshot_def find_engine_def)
  then show ?thesis
    using gpu_busiest_engine [where elapsed = 2 and current = "sample_snapshot 1000" and previous = "sample_snapshot 0"
        and c = ref_common and ld = "\<lambda>x. x" and engine_size = 256]
    by (auto simp: Let_def split: option.splits)
qed

definition sample_fdinfo :: "string \<Rightarrow> string" where
  "sample_fdinfo ident = ''drm-driver:x'' @ [LF] @ ''drm-client-id:'' @ ident @ [LF] @ ''drm-engine-a:5'' @ [LF] @
     ''drm-memory-v:2 KiB'' @ [LF]"

definition sample_drm_client :: "string \<Rightarrow> drm_client" where
  "sample_drm_client ident = \<lparr>dc_key = ''x::'' @ ident, dc_device_key = ''x:'',
     dc_engines = [\<lparr>ge_name = ''a'', ge_time_ns = 5, ge_capacity = 1, ge_time_available = True\<rparr>],
     dc_regions = [\<lparr>mr_name = ''v'', mr_bytes = 2048, mr_resident_preferred = False\<rparr>], dc_memory_available = True\<rparr>"

lemma sample_client:
  assumes "ident = [d]" "d = CHR ''7'' \<or> d = CHR ''8''"
  shows "read_client_file ref_common name (Some (sample_fdinfo ident, False)) = (True, Some (sample_drm_client ident))"
proof -
  have digit: "nat_text 7 = ''7''" "nat_text 8 = ''8''" by code_simp+
  have chunks: "fgets_chunks 512 (sample_fdinfo ident) =
      [''drm-driver:x'' @ [LF], ''drm-client-id:'' @ ident @ [LF], ''drm-engine-a:5'' @ [LF], ''drm-memory-v:2 KiB'' @ [LF]]"
    using assms by (elim disjE; simp add: sample_fdinfo_def fgets_chunks.simps fgets_line_def strchr_split_def)
  note defs = client_line_def without_newline_def c_str_def strchr_split_def ref_common_def
    field_value_def number_field_def starts_with_def trim_spaces_def ref_parse_u64_token_def
    ref_parse_u64_def ascii_digit_def ascii_space_def decimal_value_def digit_value_def Let_def
  have driver: "client_line ref_common (without_newline (c_str (''drm-driver:x'' @ [LF]))) f = f\<lparr>cf_driver := ''x''\<rparr>" for f
    by (simp add: defs)
  have engine: "client_line ref_common (without_newline (c_str (''drm-engine-a:5'' @ [LF]))) f =
      f\<lparr>cf_engines := [\<lparr>ge_name = ''a'', ge_time_ns = 5, ge_capacity = 1, ge_time_available = True\<rparr>], cf_recognised := True\<rparr>"
    if "cf_engines f = []" for f
    using that by (simp add: defs add_engine_def LSM_PROCESS_GPU_MAX_ENGINES_def)
  have memory: "client_line ref_common (without_newline (c_str (''drm-memory-v:2 KiB'' @ [LF]))) f =
      f\<lparr>cf_regions := [\<lparr>mr_name = ''v'', mr_bytes = 2048, mr_resident_preferred = False\<rparr>], cf_memory_available := True,
        cf_recognised := True\<rparr>" if "cf_regions f = []" for f
    using that by (simp add: defs set_memory_region_def LSM_PROCESS_GPU_MAX_REGIONS_def)
  have ident: "client_line ref_common (without_newline (c_str (''drm-client-id:'' @ ident @ [LF]))) f =
      f\<lparr>cf_client_id := Some (if d = CHR ''7'' then 7 else 8)\<rparr>" for f
    using assms by (elim disjE; simp add: defs)
  have "fold (client_line ref_common) (map (without_newline \<circ> c_str) [''drm-driver:x'' @ [LF], ''drm-client-id:'' @ ident @ [LF],
      ''drm-engine-a:5'' @ [LF], ''drm-memory-v:2 KiB'' @ [LF]]) empty_client_file =
    \<lparr>cf_driver = ''x'', cf_device = [], cf_client_id = Some (if d = CHR ''7'' then 7 else 8), cf_recognised = True,
     cf_complete = True, cf_engines = [\<lparr>ge_name = ''a'', ge_time_ns = 5, ge_capacity = 1, ge_time_available = True\<rparr>],
     cf_regions = [\<lparr>mr_name = ''v'', mr_bytes = 2048, mr_resident_preferred = False\<rparr>], cf_memory_available = True\<rparr>"
    unfolding list.map o_apply fold_simps driver ident
    by (subst engine, simp add: empty_client_file_def, subst memory, simp add: empty_client_file_def)
      (simp add: empty_client_file_def)
  then show ?thesis
    unfolding read_client_file_def option.case prod.case chunks
    using assms by (elim disjE; simp add: digit sample_drm_client_def Let_def del: fold_simps list.map append.simps)
qed

definition sample_directory :: fd_directory where
  "sample_directory = \<lparr>fd_entries = [(''3'', Some (sample_fdinfo ''7'', False)), (''4'', Some (sample_fdinfo ''7'', False)),
     (''5'', Some (sample_fdinfo ''8'', False)), (''6'', None)], fd_failed = False\<rparr>"

definition sample_gpu :: gpu_snapshot where
  "sample_gpu = \<lparr>gs_engines = [\<lparr>ge_name = ''x::a'', ge_time_ns = 10, ge_capacity = 1, ge_time_available = True\<rparr>],
     gs_memory_bytes = 4096, gs_engine_counters_available = True, gs_memory_available = True\<rparr>"

lemma sample_descriptors:
  "infiltratr_parse_u64_range ref_common ''3'' 10 0 (word_of_int INT_MAX) \<noteq> None"
  "infiltratr_parse_u64_range ref_common ''4'' 10 0 (word_of_int INT_MAX) \<noteq> None"
  "infiltratr_parse_u64_range ref_common ''5'' 10 0 (word_of_int INT_MAX) \<noteq> None"
  "infiltratr_parse_u64_range ref_common ''6'' 10 0 (word_of_int INT_MAX) \<noteq> None"
  by (simp_all add: ref_common_def ref_parse_u64_def ascii_digit_def decimal_value_def digit_value_def INT_MAX_def word_le_nat_alt)

lemma sample_clients:
  "read_client_file ref_common name (Some (sample_fdinfo ''7'', False)) = (True, Some (sample_drm_client ''7''))"
  "read_client_file ref_common name (Some (sample_fdinfo ''8'', False)) = (True, Some (sample_drm_client ''8''))"
  "read_client_file ref_common name None = (True, None)"
  by (simp_all add: sample_client) (simp add: read_client_file_def)

lemma sample_gpu_read:
  "lsm_process_gpu_read ref_common (\<lambda>_. Some sample_directory) ''/proc'' 9 = (True, sample_gpu)"
proof -
  have copy: "infiltratr_copy_string ref_common n s = take (n - 1) s" for n s
    using ref_common_ok(1) by (simp add: common_text_ok_def)
  have add: "infiltratr_u64_add_saturating ref_common = saturating_add" by (simp add: ref_common_def)
  note defs = gpu_entry_def sample_clients sample_descriptors LSM_PROCESS_GPU_MAX_CLIENTS_def copy add add_client_engine_def
    add_engine_def engine_key_def LSM_PROCESS_GPU_MAX_ENGINES_def empty_snapshot_def sample_drm_client_def saturating_add_def
  have entries: "foldM (gpu_entry ref_common) ([], empty_snapshot) (fd_entries sample_directory) =
      Some ([''x::7'', ''x::8''], sample_gpu\<lparr>gs_engine_counters_available := False\<rparr>)"
    by (simp add: sample_directory_def defs sample_gpu_def)
  have "nat_text 9 = ''9''" by code_simp
  then show ?thesis
    by (simp add: lsm_process_gpu_read_def entries Let_def) (simp add: sample_directory_def sample_gpu_def)
qed


end
