(* ===== verification/Process_Inspection.thy ===== *)
theory Process_Inspection
  imports Process_Control
begin

text \<open>
  The process inspector (\<^verbatim>\<open>src/process_inspection.c\<close>): its own check of a process instance, the open
  files of a process with their kinds, its threads, and the search for the users of a file. procfs is
  the parameter \<open>procfs\<close>: directories (with an error when opening, reading or closing them fails), link
  targets, texts and file identities. The inspector's identity check is proved to agree with the one
  that guards actions, and the search to find exactly the descriptors of the file.
\<close>

record procfs =
  pf_root :: string
  pf_directory :: "string \<Rightarrow> errno + (string list \<times> errno option)"
  pf_link :: "string \<Rightarrow> string option"
  pf_lines :: "string \<Rightarrow> string option" \<comment> \<open>a file read line by line\<close>
  pf_small_file :: "string \<Rightarrow> nat \<Rightarrow> string option" \<comment> \<open>\<^verbatim>\<open>lsm_read_text_file\<close> into a buffer\<close>
  pf_identity :: "string \<Rightarrow> (u64 \<times> u64) option" \<comment> \<open>device and inode by \<^verbatim>\<open>stat\<close>\<close>
  pf_join :: "string \<Rightarrow> string \<Rightarrow> string option" \<comment> \<open>\<^verbatim>\<open>lsm_join_path\<close> within \<^verbatim>\<open>PATH_MAX\<close>\<close>

definition PATH_MAX :: nat where
  "PATH_MAX = 4096"

definition LSM_INSPECTION_TARGET_LEN :: nat where
  "LSM_INSPECTION_TARGET_LEN = 1024"

definition process_path :: "procfs \<Rightarrow> int \<Rightarrow> string \<Rightarrow> string option" where
  "process_path fs pid suffix =
     (let path = pf_root fs @ ''/'' @ int_text pid @ ''/'' @ suffix
      in if pid < 1 \<or> PATH_MAX \<le> length path then None else Some path)"

subsection \<open>Identity\<close>

text \<open>The fields from the third on; the start time is the twenty-second.\<close>

fun start_field :: "common \<Rightarrow> nat \<Rightarrow> string \<Rightarrow> u64 option" where
  "start_field c more_fields cursor =
     (let begun = dropWhile (infiltratr_ascii_is_space c) cursor;
          after = dropWhile (\<lambda>x. \<not> infiltratr_ascii_is_space c x) begun
      in if begun = [] then None
         else case more_fields of
             Suc n \<Rightarrow> start_field c n after
           | 0 \<Rightarrow> (case infiltratr_parse_u64_token c begun 10 of
                 None \<Rightarrow> None
               | Some (v, rest) \<Rightarrow> if rest \<noteq> after \<or> v = 0 then None else Some v))"

declare start_field.simps [simp del]

definition parse_start_ticks :: "common \<Rightarrow> string \<Rightarrow> u64 option" where
  "parse_start_ticks c contents =
     (case strchr_split CHR '')'' (rev contents) of
        None \<Rightarrow> None
      | Some (behind, _) \<Rightarrow>
          let tail = rev behind
          in if tail = [] \<or> hd tail \<noteq> CHR '' '' then None else start_field c 19 (tl tail))"

definition lsm_process_inspection_identity_matches :: "common \<Rightarrow> procfs \<Rightarrow> u64 \<Rightarrow> u64 \<Rightarrow> bool" where
  "lsm_process_inspection_identity_matches c fs process_id expected =
     (case native_pid process_id of
        None \<Rightarrow> False
      | Some pid \<Rightarrow>
          if expected = 0 then False
          else case Option.bind (process_path fs pid ''stat'') (\<lambda>path. pf_small_file fs path 4096) of
              None \<Rightarrow> False
            | Some s \<Rightarrow> parse_start_ticks c s = Some expected)"

subsection \<open>Open files\<close>

definition parse_socket_inode :: "common \<Rightarrow> string \<Rightarrow> u64 option" where
  "parse_socket_inode c target =
     (if \<not> infiltratr_string_starts_with c target ''socket:['' then None
      else case infiltratr_parse_u64_token c (drop 8 target) 10 of
          None \<Rightarrow> None
        | Some (v, rest) \<Rightarrow> if rest = '']'' then Some v else None)"

fun field_is_inode :: "common \<Rightarrow> nat \<Rightarrow> u64 \<Rightarrow> string \<Rightarrow> bool" where
  "field_is_inode c inode_field inode cursor =
     (let begun = dropWhile (infiltratr_ascii_is_space c) cursor;
          after = dropWhile (\<lambda>x. \<not> infiltratr_ascii_is_space c x) begun
      in if begun = [] then False
         else case inode_field of
             Suc n \<Rightarrow> field_is_inode c n inode after
           | 0 \<Rightarrow> infiltratr_parse_u64_token c begun 10 = Some (inode, after))"

declare field_is_inode.simps [simp del]

definition socket_table_contains_inode :: "common \<Rightarrow> procfs \<Rightarrow> int \<Rightarrow> string \<Rightarrow> nat \<Rightarrow> u64 \<Rightarrow> bool" where
  "socket_table_contains_inode c fs pid suffix inode_field inode =
     (case Option.bind (process_path fs pid suffix) (pf_lines fs) of
        None \<Rightarrow> False
      | Some s \<Rightarrow> list_ex (field_is_inode c inode_field inode) (map c_str (fgets_chunks 4096 s)))"

definition descriptor_kind :: "common \<Rightarrow> procfs \<Rightarrow> int \<Rightarrow> string \<Rightarrow> string" where
  "descriptor_kind c fs pid target =
     (let starts = infiltratr_string_starts_with c target;
          listed = (\<lambda>field inode suffix. socket_table_contains_inode c fs pid suffix field inode)
      in if target = [] then ''Unknown''
         else case parse_socket_inode c target of
             Some inode \<Rightarrow>
               if listed 6 inode ''net/unix'' then ''Local socket''
               else if list_ex (listed 9 inode) [''net/tcp'', ''net/udp'', ''net/raw''] then ''IPv4 network connection''
               else if list_ex (listed 9 inode) [''net/tcp6'', ''net/udp6'', ''net/raw6''] then ''IPv6 network connection''
               else ''Socket''
           | None \<Rightarrow>
               if starts ''pipe:['' then ''Pipe''
               else if starts ''anon_inode:'' then ''Anon inode''
               else if hd target = CHR ''/'' then ''File'' else ''Kernel object'')"

record open_file_info =
  of_descriptor :: int
  of_kind :: string
  of_target :: string

definition compare_open_file :: "open_file_info \<Rightarrow> open_file_info \<Rightarrow> int" where
  "compare_open_file a b =
     (if of_descriptor b < of_descriptor a then 1 else 0) - (if of_descriptor a < of_descriptor b then 1 else 0)"

definition open_file_entry :: "common \<Rightarrow> procfs \<Rightarrow> int \<Rightarrow> string \<Rightarrow> string \<Rightarrow> open_file_info option" where
  "open_file_entry c fs pid directory name =
     (case infiltratr_parse_u64_range c name 10 0 (word_of_int INT_MAX) of
        None \<Rightarrow> None
      | Some descriptor \<Rightarrow>
          (case Option.bind (pf_join fs directory name) (pf_link fs) of
             None \<Rightarrow> None
           | Some link \<Rightarrow>
               let target = take (LSM_INSPECTION_TARGET_LEN - 1) link
               in Some \<lparr>of_descriptor = uint descriptor, of_kind = infiltratr_copy_string c 32 (descriptor_kind c fs pid target),
                    of_target = infiltratr_copy_string c LSM_INSPECTION_TARGET_LEN target\<rparr>))"

definition lsm_process_inspection_open_files_checked :: "common \<Rightarrow> procfs \<Rightarrow> u64 \<Rightarrow> errno + open_file_info list" where
  "lsm_process_inspection_open_files_checked c fs process_id =
     (case native_pid process_id of
        None \<Rightarrow> Inl E_INVAL
      | Some pid \<Rightarrow>
          (case process_path fs pid ''fd'' of
             None \<Rightarrow> Inl E_NAMETOOLONG
           | Some directory \<Rightarrow>
               (case pf_directory fs directory of
                  Inl e \<Rightarrow> Inl e
                | Inr (_, Some e) \<Rightarrow> Inl e
                | Inr (names, None) \<Rightarrow>
                    let items = List.map_filter (open_file_entry c fs pid directory) names
                    in Inr (if 1 < length items then qsort compare_open_file items else items))))"

subsection \<open>Threads\<close>

record thread_info =
  ti_tid :: u64
  ti_name :: string
  ti_state :: string

text \<open>The first \<^verbatim>\<open>State:\<close> line.\<close>

definition read_thread_state :: "common \<Rightarrow> procfs \<Rightarrow> string \<Rightarrow> string" where
  "read_thread_state c fs path =
     (case pf_lines fs path of
        None \<Rightarrow> []
      | Some s \<Rightarrow>
          (case find (\<lambda>line. infiltratr_string_starts_with c line ''State:'') (map c_str (fgets_chunks 256 s)) of
             None \<Rightarrow> []
           | Some line \<Rightarrow> infiltratr_copy_string c 64 (infiltratr_trim_line_end c
               (dropWhile (\<lambda>x. x = CHR '' '' \<or> x = TAB) (drop 6 line)))))"

definition compare_thread :: "thread_info \<Rightarrow> thread_info \<Rightarrow> int" where
  "compare_thread a b = (if ti_tid b < ti_tid a then 1 else 0) - (if ti_tid a < ti_tid b then 1 else 0)"

definition thread_entry :: "common \<Rightarrow> procfs \<Rightarrow> string \<Rightarrow> string \<Rightarrow> thread_info option" where
  "thread_entry c fs directory name =
     (case (infiltratr_parse_u64_range c name 10 1 UINT64_MAX, pf_join fs directory name) of
        (Some tid, Some path) \<Rightarrow>
          let state = (case pf_join fs path ''status'' of None \<Rightarrow> [] | Some status \<Rightarrow> read_thread_state c fs status)
          in Some \<lparr>ti_tid = tid,
               ti_name = (case Option.bind (pf_join fs path ''comm'') (\<lambda>comm. pf_small_file fs comm LSM_NAME_LEN) of
                   Some v \<Rightarrow> infiltratr_copy_string c LSM_NAME_LEN v
                 | None \<Rightarrow> take (LSM_NAME_LEN - 1) (''Thread '' @ nat_text (unat tid))),
               ti_state = (if state = [] then infiltratr_copy_string c 64 ''Unknown'' else state)\<rparr>
      | _ \<Rightarrow> None)"

definition lsm_process_inspection_threads_checked :: "common \<Rightarrow> procfs \<Rightarrow> u64 \<Rightarrow> errno + thread_info list" where
  "lsm_process_inspection_threads_checked c fs process_id =
     (case native_pid process_id of
        None \<Rightarrow> Inl E_INVAL
      | Some pid \<Rightarrow>
          (case process_path fs pid ''task'' of
             None \<Rightarrow> Inl E_NAMETOOLONG
           | Some directory \<Rightarrow>
               (case pf_directory fs directory of
                  Inl e \<Rightarrow> Inl e
                | Inr (_, Some e) \<Rightarrow> Inl e
                | Inr (names, None) \<Rightarrow>
                    let items = List.map_filter (thread_entry c fs directory) names
                    in Inr (if 1 < length items then qsort compare_thread items else items))))"

subsection \<open>Users of a file\<close>

record file_user_info =
  fu_pid :: int
  fu_descriptor :: int
  fu_process_name :: string
  fu_target :: string

definition read_process_name :: "procfs \<Rightarrow> int \<Rightarrow> string" where
  "read_process_name fs pid =
     (case Option.bind (process_path fs pid ''comm'') (\<lambda>path. pf_small_file fs path LSM_NAME_LEN) of
        Some name \<Rightarrow> name
      | None \<Rightarrow> take (LSM_NAME_LEN - 1) (''PID '' @ int_text pid))"

definition compare_file_user :: "file_user_info \<Rightarrow> file_user_info \<Rightarrow> int" where
  "compare_file_user a b =
     (if fu_pid a \<noteq> fu_pid b then (if fu_pid b < fu_pid a then 1 else 0) - (if fu_pid a < fu_pid b then 1 else 0)
      else (if fu_descriptor b < fu_descriptor a then 1 else 0) - (if fu_descriptor a < fu_descriptor b then 1 else 0))"

definition refers_to :: "procfs \<Rightarrow> u64 \<times> u64 \<Rightarrow> int \<Rightarrow> open_file_info \<Rightarrow> bool" where
  "refers_to fs requested pid item =
     (Option.bind (process_path fs pid (take 63 (''fd/'' @ int_text (of_descriptor item)))) (pf_identity fs) = Some requested)"

definition users_of_process :: "common \<Rightarrow> procfs \<Rightarrow> u64 \<times> u64 \<Rightarrow> int \<Rightarrow> open_file_info list \<Rightarrow> file_user_info list" where
  "users_of_process c fs requested pid files =
     map (\<lambda>item. \<lparr>fu_pid = pid, fu_descriptor = of_descriptor item, fu_process_name = read_process_name fs pid,
         fu_target = infiltratr_copy_string c LSM_INSPECTION_TARGET_LEN (of_target item)\<rparr>)
       (filter (refers_to fs requested pid) files)"

text \<open>One entry of the root; an error ends the search, an unreadable process is passed over.\<close>

definition user_entry ::
    "common \<Rightarrow> procfs \<Rightarrow> u64 \<times> u64 \<Rightarrow> string \<Rightarrow> errno + file_user_info list" where
  "user_entry c fs requested name =
     (case infiltratr_parse_u64_range c name 10 1 (word_of_int INT_MAX) of
        None \<Rightarrow> Inr []
      | Some pid \<Rightarrow>
          (case lsm_process_inspection_open_files_checked c fs pid of
             Inl e \<Rightarrow> if e \<in> {E_NOMEM, E_IO, E_OVERFLOW} then Inl e else Inr []
           | Inr files \<Rightarrow> Inr (users_of_process c fs requested (uint pid) files)))"

fun collect_users :: "common \<Rightarrow> procfs \<Rightarrow> u64 \<times> u64 \<Rightarrow> string list \<Rightarrow> errno + file_user_info list" where
  "collect_users c fs requested [] = Inr []"
| "collect_users c fs requested (name # names) =
     (case user_entry c fs requested name of
        Inl e \<Rightarrow> Inl e
      | Inr found \<Rightarrow> (case collect_users c fs requested names of Inl e \<Rightarrow> Inl e | Inr others \<Rightarrow> Inr (found @ others)))"

definition lsm_process_inspection_find_file_users_checked ::
    "common \<Rightarrow> procfs \<Rightarrow> errno \<Rightarrow> string \<Rightarrow> errno + file_user_info list" where
  "lsm_process_inspection_find_file_users_checked c fs stat_failure path =
     (if path = [] then Inl E_INVAL
      else case pf_identity fs path of
          None \<Rightarrow> Inl stat_failure
        | Some requested \<Rightarrow>
            (case pf_directory fs (pf_root fs) of
               Inl e \<Rightarrow> Inl e
             | Inr (names, failure) \<Rightarrow>
                 (case collect_users c fs requested names of
                    Inl e \<Rightarrow> Inl e
                  | Inr items \<Rightarrow>
                      (case failure of
                         Some e \<Rightarrow> Inl e
                       | None \<Rightarrow> Inr (if 1 < length items then qsort compare_file_user items else items)))))"

subsection \<open>One identity\<close>

text \<open>A token is a decimal up to the first other character.\<close>

definition common_token_ok :: "common \<Rightarrow> bool" where
  "common_token_ok c \<longleftrightarrow> (\<forall>v rest. rest = [] \<or> \<not> ascii_digit (hd rest) \<longrightarrow>
     infiltratr_parse_u64_token c (nat_text (unat v) @ rest) 10 = Some (v, rest))"

definition graph_token :: "string \<Rightarrow> bool" where
  "graph_token t \<longleftrightarrow> t \<noteq> [] \<and> list_all (\<lambda>x. \<not> ascii_space x) t"

lemma ref_common_token_ok: "common_token_ok ref_common"
proof -
  have digits: "list_all ascii_digit (nat_text n)" "nat_text n \<noteq> []" for n using nat_text_digits [of n] by simp_all
  have take: "takeWhile ascii_digit (nat_text n @ rest) = nat_text n" "dropWhile ascii_digit (nat_text n @ rest) = rest"
    if "rest = [] \<or> \<not> ascii_digit (hd rest)" for n rest
  proof -
    have "\<forall>x\<in>set (nat_text n). ascii_digit x" using digits by (simp add: list_all_iff)
    moreover have "takeWhile ascii_digit rest = []" "dropWhile ascii_digit rest = rest" using that by (cases rest; simp)+
    ultimately show "takeWhile ascii_digit (nat_text n @ rest) = nat_text n" "dropWhile ascii_digit (nat_text n @ rest) = rest"
      by (simp_all add: takeWhile_append2 dropWhile_append2)
  qed
  have start: "\<not> ascii_space (hd (nat_text n))" for n
    using digits [of n] by (cases "nat_text n") (auto simp: ascii_digit_def ascii_space_def)
  have skip: "dropWhile ascii_space (nat_text n @ rest) = nat_text n @ rest" for n rest
    using digits(2) [of n] start [of n] by (cases "nat_text n") auto
  have "ref_parse_u64 (nat_text (unat v)) 10 = Some v" for v :: u64
    using digits [of "unat v"] unsigned_less [of v, where ?'a = nat] by (simp add: ref_parse_u64_def)
  then show ?thesis
    by (simp add: common_token_ok_def ref_common_def ref_parse_u64_token_def skip take Let_def)
qed

lemma nat_text_graph: "graph_token (nat_text n)"
  using nat_text_digits [of n] by (auto simp: graph_token_def list_all_iff ascii_digit_def ascii_space_def)

lemma int_text_graph: "graph_token (int_text n)"
  using nat_text_graph by (auto simp: int_text_def graph_token_def ascii_space_def)

lemma graph_split:
  assumes "graph_token t" "r = [] \<or> ascii_space (hd r)"
  shows "dropWhile ascii_space (t @ r) = t @ r" "dropWhile (\<lambda>x. \<not> ascii_space x) (t @ r) = r"
proof -
  show "dropWhile ascii_space (t @ r) = t @ r" using assms(1) by (cases t) (auto simp: graph_token_def)
  have "dropWhile (\<lambda>x. \<not> ascii_space x) r = r" using assms(2) by (cases r) auto
  then show "dropWhile (\<lambda>x. \<not> ascii_space x) (t @ r) = r"
    using assms(1) by (simp add: graph_token_def list_all_iff dropWhile_append2)
qed

lemma start_field_space:
  assumes "common_text_ok c"
  shows "start_field c n (CHR '' '' # s) = start_field c n s"
proof -
  have "infiltratr_ascii_is_space c (CHR '' '')" using assms by (simp add: common_text_ok_def ascii_space_def)
  then show ?thesis by (subst (1 2) start_field.simps) simp
qed

lemma start_field_join:
  assumes "common_text_ok c" "common_token_ok c" "list_all graph_token ts"
  shows "start_field c (length ts) (join CHR '' '' (ts @ nat_text (unat v) # rest)) = (if v = 0 then None else Some v)"
  using assms(3)
proof (induction ts)
  case Nil
  obtain r where r: "join CHR '' '' (nat_text (unat v) # rest) = nat_text (unat v) @ r" "r = [] \<or> hd r = CHR '' ''"
    using join_Cons [of rest "CHR '' ''" "nat_text (unat v)"] by (cases "rest = []") auto
  have "r = [] \<or> ascii_space (hd r)" "r = [] \<or> \<not> ascii_digit (hd r)" using r(2) by (auto simp: ascii_space_def ascii_digit_def)
  moreover from this have "infiltratr_parse_u64_token c (nat_text (unat v) @ r) 10 = Some (v, r)"
    using assms(2) unfolding common_token_ok_def by blast
  ultimately show ?case
    using assms(1) graph_split [OF nat_text_graph [of "unat v"]] nat_text_digits [of "unat v"]
    by (simp add: start_field.simps r(1) common_text_ok_def)
next
  case (Cons t ts)
  let ?tail = "join CHR '' '' (ts @ nat_text (unat v) # rest)"
  have line: "join CHR '' '' ((t # ts) @ nat_text (unat v) # rest) = t @ CHR '' '' # ?tail"
    using join_Cons [of "ts @ nat_text (unat v) # rest" "CHR '' ''" t] by simp
  have t: "graph_token t" "t \<noteq> []" using Cons.prems by (simp_all add: graph_token_def)
  have "dropWhile ascii_space (t @ CHR '' '' # ?tail) = t @ CHR '' '' # ?tail"
    "dropWhile (\<lambda>x. \<not> ascii_space x) (t @ CHR '' '' # ?tail) = CHR '' '' # ?tail"
    using graph_split [OF t(1), of "CHR '' '' # ?tail"] by (simp_all add: ascii_space_def)
  then have "start_field c (length (t # ts)) (t @ CHR '' '' # ?tail) = start_field c (length ts) (CHR '' '' # ?tail)"
    using assms(1) t(2) by (subst start_field.simps) (simp add: common_text_ok_def)
  then show ?case unfolding line using start_field_space [OF assms(1)] Cons by simp
qed

lemma printed_start:
  assumes "common_text_ok c" "common_token_ok c" "stat_printed v others rest"
    and "\<not> ascii_space (sv_state v)" "\<forall>i. graph_token (others i)"
  shows "parse_start_ticks c (stat_text pid name (stat_tokens v others @ rest)) = (if sv_start v = 0 then None else Some (sv_start v))"
proof -
  let ?ts = "take 19 (stat_tokens v others)"
  have tokens: "stat_tokens v others = ?ts @ [nat_text (unat (sv_start v))]" "length ?ts = 19" by (simp_all add: stat_tokens_def)
  have graph: "list_all graph_token ?ts"
    using assms(4,5) nat_text_graph int_text_graph by (simp add: stat_tokens_def) (simp add: graph_token_def)
  have "list_all plain_token (stat_tokens v others @ rest)"
    using assms(3) stat_tokens_plain by (simp add: stat_printed_def)
  then have "CHR '')'' \<notin> set (join CHR '' '' (stat_tokens v others @ rest))"
    by (intro notin_join) (auto simp: list_all_iff plain_token_def)
  note split = split_stat_text(2) [OF this, of pid name]
  have read: "parse_start_ticks c (stat_text pid name (stat_tokens v others @ rest)) =
      start_field c 19 (join CHR '' '' (stat_tokens v others @ rest))"
    using split by (simp add: parse_start_ticks_def stat_text_def Let_def)
  have line: "stat_tokens v others @ rest = ?ts @ nat_text (unat (sv_start v)) # rest" using tokens(1) by (metis append.assoc append_Cons append_Nil)
  have "start_field c 19 (join CHR '' '' (stat_tokens v others @ rest)) = (if sv_start v = 0 then None else Some (sv_start v))"
    unfolding line using start_field_join [OF assms(1,2) graph, of "sv_start v" rest] unfolding tokens(2) .
  then show ?thesis by (rule trans [OF read])
qed

text \<open>
  The inspector and the backend agree on who a process is: on every record the kernel prints, whatever
  the program is called, both checks accept exactly the same instance.
\<close>

theorem inspection_identity_agrees:
  assumes "common_stat_ok c" "common_token_ok c" "native_pid process_id = Some pid"
    and "stat_printed v others rest" "\<not> ascii_space (sv_state v)" "\<forall>i. graph_token (others i)"
    and "kn_stat k pid = Some (stat_text n name (stat_tokens v others @ rest))"
    and "process_path fs pid ''stat'' = Some path"
    and "pf_small_file fs path 4096 = Some (stat_text n name (stat_tokens v others @ rest))"
  shows "lsm_process_inspection_identity_matches c fs process_id instance_id =
    lsm_process_identity_matches c stale k process_id instance_id"
proof -
  have ok: "common_text_ok c" "common_arith_ok c" "common_decimal_ok c" "common_signed_range_ok c"
    using assms(1) by (simp_all add: common_stat_ok_def)
  have "read_process_stat c stale (kn_stat k pid) = Some (stat_of name v)"
    unfolding assms(7) by (rule read_printed_stat [OF ok assms(4)])
  then have backend: "lsm_process_identity_matches c stale k process_id instance_id \<longleftrightarrow> instance_id \<noteq> 0 \<and> sv_start v = instance_id"
    using assms(3) by (auto simp: lsm_process_identity_matches_def process_identity_pid_def stat_of_def)
  have "parse_start_ticks c (stat_text n name (stat_tokens v others @ rest)) = (if sv_start v = 0 then None else Some (sv_start v))"
    by (rule printed_start [OF ok(1) assms(2,4-6)])
  then show ?thesis unfolding backend
    using assms(3,8,9) by (auto simp: lsm_process_inspection_identity_matches_def)
qed

subsection \<open>The search for the users of a file\<close>

lemma collected_users:
  "collect_users c fs requested names = Inr items \<longleftrightarrow>
     (\<forall>name\<in>set names. \<exists>found. user_entry c fs requested name = Inr found) \<and>
     items = concat (map (\<lambda>name. case user_entry c fs requested name of Inl _ \<Rightarrow> [] | Inr found \<Rightarrow> found) names)"
proof (induction names arbitrary: items)
  case (Cons name names)
  show ?case
  proof (cases "user_entry c fs requested name")
    case (Inr found)
    show ?thesis
    proof (cases "collect_users c fs requested names")
      case (Inl e)
      then have "\<not> (\<forall>name\<in>set names. \<exists>found. user_entry c fs requested name = Inr found)"
        using Cons.IH by fastforce
      then show ?thesis using Inl by (auto split: sum.split)
    next
      case (Inr others)
      then have "\<forall>name\<in>set names. \<exists>found. user_entry c fs requested name = Inr found"
        "others = concat (map (\<lambda>name. case user_entry c fs requested name of Inl _ \<Rightarrow> [] | Inr found \<Rightarrow> found) names)"
        using Cons.IH by simp_all
      then show ?thesis using Inr \<open>user_entry c fs requested name = Inr found\<close> by auto
    qed
  qed simp
qed auto

definition user_key :: "file_user_info \<Rightarrow> int \<times> int" where
  "user_key item = (fu_pid item, fu_descriptor item)"

lemma users_sorted:
  "sorted (map user_key (if 1 < length items then qsort compare_file_user items else items))"
  "set (if 1 < length items then qsort compare_file_user items else items) = set items"
proof -
  have "compare_file_user a b \<le> 0 \<longleftrightarrow> user_key a \<le> user_key b" for a b
    by (auto simp: compare_file_user_def user_key_def less_eq_prod_def)
  then have "qsort compare_file_user items = sort_key user_key items" by (rule qsort_sort_key)
  moreover have "sorted (map user_key items)" if "\<not> 1 < length items"
    using that by (cases items) auto
  ultimately show "sorted (map user_key (if 1 < length items then qsort compare_file_user items else items))" by simp
  show "set (if 1 < length items then qsort compare_file_user items else items) = set items" by (simp add: set_qsort)
qed

text \<open>
  A search that succeeds lists, by process and descriptor, exactly the descriptors of the requested
  file among the processes whose descriptors could be read; it fails rather than being cut short when
  a directory breaks off or resources ran out at a process.
\<close>

theorem file_users_exact:
  assumes "lsm_process_inspection_find_file_users_checked c fs stat_failure path = Inr items"
  shows "\<exists>requested names. pf_identity fs path = Some requested \<and> pf_directory fs (pf_root fs) = Inr (names, None) \<and>
    sorted (map user_key items) \<and>
    (\<forall>name\<in>set names. \<forall>w. infiltratr_parse_u64_range c name 10 1 (word_of_int INT_MAX) = Some w \<longrightarrow>
       lsm_process_inspection_open_files_checked c fs w \<notin> {Inl E_NOMEM, Inl E_IO, Inl E_OVERFLOW}) \<and>
    (\<forall>pid descriptor. (pid, descriptor) \<in> user_key ` set items \<longleftrightarrow>
       (\<exists>name\<in>set names. \<exists>w files. infiltratr_parse_u64_range c name 10 1 (word_of_int INT_MAX) = Some w \<and> uint w = pid \<and>
          lsm_process_inspection_open_files_checked c fs w = Inr files \<and>
          (\<exists>f\<in>set files. of_descriptor f = descriptor \<and> refers_to fs requested pid f)))"
proof -
  obtain requested names found where search: "pf_identity fs path = Some requested" "pf_directory fs (pf_root fs) = Inr (names, None)"
    "collect_users c fs requested names = Inr found"
    "items = (if 1 < length found then qsort compare_file_user found else found)"
    using assms by (auto simp: lsm_process_inspection_find_file_users_checked_def split: if_split_asm option.splits sum.splits prod.splits)
  have all: "\<exists>found. user_entry c fs requested name = Inr found" if "name \<in> set names" for name
    using search(3) that by (simp add: collected_users)
  have resources: "lsm_process_inspection_open_files_checked c fs w \<notin> {Inl E_NOMEM, Inl E_IO, Inl E_OVERFLOW}"
    if "name \<in> set names" "infiltratr_parse_u64_range c name 10 1 (word_of_int INT_MAX) = Some w" for name w
    using all [OF that(1)] that(2) by (auto simp: user_entry_def)
  have entry: "(pid, descriptor) \<in> user_key ` set (case user_entry c fs requested name of Inl _ \<Rightarrow> [] | Inr found \<Rightarrow> found) \<longleftrightarrow>
      (\<exists>w files. infiltratr_parse_u64_range c name 10 1 (word_of_int INT_MAX) = Some w \<and> uint w = pid \<and>
          lsm_process_inspection_open_files_checked c fs w = Inr files \<and>
          (\<exists>f\<in>set files. of_descriptor f = descriptor \<and> refers_to fs requested pid f))" for name pid descriptor
    by (auto simp: user_entry_def users_of_process_def user_key_def image_iff split: option.split sum.split)
  have "set items = (\<Union>name\<in>set names. set (case user_entry c fs requested name of Inl _ \<Rightarrow> [] | Inr found \<Rightarrow> found))"
    using search(3) unfolding search(4) users_sorted(2) by (auto simp: collected_users)
  then have "(pid, descriptor) \<in> user_key ` set items \<longleftrightarrow> (\<exists>name\<in>set names. (pid, descriptor) \<in>
      user_key ` set (case user_entry c fs requested name of Inl _ \<Rightarrow> [] | Inr found \<Rightarrow> found))" for pid descriptor
    by blast
  then show ?thesis
    using search(1,2) users_sorted(1) [of found] resources unfolding entry search(4) [symmetric] by blast
qed

end
