(* ===== verification/Efficiency_Mode.thy ===== *)
theory Efficiency_Mode
  imports Process_Control
begin

text \<open>
  Efficiency mode and CPU affinity (\<^verbatim>\<open>src/process_backend_linux.c\<close>): the table of 1024 slots that
  remembers the priorities of the processes put into efficiency mode, and the calls that enter and
  leave it. The table refines a finite map from process identity to what was captured. Leaving the
  mode is proved to give back the priorities of the moment it was entered, whatever happened in
  between; two shortcomings (slots of processes that ended stay taken, an I/O priority changed by a
  second call is not given back) are stated as lemmas.
\<close>

subsection \<open>The table of captured priorities\<close>

definition LSM_EFFICIENCY_RESTORE_CAPACITY :: nat where
  "LSM_EFFICIENCY_RESTORE_CAPACITY = 1024"

record efficiency_restore_state =
  es_pid :: int
  es_instance_id :: u64
  es_original_nice :: int
  es_original_ioprio :: int
  es_restore_ioprio :: bool

text \<open>A slot that is not \<^verbatim>\<open>captured\<close> is zeroed: \<open>None\<close>.\<close>

type_synonym restore_table = "efficiency_restore_state option list"

fun owned_by :: "int \<Rightarrow> u64 \<Rightarrow> efficiency_restore_state option \<Rightarrow> bool" where
  "owned_by pid instance_id None = False"
| "owned_by pid instance_id (Some state) = (es_pid state = pid \<and> es_instance_id state = instance_id)"

fun first_index :: "('a \<Rightarrow> bool) \<Rightarrow> 'a list \<Rightarrow> nat option" where
  "first_index P [] = None"
| "first_index P (x # xs) = (if P x then Some 0 else map_option Suc (first_index P xs))"

definition efficiency_restore_find :: "restore_table \<Rightarrow> int \<Rightarrow> u64 \<Rightarrow> nat option" where
  "efficiency_restore_find states pid instance_id = first_index (owned_by pid instance_id) states"

definition efficiency_restore_reserve :: "restore_table \<Rightarrow> int \<Rightarrow> u64 \<Rightarrow> (nat \<times> restore_table) option" where
  "efficiency_restore_reserve states pid instance_id =
     (case efficiency_restore_find states pid instance_id of
        Some index \<Rightarrow> Some (index, states)
      | None \<Rightarrow> map_option (\<lambda>index. (index, states[index := Some \<lparr>es_pid = pid, es_instance_id = instance_id,
            es_original_nice = 0, es_original_ioprio = 0, es_restore_ioprio = False\<rparr>]))
          (first_index (\<lambda>slot. slot = None) states))"

definition efficiency_restore_remove :: "restore_table \<Rightarrow> int \<Rightarrow> u64 \<Rightarrow> restore_table" where
  "efficiency_restore_remove states pid instance_id =
     (case efficiency_restore_find states pid instance_id of None \<Rightarrow> states | Some index \<Rightarrow> states[index := None])"

text \<open>
  The two other sections under the lock: capturing the priorities (with whether they were captured
  before; \<open>None\<close> when the table is full) and noting that the I/O priority was changed.
\<close>

definition efficiency_capture :: "restore_table \<Rightarrow> int \<Rightarrow> u64 \<Rightarrow> int \<Rightarrow> int \<Rightarrow> (bool \<times> restore_table) option" where
  "efficiency_capture states pid instance_id nice ioprio =
     (case efficiency_restore_find states pid instance_id of
        Some _ \<Rightarrow> Some (True, states)
      | None \<Rightarrow> map_option (\<lambda>(index, states). (False, states[index := map_option (\<lambda>state. state\<lparr>es_original_nice := nice,
            es_original_ioprio := ioprio, es_restore_ioprio := False\<rparr>) (states ! index)]))
          (efficiency_restore_reserve states pid instance_id))"

definition efficiency_mark_ioprio :: "restore_table \<Rightarrow> int \<Rightarrow> u64 \<Rightarrow> restore_table" where
  "efficiency_mark_ioprio states pid instance_id =
     (case efficiency_restore_find states pid instance_id of
        None \<Rightarrow> states
      | Some index \<Rightarrow> states[index := map_option (\<lambda>state. state\<lparr>es_restore_ioprio := True\<rparr>) (states ! index)])"

subsection \<open>Entering and leaving the mode\<close>

text \<open>
  The priorities the kernel holds per process, beside the table. The outcome of each system call
  (\<open>None\<close> for success) is a parameter; a failed call changes nothing.
\<close>

record efficiency =
  ee_states :: restore_table
  ee_nice :: "int \<Rightarrow> int"
  ee_ioprio :: "int \<Rightarrow> int"

record priority_outcomes =
  po_getpriority :: "errno option"
  po_ioprio_get :: "errno option"
  po_ioprio_set :: "errno option"
  po_setpriority :: "errno option"
  po_ioprio_back :: "errno option"

definition LSM_IOPRIO_VALUE :: "int \<Rightarrow> int \<Rightarrow> int" where
  "LSM_IOPRIO_VALUE class_id data = class_id * 2 ^ 13 + data"

definition idle_ioprio :: int where
  "idle_ioprio = LSM_IOPRIO_VALUE 3 0"

definition ioprio_set :: "errno option \<Rightarrow> int \<Rightarrow> int \<Rightarrow> efficiency \<Rightarrow> efficiency" where
  "ioprio_set failure pid ioprio e = (if failure = None then e\<lparr>ee_ioprio := (ee_ioprio e)(pid := ioprio)\<rparr> else e)"

definition setpriority :: "errno option \<Rightarrow> int \<Rightarrow> int \<Rightarrow> efficiency \<Rightarrow> efficiency" where
  "setpriority failure pid nice e = (if failure = None then e\<lparr>ee_nice := (ee_nice e)(pid := nice)\<rparr> else e)"

definition efficiency_enable :: "priority_outcomes \<Rightarrow> int \<Rightarrow> u64 \<Rightarrow> efficiency \<Rightarrow> errno option \<times> efficiency" where
  "efficiency_enable po pid instance_id e =
     (case po_getpriority po of
        Some failure \<Rightarrow> (Some failure, e)
      | None \<Rightarrow>
          let have_ioprio = (po_ioprio_get po = None);
              ioprio = (if have_ioprio then ee_ioprio e pid else 0)
          in case efficiency_capture (ee_states e) pid instance_id (ee_nice e pid) ioprio of
               None \<Rightarrow> (Some E_NOSPC, e)
             | Some (already_captured, states) \<Rightarrow>
                 let e = e\<lparr>ee_states := states\<rparr>;
                     io_changed = (have_ioprio \<and> po_ioprio_set po = None);
                     e = (if have_ioprio then ioprio_set (po_ioprio_set po) pid idle_ioprio e else e);
                     e = (if io_changed \<and> \<not> already_captured
                          then e\<lparr>ee_states := efficiency_mark_ioprio (ee_states e) pid instance_id\<rparr> else e)
                 in case po_setpriority po of
                      None \<Rightarrow> (None, setpriority None pid 10 e)
                    | Some failure \<Rightarrow>
                        let e = (if io_changed then ioprio_set (po_ioprio_back po) pid ioprio e else e);
                            e = (if already_captured then e
                                 else e\<lparr>ee_states := efficiency_restore_remove (ee_states e) pid instance_id\<rparr>)
                        in (Some failure, e))"

definition efficiency_disable :: "priority_outcomes \<Rightarrow> int \<Rightarrow> u64 \<Rightarrow> efficiency \<Rightarrow> errno option \<times> efficiency" where
  "efficiency_disable po pid instance_id e =
     (let fallback = \<lparr>es_pid = pid, es_instance_id = instance_id, es_original_nice = 0,
            es_original_ioprio = LSM_IOPRIO_VALUE 2 4, es_restore_ioprio = True\<rparr>;
          saved = (case efficiency_restore_find (ee_states e) pid instance_id of
              None \<Rightarrow> fallback
            | Some index \<Rightarrow> (case ee_states e ! index of None \<Rightarrow> fallback | Some state \<Rightarrow> state))
      in if es_restore_ioprio saved \<and> po_ioprio_set po \<noteq> None then (po_ioprio_set po, e)
         else
           let e = (if es_restore_ioprio saved then ioprio_set None pid (es_original_ioprio saved) e else e)
           in if po_setpriority po \<noteq> None then (po_setpriority po, e)
              else let e = setpriority None pid (es_original_nice saved) e
                in (None, e\<lparr>ee_states := efficiency_restore_remove (ee_states e) pid instance_id\<rparr>))"

definition lsm_process_set_efficiency ::
    "common \<Rightarrow> string \<Rightarrow> kernel \<Rightarrow> priority_outcomes \<Rightarrow> u64 \<Rightarrow> u64 \<Rightarrow> bool \<Rightarrow> efficiency \<Rightarrow> errno option \<times> efficiency" where
  "lsm_process_set_efficiency c stale k po process_id instance_id enabled e =
     (case process_identity_pid c stale k process_id instance_id of
        Inl failure \<Rightarrow> (Some failure, e)
      | Inr pid \<Rightarrow>
          if pid \<le> 1 then (Some E_INVAL, e)
          else if enabled then efficiency_enable po pid instance_id e
          else efficiency_disable po pid instance_id e)"

subsection \<open>Affinity\<close>

definition CPU_SETSIZE :: nat where
  "CPU_SETSIZE = 1024"

text \<open>The flags handed out, for the set \<open>cpus\<close> that \<^verbatim>\<open>sched_getaffinity\<close> reports (or its failure).\<close>

definition lsm_process_affinity_get ::
    "common \<Rightarrow> string \<Rightarrow> kernel \<Rightarrow> errno + nat set \<Rightarrow> int \<Rightarrow> u64 \<Rightarrow> u64 \<Rightarrow> nat \<Rightarrow> errno + bool list" where
  "lsm_process_affinity_get c stale k affinity configured process_id instance_id capacity =
     (if capacity = 0 then Inl E_INVAL
      else case process_identity_pid c stale k process_id instance_id of
          Inl failure \<Rightarrow> Inl failure
        | Inr pid \<Rightarrow> (case affinity of
              Inl failure \<Rightarrow> Inl failure
            | Inr cpus \<Rightarrow>
                let count = (if 0 < configured then nat configured else capacity);
                    count = min count capacity;
                    count = min count CPU_SETSIZE
                in Inr (map (\<lambda>i. i \<in> cpus) [0..<count])))"

text \<open>The process and the set handed to \<^verbatim>\<open>sched_setaffinity\<close>, or the error before it.\<close>

definition lsm_process_affinity_set ::
    "common \<Rightarrow> string \<Rightarrow> kernel \<Rightarrow> u64 \<Rightarrow> u64 \<Rightarrow> bool list \<Rightarrow> errno + (int \<times> nat set)" where
  "lsm_process_affinity_set c stale k process_id instance_id enabled =
     (if enabled = [] \<or> CPU_SETSIZE < length enabled then Inl E_INVAL
      else case process_identity_pid c stale k process_id instance_id of
          Inl failure \<Rightarrow> Inl failure
        | Inr pid \<Rightarrow>
            if pid \<le> 1 then Inl E_INVAL
            else let cpus = set (filter (\<lambda>i. enabled ! i) [0..<length enabled])
              in if cpus = {} then Inl E_INVAL else Inr (pid, cpus))"

subsection \<open>The table as a map\<close>

definition captured :: "restore_table \<Rightarrow> int \<times> u64 \<Rightarrow> efficiency_restore_state option" where
  "captured states = (\<lambda>(pid, instance_id).
     Option.bind (efficiency_restore_find states pid instance_id) (\<lambda>index. states ! index))"

definition restore_ok :: "restore_table \<Rightarrow> bool" where
  "restore_ok states \<longleftrightarrow> length states = LSM_EFFICIENCY_RESTORE_CAPACITY \<and>
     (\<forall>pid instance_id. \<forall>i<length states. \<forall>j<length states.
        owned_by pid instance_id (states ! i) \<longrightarrow> owned_by pid instance_id (states ! j) \<longrightarrow> i = j)"

lemma first_index_Some:
  "first_index P xs = Some i \<longleftrightarrow> i < length xs \<and> P (xs ! i) \<and> (\<forall>j<i. \<not> P (xs ! j))"
proof (induction xs arbitrary: i)
  case (Cons x xs)
  then show ?case by (cases i) (auto simp: less_Suc_eq_0_disj nth_Cons')
qed simp

lemma first_index_None: "first_index P xs = None \<longleftrightarrow> (\<forall>x\<in>set xs. \<not> P x)"
  by (induction xs) auto

lemma captured_unique:
  assumes "restore_ok states" "i < length states" "owned_by pid instance_id (states ! i)"
  shows "efficiency_restore_find states pid instance_id = Some i" "captured states (pid, instance_id) = states ! i"
proof -
  show find: "efficiency_restore_find states pid instance_id = Some i"
    using assms unfolding efficiency_restore_find_def first_index_Some restore_ok_def
    by (metis order.strict_trans less_irrefl_nat)
  show "captured states (pid, instance_id) = states ! i" by (simp add: captured_def find)
qed

lemma captured_None:
  "captured states (pid, instance_id) = None \<longleftrightarrow> efficiency_restore_find states pid instance_id = None"
  "captured states (pid, instance_id) = None \<longleftrightarrow> (\<forall>i<length states. \<not> owned_by pid instance_id (states ! i))"
proof -
  have "states ! i \<noteq> None" if "efficiency_restore_find states pid instance_id = Some i" for i
    using that by (cases "states ! i") (auto simp: efficiency_restore_find_def first_index_Some)
  then show none: "captured states (pid, instance_id) = None \<longleftrightarrow> efficiency_restore_find states pid instance_id = None"
    by (cases "efficiency_restore_find states pid instance_id") (auto simp: captured_def)
  show "captured states (pid, instance_id) = None \<longleftrightarrow> (\<forall>i<length states. \<not> owned_by pid instance_id (states ! i))"
    unfolding none efficiency_restore_find_def first_index_None by (rule all_set_conv_all_nth)
qed

text \<open>The one fact behind every operation of the table: a slot of the process is rewritten.\<close>

lemma captured_update:
  assumes ok: "restore_ok states" and i: "i < length states"
    and old: "owned_by pid instance_id (states ! i) \<or> states ! i = None \<and> captured states (pid, instance_id) = None"
    and new: "slot = None \<or> owned_by pid instance_id slot"
  shows "restore_ok (states[i := slot])" "captured (states[i := slot]) = (captured states)((pid, instance_id) := slot)"
proof -
  let ?states = "states[i := slot]"
  have others: "j = i" if "owned_by pid instance_id (states ! j)" "j < length states" for j
    using that old ok i captured_None(2) [of states pid instance_id] unfolding restore_ok_def by blast
  have foreign: "\<not> owned_by p q (states ! i)" "\<not> owned_by p q slot" if "(p, q) \<noteq> (pid, instance_id)" for p q
    using that old new by (cases "states ! i"; cases slot; auto)+
  have owner: "if (p, q) = (pid, instance_id) then j = i else j \<noteq> i \<and> owned_by p q (states ! j)"
    if "owned_by p q (?states ! j)" "j < length states" for p q j
    using that others foreign(2) [of p q] by (cases "j = i") auto
  show fresh: "restore_ok ?states"
    unfolding restore_ok_def
  proof (intro conjI allI impI)
    show "length ?states = LSM_EFFICIENCY_RESTORE_CAPACITY" using ok by (simp add: restore_ok_def)
    fix p q j k
    assume "j < length ?states" "k < length ?states" "owned_by p q (?states ! j)" "owned_by p q (?states ! k)"
    then show "j = k"
      using owner [of p q j] owner [of p q k] ok unfolding restore_ok_def by (auto split: if_splits)
  qed
  show "captured ?states = (captured states)((pid, instance_id) := slot)"
  proof (rule ext)
    fix key :: "int \<times> u64"
    obtain p q where key: "key = (p, q)" by (cases key)
    show "captured ?states key = ((captured states)((pid, instance_id) := slot)) key"
    proof (cases "key = (pid, instance_id)")
      case True
      show ?thesis
      proof (cases slot)
        case None
        then have "\<not> owned_by pid instance_id (?states ! j)" if "j < length ?states" for j
          using others [of j] that by (cases "j = i") auto
        then show ?thesis using True None captured_None(2) [of ?states pid instance_id] by simp
      next
        case (Some state)
        then show ?thesis using True new i captured_unique(2) [OF fresh, of i pid instance_id] by simp
      qed
    next
      case False
      then have "(owned_by p q (?states ! j)) = owned_by p q (states ! j)" if "j < length states" for j
        using foreign [of p q] key that by (cases "j = i") auto
      then have same: "first_index (owned_by p q) ?states = Some j \<longleftrightarrow> first_index (owned_by p q) states = Some j" for j
        unfolding first_index_Some by auto
      then have "efficiency_restore_find ?states p q = efficiency_restore_find states p q"
        unfolding efficiency_restore_find_def by (metis option.exhaust)
      moreover have "?states ! j = states ! j" if "efficiency_restore_find states p q = Some j" for j
        using that foreign(1) [of p q] False key
        by (cases "j = i") (auto simp: efficiency_restore_find_def first_index_Some)
      ultimately show ?thesis
        using False key by (cases "efficiency_restore_find states p q") (auto simp: captured_def)
    qed
  qed
qed

lemma captured_owner:
  "restore_ok states \<Longrightarrow> captured states (pid, instance_id) = Some state \<Longrightarrow>
     es_pid state = pid \<and> es_instance_id state = instance_id"
  by (auto simp: captured_def bind_eq_Some_conv efficiency_restore_find_def first_index_Some)

lemma find_captured:
  "efficiency_restore_find states pid instance_id = Some i \<Longrightarrow>
     i < length states \<and> owned_by pid instance_id (states ! i) \<and> captured states (pid, instance_id) = states ! i"
  by (simp add: captured_def) (simp add: efficiency_restore_find_def first_index_Some)

lemma captured_remove:
  assumes "restore_ok states"
  shows "restore_ok (efficiency_restore_remove states pid instance_id)"
    "captured (efficiency_restore_remove states pid instance_id) = (captured states)((pid, instance_id) := None)"
proof -
  have "restore_ok (efficiency_restore_remove states pid instance_id) \<and>
    captured (efficiency_restore_remove states pid instance_id) = (captured states)((pid, instance_id) := None)"
  proof (cases "efficiency_restore_find states pid instance_id")
    case None
    then show ?thesis using assms captured_None(1) [of states pid instance_id]
      by (simp add: efficiency_restore_remove_def fun_upd_idem)
  next
    case (Some i)
    then show ?thesis using captured_update [OF assms, of i pid instance_id None] find_captured [OF Some]
      by (simp add: efficiency_restore_remove_def)
  qed
  then show "restore_ok (efficiency_restore_remove states pid instance_id)"
    "captured (efficiency_restore_remove states pid instance_id) = (captured states)((pid, instance_id) := None)" by simp_all
qed

lemma captured_mark:
  assumes "restore_ok states"
  shows "restore_ok (efficiency_mark_ioprio states pid instance_id)"
    "captured (efficiency_mark_ioprio states pid instance_id) = (captured states)((pid, instance_id) :=
       map_option (\<lambda>state. state\<lparr>es_restore_ioprio := True\<rparr>) (captured states (pid, instance_id)))"
proof -
  have "restore_ok (efficiency_mark_ioprio states pid instance_id) \<and>
    captured (efficiency_mark_ioprio states pid instance_id) = (captured states)((pid, instance_id) :=
       map_option (\<lambda>state. state\<lparr>es_restore_ioprio := True\<rparr>) (captured states (pid, instance_id)))"
  proof (cases "efficiency_restore_find states pid instance_id")
    case None
    then show ?thesis using assms captured_None(1) [of states pid instance_id]
      by (simp add: efficiency_mark_ioprio_def fun_upd_idem)
  next
    case (Some i)
    note find = find_captured [OF Some]
    have "owned_by pid instance_id (map_option (\<lambda>state. state\<lparr>es_restore_ioprio := True\<rparr>) (states ! i))"
      using find by (cases "states ! i") auto
    then show ?thesis using captured_update [OF assms, of i pid instance_id] find Some
      by (simp add: efficiency_mark_ioprio_def)
  qed
  then show "restore_ok (efficiency_mark_ioprio states pid instance_id)"
    "captured (efficiency_mark_ioprio states pid instance_id) = (captured states)((pid, instance_id) :=
       map_option (\<lambda>state. state\<lparr>es_restore_ioprio := True\<rparr>) (captured states (pid, instance_id)))" by simp_all
qed

lemma captured_reserve:
  assumes "restore_ok states" "captured states (pid, instance_id) = None"
  shows "efficiency_capture states pid instance_id nice ioprio = None \<longleftrightarrow> None \<notin> set states"
    "efficiency_capture states pid instance_id nice ioprio = Some (already, states') \<Longrightarrow>
       \<not> already \<and> restore_ok states' \<and> captured states' = (captured states)((pid, instance_id) \<mapsto>
         \<lparr>es_pid = pid, es_instance_id = instance_id, es_original_nice = nice, es_original_ioprio = ioprio,
           es_restore_ioprio = False\<rparr>)"
proof -
  let ?free = "first_index (\<lambda>slot. slot = None) states"
  let ?slot = "\<lparr>es_pid = pid, es_instance_id = instance_id, es_original_nice = nice, es_original_ioprio = ioprio,
    es_restore_ioprio = False\<rparr>"
  have find: "efficiency_restore_find states pid instance_id = None" using assms(2) captured_None(1) by simp
  have free: "i < length states \<and> states ! i = None" if "?free = Some i" for i
    using that unfolding first_index_Some by blast
  have capture: "efficiency_capture states pid instance_id nice ioprio = map_option (\<lambda>i. (False, states[i := Some ?slot])) ?free"
    using free by (cases ?free) (auto simp: efficiency_capture_def efficiency_restore_reserve_def find)
  show "efficiency_capture states pid instance_id nice ioprio = None \<longleftrightarrow> None \<notin> set states"
    unfolding capture option.map_disc_iff first_index_None by metis
  assume "efficiency_capture states pid instance_id nice ioprio = Some (already, states')"
  then obtain i where i: "?free = Some i" "\<not> already" "states' = states[i := Some ?slot]" unfolding capture by auto
  then show "\<not> already \<and> restore_ok states' \<and> captured states' = (captured states)((pid, instance_id) \<mapsto> ?slot)"
    using captured_update [OF assms(1), of i pid instance_id "Some ?slot"] free assms(2) by simp
qed

lemma captured_again:
  "captured states (pid, instance_id) = Some state \<Longrightarrow>
     efficiency_capture states pid instance_id nice ioprio = Some (True, states)"
  using captured_None(1) [of states pid instance_id] by (auto simp: efficiency_capture_def)

lemmas priority_calls = ioprio_set_def setpriority_def Let_def

subsection \<open>The calls\<close>

text \<open>What entering the mode does, for a process that is in it already and for one that is not.\<close>

lemma enable_again:
  assumes "captured (ee_states e) (pid, instance_id) = Some state"
  shows "ee_states (snd (efficiency_enable po pid instance_id e)) = ee_states e"
  using captured_again [OF assms] by (auto simp: efficiency_enable_def priority_calls split: option.split)

lemma enable_first:
  assumes ok: "restore_ok (ee_states e)" and new: "captured (ee_states e) (pid, instance_id) = None"
  shows "restore_ok (ee_states (snd (efficiency_enable po pid instance_id e)))"
    "fst (efficiency_enable po pid instance_id e) \<noteq> None \<Longrightarrow>
       captured (ee_states (snd (efficiency_enable po pid instance_id e))) = captured (ee_states e)"
    "fst (efficiency_enable po pid instance_id e) = None \<Longrightarrow>
       captured (ee_states (snd (efficiency_enable po pid instance_id e))) = (captured (ee_states e))((pid, instance_id) \<mapsto>
         \<lparr>es_pid = pid, es_instance_id = instance_id, es_original_nice = ee_nice e pid,
           es_original_ioprio = (if po_ioprio_get po = None then ee_ioprio e pid else 0),
           es_restore_ioprio = (po_ioprio_get po = None \<and> po_ioprio_set po = None)\<rparr>)"
proof -
  let ?result = "efficiency_enable po pid instance_id e"
  let ?ioprio = "if po_ioprio_get po = None then ee_ioprio e pid else 0"
  let ?changed = "po_ioprio_get po = None \<and> po_ioprio_set po = None"
  let ?slot = "\<lparr>es_pid = pid, es_instance_id = instance_id, es_original_nice = ee_nice e pid,
     es_original_ioprio = ?ioprio, es_restore_ioprio = ?changed\<rparr>"
  have "restore_ok (ee_states (snd ?result)) \<and>
      captured (ee_states (snd ?result)) = (if fst ?result = None then (captured (ee_states e))((pid, instance_id) \<mapsto> ?slot)
        else captured (ee_states e))"
  proof (cases "efficiency_capture (ee_states e) pid instance_id (ee_nice e pid) ?ioprio")
    case None
    then have "\<exists>failure. ?result = (Some failure, e)"
      by (cases "po_getpriority po"; cases "po_ioprio_get po") (simp_all add: efficiency_enable_def Let_def)
    then show ?thesis using ok by auto
  next
    case (Some taken)
    obtain already states where taken: "taken = (already, states)" by (cases taken)
    note first = captured_reserve(2) [OF ok new Some [unfolded taken]]
    let ?marked = "if ?changed then efficiency_mark_ioprio states pid instance_id else states"
    have marked: "restore_ok ?marked" "captured ?marked = (captured (ee_states e))((pid, instance_id) \<mapsto> ?slot)"
      using first captured_mark [of states pid instance_id] by auto
    have removed: "restore_ok (efficiency_restore_remove ?marked pid instance_id)"
      "captured (efficiency_restore_remove ?marked pid instance_id) = captured (ee_states e)"
      using captured_remove [OF marked(1), of pid instance_id] marked(2) new by auto
    show ?thesis
    proof (cases "po_getpriority po")
      case (Some failure)
      then show ?thesis using ok by (simp add: efficiency_enable_def)
    next
      case None
      have states: "ee_states (snd ?result) = (if po_setpriority po = None then ?marked
          else efficiency_restore_remove ?marked pid instance_id)" "fst ?result = po_setpriority po"
        using None Some taken first
        by (cases "po_ioprio_get po"; cases "po_ioprio_set po"; cases "po_setpriority po";
            simp add: efficiency_enable_def priority_calls)+
      show ?thesis unfolding states using marked removed by simp
    qed
  qed
  then show "restore_ok (ee_states (snd ?result))"
    "fst ?result \<noteq> None \<Longrightarrow> captured (ee_states (snd ?result)) = captured (ee_states e)"
    "fst ?result = None \<Longrightarrow> captured (ee_states (snd ?result)) = (captured (ee_states e))((pid, instance_id) \<mapsto> ?slot)"
    by (auto simp only: if_True if_False refl)
qed

text \<open>Leaving it: what was captured (or the defaults) is set, and the slot is given up on success only.\<close>

lemma disable_sets:
  assumes ok: "restore_ok (ee_states e)" and saved: "captured (ee_states e) (pid, instance_id) = Some state"
    and success: "efficiency_disable po pid instance_id e = (None, e')"
  shows "ee_nice e' = (ee_nice e)(pid := es_original_nice state)"
    "ee_ioprio e' = (if es_restore_ioprio state then (ee_ioprio e)(pid := es_original_ioprio state) else ee_ioprio e)"
    "captured (ee_states e') = (captured (ee_states e))((pid, instance_id) := None)"
proof -
  obtain i where "efficiency_restore_find (ee_states e) pid instance_id = Some i" "ee_states e ! i = Some state"
    using saved by (auto simp: captured_def bind_eq_Some_conv)
  then show "ee_nice e' = (ee_nice e)(pid := es_original_nice state)"
    "ee_ioprio e' = (if es_restore_ioprio state then (ee_ioprio e)(pid := es_original_ioprio state) else ee_ioprio e)"
    "captured (ee_states e') = (captured (ee_states e))((pid, instance_id) := None)"
    using success captured_remove(2) [OF ok, of pid instance_id]
    by (auto simp: efficiency_disable_def priority_calls split: if_splits)
qed

lemma disable_states:
  "ee_states (snd (efficiency_disable po pid instance_id e)) =
     (if fst (efficiency_disable po pid instance_id e) = None then efficiency_restore_remove (ee_states e) pid instance_id
      else ee_states e)"
  by (cases "po_ioprio_set po"; cases "po_setpriority po") (simp_all add: efficiency_disable_def priority_calls)

text \<open>A call on another process, or one that does not leave the mode, keeps what was captured.\<close>

lemma enable_captured:
  assumes "restore_ok (ee_states e)" "captured (ee_states e) key = Some state"
  shows "restore_ok (ee_states (snd (efficiency_enable po pid instance_id e)))"
    "captured (ee_states (snd (efficiency_enable po pid instance_id e))) key = Some state"
proof -
  have "restore_ok (ee_states (snd (efficiency_enable po pid instance_id e))) \<and>
      captured (ee_states (snd (efficiency_enable po pid instance_id e))) key = Some state"
  proof (cases "captured (ee_states e) (pid, instance_id)")
    case None
    note first = enable_first [OF assms(1) None, of po]
    show ?thesis using first assms(2) None
      by (cases "fst (efficiency_enable po pid instance_id e) = None") auto
  next
    case (Some other)
    show ?thesis unfolding enable_again [OF Some] using assms by simp
  qed
  then show "restore_ok (ee_states (snd (efficiency_enable po pid instance_id e)))"
    "captured (ee_states (snd (efficiency_enable po pid instance_id e))) key = Some state" by simp_all
qed

lemma identity_pid_native: "process_identity_pid c stale k process_id instance_id = Inr pid \<Longrightarrow> native_pid process_id = Some pid"
  by (auto simp: process_identity_pid_def split: option.splits if_splits)

lemma call_keeps_captured:
  assumes "restore_ok (ee_states e)" "captured (ee_states e) (pid, instance_id) = Some state"
    and "native_pid process_id = Some pid"
    and "lsm_process_set_efficiency c stale k po process_id' instance_id' enabled e = (failure, e')"
    and "\<not> (process_id' = process_id \<and> instance_id' = instance_id \<and> \<not> enabled \<and> failure = None)"
  shows "restore_ok (ee_states e') \<and> captured (ee_states e') (pid, instance_id) = Some state"
proof (cases "process_identity_pid c stale k process_id' instance_id'")
  case (Inr pid')
  note native = identity_pid_native [OF Inr]
  have other: "pid' \<noteq> pid \<or> instance_id' \<noteq> instance_id" if "\<not> enabled" "failure = None"
  proof (rule disjCI)
    have "process_id' = process_id" if "pid' = pid"
      using that native assms(3) by (auto simp: native_pid_def word_uint_eq_iff split: if_splits)
    then show "pid' \<noteq> pid" if "\<not> instance_id' \<noteq> instance_id" using that assms(5) \<open>\<not> enabled\<close> \<open>failure = None\<close> by blast
  qed
  show ?thesis
  proof (cases enabled)
    case True
    then show ?thesis using assms(4) enable_captured [OF assms(1,2), of po pid' instance_id'] assms(1,2) Inr
      by (auto simp: lsm_process_set_efficiency_def split: if_splits)
  next
    case False
    show ?thesis
    proof (cases "pid' \<le> 1")
      case True
      then show ?thesis using assms(1,2,4) Inr by (simp add: lsm_process_set_efficiency_def)
    next
      case live: False
      then have call: "efficiency_disable po pid' instance_id' e = (failure, e')"
        using False assms(4) Inr by (simp add: lsm_process_set_efficiency_def)
      show ?thesis using disable_states [of po pid' instance_id' e] captured_remove [OF assms(1)] assms(1,2) other False
        unfolding call by auto
    qed
  qed
qed (use assms in \<open>auto simp: lsm_process_set_efficiency_def\<close>)

text \<open>
  What may happen between entering and leaving: anyone changes priorities, and calls are made for any
  process and with any outcome, short of one that leaves the mode for this process.
\<close>

inductive stays_efficient :: "common \<Rightarrow> string \<Rightarrow> u64 \<Rightarrow> u64 \<Rightarrow> efficiency \<Rightarrow> efficiency \<Rightarrow> bool"
  for c stale process_id instance_id e where
  entered: "stays_efficient c stale process_id instance_id e e"
| other_change: "stays_efficient c stale process_id instance_id e e' \<Longrightarrow>
    stays_efficient c stale process_id instance_id e (e'\<lparr>ee_nice := nice, ee_ioprio := ioprio\<rparr>)"
| call: "stays_efficient c stale process_id instance_id e e' \<Longrightarrow>
    lsm_process_set_efficiency c stale k po process_id' instance_id' enabled e' = (failure, e'') \<Longrightarrow>
    \<not> (process_id' = process_id \<and> instance_id' = instance_id \<and> \<not> enabled \<and> failure = None) \<Longrightarrow>
    stays_efficient c stale process_id instance_id e e''"

lemma stays_captured:
  assumes "stays_efficient c stale process_id instance_id e e'" "native_pid process_id = Some pid"
    and "restore_ok (ee_states e)" "captured (ee_states e) (pid, instance_id) = Some state"
  shows "restore_ok (ee_states e') \<and> captured (ee_states e') (pid, instance_id) = Some state"
  using assms(1)
proof induction
  case (call e' k po process_id' instance_id' enabled failure e'')
  then show ?case using call_keeps_captured assms(2) by blast
qed (simp_all add: assms)

text \<open>A call that succeeded found the process it names.\<close>

lemma call_succeeded:
  "lsm_process_set_efficiency c stale k po process_id instance_id enabled e = (None, e') \<Longrightarrow>
     \<exists>pid. native_pid process_id = Some pid \<and>
       (if enabled then efficiency_enable po pid instance_id e else efficiency_disable po pid instance_id e) = (None, e')"
  using identity_pid_native [of c stale k process_id instance_id]
  by (auto simp: lsm_process_set_efficiency_def split: sum.splits if_splits)

text \<open>
  C13. Leaving efficiency mode restores the process: when a process that was not in the mode entered
  it, whatever calls and changes of priority followed (short of leaving it), a successful call that
  leaves the mode gives the process the nice value it had before entering, gives back its I/O
  priority exactly when entering had changed it, touches no other process, and frees the slot.
\<close>

theorem efficiency_mode_restores:
  assumes "restore_ok (ee_states before)"
    and new: "\<forall>pid. native_pid process_id = Some pid \<longrightarrow> captured (ee_states before) (pid, instance_id) = None"
    and enter: "lsm_process_set_efficiency c stale k po process_id instance_id True before = (None, entered)"
    and "stays_efficient c stale process_id instance_id entered meanwhile"
    and leave: "lsm_process_set_efficiency c stale k' po' process_id instance_id False meanwhile = (None, left)"
  shows "\<exists>pid. native_pid process_id = Some pid \<and>
    ee_nice left = (ee_nice meanwhile)(pid := ee_nice before pid) \<and>
    ee_ioprio left = (if po_ioprio_get po = None \<and> po_ioprio_set po = None
      then (ee_ioprio meanwhile)(pid := ee_ioprio before pid) else ee_ioprio meanwhile) \<and>
    captured (ee_states left) = (captured (ee_states meanwhile))((pid, instance_id) := None)"
proof -
  obtain pid where pid: "native_pid process_id = Some pid" "efficiency_enable po pid instance_id before = (None, entered)"
    using call_succeeded [OF enter] by auto
  have call: "efficiency_disable po' pid instance_id meanwhile = (None, left)"
    using call_succeeded [OF leave] pid(1) by auto
  from enable_first [OF assms(1), of pid instance_id po] new pid
  have "restore_ok (ee_states entered)"
    "captured (ee_states entered) (pid, instance_id) = Some \<lparr>es_pid = pid, es_instance_id = instance_id,
       es_original_nice = ee_nice before pid,
       es_original_ioprio = (if po_ioprio_get po = None then ee_ioprio before pid else 0),
       es_restore_ioprio = (po_ioprio_get po = None \<and> po_ioprio_set po = None)\<rparr>"
    by auto
  from stays_captured [OF assms(4) pid(1) this] have saved: "restore_ok (ee_states meanwhile)"
    "captured (ee_states meanwhile) (pid, instance_id) = Some \<lparr>es_pid = pid, es_instance_id = instance_id,
       es_original_nice = ee_nice before pid,
       es_original_ioprio = (if po_ioprio_get po = None then ee_ioprio before pid else 0),
       es_restore_ioprio = (po_ioprio_get po = None \<and> po_ioprio_set po = None)\<rparr>" by simp_all
  show ?thesis using pid(1) disable_sets [OF saved call] by auto
qed

subsection \<open>Shortcomings\<close>

text \<open>
  An identity that is found no longer (the process ended) never frees its slot, whatever is called
  after; and a table that is full refuses every process that is not in it.
\<close>

lemma ended_process_keeps_slot:
  assumes "restore_ok (ee_states e)" "captured (ee_states e) (pid, instance_id) = Some state"
    and "native_pid process_id = Some pid" "process_identity_pid c stale k process_id instance_id = Inl gone"
    and "lsm_process_set_efficiency c stale k po process_id' instance_id' enabled e = (failure, e')"
  shows "captured (ee_states e') (pid, instance_id) = Some state"
proof -
  have "\<not> (process_id' = process_id \<and> instance_id' = instance_id \<and> \<not> enabled \<and> failure = None)"
    using assms(4,5) by (auto simp: lsm_process_set_efficiency_def)
  then show ?thesis using call_keeps_captured [OF assms(1-3,5)] by blast
qed

lemma full_table_refuses:
  assumes "restore_ok (ee_states e)" "None \<notin> set (ee_states e)"
    and "process_identity_pid c stale k process_id instance_id = Inr pid" "1 < pid"
    and "captured (ee_states e) (pid, instance_id) = None" "po_getpriority po = None"
  shows "lsm_process_set_efficiency c stale k po process_id instance_id True e = (Some E_NOSPC, e)"
  using assms(3,4,6) captured_reserve(1) [OF assms(1,5)] assms(2)
  by (cases "po_ioprio_get po") (simp_all add: lsm_process_set_efficiency_def efficiency_enable_def Let_def)

text \<open>
  Entering twice: when the first call could not lower the I/O priority and the second one could, the
  lowered I/O priority stays after leaving the mode.
\<close>

lemma second_call_leaves_idle:
  assumes "restore_ok (ee_states before)" "captured (ee_states before) (pid, instance_id) = None"
    and "efficiency_enable po1 pid instance_id before = (None, first)" "po_ioprio_set po1 \<noteq> None"
    and "efficiency_enable po2 pid instance_id first = (None, second)" "po_ioprio_get po2 = None" "po_ioprio_set po2 = None"
    and "efficiency_disable po3 pid instance_id second = (None, left)"
  shows "ee_ioprio left pid = idle_ioprio"
proof -
  from enable_first [OF assms(1,2), of po1] assms(3,4) obtain state where
    first: "restore_ok (ee_states first)" "captured (ee_states first) (pid, instance_id) = Some state"
      "\<not> es_restore_ioprio state" by auto
  have "ee_states second = ee_states first" using enable_again [OF first(2), of po2] assms(5) by simp
  moreover have "ee_ioprio second pid = idle_ioprio"
    using assms(5-7) captured_again [OF first(2)]
    by (auto simp: efficiency_enable_def priority_calls split: option.splits)
  ultimately show ?thesis
    using disable_sets(2) [of second pid instance_id state, OF _ _ assms(8)] first by simp
qed

subsection \<open>Example\<close>

definition sample_efficiency :: efficiency where
  "sample_efficiency = \<lparr>ee_states = replicate LSM_EFFICIENCY_RESTORE_CAPACITY None, ee_nice = (\<lambda>_. 3), ee_ioprio = (\<lambda>_. 0)\<rparr>"

definition all_succeed :: priority_outcomes where
  "all_succeed = \<lparr>po_getpriority = None, po_ioprio_get = None, po_ioprio_set = None, po_setpriority = None,
     po_ioprio_back = None\<rparr>"

lemma sample_restore_ok: "restore_ok (ee_states sample_efficiency)"
  by (simp add: restore_ok_def sample_efficiency_def)

lemma sample_not_captured: "captured (ee_states sample_efficiency) (pid, instance_id) = None"
  unfolding captured_None(2) by (simp add: sample_efficiency_def)

theorem efficiency_mode_restores_witness:
  "\<exists>entered left.
     lsm_process_set_efficiency ref_common [] sample_kernel all_succeed 3 901 True sample_efficiency = (None, entered) \<and>
     lsm_process_set_efficiency ref_common [] sample_kernel all_succeed 3 901 False entered = (None, left) \<and>
     ee_nice left 3 = 3 \<and> ee_ioprio left 3 = 0"
proof -
  let ?call = "lsm_process_set_efficiency ref_common [] sample_kernel all_succeed 3 901"
  obtain already states where "efficiency_capture (ee_states sample_efficiency) 3 901 3 0 = Some (already, states)"
    using captured_reserve(1) [OF sample_restore_ok sample_not_captured [of 3 901], of 3 0]
    by (auto simp: sample_efficiency_def LSM_EFFICIENCY_RESTORE_CAPACITY_def)
  then have "fst (?call True sample_efficiency) = None"
    by (simp add: lsm_process_set_efficiency_def sample_identity efficiency_enable_def all_succeed_def Let_def)
       (simp add: sample_efficiency_def Let_def)
  then obtain entered where entered: "?call True sample_efficiency = (None, entered)" by (metis prod.collapse)
  have "fst (?call False entered) = None"
    by (simp add: lsm_process_set_efficiency_def sample_identity efficiency_disable_def all_succeed_def Let_def)
  then obtain left where left: "?call False entered = (None, left)" by (metis prod.collapse)
  have native: "native_pid 3 = Some 3" by (simp add: native_pid_def INT_MAX_def)
  have new: "\<forall>pid. native_pid 3 = Some pid \<longrightarrow> captured (ee_states sample_efficiency) (pid, 901) = None"
    using sample_not_captured by blast
  from efficiency_mode_restores [OF sample_restore_ok new entered stays_efficient.entered left]
  have "ee_nice left 3 = 3 \<and> ee_ioprio left 3 = 0"
    by (auto simp: native all_succeed_def) (simp_all add: sample_efficiency_def)
  then show ?thesis using entered left by blast
qed

end
