(* ===== verification/Process_Export.thy ===== *)
theory Process_Export
  imports Process_Stat
begin

text \<open>
  Totals of a process group (\<^verbatim>\<open>src/process_grouping.c\<close>), the CSV export of the selected rows
  (\<^verbatim>\<open>src/process_export.c\<close>) and their copy to the clipboard (\<^verbatim>\<open>src/process_export_app.c\<close>). Escaping a
  CSV field, printing numbers and replacing a file are parameters. Exported and copied are exactly the
  rows whose identity was selected, and no copied cell can be read as a formula or break its row.
\<close>

record process_details =
  pd_pid :: u64
  pd_ppid :: u64
  pd_instance_id :: u64
  pd_name :: string
  pd_user :: string
  pd_state :: string
  pd_executable :: string
  pd_command :: string
  pd_threads :: u32
  pd_handle_count :: u32
  pd_handle_count_available :: bool
  pd_priority :: process_priority
  pd_efficiency_mode :: bool
  pd_cpu_percent :: double
  pd_read_bytes_per_sec :: double
  pd_write_bytes_per_sec :: double
  pd_io_rate_available :: bool
  pd_rss_bytes :: u64
  pd_read_bytes :: u64
  pd_write_bytes :: u64
  pd_io_totals_available :: bool
  pd_context_switches :: u64
  pd_page_faults :: u64
  pd_cpu_time_nanoseconds :: u64
  pd_gpu_percent :: double
  pd_gpu_memory_bytes :: u64
  pd_gpu_engine :: string
  pd_gpu_available :: bool

fun lsm_process_priority_name :: "process_priority \<Rightarrow> string" where
  "lsm_process_priority_name Priority_High = ''High''"
| "lsm_process_priority_name Priority_Above_Normal = ''Above normal''"
| "lsm_process_priority_name Priority_Normal = ''Normal''"
| "lsm_process_priority_name Priority_Below_Normal = ''Below normal''"
| "lsm_process_priority_name Priority_Low = ''Low''"

subsection \<open>Totals of a group\<close>

record group_metrics =
  gm_cpu_percent :: double
  gm_memory_bytes :: u64
  gm_disk_bytes_per_sec :: double
  gm_disk_available :: bool
  gm_gpu_percent :: double
  gm_gpu_engine_peak :: double
  gm_gpu_engine :: string
  gm_gpu_available :: bool
  gm_process_count :: u64
  gm_all_stopped :: bool
  gm_all_efficient :: bool

definition DBL_MAX :: double where
  "DBL_MAX = Fin ((2 - 1 / 2 ^ 52) * 2 ^ 1023)"

definition positive_finite_sum :: "double \<Rightarrow> double \<Rightarrow> double" where
  "positive_finite_sum so_far v =
     (if \<not> isfinite v \<or> dle v (Fin 0) then so_far
      else if dle v (dsub DBL_MAX so_far) then dadd so_far v else DBL_MAX)"

definition lsm_process_group_metrics_add :: "common \<Rightarrow> group_metrics \<Rightarrow> process_details \<Rightarrow> group_metrics" where
  "lsm_process_group_metrics_add c m p =
     (let first = (gm_process_count m = 0);
          m = m\<lparr>gm_cpu_percent := positive_finite_sum (gm_cpu_percent m) (pd_cpu_percent p),
            gm_memory_bytes := infiltratr_u64_add_saturating c (gm_memory_bytes m) (pd_rss_bytes p)\<rparr>;
          m = (if pd_io_rate_available p
            then m\<lparr>gm_disk_bytes_per_sec := positive_finite_sum
                (positive_finite_sum (gm_disk_bytes_per_sec m) (pd_read_bytes_per_sec p)) (pd_write_bytes_per_sec p),
              gm_disk_available := True\<rparr>
            else m);
          m = (if pd_gpu_available p
            then
              let m = (if pd_gpu_engine p \<noteq> [] \<and> (\<not> gm_gpu_available m \<or> dless (gm_gpu_engine_peak m) (pd_gpu_percent p))
                then m\<lparr>gm_gpu_engine_peak := pd_gpu_percent p, gm_gpu_engine := infiltratr_copy_string c 256 (pd_gpu_engine p)\<rparr>
                else m)
              in m\<lparr>gm_gpu_percent := positive_finite_sum (gm_gpu_percent m) (pd_gpu_percent p), gm_gpu_available := True\<rparr>
            else m);
          stopped = (pd_state p = ''Stopped'')
      in m\<lparr>gm_all_stopped := (if first then stopped else gm_all_stopped m \<and> stopped),
         gm_all_efficient := (if first then pd_efficiency_mode p else gm_all_efficient m \<and> pd_efficiency_mode p),
         gm_process_count := (if gm_process_count m < UINT64_MAX then gm_process_count m + 1 else gm_process_count m)\<rparr>)"

definition no_metrics :: group_metrics where
  "no_metrics = \<lparr>gm_cpu_percent = Fin 0, gm_memory_bytes = 0, gm_disk_bytes_per_sec = Fin 0, gm_disk_available = False,
     gm_gpu_percent = Fin 0, gm_gpu_engine_peak = Fin 0, gm_gpu_engine = [], gm_gpu_available = False,
     gm_process_count = 0, gm_all_stopped = False, gm_all_efficient = False\<rparr>"

lemma added_fields:
  "gm_process_count (lsm_process_group_metrics_add c m p) =
     (if gm_process_count m < UINT64_MAX then gm_process_count m + 1 else gm_process_count m)"
  "gm_memory_bytes (lsm_process_group_metrics_add c m p) = infiltratr_u64_add_saturating c (gm_memory_bytes m) (pd_rss_bytes p)"
  "gm_disk_available (lsm_process_group_metrics_add c m p) \<longleftrightarrow> gm_disk_available m \<or> pd_io_rate_available p"
  "gm_gpu_available (lsm_process_group_metrics_add c m p) \<longleftrightarrow> gm_gpu_available m \<or> pd_gpu_available p"
  "gm_all_stopped (lsm_process_group_metrics_add c m p) \<longleftrightarrow>
     (gm_process_count m = 0 \<or> gm_all_stopped m) \<and> pd_state p = ''Stopped''"
  "gm_all_efficient (lsm_process_group_metrics_add c m p) \<longleftrightarrow>
     (gm_process_count m = 0 \<or> gm_all_efficient m) \<and> pd_efficiency_mode p"
  by (simp_all add: lsm_process_group_metrics_add_def Let_def)

text \<open>A group of up to \<open>2 ^ 64 - 1\<close> processes, in any order.\<close>

lemma group_summary:
  assumes "common_arith_ok c" "length ps < 2 ^ 64"
  shows "let m = foldl (lsm_process_group_metrics_add c) no_metrics ps in
    unat (gm_process_count m) = length ps \<and>
    unat (gm_memory_bytes m) = min (\<Sum>p\<leftarrow>ps. unat (pd_rss_bytes p)) (2 ^ 64 - 1) \<and>
    gm_disk_available m = list_ex pd_io_rate_available ps \<and> gm_gpu_available m = list_ex pd_gpu_available ps \<and>
    (gm_all_stopped m \<longleftrightarrow> ps \<noteq> [] \<and> list_all (\<lambda>p. pd_state p = ''Stopped'') ps) \<and>
    (gm_all_efficient m \<longleftrightarrow> ps \<noteq> [] \<and> list_all pd_efficiency_mode ps)"
  using assms(2)
proof (induction ps rule: rev_induct)
  case Nil
  then show ?case by (simp add: no_metrics_def)
next
  case (snoc p ps)
  let ?m = "foldl (lsm_process_group_metrics_add c) no_metrics ps"
  have before: "unat (gm_process_count ?m) = length ps" using snoc by (simp add: Let_def)
  have empty: "gm_process_count ?m = 0 \<longleftrightarrow> ps = []" using before by (simp add: unat_eq_0 [symmetric])
  have room: "unat (gm_process_count ?m + 1) = Suc (length ps)" "gm_process_count ?m < UINT64_MAX"
    using before snoc.prems by (simp_all add: unat_word_ariths word_less_nat_alt unsigned_minus_1_eq_mask mask_eq_exp_minus_1)
  have memory: "unat (infiltratr_u64_add_saturating c a b) = min (unat a + unat b) (2 ^ 64 - 1)" for a b
    using assms(1) by (simp add: common_arith_ok_def unat_saturating_add)
  show ?case using snoc empty room by (auto simp: added_fields memory Let_def)
qed

subsection \<open>Selection\<close>

text \<open>The selected group is \<open>None\<close> when one of its arrays is missing.\<close>

record export_view =
  ev_processes :: "process_details list"
  ev_selected_pid :: u64
  ev_selected_instance_id :: u64
  ev_selected_group_count :: nat
  ev_selected_group :: "(u64 \<times> u64) list option"

definition lsm_process_export_contains :: "export_view \<Rightarrow> process_details \<Rightarrow> bool" where
  "lsm_process_export_contains view p =
     (if pd_pid p = 0 \<or> pd_instance_id p = 0 then False
      else if ev_selected_group_count view = 0
      then ev_selected_pid view \<noteq> 0 \<and> ev_selected_instance_id view \<noteq> 0 \<and>
        pd_pid p = ev_selected_pid view \<and> pd_instance_id p = ev_selected_instance_id view
      else case ev_selected_group view of
          None \<Rightarrow> False
        | Some members \<Rightarrow> (pd_pid p, pd_instance_id p) \<in> set (take (ev_selected_group_count view) members))"

definition lsm_process_export_selection_count :: "export_view \<Rightarrow> nat" where
  "lsm_process_export_selection_count view = length (filter (lsm_process_export_contains view) (ev_processes view))"

subsection \<open>CSV\<close>

text \<open>\<open>escape\<close> is \<^verbatim>\<open>infiltratr_escape_csv_field\<close> with formula protection; rows end in a newline.\<close>

definition csv_row :: "common \<Rightarrow> (string \<Rightarrow> string option) \<Rightarrow> process_details \<Rightarrow> string option" where
  "csv_row c escape p =
     (let number = (\<lambda>w. nat_text (unat (w :: u64)));
          fixed = (\<lambda>d. infiltratr_format_fixed_ascii c d 3 64)
      in Option.bind (fixed (pd_cpu_percent p)) (\<lambda>cpu.
         Option.bind (if pd_io_rate_available p then fixed (pd_read_bytes_per_sec p) else Some []) (\<lambda>read_rate.
         Option.bind (if pd_io_rate_available p then fixed (pd_write_bytes_per_sec p) else Some []) (\<lambda>write_rate.
         Option.bind (if pd_gpu_available p then fixed (pd_gpu_percent p) else Some []) (\<lambda>gpu.
         Option.bind (escape (pd_name p)) (\<lambda>name. Option.bind (escape (pd_user p)) (\<lambda>user.
         Option.bind (escape (pd_state p)) (\<lambda>state.
         Option.bind (escape (if pd_gpu_engine p \<noteq> [] then pd_gpu_engine p else ''N/A'')) (\<lambda>engine.
         Option.bind (escape (lsm_process_priority_name (pd_priority p))) (\<lambda>priority.
         Option.bind (escape (pd_executable p)) (\<lambda>executable. Option.bind (escape (pd_command p)) (\<lambda>command.
           Some (join CHR '','' [name, number (pd_pid p), number (pd_ppid p), user, state, cpu,
             number (pd_cpu_time_nanoseconds p), number (pd_rss_bytes p), nat_text (unat (pd_threads p)), read_rate, write_rate,
             gpu, engine, number (pd_gpu_memory_bytes p),
             if pd_io_totals_available p then number (pd_read_bytes p) else [],
             if pd_io_totals_available p then number (pd_write_bytes p) else [],
             if pd_handle_count_available p then nat_text (unat (pd_handle_count p)) else [],
             number (pd_context_switches p), number (pd_page_faults p), priority, executable, command] @ [LF])))))))))))))"

definition csv_header :: string where
  "csv_header = ''Name,PID,Parent PID,User,Status,CPU (%),CPU time (ns),'' @
     ''Memory (bytes),Threads,Read (bytes/s),Write (bytes/s),GPU (%),'' @
     ''GPU engine,GPU memory (bytes),Read total (bytes),Write total (bytes),'' @
     ''Handles,Context switches,Page faults,Priority,Executable,Command'' @ [LF]"

text \<open>What is written, when no write fails.\<close>

definition write_process_export :: "common \<Rightarrow> (string \<Rightarrow> string option) \<Rightarrow> export_view \<Rightarrow> string option" where
  "write_process_export c escape view =
     foldM (\<lambda>out p. if lsm_process_export_contains view p then map_option (\<lambda>row. out @ row) (csv_row c escape p) else Some out)
       csv_header (ev_processes view)"

text \<open>\<open>replace_file\<close> is the atomic replacement, given what the writer produced; its failure is an error text.\<close>

definition lsm_process_export_write_view ::
    "common \<Rightarrow> (string \<Rightarrow> string option) \<Rightarrow> (string \<Rightarrow> string option \<Rightarrow> string option) \<Rightarrow> export_view option \<Rightarrow> string option \<Rightarrow>
     nat \<Rightarrow> string option" where
  "lsm_process_export_write_view c escape replace_file view path error_size =
     (case (view, path) of
        (Some view, Some path) \<Rightarrow>
          if path = [] then Some (infiltratr_copy_string c error_size ''No destination file was selected.'')
          else if lsm_process_export_selection_count view = 0
          then Some (infiltratr_copy_string c error_size ''Select a process or application group first.'')
          else map_option (infiltratr_copy_string c error_size) (replace_file path (write_process_export c escape view))
      | _ \<Rightarrow> Some (infiltratr_copy_string c error_size ''No destination file was selected.''))"

text \<open>Exported are the selected rows in their order, below the header, all or none of them.\<close>

lemma export_rows:
  "write_process_export c escape view =
     (let selected = filter (lsm_process_export_contains view) (ev_processes view)
      in if list_all (\<lambda>p. csv_row c escape p \<noteq> None) selected
         then Some (csv_header @ concat (map (\<lambda>p. the (csv_row c escape p)) selected)) else None)"
proof -
  have "foldM (\<lambda>out p. if P p then map_option (\<lambda>row. out @ row) (f p) else Some out) out ps =
     (if list_all (\<lambda>p. f p \<noteq> None) (filter P ps) then Some (out @ concat (map (\<lambda>p. the (f p)) (filter P ps))) else None)"
    for P and f :: "process_details \<Rightarrow> string option" and out ps
    by (induction ps arbitrary: out) (auto split: option.split)
  then show ?thesis by (simp add: write_process_export_def Let_def)
qed

subsection \<open>Clipboard\<close>

definition control_or_blank :: "char \<Rightarrow> bool" where
  "control_or_blank x \<longleftrightarrow> x = CHR '' '' \<or> (of_char x :: nat) < 32 \<or> (of_char x :: nat) = 127"

definition formula_start :: "char \<Rightarrow> bool" where
  "formula_start x \<longleftrightarrow> x \<in> {CHR ''='', CHR ''+'', CHR ''-'', CHR ''@''}"

fun spreadsheet_needs_formula_escape :: "string \<Rightarrow> bool" where
  "spreadsheet_needs_formula_escape [] = False"
| "spreadsheet_needs_formula_escape (x # xs) =
     (if control_or_blank x then spreadsheet_needs_formula_escape xs else formula_start x)"

definition append_spreadsheet_text :: "string \<Rightarrow> string \<Rightarrow> string" where
  "append_spreadsheet_text destination v =
     destination @ (if spreadsheet_needs_formula_escape v then [CHR 0x27] else []) @
     map (\<lambda>x. if 32 \<le> (of_char x :: nat) \<and> (of_char x :: nat) \<noteq> 127 \<and> x \<noteq> TAB then x else CHR '' '') v"

text \<open>
  \<^verbatim>\<open>%.1f%%\<close>: one decimal, rounded to the nearest with ties to even. The sign of a NaN is not modelled.
\<close>

definition percent_text :: "double \<Rightarrow> string" where
  "percent_text d =
     (case d of
        NaN \<Rightarrow> ''nan%''
      | Inf negative \<Rightarrow> (if negative then ''-inf%'' else ''inf%'')
      | Fin r \<Rightarrow>
          let tenths = nat (rne (10 * \<bar>r\<bar>))
          in (if r < 0 then ''-'' else []) @ nat_text (tenths div 10) @ ''.'' @ nat_text (tenths mod 10) @ ''%'')"

text \<open>\<open>bytes\<close> is \<^verbatim>\<open>lsm_format_bytes\<close>, the formatter of sizes.\<close>

definition clipboard_row :: "(u64 \<Rightarrow> string) \<Rightarrow> string \<Rightarrow> process_details \<Rightarrow> string" where
  "clipboard_row bytes out p =
     (let out = append_spreadsheet_text out (pd_name p);
          out = out @ [TAB] @ nat_text (unat (pd_pid p)) @ [TAB];
          out = append_spreadsheet_text out (pd_user p);
          out = out @ [TAB] @ percent_text (pd_cpu_percent p) @ [TAB] @ bytes (pd_rss_bytes p) @ [TAB] @
            (if pd_gpu_available p then percent_text (pd_gpu_percent p) else ''N/A'') @ [TAB];
          out = append_spreadsheet_text out (if pd_gpu_engine p \<noteq> [] then pd_gpu_engine p else ''N/A'') @ [TAB]
      in append_spreadsheet_text out (pd_command p) @ [LF])"

definition clipboard_header :: string where
  "clipboard_header = join TAB [''Name'', ''PID'', ''User'', ''CPU'', ''Memory'', ''GPU'', ''GPU engine'', ''Command''] @ [LF]"

definition lsm_process_export_copy_selected ::
    "(u64 \<Rightarrow> string) \<Rightarrow> export_view option \<Rightarrow> string option" where
  "lsm_process_export_copy_selected bytes view =
     (case view of
        None \<Rightarrow> None
      | Some view \<Rightarrow>
          if lsm_process_export_selection_count view = 0 then None
          else Some (foldl (\<lambda>out p. if lsm_process_export_contains view p then clipboard_row bytes out p else out)
            clipboard_header (ev_processes view)))"

subsection \<open>What a spreadsheet makes of a cell\<close>

text \<open>
  A spreadsheet passes over blanks and control characters and takes the cell for a formula when the
  first other character is an equals, plus, minus or at sign.
\<close>

definition reads_as_formula :: "string \<Rightarrow> bool" where
  "reads_as_formula cell \<longleftrightarrow>
     (\<exists>before x after. cell = before @ x # after \<and> (\<forall>y\<in>set before. (of_char y :: nat) \<le> 32 \<or> (of_char y :: nat) = 127) \<and>
        (x = CHR ''='' \<or> x = CHR ''+'' \<or> x = CHR ''-'' \<or> x = CHR ''@''))"

definition cell_safe :: "string \<Rightarrow> bool" where
  "cell_safe cell \<longleftrightarrow> TAB \<notin> set cell \<and> LF \<notin> set cell \<and> CR \<notin> set cell \<and> \<not> reads_as_formula cell"

text \<open>A text as it is pasted: control characters as blanks, and an apostrophe in front only of a formula.\<close>

definition pasted :: "string \<Rightarrow> string" where
  "pasted v = (if reads_as_formula v then [CHR 0x27] else []) @
     map (\<lambda>x. if (of_char x :: nat) < 32 \<or> (of_char x :: nat) = 127 then CHR '' '' else x) v"

lemma reads_as_formula_simps:
  "\<not> reads_as_formula []"
  "reads_as_formula (x # xs) \<longleftrightarrow>
     (if (of_char x :: nat) \<le> 32 \<or> (of_char x :: nat) = 127 then reads_as_formula xs
      else x = CHR ''='' \<or> x = CHR ''+'' \<or> x = CHR ''-'' \<or> x = CHR ''@'')"
proof -
  show "\<not> reads_as_formula []" by (simp add: reads_as_formula_def)
  have starts: "\<not> ((of_char y :: nat) \<le> 32 \<or> (of_char y :: nat) = 127)"
    if "y = CHR ''='' \<or> y = CHR ''+'' \<or> y = CHR ''-'' \<or> y = CHR ''@''" for y :: char using that by auto
  show "reads_as_formula (x # xs) \<longleftrightarrow>
     (if (of_char x :: nat) \<le> 32 \<or> (of_char x :: nat) = 127 then reads_as_formula xs
      else x = CHR ''='' \<or> x = CHR ''+'' \<or> x = CHR ''-'' \<or> x = CHR ''@'')" (is "_ \<longleftrightarrow> ?rest")
  proof
    assume "reads_as_formula (x # xs)"
    then obtain before y after where split: "x # xs = before @ y # after"
      "\<forall>y\<in>set before. (of_char y :: nat) \<le> 32 \<or> (of_char y :: nat) = 127"
      "y = CHR ''='' \<or> y = CHR ''+'' \<or> y = CHR ''-'' \<or> y = CHR ''@''"
      unfolding reads_as_formula_def by blast
    show ?rest
    proof (cases before)
      case Nil
      then show ?thesis using split(1,3) starts [OF split(3)] by simp
    next
      case (Cons z zs)
      then have "reads_as_formula xs" unfolding reads_as_formula_def using split by auto
      then show ?thesis using Cons split(1,2) by simp
    qed
  next
    assume rest: ?rest
    show "reads_as_formula (x # xs)"
    proof (cases "(of_char x :: nat) \<le> 32 \<or> (of_char x :: nat) = 127")
      case True
      then have "reads_as_formula xs" using rest by simp
      then obtain before y after where split: "xs = before @ y # after"
        "\<forall>y\<in>set before. (of_char y :: nat) \<le> 32 \<or> (of_char y :: nat) = 127"
        "y = CHR ''='' \<or> y = CHR ''+'' \<or> y = CHR ''-'' \<or> y = CHR ''@''"
        unfolding reads_as_formula_def by blast
      show ?thesis unfolding reads_as_formula_def
        by (rule exI [of _ "x # before"], rule exI [of _ y], rule exI [of _ after]) (use split True in auto)
    next
      case False
      then have "x = CHR ''='' \<or> x = CHR ''+'' \<or> x = CHR ''-'' \<or> x = CHR ''@''" using rest by simp
      then show ?thesis unfolding reads_as_formula_def
        by (intro exI [of _ "[]"] exI [of _ x] exI [of _ xs]) simp
    qed
  qed
qed

lemma blank_values: "control_or_blank x \<longleftrightarrow> (of_char x :: nat) \<le> 32 \<or> (of_char x :: nat) = 127"
proof -
  have "(of_char x :: nat) = 32 \<longleftrightarrow> x = CHR '' ''"
    using of_char_eq_iff [where ?'a = nat, of x "CHR '' ''"] by simp
  then show ?thesis unfolding control_or_blank_def by auto
qed

lemma escape_exact: "spreadsheet_needs_formula_escape v \<longleftrightarrow> reads_as_formula v"
  by (induction v) (simp_all add: reads_as_formula_simps blank_values formula_start_def)

lemma appended_cell: "append_spreadsheet_text out v = out @ pasted v"
proof -
  have "(if 32 \<le> (of_char x :: nat) \<and> (of_char x :: nat) \<noteq> 127 \<and> x \<noteq> TAB then x else CHR '' '') =
      (if (of_char x :: nat) < 32 \<or> (of_char x :: nat) = 127 then CHR '' '' else x)" for x by auto
  then show ?thesis by (simp add: append_spreadsheet_text_def pasted_def escape_exact)
qed

lemma pasted_safe: "cell_safe (pasted v)"
proof -
  let ?f = "\<lambda>x. if (of_char x :: nat) < 32 \<or> (of_char x :: nat) = 127 then CHR '' '' else x"
  have plain: "TAB \<notin> set (map ?f v)" "LF \<notin> set (map ?f v)" "CR \<notin> set (map ?f v)" by (auto split: if_splits)
  have same: "reads_as_formula (map ?f v) = reads_as_formula v"
    by (induction v) (auto simp: reads_as_formula_simps)
  show ?thesis
    using plain same by (simp add: pasted_def cell_safe_def reads_as_formula_simps del: set_map)
qed

text \<open>Cells the code prints itself: a decimal digit first and no control character.\<close>

definition number_cell :: "string \<Rightarrow> bool" where
  "number_cell cell \<longleftrightarrow> cell \<noteq> [] \<and> ascii_digit (hd cell) \<and> (\<forall>x\<in>set cell. 32 \<le> (of_char x :: nat))"

lemma number_cell_safe: "number_cell cell \<Longrightarrow> cell_safe cell"
  by (cases cell) (auto simp: number_cell_def cell_safe_def reads_as_formula_simps ascii_digit_def)

lemma nat_text_cell: "number_cell (nat_text n)"
  using nat_text_digits [of n] by (auto simp: number_cell_def list_all_iff ascii_digit_def)

lemma percent_cell: "d = Fin r \<Longrightarrow> 0 \<le> r \<Longrightarrow> number_cell (percent_text d)"
  using nat_text_cell [of "nat (rne (10 * r)) div 10"] nat_text_cell [of "nat (rne (10 * r)) mod 10"]
  by (auto simp: percent_text_def Let_def number_cell_def)

text \<open>The cells of a process.\<close>

definition process_cells :: "(u64 \<Rightarrow> string) \<Rightarrow> process_details \<Rightarrow> string list" where
  "process_cells bytes p =
     [pasted (pd_name p), nat_text (unat (pd_pid p)), pasted (pd_user p), percent_text (pd_cpu_percent p),
      bytes (pd_rss_bytes p), if pd_gpu_available p then percent_text (pd_gpu_percent p) else ''N/A'',
      pasted (if pd_gpu_engine p \<noteq> [] then pd_gpu_engine p else ''N/A''), pasted (pd_command p)]"

definition measured_percent :: "double \<Rightarrow> bool" where
  "measured_percent d \<longleftrightarrow> (\<exists>r. d = Fin r \<and> 0 \<le> r)"

text \<open>
  C9. Every row pasted from the clipboard has eight cells, those of one selected process in order: its
  name, number, user, processor share, memory, graphics share, engine and command line, the texts with
  control characters as blanks. Whatever names, users, engines and command lines hold, no cell breaks its
  row and none is taken by a spreadsheet for a formula. Assumed are processor and graphics shares that
  are finite and not negative, and that Common prints a size starting with a digit.
\<close>

theorem clipboard_safe:
  assumes "lsm_process_export_copy_selected bytes (Some view) = Some out"
    and "\<forall>p\<in>set (ev_processes view). measured_percent (pd_cpu_percent p) \<and>
      (pd_gpu_available p \<longrightarrow> measured_percent (pd_gpu_percent p))"
    and "\<forall>n. number_cell (bytes n)"
  shows "\<exists>rows. out = clipboard_header @ concat (map (\<lambda>row. join TAB row @ [LF]) rows) \<and>
    list_all2 (\<lambda>p row. row = process_cells bytes p \<and> length row = 8 \<and> list_all cell_safe row)
      (filter (lsm_process_export_contains view) (ev_processes view)) rows"
proof -
  have row: "clipboard_row bytes out p = out @ join TAB (process_cells bytes p) @ [LF]" for out p
    by (simp add: clipboard_row_def process_cells_def Let_def appended_cell)
  have rows: "foldl (\<lambda>out p. if P p then clipboard_row bytes out p else out) start ps =
      start @ concat (map (\<lambda>row. join TAB row @ [LF]) (map (process_cells bytes) (filter P ps)))" for start ps and P
    by (induction ps arbitrary: start) (simp_all add: row)
  have missing: "cell_safe ''N/A''" by (simp add: cell_safe_def reads_as_formula_simps)
  have "out = clipboard_header @ concat (map (\<lambda>row. join TAB row @ [LF])
      (map (process_cells bytes) (filter (lsm_process_export_contains view) (ev_processes view))))"
    using assms(1) unfolding lsm_process_export_copy_selected_def rows by (simp split: if_splits)
  moreover have each: "process_cells bytes p = process_cells bytes p \<and> length (process_cells bytes p) = 8 \<and>
      list_all cell_safe (process_cells bytes p)" if "p \<in> set (ev_processes view)" for p
    using bspec [OF assms(2) that] assms(3) missing
    by (auto simp: process_cells_def pasted_safe number_cell_safe nat_text_cell percent_cell measured_percent_def)
  have "list_all2 (\<lambda>p row. row = process_cells bytes p \<and> length row = 8 \<and> list_all cell_safe row)
      (filter P (ev_processes view)) (map (process_cells bytes) (filter P (ev_processes view)))" for P
    unfolding list_all2_map2 by (rule list.rel_refl_strong, rule each) simp
  ultimately show ?thesis by blast
qed

definition sample_details :: process_details where
  "sample_details = \<lparr>pd_pid = 7, pd_ppid = 1, pd_instance_id = 5, pd_name = ''=cmd'', pd_user = ''root'', pd_state = ''Running'',
     pd_executable = [], pd_command = ''a'' @ [TAB] @ ''b'', pd_threads = 1, pd_handle_count = 0, pd_handle_count_available = False,
     pd_priority = Priority_Normal, pd_efficiency_mode = False, pd_cpu_percent = Fin 1, pd_read_bytes_per_sec = Fin 0,
     pd_write_bytes_per_sec = Fin 0, pd_io_rate_available = False, pd_rss_bytes = 0, pd_read_bytes = 0, pd_write_bytes = 0,
     pd_io_totals_available = False, pd_context_switches = 0, pd_page_faults = 0, pd_cpu_time_nanoseconds = 0,
     pd_gpu_percent = Fin 0, pd_gpu_memory_bytes = 0, pd_gpu_engine = [], pd_gpu_available = False\<rparr>"

definition sample_view :: export_view where
  "sample_view = \<lparr>ev_processes = [sample_details], ev_selected_pid = 7, ev_selected_instance_id = 5,
     ev_selected_group_count = 0, ev_selected_group = None\<rparr>"

theorem clipboard_safe_witness:
  "\<exists>out row. lsm_process_export_copy_selected (\<lambda>_. ''2 MB'') (Some sample_view) = Some out \<and>
     out = clipboard_header @ join TAB row @ [LF] \<and> row ! 0 = CHR 0x27 # ''=cmd'' \<and> list_all cell_safe row"
proof -
  have selected: "filter (lsm_process_export_contains sample_view) (ev_processes sample_view) = [sample_details]"
    by (simp add: sample_view_def sample_details_def lsm_process_export_contains_def)
  then obtain out where out: "lsm_process_export_copy_selected (\<lambda>_. ''2 MB'') (Some sample_view) = Some out"
    by (simp add: lsm_process_export_copy_selected_def lsm_process_export_selection_count_def)
  have measured: "\<forall>p\<in>set (ev_processes sample_view). measured_percent (pd_cpu_percent p) \<and>
      (pd_gpu_available p \<longrightarrow> measured_percent (pd_gpu_percent p))"
    by (simp add: sample_view_def sample_details_def measured_percent_def)
  have bytes: "\<forall>n. number_cell ((\<lambda>_. ''2 MB'') (n :: u64))" by (simp add: number_cell_def ascii_digit_def)
  have name: "process_cells (\<lambda>_. ''2 MB'') sample_details ! 0 = CHR 0x27 # ''=cmd''"
    by (simp add: process_cells_def sample_details_def pasted_def reads_as_formula_simps)
  from clipboard_safe [OF out measured bytes] name show ?thesis
    unfolding selected by (auto simp: list_all2_Cons1 out)
qed

end
