(* ===== verification/Npu_Telemetry.thy ===== *)
theory Npu_Telemetry
  imports Counter_Stream
begin

text \<open>
  Telemetry of a compute accelerator (\<^verbatim>\<open>src/npu_telemetry.c\<close>): the attributes found once, and the
  refresh that publishes one sample. Sysfs is a parameter: which paths are readable when the
  telemetry is created, and what each file holds at a refresh. \<^verbatim>\<open>long double\<close> constants round with \<open>ld\<close>.
  The busy-time counter is proved to be an instance of the counter-stream contract, and what is
  published to be in range and cleared when it was not measured.
\<close>

definition LSM_NPU_MIN_BUSY_SAMPLE_SECONDS :: double where
  "LSM_NPU_MIN_BUSY_SAMPLE_SECONDS = fl (9 / 10)"

text \<open>An absent attribute is the empty path.\<close>

record npu_telemetry =
  nt_utilization :: string
  nt_busy_time_us :: string
  nt_memory_used :: string
  nt_memory_total :: string
  nt_clock :: string
  nt_temperature :: string
  nt_power :: string
  nt_previous_busy_time_us :: u64
  nt_busy_elapsed_seconds :: double
  nt_last_busy_percent :: double
  nt_busy_initialised :: bool
  nt_last_busy_valid :: bool
  nt_intel_ivpu :: bool

record npu_info =
  np_driver :: string
  np_platform_identity :: string
  np_utilization_percent :: double
  np_memory_percent :: double
  np_memory_used_bytes :: u64
  np_memory_total_bytes :: u64
  np_temperature_c :: double
  np_clock_mhz :: double
  np_power_watts :: double
  np_utilization_available :: bool
  np_memory_used_available :: bool
  np_memory_total_available :: bool
  np_temperature_available :: bool
  np_clock_available :: bool
  np_power_available :: bool
  np_supported_metrics :: bool
  np_metrics_source :: string

subsection \<open>Discovery\<close>

definition telemetry_base :: "string option \<Rightarrow> npu_info \<Rightarrow> string" where
  "telemetry_base environment npu =
     (case environment of Some path \<Rightarrow> if path \<noteq> [] then path else np_platform_identity npu | None \<Rightarrow> np_platform_identity npu)"

definition telemetry_has_source :: "npu_telemetry \<Rightarrow> bool" where
  "telemetry_has_source t \<longleftrightarrow> nt_utilization t \<noteq> [] \<or> nt_busy_time_us t \<noteq> [] \<or> nt_memory_used t \<noteq> [] \<or>
     nt_memory_total t \<noteq> [] \<or> nt_clock t \<noteq> [] \<or> nt_temperature t \<noteq> [] \<or> nt_power t \<noteq> []"

definition empty_telemetry :: npu_telemetry where
  "empty_telemetry = \<lparr>nt_utilization = [], nt_busy_time_us = [], nt_memory_used = [], nt_memory_total = [], nt_clock = [],
     nt_temperature = [], nt_power = [], nt_previous_busy_time_us = 0, nt_busy_elapsed_seconds = Fin 0,
     nt_last_busy_percent = Fin 0, nt_busy_initialised = False, nt_last_busy_valid = False, nt_intel_ivpu = False\<rparr>"

text \<open>\<open>first_readable base suffixes\<close> is the path of the first readable attribute, empty for none.\<close>

definition lsm_npu_telemetry_create ::
    "(string \<Rightarrow> string list \<Rightarrow> string) \<Rightarrow> string option \<Rightarrow> npu_info \<Rightarrow> npu_telemetry option" where
  "lsm_npu_telemetry_create first_readable environment npu =
     (let base = telemetry_base environment npu
      in if base = [] then None
         else
           let intel = (np_driver npu = ''intel_vpu'' \<or> np_driver npu = ''ivpu'');
               t = (if intel
                 then empty_telemetry\<lparr>nt_busy_time_us := first_readable base [''/npu_busy_time_us''],
                   nt_memory_used := first_readable base [''/npu_memory_utilization''],
                   nt_clock := first_readable base [''/freq/current_freq''], nt_intel_ivpu := True\<rparr>
                 else empty_telemetry\<lparr>
                   nt_utilization := first_readable base [''/utilization_percent'', ''/busy_percent'', ''/npu_busy_percent''],
                   nt_busy_time_us := first_readable base [''/busy_time_us''],
                   nt_memory_used := first_readable base [''/memory_used_bytes'', ''/mem_used_bytes''],
                   nt_memory_total := first_readable base [''/memory_total_bytes'', ''/mem_total_bytes''],
                   nt_clock := first_readable base [''/clock_mhz'', ''/cur_freq_mhz''],
                   nt_temperature := first_readable base [''/temperature_millicelsius'', ''/temp_millicelsius'', ''/temp1_input''],
                   nt_power := first_readable base [''/power_uw'', ''/power1_input'']\<rparr>)
           in if telemetry_has_source t then Some t else None)"

subsection \<open>Refresh\<close>

text \<open>The published utilisation, or \<open>None\<close> for \<^verbatim>\<open>return false\<close>.\<close>

definition refresh_busy_time ::
    "common \<Rightarrow> (rat \<Rightarrow> rat) \<Rightarrow> (string \<Rightarrow> u64 option) \<Rightarrow> npu_telemetry \<Rightarrow> double \<Rightarrow> double option \<times> npu_telemetry" where
  "refresh_busy_time c ld files t elapsed_seconds =
     (if nt_busy_time_us t = [] \<or> dle elapsed_seconds (Fin 0) then (None, t)
      else
        let t = t\<lparr>nt_busy_elapsed_seconds := dadd (nt_busy_elapsed_seconds t) elapsed_seconds\<rparr>
        in if dless (nt_busy_elapsed_seconds t) LSM_NPU_MIN_BUSY_SAMPLE_SECONDS
           then (if nt_last_busy_valid t then Some (nt_last_busy_percent t) else None, t)
           else case files (nt_busy_time_us t) of
               None \<Rightarrow> (None, t\<lparr>nt_busy_elapsed_seconds := Fin 0, nt_busy_initialised := False, nt_last_busy_valid := False\<rparr>)
             | Some current \<Rightarrow>
                 if \<not> nt_busy_initialised t
                 then (None, t\<lparr>nt_previous_busy_time_us := current, nt_busy_elapsed_seconds := Fin 0,
                   nt_busy_initialised := True, nt_last_busy_valid := False\<rparr>)
                 else
                   let interval = nt_busy_elapsed_seconds t;
                       (have_rate, percent) = infiltratr_u64_counter_rate c current (nt_previous_busy_time_us t)
                         (Fin (ld (1 / 10000))) interval;
                       t = t\<lparr>nt_previous_busy_time_us := current, nt_busy_elapsed_seconds := Fin 0\<rparr>
                   in if \<not> have_rate then (None, t\<lparr>nt_last_busy_valid := False\<rparr>)
                      else
                        let percent = infiltratr_clamp_double c percent (Fin 0) (Fin 100)
                        in (Some percent, t\<lparr>nt_last_busy_percent := percent, nt_last_busy_valid := True\<rparr>))"

text \<open>What an attribute reads as; an absent one reads as nothing.\<close>

definition attribute :: "(string \<Rightarrow> u64 option) \<Rightarrow> string \<Rightarrow> u64 option" where
  "attribute files path = (if path = [] then None else files path)"

definition lsm_npu_telemetry_refresh ::
    "common \<Rightarrow> (rat \<Rightarrow> rat) \<Rightarrow> (string \<Rightarrow> u64 option) \<Rightarrow> npu_telemetry \<Rightarrow> npu_info \<Rightarrow> double \<Rightarrow>
     bool \<times> npu_telemetry \<times> npu_info" where
  "lsm_npu_telemetry_refresh c ld files t npu elapsed_seconds =
     (let (utilization, t) = (case attribute files (nt_utilization t) of
            Some v \<Rightarrow> (Some (infiltratr_clamp_double c (double_of_word v) (Fin 0) (Fin 100)), t)
          | None \<Rightarrow> refresh_busy_time c ld files t elapsed_seconds);
          used = attribute files (nt_memory_used t);
          total_bytes = (case attribute files (nt_memory_total t) of None \<Rightarrow> None | Some v \<Rightarrow> if 0 < v then Some v else None);
          clock = attribute files (nt_clock t);
          temperature = attribute files (nt_temperature t);
          power = attribute files (nt_power t);
          any = (utilization \<noteq> None \<or> used \<noteq> None \<or> total_bytes \<noteq> None \<or> clock \<noteq> None \<or> temperature \<noteq> None \<or> power \<noteq> None)
      in (any, t, npu\<lparr>
        np_utilization_percent := (case utilization of None \<Rightarrow> Fin 0 | Some p \<Rightarrow> p),
        np_memory_percent := (case (used, total_bytes) of (Some u, Some n) \<Rightarrow> infiltratr_percent_u64 c u n | _ \<Rightarrow> Fin 0),
        np_memory_used_bytes := (case used of None \<Rightarrow> 0 | Some u \<Rightarrow> u),
        np_memory_total_bytes := (case total_bytes of None \<Rightarrow> 0 | Some n \<Rightarrow> n),
        np_temperature_c := (case temperature of None \<Rightarrow> NaN | Some v \<Rightarrow> ddiv (double_of_word v) (Fin 1000)),
        np_clock_mhz := (case clock of None \<Rightarrow> NaN | Some v \<Rightarrow> double_of_word v),
        np_power_watts := (case power of None \<Rightarrow> NaN | Some v \<Rightarrow> ddiv (double_of_word v) (Fin 1000000)),
        np_utilization_available := utilization \<noteq> None,
        np_memory_used_available := used \<noteq> None,
        np_memory_total_available := total_bytes \<noteq> None,
        np_temperature_available := temperature \<noteq> None,
        np_clock_available := clock \<noteq> None,
        np_power_available := power \<noteq> None,
        np_supported_metrics := any,
        np_metrics_source := (if any then infiltratr_copy_string c 96 (if nt_intel_ivpu t then ''Native Intel IVPU sysfs''
          else ''Native accelerator sysfs (explicit units)'') else [])\<rparr>))"

subsection \<open>Busy time as a counter stream\<close>

text \<open>
  One observation is a reading of the counter and the time since the last refresh; it is admissible
  when at least the minimal sampling time has passed. What it publishes is determined by the last
  two such observations.
\<close>

definition busy_update ::
    "common \<Rightarrow> (rat \<Rightarrow> rat) \<Rightarrow> string \<Rightarrow> double option \<Rightarrow> npu_telemetry \<Rightarrow> u64 \<times> double \<Rightarrow> double option \<times> npu_telemetry" where
  "busy_update c ld path shown t = (\<lambda>(reading, elapsed).
     refresh_busy_time c ld (\<lambda>_. Some reading) (t\<lparr>nt_busy_time_us := path\<rparr>) elapsed)"

definition busy_baseline :: "npu_telemetry \<Rightarrow> u64 option \<times> double" where
  "busy_baseline t = (if nt_busy_initialised t then Some (nt_previous_busy_time_us t) else None, nt_busy_elapsed_seconds t)"

definition busy_rate :: "common \<Rightarrow> (rat \<Rightarrow> rat) \<Rightarrow> u64 option \<times> double \<Rightarrow> u64 \<times> double \<Rightarrow> double option" where
  "busy_rate c ld = (\<lambda>(previous, waited) (reading, elapsed).
     case previous of None \<Rightarrow> None
     | Some p \<Rightarrow> (case infiltratr_u64_counter_rate c reading p (Fin (ld (1 / 10000))) (dadd waited elapsed) of
           (have_rate, percent) \<Rightarrow> if have_rate then Some (infiltratr_clamp_double c percent (Fin 0) (Fin 100)) else None))"

definition busy_admissible :: "u64 \<times> double \<Rightarrow> bool" where
  "busy_admissible = (\<lambda>(_, elapsed). \<exists>r. elapsed = Fin r \<and> is_double (Fin r) \<and> dle LSM_NPU_MIN_BUSY_SAMPLE_SECONDS elapsed)"

definition busy_waiting :: "npu_telemetry \<Rightarrow> bool" where
  "busy_waiting t \<longleftrightarrow> (\<exists>r. nt_busy_elapsed_seconds t = Fin r \<and> 0 \<le> r)"

lemma min_sample: "\<exists>m. LSM_NPU_MIN_BUSY_SAMPLE_SECONDS = Fin m \<and> 0 < m \<and> m \<le> 1"
proof -
  have "rnd 1 = 1" "rnd (1 / 2) = 1 / 2" using rnd_dyadic [of 1 0] rnd_dyadic [of 1 "- 1"] by simp_all
  then obtain r where "fl (9 / 10) = Fin r" "1 / 2 \<le> r" "r \<le> 1" using fl_between [of "1 / 2" 1 "9 / 10"] by auto
  then show ?thesis by (auto simp: LSM_NPU_MIN_BUSY_SAMPLE_SECONDS_def)
qed

lemma waited_enough:
  assumes "busy_waiting t" "busy_admissible (reading, elapsed)"
  shows "\<not> dle elapsed (Fin 0)" "\<not> dless (dadd (nt_busy_elapsed_seconds t) elapsed) LSM_NPU_MIN_BUSY_SAMPLE_SECONDS"
proof -
  obtain m where m: "LSM_NPU_MIN_BUSY_SAMPLE_SECONDS = Fin m" "0 < m" using min_sample by blast
  obtain w where w: "nt_busy_elapsed_seconds t = Fin w" "0 \<le> w" using assms(1) by (auto simp: busy_waiting_def)
  obtain r where r: "elapsed = Fin r" "is_double (Fin r)" "m \<le> r"
    using assms(2) by (auto simp: busy_admissible_def m(1))
  show "\<not> dle elapsed (Fin 0)" using r m by simp
  have "fl r = Fin r" using is_double_bound [OF r(2)] by (simp add: fl_exact)
  then have "dle (Fin r) (fl (w + r))" using fl_mono [of r "w + r"] w(2) by simp
  then have "dle (Fin m) (fl (w + r))" using r(3) by (cases "fl (w + r)") auto
  then show "\<not> dless (dadd (nt_busy_elapsed_seconds t) elapsed) LSM_NPU_MIN_BUSY_SAMPLE_SECONDS"
    unfolding m(1) w(1) r(1) by (cases "fl (w + r)") auto
qed

lemma waiting_refresh:
  assumes "busy_waiting t"
  shows "busy_waiting (snd (refresh_busy_time c ld files t elapsed))"
proof -
  obtain m where m: "LSM_NPU_MIN_BUSY_SAMPLE_SECONDS = Fin m" "0 < m" using min_sample by blast
  obtain w where w: "nt_busy_elapsed_seconds t = Fin w" "0 \<le> w" using assms by (auto simp: busy_waiting_def)
  have "\<exists>r. dadd (Fin w) elapsed = Fin r \<and> 0 \<le> r" if "\<not> dle elapsed (Fin 0)" "dless (dadd (Fin w) elapsed) (Fin m)"
  proof (cases elapsed)
    case (Fin e)
    then have "0 < e" using that by simp
    then have "dle (fl 0) (fl (w + e))" using w(2) by (intro fl_mono) simp
    then show ?thesis using that Fin by (cases "fl (w + e)") auto
  qed (use that in auto)
  then show ?thesis using w m
    by (auto simp: refresh_busy_time_def busy_waiting_def Let_def case_prod_unfold split: option.split)
qed

interpretation npu_busy: counter_stream "busy_update c ld (p # path)" busy_baseline "\<lambda>(reading, _). (Some reading, Fin 0)" "\<lambda>shown. shown"
    "busy_rate c ld" busy_admissible busy_waiting
  for c ld p path
proof
  fix t shown and ob :: "u64 \<times> double"
  let ?r = "busy_update c ld (p # path) shown t ob"
  obtain reading elapsed where ob: "ob = (reading, elapsed)" by (cases ob)
  show "busy_waiting t \<Longrightarrow> busy_waiting (snd ?r)"
    using waiting_refresh [of "t\<lparr>nt_busy_time_us := p # path\<rparr>"] by (simp add: ob busy_update_def busy_waiting_def)
  assume "busy_waiting t" "busy_admissible ob"
  then have "\<not> dle elapsed (Fin 0)" "\<not> dless (dadd (nt_busy_elapsed_seconds t) elapsed) LSM_NPU_MIN_BUSY_SAMPLE_SECONDS"
    using waited_enough [of t reading elapsed] by (simp_all add: ob)
  then show "busy_baseline (snd ?r) = (case ob of (reading, _) \<Rightarrow> (Some reading, Fin 0))" "fst ?r = busy_rate c ld (busy_baseline t) ob"
    by (auto simp: ob busy_update_def refresh_busy_time_def busy_baseline_def busy_rate_def Let_def case_prod_unfold)
qed

subsection \<open>What is published\<close>

definition last_busy_ok :: "npu_telemetry \<Rightarrow> bool" where
  "last_busy_ok t \<longleftrightarrow> is_percent (nt_last_busy_percent t)"

lemma clamped_percent:
  assumes "common_rates_ok c" "\<not> isnan d"
  shows "is_percent (infiltratr_clamp_double c d (Fin 0) (Fin 100))"
proof -
  have "infiltratr_clamp_double c d (Fin 0) (Fin 100) = (if dless d (Fin 0) then Fin 0 else if dless (Fin 100) d then Fin 100 else d)"
    using assms by (simp add: common_rates_ok_def)
  then show ?thesis using assms(2) by (cases d) auto
qed

lemma busy_percent:
  assumes "common_rates_ok c" "last_busy_ok t"
  shows "last_busy_ok (snd (refresh_busy_time c ld files t elapsed)) \<and>
    (\<forall>p. fst (refresh_busy_time c ld files t elapsed) = Some p \<longrightarrow> is_percent p)"
proof -
  have "\<not> isnan (snd (infiltratr_u64_counter_rate c current previous k interval))"
    if "fst (infiltratr_u64_counter_rate c current previous k interval)" for current previous k interval
  proof (cases "infiltratr_u64_counter_rate c current previous k interval")
    case (Pair have_rate percent)
    moreover have "have_rate" using that Pair by simp
    ultimately have "infiltratr_u64_counter_rate c current previous k interval = (True, percent)" by simp
    then have "\<exists>r. percent = Fin r" using assms(1) unfolding common_rates_ok_def by blast
    then show ?thesis using Pair by auto
  qed
  then show ?thesis using assms clamped_percent [OF assms(1)]
    by (auto simp: refresh_busy_time_def last_busy_ok_def Let_def case_prod_unfold split: option.split)
qed

definition npu_run ::
    "common \<Rightarrow> (rat \<Rightarrow> rat) \<Rightarrow> npu_telemetry \<times> npu_info \<Rightarrow> ((string \<Rightarrow> u64 option) \<times> double) list \<Rightarrow> npu_telemetry \<times> npu_info" where
  "npu_run c ld = foldl (\<lambda>(t, npu) (files, elapsed). snd (lsm_npu_telemetry_refresh c ld files t npu elapsed))"

lemma run_last_busy:
  assumes "common_rates_ok c" "last_busy_ok (fst s)"
  shows "last_busy_ok (fst (npu_run c ld s obs))"
proof (induction obs rule: rev_induct)
  case Nil
  then show ?case using assms by (simp add: npu_run_def)
next
  case (snoc ob obs)
  then show ?case using busy_percent [OF assms(1)]
    by (auto simp: npu_run_def lsm_npu_telemetry_refresh_def Let_def case_prod_unfold split: option.split)
qed

text \<open>
  After any history of refreshes from creation, the next one publishes percentages in 0 to 100, zero
  or NaN for what it could not measure, and reports success exactly when it measured something.
\<close>

theorem npu_refresh_publishes:
  assumes "common_rates_ok c" "lsm_npu_telemetry_create first_readable environment device = Some t0"
  shows "case npu_run c ld (t0, npu0) history of (t, npu) \<Rightarrow>
    case lsm_npu_telemetry_refresh c ld files t npu elapsed of (any, _, now) \<Rightarrow>
      is_percent (np_utilization_percent now) \<and> is_percent (np_memory_percent now) \<and>
      (\<not> np_utilization_available now \<longrightarrow> np_utilization_percent now = Fin 0) \<and>
      (\<not> np_memory_used_available now \<longrightarrow> np_memory_used_bytes now = 0) \<and>
      (np_memory_total_available now \<longleftrightarrow> 0 < np_memory_total_bytes now) \<and>
      (np_temperature_available now \<longleftrightarrow> np_temperature_c now \<noteq> NaN) \<and>
      (np_clock_available now \<longleftrightarrow> np_clock_mhz now \<noteq> NaN) \<and> (np_power_available now \<longleftrightarrow> np_power_watts now \<noteq> NaN) \<and>
      np_supported_metrics now = any \<and>
      (any \<longleftrightarrow> np_utilization_available now \<or> np_memory_used_available now \<or> np_memory_total_available now \<or>
        np_temperature_available now \<or> np_clock_available now \<or> np_power_available now)"
proof -
  have "last_busy_ok t0"
    using assms(2) by (auto simp: lsm_npu_telemetry_create_def Let_def last_busy_ok_def empty_telemetry_def split: if_splits)
  then have run: "last_busy_ok (fst (npu_run c ld (t0, npu0) history))" using run_last_busy [OF assms(1), of "(t0, npu0)"] by simp
  obtain t npu where now: "npu_run c ld (t0, npu0) history = (t, npu)" by (cases "npu_run c ld (t0, npu0) history")
  have busy: "is_percent p" if "fst (refresh_busy_time c ld files t elapsed) = Some p" for p
    using busy_percent [OF assms(1)] run now that by auto
  have word: "\<not> isnan (double_of_word v)" for v :: u64 by (simp add: double_of_nat_def)
  have percent: "is_percent (infiltratr_clamp_double c (double_of_word v) (Fin 0) (Fin 100))" for v :: u64
    by (rule clamped_percent [OF assms(1) word])
  have known: "double_of_word v \<noteq> NaN" "ddiv (double_of_word v) (Fin 1000) \<noteq> NaN" "ddiv (double_of_word v) (Fin 1000000) \<noteq> NaN" for v :: u64
  proof -
    obtain r where "double_of_word v = Fin r" using double_of_word_bounds [of v] by blast
    moreover have "fl x \<noteq> NaN" for x using fl_not_nan [of x] by (cases "fl x") auto
    ultimately show "double_of_word v \<noteq> NaN" "ddiv (double_of_word v) (Fin 1000) \<noteq> NaN" "ddiv (double_of_word v) (Fin 1000000) \<noteq> NaN" by simp_all
  qed
  have memory: "is_percent (infiltratr_percent_u64 c a b)" for a b 
  proof -
    obtain r where "infiltratr_percent_u64 c a b = Fin r" "0 \<le> r" "r \<le> 100" using assms(1) unfolding common_rates_ok_def by blast
    then show ?thesis by simp
  qed
  show ?thesis
    unfolding now prod.case lsm_npu_telemetry_refresh_def Let_def case_prod_unfold
    using busy percent known memory by (auto split: option.split)
qed

end
