(* ===== verification/Storage_Metadata.thy ===== *)
theory Storage_Metadata
  imports Common_Library
begin

text \<open>
  Labels of block devices from the device manager's cache (\<^verbatim>\<open>src/storage_metadata.c\<close>): the reader of
  one record and the classification of file systems and partition roles. Files are a parameter: the
  text under a path with whether reading or closing it failed. The label is proved to be the one of
  a reference reading of the record's lines, and never to be cut.
\<close>

record storage_metadata =
  sm_filesystem :: string
  sm_version :: string
  sm_partition_type :: string

definition gpt_partition_roles :: "(string \<times> string) list" where
  "gpt_partition_roles = [
    (''e3c9e316-0b5c-4db8-817d-f92df00215ae'', ''Microsoft Reserved''),
    (''21686148-6449-6e6f-744e-656564454649'', ''BIOS Boot''),
    (''c12a7328-f81f-11d2-ba4b-00a0c93ec93b'', ''EFI System''),
    (''de94bba4-06d1-4d40-a16a-bfd50179d6ac'', ''Windows Recovery''),
    (''ebd0a0a2-b9e5-4433-87c0-68b6b72699c7'', ''Microsoft Basic Data''),
    (''0657fd6d-a4ab-43c4-84e5-0933c84b4f4f'', ''Linux Swap''),
    (''a19d880f-05fc-4d3b-a006-743f0f84911e'', ''Linux RAID''),
    (''e6d6d379-f507-44c2-a23c-238f2a3df928'', ''Linux LVM''),
    (''ca7d7ccb-63ed-4c53-861c-1742536059cc'', ''Linux LUKS''),
    (''0fc63daf-8483-4772-8e79-3d69d8477de4'', ''Linux Filesystem''),
    (''7c3457ef-0000-11aa-aa11-00306543ecac'', ''Apple APFS''),
    (''48465300-0000-11aa-aa11-00306543ecac'', ''Apple HFS+'')]"

text \<open>The value up to the end of the line; \<open>None\<close> when it does not fit, the old one when it is empty.\<close>

definition capture_property :: "nat \<Rightarrow> string \<Rightarrow> string \<Rightarrow> string option" where
  "capture_property destination_size old v =
     (let t = takeWhile (\<lambda>x. x \<noteq> CR \<and> x \<noteq> LF) v
      in if destination_size \<le> length t then None else Some (if 0 < length t then t else old))"

definition filesystem_prefix :: string where "filesystem_prefix = ''E:ID_FS_TYPE=''"
definition version_prefix :: string where "version_prefix = ''E:ID_FS_VERSION=''"
definition partition_type_prefix :: string where "partition_type_prefix = ''E:ID_PART_ENTRY_TYPE=''"

definition metadata_line :: "common \<Rightarrow> storage_metadata \<Rightarrow> string \<Rightarrow> storage_metadata option" where
  "metadata_line c m line =
     (if line = [] \<or> List.last line \<noteq> LF then None
      else if infiltratr_string_starts_with c line filesystem_prefix
        then map_option (\<lambda>v. m\<lparr>sm_filesystem := v\<rparr>)
          (capture_property 64 (sm_filesystem m) (drop (length filesystem_prefix) line))
      else if infiltratr_string_starts_with c line version_prefix
        then map_option (\<lambda>v. m\<lparr>sm_version := v\<rparr>) (capture_property 64 (sm_version m) (drop (length version_prefix) line))
      else if infiltratr_string_starts_with c line partition_type_prefix
        then map_option (\<lambda>v. m\<lparr>sm_partition_type := v\<rparr>)
          (capture_property 64 (sm_partition_type m) (drop (length partition_type_prefix) line))
      else Some m)"

definition empty_metadata :: storage_metadata where
  "empty_metadata = \<lparr>sm_filesystem = [], sm_version = [], sm_partition_type = []\<rparr>"

definition read_metadata ::
    "common \<Rightarrow> (string \<Rightarrow> (string \<times> bool) option) \<Rightarrow> string \<Rightarrow> u32 \<Rightarrow> u32 \<Rightarrow> storage_metadata option" where
  "read_metadata c files data_root major_number minor_number =
     (let path = data_root @ ''/b'' @ nat_text (unat major_number) @ '':'' @ nat_text (unat minor_number)
      in if data_root = [] \<or> 4096 \<le> length path then None
         else case files path of
             None \<Rightarrow> None
           | Some (text, failed) \<Rightarrow>
               (case foldM (metadata_line c) empty_metadata (map c_str (fgets_chunks 512 text)) of
                  None \<Rightarrow> None
                | Some m \<Rightarrow> if failed then None else Some m))"

definition fat_variant :: "common \<Rightarrow> storage_metadata \<Rightarrow> string option" where
  "fat_variant c m =
     (let same = infiltratr_ascii_equal_ci c
      in if \<not> same (sm_filesystem m) ''vfat'' \<and> \<not> same (sm_filesystem m) ''msdos'' then None
         else if same (sm_version m) ''FAT12'' then Some ''FAT12''
         else if same (sm_version m) ''FAT16'' then Some ''FAT16''
         else if same (sm_version m) ''FAT32'' then Some ''FAT32''
         else None)"

definition partition_role :: "common \<Rightarrow> string \<Rightarrow> string option" where
  "partition_role c partition_type =
     (if partition_type = [] then None
      else map_option snd (find (\<lambda>(guid, _). infiltratr_ascii_equal_ci c partition_type guid) gpt_partition_roles))"

definition resolved_label :: "common \<Rightarrow> storage_metadata \<Rightarrow> string option" where
  "resolved_label c m =
     (if sm_filesystem m \<noteq> []
      then (case fat_variant c m of Some variant \<Rightarrow> Some variant | None \<Rightarrow> Some (sm_filesystem m))
      else partition_role c (sm_partition_type m))"

definition lsm_storage_metadata_type_label ::
    "common \<Rightarrow> (string \<Rightarrow> (string \<times> bool) option) \<Rightarrow> string \<Rightarrow> u32 \<Rightarrow> u32 \<Rightarrow> nat \<Rightarrow> string option" where
  "lsm_storage_metadata_type_label c files data_root major_number minor_number label_size =
     (if label_size = 0 then None
      else case read_metadata c files data_root major_number minor_number of
          None \<Rightarrow> None
        | Some m \<Rightarrow> (case resolved_label c m of
              None \<Rightarrow> None
            | Some resolved \<Rightarrow> if label_size \<le> length resolved then None else Some resolved))"

subsection \<open>Reference reading\<close>

text \<open>The last non-empty value the entries give a property.\<close>

definition property_value :: "string \<Rightarrow> string list \<Rightarrow> string" where
  "property_value prefix entries =
     foldl (\<lambda>old entry. if starts_with entry prefix \<and> drop (length prefix) entry \<noteq> [] then drop (length prefix) entry else old)
       [] entries"

text \<open>An entry of the cache: short lines without line ends or NUL, whose values fit.\<close>

definition record_ok :: "string \<Rightarrow> bool" where
  "record_ok entry \<longleftrightarrow> length entry < 511 \<and> CR \<notin> set entry \<and> LF \<notin> set entry \<and> NUL \<notin> set entry \<and>
     (\<forall>prefix\<in>{filesystem_prefix, version_prefix, partition_type_prefix}.
        starts_with entry prefix \<longrightarrow> length (drop (length prefix) entry) < 64)"

definition record_text :: "string list \<Rightarrow> string" where
  "record_text entries = concat (map (\<lambda>entry. entry @ [LF]) entries)"

lemma fgets_records:
  "list_all record_ok entries \<Longrightarrow> fgets_chunks 512 (record_text entries) = map (\<lambda>entry. entry @ [LF]) entries"
proof (induction entries)
  case (Cons entry entries)
  let ?rest = "record_text entries"
  have whole: "record_text (entry # entries) = entry @ LF # ?rest" by (simp add: record_text_def)
  have short: "length entry < 511" "LF \<notin> set entry" using Cons.prems by (simp_all add: record_ok_def)
  have "take 511 (entry @ LF # ?rest) = entry @ LF # take (510 - length entry) ?rest"
    using short(1) by (simp add: take_Cons')
  then have "fgets_line 512 (entry @ LF # ?rest) = entry @ [LF]"
    using short(2) by (simp add: fgets_line_def strchr_split_append)
  then show ?case using Cons unfolding whole by (simp add: fgets_chunks.simps [of 512 "entry @ LF # ?rest"])
qed (simp add: record_text_def)

lemma prefix_clash: "take m s = t \<Longrightarrow> take n s = u \<Longrightarrow> take (min m n) t = take (min m n) u"
  by (metis take_take min.commute min.left_idem)

lemma distinct_prefixes:
  "starts_with entry filesystem_prefix \<Longrightarrow> \<not> starts_with entry version_prefix \<and> \<not> starts_with entry partition_type_prefix"
  "starts_with entry version_prefix \<Longrightarrow> \<not> starts_with entry partition_type_prefix"
  unfolding starts_with_def filesystem_prefix_def version_prefix_def partition_type_prefix_def
  by (auto dest: prefix_clash)

lemma c_str_entry: "record_ok entry \<Longrightarrow> c_str (entry @ [LF]) = entry @ [LF]"
  by (simp add: record_ok_def c_str_def takeWhile_eq_all_conv) (metis)

lemma starts_with_line:
  assumes "LF \<notin> set prefix"
  shows "starts_with (entry @ [LF]) prefix \<longleftrightarrow> starts_with entry prefix"
proof (cases "length prefix \<le> length entry")
  case False
  then have "LF \<in> set (take (length prefix) (entry @ [LF]))" by simp
  then show ?thesis using False assms by (auto simp: starts_with_def dest: arg_cong [where f = length])
qed (simp add: starts_with_def)

lemma captured_line:
  assumes "record_ok entry" "starts_with entry prefix" "length (drop (length prefix) entry) < 64"
  shows "capture_property 64 old (drop (length prefix) (entry @ [LF])) =
    Some (if drop (length prefix) entry \<noteq> [] then drop (length prefix) entry else old)"
proof -
  let ?v = "drop (length prefix) entry"
  have "length prefix \<le> length entry" using assms(2) by (auto simp: starts_with_def dest: arg_cong [where f = length])
  then have "drop (length prefix) (entry @ [LF]) = ?v @ [LF]" by simp
  moreover have "\<forall>x\<in>set ?v. x \<noteq> CR \<and> x \<noteq> LF" using assms(1) by (auto simp: record_ok_def dest: in_set_dropD)
  ultimately have "takeWhile (\<lambda>x. x \<noteq> CR \<and> x \<noteq> LF) (drop (length prefix) (entry @ [LF])) = ?v"
    by (simp add: takeWhile_append)
  then show ?thesis using assms(3) by (simp add: capture_property_def Let_def)
qed

lemma metadata_entry:
  assumes "common_text_ok c" "record_ok entry"
  shows "metadata_line c m (entry @ [LF]) = Some (
     let pick = (\<lambda>prefix old. if starts_with entry prefix \<and> drop (length prefix) entry \<noteq> [] then drop (length prefix) entry else old)
     in \<lparr>sm_filesystem = pick filesystem_prefix (sm_filesystem m), sm_version = pick version_prefix (sm_version m),
        sm_partition_type = pick partition_type_prefix (sm_partition_type m)\<rparr>)"
proof -
  have plain: "LF \<notin> set filesystem_prefix" "LF \<notin> set version_prefix" "LF \<notin> set partition_type_prefix"
    by (simp_all add: filesystem_prefix_def version_prefix_def partition_type_prefix_def)
  have fits: "length (drop (length prefix) entry) < 64"
    if "starts_with entry prefix" "prefix \<in> {filesystem_prefix, version_prefix, partition_type_prefix}" for prefix
    using assms(2) that unfolding record_ok_def by blast
  note captured = captured_line [OF assms(2) _ fits]
  consider (fs) "starts_with entry filesystem_prefix"
    | (version) "\<not> starts_with entry filesystem_prefix" "starts_with entry version_prefix"
    | (type) "\<not> starts_with entry filesystem_prefix" "\<not> starts_with entry version_prefix" "starts_with entry partition_type_prefix"
    | (none) "\<not> starts_with entry filesystem_prefix" "\<not> starts_with entry version_prefix" "\<not> starts_with entry partition_type_prefix"
    by blast
  then show ?thesis
  proof cases
    case fs
    then show ?thesis using assms(1) distinct_prefixes(1) [OF fs] captured [OF fs fs]
      by (simp add: metadata_line_def common_text_ok_def starts_with_line [OF plain(1)] del: drop_append)
  next
    case version
    then show ?thesis using assms(1) distinct_prefixes(2) [OF version(2)] captured [OF version(2) version(2)]
      by (simp add: metadata_line_def common_text_ok_def starts_with_line [OF plain(1)] starts_with_line [OF plain(2)] del: drop_append)
  next
    case type
    then show ?thesis using assms(1) captured [OF type(3) type(3)]
      by (simp add: metadata_line_def common_text_ok_def starts_with_line [OF plain(1)] starts_with_line [OF plain(2)]
          starts_with_line [OF plain(3)] del: drop_append)
  next
    case none
    then show ?thesis using assms(1)
      by (simp add: metadata_line_def common_text_ok_def starts_with_line [OF plain(1)] starts_with_line [OF plain(2)]
          starts_with_line [OF plain(3)])
  qed
qed

lemma metadata_entries:
  assumes "common_text_ok c" "list_all record_ok entries"
  shows "foldM (metadata_line c) empty_metadata (map c_str (fgets_chunks 512 (record_text entries))) =
    Some \<lparr>sm_filesystem = property_value filesystem_prefix entries, sm_version = property_value version_prefix entries,
      sm_partition_type = property_value partition_type_prefix entries\<rparr>"
proof -
  have "map c_str (fgets_chunks 512 (record_text entries)) = map (\<lambda>entry. entry @ [LF]) entries"
    using assms(2) by (simp add: fgets_records list_all_iff c_str_entry)
  moreover have "foldM (metadata_line c) empty_metadata (map (\<lambda>entry. entry @ [LF]) entries) =
    Some \<lparr>sm_filesystem = property_value filesystem_prefix entries, sm_version = property_value version_prefix entries,
      sm_partition_type = property_value partition_type_prefix entries\<rparr>"
    using assms(2)
  proof (induction entries rule: rev_induct)
    case (snoc entry entries)
    then show ?case using metadata_entry [OF assms(1), of entry]
      by (simp add: foldM_append property_value_def Let_def)
  qed (simp add: property_value_def empty_metadata_def)
  ultimately show ?thesis by simp
qed

text \<open>
  The label of a device is the one its record states: the file system last named (its FAT variant
  when the version names one), or else the role of the partition type last named, given whole or not
  at all.
\<close>

theorem storage_label_exact:
  assumes "common_text_ok c" "list_all record_ok entries" "0 < label_size" "data_root \<noteq> []"
    and "files (data_root @ ''/b'' @ nat_text (unat a) @ '':'' @ nat_text (unat b)) = Some (record_text entries, False)"
    and "length (data_root @ ''/b'' @ nat_text (unat a) @ '':'' @ nat_text (unat b)) < 4096"
  shows "lsm_storage_metadata_type_label c files data_root a b label_size =
    (case resolved_label c \<lparr>sm_filesystem = property_value filesystem_prefix entries,
        sm_version = property_value version_prefix entries,
        sm_partition_type = property_value partition_type_prefix entries\<rparr> of
       None \<Rightarrow> None | Some l \<Rightarrow> if length l < label_size then Some l else None)"
proof -
  have "read_metadata c files data_root a b = Some \<lparr>sm_filesystem = property_value filesystem_prefix entries,
      sm_version = property_value version_prefix entries, sm_partition_type = property_value partition_type_prefix entries\<rparr>"
    using assms(4-6) metadata_entries [OF assms(1,2)] by (simp add: read_metadata_def Let_def)
  then show ?thesis using assms(3) by (simp add: lsm_storage_metadata_type_label_def not_less split: option.split)
qed

end
