(* ===== verification/Filesystem_Inventory.thy ===== *)
theory Filesystem_Inventory
  imports Mountinfo String_Order "HOL-Library.Multiset"
begin

text \<open>
  The inventory of mounted file systems (\<^verbatim>\<open>src/filesystem_inventory.c\<close>): the visitor that turns each
  record of the mount table into an item with its capacity, and the collection that is published
  sorted or not at all. \<^verbatim>\<open>statvfs\<close>, the paths and the allocator are parameters. The collection is
  proved to hold exactly the mounts of a well-formed table, with consistent capacities.
\<close>

record statvfs_info =
  sv_frsize :: u64
  sv_bsize :: u64
  sv_blocks :: u64
  sv_bfree :: u64
  sv_bavail :: u64

record filesystem_info =
  fsi_source :: string
  fsi_target :: string
  fsi_filesystem :: string
  fsi_total_bytes :: u64
  fsi_free_bytes :: u64
  fsi_used_bytes :: u64
  fsi_available_bytes :: u64
  fsi_used_percent :: u32
  fsi_capacity_available :: bool
  fsi_normally_visible :: bool

record filesystem_collector =
  fc_items :: "filesystem_info list"
  fc_allocation_failed :: bool

record inventory_host =
  ih_procfs_root :: string
  ih_join :: "string \<Rightarrow> string \<Rightarrow> string option" \<comment> \<open>\<^verbatim>\<open>lsm_join_path\<close> within \<^verbatim>\<open>LSM_PATH_LEN\<close>\<close>
  ih_fopen :: "string \<Rightarrow> string \<Rightarrow> text_stream option"
  ih_statvfs :: "string \<Rightarrow> statvfs_info option"
  ih_reserve :: "nat \<Rightarrow> bool" \<comment> \<open>room for that many items\<close>

definition filesystem_type_is_desktop_storage :: "string \<Rightarrow> bool" where
  "filesystem_type_is_desktop_storage type \<longleftrightarrow> type \<in> set [
     ''ext2'', ''ext3'', ''ext4'', ''xfs'', ''btrfs'', ''f2fs'', ''jfs'', ''reiserfs'',
     ''vfat'', ''msdos'', ''exfat'', ''ntfs'', ''ntfs3'', ''fuseblk'', ''fuse'',
     ''zfs'', ''bcachefs'', ''udf'', ''iso9660'', ''nfs'', ''nfs4'', ''cifs'', ''smb3'',
     ''sshfs'', ''9p'']"

definition filesystem_default_visible :: "common \<Rightarrow> mount_info_entry \<Rightarrow> bool" where
  "filesystem_default_visible c entry =
     (if mi_target entry = ''/'' then True
      else if infiltratr_string_starts_with c (mi_source entry) ''/dev/'' then True
      else filesystem_type_is_desktop_storage (mi_filesystem entry))"

text \<open>The conversion of a non-negative \<^verbatim>\<open>double\<close> below \<^verbatim>\<open>UINT_MAX\<close> drops the fraction.\<close>

definition double_to_unsigned :: "double \<Rightarrow> u32" where
  "double_to_unsigned d = (case d of Fin r \<Rightarrow> word_of_int \<lfloor>r\<rfloor> | _ \<Rightarrow> 0)"

definition collect_capacity :: "common \<Rightarrow> inventory_host \<Rightarrow> filesystem_info \<Rightarrow> filesystem_info" where
  "collect_capacity c host item =
     (case ih_statvfs host (fsi_target item) of
        None \<Rightarrow> item
      | Some information \<Rightarrow>
          let block_size = (if sv_frsize information \<noteq> 0 then sv_frsize information else sv_bsize information);
              multiply = (\<lambda>n. infiltratr_u64_multiply_checked c n block_size)
          in case (multiply (sv_blocks information), multiply (sv_bfree information), multiply (sv_bavail information)) of
               (Some total_size, Some free_all, Some available) \<Rightarrow>
                 let free_bytes = (if free_all < total_size then free_all else total_size);
                     used_bytes = (if free_bytes \<le> total_size then total_size - free_bytes else 0);
                     filled = item\<lparr>fsi_capacity_available := True, fsi_total_bytes := total_size, fsi_free_bytes := free_bytes,
                       fsi_available_bytes := (if available < total_size then available else total_size), fsi_used_bytes := used_bytes\<rparr>
                 in if total_size \<noteq> 0
                    then filled\<lparr>fsi_used_percent := double_to_unsigned (infiltratr_percent_u64 c used_bytes total_size)\<rparr>
                    else filled
             | _ \<Rightarrow> item)"

text \<open>The item for one mount record, zeroed before it is filled.\<close>

definition filesystem_item :: "common \<Rightarrow> inventory_host \<Rightarrow> mount_info_entry \<Rightarrow> filesystem_info" where
  "filesystem_item c host entry =
     collect_capacity c host
       \<lparr>fsi_source = infiltratr_copy_string c LSM_PATH_LEN (mi_source entry),
        fsi_target = infiltratr_copy_string c LSM_PATH_LEN (mi_target entry),
        fsi_filesystem = infiltratr_copy_string c 64 (mi_filesystem entry),
        fsi_total_bytes = 0, fsi_free_bytes = 0, fsi_used_bytes = 0, fsi_available_bytes = 0, fsi_used_percent = 0,
        fsi_capacity_available = False, fsi_normally_visible = filesystem_default_visible c entry\<rparr>"

definition append_mount ::
    "common \<Rightarrow> inventory_host \<Rightarrow> mount_info_entry \<Rightarrow> filesystem_collector \<Rightarrow> bool \<times> filesystem_collector" where
  "append_mount c host entry collector =
     (if \<not> ih_reserve host (length (fc_items collector) + 1)
      then (False, collector\<lparr>fc_allocation_failed := True\<rparr>)
      else (True, collector\<lparr>fc_items := fc_items collector @ [filesystem_item c host entry]\<rparr>))"

definition compare_filesystems :: "filesystem_info \<Rightarrow> filesystem_info \<Rightarrow> int" where
  "compare_filesystems left right =
     (let target_order = strcmp (fsi_target left) (fsi_target right)
      in if target_order \<noteq> 0 then target_order else strcmp (fsi_source left) (fsi_source right))"

definition lsm_filesystem_inventory_collect :: "common \<Rightarrow> inventory_host \<Rightarrow> filesystem_info list option" where
  "lsm_filesystem_inventory_collect c host =
     (case ih_join host (ih_procfs_root host) ''/self/mountinfo'' of
        None \<Rightarrow> None
      | Some path \<Rightarrow>
          (case lsm_mountinfo_visit_file_checked c (ih_fopen host) path (append_mount c host)
              \<lparr>fc_items = [], fc_allocation_failed = False\<rparr> of
             (read_ok, visited, collector) \<Rightarrow>
               if \<not> read_ok \<or> fc_allocation_failed collector then None
               else if fc_items collector = [] then Some []
               else Some (qsort compare_filesystems (fc_items collector))))"

subsection \<open>The collection\<close>

definition filesystem_rank :: "filesystem_info \<Rightarrow> nat list \<times> nat list" where
  "filesystem_rank item = (byte_values (fsi_target item), byte_values (fsi_source item))"

lemma qsort_filesystems: "qsort compare_filesystems items = sort_key filesystem_rank items"
proof (rule qsort_sort_key)
  fix x y :: filesystem_info
  have "strcmp (fsi_target x) (fsi_target y) < 0 \<longleftrightarrow> byte_values (fsi_target x) < byte_values (fsi_target y)"
    "strcmp (fsi_target x) (fsi_target y) = 0 \<longleftrightarrow> fsi_target x = fsi_target y"
    by (simp_all add: strcmp_less strcmp_0)
  then show "compare_filesystems x y \<le> 0 \<longleftrightarrow> filesystem_rank x \<le> filesystem_rank y"
    using strcmp_le [of "fsi_source x" "fsi_source y"]
    by (auto simp: compare_filesystems_def filesystem_rank_def Let_def less_eq_prod_def byte_values_inj)
qed

lemma append_mount_foldM:
  "foldM (accept_entry (append_mount c host)) collector entries = Some collector' \<longleftrightarrow>
     (\<forall>n. length (fc_items collector) < n \<and> n \<le> length (fc_items collector) + length entries \<longrightarrow> ih_reserve host n) \<and>
     collector' = collector\<lparr>fc_items := fc_items collector @ map (filesystem_item c host) entries\<rparr>"
proof (induction entries arbitrary: collector)
  case Nil
  then show ?case by auto
next
  case (Cons entry entries)
  let ?k = "length (fc_items collector)"
  have step: "?k < n \<and> n \<le> ?k + length (entry # entries) \<longleftrightarrow> n = ?k + 1 \<or> ?k + 1 < n \<and> n \<le> ?k + 1 + length entries" for n
    by (cases "n = ?k + 1") auto
  have split: "(\<forall>n. ?k < n \<and> n \<le> ?k + length (entry # entries) \<longrightarrow> ih_reserve host n) \<longleftrightarrow>
      ih_reserve host (?k + 1) \<and> (\<forall>n. ?k + 1 < n \<and> n \<le> ?k + 1 + length entries \<longrightarrow> ih_reserve host n)"
    unfolding step by blast
  show ?case unfolding split using Cons.IH by (simp add: accept_entry_def append_mount_def)
qed

subsection \<open>Capacities\<close>

definition capacity_consistent :: "filesystem_info \<Rightarrow> bool" where
  "capacity_consistent item \<longleftrightarrow>
     (if fsi_capacity_available item
      then unat (fsi_used_bytes item) + unat (fsi_free_bytes item) = unat (fsi_total_bytes item) \<and>
        fsi_available_bytes item \<le> fsi_total_bytes item \<and> fsi_used_percent item \<le> 100
      else fsi_total_bytes item = 0 \<and> fsi_free_bytes item = 0 \<and> fsi_used_bytes item = 0 \<and>
        fsi_available_bytes item = 0 \<and> fsi_used_percent item = 0)"

lemma double_to_unsigned_percent:
  assumes "is_percent d"
  shows "double_to_unsigned d \<le> 100"
proof -
  obtain r where r: "d = Fin r" "0 \<le> r" "r \<le> 100" using assms by (cases d) (auto simp: is_percent_def)
  then have "0 \<le> \<lfloor>r\<rfloor>" "\<lfloor>r\<rfloor> \<le> 100" by (simp, linarith)
  then have "uint (word_of_int \<lfloor>r\<rfloor> :: u32) = \<lfloor>r\<rfloor>" by (simp add: unsigned_of_int take_bit_int_eq_self)
  then show ?thesis using \<open>\<lfloor>r\<rfloor> \<le> 100\<close> r(1) by (simp add: double_to_unsigned_def word_le_def)
qed

lemma collect_capacity_consistent:
  assumes "common_rates_ok c" "capacity_consistent item" "\<not> fsi_capacity_available item"
  shows "capacity_consistent (collect_capacity c host item)"
proof -
  have percent: "double_to_unsigned (infiltratr_percent_u64 c a b) \<le> 100" for a b
    by (rule double_to_unsigned_percent) (rule percent_u64_percent [OF assms(1)])
  have split: "unat (all - unused) + unat unused = unat all" if "unused \<le> all" for all unused :: u64
    using that by (simp add: unat_sub word_le_nat_alt)
  show ?thesis
  proof (cases "collect_capacity c host item = item")
    case False
    then obtain all unused available where "collect_capacity c host item =
        (let free_bytes = (if unused < all then unused else all);
             used_bytes = (if free_bytes \<le> all then all - free_bytes else 0);
             filled = item\<lparr>fsi_capacity_available := True, fsi_total_bytes := all, fsi_free_bytes := free_bytes,
               fsi_available_bytes := (if available < all then available else all), fsi_used_bytes := used_bytes\<rparr>
         in if all \<noteq> 0 then filled\<lparr>fsi_used_percent := double_to_unsigned (infiltratr_percent_u64 c used_bytes all)\<rparr>
            else filled)"
      by (auto simp: collect_capacity_def Let_def split: option.split_asm)
    moreover have "fsi_used_percent item \<le> 100" using assms(2,3) by (simp add: capacity_consistent_def)
    moreover define kept where "kept = (if unused < all then unused else all)"
    moreover have "kept \<le> all" "(if available < all then available else all) \<le> all" by (auto simp: kept_def)
    ultimately show ?thesis
      using split [of kept all] percent by (simp add: capacity_consistent_def Let_def)
  qed (use assms(2) in simp)
qed

lemma filesystem_item_consistent:
  assumes "common_rates_ok c"
  shows "capacity_consistent (filesystem_item c host entry)"
  unfolding filesystem_item_def
  by (rule collect_capacity_consistent [OF assms]) (simp_all add: capacity_consistent_def)

subsection \<open>Properties\<close>

lemma complete_record_fits:
  assumes "complete_record c line = Some entry"
  shows "length (mi_source entry) < LSM_PATH_LEN" "length (mi_target entry) < LSM_PATH_LEN" "length (mi_filesystem entry) < 64"
proof -
  have decoded: "length t < cap" if "decode_mount_field s cap = Some t" for s t cap
    using that decode_from_bound [of cap 0 s t] by (auto simp: decode_mount_field_def split: if_split_asm)
  from assms obtain device source target filesystem where "decode_entry c device source target filesystem = Some entry"
    by (auto simp: complete_record_def parse_mount_line_def split: if_split_asm prod.split_asm option.split_asm)
  then show "length (mi_source entry) < LSM_PATH_LEN" "length (mi_target entry) < LSM_PATH_LEN" "length (mi_filesystem entry) < 64"
    by (auto simp: decode_entry_def decoded split: option.split_asm prod.split_asm)
qed

lemma filesystem_item_names:
  assumes "common_text_ok c" "complete_record c line = Some entry"
  shows "fsi_source (filesystem_item c host entry) = mi_source entry"
    "fsi_target (filesystem_item c host entry) = mi_target entry"
    "fsi_filesystem (filesystem_item c host entry) = mi_filesystem entry"
proof -
  have "fsi_source (collect_capacity c host item) = fsi_source item" "fsi_target (collect_capacity c host item) = fsi_target item"
    "fsi_filesystem (collect_capacity c host item) = fsi_filesystem item" for item
    by (auto simp: collect_capacity_def Let_def split: option.split)
  then show "fsi_source (filesystem_item c host entry) = mi_source entry"
    "fsi_target (filesystem_item c host entry) = mi_target entry"
    "fsi_filesystem (filesystem_item c host entry) = mi_filesystem entry"
    using assms(1) complete_record_fits [OF assms(2)] by (simp_all add: filesystem_item_def common_text_ok_def)
qed

definition same_mount :: "filesystem_info \<Rightarrow> mount_info_entry \<Rightarrow> bool" where
  "same_mount item entry \<longleftrightarrow> fsi_source item = mi_source entry \<and> fsi_target item = mi_target entry \<and>
     fsi_filesystem item = mi_filesystem entry"

lemma inventory_collected:
  "lsm_filesystem_inventory_collect c host = Some items \<longleftrightarrow>
     (\<exists>path stream entries. ih_join host (ih_procfs_root host) ''/self/mountinfo'' = Some path \<and>
        (ih_fopen host path ''re'' = Some stream \<or> ih_fopen host path ''re'' = None \<and> ih_fopen host path ''r'' = Some stream) \<and>
        \<not> ts_error stream \<and> ts_close_ok stream \<and>
        map (complete_record c) (getline_chunks (ts_content stream)) = map Some entries \<and>
        (\<forall>n. 0 < n \<and> n \<le> length entries \<longrightarrow> ih_reserve host n) \<and>
        items = sort_key filesystem_rank (map (filesystem_item c host) entries))"
proof -
  let ?start = "\<lparr>fc_items = [], fc_allocation_failed = False\<rparr>"
  have "lsm_filesystem_inventory_collect c host = Some items \<longleftrightarrow>
      (\<exists>path visited collector. ih_join host (ih_procfs_root host) ''/self/mountinfo'' = Some path \<and>
        lsm_mountinfo_visit_file_checked c (ih_fopen host) path (append_mount c host) ?start = (True, visited, collector) \<and>
        \<not> fc_allocation_failed collector \<and> items = sort_key filesystem_rank (fc_items collector))"
    by (auto simp: lsm_filesystem_inventory_collect_def qsort_filesystems split: option.split prod.split)
  moreover have "lsm_mountinfo_visit_file_checked c (ih_fopen host) path (append_mount c host) ?start = (True, visited, collector) \<longleftrightarrow>
      (\<exists>stream entries.
        (ih_fopen host path ''re'' = Some stream \<or> ih_fopen host path ''re'' = None \<and> ih_fopen host path ''r'' = Some stream) \<and>
        \<not> ts_error stream \<and> ts_close_ok stream \<and>
        map (complete_record c) (getline_chunks (ts_content stream)) = map Some entries \<and> visited = length entries \<and>
        (\<forall>n. 0 < n \<and> n \<le> length entries \<longrightarrow> ih_reserve host n) \<and>
        collector = \<lparr>fc_items = map (filesystem_item c host) entries, fc_allocation_failed = False\<rparr>)" for path visited collector
    unfolding mountinfo_visit_complete append_mount_foldM by simp
  ultimately show ?thesis by fastforce
qed

text \<open>
  C17. The inventory is published exactly when the mount table could be opened and was read to the end
  without error, every line of it is a well-formed record and memory sufficed; it then holds each
  mount once with its uncut names, ordered by mount point and source, and every capacity is
  consistent: used and free bytes add up to the total, the rest is within it, and a capacity that
  could not be read or does not fit 64 bits is withheld as zeros.
\<close>

theorem filesystem_inventory_exact:
  assumes "common_text_ok c" "common_rates_ok c"
  shows "(lsm_filesystem_inventory_collect c host \<noteq> None \<longleftrightarrow>
      (\<exists>path stream entries. ih_join host (ih_procfs_root host) ''/self/mountinfo'' = Some path \<and>
        (ih_fopen host path ''re'' = Some stream \<or> ih_fopen host path ''re'' = None \<and> ih_fopen host path ''r'' = Some stream) \<and>
        \<not> ts_error stream \<and> ts_close_ok stream \<and>
        map (complete_record c) (getline_chunks (ts_content stream)) = map Some entries \<and>
        (\<forall>n. 0 < n \<and> n \<le> length entries \<longrightarrow> ih_reserve host n))) \<and>
    (\<forall>items. lsm_filesystem_inventory_collect c host = Some items \<longrightarrow>
      sorted (map filesystem_rank items) \<and> list_all capacity_consistent items \<and>
      (\<exists>path stream entries shown. ih_join host (ih_procfs_root host) ''/self/mountinfo'' = Some path \<and>
        (ih_fopen host path ''re'' = Some stream \<or> ih_fopen host path ''re'' = None \<and> ih_fopen host path ''r'' = Some stream) \<and>
        map (complete_record c) (getline_chunks (ts_content stream)) = map Some entries \<and>
        mset items = mset shown \<and> list_all2 same_mount shown entries))"
proof (intro conjI allI impI)
  show "lsm_filesystem_inventory_collect c host \<noteq> None \<longleftrightarrow>
      (\<exists>path stream entries. ih_join host (ih_procfs_root host) ''/self/mountinfo'' = Some path \<and>
        (ih_fopen host path ''re'' = Some stream \<or> ih_fopen host path ''re'' = None \<and> ih_fopen host path ''r'' = Some stream) \<and>
        \<not> ts_error stream \<and> ts_close_ok stream \<and>
        map (complete_record c) (getline_chunks (ts_content stream)) = map Some entries \<and>
        (\<forall>n. 0 < n \<and> n \<le> length entries \<longrightarrow> ih_reserve host n))"
    unfolding not_None_eq inventory_collected by blast
next
  fix items assume "lsm_filesystem_inventory_collect c host = Some items"
  then obtain path stream entries where read: "ih_join host (ih_procfs_root host) ''/self/mountinfo'' = Some path"
    "ih_fopen host path ''re'' = Some stream \<or> ih_fopen host path ''re'' = None \<and> ih_fopen host path ''r'' = Some stream"
    "map (complete_record c) (getline_chunks (ts_content stream)) = map Some entries"
    and items: "items = sort_key filesystem_rank (map (filesystem_item c host) entries)"
    unfolding inventory_collected by blast
  show "sorted (map filesystem_rank items)" by (simp add: items)
  show "list_all capacity_consistent items"
    using filesystem_item_consistent [OF assms(2)] by (auto simp: items list_all_iff)
  have "same_mount (filesystem_item c host entry) entry" if "entry \<in> set entries" for entry
  proof -
    from that have "Some entry \<in> set (map (complete_record c) (getline_chunks (ts_content stream)))" unfolding read(3) by simp
    then obtain line where "complete_record c line = Some entry" by auto
    then show ?thesis by (simp add: same_mount_def filesystem_item_names [OF assms(1)])
  qed
  then have "list_all2 same_mount (map (filesystem_item c host) entries) entries"
    by (simp add: list_all2_map1 list.rel_refl_strong)
  moreover have "mset items = mset (map (filesystem_item c host) entries)" by (simp add: items)
  ultimately show "\<exists>path stream entries shown. ih_join host (ih_procfs_root host) ''/self/mountinfo'' = Some path \<and>
        (ih_fopen host path ''re'' = Some stream \<or> ih_fopen host path ''re'' = None \<and> ih_fopen host path ''r'' = Some stream) \<and>
        map (complete_record c) (getline_chunks (ts_content stream)) = map Some entries \<and>
        mset items = mset shown \<and> list_all2 same_mount shown entries"
    using read by blast
qed

definition example_table :: string where
  "example_table = mount_text ''36'' ''35'' ''8:1'' ''/'' ''/my disk'' ''rw'' [] ''ext4'' ''/dev/sda1'' ''rw''"

definition example_host :: inventory_host where
  "example_host = \<lparr>ih_procfs_root = ''/proc'', ih_join = (\<lambda>a b. Some (a @ b)),
     ih_fopen = (\<lambda>path mode. Some \<lparr>ts_content = example_table, ts_error = False, ts_close_ok = True\<rparr>),
     ih_statvfs = (\<lambda>_. None), ih_reserve = (\<lambda>_. True)\<rparr>"

lemma example_lines: "map (complete_record ref_common) (getline_chunks example_table) =
    map Some [\<lparr>mi_major_number = 8, mi_minor_number = 1, mi_source = ''/dev/sda1'', mi_target = ''/my disk'', mi_filesystem = ''ext4''\<rparr>]"
proof -
  have "getline_chunks example_table = [example_table]" unfolding example_table_def by code_simp
  moreover have "complete_record ref_common example_table =
      Some \<lparr>mi_major_number = 8, mi_minor_number = 1, mi_source = ''/dev/sda1'', mi_target = ''/my disk'', mi_filesystem = ''ext4''\<rparr>"
    unfolding example_table_def
    by (rule mount_roundtrip [OF ref_common_ok(1)])
      (simp_all add: plain_field_def path_field_def ascii_space_def LSM_PATH_LEN_def ref_mount_ids ref_device_number)
  ultimately show ?thesis by simp
qed

theorem filesystem_inventory_exact_witness:
  "\<exists>items. lsm_filesystem_inventory_collect ref_common example_host = Some items \<and>
     sorted (map filesystem_rank items) \<and> list_all capacity_consistent items"
proof -
  note exact = filesystem_inventory_exact [OF ref_common_ok(1,3), of example_host]
  have "lsm_filesystem_inventory_collect ref_common example_host \<noteq> None"
    unfolding exact [THEN conjunct1] using example_lines
    by (intro exI [of _ "''/proc/self/mountinfo''"] exI [of _ "\<lparr>ts_content = example_table, ts_error = False, ts_close_ok = True\<rparr>"]
        exI [of _ "[\<lparr>mi_major_number = 8, mi_minor_number = 1, mi_source = ''/dev/sda1'', mi_target = ''/my disk'', mi_filesystem = ''ext4''\<rparr>]"])
      (simp add: example_host_def)
  then show ?thesis using exact [THEN conjunct2] by blast
qed

end
