(* ===== verification/Hardware_Topology.thy ===== *)
theory Hardware_Topology
  imports Npu_Telemetry Monitor_Types String_Order
begin

text \<open>
  Reconciliation of optional hardware (\<^verbatim>\<open>src/hardware_topology.c\<close>): newly enumerated adapters,
  batteries and accelerators are sorted by identity, the caller learns whether the membership changed,
  and a device that was there before keeps its published measurements while what enumeration found out
  about it is refreshed. The records here complete those of the other theories to the source's structs.
\<close>

record gpu_device = gpu_info +
  gd_driver :: string
  gd_driver_version :: string
  gd_pci_location :: string
  gd_active_engine :: string
  gd_active_engine_percent :: double
  gd_memory_percent :: double
  gd_memory_used_bytes :: u64
  gd_memory_total_bytes :: u64
  gd_temperature_warning_c :: double
  gd_temperature_critical_c :: double
  gd_core_clock_mhz :: double
  gd_memory_clock_mhz :: double
  gd_power_watts :: double
  gd_fan_percent :: double
  gd_supported_metrics :: bool
  gd_memory_usage_available :: bool
  gd_temperature_warning_available :: bool
  gd_temperature_critical_available :: bool
  gd_core_clock_available :: bool
  gd_memory_clock_available :: bool
  gd_power_available :: bool
  gd_fan_available :: bool
  gd_engine_metrics_capable :: bool
  gd_shared_system_memory :: bool
  gd_integrated_cooling :: bool
  gd_metrics_source :: string

record battery_info =
  bat_name :: string
  bat_model :: string
  bat_manufacturer :: string
  bat_technology :: string
  bat_status :: string
  bat_health :: string
  bat_scope :: string
  bat_capacity_level :: string
  bat_serial :: string
  bat_connection :: string
  bat_battery_source :: string
  bat_device_type :: string
  bat_modalias :: string
  bat_capacity_percent :: double
  bat_supplemental_capacity_percent :: double
  bat_energy_now_wh :: double
  bat_energy_full_wh :: double
  bat_energy_design_wh :: double
  bat_power_watts :: double
  bat_voltage_volts :: double
  bat_current_amps :: double
  bat_temperature_c :: double
  bat_seconds_remaining :: u64
  bat_cycle_count :: u32
  bat_has_supplemental_capacity :: bool
  bat_on_ac_power :: bool
  bat_on_ac_power_available :: bool
  bat_is_peripheral :: bool
  bat_paired :: bool
  bat_trusted :: bool
  bat_services_resolved :: bool
  bat_bluetooth_details_available :: bool
  bat_present :: bool

record npu_device = npu_info +
  nd_name :: string
  nd_display_identifier :: string
  nd_device_identifier :: string

text \<open>The three arrays of the snapshot with their counts.\<close>

record topology =
  tp_gpus :: "gpu_device list"
  tp_batteries :: "battery_info list"
  tp_npus :: "npu_device list"

subsection \<open>Identities\<close>

definition gpu_identity :: "gpu_device \<Rightarrow> string" where
  "gpu_identity gpu = (if gpu_platform_identity gpu \<noteq> [] then gpu_platform_identity gpu else gpu_display_identifier gpu)"

definition npu_identity :: "npu_device \<Rightarrow> string" where
  "npu_identity npu = (if np_platform_identity npu \<noteq> [] then np_platform_identity npu else nd_display_identifier npu)"

definition same_gpu_identity :: "gpu_device \<Rightarrow> gpu_device \<Rightarrow> bool" where
  "same_gpu_identity left right =
     (if gpu_platform_identity left \<noteq> [] \<and> gpu_platform_identity right \<noteq> []
      then gpu_platform_identity left = gpu_platform_identity right
      else gpu_display_identifier left = gpu_display_identifier right)"

definition same_npu_identity :: "npu_device \<Rightarrow> npu_device \<Rightarrow> bool" where
  "same_npu_identity left right =
     (if np_platform_identity left \<noteq> [] \<and> np_platform_identity right \<noteq> []
      then np_platform_identity left = np_platform_identity right
      else nd_display_identifier left = nd_display_identifier right)"

definition compare_gpu_identity :: "gpu_device \<Rightarrow> gpu_device \<Rightarrow> int" where
  "compare_gpu_identity a b = strcmp (gpu_identity a) (gpu_identity b)"

definition compare_battery_names :: "battery_info \<Rightarrow> battery_info \<Rightarrow> int" where
  "compare_battery_names a b = strcmp (bat_name a) (bat_name b)"

definition compare_npu_identity :: "npu_device \<Rightarrow> npu_device \<Rightarrow> int" where
  "compare_npu_identity a b = strcmp (npu_identity a) (npu_identity b)"

definition find_old_gpu :: "gpu_device list \<Rightarrow> gpu_device \<Rightarrow> gpu_device option" where
  "find_old_gpu gpus identity = find (\<lambda>gpu. same_gpu_identity gpu identity) gpus"

definition find_old_battery :: "battery_info list \<Rightarrow> string \<Rightarrow> battery_info option" where
  "find_old_battery batteries name = find (\<lambda>battery. bat_name battery = name) batteries"

definition find_old_npu :: "npu_device list \<Rightarrow> npu_device \<Rightarrow> npu_device option" where
  "find_old_npu npus identity = find (\<lambda>npu. same_npu_identity npu identity) npus"

definition hardware_membership_changed :: "topology \<Rightarrow> topology \<Rightarrow> bool" where
  "hardware_membership_changed old monitor =
     (if length (tp_gpus old) \<noteq> length (tp_gpus monitor) \<or>
         length (tp_batteries old) \<noteq> length (tp_batteries monitor) \<or>
         length (tp_npus old) \<noteq> length (tp_npus monitor) then True
      else list_ex (\<lambda>gpu. find_old_gpu (tp_gpus old) gpu = None) (tp_gpus monitor) \<or>
        list_ex (\<lambda>battery. find_old_battery (tp_batteries old) (bat_name battery) = None) (tp_batteries monitor) \<or>
        list_ex (\<lambda>npu. find_old_npu (tp_npus old) npu = None) (tp_npus monitor))"

subsection \<open>Reconciliation\<close>

definition refresh_gpu :: "common \<Rightarrow> gpu_device \<Rightarrow> gpu_device \<Rightarrow> gpu_device" where
  "refresh_gpu c identity old =
     (let copy = infiltratr_copy_string c
  in old\<lparr>gpu_display_identifier := copy 64 (gpu_display_identifier identity),
       gpu_platform_identity := copy LSM_IDENTITY_LEN (gpu_platform_identity identity),
       gpu_name := (if gpu_name identity \<noteq> [] then copy LSM_NAME_LEN (gpu_name identity) else gpu_name old),
       gd_driver := (if gd_driver identity \<noteq> [] then copy 64 (gd_driver identity) else gd_driver old),
       gd_driver_version := copy 96 (gd_driver_version identity),
       gd_pci_location := copy 32 (gd_pci_location identity),
       gd_engine_metrics_capable := gd_engine_metrics_capable identity,
       gd_shared_system_memory := gd_shared_system_memory identity,
       gd_integrated_cooling := gd_integrated_cooling identity,
       gd_metrics_source := (if gd_metrics_source identity \<noteq> [] then copy 96 (gd_metrics_source identity)
         else gd_metrics_source old)\<rparr>)"

definition reconcile_gpu :: "common \<Rightarrow> gpu_device list \<Rightarrow> gpu_device \<Rightarrow> gpu_device" where
  "reconcile_gpu c old_gpus identity =
     (case find_old_gpu old_gpus identity of None \<Rightarrow> identity | Some old \<Rightarrow> refresh_gpu c identity old)"

definition refresh_battery :: "common \<Rightarrow> battery_info \<Rightarrow> battery_info \<Rightarrow> battery_info" where
  "refresh_battery c identity old =
     (let copy = infiltratr_copy_string c
  in old\<lparr>bat_name := copy 64 (bat_name identity),
       bat_model := copy LSM_NAME_LEN (bat_model identity),
       bat_manufacturer := copy LSM_NAME_LEN (bat_manufacturer identity),
       bat_technology := copy 64 (bat_technology identity),
       bat_scope := copy 32 (bat_scope identity),
       bat_serial := copy 64 (bat_serial identity),
       bat_connection := copy 64 (bat_connection identity),
       bat_battery_source := copy 96 (bat_battery_source identity),
       bat_device_type := copy 64 (bat_device_type identity),
       bat_modalias := copy 128 (bat_modalias identity),
       bat_supplemental_capacity_percent := bat_supplemental_capacity_percent identity,
       bat_has_supplemental_capacity := bat_has_supplemental_capacity identity,
       bat_is_peripheral := bat_is_peripheral identity,
       bat_paired := bat_paired identity,
       bat_trusted := bat_trusted identity,
       bat_services_resolved := bat_services_resolved identity,
       bat_bluetooth_details_available := bat_bluetooth_details_available identity,
       bat_present := bat_present identity,
       bat_capacity_percent := (if isfinite (bat_capacity_percent identity) then bat_capacity_percent identity
         else bat_capacity_percent old),
       bat_status := (if bat_status identity \<noteq> [] then copy 64 (bat_status identity) else bat_status old)\<rparr>)"

definition reconcile_battery :: "common \<Rightarrow> battery_info list \<Rightarrow> battery_info \<Rightarrow> battery_info" where
  "reconcile_battery c old_batteries identity =
     (case find_old_battery old_batteries (bat_name identity) of None \<Rightarrow> identity | Some old \<Rightarrow> refresh_battery c identity old)"

definition refresh_npu :: "common \<Rightarrow> npu_device \<Rightarrow> npu_device \<Rightarrow> npu_device" where
  "refresh_npu c identity old =
     (let copy = infiltratr_copy_string c
  in old\<lparr>nd_display_identifier := copy 64 (nd_display_identifier identity),
       np_platform_identity := copy LSM_IDENTITY_LEN (np_platform_identity identity),
       nd_device_identifier := copy LSM_PATH_LEN (nd_device_identifier identity),
       nd_name := (if nd_name identity \<noteq> [] then copy LSM_NAME_LEN (nd_name identity) else nd_name old),
       np_driver := (if np_driver identity \<noteq> [] then copy 64 (np_driver identity) else np_driver old)\<rparr>)"

definition reconcile_npu :: "common \<Rightarrow> npu_device list \<Rightarrow> npu_device \<Rightarrow> npu_device" where
  "reconcile_npu c old_npus identity =
     (case find_old_npu old_npus identity of None \<Rightarrow> identity | Some old \<Rightarrow> refresh_npu c identity old)"

definition lsm_hardware_topology_reconcile :: "common \<Rightarrow> topology \<Rightarrow> topology \<Rightarrow> bool \<times> topology" where
  "lsm_hardware_topology_reconcile c monitor old =
     (let sorted_monitor = \<lparr>tp_gpus = qsort compare_gpu_identity (tp_gpus monitor),
            tp_batteries = qsort compare_battery_names (tp_batteries monitor),
            tp_npus = qsort compare_npu_identity (tp_npus monitor)\<rparr>
      in (hardware_membership_changed old sorted_monitor,
          \<lparr>tp_gpus = map (reconcile_gpu c (tp_gpus old)) (tp_gpus sorted_monitor),
           tp_batteries = map (reconcile_battery c (tp_batteries old)) (tp_batteries sorted_monitor),
           tp_npus = map (reconcile_npu c (tp_npus old)) (tp_npus sorted_monitor)\<rparr>))"

subsection \<open>Matching by identity\<close>

text \<open>
  What the three kinds of device share: an identity that the matching test compares, a refresh that takes
  what enumeration found from the new record and everything measured from the old one, and some fields
  that are taken from the new record when it has a value and else from the old one.
\<close>

definition latest :: "string \<Rightarrow> string \<Rightarrow> string" where
  "latest new old = (case new of [] \<Rightarrow> old | _ \<Rightarrow> new)"

lemma latest_if: "latest new old = (if new \<noteq> [] then new else old)"
  by (simp add: latest_def split: list.split)

definition device_carried ::
    "('d \<Rightarrow> string) \<Rightarrow> ('d \<Rightarrow> 'f) \<Rightarrow> ('d \<Rightarrow> 'm) \<Rightarrow> ('d \<Rightarrow> 'd \<Rightarrow> 'd \<Rightarrow> bool) \<Rightarrow> 'd list \<Rightarrow> 'd list \<Rightarrow> 'd list \<Rightarrow> bool" where
  "device_carried key found measured merged olds news result \<longleftrightarrow>
     length result = length news \<and> sorted_wrt (<) (map (\<lambda>d. byte_values (key d)) result) \<and>
     (\<forall>d\<in>set news. \<exists>r\<in>set result. found r = found d \<and>
        (\<forall>old\<in>set olds. key old = key d \<longrightarrow> measured r = measured old \<and> merged d old r) \<and>
        ((\<forall>old\<in>set olds. key old \<noteq> key d) \<longrightarrow> r = d))"

locale device_identity =
  fixes key :: "'d \<Rightarrow> string" and same :: "'d \<Rightarrow> 'd \<Rightarrow> bool" and proper :: "'d \<Rightarrow> bool"
    and refresh :: "common \<Rightarrow> 'd \<Rightarrow> 'd \<Rightarrow> 'd" and found :: "'d \<Rightarrow> 'f" and measured :: "'d \<Rightarrow> 'm"
    and merged :: "'d \<Rightarrow> 'd \<Rightarrow> 'd \<Rightarrow> bool"
  assumes same_key: "proper a \<Longrightarrow> proper b \<Longrightarrow> same a b \<longleftrightarrow> key a = key b"
    and found_key: "found a = found b \<Longrightarrow> key a = key b"
    and refresh_found: "common_text_ok c \<Longrightarrow> proper d \<Longrightarrow> found (refresh c d old) = found d"
    and refresh_measured: "measured (refresh c d old) = measured old"
    and refresh_merged: "common_text_ok c \<Longrightarrow> proper d \<Longrightarrow> merged d old (refresh c d old)"
begin

lemma find_same:
  assumes "proper d" "list_all proper olds"
  shows "find (\<lambda>old. same old d) olds = find (\<lambda>old. key old = key d) olds"
  using assms by (intro find_cong) (auto simp: list_all_iff same_key)

lemma unchanged_members:
  assumes "list_all proper olds" "list_all proper news" "distinct (map key olds)" "distinct (map key news)"
  shows "length olds = length news \<and> \<not> list_ex (\<lambda>d. find (\<lambda>old. same old d) olds = None) news \<longleftrightarrow>
    key ` set olds = key ` set news"
proof -
  have all: "\<not> list_ex (\<lambda>d. find (\<lambda>old. same old d) olds = None) news \<longleftrightarrow> key ` set news \<subseteq> key ` set olds"
  proof -
    have "find (\<lambda>old. same old d) olds = None \<longleftrightarrow> key d \<notin> key ` set olds" if "d \<in> set news" for d
      using assms(1,2) that by (auto simp: list_all_iff find_None_iff same_key image_iff)
    then show ?thesis by (auto simp: list_ex_iff)
  qed
  have "card (key ` set olds) = length olds" "card (key ` set news) = length news"
    using assms(3,4) distinct_card [of "map key olds"] distinct_card [of "map key news"] by simp_all
  then show ?thesis unfolding all by (metis card_subset_eq finite_imageI List.finite_set order_refl)
qed

lemma carried_over:
  assumes "common_text_ok c" "list_all proper olds" "list_all proper news" "distinct (map key olds)" "distinct (map key news)"
  defines "arrange \<equiv> \<lambda>d. case find (\<lambda>old. same old d) olds of None \<Rightarrow> d | Some old \<Rightarrow> refresh c d old"
  shows "device_carried key found measured merged olds news (map arrange (sort_key (\<lambda>d. byte_values (key d)) news))"
proof -
  have "found (arrange d) = found d" if "d \<in> set news" for d
    using assms(1,3) that by (auto simp: arrange_def list_all_iff refresh_found split: option.split)
  note found = this and keys = found_key [OF this]
  let ?sorted = "sort_key (\<lambda>d. byte_values (key d)) news"
  have arranged: "map (\<lambda>d. byte_values (key d)) (map arrange ?sorted) = map (\<lambda>d. byte_values (key d)) ?sorted"
    using keys by simp
  have "distinct (map (\<lambda>d. byte_values (key d)) ?sorted)"
  proof -
    have "distinct (map (\<lambda>d. byte_values (key d)) news)"
      using assms(5) by (auto simp: distinct_map inj_on_def byte_values_inj)
    then show ?thesis by (simp add: distinct_map)
  qed
  then have "sorted_wrt (<) (map (\<lambda>d. byte_values (key d)) ?sorted)" by (simp add: strict_sorted_iff)
  then have order: "sorted_wrt (<) (map (\<lambda>d. byte_values (key d)) (map arrange ?sorted))" unfolding arranged .
  have "\<exists>r\<in>set (map arrange ?sorted). found r = found d \<and>
        (\<forall>old\<in>set olds. key old = key d \<longrightarrow> measured r = measured old \<and> merged d old r) \<and>
        ((\<forall>old\<in>set olds. key old \<noteq> key d) \<longrightarrow> r = d)" if d: "d \<in> set news" for d
  proof (intro bexI [of _ "arrange d"] conjI ballI impI)
    have same: "find (\<lambda>old. same old d) olds = find (\<lambda>old. key old = key d) olds"
      using assms(2,3) d by (intro find_same) (auto simp: list_all_iff)
    fix old assume old: "old \<in> set olds" "key old = key d"
    then obtain first where first: "find (\<lambda>old. key old = key d) olds = Some first"
      by (cases "find (\<lambda>old. key old = key d) olds") (auto simp: find_None_iff)
    then have "first \<in> set olds" "key first = key d" by (auto simp: find_Some_iff)
    then have "first = old" using old assms(4) by (auto simp: distinct_map inj_on_def)
    then show "measured (arrange d) = measured old" "merged d old (arrange d)"
      using first assms(1,3) d by (simp_all add: arrange_def same refresh_measured refresh_merged list_all_iff)
  next
    assume "\<forall>old\<in>set olds. key old \<noteq> key d"
    then have "find (\<lambda>old. same old d) olds = None"
      using assms(2,3) d by (auto simp: find_None_iff list_all_iff same_key)
    then show "arrange d = d" by (simp add: arrange_def)
  qed (use found [OF d] d in auto)
  with order show ?thesis by (auto simp: device_carried_def)
qed

end

subsection \<open>The three kinds of device\<close>

definition gpu_found :: "gpu_device \<Rightarrow> (string \<times> string) \<times> (string \<times> string) \<times> bool list" where
  "gpu_found g = ((gpu_platform_identity g, gpu_display_identifier g), (gd_driver_version g, gd_pci_location g),
     [gd_engine_metrics_capable g, gd_shared_system_memory g, gd_integrated_cooling g])"

text \<open>All other fields, those of the discovery blanked.\<close>

definition gpu_measured :: "gpu_device \<Rightarrow> gpu_device" where
  "gpu_measured g = g\<lparr>gpu_display_identifier := [], gpu_platform_identity := [], gpu_name := [], gd_driver := [],
     gd_driver_version := [], gd_pci_location := [], gd_engine_metrics_capable := False, gd_shared_system_memory := False,
     gd_integrated_cooling := False, gd_metrics_source := []\<rparr>"

definition gpu_proper :: "gpu_device \<Rightarrow> bool" where
  "gpu_proper g \<longleftrightarrow> gpu_platform_identity g \<noteq> [] \<and> length (gpu_platform_identity g) < LSM_IDENTITY_LEN \<and>
     length (gpu_display_identifier g) < 64 \<and> length (gd_driver_version g) < 96 \<and> length (gd_pci_location g) < 32 \<and>
     length (gpu_name g) < LSM_NAME_LEN \<and> length (gd_driver g) < 64 \<and> length (gd_metrics_source g) < 96"

definition gpu_merged :: "gpu_device \<Rightarrow> gpu_device \<Rightarrow> gpu_device \<Rightarrow> bool" where
  "gpu_merged new old r \<longleftrightarrow> gpu_name r = latest (gpu_name new) (gpu_name old) \<and>
     gd_driver r = latest (gd_driver new) (gd_driver old) \<and>
     gd_metrics_source r = latest (gd_metrics_source new) (gd_metrics_source old)"

definition battery_found :: "battery_info \<Rightarrow> string list \<times> double \<times> bool list" where
  "battery_found b = ([bat_name b, bat_model b, bat_manufacturer b, bat_technology b, bat_scope b, bat_serial b,
      bat_connection b, bat_battery_source b, bat_device_type b, bat_modalias b], bat_supplemental_capacity_percent b,
     [bat_has_supplemental_capacity b, bat_is_peripheral b, bat_paired b, bat_trusted b, bat_services_resolved b,
      bat_bluetooth_details_available b, bat_present b])"

definition battery_measured :: "battery_info \<Rightarrow> string list \<times> double list \<times> u64 \<times> u32 \<times> bool list" where
  "battery_measured b = ([bat_health b, bat_capacity_level b],
     [bat_energy_now_wh b, bat_energy_full_wh b, bat_energy_design_wh b, bat_power_watts b, bat_voltage_volts b,
      bat_current_amps b, bat_temperature_c b], bat_seconds_remaining b, bat_cycle_count b,
     [bat_on_ac_power b, bat_on_ac_power_available b])"

definition battery_proper :: "battery_info \<Rightarrow> bool" where
  "battery_proper b \<longleftrightarrow> length (bat_name b) < 64 \<and> length (bat_model b) < LSM_NAME_LEN \<and>
     length (bat_manufacturer b) < LSM_NAME_LEN \<and> length (bat_technology b) < 64 \<and> length (bat_scope b) < 32 \<and>
     length (bat_serial b) < 64 \<and> length (bat_connection b) < 64 \<and> length (bat_battery_source b) < 96 \<and>
     length (bat_device_type b) < 64 \<and> length (bat_modalias b) < 128 \<and> length (bat_status b) < 64"

definition battery_merged :: "battery_info \<Rightarrow> battery_info \<Rightarrow> battery_info \<Rightarrow> bool" where
  "battery_merged new old r \<longleftrightarrow> bat_status r = latest (bat_status new) (bat_status old) \<and>
     (\<forall>charge. bat_capacity_percent new = Fin charge \<longrightarrow> bat_capacity_percent r = Fin charge) \<and>
     ((\<forall>charge. bat_capacity_percent new \<noteq> Fin charge) \<longrightarrow> bat_capacity_percent r = bat_capacity_percent old)"

definition npu_found :: "npu_device \<Rightarrow> string \<times> string \<times> string" where
  "npu_found n = (np_platform_identity n, nd_display_identifier n, nd_device_identifier n)"

definition npu_measured :: "npu_device \<Rightarrow> npu_device" where
  "npu_measured n = n\<lparr>nd_display_identifier := [], np_platform_identity := [], nd_device_identifier := [], nd_name := [],
     np_driver := []\<rparr>"

definition npu_proper :: "npu_device \<Rightarrow> bool" where
  "npu_proper n \<longleftrightarrow> np_platform_identity n \<noteq> [] \<and> length (np_platform_identity n) < LSM_IDENTITY_LEN \<and>
     length (nd_display_identifier n) < 64 \<and> length (nd_device_identifier n) < LSM_PATH_LEN \<and>
     length (nd_name n) < LSM_NAME_LEN \<and> length (np_driver n) < 64"

definition npu_merged :: "npu_device \<Rightarrow> npu_device \<Rightarrow> npu_device \<Rightarrow> bool" where
  "npu_merged new old r \<longleftrightarrow> nd_name r = latest (nd_name new) (nd_name old) \<and>
     np_driver r = latest (np_driver new) (np_driver old)"

interpretation gpus: device_identity gpu_identity same_gpu_identity gpu_proper refresh_gpu gpu_found gpu_measured gpu_merged
  by unfold_locales
    (simp_all add: gpu_merged_def latest_if gpu_identity_def same_gpu_identity_def gpu_proper_def gpu_found_def gpu_measured_def refresh_gpu_def Let_def lsm_lengths
      common_text_ok_def)

interpretation batteries: device_identity bat_name "\<lambda>old d. bat_name old = bat_name d" battery_proper refresh_battery
    battery_found battery_measured battery_merged
  by unfold_locales
    (auto simp: battery_merged_def latest_if battery_proper_def battery_found_def battery_measured_def refresh_battery_def common_text_ok_def Let_def lsm_lengths elim: isfiniteE)

interpretation npus: device_identity npu_identity same_npu_identity npu_proper refresh_npu npu_found npu_measured npu_merged
  by unfold_locales
    (simp_all add: npu_merged_def latest_if npu_identity_def same_npu_identity_def npu_proper_def npu_found_def npu_measured_def refresh_npu_def Let_def lsm_lengths
      common_text_ok_def)

definition topology_proper :: "topology \<Rightarrow> bool" where
  "topology_proper t \<longleftrightarrow>
     list_all gpu_proper (tp_gpus t) \<and> distinct (map gpu_identity (tp_gpus t)) \<and>
     list_all battery_proper (tp_batteries t) \<and> distinct (map bat_name (tp_batteries t)) \<and>
     list_all npu_proper (tp_npus t) \<and> distinct (map npu_identity (tp_npus t))"

definition topology_members :: "topology \<Rightarrow> string set \<times> string set \<times> string set" where
  "topology_members t = (gpu_identity ` set (tp_gpus t), bat_name ` set (tp_batteries t), npu_identity ` set (tp_npus t))"

lemma reconcile_one:
  "reconcile_gpu c olds = (\<lambda>d. case find (\<lambda>old. same_gpu_identity old d) olds of None \<Rightarrow> d | Some old \<Rightarrow> refresh_gpu c d old)"
  "reconcile_battery c batteries = (\<lambda>d. case find (\<lambda>old. bat_name old = bat_name d) batteries of None \<Rightarrow> d | Some old \<Rightarrow> refresh_battery c d old)"
  "reconcile_npu c npus = (\<lambda>d. case find (\<lambda>old. same_npu_identity old d) npus of None \<Rightarrow> d | Some old \<Rightarrow> refresh_npu c d old)"
  by (simp_all add: fun_eq_iff reconcile_gpu_def find_old_gpu_def reconcile_battery_def find_old_battery_def
      reconcile_npu_def find_old_npu_def)

lemma sorted_devices:
  "qsort compare_gpu_identity gs = sort_key (\<lambda>d. byte_values (gpu_identity d)) gs"
  "qsort compare_battery_names bs = sort_key (\<lambda>d. byte_values (bat_name d)) bs"
  "qsort compare_npu_identity ns = sort_key (\<lambda>d. byte_values (npu_identity d)) ns"
  by (simp_all add: qsort_sort_key compare_gpu_identity_def compare_battery_names_def compare_npu_identity_def strcmp_le)

lemma list_ex_sort_key: "list_ex P (sort_key f xs) = list_ex P xs"
  by (simp add: list_ex_iff)

lemma membership_changed:
  assumes "topology_proper monitor" "topology_proper old"
  shows "fst (lsm_hardware_topology_reconcile c monitor old) \<longleftrightarrow> topology_members old \<noteq> topology_members monitor"
proof -
  note proper = assms [unfolded topology_proper_def]
  have "\<not> fst (lsm_hardware_topology_reconcile c monitor old) \<longleftrightarrow>
      (length (tp_gpus old) = length (tp_gpus monitor) \<and>
        \<not> list_ex (\<lambda>d. find (\<lambda>old. same_gpu_identity old d) (tp_gpus old) = None) (tp_gpus monitor)) \<and>
      (length (tp_batteries old) = length (tp_batteries monitor) \<and>
        \<not> list_ex (\<lambda>d. find (\<lambda>old. bat_name old = bat_name d) (tp_batteries old) = None) (tp_batteries monitor)) \<and>
      (length (tp_npus old) = length (tp_npus monitor) \<and>
        \<not> list_ex (\<lambda>d. find (\<lambda>old. same_npu_identity old d) (tp_npus old) = None) (tp_npus monitor))"
    by (simp only: lsm_hardware_topology_reconcile_def Let_def hardware_membership_changed_def sorted_devices list_ex_sort_key
        find_old_gpu_def find_old_battery_def find_old_npu_def fst_conv topology.select_convs length_sort split: if_split) blast
  also have "\<dots> \<longleftrightarrow> gpu_identity ` set (tp_gpus old) = gpu_identity ` set (tp_gpus monitor) \<and>
      bat_name ` set (tp_batteries old) = bat_name ` set (tp_batteries monitor) \<and>
      npu_identity ` set (tp_npus old) = npu_identity ` set (tp_npus monitor)"
    by (intro arg_cong2 [where f = conj] gpus.unchanged_members batteries.unchanged_members npus.unchanged_members)
      (use proper in blast)+
  also have "\<dots> \<longleftrightarrow> topology_members old = topology_members monitor" by (simp add: topology_members_def)
  finally show ?thesis by blast
qed

text \<open>
  C18. When no two devices of a list share an identity, every adapter and accelerator has a platform
  identity and the texts fit their buffers, a reconciliation reports a change exactly when the set of
  identities changed; each device appears once, in the order of identities, with what the new
  enumeration found; a surviving device keeps every measurement of its own former record, whatever the
  order of the enumeration, its name, driver, metrics source and battery status are the new ones unless
  the enumeration left them empty, its battery charge the new one when it is a finite number; and a new
  device is taken as it is.
\<close>

theorem topology_reconciled:
  assumes "common_text_ok c" "topology_proper monitor" "topology_proper old"
  shows "case lsm_hardware_topology_reconcile c monitor old of (changed, result) \<Rightarrow>
    (changed \<longleftrightarrow> topology_members old \<noteq> topology_members monitor) \<and>
    device_carried gpu_identity gpu_found gpu_measured gpu_merged (tp_gpus old) (tp_gpus monitor) (tp_gpus result) \<and>
    device_carried bat_name battery_found battery_measured battery_merged (tp_batteries old) (tp_batteries monitor) (tp_batteries result) \<and>
    device_carried npu_identity npu_found npu_measured npu_merged (tp_npus old) (tp_npus monitor) (tp_npus result)"
proof -
  have "device_carried gpu_identity gpu_found gpu_measured gpu_merged (tp_gpus old) (tp_gpus monitor)
      (map (reconcile_gpu c (tp_gpus old)) (qsort compare_gpu_identity (tp_gpus monitor)))"
    unfolding reconcile_one sorted_devices
    by (rule gpus.carried_over [OF assms(1)]) (use assms(2,3) in \<open>simp_all add: topology_proper_def\<close>)
  moreover have "device_carried bat_name battery_found battery_measured battery_merged (tp_batteries old) (tp_batteries monitor)
      (map (reconcile_battery c (tp_batteries old)) (qsort compare_battery_names (tp_batteries monitor)))"
    unfolding reconcile_one sorted_devices
    by (rule batteries.carried_over [OF assms(1)]) (use assms(2,3) in \<open>simp_all add: topology_proper_def\<close>)
  moreover have "device_carried npu_identity npu_found npu_measured npu_merged (tp_npus old) (tp_npus monitor)
      (map (reconcile_npu c (tp_npus old)) (qsort compare_npu_identity (tp_npus monitor)))"
    unfolding reconcile_one sorted_devices
    by (rule npus.carried_over [OF assms(1)]) (use assms(2,3) in \<open>simp_all add: topology_proper_def\<close>)
  ultimately show ?thesis
    using membership_changed [OF assms(2,3), of c] by (simp add: lsm_hardware_topology_reconcile_def Let_def)
qed

definition example_battery :: "string \<Rightarrow> double \<Rightarrow> battery_info" where
  "example_battery name watts =
     \<lparr>bat_name = name, bat_model = [], bat_manufacturer = [], bat_technology = [], bat_status = [], bat_health = [],
      bat_scope = [], bat_capacity_level = [], bat_serial = [], bat_connection = [], bat_battery_source = [],
      bat_device_type = [], bat_modalias = [], bat_capacity_percent = NaN, bat_supplemental_capacity_percent = NaN,
      bat_energy_now_wh = NaN, bat_energy_full_wh = NaN, bat_energy_design_wh = NaN, bat_power_watts = watts,
      bat_voltage_volts = NaN, bat_current_amps = NaN, bat_temperature_c = NaN, bat_seconds_remaining = 0,
      bat_cycle_count = 0, bat_has_supplemental_capacity = False, bat_on_ac_power = False, bat_on_ac_power_available = False,
      bat_is_peripheral = False, bat_paired = False, bat_trusted = False, bat_services_resolved = False,
      bat_bluetooth_details_available = False, bat_present = True\<rparr>"

definition example_topology :: "battery_info list \<Rightarrow> topology" where
  "example_topology batteries = \<lparr>tp_gpus = [], tp_batteries = batteries, tp_npus = []\<rparr>"

theorem topology_reconciled_witness:
  "case lsm_hardware_topology_reconcile ref_common
      (example_topology [example_battery ''BAT1'' NaN, example_battery ''BAT0'' NaN])
      (example_topology [example_battery ''BAT0'' (Fin 7)]) of (changed, result) \<Rightarrow>
    changed \<and> device_carried bat_name battery_found battery_measured battery_merged [example_battery ''BAT0'' (Fin 7)]
      [example_battery ''BAT1'' NaN, example_battery ''BAT0'' NaN] (tp_batteries result)"
proof -
  have proper: "topology_proper (example_topology [example_battery ''BAT1'' NaN, example_battery ''BAT0'' NaN])"
    "topology_proper (example_topology [example_battery ''BAT0'' (Fin 7)])"
    by (simp_all add: topology_proper_def example_topology_def example_battery_def battery_proper_def LSM_NAME_LEN_def)
  have "topology_members (example_topology [example_battery ''BAT0'' (Fin 7)]) \<noteq>
      topology_members (example_topology [example_battery ''BAT1'' NaN, example_battery ''BAT0'' NaN])"
    by (simp add: topology_members_def example_topology_def example_battery_def)
  then show ?thesis
    using topology_reconciled [OF ref_common_ok(1) proper] by (auto simp: example_topology_def)
qed

end
