(* ===== verification/Bluetooth_Inventory.thy ===== *)
theory Bluetooth_Inventory
  imports Common_Library Monitor_Types
begin

text \<open>
  The Bluetooth inventory (\<^verbatim>\<open>src/bluetooth_battery.c\<close>): the parsers of BlueZ's object tree into bounded
  tables of batteries, adapters and devices, the adapters' summary of their devices, and the cache that
  a worker refreshes from one reply of the bus. The tree is what GLib's typed reading of the reply gives;
  the worker, start, stop and the readers are the sections a mutex protects.
\<close>

text \<open>A property's value, by the D-Bus types that are read; another type matches no reading.\<close>

datatype bus_value = Text_Value string | Path_Value string | Bool_Value bool | Byte_Value u8 | Other_Value

type_synonym properties = "(string \<times> bus_value) list"
type_synonym bus_object = "string \<times> (string \<times> properties) list"

definition LSM_BLUEZ_ADAPTER_INTERFACE :: string where "LSM_BLUEZ_ADAPTER_INTERFACE = ''org.bluez.Adapter1''"
definition LSM_BLUEZ_DEVICE_INTERFACE :: string where "LSM_BLUEZ_DEVICE_INTERFACE = ''org.bluez.Device1''"
definition LSM_BLUEZ_BATTERY_INTERFACE :: string where "LSM_BLUEZ_BATTERY_INTERFACE = ''org.bluez.Battery1''"

definition LSM_BLUETOOTH_BATTERY_MAX :: nat where "LSM_BLUETOOTH_BATTERY_MAX = 16"
definition LSM_BLUETOOTH_ADAPTER_MAX :: nat where "LSM_BLUETOOTH_ADAPTER_MAX = 4"
definition LSM_BLUETOOTH_DEVICE_MAX :: nat where "LSM_BLUETOOTH_DEVICE_MAX = 32"
definition LSM_BLUETOOTH_CONNECTED_NAMES_LEN :: nat where "LSM_BLUETOOTH_CONNECTED_NAMES_LEN = 512"
definition LSM_BLUETOOTH_ADDRESS_LEN :: nat where "LSM_BLUETOOTH_ADDRESS_LEN = 32"
definition LSM_BLUETOOTH_NAME_LEN :: nat where "LSM_BLUETOOTH_NAME_LEN = 256"
definition LSM_BLUETOOTH_SOURCE_LEN :: nat where "LSM_BLUETOOTH_SOURCE_LEN = 96"
definition LSM_BLUETOOTH_DETAIL_LEN :: nat where "LSM_BLUETOOTH_DETAIL_LEN = 128"
definition LSM_BLUETOOTH_PATH_LEN :: nat where "LSM_BLUETOOTH_PATH_LEN = 256"

record adapter_record =
  ba_object_path :: string
  ba_address :: string
  ba_name :: string
  ba_alias :: string
  ba_connected_names :: string
  ba_device_count :: u32
  ba_connected_count :: u32
  ba_paired_count :: u32
  ba_trusted_count :: u32
  ba_powered :: bool
  ba_discoverable :: bool
  ba_pairable :: bool
  ba_discovering :: bool

record device_record =
  bd_object_path :: string
  bd_adapter_path :: string
  bd_controller :: string
  bd_address :: string
  bd_name :: string
  bd_alias :: string
  bd_address_type :: string
  bd_icon :: string
  bd_modalias :: string
  bd_connected :: bool
  bd_paired :: bool
  bd_trusted :: bool
  bd_services_resolved :: bool

record battery_record =
  bb_object_path :: string
  bb_address :: string
  bb_name :: string
  bb_source :: string
  bb_address_type :: string
  bb_icon :: string
  bb_modalias :: string
  bb_percentage :: double
  bb_connected :: bool
  bb_paired :: bool
  bb_trusted :: bool
  bb_services_resolved :: bool

subsection \<open>Reading properties\<close>

text \<open>Whether a non-empty text was read, and the destination afterwards.\<close>

definition lookup_string :: "common \<Rightarrow> properties \<Rightarrow> string \<Rightarrow> nat \<Rightarrow> string \<Rightarrow> bool \<times> string" where
  "lookup_string c properties key destination_size destination =
     (case map_of properties key of
        Some (Text_Value v) \<Rightarrow> let copied = infiltratr_copy_string c destination_size v in (copied \<noteq> [], copied)
      | _ \<Rightarrow> (False, destination))"

definition lookup_boolean :: "properties \<Rightarrow> string \<Rightarrow> bool \<Rightarrow> bool \<times> bool" where
  "lookup_boolean properties key destination =
     (case map_of properties key of Some (Bool_Value v) \<Rightarrow> (True, v) | _ \<Rightarrow> (False, destination))"

definition lookup_object_path :: "common \<Rightarrow> properties \<Rightarrow> string \<Rightarrow> nat \<Rightarrow> string \<Rightarrow> bool \<times> string" where
  "lookup_object_path c properties key destination_size destination =
     (case map_of properties key of
        Some (Path_Value v) \<Rightarrow> let copied = infiltratr_copy_string c destination_size v in (copied \<noteq> [], copied)
      | _ \<Rightarrow> (False, destination))"

text \<open>Into a zeroed field, the result ignored.\<close>

abbreviation read_text :: "common \<Rightarrow> properties \<Rightarrow> string \<Rightarrow> nat \<Rightarrow> string" where
  "read_text c properties key cap \<equiv> snd (lookup_string c properties key cap [])"

abbreviation read_flag :: "properties \<Rightarrow> string \<Rightarrow> bool" where
  "read_flag properties key \<equiv> snd (lookup_boolean properties key False)"

fun strstr :: "string \<Rightarrow> string \<Rightarrow> string option" where
  "strstr [] marker = (if marker = [] then Some [] else None)"
| "strstr (x # s) marker = (if starts_with (x # s) marker then Some (x # s) else strstr s marker)"

text \<open>The part of an object path before the device's own name.\<close>

definition adapter_part :: "string \<Rightarrow> string" where
  "adapter_part object_path =
     (case strstr object_path ''/dev_'' of
        None \<Rightarrow> []
      | Some marker \<Rightarrow> take (min (length object_path - length marker) (LSM_BLUETOOTH_PATH_LEN - 1)) object_path)"

definition append_connected_name :: "string \<Rightarrow> string \<Rightarrow> string" where
  "append_connected_name connected_names name =
     (let capacity = LSM_BLUETOOTH_CONNECTED_NAMES_LEN; used = length connected_names
      in if name = [] \<or> capacity - 1 \<le> used then connected_names
         else if used \<noteq> 0 \<and> capacity - used \<le> 2 then connected_names
         else let prefixed = (if used \<noteq> 0 then connected_names @ '', '' else connected_names)
              in prefixed @ take (capacity - length prefixed - 1) name)"

subsection \<open>Adapters\<close>

definition new_adapter :: "common \<Rightarrow> string \<Rightarrow> properties \<Rightarrow> adapter_record" where
  "new_adapter c object_path adapter =
     (let name = read_text c adapter ''Name'' LSM_BLUETOOTH_NAME_LEN
      in \<lparr>ba_object_path = infiltratr_copy_string c LSM_BLUETOOTH_PATH_LEN object_path,
          ba_address = read_text c adapter ''Address'' LSM_BLUETOOTH_ADDRESS_LEN,
          ba_name = (if name = [] then infiltratr_copy_string c LSM_BLUETOOTH_NAME_LEN object_path else name),
          ba_alias = read_text c adapter ''Alias'' LSM_BLUETOOTH_NAME_LEN,
          ba_connected_names = [], ba_device_count = 0, ba_connected_count = 0, ba_paired_count = 0, ba_trusted_count = 0,
          ba_powered = read_flag adapter ''Powered'', ba_discoverable = read_flag adapter ''Discoverable'',
          ba_pairable = read_flag adapter ''Pairable'', ba_discovering = read_flag adapter ''Discovering''\<rparr>)"

text \<open>The records so far and whether none was dropped.\<close>

definition adapter_step ::
    "common \<Rightarrow> nat \<Rightarrow> adapter_record list \<times> bool \<Rightarrow> bus_object \<Rightarrow> adapter_record list \<times> bool" where
  "adapter_step c capacity state object =
     (case (state, object) of ((records, kept_all), (object_path, interfaces)) \<Rightarrow>
        (case map_of interfaces LSM_BLUEZ_ADAPTER_INTERFACE of
           None \<Rightarrow> (records, kept_all)
         | Some adapter \<Rightarrow>
             if capacity \<le> length records then (records, False)
             else (records @ [new_adapter c object_path adapter], kept_all)))"

definition device_name :: "common \<Rightarrow> properties \<Rightarrow> string" where
  "device_name c device =
     (let (found, alias) = lookup_string c device ''Alias'' LSM_BLUETOOTH_NAME_LEN [];
          name = (if found then alias else snd (lookup_string c device ''Name'' LSM_BLUETOOTH_NAME_LEN alias))
      in if name = [] then snd (lookup_string c device ''Address'' LSM_BLUETOOTH_NAME_LEN name) else name)"

definition add_device :: "common \<Rightarrow> properties \<Rightarrow> adapter_record \<Rightarrow> adapter_record" where
  "add_device c device r =
     (let connected = read_flag device ''Connected''; paired = read_flag device ''Paired''; trusted = read_flag device ''Trusted''
      in r\<lparr>ba_device_count := ba_device_count r + 1,
           ba_paired_count := ba_paired_count r + (if paired then 1 else 0),
           ba_trusted_count := ba_trusted_count r + (if trusted then 1 else 0),
           ba_connected_count := ba_connected_count r + (if connected then 1 else 0),
           ba_connected_names := (if connected then append_connected_name (ba_connected_names r) (device_name c device)
             else ba_connected_names r)\<rparr>)"

text \<open>The first record of the adapter path, if any.\<close>

fun count_device :: "common \<Rightarrow> string \<Rightarrow> properties \<Rightarrow> adapter_record list \<Rightarrow> adapter_record list" where
  "count_device c adapter_path device [] = []"
| "count_device c adapter_path device (r # records) =
     (if adapter_path = [] \<or> ba_object_path r \<noteq> adapter_path then r # count_device c adapter_path device records
      else add_device c device r # records)"

definition device_adapter_path :: "common \<Rightarrow> string \<Rightarrow> properties \<Rightarrow> string" where
  "device_adapter_path c object_path device =
     (let (found, path) = lookup_object_path c device ''Adapter'' LSM_BLUETOOTH_PATH_LEN []
      in if found then path else adapter_part object_path)"

definition summary_step :: "common \<Rightarrow> adapter_record list \<Rightarrow> bus_object \<Rightarrow> adapter_record list" where
  "summary_step c records object =
     (case object of (object_path, interfaces) \<Rightarrow>
        (case map_of interfaces LSM_BLUEZ_DEVICE_INTERFACE of
           None \<Rightarrow> records
         | Some device \<Rightarrow> count_device c (device_adapter_path c object_path device) device records))"

definition lsm_bluetooth_adapter_parse_objects_checked ::
    "common \<Rightarrow> bus_object list \<Rightarrow> nat \<Rightarrow> adapter_record list option" where
  "lsm_bluetooth_adapter_parse_objects_checked c objects capacity =
     (if capacity = 0 then None
      else case foldl (adapter_step c capacity) ([], True) objects of
          (records, kept_all) \<Rightarrow> if \<not> kept_all then None else Some (foldl (summary_step c) records objects))"

subsection \<open>Devices\<close>

definition new_device :: "common \<Rightarrow> (string \<Rightarrow> string) \<Rightarrow> string \<Rightarrow> properties \<Rightarrow> device_record" where
  "new_device c basename object_path device =
     (let adapter_path = device_adapter_path c object_path device;
          controller = basename adapter_path;
          address = read_text c device ''Address'' LSM_BLUETOOTH_ADDRESS_LEN;
          name = read_text c device ''Name'' LSM_BLUETOOTH_NAME_LEN;
          alias = read_text c device ''Alias'' LSM_BLUETOOTH_NAME_LEN;
          alias = (if alias = [] then infiltratr_copy_string c LSM_BLUETOOTH_NAME_LEN (if name \<noteq> [] then name else address) else alias);
          name = (if name = [] then infiltratr_copy_string c LSM_BLUETOOTH_NAME_LEN (if alias \<noteq> [] then alias else ''Bluetooth device'')
            else name)
      in \<lparr>bd_object_path = infiltratr_copy_string c LSM_BLUETOOTH_PATH_LEN object_path,
          bd_adapter_path = adapter_path,
          bd_controller = infiltratr_copy_string c 64 (if controller \<noteq> [] then controller else ''Bluetooth''),
          bd_address = address, bd_name = name, bd_alias = alias,
          bd_address_type = read_text c device ''AddressType'' 32,
          bd_icon = read_text c device ''Icon'' LSM_BLUETOOTH_DETAIL_LEN,
          bd_modalias = read_text c device ''Modalias'' LSM_BLUETOOTH_DETAIL_LEN,
          bd_connected = read_flag device ''Connected'', bd_paired = read_flag device ''Paired'',
          bd_trusted = read_flag device ''Trusted'', bd_services_resolved = read_flag device ''ServicesResolved''\<rparr>)"

definition device_step ::
    "common \<Rightarrow> (string \<Rightarrow> string) \<Rightarrow> nat \<Rightarrow> device_record list \<times> bool \<Rightarrow> bus_object \<Rightarrow> device_record list \<times> bool" where
  "device_step c basename capacity state object =
     (case (state, object) of ((records, kept_all), (object_path, interfaces)) \<Rightarrow>
        (case map_of interfaces LSM_BLUEZ_DEVICE_INTERFACE of
           None \<Rightarrow> (records, kept_all)
         | Some device \<Rightarrow>
             if capacity \<le> length records then (records, False)
             else (records @ [new_device c basename object_path device], kept_all)))"

definition lsm_bluetooth_device_parse_objects_checked ::
    "common \<Rightarrow> (string \<Rightarrow> string) \<Rightarrow> bus_object list \<Rightarrow> nat \<Rightarrow> device_record list option" where
  "lsm_bluetooth_device_parse_objects_checked c basename objects capacity =
     (if capacity = 0 then None
      else case foldl (device_step c basename capacity) ([], True) objects of
          (records, kept_all) \<Rightarrow> if \<not> kept_all then None else Some records)"

subsection \<open>Batteries\<close>

definition new_battery :: "common \<Rightarrow> string \<Rightarrow> properties \<Rightarrow> properties \<Rightarrow> u8 \<Rightarrow> battery_record" where
  "new_battery c object_path device battery percentage =
     (let (has_address, address) = lookup_string c device ''Address'' LSM_BLUETOOTH_ADDRESS_LEN [];
          address = (if has_address then address
            else case strstr object_path ''/dev_'' of
                None \<Rightarrow> address
              | Some marker \<Rightarrow> map (\<lambda>x. if x = CHR ''_'' then CHR '':'' else x)
                  (infiltratr_copy_string c LSM_BLUETOOTH_ADDRESS_LEN (drop 5 marker)));
          (has_alias, alias) = lookup_string c device ''Alias'' LSM_BLUETOOTH_NAME_LEN [];
          name = (if has_alias then alias else snd (lookup_string c device ''Name'' LSM_BLUETOOTH_NAME_LEN alias))
      in \<lparr>bb_object_path = infiltratr_copy_string c LSM_BLUETOOTH_PATH_LEN object_path,
          bb_address = address,
          bb_name = (if name = [] then infiltratr_copy_string c LSM_BLUETOOTH_NAME_LEN ''Bluetooth device'' else name),
          bb_source = read_text c battery ''Source'' LSM_BLUETOOTH_SOURCE_LEN,
          bb_address_type = read_text c device ''AddressType'' 32,
          bb_icon = read_text c device ''Icon'' LSM_BLUETOOTH_DETAIL_LEN,
          bb_modalias = read_text c device ''Modalias'' LSM_BLUETOOTH_DETAIL_LEN,
          bb_percentage = double_of_word percentage, bb_connected = True,
          bb_paired = read_flag device ''Paired'', bb_trusted = read_flag device ''Trusted'',
          bb_services_resolved = read_flag device ''ServicesResolved''\<rparr>)"

text \<open>The battery an object contributes: connected, with a percentage up to 100.\<close>

definition battery_of_object :: "common \<Rightarrow> bus_object \<Rightarrow> battery_record option" where
  "battery_of_object c object =
     (case object of (object_path, interfaces) \<Rightarrow>
        (case (map_of interfaces LSM_BLUEZ_BATTERY_INTERFACE, map_of interfaces LSM_BLUEZ_DEVICE_INTERFACE) of
           (Some battery, Some device) \<Rightarrow>
             (case map_of battery ''Percentage'' of
                Some (Byte_Value percentage) \<Rightarrow>
                  if \<not> read_flag device ''Connected'' \<or> 100 < percentage then None
                  else Some (new_battery c object_path device battery percentage)
              | _ \<Rightarrow> None)
         | _ \<Rightarrow> None))"

definition battery_step ::
    "common \<Rightarrow> nat \<Rightarrow> battery_record list \<times> bool \<Rightarrow> bus_object \<Rightarrow> battery_record list \<times> bool" where
  "battery_step c capacity state object =
     (case state of (records, kept_all) \<Rightarrow>
        (case battery_of_object c object of
           None \<Rightarrow> (records, kept_all)
         | Some r \<Rightarrow> if capacity \<le> length records then (records, False) else (records @ [r], kept_all)))"

definition lsm_bluetooth_battery_parse_objects_checked ::
    "common \<Rightarrow> bus_object list \<Rightarrow> nat \<Rightarrow> battery_record list option" where
  "lsm_bluetooth_battery_parse_objects_checked c objects capacity =
     (if capacity = 0 then None
      else case foldl (battery_step c capacity) ([], True) objects of
          (records, kept_all) \<Rightarrow> if \<not> kept_all then None else Some records)"

text \<open>One snapshot: the three tables of the same reply, or none; \<open>None\<close> is a call that failed.\<close>

type_synonym bluez_snapshot = "battery_record list \<times> adapter_record list \<times> device_record list"

definition collect_bluez_snapshot ::
    "common \<Rightarrow> (string \<Rightarrow> string) \<Rightarrow> bus_object list option \<Rightarrow> bluez_snapshot option" where
  "collect_bluez_snapshot c basename reply =
     (case reply of
        None \<Rightarrow> None
      | Some objects \<Rightarrow>
          (case (lsm_bluetooth_battery_parse_objects_checked c objects LSM_BLUETOOTH_BATTERY_MAX,
                 lsm_bluetooth_adapter_parse_objects_checked c objects LSM_BLUETOOTH_ADAPTER_MAX,
                 lsm_bluetooth_device_parse_objects_checked c basename objects LSM_BLUETOOTH_DEVICE_MAX) of
             (Some batteries, Some adapters, Some devices) \<Rightarrow> Some (batteries, adapters, devices)
           | _ \<Rightarrow> None))"

subsection \<open>Bounded tables\<close>

text \<open>The three parsers share this loop: what an object contributes is kept while there is room.\<close>

definition bounded_step :: "('x \<Rightarrow> 'r option) \<Rightarrow> nat \<Rightarrow> 'r list \<times> bool \<Rightarrow> 'x \<Rightarrow> 'r list \<times> bool" where
  "bounded_step f capacity state x =
     (case state of (records, kept_all) \<Rightarrow>
        (case f x of
           None \<Rightarrow> (records, kept_all)
         | Some r \<Rightarrow> if capacity \<le> length records then (records, False) else (records @ [r], kept_all)))"

lemma foldl_bounded_step:
  assumes "length records \<le> capacity"
  shows "foldl (bounded_step f capacity) (records, kept_all) xs =
    (take capacity (records @ List.map_filter f xs),
     kept_all \<and> length records + length (List.map_filter f xs) \<le> capacity)"
  using assms
proof (induction xs arbitrary: records kept_all)
  case (Cons x xs)
  show ?case
  proof (cases "f x")
    case None
    then show ?thesis using Cons by (simp add: bounded_step_def List.map_filter_simps)
  next
    case (Some r)
    show ?thesis
    proof (cases "capacity \<le> length records")
      case True
      then have "foldl (bounded_step f capacity) (records, kept_all) (x # xs) = foldl (bounded_step f capacity) (records, False) xs"
        using Some by (simp add: bounded_step_def)
      then show ?thesis using Cons True Some by (simp add: List.map_filter_simps)
    next
      case False
      then have "foldl (bounded_step f capacity) (records, kept_all) (x # xs) =
          foldl (bounded_step f capacity) (records @ [r], kept_all) xs"
        using Some by (simp add: bounded_step_def)
      then show ?thesis using Cons.IH [of "records @ [r]" kept_all] False Some by (simp add: List.map_filter_simps)
    qed
  qed
qed (simp add: List.map_filter_simps)

lemma bounded_table:
  "(case foldl (bounded_step f capacity) ([], True) xs of (records, kept_all) \<Rightarrow> if \<not> kept_all then None else Some (g records)) =
   (if length (List.map_filter f xs) \<le> capacity then Some (g (List.map_filter f xs)) else None)"
  by (simp add: foldl_bounded_step)

definition adapter_of_object :: "common \<Rightarrow> bus_object \<Rightarrow> adapter_record option" where
  "adapter_of_object c object =
     map_option (new_adapter c (fst object)) (map_of (snd object) LSM_BLUEZ_ADAPTER_INTERFACE)"

definition device_of_object :: "common \<Rightarrow> (string \<Rightarrow> string) \<Rightarrow> bus_object \<Rightarrow> device_record option" where
  "device_of_object c basename object =
     map_option (new_device c basename (fst object)) (map_of (snd object) LSM_BLUEZ_DEVICE_INTERFACE)"

lemma steps_bounded:
  "adapter_step c capacity = bounded_step (adapter_of_object c) capacity"
  "device_step c basename capacity = bounded_step (device_of_object c basename) capacity"
  "battery_step c capacity = bounded_step (battery_of_object c) capacity"
  by (auto simp: fun_eq_iff adapter_step_def device_step_def battery_step_def bounded_step_def adapter_of_object_def
      device_of_object_def split: prod.split option.split)

lemma parsers_bounded:
  "lsm_bluetooth_adapter_parse_objects_checked c objects capacity =
     (if capacity \<noteq> 0 \<and> length (List.map_filter (adapter_of_object c) objects) \<le> capacity
      then Some (foldl (summary_step c) (List.map_filter (adapter_of_object c) objects) objects) else None)"
  "lsm_bluetooth_device_parse_objects_checked c basename objects capacity =
     (if capacity \<noteq> 0 \<and> length (List.map_filter (device_of_object c basename) objects) \<le> capacity
      then Some (List.map_filter (device_of_object c basename) objects) else None)"
  "lsm_bluetooth_battery_parse_objects_checked c objects capacity =
     (if capacity \<noteq> 0 \<and> length (List.map_filter (battery_of_object c) objects) \<le> capacity
      then Some (List.map_filter (battery_of_object c) objects) else None)"
  using bounded_table [where g = "\<lambda>rs. rs"]
  by (simp_all add: lsm_bluetooth_adapter_parse_objects_checked_def lsm_bluetooth_device_parse_objects_checked_def
      lsm_bluetooth_battery_parse_objects_checked_def steps_bounded bounded_table)

subsection \<open>The summary of an adapter\<close>

text \<open>The device an object adds to the adapter at a position: the first whose path is its adapter's.\<close>

definition owned_device :: "common \<Rightarrow> string list \<Rightarrow> nat \<Rightarrow> bus_object \<Rightarrow> properties option" where
  "owned_device c paths i object =
     (case map_of (snd object) LSM_BLUEZ_DEVICE_INTERFACE of
        None \<Rightarrow> None
      | Some device \<Rightarrow>
          let path = device_adapter_path c (fst object) device
          in if path \<noteq> [] \<and> paths ! i = path \<and> path \<notin> set (take i paths) then Some device else None)"

definition flag_count :: "string \<Rightarrow> properties list \<Rightarrow> u32" where
  "flag_count key devices = of_nat (length (filter (\<lambda>device. read_flag device key) devices))"

definition connected_list :: "common \<Rightarrow> properties list \<Rightarrow> string list" where
  "connected_list c devices = map (device_name c) (filter (\<lambda>device. read_flag device ''Connected'') devices)"

lemma count_device_nth:
  "i < length records \<Longrightarrow> count_device c path device records ! i =
     (if path \<noteq> [] \<and> ba_object_path (records ! i) = path \<and> path \<notin> set (take i (map ba_object_path records))
      then add_device c device (records ! i) else records ! i)"
proof (induction records arbitrary: i)
  case (Cons r records)
  then show ?case by (cases i) auto
qed simp

lemma count_device_paths: "map ba_object_path (count_device c path device records) = map ba_object_path records"
  by (induction records) (auto simp: add_device_def Let_def)

lemma summary_step_nth:
  assumes "i < length records"
  shows "summary_step c records object ! i =
    (case owned_device c (map ba_object_path records) i object of
       None \<Rightarrow> records ! i | Some device \<Rightarrow> add_device c device (records ! i))"
    "map ba_object_path (summary_step c records object) = map ba_object_path records"
proof -
  obtain object_path interfaces where object: "object = (object_path, interfaces)" by force
  show "map ba_object_path (summary_step c records object) = map ba_object_path records"
    unfolding object summary_step_def prod.case by (cases "map_of interfaces LSM_BLUEZ_DEVICE_INTERFACE") (simp_all add: count_device_paths)
  show "summary_step c records object ! i =
    (case owned_device c (map ba_object_path records) i object of
       None \<Rightarrow> records ! i | Some device \<Rightarrow> add_device c device (records ! i))"
  proof (cases "map_of interfaces LSM_BLUEZ_DEVICE_INTERFACE")
    case (Some device)
    then show ?thesis
      using count_device_nth [OF assms, of c "device_adapter_path c object_path device" device] assms
      by (simp add: object summary_step_def owned_device_def Let_def)
  qed (simp add: object summary_step_def owned_device_def)
qed

lemma summary_nth:
  assumes "i < length records"
  shows "foldl (summary_step c) records objects ! i =
      foldl (\<lambda>r device. add_device c device r) (records ! i) (List.map_filter (owned_device c (map ba_object_path records) i) objects) \<and>
    length (foldl (summary_step c) records objects) = length records"
  using assms
proof (induction objects arbitrary: records)
  case (Cons object objects)
  note step = summary_step_nth [OF Cons.prems, of c object]
  have "length (summary_step c records object) = length records" using step(2) by (metis length_map)
  then show ?case
    using Cons.IH [of "summary_step c records object"] Cons.prems step
    by (simp add: List.map_filter_simps split: option.split)
qed (simp add: List.map_filter_simps)

lemma summary_empty: "foldl (summary_step c) [] objects = []"
  by (induction objects) (auto simp: summary_step_def split: option.split)

lemma summary_length: "length (foldl (summary_step c) records objects) = length records"
  using summary_nth [of 0 records c objects] by (cases "records = []") (auto simp: summary_empty)

lemma add_device_fields:
  "ba_object_path (add_device c device r) = ba_object_path r"
  "ba_device_count (add_device c device r) = ba_device_count r + 1"
  "ba_connected_count (add_device c device r) = ba_connected_count r + (if read_flag device ''Connected'' then 1 else 0)"
  "ba_paired_count (add_device c device r) = ba_paired_count r + (if read_flag device ''Paired'' then 1 else 0)"
  "ba_trusted_count (add_device c device r) = ba_trusted_count r + (if read_flag device ''Trusted'' then 1 else 0)"
  "ba_connected_names (add_device c device r) =
     (if read_flag device ''Connected'' then append_connected_name (ba_connected_names r) (device_name c device)
      else ba_connected_names r)"
  by (simp_all add: add_device_def Let_def)

lemma add_devices:
  "ba_object_path (foldl (\<lambda>r device. add_device c device r) r devices) = ba_object_path r"
  "ba_device_count (foldl (\<lambda>r device. add_device c device r) r devices) = ba_device_count r + of_nat (length devices)"
  "ba_connected_count (foldl (\<lambda>r device. add_device c device r) r devices) = ba_connected_count r + flag_count ''Connected'' devices"
  "ba_paired_count (foldl (\<lambda>r device. add_device c device r) r devices) = ba_paired_count r + flag_count ''Paired'' devices"
  "ba_trusted_count (foldl (\<lambda>r device. add_device c device r) r devices) = ba_trusted_count r + flag_count ''Trusted'' devices"
  "ba_connected_names (foldl (\<lambda>r device. add_device c device r) r devices) =
     foldl append_connected_name (ba_connected_names r) (connected_list c devices)"
  by (induction devices arbitrary: r) (simp_all add: add_device_fields flag_count_def connected_list_def)

lemma append_connected_name_bound:
  "length s < LSM_BLUETOOTH_CONNECTED_NAMES_LEN \<Longrightarrow> length (append_connected_name s name) < LSM_BLUETOOTH_CONNECTED_NAMES_LEN"
  by (auto simp: append_connected_name_def Let_def LSM_BLUETOOTH_CONNECTED_NAMES_LEN_def)

lemma connected_names_bound:
  "length s < LSM_BLUETOOTH_CONNECTED_NAMES_LEN \<Longrightarrow>
     length (foldl append_connected_name s names) < LSM_BLUETOOTH_CONNECTED_NAMES_LEN"
  by (induction names arbitrary: s) (simp_all add: append_connected_name_bound)

text \<open>
  The adapters' table is all or nothing, and each adapter counts exactly its own devices: the known, the
  connected, the paired and the trusted ones, the names of the connected ones in order and within
  their buffer.
\<close>

definition adapter_summary :: "common \<Rightarrow> bus_object list \<Rightarrow> string list \<Rightarrow> nat \<Rightarrow> adapter_record \<Rightarrow> bool" where
  "adapter_summary c objects paths i r \<longleftrightarrow>
     (let mine = List.map_filter (owned_device c paths i) objects
      in ba_object_path r = paths ! i \<and> ba_device_count r = of_nat (length mine) \<and>
         ba_connected_count r = flag_count ''Connected'' mine \<and> ba_paired_count r = flag_count ''Paired'' mine \<and>
         ba_trusted_count r = flag_count ''Trusted'' mine \<and>
         ba_connected_names r = foldl append_connected_name [] (connected_list c mine) \<and>
         length (ba_connected_names r) < LSM_BLUETOOTH_CONNECTED_NAMES_LEN)"

lemma new_adapters_blank:
  assumes "i < length (List.map_filter (adapter_of_object c) objects)"
  shows "ba_device_count (List.map_filter (adapter_of_object c) objects ! i) = 0"
    "ba_connected_count (List.map_filter (adapter_of_object c) objects ! i) = 0"
    "ba_paired_count (List.map_filter (adapter_of_object c) objects ! i) = 0"
    "ba_trusted_count (List.map_filter (adapter_of_object c) objects ! i) = 0"
    "ba_connected_names (List.map_filter (adapter_of_object c) objects ! i) = []"
proof -
  let ?r = "List.map_filter (adapter_of_object c) objects ! i"
  have "?r \<in> set (List.map_filter (adapter_of_object c) objects)" using assms by simp
  then obtain path adapter where "?r = new_adapter c path adapter"
    by (auto simp: List.map_filter_def adapter_of_object_def)
  then show "ba_device_count ?r = 0" "ba_connected_count ?r = 0" "ba_paired_count ?r = 0" "ba_trusted_count ?r = 0"
    "ba_connected_names ?r = []"
    by (simp_all add: new_adapter_def Let_def)
qed

theorem bluetooth_adapters_exact:
  "(lsm_bluetooth_adapter_parse_objects_checked c objects capacity = None \<longleftrightarrow>
      capacity = 0 \<or> capacity < length (List.map_filter (adapter_of_object c) objects)) \<and>
   (\<forall>records. lsm_bluetooth_adapter_parse_objects_checked c objects capacity = Some records \<longrightarrow>
      length records = length (List.map_filter (adapter_of_object c) objects) \<and>
      (\<forall>i<length records. adapter_summary c objects
         (map ba_object_path (List.map_filter (adapter_of_object c) objects)) i (records ! i)))"
proof (intro conjI allI impI)
  let ?found = "List.map_filter (adapter_of_object c) objects"
  show "lsm_bluetooth_adapter_parse_objects_checked c objects capacity = None \<longleftrightarrow>
      capacity = 0 \<or> capacity < length ?found"
    by (auto simp: parsers_bounded)
  fix records assume "lsm_bluetooth_adapter_parse_objects_checked c objects capacity = Some records"
  then have records: "records = foldl (summary_step c) ?found objects" by (simp add: parsers_bounded split: if_split_asm)
  show len: "length records = length ?found"
    by (simp add: records summary_length)
  fix i assume "i < length records"
  then have i: "i < length ?found" by (simp add: len)
  show "adapter_summary c objects (map ba_object_path ?found) i (records ! i)"
    unfolding records summary_nth [OF i, THEN conjunct1] adapter_summary_def Let_def add_devices new_adapters_blank [OF i]
    using i connected_names_bound [of "[]"] by (simp add: LSM_BLUETOOTH_CONNECTED_NAMES_LEN_def)
qed

end
