(* ===== verification/Bluetooth_Cache.thy ===== *)
theory Bluetooth_Cache
  imports Bluetooth_Inventory
begin

text \<open>
  The cache of the Bluetooth inventory (\<^verbatim>\<open>src/bluetooth_battery.c\<close>): start, stop, the readers and the
  worker's sections under the mutex, interleaved in any order. In every reachable state the cache holds
  the three tables of one and the same reply, or nothing; nothing is published after a stop was asked for.
\<close>

text \<open>Where the worker is: outside its sections it collects without the mutex or waits on the condition.\<close>

datatype cache_worker = No_Worker | Starting | Collecting | Waiting | Finished

record bluetooth_cache =
  bc_snapshot :: bluez_snapshot
  bc_stop_requested :: bool
  bc_thread_started :: bool
  bc_cancellable :: bool
  bc_condition_initialized :: bool
  bc_worker :: cache_worker
  bc_joining :: bool \<comment> \<open>a stop between its request and its join\<close>

definition no_snapshot :: bluez_snapshot where
  "no_snapshot = ([], [], [])"

definition cache_initial :: bluetooth_cache where
  "cache_initial = \<lparr>bc_snapshot = no_snapshot, bc_stop_requested = False, bc_thread_started = False,
     bc_cancellable = False, bc_condition_initialized = False, bc_worker = No_Worker, bc_joining = False\<rparr>"

definition lsm_bluetooth_battery_start :: "bool \<Rightarrow> bool \<Rightarrow> bool \<Rightarrow> bluetooth_cache \<Rightarrow> bool \<times> bluetooth_cache" where
  "lsm_bluetooth_battery_start condition_ok cancellable_ok create_ok s =
     (if bc_thread_started s then (True, s)
      else if \<not> bc_condition_initialized s \<and> \<not> condition_ok then (False, s)
      else let s = s\<lparr>bc_condition_initialized := True, bc_stop_requested := False, bc_snapshot := no_snapshot,
                 bc_cancellable := cancellable_ok\<rparr>
           in if \<not> cancellable_ok then (False, s)
              else if \<not> create_ok then (False, s\<lparr>bc_cancellable := False\<rparr>)
              else (True, s\<lparr>bc_thread_started := True, bc_worker := Starting\<rparr>))"

text \<open>The worker's first section of a round, and the one after collecting.\<close>

definition worker_begin :: "bluetooth_cache \<Rightarrow> bluetooth_cache" where
  "worker_begin s = s\<lparr>bc_worker := (if bc_stop_requested s \<or> \<not> bc_cancellable s then Finished else Collecting)\<rparr>"

definition worker_commit :: "bluez_snapshot option \<Rightarrow> bluetooth_cache \<Rightarrow> bluetooth_cache" where
  "worker_commit collected s =
     (if bc_stop_requested s then s\<lparr>bc_worker := Finished\<rparr>
      else case collected of
          Some snapshot \<Rightarrow> s\<lparr>bc_snapshot := snapshot, bc_worker := Waiting\<rparr>
        | None \<Rightarrow> s\<lparr>bc_worker := Waiting\<rparr>)"

text \<open>The wait ended, by the deadline, a failure or a broadcast.\<close>

definition worker_wake :: "bluetooth_cache \<Rightarrow> bluetooth_cache" where
  "worker_wake s = s\<lparr>bc_worker := (if bc_stop_requested s then Finished else Starting)\<rparr>"

definition cache_stop_request :: "bluetooth_cache \<Rightarrow> bluetooth_cache" where
  "cache_stop_request s = (if \<not> bc_thread_started s then s else s\<lparr>bc_stop_requested := True, bc_joining := True\<rparr>)"

text \<open>A join in time clears the state; a late one only detaches the thread.\<close>

definition cache_stop_joined :: "bluetooth_cache \<Rightarrow> bluetooth_cache" where
  "cache_stop_joined s = s\<lparr>bc_joining := False, bc_thread_started := False, bc_cancellable := False, bc_snapshot := no_snapshot,
     bc_worker := No_Worker\<rparr>"

definition cache_stop_abandoned :: "bluetooth_cache \<Rightarrow> bluetooth_cache" where
  "cache_stop_abandoned s = s\<lparr>bc_joining := False\<rparr>"

definition lsm_bluetooth_battery_snapshot :: "nat \<Rightarrow> bluetooth_cache \<Rightarrow> battery_record list" where
  "lsm_bluetooth_battery_snapshot capacity s = take capacity (fst (bc_snapshot s))"

definition lsm_bluetooth_adapter_snapshot :: "nat \<Rightarrow> bluetooth_cache \<Rightarrow> adapter_record list" where
  "lsm_bluetooth_adapter_snapshot capacity s = take capacity (fst (snd (bc_snapshot s)))"

definition lsm_bluetooth_device_snapshot :: "nat \<Rightarrow> bluetooth_cache \<Rightarrow> device_record list" where
  "lsm_bluetooth_device_snapshot capacity s = take capacity (snd (snd (bc_snapshot s)))"

text \<open>
  Starts and stops come from one thread, the monitor's. A stop after an abandoned one joins a detached
  thread, which C leaves undefined; here it ends either way.
\<close>

inductive cache_step :: "common \<Rightarrow> (string \<Rightarrow> string) \<Rightarrow> bluetooth_cache \<Rightarrow> bluetooth_cache \<Rightarrow> bool"
  for c :: common and basename :: "string \<Rightarrow> string" where
  start: "\<not> bc_joining s \<Longrightarrow> lsm_bluetooth_battery_start a b d s = (r, s') \<Longrightarrow> cache_step c basename s s'"
| begin_round: "bc_worker s = Starting \<Longrightarrow> cache_step c basename s (worker_begin s)"
| commit: "bc_worker s = Collecting \<Longrightarrow> cache_step c basename s (worker_commit (collect_bluez_snapshot c basename reply) s)"
| wake: "bc_worker s = Waiting \<Longrightarrow> cache_step c basename s (worker_wake s)"
| stop: "\<not> bc_joining s \<Longrightarrow> cache_step c basename s (cache_stop_request s)"
| joined: "bc_joining s \<Longrightarrow> bc_worker s = Finished \<Longrightarrow> cache_step c basename s (cache_stop_joined s)"
| abandoned: "bc_joining s \<Longrightarrow> cache_step c basename s (cache_stop_abandoned s)"

inductive_cases cache_stepE: "cache_step c basename s s'"

definition cache_inv :: "common \<Rightarrow> (string \<Rightarrow> string) \<Rightarrow> bluetooth_cache \<Rightarrow> bool" where
  "cache_inv c basename s \<longleftrightarrow>
     (bc_snapshot s = no_snapshot \<or> (\<exists>objects. collect_bluez_snapshot c basename (Some objects) = Some (bc_snapshot s))) \<and>
     (bc_thread_started s \<longleftrightarrow> bc_worker s \<noteq> No_Worker) \<and> (bc_thread_started s \<longrightarrow> bc_cancellable s \<and> bc_condition_initialized s) \<and>
     (bc_joining s \<longrightarrow> bc_thread_started s \<and> bc_stop_requested s) \<and> (bc_worker s = Finished \<longrightarrow> bc_stop_requested s) \<and>
     (\<not> bc_thread_started s \<longrightarrow> bc_snapshot s = no_snapshot)"

lemma cache_inv_initial: "cache_inv c basename cache_initial"
  by (simp add: cache_inv_def cache_initial_def)

lemma cache_inv_start:
  assumes "cache_inv c basename s" "\<not> bc_joining s" "lsm_bluetooth_battery_start a b d s = (r, s')"
  shows "cache_inv c basename s'"
  using assms by (auto simp: lsm_bluetooth_battery_start_def cache_inv_def Let_def split: if_split_asm)

lemma cache_inv_worker:
  assumes "cache_inv c basename s" "bc_worker s \<notin> {No_Worker, Finished}"
  shows "cache_inv c basename (worker_begin s)" "cache_inv c basename (worker_wake s)"
    "cache_inv c basename (worker_commit (collect_bluez_snapshot c basename reply) s)"
proof -
  show "cache_inv c basename (worker_begin s)" "cache_inv c basename (worker_wake s)"
    using assms by (auto simp: worker_begin_def worker_wake_def cache_inv_def)
  have "\<exists>objects. reply = Some objects" if "collect_bluez_snapshot c basename reply = Some v" for v
    using that by (cases reply) (simp_all add: collect_bluez_snapshot_def)
  then show "cache_inv c basename (worker_commit (collect_bluez_snapshot c basename reply) s)"
    using assms by (cases "collect_bluez_snapshot c basename reply") (auto simp: worker_commit_def cache_inv_def)
qed

lemma cache_inv_stop:
  assumes "cache_inv c basename s"
  shows "cache_inv c basename (cache_stop_request s)" "cache_inv c basename (cache_stop_abandoned s)"
    "cache_inv c basename (cache_stop_joined s)"
  using assms by (auto simp: cache_stop_request_def cache_stop_abandoned_def cache_stop_joined_def cache_inv_def)

lemma cache_inv_step: "cache_step c basename s s' \<Longrightarrow> cache_inv c basename s \<Longrightarrow> cache_inv c basename s'"
  by (induction rule: cache_step.induct) (auto intro: cache_inv_start cache_inv_worker cache_inv_stop)

lemma cache_reachable_inv: "(cache_step c basename)\<^sup>*\<^sup>* cache_initial s \<Longrightarrow> cache_inv c basename s"
  by (induction rule: rtranclp_induct) (auto intro: cache_inv_initial cache_inv_step)

lemma collected_bounds:
  assumes "collect_bluez_snapshot c basename reply = Some (batteries, adapters, devices)"
  shows "length batteries \<le> LSM_BLUETOOTH_BATTERY_MAX" "length adapters \<le> LSM_BLUETOOTH_ADAPTER_MAX"
    "length devices \<le> LSM_BLUETOOTH_DEVICE_MAX"
proof -
  obtain objects where read: "lsm_bluetooth_battery_parse_objects_checked c objects LSM_BLUETOOTH_BATTERY_MAX = Some batteries"
    "lsm_bluetooth_adapter_parse_objects_checked c objects LSM_BLUETOOTH_ADAPTER_MAX = Some adapters"
    "lsm_bluetooth_device_parse_objects_checked c basename objects LSM_BLUETOOTH_DEVICE_MAX = Some devices"
    using assms by (auto simp: collect_bluez_snapshot_def split: option.split_asm)
  then show "length batteries \<le> LSM_BLUETOOTH_BATTERY_MAX" "length adapters \<le> LSM_BLUETOOTH_ADAPTER_MAX"
    "length devices \<le> LSM_BLUETOOTH_DEVICE_MAX"
    by (auto simp: parsers_bounded summary_length split: if_split_asm)
qed

text \<open>
  In every interleaving what a reader gets is within its buffers and comes from one reply of the bus or
  is empty; once a stop was requested no section of the worker changes it any more.
\<close>

theorem bluetooth_cache_safe:
  assumes "(cache_step c basename)\<^sup>*\<^sup>* cache_initial s"
  shows "length (lsm_bluetooth_battery_snapshot capacity s) \<le> min capacity LSM_BLUETOOTH_BATTERY_MAX \<and>
    length (lsm_bluetooth_adapter_snapshot capacity s) \<le> min capacity LSM_BLUETOOTH_ADAPTER_MAX \<and>
    length (lsm_bluetooth_device_snapshot capacity s) \<le> min capacity LSM_BLUETOOTH_DEVICE_MAX \<and>
    (bc_snapshot s = no_snapshot \<or> (\<exists>objects. collect_bluez_snapshot c basename (Some objects) = Some (bc_snapshot s))) \<and>
    (\<forall>s'. cache_step c basename s s' \<and> bc_stop_requested s \<and> bc_stop_requested s' \<longrightarrow>
       bc_snapshot s' \<in> {bc_snapshot s, no_snapshot})"
proof -
  have inv: "cache_inv c basename s" by (rule cache_reachable_inv [OF assms])
  obtain batteries adapters devices where snapshot: "bc_snapshot s = (batteries, adapters, devices)" by (cases "bc_snapshot s")
  have "bc_snapshot s = no_snapshot \<or> (\<exists>objects. collect_bluez_snapshot c basename (Some objects) = Some (bc_snapshot s))"
    using inv by (simp add: cache_inv_def)
  moreover from this have "length batteries \<le> LSM_BLUETOOTH_BATTERY_MAX \<and> length adapters \<le> LSM_BLUETOOTH_ADAPTER_MAX \<and>
      length devices \<le> LSM_BLUETOOTH_DEVICE_MAX"
    unfolding snapshot using collected_bounds [of c basename _ batteries adapters devices] by (auto simp: no_snapshot_def)
  moreover have "bc_snapshot s' \<in> {bc_snapshot s, no_snapshot}"
    if "cache_step c basename s s'" "bc_stop_requested s" "bc_stop_requested s'" for s'
    using that
    by (induction rule: cache_step.induct)
      (auto simp: lsm_bluetooth_battery_start_def worker_begin_def worker_commit_def worker_wake_def cache_stop_request_def
        cache_stop_joined_def cache_stop_abandoned_def Let_def split: if_split_asm)
  ultimately show ?thesis
    by (auto simp: snapshot lsm_bluetooth_battery_snapshot_def lsm_bluetooth_adapter_snapshot_def lsm_bluetooth_device_snapshot_def
        intro: min.coboundedI1 min.coboundedI2)
qed

text \<open>After a stop that did not join in time, a start reports success although no worker will run.\<close>

lemma abandoned_stop_disables:
  assumes "cache_inv c basename s" "bc_joining s" "bc_worker s = Finished"
  shows "\<exists>s'. cache_step c basename s s' \<and> lsm_bluetooth_battery_start a b d s' = (True, s') \<and> bc_worker s' = Finished"
proof (intro exI conjI)
  show "cache_step c basename s (cache_stop_abandoned s)" by (rule abandoned [OF assms(2)])
  show "lsm_bluetooth_battery_start a b d (cache_stop_abandoned s) = (True, cache_stop_abandoned s)" "bc_worker (cache_stop_abandoned s) = Finished"
    using assms by (simp_all add: lsm_bluetooth_battery_start_def cache_stop_abandoned_def cache_inv_def)
qed

end
