(* ===== verification/Service_Backend.thy ===== *)
theory Service_Backend
  imports Common_Library Monitor_Types String_Order
begin

text \<open>
  The service inventory and its actions (\<^verbatim>\<open>src/service_backend_linux.c\<close>). The manager's two replies, the
  loaded units and the unit files, are merged through a name index into one sorted table; actions are
  sequences of calls on the bus. The replies and the outcome of each call are parameters.
\<close>

record service_entry =
  sve_name :: string
  sve_description :: string
  sve_active :: string
  sve_substate :: string
  sve_startup :: string

text \<open>The fields of a loaded unit that are used: name, description, active and sub state; a unit file: path and state.\<close>

type_synonym loaded_unit = "string \<times> string \<times> string \<times> string"
type_synonym unit_file = "string \<times> string"

record service_host =
  sh_basename :: "string \<Rightarrow> string" \<comment> \<open>\<^verbatim>\<open>lsm_path_basename\<close>\<close>
  sh_reserve :: "nat \<Rightarrow> bool" \<comment> \<open>room for that many entries\<close>

text \<open>The table with its index from names to positions.\<close>

type_synonym service_table = "service_entry list \<times> (string \<rightharpoonup> nat)"

definition service_find :: "service_table \<Rightarrow> string \<Rightarrow> nat option" where
  "service_find table name =
     (case snd table name of Some index \<Rightarrow> if index < length (fst table) then Some index else None | None \<Rightarrow> None)"

definition service_default :: "common \<Rightarrow> string \<Rightarrow> service_entry" where
  "service_default c name =
     \<lparr>sve_name = infiltratr_copy_string c LSM_NAME_LEN name, sve_description = infiltratr_copy_string c 256 name,
      sve_active = infiltratr_copy_string c 32 ''inactive'', sve_substate = infiltratr_copy_string c 64 ''dead'',
      sve_startup = infiltratr_copy_string c 64 ''unknown''\<rparr>"

text \<open>The position of the entry, appended when it is new.\<close>

definition service_get :: "common \<Rightarrow> service_host \<Rightarrow> service_table \<Rightarrow> string \<Rightarrow> (nat \<times> service_table) option" where
  "service_get c h table name =
     (case service_find table name of
        Some index \<Rightarrow> Some (index, table)
      | None \<Rightarrow>
          if unat UINT_MAX \<le> length (fst table) \<or> \<not> sh_reserve h (length (fst table) + 1) then None
          else Some (length (fst table),
            (fst table @ [service_default c name], (snd table)(name \<mapsto> length (fst table)))))"

definition service_suffix :: "string \<Rightarrow> bool" where
  "service_suffix name \<longleftrightarrow> 8 \<le> length name \<and> drop (length name - 8) name = ''.service''"

text \<open>An entry found or created, then changed in place.\<close>

definition service_update ::
    "common \<Rightarrow> service_host \<Rightarrow> (service_entry \<Rightarrow> service_entry) \<Rightarrow> string \<Rightarrow> service_table \<Rightarrow> service_table option" where
  "service_update c h change name table =
     (case service_get c h table name of
        None \<Rightarrow> None
      | Some (index, (entries, by_name)) \<Rightarrow> Some (entries[index := change (entries ! index)], by_name))"

definition loaded_change :: "common \<Rightarrow> loaded_unit \<Rightarrow> service_entry \<Rightarrow> service_entry" where
  "loaded_change c u entry =
     (case u of (name, description, active, substate) \<Rightarrow>
        entry\<lparr>sve_description := infiltratr_copy_string c 256 description, sve_active := infiltratr_copy_string c 32 active,
          sve_substate := infiltratr_copy_string c 64 substate\<rparr>)"

definition file_change :: "common \<Rightarrow> unit_file \<Rightarrow> service_entry \<Rightarrow> service_entry" where
  "file_change c f entry = entry\<lparr>sve_startup := infiltratr_copy_string c 64 (snd f)\<rparr>"

definition merge_loaded_units :: "common \<Rightarrow> service_host \<Rightarrow> loaded_unit list \<Rightarrow> service_table \<Rightarrow> service_table option" where
  "merge_loaded_units c h units table =
     foldM (\<lambda>t u. if \<not> service_suffix (fst u) then Some t else service_update c h (loaded_change c u) (fst u) t) table units"

definition merge_unit_files :: "common \<Rightarrow> service_host \<Rightarrow> unit_file list \<Rightarrow> service_table \<Rightarrow> service_table option" where
  "merge_unit_files c h unit_files table =
     foldM (\<lambda>t f. let unit_name = sh_basename h (fst f)
       in if \<not> service_suffix unit_name then Some t else service_update c h (file_change c f) unit_name t) table unit_files"

definition service_compare :: "service_entry \<Rightarrow> service_entry \<Rightarrow> int" where
  "service_compare a b = strcmp (sve_name a) (sve_name b)"

datatype service_error = Bus_Unavailable | Call_Failed | Inventory_Memory

text \<open>The second reply is optional: without it the loaded units alone are shown.\<close>

definition collect_services ::
    "common \<Rightarrow> service_host \<Rightarrow> loaded_unit list option \<Rightarrow> unit_file list option \<Rightarrow> service_error + service_entry list" where
  "collect_services c h list_units list_unit_files =
     (case list_units of
        None \<Rightarrow> Inl Call_Failed
      | Some units \<Rightarrow>
          (case merge_loaded_units c h units ([], Map.empty) of
             None \<Rightarrow> Inl Inventory_Memory
           | Some table \<Rightarrow>
               (case (case list_unit_files of None \<Rightarrow> Some table | Some unit_files \<Rightarrow> merge_unit_files c h unit_files table) of
                  None \<Rightarrow> Inl Inventory_Memory
                | Some (entries, _) \<Rightarrow> Inr (if 1 < length entries then qsort service_compare entries else entries))))"

definition lsm_service_backend_collect ::
    "common \<Rightarrow> service_host \<Rightarrow> bool \<Rightarrow> loaded_unit list option \<Rightarrow> unit_file list option \<Rightarrow> service_error + service_entry list" where
  "lsm_service_backend_collect c h bus list_units list_unit_files =
     (if \<not> bus then Inl Bus_Unavailable else collect_services c h list_units list_unit_files)"

definition lsm_service_backend_state_is_enabled :: "common \<Rightarrow> string \<Rightarrow> bool" where
  "lsm_service_backend_state_is_enabled c state \<longleftrightarrow>
     infiltratr_string_starts_with c state ''enabled'' \<or> infiltratr_string_starts_with c state ''linked'' \<or> state = ''alias''"

subsection \<open>Actions\<close>

datatype service_action = Start_Service | Stop_Service | Restart_Service | Enable_Service | Disable_Service

text \<open>A call on the manager; \<^verbatim>\<open>answer\<close> says whether it was answered, given the calls before it.\<close>

datatype manager_call = Unit_Call string string string | Enable_Files "string list" bool bool | Disable_Files "string list" bool | Reload

definition action_call :: "string \<Rightarrow> service_action \<Rightarrow> manager_call \<times> bool" where
  "action_call name action =
     (case action of
        Start_Service \<Rightarrow> (Unit_Call ''StartUnit'' name ''replace'', False)
      | Stop_Service \<Rightarrow> (Unit_Call ''StopUnit'' name ''replace'', False)
      | Restart_Service \<Rightarrow> (Unit_Call ''RestartUnit'' name ''replace'', False)
      | Enable_Service \<Rightarrow> (Enable_Files [name] False True, True)
      | Disable_Service \<Rightarrow> (Disable_Files [name] False, True))"

definition lsm_service_backend_action ::
    "bool \<Rightarrow> (manager_call list \<Rightarrow> manager_call \<Rightarrow> bool) \<Rightarrow> string \<Rightarrow> service_action \<Rightarrow> bool \<times> manager_call list" where
  "lsm_service_backend_action bus answer name action =
     (if name = [] then (False, [])
      else case action_call name action of (call, reload_after) \<Rightarrow>
        if \<not> bus then (False, [])
        else if \<not> answer [] call then (False, [call])
        else if \<not> reload_after then (True, [call])
        else (answer [call] Reload, [call, Reload]))"

subsection \<open>The table against a map\<close>

text \<open>
  The table represents the map from the names met so far to their entries: the index is a bijection
  to the positions.
\<close>

definition represents :: "common \<Rightarrow> service_table \<Rightarrow> string set \<Rightarrow> (string \<Rightarrow> service_entry) \<Rightarrow> bool" where
  "represents c table names view \<longleftrightarrow>
     dom (snd table) = names \<and> finite names \<and> bij_betw (the \<circ> snd table) names {..<length (fst table)} \<and>
     (\<forall>name\<in>names. fst table ! the (snd table name) = view name) \<and> (\<forall>name. name \<notin> names \<longrightarrow> view name = service_default c name)"

lemma represents_empty: "represents c ([], Map.empty) {} (service_default c)"
  by (simp add: represents_def bij_betw_def)

lemma represents_update:
  assumes "represents c table names view" "service_update c h change name table = Some table'"
  shows "represents c table' (insert name names) (view(name := change (view name)))"
proof -
  obtain entries by_name where table: "table = (entries, by_name)" by force
  let ?pos = "the \<circ> by_name"
  have rep: "dom by_name = names" "finite names" "bij_betw ?pos names {..<length entries}"
    "\<And>k. k \<in> names \<Longrightarrow> entries ! the (by_name k) = view k" "\<And>k. k \<notin> names \<Longrightarrow> view k = service_default c k"
    using assms(1) by (auto simp: represents_def table)
  have inj: "inj_on ?pos names" and range: "?pos ` names = {..<length entries}" using rep(3) by (simp_all add: bij_betw_def)
  have below: "the (by_name k) < length entries" if "k \<in> names" for k using range that by (force simp: image_iff)
  show ?thesis
  proof (cases "name \<in> names")
    case True
    then obtain i where i: "by_name name = Some i" using rep(1) by blast
    have "i < length entries" using below [OF True] i by simp
    then have table': "table' = (entries[i := change (entries ! i)], by_name)"
      using assms(2) i by (simp add: service_update_def service_get_def service_find_def table)
    have "entries[i := change (entries ! i)] ! the (by_name k) = (view(name := change (view name))) k" if "k \<in> names" for k
    proof (cases "k = name")
      case False
      then have "the (by_name k) \<noteq> i" using inj that True i by (auto simp: inj_on_def)
      then show ?thesis using False rep(4) [OF that] by simp
    qed (use rep(4) [OF True] i \<open>i < length entries\<close> in simp)
    then show ?thesis using True rep by (simp add: represents_def table' insert_absorb)
  next
    case False
    then have none: "by_name name = None" using rep(1) by blast
    then have table': "table' = (entries @ [change (service_default c name)], by_name(name \<mapsto> length entries))"
      using assms(2) by (auto simp: service_update_def service_get_def service_find_def table split: if_split_asm)
    let ?pos' = "the \<circ> (by_name(name \<mapsto> length entries))"
    have same: "?pos' k = ?pos k" if "k \<in> names" for k using that False by auto
    have "bij_betw ?pos' names {..<length entries}" using rep(3) same by (simp cong: bij_betw_cong)
    then have "bij_betw ?pos' (names \<union> {name}) ({..<length entries} \<union> {length entries})"
      by (rule bij_betw_combine) (auto simp: bij_betw_def)
    then have "bij_betw ?pos' (insert name names) {..<length (fst table')}"
      by (simp add: table' lessThan_Suc)
    moreover have "fst table' ! the (snd table' k) = (view(name := change (view name))) k" if "k \<in> insert name names" for k
    proof (cases "k = name")
      case True
      then show ?thesis using rep(5) [OF False] by (simp add: table')
    next
      case other: False
      then have "k \<in> names" using that by simp
      then show ?thesis using below [of k] rep(4) [of k] other by (simp add: table' nth_append)
    qed
    ultimately show ?thesis using rep False by (simp add: represents_def table' insert_commute)
  qed
qed

text \<open>A run of updates by the services among the keys of a list: the last one of a name decides.\<close>

definition last_of :: "('x \<Rightarrow> string) \<Rightarrow> 'x list \<Rightarrow> string \<Rightarrow> 'x option" where
  "last_of key xs name = find (\<lambda>x. key x = name) (rev xs)"

definition changed_view ::
    "('x \<Rightarrow> string) \<Rightarrow> ('x \<Rightarrow> service_entry \<Rightarrow> service_entry) \<Rightarrow> 'x list \<Rightarrow> (string \<Rightarrow> service_entry) \<Rightarrow> string \<Rightarrow> service_entry" where
  "changed_view key change xs view name =
     (if service_suffix name then (case last_of key xs name of None \<Rightarrow> view name | Some x \<Rightarrow> change x (view name)) else view name)"

lemma last_of_Cons:
  "last_of key (x # xs) name =
     (case last_of key xs name of Some y \<Rightarrow> Some y | None \<Rightarrow> if key x = name then Some x else None)"
proof -
  have "find P (ys @ [x]) = (case find P ys of Some y \<Rightarrow> Some y | None \<Rightarrow> if P x then Some x else None)" for P ys
    by (induction ys) auto
  then show ?thesis by (simp add: last_of_def)
qed

lemma changed_view_Cons:
  assumes "\<And>x y e. change x (change y e) = change x e"
  shows "changed_view key change (x # xs) view =
    changed_view key change xs (if service_suffix (key x) then view(key x := change x (view (key x))) else view)"
  by (rule ext) (auto simp: changed_view_def last_of_Cons assms split: option.split)

lemma represents_updates:
  assumes "\<And>x y e. change x (change y e) = change x e"
    and "foldM (\<lambda>t x. if \<not> service_suffix (key x) then Some t else service_update c h (change x) (key x) t) table xs = Some table'"
    and "represents c table names view"
  shows "represents c table' (names \<union> {name \<in> key ` set xs. service_suffix name}) (changed_view key change xs view)"
  using assms(2,3)
proof (induction xs arbitrary: table names view)
  case Nil
  have "changed_view key change [] view = view" by (simp add: fun_eq_iff changed_view_def last_of_def)
  then show ?case using Nil by simp
next
  case (Cons x xs)
  show ?case
  proof (cases "service_suffix (key x)")
    case False
    then have names: "{name \<in> key ` set (x # xs). service_suffix name} = {name \<in> key ` set xs. service_suffix name}" by auto
    show ?thesis
      unfolding names changed_view_Cons [of change, OF assms(1)] using Cons False by simp
  next
    case True
    then obtain table1 where step: "service_update c h (change x) (key x) table = Some table1"
      "foldM (\<lambda>t x. if \<not> service_suffix (key x) then Some t else service_update c h (change x) (key x) t) table1 xs = Some table'"
      using Cons.prems(1) by (auto split: option.split_asm)
    have names: "names \<union> {name \<in> key ` set (x # xs). service_suffix name} =
        insert (key x) names \<union> {name \<in> key ` set xs. service_suffix name}" using True by auto
    show ?thesis
      unfolding names changed_view_Cons [of change, OF assms(1)]
      using Cons.IH [OF step(2) represents_update [OF Cons.prems(2) step(1)]] True by (simp add: fun_upd_def)
  qed
qed

subsection \<open>Properties\<close>

definition unit_names :: "service_host \<Rightarrow> loaded_unit list \<Rightarrow> unit_file list \<Rightarrow> string set" where
  "unit_names h units unit_files = {name \<in> fst ` set units \<union> (\<lambda>f. sh_basename h (fst f)) ` set unit_files. service_suffix name}"

text \<open>What the last report of each kind says about a service.\<close>

definition service_view :: "common \<Rightarrow> service_host \<Rightarrow> loaded_unit list \<Rightarrow> unit_file list \<Rightarrow> string \<Rightarrow> service_entry" where
  "service_view c h units unit_files name =
     (let loaded = (case last_of fst units name of None \<Rightarrow> service_default c name | Some u \<Rightarrow> loaded_change c u (service_default c name))
      in case last_of (\<lambda>f. sh_basename h (fst f)) unit_files name of None \<Rightarrow> loaded | Some f \<Rightarrow> file_change c f loaded)"

lemma collected_table:
  assumes "merge_loaded_units c h units ([], Map.empty) = Some table"
    and "merge_unit_files c h unit_files table = Some table'"
  shows "\<exists>view. represents c table' (unit_names h units unit_files) view \<and>
    (\<forall>name\<in>unit_names h units unit_files. view name = service_view c h units unit_files name)"
proof -
  have "represents c table ({} \<union> {name \<in> fst ` set units. service_suffix name})
      (changed_view fst (loaded_change c) units (service_default c))"
    by (rule represents_updates [OF _ assms(1) [unfolded merge_loaded_units_def] represents_empty])
      (simp add: loaded_change_def split: prod.split)
  then have "represents c table' ({name \<in> fst ` set units. service_suffix name} \<union>
        {name \<in> (\<lambda>f. sh_basename h (fst f)) ` set unit_files. service_suffix name})
      (changed_view (\<lambda>f. sh_basename h (fst f)) (file_change c) unit_files (changed_view fst (loaded_change c) units (service_default c)))"
    by (intro represents_updates [OF _ assms(2) [unfolded merge_unit_files_def Let_def]]) (simp_all add: file_change_def)
  moreover have "{name \<in> fst ` set units. service_suffix name} \<union> {name \<in> (\<lambda>f. sh_basename h (fst f)) ` set unit_files. service_suffix name} =
      unit_names h units unit_files" by (auto simp: unit_names_def)
  moreover have "changed_view (\<lambda>f. sh_basename h (fst f)) (file_change c) unit_files
      (changed_view fst (loaded_change c) units (service_default c)) name = service_view c h units unit_files name"
    if "name \<in> unit_names h units unit_files" for name
    using that by (simp add: unit_names_def changed_view_def service_view_def Let_def split: option.split)
  ultimately show ?thesis by (intro exI conjI ballI) (assumption | simp)+
qed

lemma represents_entries:
  assumes "represents c (entries, by_name) names view"
  shows "set entries = view ` names" "length entries = card names"
proof -
  have rep: "bij_betw (the \<circ> by_name) names {..<length entries}" "\<And>k. k \<in> names \<Longrightarrow> entries ! the (by_name k) = view k"
    using assms by (simp_all add: represents_def)
  have "set entries = (!) entries ` {..<length entries}" by (auto simp: set_conv_nth)
  also have "\<dots> = (!) entries ` (the \<circ> by_name) ` names" using rep(1) by (simp add: bij_betw_def)
  also have "\<dots> = view ` names" using rep(2) by (auto simp: image_image)
  finally show "set entries = view ` names" .
  show "length entries = card names" using bij_betw_same_card [OF rep(1)] by simp
qed

lemma sorted_services:
  "sorted (map (\<lambda>e. byte_values (sve_name e)) (if 1 < length entries then qsort service_compare entries else entries))"
  "set (if 1 < length entries then qsort service_compare entries else entries) = set entries"
  "length (if 1 < length entries then qsort service_compare entries else entries) = length entries"
proof -
  have q: "qsort service_compare entries = sort_key (\<lambda>e. byte_values (sve_name e)) entries"
    by (rule qsort_sort_key) (simp add: service_compare_def strcmp_le)
  show "sorted (map (\<lambda>e. byte_values (sve_name e)) (if 1 < length entries then qsort service_compare entries else entries))"
  proof (cases "1 < length entries")
    case False
    then show ?thesis by (cases entries) auto
  qed (simp add: q)
  show "set (if 1 < length entries then qsort service_compare entries else entries) = set entries"
    "length (if 1 < length entries then qsort service_compare entries else entries) = length entries"
    by (simp_all add: q)
qed

text \<open>
  An inventory that is delivered lists every service of either reply exactly once, sorted by name, with
  the last reported state of the loaded unit and the last reported start-up state of its file, and the
  inactive defaults for what was not reported; a missing second reply counts as an empty one.
\<close>

theorem service_inventory_exact:
  assumes "lsm_service_backend_collect c h True (Some units) list_unit_files = Inr entries"
  defines "unit_files \<equiv> (case list_unit_files of None \<Rightarrow> [] | Some fs \<Rightarrow> fs)"
  shows "sorted (map (\<lambda>e. byte_values (sve_name e)) entries) \<and> length entries = card (unit_names h units unit_files) \<and>
    set entries = service_view c h units unit_files ` unit_names h units unit_files"
proof -
  obtain table where loaded: "merge_loaded_units c h units ([], Map.empty) = Some table"
    using assms(1) by (auto simp: lsm_service_backend_collect_def collect_services_def split: option.split_asm)
  then obtain kept by_name where merged: "merge_unit_files c h unit_files table = Some (kept, by_name)"
      "entries = (if 1 < length kept then qsort service_compare kept else kept)"
    using assms(1) unfolding unit_files_def
    by (cases list_unit_files)
      (auto simp: lsm_service_backend_collect_def collect_services_def merge_unit_files_def split: option.split_asm prod.split_asm)
  obtain view where view: "represents c (kept, by_name) (unit_names h units unit_files) view"
    "\<forall>name\<in>unit_names h units unit_files. view name = service_view c h units unit_files name"
    using collected_table [OF loaded merged(1)] by blast
  have "set kept = service_view c h units unit_files ` unit_names h units unit_files"
    using represents_entries(1) [OF view(1)] view(2) by (auto simp: image_iff)
  then show ?thesis
    using represents_entries(2) [OF view(1)] sorted_services [of kept] unfolding merged(2) by simp
qed

end
