(* ===== verification/User_Sessions.thy ===== *)
theory User_Sessions
  imports Common_Library Monitor_Types
begin

text \<open>
  The session inventory (\<^verbatim>\<open>src/user_backend_linux.c\<close>): the login manager's list of sessions, the
  account behind each, and the properties asked for session by session. The replies of the bus, the
  account database and the cancellation are parameters.
\<close>

record user_session =
  us_id :: string
  us_account_identity :: string
  us_username :: string
  us_display_name :: string
  us_seat :: string
  us_state :: string
  us_type :: string
  us_session_class :: string
  us_tty :: string
  us_display :: string
  us_remote_host :: string
  us_remote :: bool
  us_leader :: u64
  us_timestamp_usec :: u64

record session_record =
  sr_session :: user_session
  sr_uid :: u32
  sr_object_path :: string

text \<open>One row of the list: identifier, user number, user name, seat, object path.\<close>

type_synonym session_row = "string \<times> u32 \<times> string \<times> string \<times> string"

text \<open>A property's value; reading it as another type gives the type's zero.\<close>

datatype session_value = Session_Text string | Session_Flag bool | Session_U32 u32 | Session_U64 u64

record login_host =
  lh_passwd :: "u32 \<Rightarrow> (string \<times> string) option" \<comment> \<open>login name and GECOS field\<close>
  lh_properties :: "string \<Rightarrow> (string \<times> session_value) list option" \<comment> \<open>\<open>None\<close> when the call failed\<close>
  lh_cancelled :: "nat \<Rightarrow> bool" \<comment> \<open>before the session at that position\<close>
  lh_reserve :: "nat \<Rightarrow> bool"

definition property_string :: "common \<Rightarrow> (string \<times> session_value) list \<Rightarrow> string \<Rightarrow> nat \<Rightarrow> string \<Rightarrow> string" where
  "property_string c dictionary key buffer_size buffer =
     (case map_of dictionary key of Some (Session_Text v) \<Rightarrow> infiltratr_copy_string c buffer_size v | _ \<Rightarrow> buffer)"

definition property_boolean :: "(string \<times> session_value) list \<Rightarrow> string \<Rightarrow> bool" where
  "property_boolean dictionary key = (case map_of dictionary key of Some (Session_Flag v) \<Rightarrow> v | _ \<Rightarrow> False)"

definition property_uint32 :: "(string \<times> session_value) list \<Rightarrow> string \<Rightarrow> u32" where
  "property_uint32 dictionary key = (case map_of dictionary key of Some (Session_U32 v) \<Rightarrow> v | _ \<Rightarrow> 0)"

definition property_uint64 :: "(string \<times> session_value) list \<Rightarrow> string \<Rightarrow> u64" where
  "property_uint64 dictionary key = (case map_of dictionary key of Some (Session_U64 v) \<Rightarrow> v | _ \<Rightarrow> 0)"

definition fill_account_identity :: "common \<Rightarrow> login_host \<Rightarrow> session_record \<Rightarrow> session_record" where
  "fill_account_identity c h r =
     (let session = sr_session r;
          display = (case lh_passwd h (sr_uid r) of
              Some (login, gecos) \<Rightarrow>
                if gecos \<noteq> [] then takeWhile (\<lambda>x. x \<noteq> CHR '','') (infiltratr_copy_string c LSM_NAME_LEN gecos)
                else if login \<noteq> [] then login else us_username session
            | None \<Rightarrow> us_username session)
      in r\<lparr>sr_session := session\<lparr>us_account_identity := take 127 (''uid:'' @ nat_text (unat (sr_uid r))),
             us_display_name := infiltratr_copy_string c LSM_NAME_LEN display\<rparr>\<rparr>)"

definition blank_session :: user_session where
  "blank_session = \<lparr>us_id = [], us_account_identity = [], us_username = [], us_display_name = [], us_seat = [], us_state = [],
     us_type = [], us_session_class = [], us_tty = [], us_display = [], us_remote_host = [], us_remote = False, us_leader = 0,
     us_timestamp_usec = 0\<rparr>"

definition session_of_row :: "common \<Rightarrow> login_host \<Rightarrow> session_row \<Rightarrow> session_record" where
  "session_of_row c h row =
     (case row of (ident, uid, username, seat, path) \<Rightarrow>
        fill_account_identity c h
          \<lparr>sr_session = blank_session\<lparr>us_id := infiltratr_copy_string c 64 ident,
             us_username := infiltratr_copy_string c 64 username, us_seat := infiltratr_copy_string c 64 seat\<rparr>,
           sr_uid = uid, sr_object_path = infiltratr_copy_string c LSM_PATH_LEN path\<rparr>)"

definition parse_session_list :: "common \<Rightarrow> login_host \<Rightarrow> session_row list \<Rightarrow> session_record list option" where
  "parse_session_list c h reply =
     foldM (\<lambda>sessions row. if lh_reserve h (length sessions + 1) then Some (sessions @ [session_of_row c h row]) else None) [] reply"

text \<open>The properties of one session, with what is shown when they are missing.\<close>

definition read_session :: "common \<Rightarrow> login_host \<Rightarrow> session_record \<Rightarrow> session_record" where
  "read_session c h r =
     (let session = sr_session r;
          filled = (case lh_properties h (sr_object_path r) of
              None \<Rightarrow> session\<lparr>us_state := infiltratr_copy_string c 32 ''unavailable''\<rparr>
            | Some properties \<Rightarrow>
                let session = session\<lparr>
                      us_state := property_string c properties ''State'' 32 (us_state session),
                      us_type := property_string c properties ''Type'' 64 (us_type session),
                      us_session_class := property_string c properties ''Class'' 64 (us_session_class session),
                      us_tty := property_string c properties ''TTY'' 64 (us_tty session),
                      us_display := property_string c properties ''Display'' 64 (us_display session),
                      us_remote_host := property_string c properties ''RemoteHost'' LSM_NAME_LEN (us_remote_host session),
                      us_remote := property_boolean properties ''Remote'',
                      us_leader := ucast (property_uint32 properties ''Leader''),
                      us_timestamp_usec := property_uint64 properties ''Timestamp''\<rparr>
                in if us_state session = [] then session\<lparr>us_state := infiltratr_copy_string c 32 ''online''\<rparr> else session)
      in r\<lparr>sr_session := (if us_type filled = [] then filled\<lparr>us_type := infiltratr_copy_string c 64 ''unspecified''\<rparr> else filled)\<rparr>)"

text \<open>A cancellation leaves the remaining sessions as they are.\<close>

fun read_sessions :: "common \<Rightarrow> login_host \<Rightarrow> nat \<Rightarrow> session_record list \<Rightarrow> session_record list" where
  "read_sessions c h index [] = []"
| "read_sessions c h index (r # rs) =
     (if lh_cancelled h index then r # rs else read_session c h r # read_sessions c h (index + 1) rs)"

datatype session_error = Login_Bus | Login_Call | Session_Memory

definition collect_sessions :: "common \<Rightarrow> login_host \<Rightarrow> session_row list option \<Rightarrow> session_error + session_record list" where
  "collect_sessions c h reply =
     (case reply of
        None \<Rightarrow> Inl Login_Call
      | Some rows \<Rightarrow> (case parse_session_list c h rows of None \<Rightarrow> Inl Session_Memory | Some sessions \<Rightarrow> Inr (read_sessions c h 0 sessions)))"

definition lsm_user_backend_collect ::
    "common \<Rightarrow> login_host \<Rightarrow> bool \<Rightarrow> session_row list option \<Rightarrow> session_error + user_session list" where
  "lsm_user_backend_collect c h bus reply =
     (if \<not> bus then Inl Login_Bus
      else case collect_sessions c h reply of Inl e \<Rightarrow> Inl e | Inr native \<Rightarrow> Inr (map sr_session native))"

subsection \<open>The inventory\<close>

lemma parsed_sessions:
  "foldM (\<lambda>sessions row. if lh_reserve h (length sessions + 1) then Some (sessions @ [session_of_row c h row]) else None) start rows =
     Some sessions \<Longrightarrow> sessions = start @ map (session_of_row c h) rows"
  by (induction rows arbitrary: start) (fastforce split: if_split_asm)+

definition same_session :: "user_session \<Rightarrow> user_session \<Rightarrow> bool" where
  "same_session a b \<longleftrightarrow> us_id a = us_id b \<and> us_account_identity a = us_account_identity b \<and>
     us_username a = us_username b \<and> us_display_name a = us_display_name b \<and> us_seat a = us_seat b"

lemma read_session_same: "same_session (sr_session (read_session c h r)) (sr_session r)"
  by (simp add: read_session_def same_session_def Let_def split: option.split)

lemma read_sessions_same: "list_all2 (\<lambda>a b. same_session (sr_session a) (sr_session b)) (read_sessions c h k rs) rs"
proof (induction rs arbitrary: k)
  case (Cons r rs)
  then show ?case
    by (auto simp: read_session_same list_all2_same) (simp_all add: same_session_def list_all2_same)
qed simp

lemma read_session_texts:
  assumes "common_text_ok c"
  shows "us_state (sr_session (read_session c h r)) \<noteq> []" "us_type (sr_session (read_session c h r)) \<noteq> []"
    "lh_properties h (sr_object_path r) = None \<Longrightarrow> us_state (sr_session (read_session c h r)) = ''unavailable''"
  using assms by (auto simp: read_session_def common_text_ok_def Let_def split: option.split)

lemma read_sessions_nth:
  "i < length rs \<Longrightarrow> \<forall>j\<le>i. \<not> lh_cancelled h (k + j) \<Longrightarrow> read_sessions c h k rs ! i = read_session c h (rs ! i)"
proof (induction rs arbitrary: i k)
  case (Cons r rs)
  then have "\<not> lh_cancelled h k" by (metis add_0_right le0)
  moreover have "\<forall>j\<le>i'. \<not> lh_cancelled h (k + 1 + j)" if "i = Suc i'" for i'
    using Cons.prems(2) that by (metis Suc_le_mono add_Suc_right add.commute Suc_eq_plus1)
  ultimately show ?case using Cons by (cases i) auto
qed simp

text \<open>
  A delivered inventory lists every session of the reply once and in its order, with the account behind
  it; a session reached before a cancellation always shows a state and a type, \<^verbatim>\<open>unavailable\<close> exactly
  standing for properties that could not be read.
\<close>

theorem user_sessions_exact:
  assumes "common_text_ok c" "lsm_user_backend_collect c h True (Some rows) = Inr sessions"
  shows "list_all2 (\<lambda>session row. same_session session (sr_session (session_of_row c h row))) sessions rows \<and>
    (\<forall>i<length sessions. (\<forall>j\<le>i. \<not> lh_cancelled h j) \<longrightarrow> us_state (sessions ! i) \<noteq> [] \<and> us_type (sessions ! i) \<noteq> [] \<and>
       (lh_properties h (sr_object_path (session_of_row c h (rows ! i))) = None \<longrightarrow> us_state (sessions ! i) = ''unavailable''))"
proof -
  obtain native where native: "parse_session_list c h rows = Some native" "sessions = map sr_session (read_sessions c h 0 native)"
    using assms(2) by (auto simp: lsm_user_backend_collect_def collect_sessions_def split: option.split_asm)
  have rows: "native = map (session_of_row c h) rows"
    using parsed_sessions [OF native(1) [unfolded parse_session_list_def]] by simp
  have "list_all2 (\<lambda>session row. same_session session (sr_session (session_of_row c h row))) sessions rows"
    using read_sessions_same [of c h 0 native] unfolding native(2) rows by (simp add: list_all2_map1 list_all2_map2)
  moreover have "length (read_sessions c h 0 native) = length rows"
    using list_all2_lengthD [OF read_sessions_same [of c h 0 native]] by (simp add: rows)
  moreover have "sessions ! i = sr_session (read_session c h (session_of_row c h (rows ! i)))"
    if "i < length rows" "\<forall>j\<le>i. \<not> lh_cancelled h j" for i
    using that read_sessions_nth [of i native h 0 c] calculation(2) by (simp add: native(2) rows)
  ultimately show ?thesis
    using read_session_texts [OF assms(1)] by (simp add: native(2))
qed

text \<open>An account whose GECOS field holds only its separators is shown without any name.\<close>

lemma empty_gecos_hides_name:
  assumes "common_text_ok c" "lh_passwd h uid = Some (login, '',,,'')"
  shows "us_display_name (sr_session (session_of_row c h (ident, uid, username, seat, path))) = []"
  using assms by (simp add: session_of_row_def fill_account_identity_def common_text_ok_def LSM_NAME_LEN_def Let_def)

end
