(* ===== verification/Spec2Isabelle.thy ===== *)
theory Spec2Isabelle
  imports Sample_History Overview_History Top_Processes Cpu_Accounting Disk_Accounting
    Memory_Accounting Pressure Mountinfo Thermal_Policy Gpu_Metrics Process_Scanner
    Windows_Runtime Process_Recorder Smbios_Memory Hidpp_Worker History_Saving Pci_Names
    Preferences Column_Layout Bluetooth_Traffic Startup_Backend Process_Control Process_Gpu Process_Inspection Efficiency_Mode
    Process_Export Npu_Telemetry Storage_Metadata Filesystem_Inventory Hardware_Topology Bluetooth_Cache
    Service_Backend User_Sessions
begin

text \<open>
  System Monitor: a verification development of its core.

  System Monitor is a desktop process and resource monitor in C for Linux (GTK) and Windows. Collectors
  read \<^verbatim>\<open>/proc\<close>, \<^verbatim>\<open>/sys\<close>, firmware tables and devices; accounting modules turn what they read into the
  monitor snapshot \<^verbatim>\<open>LsmMonitor\<close> and the list of \<^verbatim>\<open>LsmProcessInfo\<close>; worker threads do the slow reads; bounded
  histories and selections derive what the pages show; stores keep preferences, layouts and the App
  History; actions signal, re-prioritise and export processes. This development models the accounting,
  parsing, retention, hand-off, persistence and action logic; widgets and most raw collectors stay
  outside, and what they deliver is an input.

  \<^bold>\<open>How the parts interact.\<close> \<^verbatim>\<open>cpu_accounting\<close>, \<^verbatim>\<open>disk_accounting\<close>, \<^verbatim>\<open>memory_accounting\<close>, \<^verbatim>\<open>pressure\<close> and \<^verbatim>\<open>mountinfo\<close>
  fill the snapshot; \<^verbatim>\<open>overview_history\<close> derives one sample per published generation and keeps a window of
  them, as \<^verbatim>\<open>sample_history\<close> does for every graph. The process backend scans \<^verbatim>\<open>/proc\<close> (\<^verbatim>\<open>process_backend_linux\<close>,
  \<^verbatim>\<open>process_gpu\<close>) on the worker of \<^verbatim>\<open>process_scanner\<close> (on Windows \<^verbatim>\<open>windows_process_runtime\<close>), which hands whole
  snapshots to the main loop; from there they reach the App History (\<^verbatim>\<open>history\<close>, \<^verbatim>\<open>history_persistence\<close>), the
  recorder (\<^verbatim>\<open>process_recorder\<close>), the top-process selection and the exports. Every action on a process goes
  through the identity check of the backend.

  \<^bold>\<open>Conventions.\<close> An array with its count is the list of its live entries, a character buffer the string
  it holds (cut where the code cuts it), a pointer that may be \<^verbatim>\<open>NULL\<close> an option, a fixed-width unsigned
  integer a word of its width, a \<^verbatim>\<open>double\<close> an IEEE value of \<open>Ieee_Double\<close> (NaN, infinities and rounding
  included). \<^verbatim>\<open>return false\<close> is \<open>None\<close>, a flag or an error value; early returns are branches. A read that C
  leaves undefined out of bounds is \<open>None\<close>, and shown not to occur. Allocation succeeds unless a
  definition takes an outcome for it. A section under a mutex is one definition, and a component with a
  thread is an \<open>inductive\<close> relation that interleaves these sections in every order; its theorems hold
  in every reachable state. The Common library is a git submodule without sources here: its functions
  are the record \<open>common\<close>, its documented behaviour the predicates \<open>common_*_ok\<close>, met by the concrete
  \<open>ref_common\<close>. System calls, GLib and the file system enter as parameters, outcomes or streams.

  \<^bold>\<open>The theories.\<close>

  \<^item> Shared: \<open>Prelude\<close> (integer types, rule collections, loops that may fail), \<open>C_String\<close> (\<^verbatim>\<open>strtok_r\<close>,
    \<^verbatim>\<open>strchr\<close>, \<^verbatim>\<open>fgets\<close>), \<open>Ieee_Double\<close>, \<open>Common_Library\<close>, \<open>Sorted_Arrays\<close> (\<^verbatim>\<open>qsort\<close>, binary search),
    \<open>Config_File\<close> (key=value files), \<open>Monitor_Types\<close> (\<^verbatim>\<open>monitor_types.h\<close>, \<^verbatim>\<open>process_model.h\<close>).
  \<^item> Contracts, each a locale interpreted on the code's model by its providers: \<open>Ring_Window\<close>
    (\<open>bounded_window\<close>: sample and overview history), \<open>Counter_Stream\<close> (\<open>counter_stream\<close>: CPU, disk,
    Bluetooth and accelerator counters), \<open>Ref_Counted\<close> (\<open>ref_counted\<close>: scanner and recorder),
    \<open>Snapshot_Mailbox\<close> (\<open>snapshot_mailbox\<close>: Linux scanner and Windows runtime), and \<open>column_schema\<close> of
    \<open>Column_Layout\<close> (both tables).
  \<^item> \<open>Sample_History\<close> (\<^verbatim>\<open>sample_history.c\<close>): a push in either direction shows exactly the last 600 entries.
  \<^item> \<open>Overview_Sample\<close>, \<open>Overview_History\<close>, \<open>Top_Processes\<close> (\<^verbatim>\<open>overview_history.c\<close>): derived percentages are in
    range, timestamps strictly increase, recording is refused or appends, the top processes are the
    first five of the documented order.
  \<^item> \<open>Cpu_Accounting\<close>, \<open>Disk_Accounting\<close>, \<open>Memory_Accounting\<close>, \<open>Pressure\<close>, \<open>Mountinfo\<close>, \<open>Thermal_Policy\<close>,
    \<open>Gpu_Metrics\<close> (the files of these names): parsers exact and all-or-nothing, rates withheld on
    rollback, thresholds ordered, readings selected.
  \<^item> \<open>Process_Stat\<close>, \<open>Process_Control\<close>, \<open>Efficiency_Mode\<close>, \<open>Process_Scan\<close> (\<^verbatim>\<open>process_backend_linux.c\<close>): the stat
    record is read back whatever the program is called; signals reach the identified process or nobody
    although the kernel moves between any two calls; a tree is signalled children first; efficiency mode
    restores what it changed; a scan is a transaction on the retained samples.
  \<^item> \<open>Process_Inspection\<close> (\<^verbatim>\<open>process_inspection.c\<close>): its identity check agrees with the one that guards
    actions, the users of a file are found exactly or the search fails.
  \<^item> \<open>Process_Gpu\<close> (\<^verbatim>\<open>process_gpu.c\<close>): a graphics client counts once, the busiest engine is shown; its
    operations are those \<open>Process_Scan\<close> takes as \<open>gpu_ops\<close>.
  \<^item> \<open>Process_Scanner\<close> (\<^verbatim>\<open>process_scanner.c\<close>) and \<open>Windows_Runtime\<close> (\<^verbatim>\<open>windows_process_runtime.c\<close>): lifetimes,
    no lost wake-up, newest snapshot, shutdown in bounded time.
  \<^item> \<open>Recorder_Csv\<close>, \<open>Process_Recorder\<close> (\<^verbatim>\<open>process_recorder.c\<close>): the file schema and its strict reader, the
    queue as a first-in-first-out channel that drains.
  \<^item> \<open>Process_Export\<close> (\<^verbatim>\<open>process_export.c\<close>, \<^verbatim>\<open>process_export_app.c\<close>, \<^verbatim>\<open>process_grouping.c\<close>): selection by
    identity, CSV rows, clipboard cells that are no formulas, group totals.
  \<^item> \<open>History_Retention\<close>, \<open>App_History\<close>, \<open>History_File\<close>, \<open>History_Saving\<close> (\<^verbatim>\<open>history.c\<close>, \<^verbatim>\<open>history_persistence.c\<close>):
    trimming against its reference order, exact accounting per instance, the file read back, and saves
    that never lose a change or let an older one win.
  \<^item> \<open>Smbios_Memory\<close> (\<^verbatim>\<open>smbios_memory.c\<close>), \<open>Hidpp_Protocol\<close>, \<open>Hidpp_Worker\<close> (\<^verbatim>\<open>logitech_hidpp*.c\<close>),
    \<open>Bluetooth_Traffic\<close> (\<^verbatim>\<open>bluetooth_traffic.c\<close>), \<open>Npu_Telemetry\<close> (\<^verbatim>\<open>npu_telemetry.c\<close>), \<open>Storage_Metadata\<close>
    (\<^verbatim>\<open>storage_metadata.c\<close>), \<open>Pci_Names\<close> (\<^verbatim>\<open>pci_names.c\<close> and the lookups of \<^verbatim>\<open>pci_names_data.c\<close>): readers of
    untrusted tables and devices stay in bounds and end, replies are matched, counters are exact, the
    cached and indexed name lookup equals the linear one.
  \<^item> \<open>Filesystem_Inventory\<close> (\<^verbatim>\<open>filesystem_inventory.c\<close>, over \<open>Mountinfo\<close>), \<open>Hardware_Topology\<close>
    (\<^verbatim>\<open>hardware_topology.c\<close>, whose locale \<open>device_identity\<close> the three kinds of device interpret),
    \<open>Bluetooth_Inventory\<close> and \<open>Bluetooth_Cache\<close> (\<^verbatim>\<open>bluetooth_battery.c\<close>), \<open>Service_Backend\<close>
    (\<^verbatim>\<open>service_backend_linux.c\<close>), \<open>User_Sessions\<close> (\<^verbatim>\<open>user_backend_linux.c\<close>): inventories are published whole or not at all, each member once and
    in order, survivors keep what was measured of them, summaries count exactly.
  \<^item> \<open>Preferences\<close> (\<^verbatim>\<open>preferences.c\<close>), \<open>Column_Layout\<close> (\<^verbatim>\<open>details_layout.c\<close>, \<^verbatim>\<open>filesystems.c\<close>), \<open>Startup_Backend\<close>
    (\<^verbatim>\<open>startup_backend_linux.c\<close>): what is saved is loaded back, whatever a file holds leaves a usable state,
    and the start-up inventory is the first-directory-wins reading.

  \<^bold>\<open>Bounds and termination.\<close> Capacities are the source's constants (600 samples, 120 overview samples,
  1024 efficiency slots, 128 links and graphics clients, the SMBIOS and App History limits). No
  definition runs on fuel: loops are recursions on their input or have a termination proof by a
  measure (\<open>fgets_chunks\<close>, \<open>lower_bound\<close>, the table walk of \<open>Smbios_Memory\<close>). Liveness of the workers is
  a measure that every step after shutdown decreases.

  \<^bold>\<open>Not modelled.\<close> The Common library (no sources). Raw collectors of Linux and Windows beyond the parsers
  above: their content is system calls. The memory map reader of the
  inspector, whose lines \<^verbatim>\<open>sscanf\<close> splits. The catalogue of applications and wireless details, a shell
  around desktop files, netlink and GTK. The texts of time and presentation, whose rules belong to Common. The generated PCI tables are
  data and a parameter. The GTK pages, graphs and dialogs: no state of their own beyond the widgets.
  Memory exhaustion is left out where an allocation failure only ends the operation.
\<close>

end
